(* ===== verification/Prelude.thy ===== *)
theory Prelude
  imports Main "HOL-Library.Word" "HOL-Library.Signed_Division" "HOL-Library.Monad_Syntax"
begin

text \<open>
  What every component of the development shares: names for the C integer types the program
  uses, C's checked signed arithmetic (overflow and division by zero are undefined behaviour,
  modelled as \<open>None\<close>), the little-endian byte layout of the compiled file format, and generic
  facts on lists and words.  The collection \<open>c_arith\<close> gathers the facts that resolve a checked
  signed operation whose exact result is in range.
\<close>

unbundle bit_operations_syntax

named_theorems c_arith
named_theorems bytes_simps

type_synonym u8 = "8 word"
type_synonym u16 = "16 word"
type_synonym u32 = "32 word"
type_synonym u64 = "64 word"
type_synonym bytes = "u8 list"

section \<open>Signed 64-bit arithmetic as C evaluates it\<close>

definition in_i64 :: "int \<Rightarrow> bool" where
  "in_i64 x \<longleftrightarrow> - (2 ^ 63) \<le> x \<and> x < 2 ^ 63"

definition i64_check :: "int \<Rightarrow> int option" where
  "i64_check x = (if in_i64 x then Some x else None)"

definition i64_add :: "int \<Rightarrow> int \<Rightarrow> int option" where
  "i64_add a b = i64_check (a + b)"

definition i64_sub :: "int \<Rightarrow> int \<Rightarrow> int option" where
  "i64_sub a b = i64_check (a - b)"

definition i64_mul :: "int \<Rightarrow> int \<Rightarrow> int option" where
  "i64_mul a b = i64_check (a * b)"

text \<open>C's \<open>/\<close> truncates towards zero and \<open>%\<close> takes the sign of the dividend.\<close>

definition i64_div :: "int \<Rightarrow> int \<Rightarrow> int option" where
  "i64_div a b = (if b = 0 then None else i64_check (a sdiv b))"

definition i64_mod :: "int \<Rightarrow> int \<Rightarrow> int option" where
  "i64_mod a b = (if b = 0 \<or> \<not> in_i64 (a sdiv b) then None else Some (a smod b))"

lemma i64_check_in [c_arith]: "in_i64 x \<Longrightarrow> i64_check x = Some x"
  by (simp add: i64_check_def)

lemma in_i64_sint [simp, intro]: "in_i64 (sint (w :: u64))"
  using sint_ge [of w] sint_less [of w] by (simp add: in_i64_def)

lemma sint_of_int_in [c_arith]: "in_i64 x \<Longrightarrow> sint (word_of_int x :: u64) = x"
  by (simp add: in_i64_def sint_sbintrunc' signed_take_bit_int_eq_self)

lemma abs_sdiv: "\<bar>a sdiv b\<bar> = \<bar>a\<bar> div \<bar>b :: int\<bar>"
  by (cases "a = 0 \<or> b = 0")
    (auto simp: signed_divide_int_def abs_mult abs_sgn_eq pos_imp_zdiv_nonneg_iff)

lemma sdiv_bounds: "\<bar>a sdiv b\<bar> \<le> \<bar>a :: int\<bar>"
  unfolding abs_sdiv using zdiv_mono2 [of "\<bar>a\<bar>" 1 "\<bar>b\<bar>"] by (cases "b = 0") auto

lemma abs_smod_less: "b \<noteq> 0 \<Longrightarrow> \<bar>a smod b\<bar> < \<bar>b :: int\<bar>"
  by (auto simp: signed_modulo_int_def abs_mult abs_sgn_eq)

lemma smod_one [simp]: "a smod 1 = (0 :: int)"
  by (simp add: signed_modulo_int_def)

lemma smod_between: "min a 0 \<le> a smod b \<and> a smod b \<le> max a (0 :: int)"
proof -
  have "0 \<le> \<bar>a\<bar> mod \<bar>b\<bar>" by (cases "b = 0") auto
  moreover have "\<bar>a\<bar> mod \<bar>b\<bar> \<le> \<bar>a\<bar>" by (rule zmod_le_nonneg_dividend) simp
  ultimately show ?thesis by (auto simp: signed_modulo_int_def sgn_if)
qed

section \<open>Sign extension\<close>

text \<open>The source's idiom \<open>(raw ^ signBit) - signBit\<close> on the low bits is sign extension.\<close>

lemma xor_minus_signed_take_bit:
  "(take_bit (Suc n) w XOR push_bit n 1) - push_bit n 1 = signed_take_bit n (w :: u64)"
proof -
  have flip: "take_bit (Suc n) w XOR push_bit n 1 =
      take_bit (Suc n) w + of_bool (\<not> bit w n) * 2 ^ n - of_bool (bit w n) * 2 ^ n"
    unfolding flip_bit_def [symmetric] flip_bit_eq_if
    by (cases "bit w n") (simp_all add: set_bit_eq unset_bit_eq bit_take_bit_iff)
  show ?thesis
    unfolding flip signed_take_bit_eq_take_bit_minus
    by (cases "bit w n") (simp_all add: push_bit_eq_mult)
qed

lemma signed_take_bit_word_self:
  assumes "- (2 ^ n) \<le> sint (w :: u64)" "sint w < 2 ^ n"
  shows "signed_take_bit n w = w"
proof -
  have "signed_take_bit n (word_of_int (sint w) :: u64) = word_of_int (signed_take_bit n (sint w))"
    by (rule signed_take_bit_of_int)
  with assms show ?thesis by (simp add: signed_take_bit_int_eq_self)
qed

lemma take_bit_word_self: "uint (w :: u64) < 2 ^ n \<Longrightarrow> take_bit n w = w"
  by (metis take_bit_int_eq_self uint_ge_0 unsigned_take_bit_eq word_uint_eqI)

lemma uint_sint_cases: "uint (w :: u64) = (if sint w < 0 then sint w + 2 ^ 64 else sint w)"
proof -
  have u: "uint w = sint w mod 2 ^ 64" using uint_sint [of w] by (simp add: take_bit_eq_mod)
  have b: "- (2 ^ 63) \<le> sint w" "sint w < 2 ^ 63" using in_i64_sint [of w] by (simp_all add: in_i64_def)
  show ?thesis
  proof (cases "sint w < 0")
    case True
    have "(sint w + 2 ^ 64) mod 2 ^ 64 = sint w + 2 ^ 64"
      using b True by (intro mod_pos_pos_trivial) auto
    then show ?thesis using True u by simp
  next
    case False
    then show ?thesis using b u by (simp add: mod_pos_pos_trivial)
  qed
qed

section \<open>Characters\<close>

text \<open>A character constant of the C source, and a string literal without its NUL.\<close>

definition ch :: "char \<Rightarrow> u8" where
  "ch c = word_of_nat (of_char c)"

definition ascii :: "string \<Rightarrow> bytes" where
  "ascii s = map ch s"

lemma ch_eq [simp]: "ch c = ch d \<longleftrightarrow> c = d"
proof
  assume "ch c = ch d"
  then have "of_char c = (of_char d :: nat)"
    by (simp add: ch_def word_of_nat_eq_iff take_bit_nat_eq_self)
  then show "c = d" by simp
qed simp

lemma ch_of_char: "\<exists>c. b = ch c"
proof
  have "unat b < 2 ^ LENGTH(8)" by (rule unsigned_less)
  then show "b = ch (char_of (unat b))" by (simp add: ch_def word_eq_iff_unsigned take_bit_nat_eq_self)
qed

lemma ch_inject: "inj ch"
  by (simp add: inj_def)

lemma ascii_surj: "\<exists>s. cs = ascii s"
proof (induction cs)
  case (Cons c cs)
  then obtain s d where "cs = ascii s" "c = ch d" using ch_of_char by blast
  then have "c # cs = ascii (d # s)" by (simp add: ascii_def)
  then show ?case ..
qed (simp add: ascii_def)

lemma ascii_eq [simp]: "ascii s = ascii t \<longleftrightarrow> s = t"
  by (simp add: ascii_def inj_map_eq_map [OF ch_inject])

lemma bind_SomeE:
  assumes "Option.bind x f = Some y"
  obtains a where "x = Some a" "f a = Some y"
  using assms by (auto simp: bind_eq_Some_conv)

end
