(* ===== verification/Number_Kind.thy ===== *)
theory Number_Kind
  imports Prelude
begin

text \<open>
  The number kinds of \<^verbatim>\<open>src/number_kind.h\<close> and \<^verbatim>\<open>src/number_kind.c\<close>.  A
  \<open>NumberPayload\<close> is a C union of an \<open>int64_t\<close>, a \<open>uint64_t\<close> and a \<open>double\<close>: it is modelled by
  its 64 bits, read as \<^term>\<open>sint\<close>, as \<^term>\<open>uint\<close> or (theory \<open>Float64\<close>) as a double.
\<close>

datatype NumberKind =
    NUMBER_KIND_I64 | NUMBER_KIND_I32 | NUMBER_KIND_I16 | NUMBER_KIND_I8
  | NUMBER_KIND_U64 | NUMBER_KIND_U32 | NUMBER_KIND_U16 | NUMBER_KIND_U8
  | NUMBER_KIND_F64 | NUMBER_KIND_F32

type_synonym NumberPayload = u64

record NumberKindInfo =
  ki_name :: string
  ki_size :: nat
  ki_isSigned :: bool
  ki_isFloat :: bool

text \<open>The enumeration in the order of the C enum, whose ordinals are stored in bytecode.\<close>

definition all_kinds :: "NumberKind list" where
  "all_kinds =
     [NUMBER_KIND_I64, NUMBER_KIND_I32, NUMBER_KIND_I16, NUMBER_KIND_I8,
      NUMBER_KIND_U64, NUMBER_KIND_U32, NUMBER_KIND_U16, NUMBER_KIND_U8,
      NUMBER_KIND_F64, NUMBER_KIND_F32]"

definition NUMBER_KIND_COUNT :: nat where
  "NUMBER_KIND_COUNT = 10"

fun kind_ordinal :: "NumberKind \<Rightarrow> nat" where
  "kind_ordinal NUMBER_KIND_I64 = 0"
| "kind_ordinal NUMBER_KIND_I32 = 1"
| "kind_ordinal NUMBER_KIND_I16 = 2"
| "kind_ordinal NUMBER_KIND_I8 = 3"
| "kind_ordinal NUMBER_KIND_U64 = 4"
| "kind_ordinal NUMBER_KIND_U32 = 5"
| "kind_ordinal NUMBER_KIND_U16 = 6"
| "kind_ordinal NUMBER_KIND_U8 = 7"
| "kind_ordinal NUMBER_KIND_F64 = 8"
| "kind_ordinal NUMBER_KIND_F32 = 9"

definition kind_of_ordinal :: "nat \<Rightarrow> NumberKind option" where
  "kind_of_ordinal n = (if n < NUMBER_KIND_COUNT then Some (all_kinds ! n) else None)"

fun numberKindInfo :: "NumberKind \<Rightarrow> NumberKindInfo" where
  "numberKindInfo NUMBER_KIND_I64 = \<lparr>ki_name = ''i64'', ki_size = 8, ki_isSigned = True, ki_isFloat = False\<rparr>"
| "numberKindInfo NUMBER_KIND_I32 = \<lparr>ki_name = ''i32'', ki_size = 4, ki_isSigned = True, ki_isFloat = False\<rparr>"
| "numberKindInfo NUMBER_KIND_I16 = \<lparr>ki_name = ''i16'', ki_size = 2, ki_isSigned = True, ki_isFloat = False\<rparr>"
| "numberKindInfo NUMBER_KIND_I8 = \<lparr>ki_name = ''i8'', ki_size = 1, ki_isSigned = True, ki_isFloat = False\<rparr>"
| "numberKindInfo NUMBER_KIND_U64 = \<lparr>ki_name = ''u64'', ki_size = 8, ki_isSigned = False, ki_isFloat = False\<rparr>"
| "numberKindInfo NUMBER_KIND_U32 = \<lparr>ki_name = ''u32'', ki_size = 4, ki_isSigned = False, ki_isFloat = False\<rparr>"
| "numberKindInfo NUMBER_KIND_U16 = \<lparr>ki_name = ''u16'', ki_size = 2, ki_isSigned = False, ki_isFloat = False\<rparr>"
| "numberKindInfo NUMBER_KIND_U8 = \<lparr>ki_name = ''u8'', ki_size = 1, ki_isSigned = False, ki_isFloat = False\<rparr>"
| "numberKindInfo NUMBER_KIND_F64 = \<lparr>ki_name = ''f64'', ki_size = 8, ki_isSigned = True, ki_isFloat = True\<rparr>"
| "numberKindInfo NUMBER_KIND_F32 = \<lparr>ki_name = ''f32'', ki_size = 4, ki_isSigned = True, ki_isFloat = True\<rparr>"

abbreviation isFloatKind :: "NumberKind \<Rightarrow> bool" where
  "isFloatKind k \<equiv> ki_isFloat (numberKindInfo k)"

abbreviation isSignedKind :: "NumberKind \<Rightarrow> bool" where
  "isSignedKind k \<equiv> ki_isSigned (numberKindInfo k)"

text \<open>\<open>(int64_t)(UINT64_MAX << (info->size * 8 - 1))\<close>, kept as the 64 bits of the \<open>int64_t\<close>.\<close>

definition numberKindMin :: "NumberKind \<Rightarrow> u64" where
  "numberKindMin kind =
     (let info = numberKindInfo kind
      in if \<not> ki_isSigned info then 0
         else push_bit (ki_size info * 8 - 1) (- 1))"

definition numberKindMax :: "NumberKind \<Rightarrow> u64" where
  "numberKindMax kind =
     (let info = numberKindInfo kind;
          bits = ki_size info * 8 - (if ki_isSigned info then 1 else 0)
      in if bits = 64 then - 1 else push_bit bits 1 - 1)"

fun kind_from_name_loop :: "string \<Rightarrow> NumberKind list \<Rightarrow> NumberKind option" where
  "kind_from_name_loop name [] = None"
| "kind_from_name_loop name (k # ks) =
     (if ki_name (numberKindInfo k) = name then Some k else kind_from_name_loop name ks)"

definition numberKindFromName :: "string \<Rightarrow> NumberKind option" where
  "numberKindFromName name = kind_from_name_loop name all_kinds"

section \<open>The range of a kind\<close>

definition kind_lo :: "NumberKind \<Rightarrow> int" where
  "kind_lo k = (if isSignedKind k then - (2 ^ (ki_size (numberKindInfo k) * 8 - 1)) else 0)"

definition kind_hi :: "NumberKind \<Rightarrow> int" where
  "kind_hi k =
     (if isSignedKind k then 2 ^ (ki_size (numberKindInfo k) * 8 - 1) - 1
      else 2 ^ (ki_size (numberKindInfo k) * 8) - 1)"

definition in_kind :: "NumberKind \<Rightarrow> int \<Rightarrow> bool" where
  "in_kind k x \<longleftrightarrow> kind_lo k \<le> x \<and> x \<le> kind_hi k"

text \<open>The number an integer payload stands for.\<close>

definition int_value :: "NumberKind \<Rightarrow> NumberPayload \<Rightarrow> int" where
  "int_value k p = (if isSignedKind k then sint p else uint p)"

text \<open>
  The representation invariant of integer payloads: signed values are sign-extended and
  unsigned ones zero-extended to the 64 bits of the union.
\<close>

definition payload_ok :: "NumberKind \<Rightarrow> NumberPayload \<Rightarrow> bool" where
  "payload_ok k p \<longleftrightarrow> isFloatKind k \<or> in_kind k (int_value k p)"

lemma all_kinds_complete [simp]: "k \<in> set all_kinds"
  by (cases k) (simp_all add: all_kinds_def)

lemma kind_ordinal_less [simp]: "kind_ordinal k < NUMBER_KIND_COUNT"
  by (cases k) (simp_all add: NUMBER_KIND_COUNT_def)

lemma kind_of_ordinal_ordinal [simp]: "kind_of_ordinal (kind_ordinal k) = Some k"
  by (cases k) (simp_all add: kind_of_ordinal_def all_kinds_def NUMBER_KIND_COUNT_def)

lemma kind_of_ordinal_None_iff: "kind_of_ordinal n = None \<longleftrightarrow> NUMBER_KIND_COUNT \<le> n"
  by (auto simp: kind_of_ordinal_def)

lemma kind_of_ordinal_Some: "kind_of_ordinal n = Some k \<Longrightarrow> kind_ordinal k = n"
  by (auto simp: kind_of_ordinal_def NUMBER_KIND_COUNT_def all_kinds_def less_Suc_eq
      numeral_eq_Suc split: if_splits)

lemma sint_numberKindMin: "isSignedKind k \<Longrightarrow> sint (numberKindMin k) = kind_lo k"
  by (cases k) (simp_all add: numberKindMin_def kind_lo_def mask_eq_exp_minus_1 not_eq_complement)

lemma uint_numberKindMin: "\<not> isSignedKind k \<Longrightarrow> numberKindMin k = 0"
  by (simp add: numberKindMin_def)

lemma uint_numberKindMax: "uint (numberKindMax k) = kind_hi k"
  by (cases k) (simp_all add: numberKindMax_def kind_hi_def unsigned_minus_1_eq_mask mask_eq_exp_minus_1)

lemma sint_numberKindMax: "isSignedKind k \<Longrightarrow> sint (numberKindMax k) = kind_hi k"
  by (cases k) (simp_all add: numberKindMax_def kind_hi_def)

lemma signed_kind_bounds:
  "isSignedKind k \<Longrightarrow> - (2 ^ 63) \<le> kind_lo k \<and> kind_lo k \<le> -128 \<and> 127 \<le> kind_hi k \<and>
     kind_hi k < 2 ^ 63 \<and> kind_hi k = - kind_lo k - 1"
  by (cases k) (simp_all add: kind_lo_def kind_hi_def)

lemma unsigned_kind_bounds:
  "\<not> isSignedKind k \<Longrightarrow> kind_lo k = 0 \<and> 255 \<le> kind_hi k \<and> kind_hi k < 2 ^ 64"
  by (cases k) (simp_all add: kind_lo_def kind_hi_def)

lemma in_kind_in_i64: "isSignedKind k \<Longrightarrow> in_kind k x \<Longrightarrow> in_i64 x"
  using signed_kind_bounds [of k] by (simp add: in_kind_def in_i64_def)

lemma float_kind_signed [simp]: "isFloatKind k \<Longrightarrow> isSignedKind k"
  by (cases k) simp_all

lemma numberKindFromName_name: "numberKindFromName (ki_name (numberKindInfo k)) = Some k"
  by (cases k) (simp_all add: numberKindFromName_def all_kinds_def)

end
