(* ===== verification/Float64.thy ===== *)
theory Float64
  imports Prelude
begin

text \<open>
  The \<open>double\<close> of C as the program uses it: IEEE 754 binary64 values held as their 64 bits,
  arithmetic computed exactly on integers and rounded to nearest, ties to even, and the
  rounding of a double to single precision (\<open>(double)(float)x\<close>).  A result that is not a number
  is always the positive quiet NaN: C leaves a NaN's sign and payload open.
\<close>

section \<open>Values of a double\<close>

text \<open>\<open>Fin s m e\<close> is \<open>(-1)^s * m * 2^e\<close>.\<close>

datatype fp = NaN | Inf bool | Fin bool nat int

definition fp_decode :: "u64 \<Rightarrow> fp" where
  "fp_decode w =
     (let s = bit w 63;
          ex = unat (take_bit 11 (drop_bit 52 w));
          fr = unat (take_bit 52 w)
      in if ex = 2047 then (if fr = 0 then Inf s else NaN)
         else if ex = 0 then Fin s fr (- 1074)
         else Fin s (fr + 2 ^ 52) (int ex - 1075))"

definition fp_assemble :: "bool \<Rightarrow> nat \<Rightarrow> nat \<Rightarrow> u64" where
  "fp_assemble s ex fr = word_of_nat ((if s then 2 ^ 63 else 0) + ex * 2 ^ 52 + fr)"

fun fp_encode :: "fp \<Rightarrow> u64" where
  "fp_encode NaN = fp_assemble False 2047 (2 ^ 51)"
| "fp_encode (Inf s) = fp_assemble s 2047 0"
| "fp_encode (Fin s m e) =
     (if m < 2 ^ 52 then fp_assemble s 0 m
      else fp_assemble s (nat (e + 1075)) (m - 2 ^ 52))"

section \<open>Rounding\<close>

fun bit_length :: "nat \<Rightarrow> nat" where
  "bit_length n = (if n = 0 then 0 else Suc (bit_length (n div 2)))"

declare bit_length.simps [simp del]

record fp_format =
  fmt_prec :: nat
  fmt_emin :: int
  fmt_emax :: int

definition binary64 :: fp_format where
  "binary64 = \<lparr>fmt_prec = 53, fmt_emin = - 1074, fmt_emax = 1024\<rparr>"

definition binary32 :: fp_format where
  "binary32 = \<lparr>fmt_prec = 24, fmt_emin = - 149, fmt_emax = 128\<rparr>"

text \<open>\<open>num / den\<close> rounded to an integer, to nearest with ties to even.\<close>

definition round_half_even :: "nat \<Rightarrow> nat \<Rightarrow> nat" where
  "round_half_even num den =
     (let q = num div den; r = num mod den
      in if 2 * r > den \<or> (2 * r = den \<and> odd q) then q + 1 else q)"

text \<open>\<open>num / den * 2^(- e)\<close> as a fraction.\<close>

definition scaled_num :: "nat \<Rightarrow> int \<Rightarrow> nat" where
  "scaled_num num e = num * 2 ^ nat (- e)"

definition scaled_den :: "nat \<Rightarrow> int \<Rightarrow> nat" where
  "scaled_den den e = den * 2 ^ nat e"

text \<open>The exponent of the last place: the significand has at most \<open>p\<close> bits.\<close>

definition fp_exponent :: "fp_format \<Rightarrow> nat \<Rightarrow> nat \<Rightarrow> int" where
  "fp_exponent fmt num den =
     (let q = max (fmt_emin fmt) (int (bit_length num) - int (bit_length den) - int (fmt_prec fmt))
      in if scaled_num num q div scaled_den den q < 2 ^ fmt_prec fmt then q else q + 1)"

definition fp_round :: "fp_format \<Rightarrow> bool \<Rightarrow> nat \<Rightarrow> nat \<Rightarrow> fp" where
  "fp_round fmt s num den =
     (if num = 0 then Fin s 0 (fmt_emin fmt)
      else
        let q = fp_exponent fmt num den;
            m = round_half_even (scaled_num num q) (scaled_den den q);
            (m', q') = (if m = 2 ^ fmt_prec fmt then (2 ^ (fmt_prec fmt - 1), q + 1) else (m, q))
        in if fmt_emax fmt < q' + int (fmt_prec fmt) then Inf s else Fin s m' q')"

definition fp_round_dyadic :: "fp_format \<Rightarrow> bool \<Rightarrow> nat \<Rightarrow> int \<Rightarrow> fp" where
  "fp_round_dyadic fmt s m e = fp_round fmt s (m * 2 ^ nat e) (2 ^ nat (- e))"

text \<open>Any value as a double.\<close>

fun fp_pack :: "fp \<Rightarrow> u64" where
  "fp_pack (Fin s m e) = fp_encode (fp_round_dyadic binary64 s m e)"
| "fp_pack x = fp_encode x"

section \<open>Arithmetic\<close>

fun fp_neg :: "fp \<Rightarrow> fp" where
  "fp_neg NaN = NaN"
| "fp_neg (Inf s) = Inf (\<not> s)"
| "fp_neg (Fin s m e) = Fin (\<not> s) m e"

definition fp_signed :: "bool \<Rightarrow> nat \<Rightarrow> int" where
  "fp_signed s m = (if s then - int m else int m)"

fun fp_add :: "fp \<Rightarrow> fp \<Rightarrow> fp" where
  "fp_add NaN y = NaN"
| "fp_add x NaN = NaN"
| "fp_add (Inf s) (Inf t) = (if s = t then Inf s else NaN)"
| "fp_add (Inf s) (Fin t n f) = Inf s"
| "fp_add (Fin s m e) (Inf t) = Inf t"
| "fp_add (Fin s m e) (Fin t n f) =
     (let g = min e f;
          x = fp_signed s (m * 2 ^ nat (e - g)) + fp_signed t (n * 2 ^ nat (f - g))
      in if x = 0 then Fin (s \<and> t) 0 g else Fin (x < 0) (nat \<bar>x\<bar>) g)"

fun fp_mul :: "fp \<Rightarrow> fp \<Rightarrow> fp" where
  "fp_mul NaN y = NaN"
| "fp_mul x NaN = NaN"
| "fp_mul (Inf s) (Inf t) = Inf (s \<noteq> t)"
| "fp_mul (Inf s) (Fin t n f) = (if n = 0 then NaN else Inf (s \<noteq> t))"
| "fp_mul (Fin s m e) (Inf t) = (if m = 0 then NaN else Inf (s \<noteq> t))"
| "fp_mul (Fin s m e) (Fin t n f) = Fin (s \<noteq> t) (m * n) (e + f)"

text \<open>A quotient need not be dyadic, so division rounds here.\<close>

fun fp_div :: "fp \<Rightarrow> fp \<Rightarrow> fp" where
  "fp_div NaN y = NaN"
| "fp_div x NaN = NaN"
| "fp_div (Inf s) (Inf t) = NaN"
| "fp_div (Inf s) (Fin t n f) = Inf (s \<noteq> t)"
| "fp_div (Fin s m e) (Inf t) = Fin (s \<noteq> t) 0 0"
| "fp_div (Fin s m e) (Fin t n f) =
     (if n = 0 then (if m = 0 then NaN else Inf (s \<noteq> t))
      else fp_round binary64 (s \<noteq> t) (m * 2 ^ nat (e - f)) (n * 2 ^ nat (f - e)))"

text \<open>C's \<open>fmod\<close>: the remainder of the truncated quotient, with the dividend's sign.\<close>

fun fp_fmod :: "fp \<Rightarrow> fp \<Rightarrow> fp" where
  "fp_fmod NaN y = NaN"
| "fp_fmod x NaN = NaN"
| "fp_fmod (Inf s) y = NaN"
| "fp_fmod (Fin s m e) (Inf t) = Fin s m e"
| "fp_fmod (Fin s m e) (Fin t n f) =
     (if n = 0 then NaN
      else let g = min e f
           in Fin s ((m * 2 ^ nat (e - g)) mod (n * 2 ^ nat (f - g))) g)"

fun fp_less :: "fp \<Rightarrow> fp \<Rightarrow> bool" where
  "fp_less NaN y = False"
| "fp_less x NaN = False"
| "fp_less (Inf s) (Inf t) = (s \<and> \<not> t)"
| "fp_less (Inf s) (Fin t n f) = s"
| "fp_less (Fin s m e) (Inf t) = (\<not> t)"
| "fp_less (Fin s m e) (Fin t n f) =
     (let g = min e f
      in fp_signed s (m * 2 ^ nat (e - g)) < fp_signed t (n * 2 ^ nat (f - g)))"

fun fp_eq :: "fp \<Rightarrow> fp \<Rightarrow> bool" where
  "fp_eq NaN y = False"
| "fp_eq x NaN = False"
| "fp_eq (Inf s) (Inf t) = (s = t)"
| "fp_eq (Inf s) (Fin t n f) = False"
| "fp_eq (Fin s m e) (Inf t) = False"
| "fp_eq (Fin s m e) (Fin t n f) =
     (let g = min e f
      in fp_signed s (m * 2 ^ nat (e - g)) = fp_signed t (n * 2 ^ nat (f - g)))"

definition f64_add :: "u64 \<Rightarrow> u64 \<Rightarrow> u64" where
  "f64_add a b = fp_pack (fp_add (fp_decode a) (fp_decode b))"

definition f64_sub :: "u64 \<Rightarrow> u64 \<Rightarrow> u64" where
  "f64_sub a b = fp_pack (fp_add (fp_decode a) (fp_neg (fp_decode b)))"

definition f64_mul :: "u64 \<Rightarrow> u64 \<Rightarrow> u64" where
  "f64_mul a b = fp_pack (fp_mul (fp_decode a) (fp_decode b))"

definition f64_div :: "u64 \<Rightarrow> u64 \<Rightarrow> u64" where
  "f64_div a b = fp_pack (fp_div (fp_decode a) (fp_decode b))"

definition f64_fmod :: "u64 \<Rightarrow> u64 \<Rightarrow> u64" where
  "f64_fmod a b = fp_pack (fp_fmod (fp_decode a) (fp_decode b))"

text \<open>Unary minus flips the sign bit.\<close>

definition f64_neg :: "u64 \<Rightarrow> u64" where
  "f64_neg a = a XOR push_bit 63 1"

definition f64_less :: "u64 \<Rightarrow> u64 \<Rightarrow> bool" where
  "f64_less a b = fp_less (fp_decode a) (fp_decode b)"

definition f64_eq :: "u64 \<Rightarrow> u64 \<Rightarrow> bool" where
  "f64_eq a b = fp_eq (fp_decode a) (fp_decode b)"

definition f64_isnan :: "u64 \<Rightarrow> bool" where
  "f64_isnan a = (fp_decode a = NaN)"

definition f64_isinf :: "u64 \<Rightarrow> bool" where
  "f64_isinf a = (case fp_decode a of Inf s \<Rightarrow> True | _ \<Rightarrow> False)"

text \<open>\<open>(double)i\<close> for an integer.\<close>

definition f64_of_int :: "int \<Rightarrow> u64" where
  "f64_of_int i = fp_pack (Fin (i < 0) (nat \<bar>i\<bar>) 0)"

text \<open>\<open>(double)(float)x\<close>.\<close>

definition f64_to_f32 :: "u64 \<Rightarrow> u64" where
  "f64_to_f32 a =
     (case fp_decode a of
        Fin s m e \<Rightarrow> fp_pack (fp_round_dyadic binary32 s m e)
      | x \<Rightarrow> fp_encode x)"

text \<open>\<open>x == floor(x)\<close>: infinities are their own floor, a NaN equals nothing.\<close>

definition f64_is_floor :: "u64 \<Rightarrow> bool" where
  "f64_is_floor a =
     (case fp_decode a of
        NaN \<Rightarrow> False
      | Inf s \<Rightarrow> True
      | Fin s m e \<Rightarrow> m mod 2 ^ nat (- e) = 0)"

text \<open>The integer a cast to an integer type gives, where the value fits (otherwise undefined).\<close>

definition f64_trunc :: "u64 \<Rightarrow> int option" where
  "f64_trunc a =
     (case fp_decode a of
        Fin s m e \<Rightarrow> Some (fp_signed s (m * 2 ^ nat e div 2 ^ nat (- e)))
      | _ \<Rightarrow> None)"

section \<open>Bit lengths and scaling\<close>

lemma bit_length_0 [simp]: "bit_length 0 = 0"
  by (simp add: bit_length.simps)

lemma bit_length_pos: "0 < n \<Longrightarrow> bit_length n = Suc (bit_length (n div 2))"
  by (simp add: bit_length.simps [of n])

lemma bit_length_bounds: "0 < n \<Longrightarrow> 2 ^ (bit_length n - 1) \<le> n \<and> n < 2 ^ bit_length n"
proof (induction n rule: bit_length.induct)
  case (1 n)
  show ?case
  proof (cases "n div 2 = 0")
    case True
    with 1 have "n = 1" by linarith
    then show ?thesis by (simp add: bit_length.simps)
  next
    case False
    with 1 have IH: "2 ^ (bit_length (n div 2) - 1) \<le> n div 2 \<and> n div 2 < 2 ^ bit_length (n div 2)"
      by simp
    have b: "bit_length n = Suc (bit_length (n div 2))" "0 < bit_length (n div 2)"
      using 1 False by (simp_all add: bit_length_pos)
    then obtain k where k: "bit_length (n div 2) = Suc k" by (auto simp: gr0_conv_Suc)
    show ?thesis using IH by (auto simp: b k)
  qed
qed

lemma bit_length_unique: "2 ^ k \<le> n \<Longrightarrow> n < 2 ^ Suc k \<Longrightarrow> bit_length n = Suc k"
proof -
  assume a: "2 ^ k \<le> n" "n < 2 ^ Suc k"
  then have pos: "0 < n" by (metis le_zero_eq neq0_conv power_not_zero zero_neq_numeral)
  from bit_length_bounds [OF pos] have b: "2 ^ (bit_length n - 1) \<le> n" "n < 2 ^ bit_length n" by auto
  from a b have "(2::nat) ^ k < 2 ^ bit_length n" "(2::nat) ^ (bit_length n - 1) < 2 ^ Suc k"
    by linarith+
  then have "k < bit_length n" "bit_length n - 1 < Suc k"
    by (simp_all only: power_strict_increasing_iff one_less_numeral_iff semiring_norm(76))
  then show ?thesis by linarith
qed

lemma bit_length_mult_power: "0 < m \<Longrightarrow> bit_length (m * 2 ^ k) = bit_length m + k"
proof -
  assume m: "0 < m"
  then obtain j where j: "bit_length m = Suc j" by (simp add: bit_length_pos)
  with bit_length_bounds [OF m] have "2 ^ j \<le> m" "m < 2 ^ Suc j" by auto
  then have "2 ^ (j + k) \<le> m * 2 ^ k" "m * 2 ^ k < 2 ^ Suc (j + k)"
    by (auto simp: power_add)
  then have "bit_length (m * 2 ^ k) = Suc (j + k)" by (rule bit_length_unique)
  then show ?thesis by (simp add: j)
qed

lemma bit_length_power [simp]: "bit_length (2 ^ k) = Suc k"
  by (rule bit_length_unique) auto

lemma bit_length_le: "n < 2 ^ p \<Longrightarrow> bit_length n \<le> p"
proof (cases "n = 0")
  case False
  assume "n < 2 ^ p"
  with False bit_length_bounds [of n] have "(2::nat) ^ (bit_length n - 1) < 2 ^ p" by linarith
  then have "bit_length n - 1 < p" by (simp add: power_less_imp_less_exp)
  then show ?thesis by linarith
qed simp

lemma round_half_even_exact: "0 < d \<Longrightarrow> round_half_even (m * d) d = m"
  by (simp add: round_half_even_def)

lemma round_half_even_le: "num div den < n \<Longrightarrow> round_half_even num den \<le> n"
  by (simp add: round_half_even_def Let_def)

lemma nat_diff_parts: "int (nat x) - int (nat (- x)) = x"
  by simp

section \<open>Rounding is exact on representable values\<close>

text \<open>
  A dyadic number \<open>m * 2^(a - b)\<close> whose significand fits the format is only renormalised: the
  result has the same value, and overflows only past the format's largest exponent.
\<close>

lemma fp_round_exact:
  fixes a b :: nat
  assumes m: "0 < m" "m < 2 ^ fmt_prec fmt"
    and e: "fmt_emin fmt \<le> int a - int b"
  defines "q \<equiv> max (fmt_emin fmt) (int (bit_length m) + (int a - int b) - int (fmt_prec fmt))"
  shows "fp_round fmt s (m * 2 ^ a) (2 ^ b) =
           (if fmt_emax fmt < q + int (fmt_prec fmt) then Inf s
            else Fin s (m * 2 ^ nat (int a - int b - q)) q)"
proof -
  let ?p = "fmt_prec fmt" and ?e = "int a - int b"
  have bl: "bit_length (m * 2 ^ a) = bit_length m + a" using m by (simp add: bit_length_mult_power)
  have blm: "bit_length m \<le> ?p" "0 < bit_length m"
    using m bit_length_le [OF m(2)] by (simp_all add: bit_length_pos)
  then have qe: "q \<le> ?e" using e by (auto simp: q_def)
  define q0 where "q0 = max (fmt_emin fmt) (int (bit_length m) + ?e - 1 - int ?p)"
  have q0e: "q0 \<le> ?e" using qe by (auto simp: q0_def q_def)
  have split: "scaled_num (m * 2 ^ a) x = (m * 2 ^ nat (?e - x)) * scaled_den (2 ^ b) x"
    if "x \<le> ?e" for x
  proof -
    have "a + nat (- x) = nat (?e - x) + (b + nat x)" using that by linarith
    then have "(2::nat) ^ a * 2 ^ nat (- x) = 2 ^ nat (?e - x) * (2 ^ b * 2 ^ nat x)"
      by (simp flip: power_add)
    then show ?thesis by (simp add: scaled_num_def scaled_den_def mult.assoc)
  qed
  have den: "0 < scaled_den (2 ^ b) x" for x by (simp add: scaled_den_def)
  have exponent: "fp_exponent fmt (m * 2 ^ a) (2 ^ b) = (if m * 2 ^ nat (?e - q0) < 2 ^ ?p then q0 else q0 + 1)"
  proof -
    have "max (fmt_emin fmt) (int (bit_length (m * 2 ^ a)) - int (bit_length (2 ^ b)) - int ?p) = q0"
      by (simp add: bl q0_def algebra_simps)
    moreover have "scaled_num (m * 2 ^ a) q0 div scaled_den (2 ^ b) q0 = m * 2 ^ nat (?e - q0)"
      using den [of q0] by (simp add: split [OF q0e])
    ultimately show ?thesis by (simp add: fp_exponent_def Let_def)
  qed
  have small: "m * 2 ^ nat (?e - q) < 2 ^ ?p"
  proof -
    have "m * 2 ^ nat (?e - q) < 2 ^ bit_length m * 2 ^ nat (?e - q)"
      using bit_length_bounds [OF m(1)] by simp
    also have "\<dots> = 2 ^ (bit_length m + nat (?e - q))" by (simp add: power_add)
    also have "\<dots> \<le> 2 ^ ?p" using qe blm by (intro power_increasing) (auto simp: q_def)
    finally show ?thesis .
  qed
  have q: "fp_exponent fmt (m * 2 ^ a) (2 ^ b) = q"
  proof (cases "q0 = q")
    case True
    with small show ?thesis by (simp add: exponent)
  next
    case False
    then have 1: "q = q0 + 1" "q0 = int (bit_length m) + ?e - 1 - int ?p"
      by (auto simp: q0_def q_def)
    have "(2::nat) ^ ?p = 2 ^ (bit_length m - 1) * 2 ^ nat (?e - q0)"
      using 1 blm by (simp flip: power_add)
    also have "\<dots> \<le> m * 2 ^ nat (?e - q0)" using bit_length_bounds [OF m(1)] by simp
    finally show ?thesis using 1 by (simp add: exponent)
  qed
  show ?thesis
    using m small den [of q]
    by (simp add: fp_round_def q Let_def split [OF qe] round_half_even_exact)
qed

section \<open>The bounds of a rounded value\<close>

definition fp_bounded :: "fp_format \<Rightarrow> fp \<Rightarrow> bool" where
  "fp_bounded fmt x =
     (case x of Fin s m e \<Rightarrow> m < 2 ^ fmt_prec fmt \<and> fmt_emin fmt \<le> e \<and>
                  (m = 0 \<or> e + int (fmt_prec fmt) \<le> fmt_emax fmt)
      | _ \<Rightarrow> True)"

lemma fp_exponent_ge: "fmt_emin fmt \<le> fp_exponent fmt num den"
  by (auto simp: fp_exponent_def Let_def max_def)

lemma fp_exponent_quotient:
  assumes "0 < num" "0 < den"
  shows "scaled_num num (fp_exponent fmt num den) div scaled_den den (fp_exponent fmt num den)
           < 2 ^ fmt_prec fmt"
proof -
  let ?p = "fmt_prec fmt"
  define q where "q = max (fmt_emin fmt) (int (bit_length num) - int (bit_length den) - int ?p)"
  have "scaled_num num (q + 1) < 2 ^ ?p * scaled_den den (q + 1)"
  proof -
    obtain j where j: "bit_length den = Suc j" using assms by (simp add: bit_length_pos)
    have n: "num < 2 ^ bit_length num" and d: "2 ^ j \<le> den"
      using bit_length_bounds [OF assms(1)] bit_length_bounds [OF assms(2)] by (simp_all add: j)
    have ex: "bit_length num + nat (- (q + 1)) \<le> ?p + j + nat (q + 1)"
      using j by (simp add: q_def)
    have "scaled_num num (q + 1) < 2 ^ (bit_length num + nat (- (q + 1)))"
      using n by (simp add: scaled_num_def power_add)
    also have "\<dots> \<le> 2 ^ (?p + j + nat (q + 1))" using ex by (rule power_increasing) simp
    also have "\<dots> \<le> 2 ^ ?p * scaled_den den (q + 1)"
      using d by (simp add: scaled_den_def power_add)
    finally show ?thesis .
  qed
  then have "scaled_num num (q + 1) div scaled_den den (q + 1) < 2 ^ ?p"
    using assms by (simp add: div_less_iff_less_mult scaled_den_def)
  then show ?thesis
    by (simp add: fp_exponent_def Let_def flip: q_def)
qed

lemma fp_round_bounded:
  assumes "0 < den" "0 < fmt_prec fmt"
  shows "fp_bounded fmt (fp_round fmt s num den)"
proof (cases "num = 0")
  case True
  then show ?thesis by (simp add: fp_round_def fp_bounded_def)
next
  case False
  let ?q = "fp_exponent fmt num den"
  let ?m = "round_half_even (scaled_num num ?q) (scaled_den den ?q)"
  have "?m \<le> 2 ^ fmt_prec fmt"
    using False assms by (intro round_half_even_le fp_exponent_quotient) auto
  moreover have "(2::nat) ^ (fmt_prec fmt - 1) < 2 ^ fmt_prec fmt"
    using assms by (intro power_strict_increasing) auto
  ultimately show ?thesis
    using fp_exponent_ge [of fmt num den] False
    by (auto simp: fp_round_def fp_bounded_def Let_def order_le_less)
qed

text \<open>A value within the bounds of the format is only renormalised.\<close>

lemma fp_round_dyadic_exact:
  assumes "0 < m" "m < 2 ^ fmt_prec fmt" "fmt_emin fmt \<le> e"
    "e + int (fmt_prec fmt) \<le> fmt_emax fmt"
  defines "q \<equiv> max (fmt_emin fmt) (int (bit_length m) + e - int (fmt_prec fmt))"
  shows "fp_round_dyadic fmt s m e = Fin s (m * 2 ^ nat (e - q)) q \<and> q \<le> e"
proof -
  have "bit_length m \<le> fmt_prec fmt" using assms(2) by (rule bit_length_le)
  then have "q \<le> e" using assms(3) by (auto simp: q_def)
  then show ?thesis
    using fp_round_exact [of m fmt "nat e" "nat (- e)" s] assms(1-4)
    unfolding fp_round_dyadic_def nat_diff_parts q_def [symmetric] by simp
qed

section \<open>Encoding\<close>

text \<open>The doubles that are encoded as they are: normalised, or subnormal at the least exponent.\<close>

definition canonical :: "nat \<Rightarrow> int \<Rightarrow> bool" where
  "canonical m e \<longleftrightarrow> m < 2 ^ 53 \<and> - 1074 \<le> e \<and> e \<le> 971 \<and> (2 ^ 52 \<le> m \<or> e = - 1074)"

lemma fp_round_dyadic_canonical:
  assumes "canonical m e" "0 < m"
  shows "fp_round_dyadic binary64 s m e = Fin s m e"
proof -
  define q where "q = max (- 1074) (int (bit_length m) + e - 53)"
  have "q = e"
  proof (cases "2 ^ 52 \<le> m")
    case True
    then have "bit_length m = 53"
      using bit_length_unique [of 52 m] assms by (simp add: canonical_def)
    then show ?thesis using assms by (simp add: q_def canonical_def)
  next
    case False
    then have "bit_length m \<le> 52" by (intro bit_length_le) simp
    then show ?thesis using assms False by (simp add: q_def canonical_def)
  qed
  then show ?thesis
    using fp_round_dyadic_exact [of m binary64 e s] assms
    by (simp add: binary64_def canonical_def q_def)
qed

lemma fp_round_dyadic_zero: "fp_round_dyadic fmt s 0 e = Fin s 0 (fmt_emin fmt)"
  by (simp add: fp_round_dyadic_def fp_round_def)

lemma unat_take_bit_mod: "unat (take_bit n (w :: u64)) = unat w mod 2 ^ n"
  by (simp only: unsigned_take_bit_eq take_bit_eq_mod [where ?'a = nat])

lemma unat_drop_bit_div: "unat (drop_bit n (w :: u64)) = unat w div 2 ^ n"
  by (simp only: unsigned_drop_bit_eq drop_bit_eq_div [where ?'a = nat])
    (use unsigned_less [of w, where ?'a = nat] in \<open>simp add: take_bit_nat_eq_self\<close>)

lemma bit_63_div: "(if bit (w :: u64) 63 then 1 else 0) = unat w div 2 ^ 63"
proof -
  have "unat w < 2 ^ 64" using unsigned_less [of w, where ?'a = nat] by simp
  then have "unat w div 2 ^ 63 < 2" by (intro less_mult_imp_div_less) simp
  moreover have "bit w 63 = odd (unat w div 2 ^ 63)"
    using bit_iff_odd [of "unat w" 63] bit_unsigned_iff [of w 63, where ?'a = nat] by simp
  ultimately show ?thesis by (cases "bit w 63") (auto elim: oddE simp: less_2_cases_iff)
qed

lemma unat_fields:
  "unat (w :: u64) = (if bit w 63 then 2 ^ 63 else 0) +
     unat (take_bit 11 (drop_bit 52 w)) * 2 ^ 52 + unat (take_bit 52 w)"
proof -
  have "unat w = unat w div 2 ^ 52 * 2 ^ 52 + unat w mod 2 ^ 52" by simp
  also have "unat w div 2 ^ 52 = unat w div 2 ^ 52 div 2 ^ 11 * 2 ^ 11 + unat w div 2 ^ 52 mod 2 ^ 11"
    by simp
  also have "unat w div 2 ^ 52 div 2 ^ 11 = unat w div 2 ^ 63"
    by (simp flip: div_mult2_eq)
  finally show ?thesis
    unfolding unat_take_bit_mod unat_drop_bit_div bit_63_div [symmetric]
    by (simp add: algebra_simps split: if_splits)
qed

lemma fp_assemble_fields:
  "fp_assemble (bit w 63) (unat (take_bit 11 (drop_bit 52 w))) (unat (take_bit 52 w)) = w"
  unfolding fp_assemble_def unat_fields [symmetric] by simp

lemma field_bounds:
  "unat (take_bit 52 (w :: u64)) < 2 ^ 52" "unat (take_bit 11 (drop_bit 52 (w :: u64))) < 2 ^ 11"
  unfolding unat_take_bit_mod by simp_all

lemma fp_decode_cases:
  obtains ex fr where "ex < 2048" "fr < 2 ^ 52" "w = fp_assemble (bit w 63) ex fr"
    "fp_decode w = (if ex = 2047 then if fr = 0 then Inf (bit w 63) else NaN
       else if ex = 0 then Fin (bit w 63) fr (- 1074)
       else Fin (bit w 63) (fr + 2 ^ 52) (int ex - 1075))"
proof
  show "unat (take_bit 11 (drop_bit 52 w)) < 2048" "unat (take_bit 52 w) < 2 ^ 52"
    using field_bounds [of w] by simp_all
  show "w = fp_assemble (bit w 63) (unat (take_bit 11 (drop_bit 52 w))) (unat (take_bit 52 w))"
    by (rule fp_assemble_fields [symmetric])
qed (simp only: fp_decode_def Let_def)

lemma fp_encode_decode: "fp_decode w \<noteq> NaN \<Longrightarrow> fp_encode (fp_decode w) = w"
  by (rule fp_decode_cases [of w]) (auto split: if_splits)

lemma fp_decode_canonical: "fp_decode w = Fin s m e \<Longrightarrow> canonical m e"
  by (rule fp_decode_cases [of w]) (auto simp: canonical_def split: if_splits)

lemma fp_pack_decode:
  assumes "fp_decode w \<noteq> NaN"
  shows "fp_pack (fp_decode w) = w"
proof (cases "fp_decode w")
  case (Fin s m e)
  show ?thesis
  proof (cases "m = 0")
    case True
    then have "fp_encode (Fin s m (- 1074)) = fp_encode (Fin s m e)" by simp
    with True Fin assms fp_encode_decode [of w] show ?thesis
      by (simp add: fp_round_dyadic_zero binary64_def)
  next
    case False
    with Fin assms fp_encode_decode [of w] fp_decode_canonical [OF Fin] show ?thesis
      by (simp add: fp_round_dyadic_canonical)
  qed
qed (use assms fp_encode_decode [of w] in auto)

lemma fp_decode_assemble:
  assumes "ex < 2 ^ 11" "fr < 2 ^ 52"
  shows "bit (fp_assemble s ex fr) 63 = s"
    "unat (take_bit 11 (drop_bit 52 (fp_assemble s ex fr))) = ex"
    "unat (take_bit 52 (fp_assemble s ex fr)) = fr"
proof -
  let ?n = "(if s then 2 ^ 63 else 0) + ex * 2 ^ 52 + fr"
  have u: "unat (fp_assemble s ex fr) = ?n"
    using assms unfolding fp_assemble_def unat_of_nat by (intro mod_less) (simp split: if_splits)
  have n: "?n = ((if s then 2 ^ 11 else 0) + ex) * 2 ^ 52 + fr" by simp
  show "unat (take_bit 52 (fp_assemble s ex fr)) = fr"
    using assms(2) unfolding unat_take_bit_mod u n mod_mult_self3 by (rule mod_less)
  show "unat (take_bit 11 (drop_bit 52 (fp_assemble s ex fr))) = ex"
    using assms unfolding unat_take_bit_mod unat_drop_bit_div u n
    by (subst div_mult_self3) (auto simp del: div_mult_self3)
  show "bit (fp_assemble s ex fr) 63 = s"
    using assms bit_63_div [of "fp_assemble s ex fr"] unfolding u by (auto split: if_splits)
qed

section \<open>Values built by packing\<close>

lemma fp_decode_encode:
  assumes "canonical m e"
  shows "fp_decode (fp_encode (Fin s m e)) = Fin s m e"
proof (cases "m < 2 ^ 52")
  case True
  then have "fp_encode (Fin s m e) = fp_assemble s 0 m" and "e = - 1074"
    using assms by (auto simp: canonical_def)
  then show ?thesis using True fp_decode_assemble [of 0 m s] by (simp add: fp_decode_def Let_def)
next
  case False
  let ?ex = "nat (e + 1075)" and ?fr = "m - 2 ^ 52"
  have enc: "fp_encode (Fin s m e) = fp_assemble s ?ex ?fr" using False by simp
  have b: "?ex < 2 ^ 11" "?fr < 2 ^ 52" "?ex \<noteq> 2047" "?ex \<noteq> 0" "?fr + 2 ^ 52 = m" "int ?ex - 1075 = e"
    using assms False by (auto simp: canonical_def)
  show ?thesis
    unfolding enc fp_decode_def Let_def fp_decode_assemble [OF b(1,2)] using b(3-6) by simp
qed

text \<open>Packing a representable finite value loses nothing.\<close>

lemma fp_decode_pack:
  assumes m: "0 < m" "m < 2 ^ 53" and e: "- 1074 \<le> e" "e \<le> 971"
  obtains m' e' where "fp_decode (fp_pack (Fin s m e)) = Fin s m' e'" "e' \<le> e" "- 1074 \<le> e'"
    "m' = m * 2 ^ nat (e - e')"
proof -
  define q where "q = max (- 1074) (int (bit_length m) + e - 53)"
  have ex: "fp_round_dyadic binary64 s m e = Fin s (m * 2 ^ nat (e - q)) q" "q \<le> e"
    using fp_round_dyadic_exact [of m binary64 e s] assms
    by (simp_all add: binary64_def q_def)
  have "fp_bounded binary64 (fp_round_dyadic binary64 s m e)"
    unfolding fp_round_dyadic_def by (rule fp_round_bounded) (simp_all add: binary64_def)
  then have "m * 2 ^ nat (e - q) < 2 ^ 53" unfolding ex by (simp add: fp_bounded_def binary64_def)
  moreover have "2 ^ 52 \<le> m * 2 ^ nat (e - q) \<or> q = - 1074"
  proof (cases "q = - 1074")
    case False
    then have q: "q = int (bit_length m) + e - 53" by (auto simp: q_def)
    obtain j where j: "bit_length m = Suc j" using m by (simp add: bit_length_pos)
    have "j + nat (e - q) = 52" using q ex(2) j by linarith
    then have "(2::nat) ^ 52 = 2 ^ j * 2 ^ nat (e - q)" by (simp only: flip: power_add)
    also have "\<dots> \<le> m * 2 ^ nat (e - q)" using bit_length_bounds [OF m(1)] by (simp add: j)
    finally show ?thesis by simp
  qed simp
  ultimately have c: "canonical (m * 2 ^ nat (e - q)) q"
    using ex(2) e by (auto simp: canonical_def q_def)
  have "fp_decode (fp_pack (Fin s m e)) = Fin s (m * 2 ^ nat (e - q)) q"
    unfolding fp_pack.simps ex(1) by (rule fp_decode_encode [OF c])
  moreover have "- 1074 \<le> q" by (simp add: q_def)
  ultimately show thesis using ex(2) that by blast
qed

text \<open>Integers of at most 53 bits are doubles, exactly.\<close>

lemma f64_trunc_of_int:
  assumes "\<bar>i\<bar> < 2 ^ 53"
  shows "f64_trunc (f64_of_int i) = Some i \<and> f64_is_floor (f64_of_int i)"
proof (cases "i = 0")
  case True
  then show ?thesis
    by (simp add: f64_of_int_def fp_round_dyadic_zero binary64_def f64_trunc_def f64_is_floor_def
        fp_decode_encode canonical_def fp_signed_def del: fp_encode.simps)
next
  case False
  have m: "0 < nat \<bar>i\<bar>" "nat \<bar>i\<bar> < 2 ^ 53" using False assms by auto
  obtain m' e' where d: "fp_decode (fp_pack (Fin (i < 0) (nat \<bar>i\<bar>) 0)) = Fin (i < 0) m' e'"
    "e' \<le> 0" "m' = nat \<bar>i\<bar> * 2 ^ nat (0 - e')"
    using fp_decode_pack [OF m, of 0 "i < 0"] by (metis (no_types) neg_le_0_iff_le zero_le_numeral)
  then show ?thesis by (auto simp: f64_of_int_def f64_trunc_def f64_is_floor_def fp_signed_def simp del: fp_pack.simps)
qed

text \<open>The rounding of a representable value depends on the value only, not on how it is scaled.\<close>

lemma fp_round_dyadic_shift:
  assumes "0 < m" "m < 2 ^ fmt_prec fmt" "fmt_emin fmt \<le> e"
  shows "fp_round_dyadic fmt s (m * 2 ^ k) (e - int k) = fp_round_dyadic fmt s m e"
proof -
  have "int (k + nat (e - int k)) - int (nat (- (e - int k))) = e" by linarith
  then show ?thesis
    using fp_round_exact [of m fmt "k + nat (e - int k)" "nat (- (e - int k))" s]
      fp_round_exact [of m fmt "nat e" "nat (- e)" s] assms
    unfolding fp_round_dyadic_def nat_diff_parts by (simp add: power_add mult.assoc)
qed

text \<open>Rounding to single precision is idempotent.\<close>

lemma f64_to_f32_Fin:
  "fp_decode w = Fin s m e \<Longrightarrow> f64_to_f32 w = fp_pack (fp_round_dyadic binary32 s m e)"
  by (simp add: f64_to_f32_def)

lemma fp_round_bounded32: "fp_bounded binary32 (fp_round_dyadic binary32 s m e)"
  unfolding fp_round_dyadic_def by (rule fp_round_bounded) (simp_all add: binary32_def)

lemma f64_to_f32_pack_bounded:
  assumes "fp_bounded binary32 (Fin t n f)"
  shows "f64_to_f32 (fp_pack (Fin t n f)) = fp_pack (Fin t n f)"
proof (cases "n = 0")
  case True
  have d: "fp_decode (fp_encode (Fin t 0 (- 1074))) = Fin t 0 (- 1074)"
    by (rule fp_decode_encode) (simp add: canonical_def)
  show ?thesis
    using f64_to_f32_Fin [OF d] by (simp add: True fp_round_dyadic_zero binary64_def binary32_def)
next
  case False
  then have n: "0 < n" "n < 2 ^ 24" "- 149 \<le> f" "f + 24 \<le> 128"
    using assms by (simp_all add: fp_bounded_def binary32_def)
  obtain e' where d: "fp_decode (fp_pack (Fin t n f)) = Fin t (n * 2 ^ nat (f - e')) e'" "e' \<le> f"
    using fp_decode_pack [of n f t] n by auto
  define q where "q = max (- 149) (int (bit_length n) + f - 24)"
  have q: "fp_round_dyadic binary32 t n f = Fin t (n * 2 ^ nat (f - q)) q" "q \<le> f"
    using fp_round_dyadic_exact [of n binary32 f t] n by (simp_all add: binary32_def q_def)
  have "fp_round_dyadic binary32 t (n * 2 ^ nat (f - e')) e' = fp_round_dyadic binary32 t n f"
    using fp_round_dyadic_shift [of n binary32 f t "nat (f - e')"] n d(2)
    by (simp add: binary32_def)
  moreover have "fp_round_dyadic binary64 t (n * 2 ^ nat (f - q)) q = fp_round_dyadic binary64 t n f"
    using fp_round_dyadic_shift [of n binary64 f t "nat (f - q)"] n q(2)
    by (simp add: binary64_def)
  ultimately show ?thesis
    using f64_to_f32_Fin [OF d(1)] by (simp add: q(1))
qed

lemma f64_to_f32_idem: "f64_to_f32 (f64_to_f32 a) = f64_to_f32 a"
proof (cases "fp_decode a")
  case (Fin s m e)
  note a = f64_to_f32_Fin [OF Fin]
  show ?thesis
  proof (cases "fp_round_dyadic binary32 s m e")
    case (Fin t n f)
    with fp_round_bounded32 [of s m e] show ?thesis
      unfolding a Fin by (intro f64_to_f32_pack_bounded) simp
  qed (simp_all add: a, simp_all add: f64_to_f32_def fp_decode_def fp_decode_assemble)
qed (simp_all add: f64_to_f32_def fp_decode_def fp_decode_assemble)

section \<open>Negation\<close>

lemma fp_decode_neg: "fp_decode (f64_neg w) = fp_neg (fp_decode w)"
proof -
  have 1: "bit (f64_neg w) 63 = (\<not> bit w 63)"
    unfolding f64_neg_def by (simp add: bit_simps del: push_bit_of_1)
  have 2: "take_bit 52 (f64_neg w) = take_bit 52 w"
    unfolding f64_neg_def by (rule bit_eqI) (simp add: bit_simps del: push_bit_of_1)
  have 3: "take_bit 11 (drop_bit 52 (f64_neg w)) = take_bit 11 (drop_bit 52 w)"
    unfolding f64_neg_def by (rule bit_eqI) (simp add: bit_simps del: push_bit_of_1)
  show ?thesis unfolding fp_decode_def Let_def 1 2 3 by simp
qed

end
