(* ===== verification/Number_Ops.thy ===== *)
theory Number_Ops
  imports Number_Kind Float64
begin

text \<open>
  Arithmetic, comparison and casts on numbers of every kind: \<^verbatim>\<open>src/number_ops.c\<close> and
  \<open>numberToDouble\<close> of \<^verbatim>\<open>src/number_kind.c\<close>.  A C function that returns \<open>false\<close> leaving
  \<open>result\<close> alone gives \<open>DoesNotFit\<close>; undefined behaviour of C (signed overflow, a zero integer
  divisor) gives \<open>None\<close>.  The main theorem says that integer arithmetic is exact or refused,
  and never undefined, for every kind and every pair of well-formed operands.
\<close>

datatype NumberOp =
    NUMBER_OP_ADD | NUMBER_OP_SUBTRACT | NUMBER_OP_MULTIPLY | NUMBER_OP_DIVIDE | NUMBER_OP_MODULO

datatype arith_result = DoesNotFit | Fits NumberPayload

datatype NumberCastResult =
    NUMBER_CAST_OK NumberPayload | NUMBER_CAST_NOT_WHOLE | NUMBER_CAST_OUT_OF_RANGE

definition numberToDouble :: "NumberKind \<Rightarrow> NumberPayload \<Rightarrow> u64" where
  "numberToDouble kind payload =
     (if isFloatKind kind then payload
      else if isSignedKind kind then f64_of_int (sint payload)
      else f64_of_int (uint payload))"

definition truncateRawInteger :: "NumberKind \<Rightarrow> u64 \<Rightarrow> NumberPayload" where
  "truncateRawInteger kind raw =
     (let info = numberKindInfo kind
      in if ki_size info = 8 then raw
         else
           let bits = ki_size info * 8;
               mask = push_bit bits 1 - 1;
               raw = raw AND mask
           in if ki_isSigned info then
                let signBit = push_bit (bits - 1) 1 in (raw XOR signBit) - signBit
              else raw)"

definition roundFloat :: "NumberKind \<Rightarrow> u64 \<Rightarrow> u64" where
  "roundFloat kind value = (if kind = NUMBER_KIND_F32 then f64_to_f32 value else value)"

definition numberIsZero :: "NumberKind \<Rightarrow> NumberPayload \<Rightarrow> bool" where
  "numberIsZero kind value = (if isFloatKind kind then f64_eq value 0 else value = 0)"

fun float_op :: "NumberOp \<Rightarrow> u64 \<Rightarrow> u64 \<Rightarrow> u64" where
  "float_op NUMBER_OP_ADD a b = f64_add a b"
| "float_op NUMBER_OP_SUBTRACT a b = f64_sub a b"
| "float_op NUMBER_OP_MULTIPLY a b = f64_mul a b"
| "float_op NUMBER_OP_DIVIDE a b = f64_div a b"
| "float_op NUMBER_OP_MODULO a b = f64_fmod a b"

definition floatArithmetic :: "NumberKind \<Rightarrow> NumberOp \<Rightarrow> u64 \<Rightarrow> u64 \<Rightarrow> NumberPayload" where
  "floatArithmetic kind op a b = roundFloat kind (float_op op a b)"

text \<open>The overflow tests of each signed operation, evaluated as C does, left to right with
  short circuits, every subtraction and division checked.\<close>

definition add_overflows :: "int \<Rightarrow> int \<Rightarrow> int \<Rightarrow> int \<Rightarrow> bool option" where
  "add_overflows mn mx a b =
     (if b > 0 then do { t \<leftarrow> i64_sub mx b; Some (a > t) }
      else if b < 0 then do { t \<leftarrow> i64_sub mn b; Some (a < t) }
      else Some False)"

definition sub_overflows :: "int \<Rightarrow> int \<Rightarrow> int \<Rightarrow> int \<Rightarrow> bool option" where
  "sub_overflows mn mx a b =
     (if b < 0 then do { t \<leftarrow> i64_add mx b; Some (a > t) }
      else if b > 0 then do { t \<leftarrow> i64_add mn b; Some (a < t) }
      else Some False)"

definition mul_overflows :: "int \<Rightarrow> int \<Rightarrow> int \<Rightarrow> int \<Rightarrow> bool option" where
  "mul_overflows mn mx a b =
     (if a > 0 then
        (if b > 0 then do { t \<leftarrow> i64_div mx b; Some (a > t) }
         else do { t \<leftarrow> i64_div mn a; Some (b < t) })
      else
        (if b > 0 then do { t \<leftarrow> i64_div mn b; Some (a < t) }
         else if a \<noteq> 0 then do { t \<leftarrow> i64_div mx a; Some (b < t) }
         else Some False))"

text \<open>Finish an operation: refuse it when the test says so, otherwise compute it.\<close>

definition signed_finish :: "NumberKind \<Rightarrow> bool \<Rightarrow> int option \<Rightarrow> arith_result option" where
  "signed_finish kind overflow value =
     (if overflow then Some DoesNotFit
      else do { v \<leftarrow> value; Some (Fits (truncateRawInteger kind (word_of_int v))) })"

definition signedArithmetic :: "NumberKind \<Rightarrow> NumberOp \<Rightarrow> int \<Rightarrow> int \<Rightarrow> arith_result option" where
  "signedArithmetic kind op a b =
     (let isI64 = (kind = NUMBER_KIND_I64);
          mn = (if isI64 then - (2 ^ 63) else sint (numberKindMin kind));
          mx = (if isI64 then 2 ^ 63 - 1 else sint (numberKindMax kind))
      in case op of
           NUMBER_OP_ADD \<Rightarrow> do { c \<leftarrow> add_overflows mn mx a b; signed_finish kind c (i64_add a b) }
         | NUMBER_OP_SUBTRACT \<Rightarrow> do { c \<leftarrow> sub_overflows mn mx a b; signed_finish kind c (i64_sub a b) }
         | NUMBER_OP_MULTIPLY \<Rightarrow> do { c \<leftarrow> mul_overflows mn mx a b; signed_finish kind c (i64_mul a b) }
         | NUMBER_OP_DIVIDE \<Rightarrow> signed_finish kind (a = mn \<and> b = - 1) (i64_div a b)
         | NUMBER_OP_MODULO \<Rightarrow> signed_finish kind False (if b = - 1 then Some 0 else i64_mod a b))"

definition unsignedArithmetic :: "NumberKind \<Rightarrow> NumberOp \<Rightarrow> u64 \<Rightarrow> u64 \<Rightarrow> arith_result option" where
  "unsignedArithmetic kind op a b =
     (let mx = numberKindMax kind;
          done = (\<lambda>value. Some (Fits (truncateRawInteger kind value)))
      in case op of
           NUMBER_OP_ADD \<Rightarrow> if b > mx - a then Some DoesNotFit else done (a + b)
         | NUMBER_OP_SUBTRACT \<Rightarrow> if b > a then Some DoesNotFit else done (a - b)
         | NUMBER_OP_MULTIPLY \<Rightarrow> if a \<noteq> 0 \<and> b > mx div a then Some DoesNotFit else done (a * b)
         | NUMBER_OP_DIVIDE \<Rightarrow> if b = 0 then None else done (a div b)
         | NUMBER_OP_MODULO \<Rightarrow> if b = 0 then None else done (a mod b))"

definition numberArithmetic ::
    "NumberKind \<Rightarrow> NumberOp \<Rightarrow> NumberPayload \<Rightarrow> NumberPayload \<Rightarrow> arith_result option" where
  "numberArithmetic kind op a b =
     (if isFloatKind kind then Some (Fits (floatArithmetic kind op a b))
      else if isSignedKind kind then signedArithmetic kind op (sint a) (sint b)
      else unsignedArithmetic kind op a b)"

definition numberNegateValue :: "NumberKind \<Rightarrow> NumberPayload \<Rightarrow> arith_result option" where
  "numberNegateValue kind value =
     (if isFloatKind kind then Some (Fits (f64_neg value))
      else if isSignedKind kind then signedArithmetic kind NUMBER_OP_SUBTRACT 0 (sint value)
      else unsignedArithmetic kind NUMBER_OP_SUBTRACT 0 value)"

definition numberOpLessThan :: "NumberKind \<Rightarrow> NumberPayload \<Rightarrow> NumberPayload \<Rightarrow> bool" where
  "numberOpLessThan kind a b =
     (if isFloatKind kind then f64_less a b
      else if isSignedKind kind then sint a < sint b
      else a < b)"

text \<open>The cast \<open>(int64_t)value\<close> or \<open>(uint64_t)value\<close> is undefined outside the type; the range
  test excludes that.\<close>

definition numberCastFloatToInteger :: "u64 \<Rightarrow> NumberKind \<Rightarrow> NumberCastResult option" where
  "numberCastFloatToInteger value to =
     (let info = numberKindInfo to;
          bits = ki_size info * 8 - (if ki_isSigned info then 1 else 0);
          upper = f64_of_int (2 ^ bits);
          lower = (if ki_isSigned info then f64_neg upper else 0)
      in if f64_isnan value \<or> (\<not> f64_isinf value \<and> \<not> f64_is_floor value) then Some NUMBER_CAST_NOT_WHOLE
         else if f64_less value lower \<or> f64_less upper value \<or> f64_eq value upper
         then Some NUMBER_CAST_OUT_OF_RANGE
         else do { i \<leftarrow> f64_trunc value; Some (NUMBER_CAST_OK (word_of_int i)) })"

definition numberCastIntegerToInteger ::
    "NumberKind \<Rightarrow> NumberPayload \<Rightarrow> NumberKind \<Rightarrow> NumberCastResult" where
  "numberCastIntegerToInteger from_kind value to =
     (let negative = isSignedKind from_kind \<and> sint value < 0
      in if negative then
           (if \<not> isSignedKind to \<or> sint value < sint (numberKindMin to)
            then NUMBER_CAST_OUT_OF_RANGE else NUMBER_CAST_OK value)
         else if value > numberKindMax to then NUMBER_CAST_OUT_OF_RANGE
         else NUMBER_CAST_OK value)"

definition numberCast :: "NumberKind \<Rightarrow> NumberPayload \<Rightarrow> NumberKind \<Rightarrow> NumberCastResult option" where
  "numberCast from_kind value to =
     (if isFloatKind to then
        let converted = numberToDouble from_kind value;
            rounded = roundFloat to converted
        in Some (if f64_isinf rounded \<and> \<not> f64_isinf converted then NUMBER_CAST_OUT_OF_RANGE
                 else NUMBER_CAST_OK rounded)
      else if isFloatKind from_kind then numberCastFloatToInteger value to
      else Some (numberCastIntegerToInteger from_kind value to))"

section \<open>Integer arithmetic is exact or refused\<close>

fun exact_op :: "NumberOp \<Rightarrow> int \<Rightarrow> int \<Rightarrow> int" where
  "exact_op NUMBER_OP_ADD a b = a + b"
| "exact_op NUMBER_OP_SUBTRACT a b = a - b"
| "exact_op NUMBER_OP_MULTIPLY a b = a * b"
| "exact_op NUMBER_OP_DIVIDE a b = a sdiv b"
| "exact_op NUMBER_OP_MODULO a b = a smod b"

definition arith_spec :: "NumberKind \<Rightarrow> int \<Rightarrow> arith_result" where
  "arith_spec k r = (if in_kind k r then Fits (word_of_int r) else DoesNotFit)"

definition divides_by_zero :: "NumberOp \<Rightarrow> int \<Rightarrow> bool" where
  "divides_by_zero op b \<longleftrightarrow> op \<in> {NUMBER_OP_DIVIDE, NUMBER_OP_MODULO} \<and> b = 0"

text \<open>Truncating a raw result to its kind changes nothing when the result is in the kind's range.\<close>

lemma truncateRawInteger_id:
  assumes "\<not> isFloatKind k" "payload_ok k w"
  shows "truncateRawInteger k w = w"
proof (cases "isSignedKind k")
  case True
  obtain n where n: "ki_size (numberKindInfo k) * 8 = Suc n" by (cases k) auto
  have "- (2 ^ n) \<le> sint w" "sint w < 2 ^ n"
    using assms True by (auto simp: payload_ok_def in_kind_def int_value_def kind_lo_def kind_hi_def n)
  then show ?thesis
    using xor_minus_signed_take_bit [of n w] signed_take_bit_word_self [of n w] True
    unfolding truncateRawInteger_def Let_def n
    by (simp add: take_bit_eq_mask mask_eq_exp_minus_1 push_bit_eq_mult)
next
  case False
  then have "uint w < 2 ^ (ki_size (numberKindInfo k) * 8)"
    using assms by (auto simp: payload_ok_def in_kind_def int_value_def kind_hi_def)
  then have "take_bit (ki_size (numberKindInfo k) * 8) w = w" by (rule take_bit_word_self)
  with False show ?thesis
    by (simp add: truncateRawInteger_def Let_def take_bit_eq_mask mask_eq_exp_minus_1 push_bit_eq_mult)
qed

lemma int_value_word_of_int:
  assumes "in_kind k r"
  shows "int_value k (word_of_int r) = r"
proof (cases "isSignedKind k")
  case True
  with assms show ?thesis by (simp add: int_value_def c_arith in_kind_in_i64)
next
  case False
  with assms unsigned_kind_bounds [of k] show ?thesis
    by (simp add: int_value_def in_kind_def unsigned_of_int take_bit_int_eq_self)
qed

lemma payload_ok_word_of_int: "in_kind k r \<Longrightarrow> payload_ok k (word_of_int r)"
  by (simp add: payload_ok_def int_value_word_of_int)

lemma truncateRawInteger_word_of_int [c_arith]:
  "\<not> isFloatKind k \<Longrightarrow> in_kind k r \<Longrightarrow> truncateRawInteger k (word_of_int r) = word_of_int r"
  by (simp add: truncateRawInteger_id payload_ok_word_of_int)

lemma less_div_iff: "0 < b \<Longrightarrow> m div b < a \<longleftrightarrow> (m :: int) < a * b"
proof -
  assume b: "0 < b"
  have "a \<le> m div b \<longleftrightarrow> a * b \<le> m"
  proof
    assume "a \<le> m div b"
    then have "a * b \<le> m div b * b" using b by (intro mult_right_mono) auto
    also have "\<dots> \<le> m" using b by (metis div_mult_mod_eq le_add_same_cancel1 pos_mod_sign)
    finally show "a * b \<le> m" .
  next
    assume "a * b \<le> m"
    then have "a * b div b \<le> m div b" using b by (intro zdiv_mono1) auto
    then show "a \<le> m div b" using b by simp
  qed
  then show ?thesis by (simp flip: not_le)
qed

lemma sdiv_pos: "0 \<le> a \<Longrightarrow> 0 < b \<Longrightarrow> a sdiv b = a div (b :: int)"
  by (cases "a = 0") (simp_all add: signed_divide_int_def)

lemma sdiv_neg_pos: "a < 0 \<Longrightarrow> 0 < b \<Longrightarrow> a sdiv b = - (- a div (b :: int))"
  by (simp add: signed_divide_int_def)

lemma sdiv_pos_neg: "0 \<le> a \<Longrightarrow> b < 0 \<Longrightarrow> a sdiv b = - (a div - (b :: int))"
  by (cases "a = 0") (simp_all add: signed_divide_int_def)

lemma add_overflows_eq:
  "mn \<le> a \<Longrightarrow> a \<le> mx \<Longrightarrow> in_i64 mn \<Longrightarrow> in_i64 mx \<Longrightarrow> in_i64 b \<Longrightarrow> mn < 0 \<Longrightarrow> 0 < mx \<Longrightarrow>
     add_overflows mn mx a b = Some (\<not> (mn \<le> a + b \<and> a + b \<le> mx))"
  by (auto simp: add_overflows_def i64_sub_def i64_check_def in_i64_def)

lemma sub_overflows_eq:
  "mn \<le> a \<Longrightarrow> a \<le> mx \<Longrightarrow> in_i64 mn \<Longrightarrow> in_i64 mx \<Longrightarrow> in_i64 b \<Longrightarrow> mn < 0 \<Longrightarrow> 0 < mx \<Longrightarrow>
     sub_overflows mn mx a b = Some (\<not> (mn \<le> a - b \<and> a - b \<le> mx))"
  by (auto simp: sub_overflows_def i64_add_def i64_check_def in_i64_def)

lemma int_div_bounds: "0 \<le> a \<Longrightarrow> 0 < b \<Longrightarrow> 0 \<le> a div b \<and> a div b \<le> (a :: int)"
  using zdiv_mono2 [of a 1 b] by (simp add: pos_imp_zdiv_nonneg_iff)

lemma i64_div_pos_pos: "0 \<le> a \<Longrightarrow> 0 < b \<Longrightarrow> in_i64 a \<Longrightarrow> i64_div a b = Some (a div b)"
  using int_div_bounds [of a b] by (auto simp: i64_div_def i64_check_def in_i64_def sdiv_pos)

lemma i64_div_neg_pos: "a < 0 \<Longrightarrow> 0 < b \<Longrightarrow> in_i64 a \<Longrightarrow> i64_div a b = Some (- (- a div b))"
  using int_div_bounds [of "- a" b] by (auto simp: i64_div_def i64_check_def in_i64_def sdiv_neg_pos)

lemma i64_div_pos_neg: "0 \<le> a \<Longrightarrow> b < 0 \<Longrightarrow> in_i64 a \<Longrightarrow> i64_div a b = Some (- (a div - b))"
  using int_div_bounds [of a "- b"] by (auto simp: i64_div_def i64_check_def in_i64_def sdiv_pos_neg)

lemma mul_overflows_eq:
  assumes "in_i64 mn" "in_i64 mx" "mn < 0" "0 < mx"
  shows "mul_overflows mn mx a b = Some (\<not> (mn \<le> a * b \<and> a * b \<le> mx))"
proof -
  consider (pp) "0 < a" "0 < b" | (pn) "0 < a" "b \<le> 0" | (np) "a \<le> 0" "0 < b"
    | (nn) "a < 0" "b \<le> 0" | (z) "a = 0" "b \<le> 0" by linarith
  then show ?thesis
  proof cases
    case pp
    then have "0 < a * b" by simp
    then have "(mx < a * b) = (\<not> (mn \<le> a * b \<and> a * b \<le> mx))" using assms by arith
    with pp show ?thesis using assms
      by (simp add: mul_overflows_def i64_div_pos_pos less_div_iff)
  next
    case pn
    then have "a * b \<le> 0" by (simp add: mult_le_0_iff)
    then have "(a * b < mn) = (\<not> (mn \<le> a * b \<and> a * b \<le> mx))" using assms by arith
    with pn show ?thesis using assms less_div_iff [of a "- mn" "- b"]
      by (simp add: mul_overflows_def i64_div_neg_pos mult.commute less_minus_iff [of b])
  next
    case np
    then have "a * b \<le> 0" by (simp add: mult_le_0_iff)
    then have "(a * b < mn) = (\<not> (mn \<le> a * b \<and> a * b \<le> mx))" using assms by arith
    with np show ?thesis using assms less_div_iff [of b "- mn" "- a"]
      by (simp add: mul_overflows_def i64_div_neg_pos less_minus_iff [of a])
  next
    case nn
    then have "0 \<le> a * b" by (simp add: zero_le_mult_iff)
    then have "(mx < a * b) = (\<not> (mn \<le> a * b \<and> a * b \<le> mx))" using assms by arith
    with nn show ?thesis using assms less_div_iff [of "- a" mx "- b"]
      by (simp add: mul_overflows_def i64_div_pos_neg mult.commute less_minus_iff [of b])
  next
    case z
    then show ?thesis using assms by (simp add: mul_overflows_def)
  qed
qed

lemma signed_finish_spec:
  assumes "\<not> isFloatKind k" "isSignedKind k" "overflow = (\<not> in_kind k r)"
    "in_kind k r \<Longrightarrow> v = Some r"
  shows "signed_finish k overflow v = Some (arith_spec k r)"
  using assms by (simp add: signed_finish_def arith_spec_def truncateRawInteger_word_of_int)

lemma sdiv_overflow_iff:
  assumes "in_kind k a" "in_kind k b" "isSignedKind k" "b \<noteq> 0"
  shows "(a = kind_lo k \<and> b = - 1) = (\<not> in_kind k (a sdiv b))"
proof
  assume "a = kind_lo k \<and> b = - 1"
  then show "\<not> in_kind k (a sdiv b)"
    using signed_kind_bounds [OF assms(3)] by (simp add: in_kind_def)
next
  assume out: "\<not> in_kind k (a sdiv b)"
  let ?q = "\<bar>a\<bar> div \<bar>b\<bar>"
  have q: "\<bar>a sdiv b\<bar> = ?q" by (rule abs_sdiv)
  have le: "?q \<le> \<bar>a\<bar>" using sdiv_bounds [of a b] by (simp add: q)
  have b: "kind_lo k = - kind_hi k - 1" using signed_kind_bounds [OF assms(3)] by linarith
  have "\<bar>a\<bar> \<le> kind_hi k + 1" using assms(1) b by (auto simp: in_kind_def)
  with out le b q have big: "kind_hi k < a sdiv b" "?q = kind_hi k + 1" "\<bar>a\<bar> = kind_hi k + 1"
    by (auto simp: in_kind_def)
  then have a: "a = kind_lo k" using assms(1) b by (auto simp: in_kind_def abs_if split: if_splits)
  have "\<bar>b\<bar> = 1"
  proof (rule ccontr)
    assume "\<bar>b\<bar> \<noteq> 1"
    then have "2 \<le> \<bar>b\<bar>" using assms(4) by linarith
    then have "?q \<le> \<bar>a\<bar> div 2" by (intro zdiv_mono2) auto
    with big signed_kind_bounds [OF assms(3)] show False by linarith
  qed
  moreover have "b \<noteq> 1" using big a signed_kind_bounds [OF assms(3)] by auto
  ultimately show "a = kind_lo k \<and> b = - 1" using a by linarith
qed

lemma smod_in_kind: "in_kind k a \<Longrightarrow> isSignedKind k \<Longrightarrow> in_kind k (a smod b)"
  using smod_between [of a b] signed_kind_bounds [of k] by (auto simp: in_kind_def)

lemma signedArithmetic_exact:
  assumes "\<not> isFloatKind k" "isSignedKind k" "in_kind k a" "in_kind k b" "\<not> divides_by_zero op b"
  shows "signedArithmetic k op a b = Some (arith_spec k (exact_op op a b))"
proof -
  let ?mn = "kind_lo k" and ?mx = "kind_hi k"
  have mn: "(if k = NUMBER_KIND_I64 then - (2 ^ 63) else sint (numberKindMin k)) = ?mn"
    and mx: "(if k = NUMBER_KIND_I64 then 2 ^ 63 - 1 else sint (numberKindMax k)) = ?mx"
    using assms(2) by (auto simp: sint_numberKindMin sint_numberKindMax kind_lo_def kind_hi_def)
  have b: "in_i64 ?mn" "in_i64 ?mx" "in_i64 a" "in_i64 b" "?mn < 0" "0 < ?mx"
    "?mn \<le> a" "a \<le> ?mx"
    using signed_kind_bounds [OF assms(2)] assms(3,4) in_kind_in_i64 [OF assms(2)]
    by (auto simp: in_i64_def in_kind_def)
  note fin = signed_finish_spec [OF assms(1,2)]
  note i64 = in_kind_in_i64 [OF assms(2)]
  show ?thesis
  proof (cases op)
    case NUMBER_OP_ADD
    then show ?thesis unfolding signedArithmetic_def Let_def mn mx
      using fin [of _ "a + b"] i64 [of "a + b"] add_overflows_eq [of ?mn a ?mx b] b
      by (simp add: i64_add_def c_arith in_kind_def)
  next
    case NUMBER_OP_SUBTRACT
    then show ?thesis unfolding signedArithmetic_def Let_def mn mx
      using fin [of _ "a - b"] i64 [of "a - b"] sub_overflows_eq [of ?mn a ?mx b] b
      by (simp add: i64_sub_def c_arith in_kind_def)
  next
    case NUMBER_OP_MULTIPLY
    then show ?thesis unfolding signedArithmetic_def Let_def mn mx
      using fin [of _ "a * b"] i64 [of "a * b"] mul_overflows_eq [of ?mn ?mx a b] b
      by (simp add: i64_mul_def c_arith in_kind_def)
  next
    case NUMBER_OP_DIVIDE
    then have "b \<noteq> 0" using assms(5) by (simp add: divides_by_zero_def)
    then show ?thesis unfolding signedArithmetic_def Let_def mn mx NUMBER_OP_DIVIDE
      using fin [of _ "a sdiv b"] i64 [of "a sdiv b"] sdiv_overflow_iff [OF assms(3,4,2)]
      by (simp add: i64_div_def c_arith)
  next
    case NUMBER_OP_MODULO
    then have "b \<noteq> 0" using assms(5) by (simp add: divides_by_zero_def)
    moreover have "b \<noteq> - 1 \<Longrightarrow> in_i64 (a sdiv b)"
      using sdiv_overflow_iff [OF assms(3,4,2)] i64 [of "a sdiv b"] calculation by blast
    moreover have "signed_finish k False (Some (a smod b)) = Some (arith_spec k (a smod b))"
      by (rule fin) (use smod_in_kind [OF assms(3,2)] in auto)
    ultimately show ?thesis unfolding signedArithmetic_def Let_def NUMBER_OP_MODULO
      by (auto simp: i64_mod_def)
  qed
qed

lemma unsignedArithmetic_exact:
  assumes k: "\<not> isSignedKind k" and a: "payload_ok k a" and b: "payload_ok k b"
    and z: "\<not> divides_by_zero op (uint b)"
  shows "unsignedArithmetic k op a b = Some (arith_spec k (exact_op op (uint a) (uint b)))"
proof -
  have f: "\<not> isFloatKind k" using k float_kind_signed by blast
  let ?mx = "numberKindMax k"
  have lo: "kind_lo k = 0" "kind_hi k < 2 ^ 64" using unsigned_kind_bounds [OF k] by auto
  have le: "uint a \<le> uint ?mx" "uint b \<le> uint ?mx"
    using a b k f by (auto simp: payload_ok_def in_kind_def int_value_def uint_numberKindMax)
  have sub: "uint (?mx - a) = uint ?mx - uint a" 
    using le(1) uint_minus_simple_alt [of a ?mx] word_le_def [of a ?mx] by simp
  have mxd: "uint (?mx div a) = uint ?mx div uint a" by (simp add: uint_div)
  note tr = truncateRawInteger_word_of_int [OF f]
  show ?thesis
  proof (cases op)
    case NUMBER_OP_ADD
    then show ?thesis using tr [of "uint a + uint b"]
      by (auto simp: unsignedArithmetic_def Let_def arith_spec_def in_kind_def lo word_less_def sub
          uint_numberKindMax)
  next
    case NUMBER_OP_SUBTRACT
    have "uint a - uint b \<le> kind_hi k"
      using le(1) uint_ge_0 [of b] uint_numberKindMax [of k] by linarith
    with NUMBER_OP_SUBTRACT show ?thesis using tr [of "uint a - uint b"]
      by (auto simp: unsignedArithmetic_def Let_def arith_spec_def in_kind_def lo word_less_def
          uint_numberKindMax)
  next
    case NUMBER_OP_MULTIPLY
    have pos: "0 < uint a \<longleftrightarrow> a \<noteq> 0" by (metis less_le uint_0_iff uint_ge_0)
    have "(a \<noteq> 0 \<and> ?mx div a < b) = (\<not> uint a * uint b \<le> kind_hi k)"
    proof (cases "a = 0")
      case True
      then show ?thesis using uint_ge_0 [of ?mx] by (simp add: uint_numberKindMax)
    next
      case False
      then show ?thesis using pos less_div_iff [of "uint a" "uint ?mx" "uint b"]
        by (simp add: word_less_def mxd uint_numberKindMax mult.commute not_le)
    qed
    with NUMBER_OP_MULTIPLY show ?thesis using tr [of "uint a * uint b"]
      by (auto simp: unsignedArithmetic_def Let_def arith_spec_def in_kind_def lo)
  next
    case NUMBER_OP_DIVIDE
    then have nz: "0 < uint b" using z uint_ge_0 [of b] by (auto simp: divides_by_zero_def order_less_le)
    have q: "in_kind k (uint a div uint b)"
      using int_div_bounds [of "uint a" "uint b"] nz le by (simp add: in_kind_def lo uint_numberKindMax)
    have w: "word_of_int (uint a div uint b) = a div b" by (simp flip: uint_div)
    have "b \<noteq> 0" using nz by auto
    then show ?thesis using tr [OF q] q nz sdiv_pos [of "uint a" "uint b"] NUMBER_OP_DIVIDE
      by (simp add: unsignedArithmetic_def Let_def arith_spec_def w)
  next
    case NUMBER_OP_MODULO
    then have nz: "0 < uint b" using z uint_ge_0 [of b] by (auto simp: divides_by_zero_def order_less_le)
    have r: "in_kind k (uint a mod uint b)"
      using zmod_le_nonneg_dividend [of "uint a" "uint b"] nz le
      by (simp add: in_kind_def lo uint_numberKindMax)
    have w: "word_of_int (uint a mod uint b) = a mod b" by (simp flip: uint_mod)
    have "uint a smod uint b = uint a mod uint b"
      using nz uint_ge_0 [of a]
      by (cases "uint a = 0") (auto simp: signed_modulo_int_def sgn_if order_less_le)
    moreover have "b \<noteq> 0" using nz by auto
    ultimately show ?thesis using tr [OF r] r NUMBER_OP_MODULO
      by (simp add: unsignedArithmetic_def Let_def arith_spec_def w)
  qed
qed

lemma numberArithmetic_spec:
  assumes "\<not> isFloatKind k" "payload_ok k a" "payload_ok k b"
    "\<not> divides_by_zero op (int_value k b)"
  shows "numberArithmetic k op a b =
           Some (arith_spec k (exact_op op (int_value k a) (int_value k b)))"
proof (cases "isSignedKind k")
  case True
  with assms show ?thesis
    by (simp add: numberArithmetic_def int_value_def payload_ok_def signedArithmetic_exact)
next
  case False
  with assms show ?thesis
    by (simp add: numberArithmetic_def int_value_def unsignedArithmetic_exact)
qed

text \<open>The result of an operation is again a well-formed payload.\<close>

lemma numberArithmetic_payload_ok:
  assumes "payload_ok k a" "payload_ok k b" "numberArithmetic k op a b = Some (Fits r)"
    "isFloatKind k \<or> \<not> divides_by_zero op (int_value k b)"
  shows "payload_ok k r"
proof (cases "isFloatKind k")
  case False
  with assms numberArithmetic_spec [of k a b op] show ?thesis
    by (auto simp: arith_spec_def payload_ok_word_of_int split: if_splits)
qed (simp add: payload_ok_def)

lemma payload_ok_0: "payload_ok k 0"
  by (cases k) (simp_all add: payload_ok_def in_kind_def int_value_def kind_lo_def kind_hi_def)

lemma numberNegateValue_exact:
  assumes "\<not> isFloatKind k" "payload_ok k v"
  shows "numberNegateValue k v = Some (arith_spec k (- int_value k v))"
proof -
  have "numberNegateValue k v = numberArithmetic k NUMBER_OP_SUBTRACT 0 v"
    using assms(1) by (simp add: numberNegateValue_def numberArithmetic_def)
  with numberArithmetic_spec [of k 0 v NUMBER_OP_SUBTRACT] assms show ?thesis
    by (simp add: payload_ok_0 divides_by_zero_def) (simp add: int_value_def)
qed

lemma numberOpLessThan_exact:
  "\<not> isFloatKind k \<Longrightarrow> numberOpLessThan k a b \<longleftrightarrow> int_value k a < int_value k b"
  by (simp add: numberOpLessThan_def int_value_def word_less_def)

text \<open>
  C11. Integer arithmetic never wraps and is never undefined: for every integer kind and every
  pair of well-formed payloads, each operation (the divisor being non-zero where there is one)
  stores the exact mathematical result when it is in the range of the kind, and otherwise
  reports that it does not fit.
\<close>

theorem numberArithmetic_exact:
  assumes "\<not> isFloatKind k" "payload_ok k a" "payload_ok k b"
    "\<not> divides_by_zero op (int_value k b)"
  shows "numberArithmetic k op a b =
           Some (arith_spec k (exact_op op (int_value k a) (int_value k b)))"
  using assms by (rule numberArithmetic_spec)

theorem numberArithmetic_exact_witness:
  "numberArithmetic NUMBER_KIND_U8 NUMBER_OP_ADD 255 1 = Some DoesNotFit \<and>
   numberArithmetic NUMBER_KIND_I8 NUMBER_OP_DIVIDE (- 128) (- 1) = Some DoesNotFit \<and>
   numberArithmetic NUMBER_KIND_I8 NUMBER_OP_DIVIDE (- 7) 2 = Some (Fits (- 3))"
  using numberArithmetic_exact [of NUMBER_KIND_U8 255 1 NUMBER_OP_ADD]
    numberArithmetic_exact [of NUMBER_KIND_I8 "- 128" "- 1" NUMBER_OP_DIVIDE]
    numberArithmetic_exact [of NUMBER_KIND_I8 "- 7" 2 NUMBER_OP_DIVIDE]
  by (simp add: payload_ok_def in_kind_def int_value_def kind_lo_def kind_hi_def arith_spec_def
      divides_by_zero_def signed_divide_int_def)

section \<open>Casts\<close>

text \<open>
  C15. A cast between integer kinds succeeds exactly when the number is in the range of the
  target kind, and then the payload, read in the target kind, stands for the same number.
\<close>

theorem numberCast_integers:
  assumes "\<not> isFloatKind from_kind" "\<not> isFloatKind to" "payload_ok from_kind v"
  shows "numberCast from_kind v to =
           Some (if in_kind to (int_value from_kind v) then NUMBER_CAST_OK v
                 else NUMBER_CAST_OUT_OF_RANGE) \<and>
         (in_kind to (int_value from_kind v) \<longrightarrow> int_value to v = int_value from_kind v)"
proof -
  have sgn: "isSignedKind k \<Longrightarrow> kind_lo k < 0 \<and> 0 < kind_hi k \<and> kind_hi k < 2 ^ 63" for k
    using signed_kind_bounds [of k] by linarith
  have uns: "\<not> isSignedKind k \<Longrightarrow> kind_lo k = 0 \<and> 0 \<le> kind_hi k \<and> kind_hi k < 2 ^ 64" for k
    using unsigned_kind_bounds [of k] by linarith
  have u0: "0 \<le> uint v" and s63: "sint v < 2 ^ 63" "- (2 ^ 63) \<le> sint v"
    using in_i64_sint [of v] by (simp_all add: in_i64_def)
  show ?thesis
    using assms(1,2) sgn [of from_kind] sgn [of to] uns [of from_kind] uns [of to]
      uint_sint_cases [of v] u0 s63
    by (auto simp: numberCast_def numberCastIntegerToInteger_def int_value_def Let_def in_kind_def
        word_less_def uint_numberKindMax sint_numberKindMin split: if_splits)
qed

theorem numberCast_integers_witness:
  "numberCast NUMBER_KIND_I64 (- 1) NUMBER_KIND_U8 = Some NUMBER_CAST_OUT_OF_RANGE \<and>
   numberCast NUMBER_KIND_U8 200 NUMBER_KIND_I64 = Some (NUMBER_CAST_OK 200) \<and>
   numberCast NUMBER_KIND_U8 200 NUMBER_KIND_I8 = Some NUMBER_CAST_OUT_OF_RANGE"
  using numberCast_integers [of NUMBER_KIND_I64 NUMBER_KIND_U8 "- 1"]
    numberCast_integers [of NUMBER_KIND_U8 NUMBER_KIND_I64 200]
    numberCast_integers [of NUMBER_KIND_U8 NUMBER_KIND_I8 200]
  by (simp add: payload_ok_def in_kind_def int_value_def kind_lo_def kind_hi_def)

section \<open>Casts between integers and floats\<close>

text \<open>A finite double as a multiple of the smallest subnormal.\<close>

definition fp_scaled :: "bool \<Rightarrow> nat \<Rightarrow> int \<Rightarrow> int" where
  "fp_scaled s m e = fp_signed s (m * 2 ^ nat (e + 1074))"

lemma fp_signed_mult: "fp_signed s (m * n) = fp_signed s m * int n"
  by (simp add: fp_signed_def)

lemma fp_compare_scaled:
  assumes "- 1074 \<le> e" "- 1074 \<le> f"
  shows "fp_less (Fin s m e) (Fin t n f) \<longleftrightarrow> fp_scaled s m e < fp_scaled t n f"
    and "fp_eq (Fin s m e) (Fin t n f) \<longleftrightarrow> fp_scaled s m e = fp_scaled t n f"
proof -
  let ?g = "min e f" and ?c = "(2::int) ^ nat (min e f + 1074)"
  have pow: "nat (x + 1074) = nat (x - ?g) + nat (?g + 1074)" if "?g \<le> x" for x
    using that assms by linarith
  have sc: "fp_scaled s m e = fp_signed s (m * 2 ^ nat (e - ?g)) * ?c"
    "fp_scaled t n f = fp_signed t (n * 2 ^ nat (f - ?g)) * ?c"
    unfolding fp_scaled_def pow [OF min.cobounded1] pow [OF min.cobounded2] power_add
    by (simp_all add: fp_signed_mult mult.assoc)
  show "fp_less (Fin s m e) (Fin t n f) \<longleftrightarrow> fp_scaled s m e < fp_scaled t n f"
    and "fp_eq (Fin s m e) (Fin t n f) \<longleftrightarrow> fp_scaled s m e = fp_scaled t n f"
    unfolding sc by (simp_all add: Let_def)
qed

text \<open>Integers \<open>\<plusminus> m * 2^k\<close> with a significand of at most 53 bits are doubles, exactly.\<close>

lemma f64_of_int_decode:
  assumes "\<bar>i\<bar> = int m * 2 ^ k" "m < 2 ^ 53" "k \<le> 900"
  obtains m' e' where "fp_decode (f64_of_int i) = Fin (i < 0) m' e'" "- 1074 \<le> e'"
    "fp_scaled (i < 0) m' e' = i * 2 ^ 1074"
proof (cases "m = 0")
  case True
  then have "i = 0" using assms(1) by simp
  moreover have "fp_decode (f64_of_int 0) = Fin False 0 (- 1074)"
    using fp_decode_encode [of 0 "- 1074" False]
    by (simp add: f64_of_int_def fp_round_dyadic_zero binary64_def canonical_def del: fp_encode.simps)
  ultimately show thesis using that [of 0 "- 1074"] by (simp add: fp_scaled_def fp_signed_def)
next
  case False
  then have m: "0 < m" by simp
  have nat_i: "nat \<bar>i\<bar> = m * 2 ^ k" using assms(1) by (simp add: nat_mult_distrib nat_power_eq)
  have "fp_round_dyadic binary64 (i < 0) (m * 2 ^ k) (int k - int k) = fp_round_dyadic binary64 (i < 0) m (int k)"
    using assms m by (intro fp_round_dyadic_shift) (simp_all add: binary64_def)
  then have "f64_of_int i = fp_pack (Fin (i < 0) m (int k))"
    by (simp add: f64_of_int_def nat_i)
  with fp_decode_pack [of m "int k" "i < 0"] m assms obtain m' e' where
    d: "fp_decode (f64_of_int i) = Fin (i < 0) m' e'" "e' \<le> int k" "- 1074 \<le> e'"
      "m' = m * 2 ^ nat (int k - e')" by auto
  have "nat (int k - e') + nat (e' + 1074) = k + 1074" using d(2,3) by linarith
  then have "m' * 2 ^ nat (e' + 1074) = nat \<bar>i\<bar> * 2 ^ 1074"
    unfolding d(4) nat_i mult.assoc power_add [symmetric] by simp
  then have "fp_scaled (i < 0) m' e' = i * 2 ^ 1074"
    unfolding fp_scaled_def by (simp add: fp_signed_def)
  with d that show thesis by blast
qed

lemma f64_less_of_int:
  assumes "\<bar>i\<bar> = int m * 2 ^ k" "m < 2 ^ 53" "k \<le> 900" "\<bar>j\<bar> = int n * 2 ^ l" "n < 2 ^ 53" "l \<le> 900"
  shows "f64_less (f64_of_int i) (f64_of_int j) \<longleftrightarrow> i < j"
    and "f64_eq (f64_of_int i) (f64_of_int j) \<longleftrightarrow> i = j"
    and "f64_less (f64_of_int i) (f64_neg (f64_of_int j)) \<longleftrightarrow> i < - j"
proof -
  obtain m1 e1 where 1: "fp_decode (f64_of_int i) = Fin (i < 0) m1 e1" "- 1074 \<le> e1"
    "fp_scaled (i < 0) m1 e1 = i * 2 ^ 1074" by (rule f64_of_int_decode [OF assms(1-3)])
  obtain m2 e2 where 2: "fp_decode (f64_of_int j) = Fin (j < 0) m2 e2" "- 1074 \<le> e2"
    "fp_scaled (j < 0) m2 e2 = j * 2 ^ 1074" by (rule f64_of_int_decode [OF assms(4-6)])
  have 3: "fp_scaled (\<not> j < 0) m2 e2 = - (j * 2 ^ 1074)"
    using 2(3) unfolding fp_scaled_def fp_signed_def by (cases "j < 0") auto
  note cmp = fp_compare_scaled [OF 1(2) 2(2)]
  show "f64_less (f64_of_int i) (f64_of_int j) \<longleftrightarrow> i < j"
    unfolding f64_less_def 1(1) 2(1) cmp 1(3) 2(3) by (simp only: mult_less_cancel_right) simp
  show "f64_eq (f64_of_int i) (f64_of_int j) \<longleftrightarrow> i = j"
    unfolding f64_eq_def 1(1) 2(1) cmp 1(3) 2(3) by (simp only: mult_cancel_right) simp
  show "f64_less (f64_of_int i) (f64_neg (f64_of_int j)) \<longleftrightarrow> i < - j"
    unfolding f64_less_def 1(1) 2(1) fp_decode_neg fp_neg.simps cmp 1(3) 3 minus_mult_left
    by (simp only: mult_less_cancel_right) simp
qed

lemma f64_of_int_finite: "\<bar>i\<bar> < 2 ^ 53 \<Longrightarrow> \<not> f64_isnan (f64_of_int i) \<and> \<not> f64_isinf (f64_of_int i)"
  by (rule f64_of_int_decode [of i "nat \<bar>i\<bar>" 0]) (auto simp: f64_isnan_def f64_isinf_def)

lemma numberCastFloatToInteger_of_int:
  assumes i: "\<bar>i\<bar> < 2 ^ 53" and k: "\<not> isFloatKind k"
  shows "numberCastFloatToInteger (f64_of_int i) k =
           Some (if in_kind k i then NUMBER_CAST_OK (word_of_int i) else NUMBER_CAST_OUT_OF_RANGE)"
proof -
  let ?b = "ki_size (numberKindInfo k) * 8 - (if isSignedKind k then 1 else 0)"
  have m: "\<bar>i\<bar> = int (nat \<bar>i\<bar>) * 2 ^ 0" "nat \<bar>i\<bar> < 2 ^ 53" "(0::nat) \<le> 900" using i by auto
  have p: "\<bar>2 ^ ?b\<bar> = int 1 * 2 ^ ?b" "(1::nat) < 2 ^ 53" "?b \<le> 900"
    by simp_all (cases k; simp)
  have z: "\<bar>0\<bar> = int 0 * 2 ^ 0" "(0::nat) < 2 ^ 53" by simp_all
  have zero: "f64_less (f64_of_int i) 0 \<longleftrightarrow> i < 0"
  proof -
    have "(0::u64) = f64_of_int 0"
      by (simp add: f64_of_int_def fp_round_dyadic_zero binary64_def fp_assemble_def)
    then show ?thesis using f64_less_of_int(1) [OF m z m(3)] by simp
  qed
  have up: "f64_less (f64_of_int (2 ^ ?b)) (f64_of_int i) \<or> f64_eq (f64_of_int i) (f64_of_int (2 ^ ?b)) \<longleftrightarrow> kind_hi k < i"
    unfolding f64_less_of_int(1) [OF p m] f64_less_of_int(2) [OF m p] by (auto simp: kind_hi_def)
  have low: "f64_less (f64_of_int i) (if isSignedKind k then f64_neg (f64_of_int (2 ^ ?b)) else 0) \<longleftrightarrow> i < kind_lo k"
    using f64_less_of_int(3) [OF m p] zero by (cases "isSignedKind k") (simp_all add: kind_lo_def)
  show ?thesis
    using f64_trunc_of_int [OF i] f64_of_int_finite [OF i] up low
    by (auto simp: numberCastFloatToInteger_def Let_def in_kind_def)
qed

text \<open>
  C16. Integers of at most 53 bits survive a cast to \<open>f64\<close> and back, whatever integer kind they
  have: the cast to \<open>f64\<close> succeeds and the cast back gives the same payload.
\<close>

theorem numberCast_f64_roundtrip:
  assumes k: "\<not> isFloatKind k" and v: "payload_ok k v" and i: "\<bar>int_value k v\<bar> < 2 ^ 53"
  shows "\<exists>f. numberCast k v NUMBER_KIND_F64 = Some (NUMBER_CAST_OK f) \<and>
             numberCast NUMBER_KIND_F64 f k = Some (NUMBER_CAST_OK v)"
proof -
  have f: "numberToDouble k v = f64_of_int (int_value k v)"
    using k by (simp add: numberToDouble_def int_value_def)
  have "in_kind k (int_value k v)" using v k by (simp add: payload_ok_def)
  moreover have "word_of_int (int_value k v) = v" by (simp add: int_value_def)
  ultimately show ?thesis
    using numberCastFloatToInteger_of_int [OF i k] k
    by (simp add: numberCast_def f roundFloat_def Let_def)
qed

theorem numberCast_f64_roundtrip_witness:
  "\<exists>f. numberCast NUMBER_KIND_I32 (- 7) NUMBER_KIND_F64 = Some (NUMBER_CAST_OK f) \<and>
       numberCast NUMBER_KIND_F64 f NUMBER_KIND_I32 = Some (NUMBER_CAST_OK (- 7))"
  by (rule numberCast_f64_roundtrip)
    (simp_all add: payload_ok_def in_kind_def int_value_def kind_lo_def kind_hi_def)

text \<open>Rounding a float to its kind is idempotent, so an \<open>f32\<close> result is stable.\<close>

lemma roundFloat_idem: "roundFloat k (roundFloat k x) = roundFloat k x"
  by (simp add: roundFloat_def f64_to_f32_idem)

end
