(* ===== verification/Value.thy ===== *)
theory Value
  imports Number_Ops
begin

text \<open>
  Runtime values, \<^verbatim>\<open>src/value.h\<close> and the comparison of \<^verbatim>\<open>src/value.c\<close>.  The tag and
  the union of a C \<open>Value\<close> are one datatype; an object pointer is an address of the heap.
\<close>

type_synonym obj_ref = nat

datatype Value =
    VAL_BOOL bool
  | VAL_NIL
  | VAL_NUMBER NumberKind NumberPayload
  | VAL_OBJ obj_ref

definition IS_NIL :: "Value \<Rightarrow> bool" where
  "IS_NIL v \<longleftrightarrow> v = VAL_NIL"

definition numberValue :: "NumberKind \<Rightarrow> NumberPayload \<Rightarrow> Value" where
  "numberValue kind payload = VAL_NUMBER kind payload"

fun valuesEqual :: "Value \<Rightarrow> Value \<Rightarrow> bool" where
  "valuesEqual (VAL_BOOL a) (VAL_BOOL b) = (a = b)"
| "valuesEqual VAL_NIL VAL_NIL = True"
| "valuesEqual (VAL_NUMBER k a) (VAL_NUMBER l b) =
     (if k \<noteq> l then False
      else if isFloatKind k then f64_eq a b
      else a = b)"
| "valuesEqual (VAL_OBJ a) (VAL_OBJ b) = (a = b)"
| "valuesEqual _ _ = False"

text \<open>\<open>GROW_CAPACITY\<close> of \<^verbatim>\<open>src/gc.h\<close>, the growth rule of every runtime array.\<close>

definition GROW_CAPACITY :: "nat \<Rightarrow> nat" where
  "GROW_CAPACITY capacity = (if capacity < 8 then 8 else capacity * 2)"

lemma GROW_CAPACITY_gt: "capacity < GROW_CAPACITY capacity"
  by (simp add: GROW_CAPACITY_def)

lemma fp_eq_refl: "x \<noteq> NaN \<Longrightarrow> fp_eq x x"
  by (cases x) simp_all

lemma fp_eq_sym: "fp_eq x y \<Longrightarrow> fp_eq y x"
  by (cases x; cases y) (auto simp: Let_def min.commute)

definition value_is_nan :: "Value \<Rightarrow> bool" where
  "value_is_nan v = (case v of VAL_NUMBER k p \<Rightarrow> isFloatKind k \<and> f64_isnan p | _ \<Rightarrow> False)"

text \<open>Values equal themselves, except for a NaN, and equality is symmetric.\<close>

lemma valuesEqual_refl: "valuesEqual v v \<longleftrightarrow> \<not> value_is_nan v"
  by (cases v) (auto simp: value_is_nan_def f64_eq_def f64_isnan_def intro: fp_eq_refl)

lemma valuesEqual_sym: "valuesEqual a b \<Longrightarrow> valuesEqual b a"
  by (cases a; cases b) (auto simp: f64_eq_def split: if_splits intro: fp_eq_sym)

end
