(* ===== verification/Linear_Probe.thy ===== *)
theory Linear_Probe
  imports Prelude
begin

text \<open>
  Linear probing, as \<open>findEntry\<close>, \<open>tableFindString\<close> and \<open>findSlot\<close> use it: start at the hash's
  home slot and step \<open>index = (index + 1) % capacity\<close> until a slot says stop.  The source loops
  without a bound; here a probe visits every slot at most once and \<open>None\<close> means that the loop of
  the source would not end.
\<close>

fun probe :: "nat \<Rightarrow> nat \<Rightarrow> (nat \<Rightarrow> bool) \<Rightarrow> nat \<Rightarrow> nat option" where
  "probe 0 cap stop i = None"
| "probe (Suc n) cap stop i = (if stop i then Some i else probe n cap stop ((i + 1) mod cap))"

text \<open>How many steps from slot \<open>i\<close> lead to slot \<open>r\<close>.\<close>

definition probe_dist :: "nat \<Rightarrow> nat \<Rightarrow> nat \<Rightarrow> nat" where
  "probe_dist cap i r = (r + cap - i) mod cap"

lemma probe_dist_less: "0 < cap \<Longrightarrow> probe_dist cap i r < cap"
  by (simp add: probe_dist_def)

lemma probe_dist_slot: "i < cap \<Longrightarrow> r < cap \<Longrightarrow> (i + probe_dist cap i r) mod cap = r"
  by (simp add: probe_dist_def mod_add_right_eq)

lemma probe_dist_of_slot:
  assumes "i < cap" "j < cap"
  shows "probe_dist cap i ((i + j) mod cap) = j"
proof (cases "i + j < cap")
  case True
  then show ?thesis using assms by (simp add: probe_dist_def)
next
  case False
  then have "(i + j) mod cap = i + j - cap" using assms by (simp add: mod_if)
  with False assms show ?thesis by (simp add: probe_dist_def)
qed

lemma probe_dist_inject:
  "i < cap \<Longrightarrow> r < cap \<Longrightarrow> s < cap \<Longrightarrow> probe_dist cap i r = probe_dist cap i s \<Longrightarrow> r = s"
  by (metis probe_dist_slot)

text \<open>What a probe finds: the first slot that stops, and none before it does.\<close>

lemma probe_SomeD:
  assumes "probe n cap stop i = Some r" "i < cap"
  shows "\<exists>j < n. r = (i + j) mod cap \<and> stop r \<and> (\<forall>j' < j. \<not> stop ((i + j') mod cap))"
  using assms
proof (induction n arbitrary: i)
  case 0
  then show ?case by simp
next
  case (Suc n)
  show ?case
  proof (cases "stop i")
    case True
    with Suc.prems show ?thesis by (intro exI [of _ 0]) simp
  next
    case False
    with Suc.prems have "probe n cap stop ((i + 1) mod cap) = Some r" "(i + 1) mod cap < cap" by auto
    with Suc.IH obtain j where j: "j < n" "r = ((i + 1) mod cap + j) mod cap" "stop r"
      "\<And>j'. j' < j \<Longrightarrow> \<not> stop (((i + 1) mod cap + j') mod cap)" by blast
    have "\<not> stop ((i + j') mod cap)" if "j' < Suc j" for j'
      using that False Suc.prems(2) j(4) by (cases j') (simp_all add: mod_add_left_eq)
    with j show ?thesis by (intro exI [of _ "Suc j"]) (simp add: mod_add_left_eq)
  qed
qed

lemma probe_Some:
  assumes "probe cap cap stop i = Some r" "i < cap"
  shows "r < cap" "stop r"
    "\<And>s. s < cap \<Longrightarrow> probe_dist cap i s < probe_dist cap i r \<Longrightarrow> \<not> stop s"
proof -
  obtain j where j: "j < cap" "r = (i + j) mod cap" "stop r"
    "\<And>j'. j' < j \<Longrightarrow> \<not> stop ((i + j') mod cap)" using probe_SomeD [OF assms] by blast
  show "r < cap" "stop r" using j assms by simp_all
  have d: "probe_dist cap i r = j" unfolding j(2) by (rule probe_dist_of_slot [OF assms(2) j(1)])
  show "\<not> stop s" if "s < cap" "probe_dist cap i s < probe_dist cap i r" for s
    using j(4) [of "probe_dist cap i s"] that probe_dist_slot [OF assms(2) that(1)] d by simp
qed

lemma probe_NoneD: "probe n cap stop i = None \<Longrightarrow> i < cap \<Longrightarrow> j < n \<Longrightarrow> \<not> stop ((i + j) mod cap)"
proof (induction n arbitrary: i j)
  case (Suc n)
  then have "\<not> stop i" "probe n cap stop ((i + 1) mod cap) = None" by (auto split: if_splits)
  with Suc.IH [of "(i + 1) mod cap" "j - 1"] Suc.prems show ?case
    by (cases j) (auto simp: mod_add_left_eq)
qed simp

text \<open>The loop ends as soon as one slot of the table stops it.\<close>

lemma probe_total:
  assumes "i < cap" "r < cap" "stop r"
  obtains s where "probe cap cap stop i = Some s"
proof (cases "probe cap cap stop i")
  case None
  then have "\<not> stop ((i + probe_dist cap i r) mod cap)"
    using assms(1) by (rule probe_NoneD) (use assms(1) in \<open>auto intro: probe_dist_less\<close>)
  then show ?thesis using assms by (simp add: probe_dist_slot)
qed

text \<open>The slot found is the one that stops at the least distance.\<close>

lemma probe_eqI:
  assumes "i < cap" "r < cap" "stop r"
    "\<And>s. s < cap \<Longrightarrow> probe_dist cap i s < probe_dist cap i r \<Longrightarrow> \<not> stop s"
  shows "probe cap cap stop i = Some r"
proof -
  obtain s where s: "probe cap cap stop i = Some s" using probe_total [of i cap r stop] assms(1-3) by blast
  note ps = probe_Some [OF s assms(1)]
  have "\<not> probe_dist cap i s < probe_dist cap i r" using assms(4) [OF ps(1)] ps(2) by blast
  moreover have "\<not> probe_dist cap i r < probe_dist cap i s" using ps(3) [OF assms(2)] assms(3) by blast
  ultimately have "probe_dist cap i r = probe_dist cap i s" by linarith
  then have "r = s" by (rule probe_dist_inject [OF assms(1,2) ps(1)])
  with s show ?thesis by simp
qed

lemma probe_cong: "(\<And>i. stop i = stop' i) \<Longrightarrow> probe n cap stop i = probe n cap stop' i"
proof -
  assume "\<And>i. stop i = stop' i"
  then have "stop = stop'" by blast
  then show ?thesis by simp
qed

section \<open>The invariant of a probed table\<close>

text \<open>
  Every occupied slot is reachable from the home slot of its key: no free slot lies before it
  on the probe path.  \<open>free\<close> says which slots end a search, \<open>home\<close> gives the home slot of the key
  of an occupied slot.
\<close>

definition probe_ok :: "nat \<Rightarrow> (nat \<Rightarrow> bool) \<Rightarrow> (nat \<Rightarrow> nat option) \<Rightarrow> bool" where
  "probe_ok cap free home \<longleftrightarrow>
     (\<forall>r < cap. \<forall>h. home r = Some h \<longrightarrow>
        h < cap \<and> (\<forall>s < cap. probe_dist cap h s < probe_dist cap h r \<longrightarrow> \<not> free s))"

lemma probe_okD:
  "probe_ok cap free home \<Longrightarrow> r < cap \<Longrightarrow> home r = Some h \<Longrightarrow> s < cap \<Longrightarrow>
     probe_dist cap h s < probe_dist cap h r \<Longrightarrow> \<not> free s"
  by (auto simp: probe_ok_def)

lemma probe_okD_home: "probe_ok cap free home \<Longrightarrow> r < cap \<Longrightarrow> home r = Some h \<Longrightarrow> h < cap"
  by (auto simp: probe_ok_def)

text \<open>Occupying one more slot, with a clear path from its key's home slot, keeps the invariant.\<close>

lemma probe_ok_update:
  assumes "probe_ok cap free home" "h < cap"
    "\<And>s. s < cap \<Longrightarrow> probe_dist cap h s < probe_dist cap h d \<Longrightarrow> \<not> free s"
    "\<And>s. s < cap \<Longrightarrow> free' s \<Longrightarrow> free s"
    "\<And>r. r < cap \<Longrightarrow> r \<noteq> d \<Longrightarrow> home' r = home r" "home' d = Some h"
  shows "probe_ok cap free' home'"
  unfolding probe_ok_def
proof (intro allI impI)
  fix r h'
  assume r: "r < cap" "home' r = Some h'"
  show "h' < cap \<and> (\<forall>s<cap. probe_dist cap h' s < probe_dist cap h' r \<longrightarrow> \<not> free' s)"
  proof (cases "r = d")
    case True
    with r assms show ?thesis by auto
  next
    case False
    with r assms(5) have "home r = Some h'" by simp
    with r assms(1,4) show ?thesis by (auto simp: probe_ok_def)
  qed
qed

text \<open>Freeing no slot and losing keys keeps it as well.\<close>

lemma probe_ok_weaken:
  assumes "probe_ok cap free home"
    "\<And>s. s < cap \<Longrightarrow> free' s \<Longrightarrow> free s"
    "\<And>r h. r < cap \<Longrightarrow> home' r = Some h \<Longrightarrow> home r = Some h"
  shows "probe_ok cap free' home'"
  using assms unfolding probe_ok_def by meson

end
