(* ===== verification/Hash_Table.thy ===== *)
theory Hash_Table
  imports Value Linear_Probe
begin

text \<open>
  The runtime's open-addressing hash table, \<^verbatim>\<open>src/hashtable.c\<close>: keys are interned
  strings, compared by address; a key's hash is a field of the string object, here the parameter
  \<open>hash\<close>.  A slot without a key is empty when its value is nil and a tombstone otherwise.
  \<open>None\<close> stands for a probe loop that would not end.  The table refines a finite map: the locale
  \<open>finite_map\<close> states the interface, and the interpretation discharges it for this code.
\<close>

record Entry =
  e_key :: "obj_ref option"
  e_value :: Value

record Table =
  t_count :: nat
  t_capacity :: nat
  t_entries :: "Entry list"

definition empty_entry :: Entry where
  "empty_entry = \<lparr>e_key = None, e_value = VAL_NIL\<rparr>"

definition initTable :: Table where
  "initTable = \<lparr>t_count = 0, t_capacity = 0, t_entries = []\<rparr>"

definition freeTable :: "Table \<Rightarrow> Table" where
  "freeTable table = initTable"

fun findEntry_loop ::
    "nat \<Rightarrow> Entry list \<Rightarrow> nat \<Rightarrow> obj_ref \<Rightarrow> nat \<Rightarrow> nat option \<Rightarrow> nat option" where
  "findEntry_loop 0 entries capacity key index tombstone = None"
| "findEntry_loop (Suc n) entries capacity key index tombstone =
     (case e_key (entries ! index) of
        None \<Rightarrow>
          if IS_NIL (e_value (entries ! index))
          then Some (case tombstone of Some t \<Rightarrow> t | None \<Rightarrow> index)
          else findEntry_loop n entries capacity key ((index + 1) mod capacity)
                 (case tombstone of Some t \<Rightarrow> Some t | None \<Rightarrow> Some index)
      | Some k \<Rightarrow>
          if k = key then Some index
          else findEntry_loop n entries capacity key ((index + 1) mod capacity) tombstone)"

definition findEntry ::
    "(obj_ref \<Rightarrow> u32) \<Rightarrow> Entry list \<Rightarrow> nat \<Rightarrow> obj_ref \<Rightarrow> nat option" where
  "findEntry hash entries capacity key =
     findEntry_loop capacity entries capacity key (unat (hash key) mod capacity) None"

text \<open>The rehashing loop of \<open>adjustCapacity\<close>, over the old entries.\<close>

fun rehash_loop ::
    "(obj_ref \<Rightarrow> u32) \<Rightarrow> nat \<Rightarrow> Entry list \<Rightarrow> Entry list \<Rightarrow> nat \<Rightarrow> (Entry list \<times> nat) option" where
  "rehash_loop hash capacity [] entries count = Some (entries, count)"
| "rehash_loop hash capacity (e # es) entries count =
     (case e_key e of
        None \<Rightarrow> rehash_loop hash capacity es entries count
      | Some key \<Rightarrow>
          do {
            dest \<leftarrow> findEntry hash entries capacity key;
            rehash_loop hash capacity es
              (entries[dest := \<lparr>e_key = Some key, e_value = e_value e\<rparr>]) (count + 1)
          })"

definition adjustCapacity :: "(obj_ref \<Rightarrow> u32) \<Rightarrow> Table \<Rightarrow> nat \<Rightarrow> Table option" where
  "adjustCapacity hash table capacity =
     do {
       (entries, count) \<leftarrow>
         rehash_loop hash capacity (t_entries table) (replicate capacity empty_entry) 0;
       Some \<lparr>t_count = count, t_capacity = capacity, t_entries = entries\<rparr>
     }"

definition tableGet :: "(obj_ref \<Rightarrow> u32) \<Rightarrow> Table \<Rightarrow> obj_ref \<Rightarrow> Value option option" where
  "tableGet hash table key =
     (if t_count table = 0 then Some None
      else do {
        i \<leftarrow> findEntry hash (t_entries table) (t_capacity table) key;
        Some (case e_key (t_entries table ! i) of
                None \<Rightarrow> None
              | Some k \<Rightarrow> Some (e_value (t_entries table ! i)))
      })"

text \<open>\<open>count + 1 > capacity * TABLE_MAX_LOAD\<close> with a maximal load of 0.75, in exact arithmetic.\<close>

definition table_overloaded :: "Table \<Rightarrow> bool" where
  "table_overloaded table \<longleftrightarrow> 3 * t_capacity table < 4 * (t_count table + 1)"

definition tableSet ::
    "(obj_ref \<Rightarrow> u32) \<Rightarrow> Table \<Rightarrow> obj_ref \<Rightarrow> Value \<Rightarrow> (bool \<times> Table) option" where
  "tableSet hash table key value =
     do {
       table \<leftarrow> (if table_overloaded table
                 then adjustCapacity hash table (GROW_CAPACITY (t_capacity table))
                 else Some table);
       i \<leftarrow> findEntry hash (t_entries table) (t_capacity table) key;
       let entry = t_entries table ! i;
           isNewKey = (e_key entry = None);
           count = (if isNewKey \<and> IS_NIL (e_value entry) then t_count table + 1 else t_count table)
       in Some (isNewKey,
            table\<lparr>t_count := count,
                  t_entries := (t_entries table)[i := \<lparr>e_key = Some key, e_value = value\<rparr>]\<rparr>)
     }"

definition tableDelete :: "(obj_ref \<Rightarrow> u32) \<Rightarrow> Table \<Rightarrow> obj_ref \<Rightarrow> (bool \<times> Table) option" where
  "tableDelete hash table key =
     (if t_count table = 0 then Some (False, table)
      else do {
        i \<leftarrow> findEntry hash (t_entries table) (t_capacity table) key;
        if e_key (t_entries table ! i) = None then Some (False, table)
        else Some (True, table\<lparr>t_entries :=
               (t_entries table)[i := \<lparr>e_key = None, e_value = VAL_BOOL True\<rparr>]\<rparr>)
      })"

fun add_all_loop :: "(obj_ref \<Rightarrow> u32) \<Rightarrow> Entry list \<Rightarrow> Table \<Rightarrow> Table option" where
  "add_all_loop hash [] to = Some to"
| "add_all_loop hash (e # es) to =
     (case e_key e of
        None \<Rightarrow> add_all_loop hash es to
      | Some key \<Rightarrow>
          do {
            (isNew, to) \<leftarrow> tableSet hash to key (e_value e);
            add_all_loop hash es to
          })"

definition tableAddAll :: "(obj_ref \<Rightarrow> u32) \<Rightarrow> Table \<Rightarrow> Table \<Rightarrow> Table option" where
  "tableAddAll hash from_table to = add_all_loop hash (t_entries from_table) to"

text \<open>
  \<open>tableFindString\<close> looks a string up by its characters; \<open>chars\<close> gives the characters of a key.
\<close>

fun find_string_loop ::
    "(obj_ref \<Rightarrow> u32) \<Rightarrow> (obj_ref \<Rightarrow> bytes) \<Rightarrow> nat \<Rightarrow> Entry list \<Rightarrow> nat \<Rightarrow> bytes \<Rightarrow> u32 \<Rightarrow> nat
       \<Rightarrow> obj_ref option option" where
  "find_string_loop hash chars 0 entries capacity text h index = None"
| "find_string_loop hash chars (Suc n) entries capacity text h index =
     (case e_key (entries ! index) of
        None \<Rightarrow>
          if IS_NIL (e_value (entries ! index)) then Some None
          else find_string_loop hash chars n entries capacity text h ((index + 1) mod capacity)
      | Some k \<Rightarrow>
          if length (chars k) = length text \<and> hash k = h \<and> chars k = text then Some (Some k)
          else find_string_loop hash chars n entries capacity text h ((index + 1) mod capacity))"

definition tableFindString ::
    "(obj_ref \<Rightarrow> u32) \<Rightarrow> (obj_ref \<Rightarrow> bytes) \<Rightarrow> Table \<Rightarrow> bytes \<Rightarrow> u32 \<Rightarrow> obj_ref option option" where
  "tableFindString hash chars table text h =
     (if t_count table = 0 then Some None
      else find_string_loop hash chars (t_capacity table) (t_entries table) (t_capacity table)
             text h (unat h mod t_capacity table))"

text \<open>\<open>tableRemoveWhite\<close> deletes the strings the collector has not marked, slot by slot.\<close>

fun remove_white_loop ::
    "(obj_ref \<Rightarrow> u32) \<Rightarrow> (obj_ref \<Rightarrow> bool) \<Rightarrow> nat list \<Rightarrow> Table \<Rightarrow> Table option" where
  "remove_white_loop hash marked [] table = Some table"
| "remove_white_loop hash marked (i # is) table =
     (case e_key (t_entries table ! i) of
        Some key \<Rightarrow>
          if \<not> marked key
          then do { (found, table) \<leftarrow> tableDelete hash table key; remove_white_loop hash marked is table }
          else remove_white_loop hash marked is table
      | None \<Rightarrow> remove_white_loop hash marked is table)"

definition tableRemoveWhite ::
    "(obj_ref \<Rightarrow> u32) \<Rightarrow> (obj_ref \<Rightarrow> bool) \<Rightarrow> Table \<Rightarrow> Table option" where
  "tableRemoveWhite hash marked table =
     remove_white_loop hash marked [0..<t_capacity table] table"

section \<open>The invariant and the map a table stands for\<close>

definition entry_free :: "Entry \<Rightarrow> bool" where
  "entry_free e \<longleftrightarrow> e_key e = None \<and> IS_NIL (e_value e)"

definition key_home :: "(obj_ref \<Rightarrow> u32) \<Rightarrow> nat \<Rightarrow> obj_ref \<Rightarrow> nat" where
  "key_home hash capacity key = unat (hash key) mod capacity"

definition entries_ok :: "(obj_ref \<Rightarrow> u32) \<Rightarrow> nat \<Rightarrow> Entry list \<Rightarrow> bool" where
  "entries_ok hash capacity es \<longleftrightarrow>
     length es = capacity \<and>
     probe_ok capacity (\<lambda>i. entry_free (es ! i))
       (\<lambda>i. map_option (key_home hash capacity) (e_key (es ! i))) \<and>
     (\<forall>i < capacity. \<forall>j < capacity. \<forall>k. e_key (es ! i) = Some k \<and> e_key (es ! j) = Some k \<longrightarrow> i = j)"

definition used_slots :: "Entry list \<Rightarrow> nat" where
  "used_slots es = length (filter (\<lambda>e. \<not> entry_free e) es)"

definition table_ok :: "(obj_ref \<Rightarrow> u32) \<Rightarrow> Table \<Rightarrow> bool" where
  "table_ok hash t \<longleftrightarrow>
     entries_ok hash (t_capacity t) (t_entries t) \<and>
     t_count t = used_slots (t_entries t) \<and>
     4 * t_count t \<le> 3 * t_capacity t \<and>
     (t_capacity t = 0 \<or> 8 \<le> t_capacity t)"

definition entries_map :: "Entry list \<Rightarrow> obj_ref \<Rightarrow> Value option" where
  "entries_map es k = map_option e_value (find (\<lambda>e. e_key e = Some k) es)"

definition table_map :: "Table \<Rightarrow> obj_ref \<Rightarrow> Value option" where
  "table_map t = entries_map (t_entries t)"

lemma entries_ok_length: "entries_ok hash cap es \<Longrightarrow> length es = cap"
  by (simp add: entries_ok_def)

lemma entries_ok_unique:
  "entries_ok hash cap es \<Longrightarrow> i < cap \<Longrightarrow> j < cap \<Longrightarrow> e_key (es ! i) = Some k \<Longrightarrow>
     e_key (es ! j) = Some k \<Longrightarrow> i = j"
  by (auto simp: entries_ok_def)

lemma entries_map_None_iff: "entries_map es k = None \<longleftrightarrow> (\<forall>i < length es. e_key (es ! i) \<noteq> Some k)"
  by (auto simp: entries_map_def find_None_iff in_set_conv_nth)

lemma entries_map_Some_iff:
  assumes "entries_ok hash cap es"
  shows "entries_map es k = Some v \<longleftrightarrow> (\<exists>i < cap. e_key (es ! i) = Some k \<and> e_value (es ! i) = v)"
proof
  assume "entries_map es k = Some v"
  then obtain e where "find (\<lambda>e. e_key e = Some k) es = Some e" "v = e_value e"
    by (auto simp: entries_map_def)
  then show "\<exists>i < cap. e_key (es ! i) = Some k \<and> e_value (es ! i) = v"
    using entries_ok_length [OF assms] by (auto simp: find_Some_iff)
next
  assume "\<exists>i < cap. e_key (es ! i) = Some k \<and> e_value (es ! i) = v"
  then obtain i where i: "i < cap" "e_key (es ! i) = Some k" "e_value (es ! i) = v" by blast
  then have "entries_map es k \<noteq> None"
    using entries_ok_length [OF assms] by (auto simp: entries_map_None_iff)
  then obtain e where "find (\<lambda>e. e_key e = Some k) es = Some e" by (auto simp: entries_map_def)
  then obtain j where j: "j < length es" "e_key (es ! j) = Some k" "e = es ! j"
    by (auto simp: find_Some_iff)
  then have "j = i" using entries_ok_unique [OF assms] i entries_ok_length [OF assms] by metis
  with i j \<open>find _ es = Some e\<close> show "entries_map es k = Some v" by (simp add: entries_map_def)
qed

lemma used_slots_card: "used_slots es = card {i. i < length es \<and> \<not> entry_free (es ! i)}"
  by (simp add: used_slots_def length_filter_conv_card)

lemma used_slots_update:
  assumes "d < length es" "\<not> entry_free e"
  shows "used_slots (es[d := e]) = used_slots es + (if entry_free (es ! d) then 1 else 0)"
proof -
  let ?U = "\<lambda>xs. {i. i < length xs \<and> \<not> entry_free (xs ! i)}"
  have "?U (es[d := e]) = insert d (?U es)"
    using assms by (auto simp: nth_list_update split: if_splits)
  moreover have "finite (?U es)" by simp
  ultimately show ?thesis using assms
    by (auto simp: used_slots_card card_insert_if)
qed

lemma free_slot_exists: "used_slots es < length es \<Longrightarrow> \<exists>f < length es. entry_free (es ! f)"
proof (rule ccontr)
  assume u: "used_slots es < length es" and "\<not> (\<exists>f<length es. entry_free (es ! f))"
  then have "\<forall>e \<in> set es. \<not> entry_free e" by (auto simp: in_set_conv_nth)
  then have "filter (\<lambda>e. \<not> entry_free e) es = es" by (simp add: filter_id_conv)
  with u show False by (simp add: used_slots_def)
qed

section \<open>Finding a slot\<close>

definition stops_for :: "Entry list \<Rightarrow> obj_ref \<Rightarrow> nat \<Rightarrow> bool" where
  "stops_for es key i \<longleftrightarrow> entry_free (es ! i) \<or> e_key (es ! i) = Some key"

definition keyless_or :: "Entry list \<Rightarrow> obj_ref \<Rightarrow> nat \<Rightarrow> bool" where
  "keyless_or es key i \<longleftrightarrow> e_key (es ! i) = None \<or> e_key (es ! i) = Some key"

lemma findEntry_loop_tombstone:
  "findEntry_loop n es cap key i (Some t) =
     map_option (\<lambda>r. if e_key (es ! r) = Some key then r else t) (probe n cap (stops_for es key) i)"
  by (induction n arbitrary: i) (auto simp: stops_for_def entry_free_def split: option.splits)

lemma findEntry_loop_probe:
  "findEntry_loop n es cap key i None =
     (case probe n cap (stops_for es key) i of
        None \<Rightarrow> None
      | Some r \<Rightarrow> if e_key (es ! r) = Some key then Some r else probe n cap (keyless_or es key) i)"
  by (induction n arbitrary: i)
    (auto simp: stops_for_def keyless_or_def entry_free_def findEntry_loop_tombstone split: option.splits)

lemma findEntry_present:
  assumes ok: "entries_ok hash cap es" and r: "r < cap" "e_key (es ! r) = Some key"
  shows "findEntry hash es cap key = Some r"
proof -
  let ?h = "key_home hash cap key"
  have po: "probe_ok cap (\<lambda>i. entry_free (es ! i)) (\<lambda>i. map_option (key_home hash cap) (e_key (es ! i)))"
    using ok by (simp add: entries_ok_def)
  have h: "?h < cap" using r by (simp add: key_home_def)
  have "probe cap cap (stops_for es key) ?h = Some r"
  proof (rule probe_eqI [OF h r(1)])
    show "stops_for es key r" by (simp add: stops_for_def r)
    fix s assume s: "s < cap" "probe_dist cap ?h s < probe_dist cap ?h r"
    then have "\<not> entry_free (es ! s)" using probe_okD [OF po r(1), of ?h s] r by simp
    moreover have "e_key (es ! s) \<noteq> Some key"
      using entries_ok_unique [OF ok s(1) r(1)] r(2) s(2) by auto
    ultimately show "\<not> stops_for es key s" by (simp add: stops_for_def)
  qed
  with r show ?thesis by (simp add: findEntry_def findEntry_loop_probe key_home_def)
qed

lemma findEntry_absent:
  assumes f: "f < cap" "entry_free (es ! f)" and absent: "\<And>i. i < cap \<Longrightarrow> e_key (es ! i) \<noteq> Some key"
  obtains d where "findEntry hash es cap key = Some d" "d < cap" "e_key (es ! d) = None"
    "\<And>s. s < cap \<Longrightarrow> probe_dist cap (key_home hash cap key) s < probe_dist cap (key_home hash cap key) d
       \<Longrightarrow> \<not> entry_free (es ! s)"
proof -
  let ?h = "key_home hash cap key"
  have h: "?h < cap" using f by (simp add: key_home_def)
  have "stops_for es key f" "keyless_or es key f"
    using f by (simp_all add: stops_for_def keyless_or_def entry_free_def)
  then obtain r d where r: "probe cap cap (stops_for es key) ?h = Some r"
    and d: "probe cap cap (keyless_or es key) ?h = Some d"
    using probe_total [OF h f(1)] by metis
  note pr = probe_Some [OF r h] and pd = probe_Some [OF d h]
  have "findEntry hash es cap key = Some d"
    using r d absent [OF pr(1)] by (simp add: findEntry_def findEntry_loop_probe key_home_def)
  moreover have "e_key (es ! d) = None" using pd(2) absent [OF pd(1)] by (simp add: keyless_or_def)
  moreover have "\<not> entry_free (es ! s)" if "s < cap" "probe_dist cap ?h s < probe_dist cap ?h d" for s
    using pd(3) [OF that] by (auto simp: keyless_or_def entry_free_def)
  ultimately show thesis using that pd(1) by blast
qed

text \<open>Storing at the slot found keeps the invariant and updates the map.\<close>

lemma store_entry:
  assumes ok: "entries_ok hash cap es" and used: "used_slots es < cap"
  obtains d where "findEntry hash es cap key = Some d" "d < cap"
    "e_key (es ! d) = None \<longleftrightarrow> entries_map es key = None"
    "entries_ok hash cap (es[d := \<lparr>e_key = Some key, e_value = v\<rparr>])"
    "entries_map (es[d := \<lparr>e_key = Some key, e_value = v\<rparr>]) = (entries_map es)(key \<mapsto> v)"
    "used_slots (es[d := \<lparr>e_key = Some key, e_value = v\<rparr>]) =
       used_slots es + (if entry_free (es ! d) then 1 else 0)"
proof -
  let ?h = "key_home hash cap key"
  let ?e = "\<lparr>e_key = Some key, e_value = v\<rparr>"
  have len: "length es = cap" using ok by (rule entries_ok_length)
  have po: "probe_ok cap (\<lambda>i. entry_free (es ! i)) (\<lambda>i. map_option (key_home hash cap) (e_key (es ! i)))"
    using ok by (simp add: entries_ok_def)
  obtain f where f: "f < cap" "entry_free (es ! f)" using free_slot_exists [of es] used len by auto
  have "\<exists>d. findEntry hash es cap key = Some d \<and> d < cap \<and>
      (e_key (es ! d) = Some key \<or> e_key (es ! d) = None \<and> (\<forall>i < cap. e_key (es ! i) \<noteq> Some key)) \<and>
      (\<forall>s < cap. probe_dist cap ?h s < probe_dist cap ?h d \<longrightarrow> \<not> entry_free (es ! s))"
  proof (cases "\<exists>r < cap. e_key (es ! r) = Some key")
    case True
    then obtain r where r: "r < cap" "e_key (es ! r) = Some key" by blast
    then show ?thesis using findEntry_present [OF ok r] probe_okD [OF po r(1), of ?h] by auto
  next
    case False
    then show ?thesis using findEntry_absent [OF f, of key hash] by metis
  qed
  then obtain d where d: "findEntry hash es cap key = Some d" "d < cap"
    "e_key (es ! d) = Some key \<or> e_key (es ! d) = None \<and> (\<forall>i < cap. e_key (es ! i) \<noteq> Some key)"
    "\<And>s. s < cap \<Longrightarrow> probe_dist cap ?h s < probe_dist cap ?h d \<Longrightarrow> \<not> entry_free (es ! s)" by blast
  have others: "e_key (es ! i) \<noteq> Some key" if "i < cap" "i \<noteq> d" for i
    using d(3) entries_ok_unique [OF ok that(1) d(2)] that by auto
  have ok': "entries_ok hash cap (es[d := ?e])"
    unfolding entries_ok_def
  proof (intro conjI allI impI)
    show "probe_ok cap (\<lambda>i. entry_free (es[d := ?e] ! i))
       (\<lambda>i. map_option (key_home hash cap) (e_key (es[d := ?e] ! i)))"
      by (rule probe_ok_update [OF po, of ?h d])
        (use d f len in \<open>auto simp: nth_list_update key_home_def entry_free_def split: if_splits\<close>)
    fix i j k assume ij: "i < cap" "j < cap" "e_key (es[d := ?e] ! i) = Some k \<and> e_key (es[d := ?e] ! j) = Some k"
    show "i = j"
    proof (cases "i = d \<or> j = d")
      case True
      then have "k = key" using ij(3) d(2) len by auto
      then show ?thesis using True ij others [of i] others [of j] by (metis nth_list_update_neq)
    next
      case False
      then show ?thesis using ij entries_ok_unique [OF ok ij(1,2), of k] by simp
    qed
  qed (simp add: len)
  have "entries_map (es[d := ?e]) x = ((entries_map es)(key \<mapsto> v)) x" for x
  proof (cases "x = key")
    case True
    have "entries_map (es[d := ?e]) key = Some v"
      unfolding entries_map_Some_iff [OF ok'] using d(2) len by (intro exI [of _ d]) simp
    with True show ?thesis by simp
  next
    case False
    have "(i < cap \<and> e_key (es[d := ?e] ! i) = Some x \<and> e_value (es[d := ?e] ! i) = w) =
        (i < cap \<and> e_key (es ! i) = Some x \<and> e_value (es ! i) = w)" for i w
      using False d(2,3) len by (cases "i = d") auto
    then have "entries_map (es[d := ?e]) x = Some w \<longleftrightarrow> entries_map es x = Some w" for w
      unfolding entries_map_Some_iff [OF ok'] entries_map_Some_iff [OF ok] by simp
    then have "entries_map (es[d := ?e]) x = entries_map es x"
      by (cases "entries_map es x"; cases "entries_map (es[d := ?e]) x") auto
    with False show ?thesis by simp
  qed
  then have "entries_map (es[d := ?e]) = (entries_map es)(key \<mapsto> v)" by (rule ext)
  moreover have "e_key (es ! d) = None \<longleftrightarrow> entries_map es key = None"
    using d(2,3) len by (auto simp: entries_map_None_iff)
  ultimately show thesis
    using that [OF d(1,2) _ ok'] used_slots_update [of d es ?e] d(2) len
    by (auto simp: entry_free_def)
qed

section \<open>Rehashing\<close>

definition live_keys :: "Entry list \<Rightarrow> obj_ref list" where
  "live_keys es = List.map_filter e_key es"

lemma live_keys_simps [simp]:
  "live_keys [] = []"
  "live_keys (e # es) = (case e_key e of None \<Rightarrow> live_keys es | Some k \<Rightarrow> k # live_keys es)"
  by (simp_all add: live_keys_def List.map_filter_def split: option.splits)

lemma length_live_keys: "length (live_keys es) \<le> used_slots es"
  by (induction es) (auto simp: used_slots_def entry_free_def split: option.splits)

lemma set_live_keys: "k \<in> set (live_keys es) \<longleftrightarrow> (\<exists>i < length es. e_key (es ! i) = Some k)"
proof -
  have "k \<in> set (live_keys es) \<longleftrightarrow> (\<exists>e \<in> set es. e_key e = Some k)"
    by (induction es) (auto split: option.splits)
  then show ?thesis by (metis in_set_conv_nth)
qed

lemma distinct_live_keys: "entries_ok hash cap es \<Longrightarrow> distinct (live_keys es)"
proof -
  assume ok: "entries_ok hash cap es"
  then have "\<forall>i < length es. \<forall>j < length es. \<forall>k. e_key (es ! i) = Some k \<and> e_key (es ! j) = Some k \<longrightarrow> i = j"
    by (auto simp: entries_ok_def)
  then show ?thesis
  proof (induction es)
    case (Cons e es)
    have "distinct (live_keys es)"
      using Cons.prems by (intro Cons.IH) (metis Suc_less_eq length_Cons nat.inject nth_Cons_Suc)
    moreover have "k \<notin> set (live_keys es)" if "e_key e = Some k" for k
      using Cons.prems that unfolding set_live_keys
      by (metis Suc_less_eq length_Cons nat.distinct(1) nth_Cons_0 nth_Cons_Suc zero_less_Suc)
    ultimately show ?case by (auto split: option.splits)
  qed simp
qed

lemma replicate_empty_ok:
  "entries_ok hash cap (replicate cap empty_entry)"
  "entries_map (replicate cap empty_entry) = Map.empty"
  "used_slots (replicate cap empty_entry) = 0"
  by (auto simp: entries_ok_def probe_ok_def empty_entry_def used_slots_def entry_free_def IS_NIL_def
      fun_eq_iff entries_map_None_iff)

text \<open>Rehashing the entries \<open>es\<close> into a table with room for them adds exactly their map.\<close>

lemma rehash_loop_correct:
  assumes "entries_ok hash cap new" "used_slots new + length (live_keys es) < cap"
    "distinct (live_keys es)" "\<And>k. k \<in> set (live_keys es) \<Longrightarrow> entries_map new k = None"
    "\<And>i. i < cap \<Longrightarrow> e_key (new ! i) = None \<Longrightarrow> entry_free (new ! i)"
  shows "\<exists>new'. rehash_loop hash cap es new count = Some (new', count + length (live_keys es)) \<and>
    entries_ok hash cap new' \<and> used_slots new' = used_slots new + length (live_keys es) \<and>
    entries_map new' = entries_map new ++ entries_map es"
  using assms
proof (induction es arbitrary: new count)
  case Nil
  then show ?case by (auto simp: entries_map_def fun_eq_iff map_add_def)
next
  case (Cons e es)
  show ?case
  proof (cases "e_key e")
    case None
    have "entries_map (e # es) = entries_map es" using None by (simp add: fun_eq_iff entries_map_def)
    with None Cons.IH [of new count] Cons.prems show ?thesis by simp
  next
    case (Some k)
    let ?e = "\<lparr>e_key = Some k, e_value = e_value e\<rparr>"
    have keys: "k \<notin> set (live_keys es)" "distinct (live_keys es)"
      "used_slots new + length (live_keys es) + 1 < cap" "entries_map new k = None"
      using Cons.prems Some by auto
    obtain d where d: "findEntry hash new cap k = Some d" "d < cap"
      "e_key (new ! d) = None \<longleftrightarrow> entries_map new k = None" "entries_ok hash cap (new[d := ?e])"
      "entries_map (new[d := ?e]) = (entries_map new)(k \<mapsto> e_value e)"
      "used_slots (new[d := ?e]) = used_slots new + (if entry_free (new ! d) then 1 else 0)"
      by (rule store_entry [OF Cons.prems(1), of k "e_value e"]) (use keys in auto)
    have free: "entry_free (new ! d)" using Cons.prems(5) d(2,3) keys by blast
    have none: "entries_map (new[d := ?e]) x = None" if "x \<in> set (live_keys es)" for x
      using that keys(1) Cons.prems(4) Some by (auto simp: d(5))
    have tomb: "entry_free (new[d := ?e] ! i)" if "i < cap" "e_key (new[d := ?e] ! i) = None" for i
      using that Cons.prems(5) entries_ok_length [OF Cons.prems(1)] d(2)
      by (auto simp: nth_list_update split: if_splits)
    have "(entries_map new)(k \<mapsto> e_value e) ++ entries_map es = entries_map new ++ entries_map (e # es)"
    proof -
      have "entries_map (e # es) = (entries_map es)(k \<mapsto> e_value e)"
        using Some by (auto simp: fun_eq_iff entries_map_def)
      moreover have "entries_map es k = None"
        using keys(1) by (auto simp: entries_map_None_iff set_live_keys)
      ultimately show ?thesis by (auto simp: fun_eq_iff map_add_def split: option.splits)
    qed
    have u: "used_slots (new[d := ?e]) = used_slots new + 1" using d(6) free by simp
    have "used_slots (new[d := ?e]) + length (live_keys es) < cap" using u keys(3) by simp
    from Cons.IH [OF d(4) this keys(2) none tomb, of "count + 1"] obtain new' where
      "rehash_loop hash cap es (new[d := ?e]) (count + 1) = Some (new', count + 1 + length (live_keys es))"
      "entries_ok hash cap new'" "used_slots new' = used_slots (new[d := ?e]) + length (live_keys es)"
      "entries_map new' = entries_map (new[d := ?e]) ++ entries_map es" by blast
    then show ?thesis
      using d(1) u Some \<open>_ = entries_map new ++ entries_map (e # es)\<close> by (simp add: d(5))
  qed
qed

lemma adjustCapacity_correct:
  assumes ok: "table_ok hash t" and c: "length (live_keys (t_entries t)) < c"
  obtains t' where "adjustCapacity hash t c = Some t'" "entries_ok hash c (t_entries t')"
    "t_capacity t' = c" "t_count t' = used_slots (t_entries t')" "t_count t' \<le> t_count t"
    "table_map t' = table_map t"
proof -
  have es: "entries_ok hash (t_capacity t) (t_entries t)" and cnt: "t_count t = used_slots (t_entries t)"
    using ok by (simp_all add: table_ok_def)
  have "entry_free (replicate c empty_entry ! i)" if "i < c" for i
    using that by (simp add: empty_entry_def entry_free_def IS_NIL_def)
  then obtain new' where
    "rehash_loop hash c (t_entries t) (replicate c empty_entry) 0 = Some (new', length (live_keys (t_entries t)))"
    "entries_ok hash c new'" "used_slots new' = length (live_keys (t_entries t))"
    "entries_map new' = entries_map (t_entries t)"
    using rehash_loop_correct [of hash c "replicate c empty_entry" "t_entries t" 0] c
      distinct_live_keys [OF es] by (auto simp: replicate_empty_ok)
  then show thesis
    using that [of "\<lparr>t_count = length (live_keys (t_entries t)), t_capacity = c, t_entries = new'\<rparr>"]
      length_live_keys [of "t_entries t"] cnt
    by (simp add: adjustCapacity_def table_map_def)
qed

section \<open>The operations refine those of a finite map\<close>

lemma table_ok_length: "table_ok hash t \<Longrightarrow> length (t_entries t) = t_capacity t"
  unfolding table_ok_def using entries_ok_length by blast

lemma table_ok_free_slot:
  assumes "table_ok hash t" "0 < t_capacity t"
  obtains f where "f < t_capacity t" "entry_free (t_entries t ! f)"
  using assms free_slot_exists [of "t_entries t"] that table_ok_length [OF assms(1)]
  by (auto simp: table_ok_def)

lemma table_ok_count_zero:
  assumes "table_ok hash t" "t_count t = 0" "i < t_capacity t"
  shows "entry_free (t_entries t ! i)"
proof -
  have "filter (\<lambda>e. \<not> entry_free e) (t_entries t) = []" "length (t_entries t) = t_capacity t"
    using assms table_ok_length [OF assms(1)]
    by (auto simp: table_ok_def used_slots_def)
  with assms(3) show ?thesis by (auto simp: filter_empty_conv)
qed

lemma initTable_ok [simp]: "table_ok hash initTable" "table_map initTable = Map.empty"
  by (auto simp: table_ok_def initTable_def entries_ok_def probe_ok_def used_slots_def table_map_def
      entries_map_def)

lemma table_findEntry:
  assumes ok: "table_ok hash t" and c: "t_count t \<noteq> 0"
  obtains d where "findEntry hash (t_entries t) (t_capacity t) key = Some d" "d < t_capacity t"
    "table_map t key = map_option (\<lambda>_. e_value (t_entries t ! d)) (e_key (t_entries t ! d))"
    "e_key (t_entries t ! d) = None \<or> e_key (t_entries t ! d) = Some key"
proof -
  have es: "entries_ok hash (t_capacity t) (t_entries t)" and cap: "0 < t_capacity t"
    using ok c by (auto simp: table_ok_def)
  show thesis
  proof (cases "\<exists>r < t_capacity t. e_key (t_entries t ! r) = Some key")
    case True
    then obtain r where r: "r < t_capacity t" "e_key (t_entries t ! r) = Some key" by blast
    have "table_map t key = Some (e_value (t_entries t ! r))"
      unfolding table_map_def entries_map_Some_iff [OF es] using r by blast
    with that [OF findEntry_present [OF es r] r(1)] r show thesis by simp
  next
    case False
    obtain f where f: "f < t_capacity t" "entry_free (t_entries t ! f)"
      using table_ok_free_slot [OF ok cap] .
    obtain d where d: "findEntry hash (t_entries t) (t_capacity t) key = Some d" "d < t_capacity t"
      "e_key (t_entries t ! d) = None"
      using findEntry_absent [OF f, of key hash] False by metis
    have "table_map t key = None"
      using False entries_ok_length [OF es] by (simp add: table_map_def entries_map_None_iff)
    with that [OF d(1,2)] d(3) show thesis by simp
  qed
qed

lemma tableGet_correct:
  assumes ok: "table_ok hash t"
  shows "tableGet hash t key = Some (table_map t key)"
proof (cases "t_count t = 0")
  case True
  have "length (t_entries t) = t_capacity t" using ok by (rule table_ok_length)
  then have "table_map t key = None"
    using table_ok_count_zero [OF ok True]
    by (auto simp: table_map_def entries_map_None_iff entry_free_def)
  with True show ?thesis by (simp add: tableGet_def)
next
  case False
  obtain d where "findEntry hash (t_entries t) (t_capacity t) key = Some d"
    "table_map t key = map_option (\<lambda>_. e_value (t_entries t ! d)) (e_key (t_entries t ! d))"
    using table_findEntry [OF ok False, of key] by blast
  with False show ?thesis by (simp add: tableGet_def split: option.split)
qed

lemma tableSet_room:
  assumes ok: "table_ok hash t"
  obtains t1 where
    "(if table_overloaded t then adjustCapacity hash t (GROW_CAPACITY (t_capacity t)) else Some t) = Some t1"
    "entries_ok hash (t_capacity t1) (t_entries t1)" "t_count t1 = used_slots (t_entries t1)"
    "4 * (t_count t1 + 1) \<le> 3 * t_capacity t1" "8 \<le> t_capacity t1" "table_map t1 = table_map t"
proof (cases "table_overloaded t")
  case True
  let ?c = "GROW_CAPACITY (t_capacity t)"
  have inv: "4 * t_count t \<le> 3 * t_capacity t" "t_count t = used_slots (t_entries t)"
    using ok by (simp_all add: table_ok_def)
  have c: "8 \<le> ?c" "4 * (t_count t + 1) \<le> 3 * ?c"
    using inv(1) by (auto simp: GROW_CAPACITY_def)
  have "length (live_keys (t_entries t)) < ?c"
    using length_live_keys [of "t_entries t"] inv c by simp
  then obtain t' where t': "adjustCapacity hash t ?c = Some t'" "entries_ok hash ?c (t_entries t')"
    "t_capacity t' = ?c" "t_count t' = used_slots (t_entries t')" "t_count t' \<le> t_count t"
    "table_map t' = table_map t"
    using adjustCapacity_correct [OF ok] by blast
  show thesis by (rule that [of t']) (use True t' c in auto)
next
  case False
  show thesis
    by (rule that [of t]) (use False ok in \<open>auto simp: table_ok_def table_overloaded_def\<close>)
qed

lemma tableSet_correct:
  assumes ok: "table_ok hash t"
  obtains t' where "tableSet hash t key v = Some (table_map t key = None, t')" "table_ok hash t'"
    "table_map t' = (table_map t)(key \<mapsto> v)"
proof -
  obtain t1 where t1: "(if table_overloaded t then adjustCapacity hash t (GROW_CAPACITY (t_capacity t))
      else Some t) = Some t1"
    and es: "entries_ok hash (t_capacity t1) (t_entries t1)"
    and cnt: "t_count t1 = used_slots (t_entries t1)" "4 * (t_count t1 + 1) \<le> 3 * t_capacity t1"
    "8 \<le> t_capacity t1" and m: "table_map t1 = table_map t"
    using tableSet_room [OF ok] by blast
  have "used_slots (t_entries t1) < t_capacity t1" using cnt by simp
  from store_entry [OF es this, of key v] obtain d where
    d: "findEntry hash (t_entries t1) (t_capacity t1) key = Some d" "d < t_capacity t1"
    "e_key (t_entries t1 ! d) = None \<longleftrightarrow> entries_map (t_entries t1) key = None"
    "entries_ok hash (t_capacity t1) ((t_entries t1)[d := \<lparr>e_key = Some key, e_value = v\<rparr>])"
    "entries_map ((t_entries t1)[d := \<lparr>e_key = Some key, e_value = v\<rparr>]) =
       (entries_map (t_entries t1))(key \<mapsto> v)"
    "used_slots ((t_entries t1)[d := \<lparr>e_key = Some key, e_value = v\<rparr>]) =
       used_slots (t_entries t1) + (if entry_free (t_entries t1 ! d) then 1 else 0)" by blast
  let ?n = "if entry_free (t_entries t1 ! d) then t_count t1 + 1 else t_count t1"
  let ?t' = "t1\<lparr>t_count := ?n, t_entries := (t_entries t1)[d := \<lparr>e_key = Some key, e_value = v\<rparr>]\<rparr>"
  have new: "e_key (t_entries t1 ! d) = None \<longleftrightarrow> table_map t key = None"
    using d(3) m by (simp add: table_map_def)
  show thesis
  proof (rule that [of ?t'])
    show "tableSet hash t key v = Some (table_map t key = None, ?t')"
      unfolding tableSet_def t1 by (simp add: d(1) Let_def new [symmetric] entry_free_def)
    show "table_ok hash ?t'" using d(4,6) cnt by (auto simp: table_ok_def)
    show "table_map ?t' = (table_map t)(key \<mapsto> v)" using d(5) m by (simp add: table_map_def)
  qed
qed

text \<open>A tombstone removes its key and frees no slot.\<close>

lemma tombstone_entry:
  assumes ok: "table_ok hash t" and d: "d < t_capacity t" "e_key (t_entries t ! d) = Some key"
  defines "t' \<equiv> t\<lparr>t_entries := (t_entries t)[d := \<lparr>e_key = None, e_value = VAL_BOOL True\<rparr>]\<rparr>"
  shows "table_ok hash t'" "table_map t' = (table_map t)(key := None)"
proof -
  let ?es = "t_entries t" and ?e = "\<lparr>e_key = None, e_value = VAL_BOOL True\<rparr>"
  have es: "entries_ok hash (t_capacity t) ?es" using ok by (simp add: table_ok_def)
  have len: "length ?es = t_capacity t" using es by (rule entries_ok_length)
  have es': "entries_ok hash (t_capacity t) (?es[d := ?e])"
    unfolding entries_ok_def
  proof (intro conjI allI impI)
    show "probe_ok (t_capacity t) (\<lambda>i. entry_free (?es[d := ?e] ! i))
       (\<lambda>i. map_option (key_home hash (t_capacity t)) (e_key (?es[d := ?e] ! i)))"
      by (rule probe_ok_weaken [of _ "\<lambda>i. entry_free (?es ! i)"
            "\<lambda>i. map_option (key_home hash (t_capacity t)) (e_key (?es ! i))"])
        (use es d len in \<open>auto simp: entries_ok_def nth_list_update entry_free_def IS_NIL_def split: if_splits\<close>)
    fix i j k assume ij: "i < t_capacity t" "j < t_capacity t"
      "e_key (?es[d := ?e] ! i) = Some k \<and> e_key (?es[d := ?e] ! j) = Some k"
    have "i \<noteq> d" "j \<noteq> d" using ij(3) d(1) len by auto
    then show "i = j" using ij entries_ok_unique [OF es ij(1,2), of k] by simp
  qed (simp add: len)
  have u: "used_slots (?es[d := ?e]) = used_slots ?es"
    using used_slots_update [of d ?es ?e] d len by (simp add: entry_free_def IS_NIL_def)
  show "table_ok hash t'" using ok es' u by (simp add: t'_def table_ok_def)
  have "entries_map (?es[d := ?e]) x = ((entries_map ?es)(key := None)) x" for x
  proof (cases "x = key")
    case True
    have "e_key (?es[d := ?e] ! i) \<noteq> Some key" if "i < t_capacity t" for i
      using that d len entries_ok_unique [OF es that d(1), of key] by (cases "i = d") auto
    with True show ?thesis by (simp add: entries_map_None_iff len)
  next
    case False
    have "(i < t_capacity t \<and> e_key (?es[d := ?e] ! i) = Some x \<and> e_value (?es[d := ?e] ! i) = w) =
        (i < t_capacity t \<and> e_key (?es ! i) = Some x \<and> e_value (?es ! i) = w)" for i w
      using False d len by (cases "i = d") auto
    then have "entries_map (?es[d := ?e]) x = Some w \<longleftrightarrow> entries_map ?es x = Some w" for w
      unfolding entries_map_Some_iff [OF es'] entries_map_Some_iff [OF es] by simp
    then have "entries_map (?es[d := ?e]) x = entries_map ?es x"
      by (cases "entries_map ?es x"; cases "entries_map (?es[d := ?e]) x") auto
    with False show ?thesis by simp
  qed
  then show "table_map t' = (table_map t)(key := None)" by (auto simp: t'_def table_map_def)
qed

lemma tableDelete_correct:
  assumes ok: "table_ok hash t"
  obtains t' where "tableDelete hash t key = Some (table_map t key \<noteq> None, t')" "table_ok hash t'"
    "table_map t' = (table_map t)(key := None)"
proof (cases "t_count t = 0")
  case True
  have "table_map t key = None" using tableGet_correct [OF ok, of key] True by (simp add: tableGet_def)
  with True ok that [of t] show thesis by (simp add: tableDelete_def fun_upd_idem)
next
  case False
  obtain d where d: "findEntry hash (t_entries t) (t_capacity t) key = Some d" "d < t_capacity t"
    "table_map t key = map_option (\<lambda>_. e_value (t_entries t ! d)) (e_key (t_entries t ! d))"
    "e_key (t_entries t ! d) = None \<or> e_key (t_entries t ! d) = Some key"
    using table_findEntry [OF ok False, of key] by blast
  show thesis
  proof (cases "e_key (t_entries t ! d)")
    case None
    with False d ok that [of t] show thesis by (simp add: tableDelete_def fun_upd_idem)
  next
    case (Some k)
    then have k: "e_key (t_entries t ! d) = Some key" using d(4) by simp
    show thesis
      by (rule that [OF _ tombstone_entry [OF ok d(2) k]]) (use False d(1,3) k in \<open>simp add: tableDelete_def\<close>)
  qed
qed

section \<open>Copying, looking up by characters, sweeping\<close>

lemma entries_map_append: "entries_map (xs @ ys) = entries_map ys ++ entries_map xs"
proof (induction xs)
  case Nil
  then show ?case by (simp add: entries_map_def fun_eq_iff map_add_def)
next
  case (Cons e xs)
  then show ?case by (auto simp: entries_map_def fun_eq_iff map_add_def split: option.splits)
qed

lemma add_all_loop_correct:
  assumes "table_ok hash to" "distinct (live_keys es)"
  shows "\<exists>to'. add_all_loop hash es to = Some to' \<and> table_ok hash to' \<and>
    table_map to' = table_map to ++ entries_map es"
  using assms
proof (induction es arbitrary: to)
  case Nil
  then show ?case by (auto simp: entries_map_def fun_eq_iff map_add_def)
next
  case (Cons e es)
  show ?case
  proof (cases "e_key e")
    case None
    have "entries_map (e # es) = entries_map es" using None by (simp add: fun_eq_iff entries_map_def)
    with None Cons.IH [of to] Cons.prems show ?thesis by simp
  next
    case (Some k)
    have keys: "k \<notin> set (live_keys es)" "distinct (live_keys es)" using Cons.prems(2) Some by auto
    obtain t1 where t1: "tableSet hash to k (e_value e) = Some (table_map to k = None, t1)"
      "table_ok hash t1" "table_map t1 = (table_map to)(k \<mapsto> e_value e)"
      using tableSet_correct [OF Cons.prems(1)] by blast
    have "entries_map (e # es) = (entries_map es)(k \<mapsto> e_value e)"
      using Some by (auto simp: fun_eq_iff entries_map_def)
    moreover have "entries_map es k = None"
      using keys(1) by (auto simp: entries_map_None_iff set_live_keys)
    ultimately have "table_map t1 ++ entries_map es = table_map to ++ entries_map (e # es)"
      by (auto simp: t1(3) fun_eq_iff map_add_def split: option.splits)
    with Cons.IH [OF t1(2) keys(2)] t1(1) Some show ?thesis by simp
  qed
qed

lemma tableAddAll_correct:
  assumes "table_ok hash t" "table_ok hash to"
  obtains to' where "tableAddAll hash t to = Some to'" "table_ok hash to'"
    "table_map to' = table_map to ++ table_map t"
proof -
  have "distinct (live_keys (t_entries t))"
    using assms(1) by (auto simp: table_ok_def intro: distinct_live_keys)
  with add_all_loop_correct [OF assms(2)] that show thesis
    unfolding tableAddAll_def table_map_def by blast
qed

definition spells :: "(obj_ref \<Rightarrow> u32) \<Rightarrow> (obj_ref \<Rightarrow> bytes) \<Rightarrow> bytes \<Rightarrow> u32 \<Rightarrow> Entry \<Rightarrow> bool" where
  "spells hash chars text h e \<longleftrightarrow> (\<exists>k. e_key e = Some k \<and> hash k = h \<and> chars k = text)"

lemma find_string_loop_probe:
  "find_string_loop hash chars n es cap text h i =
     map_option (\<lambda>r. if spells hash chars text h (es ! r) then e_key (es ! r) else None)
       (probe n cap (\<lambda>i. entry_free (es ! i) \<or> spells hash chars text h (es ! i)) i)"
proof (induction n arbitrary: i)
  case (Suc n)
  then show ?case
    by (cases "e_key (es ! i)") (auto simp: spells_def entry_free_def)
qed simp

lemma tableFindString_correct:
  assumes ok: "table_ok hash t"
    and inj: "\<And>k k'. table_map t k \<noteq> None \<Longrightarrow> table_map t k' \<noteq> None \<Longrightarrow> chars k = chars k' \<Longrightarrow> k = k'"
    and hash: "\<And>k. table_map t k \<noteq> None \<Longrightarrow> chars k = text \<Longrightarrow> hash k = h"
  obtains r where "tableFindString hash chars t text h = Some r"
    "\<And>k. r = Some k \<longleftrightarrow> table_map t k \<noteq> None \<and> chars k = text"
proof -
  let ?es = "t_entries t" and ?cap = "t_capacity t"
  have es: "entries_ok hash ?cap ?es" using ok by (simp add: table_ok_def)
  have len: "length ?es = ?cap" using es by (rule entries_ok_length)
  have in_map: "table_map t k \<noteq> None \<longleftrightarrow> (\<exists>i < ?cap. e_key (?es ! i) = Some k)" for k
    by (auto simp: table_map_def entries_map_None_iff len)
  show thesis
  proof (cases "t_count t = 0")
    case True
    have "table_map t k = None" for k
      using tableGet_correct [OF ok, of k] True by (simp add: tableGet_def)
    with True that [of None] show thesis by (simp add: tableFindString_def)
  next
    case False
    let ?stop = "\<lambda>i. entry_free (?es ! i) \<or> spells hash chars text h (?es ! i)"
    let ?h = "unat h mod ?cap"
    have cap: "0 < ?cap" using ok False by (auto simp: table_ok_def)
    obtain f where f: "f < ?cap" "entry_free (?es ! f)" using table_ok_free_slot [OF ok cap] .
    have h: "?h < ?cap" using cap by simp
    have po: "probe_ok ?cap (\<lambda>i. entry_free (?es ! i)) (\<lambda>i. map_option (key_home hash ?cap) (e_key (?es ! i)))"
      using es by (simp add: entries_ok_def)
    obtain r where r: "probe ?cap ?cap ?stop ?h = Some r"
      using probe_total [OF h f(1), of ?stop] f(2) by blast
    note pr = probe_Some [OF r h]
    have res: "tableFindString hash chars t text h =
        Some (if spells hash chars text h (?es ! r) then e_key (?es ! r) else None)"
      using False r by (simp add: tableFindString_def find_string_loop_probe)
    show thesis
    proof (rule that [OF res])
      fix k
      have "spells hash chars text h (?es ! r)" if k: "table_map t k \<noteq> None" "chars k = text"
      proof -
        obtain i where i: "i < ?cap" "e_key (?es ! i) = Some k" using k(1) in_map by blast
        have hk: "hash k = h" using hash k by blast
        have home: "map_option (key_home hash ?cap) (e_key (?es ! i)) = Some ?h"
          using i hk by (simp add: key_home_def)
        have "?stop i" using i k(2) hk by (auto simp: spells_def)
        then have "\<not> probe_dist ?cap ?h i < probe_dist ?cap ?h r" using pr(3) [OF i(1)] by blast
        moreover have "\<not> entry_free (?es ! r)" if "probe_dist ?cap ?h r < probe_dist ?cap ?h i"
          using probe_okD [OF po i(1) home pr(1) that] .
        moreover have "r = i" if "probe_dist ?cap ?h r = probe_dist ?cap ?h i"
          using probe_dist_inject [OF h pr(1) i(1) that] .
        ultimately show ?thesis
          using pr(2) i k(2) hk by (metis linorder_neqE_nat spells_def)
      qed
      moreover have "table_map t k' \<noteq> None \<and> chars k' = text"
        if "spells hash chars text h (?es ! r)" "e_key (?es ! r) = Some k'" for k'
        using that pr(1) in_map by (auto simp: spells_def)
      ultimately show "(if spells hash chars text h (?es ! r) then e_key (?es ! r) else None) = Some k \<longleftrightarrow>
          table_map t k \<noteq> None \<and> chars k = text"
        using inj by (metis option.discI spells_def)
    qed
  qed
qed

lemma remove_white_loop_correct:
  assumes "table_ok hash t" "set is \<subseteq> {..<t_capacity t}"
  shows "\<exists>t'. remove_white_loop hash marked is t = Some t' \<and> table_ok hash t' \<and>
    (\<forall>k. table_map t' k =
       (if \<not> marked k \<and> (\<exists>i \<in> set is. e_key (t_entries t ! i) = Some k) then None else table_map t k))"
  using assms
proof (induction "is" arbitrary: t)
  case Nil
  then show ?case by simp
next
  case (Cons i "is")
  have es: "entries_ok hash (t_capacity t) (t_entries t)" using Cons.prems(1) by (simp add: table_ok_def)
  have i: "i < t_capacity t" using Cons.prems(2) by simp
  show ?case
  proof (cases "\<exists>key. e_key (t_entries t ! i) = Some key \<and> \<not> marked key")
    case False
    then have "remove_white_loop hash marked (i # is) t = remove_white_loop hash marked is t"
      by (auto split: option.split)
    with Cons.IH [OF Cons.prems(1)] Cons.prems(2) False show ?thesis by auto
  next
    case True
    then obtain key where key: "e_key (t_entries t ! i) = Some key" "\<not> marked key" by blast
    let ?t1 = "t\<lparr>t_entries := (t_entries t)[i := \<lparr>e_key = None, e_value = VAL_BOOL True\<rparr>]\<rparr>"
    note t1 = tombstone_entry [OF Cons.prems(1) i key(1)]
    have "t_count t \<noteq> 0"
      using table_ok_count_zero [OF Cons.prems(1) _ i] key(1) by (auto simp: entry_free_def)
    then have del: "tableDelete hash t key = Some (True, ?t1)"
      using findEntry_present [OF es i key(1)] key(1) by (simp add: tableDelete_def)
    have keys: "e_key (t_entries ?t1 ! j) = Some k \<longleftrightarrow> j \<noteq> i \<and> e_key (t_entries t ! j) = Some k" for j k
      using entries_ok_length [OF es] i by (cases "j = i") auto
    obtain t' where t': "remove_white_loop hash marked is ?t1 = Some t'" "table_ok hash t'"
      "\<And>k. table_map t' k = (if \<not> marked k \<and> (\<exists>j \<in> set is. e_key (t_entries ?t1 ! j) = Some k)
         then None else table_map ?t1 k)"
      using Cons.IH [OF t1(1)] Cons.prems(2) by auto
    have "table_map t' k = (if \<not> marked k \<and> (\<exists>j \<in> set (i # is). e_key (t_entries t ! j) = Some k)
        then None else table_map t k)" for k
      unfolding t'(3) t1(2) keys using key by auto
    with t'(1,2) key del show ?thesis by (intro exI [of _ t']) simp
  qed
qed

lemma tableRemoveWhite_correct:
  assumes ok: "table_ok hash t"
  obtains t' where "tableRemoveWhite hash marked t = Some t'" "table_ok hash t'"
    "table_map t' = table_map t |` {k. marked k}"
proof -
  have "set [0..<t_capacity t] \<subseteq> {..<t_capacity t}" by auto
  from remove_white_loop_correct [OF ok this, of marked]
  obtain t' where t': "tableRemoveWhite hash marked t = Some t'" "table_ok hash t'"
    "\<And>k. table_map t' k = (if \<not> marked k \<and> (\<exists>i \<in> {0..<t_capacity t}. e_key (t_entries t ! i) = Some k)
       then None else table_map t k)"
    unfolding tableRemoveWhite_def by (metis atLeastLessThan_upt)
  have "length (t_entries t) = t_capacity t" using ok by (rule table_ok_length)
  then have "(\<exists>i \<in> {0..<t_capacity t}. e_key (t_entries t ! i) = Some k) \<longleftrightarrow> table_map t k \<noteq> None" for k
    by (auto simp: table_map_def entries_map_None_iff)
  with t'(3) have "table_map t' = table_map t |` {k. marked k}" by (auto simp: fun_eq_iff restrict_map_def)
  with that t' show thesis by blast
qed

section \<open>The interface\<close>

datatype ('k, 'v) map_op = Put 'k 'v | Remove 'k

text \<open>A run of updates through an implementation, and what it means for the map.\<close>

fun run_ops :: "('t \<Rightarrow> 'k \<Rightarrow> 'v \<Rightarrow> (bool \<times> 't) option) \<Rightarrow> ('t \<Rightarrow> 'k \<Rightarrow> (bool \<times> 't) option) \<Rightarrow>
    ('k, 'v) map_op list \<Rightarrow> 't \<Rightarrow> 't option" where
  "run_ops put del [] t = Some t"
| "run_ops put del (Put k v # ops) t = do { (_, t) \<leftarrow> put t k v; run_ops put del ops t }"
| "run_ops put del (Remove k # ops) t = do { (_, t) \<leftarrow> del t k; run_ops put del ops t }"

fun apply_op :: "('k \<rightharpoonup> 'v) \<Rightarrow> ('k, 'v) map_op \<Rightarrow> ('k \<rightharpoonup> 'v)" where
  "apply_op m (Put k v) = m(k \<mapsto> v)"
| "apply_op m (Remove k) = m(k := None)"

locale finite_map =
  fixes ok :: "'t \<Rightarrow> bool" and emp :: 't
    and lookup :: "'t \<Rightarrow> 'k \<Rightarrow> 'v option option"
    and put :: "'t \<Rightarrow> 'k \<Rightarrow> 'v \<Rightarrow> (bool \<times> 't) option"
    and del :: "'t \<Rightarrow> 'k \<Rightarrow> (bool \<times> 't) option"
  assumes ok_emp: "ok emp"
    and lookup_emp: "lookup emp k = Some None"
    and lookup_total: "ok t \<Longrightarrow> \<exists>r. lookup t k = Some r"
    and put_law: "ok t \<Longrightarrow> \<exists>t'. put t k v = Some (lookup t k = Some None, t') \<and> ok t' \<and>
      (\<forall>x. lookup t' x = (if x = k then Some (Some v) else lookup t x))"
    and del_law: "ok t \<Longrightarrow> \<exists>t'. del t k = Some (lookup t k \<noteq> Some None, t') \<and> ok t' \<and>
      (\<forall>x. lookup t' x = (if x = k then Some None else lookup t x))"
begin

text \<open>Every run of updates returns, and its lookups are those of the finite map.\<close>

lemma run_ops_refines:
  "ok t \<Longrightarrow> (\<And>k. lookup t k = Some (m k)) \<Longrightarrow>
     \<exists>t'. run_ops put del ops t = Some t' \<and> ok t' \<and> (\<forall>k. lookup t' k = Some (foldl apply_op m ops k))"
proof (induction ops arbitrary: t m)
  case (Cons op ops)
  show ?case
  proof (cases op)
    case (Put k v)
    obtain t1 where t1: "put t k v = Some (lookup t k = Some None, t1)" "ok t1"
      "\<And>x. lookup t1 x = (if x = k then Some (Some v) else lookup t x)"
      using put_law [OF Cons.prems(1), of k v] by blast
    then have "lookup t1 x = Some ((m(k \<mapsto> v)) x)" for x using Cons.prems(2) by simp
    from Cons.IH [OF t1(2) this] t1(1) Put show ?thesis by (simp del: fun_upd_apply)
  next
    case (Remove k)
    obtain t1 where t1: "del t k = Some (lookup t k \<noteq> Some None, t1)" "ok t1"
      "\<And>x. lookup t1 x = (if x = k then Some None else lookup t x)"
      using del_law [OF Cons.prems(1), of k] by blast
    then have "lookup t1 x = Some ((m(k := None)) x)" for x using Cons.prems(2) by simp
    from Cons.IH [OF t1(2) this] t1(1) Remove show ?thesis by (simp del: fun_upd_apply)
  qed
qed simp

lemma run_from_empty:
  "\<exists>t'. run_ops put del ops emp = Some t' \<and> ok t' \<and>
     (\<forall>k. lookup t' k = Some (foldl apply_op Map.empty ops k))"
  by (rule run_ops_refines [OF ok_emp]) (simp add: lookup_emp)

end

interpretation table: finite_map "table_ok hash" initTable "tableGet hash" "tableSet hash" "tableDelete hash"
  for hash
proof unfold_locales
  fix t :: Table and k :: obj_ref and v :: Value
  assume ok: "table_ok hash t"
  note get = tableGet_correct
  show "\<exists>r. tableGet hash t k = Some r" using get [OF ok] by blast
  obtain t' where "tableSet hash t k v = Some (table_map t k = None, t')" "table_ok hash t'"
    "table_map t' = (table_map t)(k \<mapsto> v)" using tableSet_correct [OF ok] by blast
  then show "\<exists>t'. tableSet hash t k v = Some (tableGet hash t k = Some None, t') \<and> table_ok hash t' \<and>
      (\<forall>x. tableGet hash t' x = (if x = k then Some (Some v) else tableGet hash t x))"
    using get [OF ok] get [of hash t'] by (intro exI [of _ t']) simp
  obtain t' where "tableDelete hash t k = Some (table_map t k \<noteq> None, t')" "table_ok hash t'"
    "table_map t' = (table_map t)(k := None)" using tableDelete_correct [OF ok] by blast
  then show "\<exists>t'. tableDelete hash t k = Some (tableGet hash t k \<noteq> Some None, t') \<and> table_ok hash t' \<and>
      (\<forall>x. tableGet hash t' x = (if x = k then Some None else tableGet hash t x))"
    using get [OF ok] get [of hash t'] by (intro exI [of _ t']) simp
qed (simp_all add: tableGet_correct)

section \<open>Properties\<close>

text \<open>
  C7. A table that starts empty and goes through any sequence of insertions and deletions
  (growing and rehashing on the way) always returns, stays well-formed, and looks up exactly the
  keys and values of the finite map the same sequence builds.
\<close>

theorem table_refines_map:
  "\<exists>t. run_ops (tableSet hash) (tableDelete hash) ops initTable = Some t \<and> table_ok hash t \<and>
     (\<forall>k. tableGet hash t k = Some (foldl apply_op Map.empty ops k))"
  by (rule table.run_from_empty)

text \<open>
  C13. The sweep of the string table returns and keeps exactly the entries whose keys the
  collector has marked, with their values.
\<close>

theorem tableRemoveWhite_keeps_marked:
  assumes "table_ok hash t"
  shows "\<exists>t'. tableRemoveWhite hash marked t = Some t' \<and> table_ok hash t' \<and>
    (\<forall>k. tableGet hash t' k = Some (if marked k then table_map t k else None))"
proof -
  obtain t' where "tableRemoveWhite hash marked t = Some t'" "table_ok hash t'"
    "table_map t' = table_map t |` {k. marked k}" using tableRemoveWhite_correct [OF assms] by blast
  then show ?thesis by (intro exI [of _ t']) (simp add: tableGet_correct restrict_map_def)
qed

text \<open>A table of eight slots with two colliding keys.\<close>

definition two_keys_table :: Table where
  "two_keys_table = \<lparr>t_count = 2, t_capacity = 8,
     t_entries = [empty_entry, empty_entry, empty_entry, \<lparr>e_key = Some 10, e_value = VAL_NIL\<rparr>,
       \<lparr>e_key = Some 11, e_value = VAL_BOOL False\<rparr>, empty_entry, empty_entry, empty_entry]\<rparr>"

lemma two_keys_table_set:
  "do { (_, t) \<leftarrow> tableSet (\<lambda>_. 3) initTable 10 VAL_NIL; (_, t) \<leftarrow> tableSet (\<lambda>_. 3) t 11 (VAL_BOOL False); Some t }
     = Some two_keys_table"
  by code_simp

lemma two_keys_table_ok: "table_ok (\<lambda>_. 3) two_keys_table"
proof -
  obtain t1 where t1: "tableSet (\<lambda>_. 3) initTable 10 VAL_NIL = Some (table_map initTable 10 = None, t1)"
    "table_ok (\<lambda>_. 3) t1" using tableSet_correct [of "\<lambda>_. 3" initTable 10 VAL_NIL] by auto
  obtain t2 where t2: "tableSet (\<lambda>_. 3) t1 11 (VAL_BOOL False) = Some (table_map t1 11 = None, t2)"
    "table_ok (\<lambda>_. 3) t2" using tableSet_correct [OF t1(2), of 11 "VAL_BOOL False"] by auto
  show ?thesis using two_keys_table_set t1 t2 by simp
qed

lemma two_keys_table_map: "table_map two_keys_table = [10 \<mapsto> VAL_NIL, 11 \<mapsto> VAL_BOOL False]"
  by (simp add: fun_eq_iff table_map_def entries_map_def two_keys_table_def empty_entry_def)

theorem tableRemoveWhite_keeps_marked_witness:
  "\<exists>t'. tableRemoveWhite (\<lambda>_. 3) (\<lambda>k. k = 11) two_keys_table = Some t' \<and>
     tableGet (\<lambda>_. 3) t' 10 = Some None \<and> tableGet (\<lambda>_. 3) t' 11 = Some (Some (VAL_BOOL False))"
  using tableRemoveWhite_keeps_marked [OF two_keys_table_ok, of "\<lambda>k. k = 11"]
  by (auto simp: two_keys_table_map)

text \<open>
  C12. Looking a string up by its characters finds the one key that spells it, whatever
  tombstones and collisions lie on the way, and reports absence only when no key does: the
  test behind string interning.
\<close>

theorem tableFindString_finds_interned:
  assumes "table_ok hash t"
    and "\<forall>k k'. table_map t k \<noteq> None \<and> table_map t k' \<noteq> None \<and> chars k = chars k' \<longrightarrow> k = k'"
    and "\<forall>k. table_map t k \<noteq> None \<and> chars k = text \<longrightarrow> hash k = h"
  shows "\<exists>r. tableFindString hash chars t text h = Some r \<and>
    (\<forall>k. r = Some k \<longleftrightarrow> table_map t k \<noteq> None \<and> chars k = text)"
  by (rule tableFindString_correct [OF assms(1), of chars "text" h]) (use assms(2,3) in blast)+

theorem tableFindString_finds_interned_witness:
  "tableFindString (\<lambda>_. 3) (\<lambda>k. if k = 10 then [65] else [66]) two_keys_table [66] 3 = Some (Some 11)"
proof -
  let ?chars = "\<lambda>k. if k = 10 then [65 :: u8] else [66]" and ?m = "table_map two_keys_table"
  have inj: "\<forall>k k'. ?m k \<noteq> None \<and> ?m k' \<noteq> None \<and> ?chars k = ?chars k' \<longrightarrow> k = k'"
    by (simp add: two_keys_table_map)
  have hash: "\<forall>k. ?m k \<noteq> None \<and> ?chars k = [66] \<longrightarrow> (3 :: u32) = 3" by simp
  obtain r where r: "tableFindString (\<lambda>_. 3) ?chars two_keys_table [66] 3 = Some r"
    "\<forall>k. r = Some k \<longleftrightarrow> ?m k \<noteq> None \<and> ?chars k = [66]"
    using tableFindString_finds_interned [OF two_keys_table_ok inj hash] by (elim exE conjE) (rule that)
  have "r = Some 11" using r(2) [rule_format, of 11] by (simp add: two_keys_table_map)
  with r(1) show ?thesis by simp
qed

end
