(* ===== verification/String_Set.thy ===== *)
theory String_Set
  imports Linear_Probe
begin

text \<open>
  The set of byte strings of the front end, \<^verbatim>\<open>src/stringset.c\<close>, with the FNV-1a hash of
  \<^verbatim>\<open>src/common.c\<close>: linear probing without tombstones over an arena that holds the bytes.
  The arena is the list of the \<open>arenaLen\<close> bytes in use; \<open>None\<close> stands for a probe that would not
  end.  Sizes are unbounded naturals: the C code keeps them in an \<^verbatim>\<open>int\<close>.
\<close>

definition hash_step :: "u32 \<Rightarrow> u8 \<Rightarrow> u32" where
  "hash_step hash b = (hash XOR ucast b) * 16777619"

definition hashBytes :: "bytes \<Rightarrow> u32" where
  "hashBytes key = foldl hash_step 2166136261 key"

record StringSetEntry =
  se_offset :: nat
  se_length :: int
  se_hash :: u32

record StringSet =
  ss_arena :: bytes
  ss_arenaCapacity :: nat
  ss_entries :: "StringSetEntry list"
  ss_count :: nat
  ss_capacity :: nat

text \<open>The doubling loop of \<open>arenaAppend\<close>.\<close>

function grow_cap :: "nat \<Rightarrow> nat \<Rightarrow> nat" where
  "grow_cap needed cap = (if cap < needed \<and> 0 < cap then grow_cap needed (cap * 2) else cap)"
  by auto
termination by (relation "measure (\<lambda>(needed, cap). needed - cap)") auto

declare grow_cap.simps [simp del]

definition arenaAppend :: "StringSet \<Rightarrow> bytes \<Rightarrow> nat \<times> StringSet" where
  "arenaAppend ss chars =
     (let needed = length (ss_arena ss) + length chars;
          ss = (if needed > ss_arenaCapacity ss
                 then ss\<lparr>ss_arenaCapacity :=
                        grow_cap needed (if ss_arenaCapacity ss < 64 then 64 else ss_arenaCapacity ss)\<rparr>
                 else ss)
      in (length (ss_arena ss), ss\<lparr>ss_arena := ss_arena ss @ chars\<rparr>))"

definition slot_chars :: "bytes \<Rightarrow> StringSetEntry \<Rightarrow> bytes" where
  "slot_chars arena e = take (nat (se_length e)) (drop (se_offset e) arena)"

fun findSlot_loop ::
    "nat \<Rightarrow> StringSetEntry list \<Rightarrow> nat \<Rightarrow> bytes \<Rightarrow> bytes \<Rightarrow> u32 \<Rightarrow> nat \<Rightarrow> nat option" where
  "findSlot_loop 0 entries capacity arena chars hash index = None"
| "findSlot_loop (Suc n) entries capacity arena chars hash index =
     (if se_length (entries ! index) = -1 then Some index
      else if se_length (entries ! index) = int (length chars) \<and> se_hash (entries ! index) = hash \<and>
              slot_chars arena (entries ! index) = chars
      then Some index
      else findSlot_loop n entries capacity arena chars hash ((index + 1) mod capacity))"

definition findSlot :: "StringSetEntry list \<Rightarrow> nat \<Rightarrow> bytes \<Rightarrow> bytes \<Rightarrow> u32 \<Rightarrow> nat option" where
  "findSlot entries capacity arena chars hash =
     findSlot_loop capacity entries capacity arena chars hash (unat hash mod capacity)"

definition empty_slot :: StringSetEntry where
  "empty_slot = \<lparr>se_offset = 0, se_length = -1, se_hash = 0\<rparr>"

fun rehash_slots ::
    "nat \<Rightarrow> bytes \<Rightarrow> StringSetEntry list \<Rightarrow> StringSetEntry list \<Rightarrow> StringSetEntry list option" where
  "rehash_slots capacity arena [] entries = Some entries"
| "rehash_slots capacity arena (old # olds) entries =
     (if se_length old = -1 then rehash_slots capacity arena olds entries
      else do {
        dest \<leftarrow> findSlot entries capacity arena (slot_chars arena old) (se_hash old);
        rehash_slots capacity arena olds (entries[dest := old])
      })"

definition set_adjustCapacity :: "StringSet \<Rightarrow> nat \<Rightarrow> StringSet option" where
  "set_adjustCapacity ss newCapacity =
     do {
       entries \<leftarrow> rehash_slots newCapacity (ss_arena ss) (ss_entries ss) (replicate newCapacity empty_slot);
       Some (ss\<lparr>ss_entries := entries, ss_capacity := newCapacity\<rparr>)
     }"

definition stringSetInit :: StringSet where
  "stringSetInit =
     \<lparr>ss_arena = [], ss_arenaCapacity = 0, ss_entries = [], ss_count = 0, ss_capacity = 0\<rparr>"

definition stringSetContains :: "StringSet \<Rightarrow> bytes \<Rightarrow> bool option" where
  "stringSetContains ss chars =
     (if ss_count ss = 0 then Some False
      else do {
        i \<leftarrow> findSlot (ss_entries ss) (ss_capacity ss) (ss_arena ss) chars (hashBytes chars);
        Some (se_length (ss_entries ss ! i) \<noteq> -1)
      })"

text \<open>\<open>(int)(capacity * STRINGSET_MAX_LOAD)\<close> is \<open>3 * capacity div 4\<close>.\<close>

definition stringSetIntern :: "StringSet \<Rightarrow> bytes \<Rightarrow> (nat \<times> StringSet) option" where
  "stringSetIntern ss chars =
     do {
       ss \<leftarrow> (if ss_count ss + 1 > 3 * ss_capacity ss div 4
               then set_adjustCapacity ss (if ss_capacity ss < 8 then 8 else ss_capacity ss * 2)
               else Some ss);
       i \<leftarrow> findSlot (ss_entries ss) (ss_capacity ss) (ss_arena ss) chars (hashBytes chars);
       if se_length (ss_entries ss ! i) \<noteq> -1 then Some (se_offset (ss_entries ss ! i), ss)
       else let (offset, ss) = arenaAppend ss chars;
                entry = \<lparr>se_offset = offset, se_length = int (length chars), se_hash = hashBytes chars\<rparr>
            in Some (offset, ss\<lparr>ss_entries := (ss_entries ss)[i := entry], ss_count := ss_count ss + 1\<rparr>)
     }"

definition stringSetAdd :: "StringSet \<Rightarrow> bytes \<Rightarrow> StringSet option" where
  "stringSetAdd ss chars = do { (_, ss) \<leftarrow> stringSetIntern ss chars; Some ss }"

definition stringSetFree :: "StringSet \<Rightarrow> StringSet" where
  "stringSetFree ss = stringSetInit"

section \<open>The invariant\<close>

abbreviation slot_free :: "StringSetEntry \<Rightarrow> bool" where
  "slot_free e \<equiv> se_length e = -1"

definition slot_home :: "nat \<Rightarrow> StringSetEntry \<Rightarrow> nat option" where
  "slot_home cap e = (if slot_free e then None else Some (unat (se_hash e) mod cap))"

definition slot_ok :: "bytes \<Rightarrow> StringSetEntry \<Rightarrow> bool" where
  "slot_ok arena e \<longleftrightarrow> slot_free e \<or>
     (0 \<le> se_length e \<and> se_offset e + nat (se_length e) \<le> length arena \<and>
      se_hash e = hashBytes (slot_chars arena e))"

definition slots_ok :: "bytes \<Rightarrow> nat \<Rightarrow> StringSetEntry list \<Rightarrow> bool" where
  "slots_ok arena cap es \<longleftrightarrow>
     length es = cap \<and> (\<forall>e \<in> set es. slot_ok arena e) \<and>
     probe_ok cap (\<lambda>i. slot_free (es ! i)) (\<lambda>i. slot_home cap (es ! i)) \<and>
     (\<forall>i < cap. \<forall>j < cap. \<not> slot_free (es ! i) \<and> \<not> slot_free (es ! j) \<and>
        slot_chars arena (es ! i) = slot_chars arena (es ! j) \<longrightarrow> i = j)"

definition used_count :: "StringSetEntry list \<Rightarrow> nat" where
  "used_count es = length (filter (\<lambda>e. \<not> slot_free e) es)"

definition string_set_ok :: "StringSet \<Rightarrow> bool" where
  "string_set_ok s \<longleftrightarrow>
     slots_ok (ss_arena s) (ss_capacity s) (ss_entries s) \<and>
     ss_count s = used_count (ss_entries s) \<and> 4 * ss_count s \<le> 3 * ss_capacity s \<and>
     length (ss_arena s) \<le> ss_arenaCapacity s \<and> (ss_capacity s = 0 \<or> 8 \<le> ss_capacity s)"

text \<open>The strings of the set with the offsets of their bytes.\<close>

definition stored_at :: "bytes \<Rightarrow> StringSetEntry list \<Rightarrow> bytes \<Rightarrow> nat \<Rightarrow> bool" where
  "stored_at arena es chars off \<longleftrightarrow>
     (\<exists>e \<in> set es. \<not> slot_free e \<and> slot_chars arena e = chars \<and> se_offset e = off)"

definition set_strings :: "StringSet \<Rightarrow> bytes set" where
  "set_strings s = {chars. \<exists>off. stored_at (ss_arena s) (ss_entries s) chars off}"

lemma grow_cap_bounds: "0 < cap \<Longrightarrow> needed \<le> grow_cap needed cap \<and> cap \<le> grow_cap needed cap"
  by (induction needed cap rule: grow_cap.induct) (subst (1 2) grow_cap.simps, auto)

lemma slot_chars_append: "slot_ok arena e \<Longrightarrow> \<not> slot_free e \<Longrightarrow> slot_chars (arena @ xs) e = slot_chars arena e"
  by (simp add: slot_ok_def slot_chars_def)

lemma slot_chars_length: "slot_ok arena e \<Longrightarrow> \<not> slot_free e \<Longrightarrow> int (length (slot_chars arena e)) = se_length e"
  by (auto simp: slot_ok_def slot_chars_def)

lemma slot_ok_append: "slot_ok arena e \<Longrightarrow> slot_ok (arena @ xs) e"
  by (cases "slot_free e") (auto simp: slot_ok_def slot_chars_def)

lemma slots_okD: "slots_ok arena cap es \<Longrightarrow> i < cap \<Longrightarrow> slot_ok arena (es ! i)"
  by (auto simp: slots_ok_def)

lemma slots_ok_length: "slots_ok arena cap es \<Longrightarrow> length es = cap"
  by (simp add: slots_ok_def)

lemma slots_ok_unique:
  "slots_ok arena cap es \<Longrightarrow> i < cap \<Longrightarrow> j < cap \<Longrightarrow> \<not> slot_free (es ! i) \<Longrightarrow> \<not> slot_free (es ! j) \<Longrightarrow>
     slot_chars arena (es ! i) = slot_chars arena (es ! j) \<Longrightarrow> i = j"
  by (auto simp: slots_ok_def)

lemma used_count_update:
  assumes "d < length es" "slot_free (es ! d)" "\<not> slot_free e"
  shows "used_count (es[d := e]) = used_count es + 1"
proof -
  let ?U = "\<lambda>xs. {i. i < length xs \<and> \<not> slot_free (xs ! i)}"
  have "?U (es[d := e]) = insert d (?U es)"
    using assms by (auto simp: nth_list_update split: if_splits)
  then show ?thesis using assms
    by (simp add: used_count_def length_filter_conv_card card_insert_if)
qed

lemma free_slot_ex: "used_count es < length es \<Longrightarrow> \<exists>f < length es. slot_free (es ! f)"
proof (rule ccontr)
  assume u: "used_count es < length es" and "\<not> (\<exists>f<length es. slot_free (es ! f))"
  then have "\<forall>e \<in> set es. \<not> slot_free e" by (auto simp: in_set_conv_nth)
  then have "filter (\<lambda>e. \<not> slot_free e) es = es" by (simp add: filter_id_conv)
  with u show False by (simp add: used_count_def)
qed

lemma findSlot_loop_probe:
  "findSlot_loop n es cap arena chars hash i =
     probe n cap (\<lambda>i. slot_free (es ! i) \<or> (se_length (es ! i) = int (length chars) \<and>
       se_hash (es ! i) = hash \<and> slot_chars arena (es ! i) = chars)) i"
  by (induction n arbitrary: i) auto

text \<open>What the probe finds: the string's slot, or a free one with a clear path to it.\<close>

lemma findSlot_correct:
  assumes ok: "slots_ok arena cap es" and used: "used_count es < cap"
  obtains d where "findSlot es cap arena chars (hashBytes chars) = Some d" "d < cap"
    "\<And>i. slot_free (es ! d) \<Longrightarrow> i < cap \<Longrightarrow> \<not> slot_free (es ! i) \<Longrightarrow> slot_chars arena (es ! i) \<noteq> chars"
    "\<not> slot_free (es ! d) \<Longrightarrow> slot_chars arena (es ! d) = chars"
    "\<And>s. s < cap \<Longrightarrow> probe_dist cap (unat (hashBytes chars) mod cap) s <
       probe_dist cap (unat (hashBytes chars) mod cap) d \<Longrightarrow> \<not> slot_free (es ! s)"
proof -
  let ?hash = "hashBytes chars"
  let ?h = "unat ?hash mod cap"
  let ?stop = "\<lambda>i. slot_free (es ! i) \<or> (se_length (es ! i) = int (length chars) \<and>
       se_hash (es ! i) = ?hash \<and> slot_chars arena (es ! i) = chars)"
  have len: "length es = cap" using ok by (rule slots_ok_length)
  have h: "?h < cap" using used by simp
  obtain f where f: "f < cap" "slot_free (es ! f)" using free_slot_ex [of es] used len by auto
  obtain d where d: "probe cap cap ?stop ?h = Some d" using probe_total [OF h f(1), of ?stop] f(2) by blast
  note pd = probe_Some [OF d h]
  have po: "probe_ok cap (\<lambda>i. slot_free (es ! i)) (\<lambda>i. slot_home cap (es ! i))"
    using ok by (simp add: slots_ok_def)
  have absent: "slot_chars arena (es ! i) \<noteq> chars" if "slot_free (es ! d)" "i < cap" "\<not> slot_free (es ! i)" for i
  proof
    assume c: "slot_chars arena (es ! i) = chars"
    have so: "slot_ok arena (es ! i)" using slots_okD [OF ok that(2)] .
    have hi: "se_hash (es ! i) = ?hash" using so that(3) c by (simp add: slot_ok_def)
    have "?stop i" using slot_chars_length [OF so that(3)] c hi by simp
    then have "\<not> probe_dist cap ?h i < probe_dist cap ?h d" using pd(3) [OF that(2)] by blast
    moreover have "\<not> probe_dist cap ?h d < probe_dist cap ?h i"
      using probe_okD [OF po that(2), of ?h d] pd(1) that hi by (auto simp: slot_home_def)
    ultimately have "d = i" using probe_dist_inject [OF h pd(1) that(2)] by linarith
    with that show False by simp
  qed
  show thesis
    by (rule that [OF _ pd(1) absent])
      (use d pd in \<open>auto simp: findSlot_def findSlot_loop_probe\<close>)
qed

lemma store_slot:
  assumes ok: "slots_ok arena cap es" and d: "d < cap" "slot_free (es ! d)"
    and fresh: "\<And>i. i < cap \<Longrightarrow> \<not> slot_free (es ! i) \<Longrightarrow> slot_chars arena (es ! i) \<noteq> chars"
    and path: "\<And>s. s < cap \<Longrightarrow> probe_dist cap (unat (hashBytes chars) mod cap) s <
       probe_dist cap (unat (hashBytes chars) mod cap) d \<Longrightarrow> \<not> slot_free (es ! s)"
    and e: "\<not> slot_free e" "slot_ok (arena @ xs) e" "slot_chars (arena @ xs) e = chars"
  shows "slots_ok (arena @ xs) cap (es[d := e])"
    "stored_at (arena @ xs) (es[d := e]) c off \<longleftrightarrow> stored_at arena es c off \<or> c = chars \<and> off = se_offset e"
proof -
  have len: "length es = cap" using ok by (rule slots_ok_length)
  have chars_old: "slot_chars (arena @ xs) (es ! i) = slot_chars arena (es ! i)"
    if "i < cap" "\<not> slot_free (es ! i)" for i
    using slot_chars_append [OF slots_okD [OF ok that(1)] that(2)] .
  have he: "se_hash e = hashBytes chars" using e by (simp add: slot_ok_def)
  show "slots_ok (arena @ xs) cap (es[d := e])"
    unfolding slots_ok_def
  proof (intro conjI ballI allI impI)
    fix x assume "x \<in> set (es[d := e])"
    then have "x = e \<or> x \<in> set es" using set_update_subset_insert by fastforce
    then show "slot_ok (arena @ xs) x" using e(2) ok slot_ok_append by (auto simp: slots_ok_def)
  next
    show "probe_ok cap (\<lambda>i. slot_free (es[d := e] ! i)) (\<lambda>i. slot_home cap (es[d := e] ! i))"
      by (rule probe_ok_update [of cap "\<lambda>i. slot_free (es ! i)" "\<lambda>i. slot_home cap (es ! i)"
            "unat (hashBytes chars) mod cap" d])
        (use ok path e d len he in \<open>auto simp: slots_ok_def slot_home_def nth_list_update split: if_splits\<close>)
  next
    fix i j
    assume ij: "i < cap" "j < cap" "\<not> slot_free (es[d := e] ! i) \<and> \<not> slot_free (es[d := e] ! j) \<and>
      slot_chars (arena @ xs) (es[d := e] ! i) = slot_chars (arena @ xs) (es[d := e] ! j)"
    show "i = j"
    proof (cases "i = d \<or> j = d")
      case True
      then show ?thesis
        using ij fresh [OF ij(1)] fresh [OF ij(2)] chars_old [OF ij(1)] chars_old [OF ij(2)] e(3) d(1) len
        by (metis nth_list_update_eq nth_list_update_neq)
    next
      case False
      then show ?thesis
        using ij slots_ok_unique [OF ok ij(1,2)] chars_old [OF ij(1)] chars_old [OF ij(2)] by simp
    qed
  qed (simp add: len)
  have "(\<exists>i < cap. \<not> slot_free (es[d := e] ! i) \<and> slot_chars (arena @ xs) (es[d := e] ! i) = c \<and>
      se_offset (es[d := e] ! i) = off) \<longleftrightarrow>
    (\<exists>i < cap. \<not> slot_free (es ! i) \<and> slot_chars arena (es ! i) = c \<and> se_offset (es ! i) = off) \<or>
    c = chars \<and> off = se_offset e" (is "?L \<longleftrightarrow> ?R")
  proof
    assume ?L
    then obtain i where i: "i < cap" "\<not> slot_free (es[d := e] ! i)"
      "slot_chars (arena @ xs) (es[d := e] ! i) = c" "se_offset (es[d := e] ! i) = off" by blast
    show ?R using i e(3) len chars_old [OF i(1)] by (cases "i = d") auto
  next
    assume ?R
    then show ?L
    proof (elim disjE exE conjE)
      fix i assume i: "i < cap" "\<not> slot_free (es ! i)" "slot_chars arena (es ! i) = c" "se_offset (es ! i) = off"
      then have "i \<noteq> d" using d(2) by blast
      with i chars_old show ?L by (intro exI [of _ i]) simp
    qed (use e d len in \<open>auto intro!: exI [of _ d]\<close>)
  qed
  then show "stored_at (arena @ xs) (es[d := e]) c off \<longleftrightarrow> stored_at arena es c off \<or> c = chars \<and> off = se_offset e"
    by (simp add: stored_at_def set_conv_nth len) (metis (no_types, lifting))
qed

section \<open>Rehashing\<close>

abbreviation live_slots :: "StringSetEntry list \<Rightarrow> StringSetEntry list" where
  "live_slots es \<equiv> filter (\<lambda>e. \<not> slot_free e) es"

lemma distinct_live_chars:
  "slots_ok arena cap es \<Longrightarrow> distinct (map (slot_chars arena) (live_slots es))"
proof -
  assume "slots_ok arena cap es"
  then have "\<forall>i < length es. \<forall>j < length es. \<not> slot_free (es ! i) \<and> \<not> slot_free (es ! j) \<and>
      slot_chars arena (es ! i) = slot_chars arena (es ! j) \<longrightarrow> i = j"
    by (simp add: slots_ok_def)
  then show ?thesis
  proof (induction es)
    case (Cons e es)
    have "distinct (map (slot_chars arena) (live_slots es))"
      using Cons.prems by (intro Cons.IH) (metis Suc_less_eq length_Cons nat.inject nth_Cons_Suc)
    moreover have "slot_chars arena e \<noteq> slot_chars arena x" if x: "\<not> slot_free e" "x \<in> set es" "\<not> slot_free x" for x
    proof -
      obtain j where "j < length es" "x = es ! j" using x(2) by (metis in_set_conv_nth)
      with x Cons.prems show ?thesis
        by (metis Suc_less_eq length_Cons nat.distinct(1) nth_Cons_0 nth_Cons_Suc zero_less_Suc)
    qed
    ultimately show ?case by auto
  qed simp
qed

lemma rehash_slots_correct:
  assumes "slots_ok arena cap new" "used_count new + length (live_slots olds) < cap"
    "distinct (map (slot_chars arena) (live_slots olds))" "\<And>e. e \<in> set olds \<Longrightarrow> slot_ok arena e"
    "\<And>i e. i < cap \<Longrightarrow> \<not> slot_free (new ! i) \<Longrightarrow> e \<in> set (live_slots olds) \<Longrightarrow>
       slot_chars arena (new ! i) \<noteq> slot_chars arena e"
  shows "\<exists>new'. rehash_slots cap arena olds new = Some new' \<and> slots_ok arena cap new' \<and>
    used_count new' = used_count new + length (live_slots olds) \<and>
    (\<forall>c off. stored_at arena new' c off \<longleftrightarrow> stored_at arena new c off \<or> stored_at arena olds c off)"
  using assms
proof (induction olds arbitrary: new)
  case Nil
  then show ?case by (simp add: stored_at_def)
next
  case (Cons e olds)
  show ?case
  proof (cases "slot_free e")
    case True
    have "stored_at arena (e # olds) c off = stored_at arena olds c off" for c off
      using True by (simp add: stored_at_def)
    with True Cons.IH [of new] Cons.prems show ?thesis by simp
  next
    case False
    let ?c = "slot_chars arena e"
    have eok: "slot_ok arena e" using Cons.prems(4) by simp
    have he: "se_hash e = hashBytes ?c" using eok False by (simp add: slot_ok_def)
    have room: "used_count new < cap" using Cons.prems(2) by simp
    have len: "length new = cap" using Cons.prems(1) by (rule slots_ok_length)
    obtain d where d: "findSlot new cap arena ?c (hashBytes ?c) = Some d" "d < cap"
      "\<not> slot_free (new ! d) \<Longrightarrow> slot_chars arena (new ! d) = ?c"
      "\<And>s. s < cap \<Longrightarrow> probe_dist cap (unat (hashBytes ?c) mod cap) s <
         probe_dist cap (unat (hashBytes ?c) mod cap) d \<Longrightarrow> \<not> slot_free (new ! s)"
      using findSlot_correct [OF Cons.prems(1) room, of ?c] by metis
    have fresh: "slot_chars arena (new ! i) \<noteq> ?c" if "i < cap" "\<not> slot_free (new ! i)" for i
      using Cons.prems(5) [OF that, of e] False by simp
    then have free: "slot_free (new ! d)" using d(2,3) by blast
    have eok': "slot_ok (arena @ []) e" "slot_chars (arena @ []) e = ?c" using eok by simp_all
    note st = store_slot [OF Cons.prems(1) d(2) free fresh d(4) False eok', unfolded append_Nil2]
    have u: "used_count (new[d := e]) = used_count new + 1"
      using used_count_update [of d new e] d(2) len free False by simp
    have next5: "slot_chars arena (new[d := e] ! i) \<noteq> slot_chars arena x"
      if "i < cap" "\<not> slot_free (new[d := e] ! i)" "x \<in> set (live_slots olds)" for i x
    proof (cases "i = d")
      case True
      then show ?thesis using that Cons.prems(3) False d(2) len by auto
    next
      case False
      then show ?thesis using that Cons.prems(5) [OF that(1), of x] by auto
    qed
    obtain new' where new': "rehash_slots cap arena olds (new[d := e]) = Some new'" "slots_ok arena cap new'"
      "used_count new' = used_count (new[d := e]) + length (live_slots olds)"
      "\<And>c off. stored_at arena new' c off \<longleftrightarrow> stored_at arena (new[d := e]) c off \<or> stored_at arena olds c off"
      using Cons.IH [OF st(1) _ _ _ next5] Cons.prems(2-4) False u by auto
    have "stored_at arena (e # olds) c off \<longleftrightarrow> stored_at arena olds c off \<or> c = ?c \<and> off = se_offset e" for c off
      using False by (auto simp: stored_at_def)
    with new' st(2) u d(1) False he show ?thesis by (intro exI [of _ new']) auto
  qed
qed

lemma replicate_empty_slots:
  "slots_ok arena cap (replicate cap empty_slot)" "used_count (replicate cap empty_slot) = 0"
  "\<not> stored_at arena (replicate cap empty_slot) c off"
  by (auto simp: slots_ok_def probe_ok_def empty_slot_def used_count_def slot_home_def slot_ok_def stored_at_def)

lemma set_room:
  assumes ok: "string_set_ok s"
  obtains s1 where
    "(if ss_count s + 1 > 3 * ss_capacity s div 4
      then set_adjustCapacity s (if ss_capacity s < 8 then 8 else ss_capacity s * 2) else Some s) = Some s1"
    "string_set_ok s1" "4 * (ss_count s1 + 1) \<le> 3 * ss_capacity s1" "ss_arena s1 = ss_arena s"
    "\<And>c off. stored_at (ss_arena s) (ss_entries s1) c off \<longleftrightarrow> stored_at (ss_arena s) (ss_entries s) c off"
proof (cases "ss_count s + 1 > 3 * ss_capacity s div 4")
  case True
  let ?c = "if ss_capacity s < 8 then 8 else ss_capacity s * 2"
  have es: "slots_ok (ss_arena s) (ss_capacity s) (ss_entries s)"
    and cnt: "ss_count s = used_count (ss_entries s)" "4 * ss_count s \<le> 3 * ss_capacity s"
    "length (ss_arena s) \<le> ss_arenaCapacity s"
    using ok by (simp_all add: string_set_ok_def)
  have c: "8 \<le> ?c" "4 * (ss_count s + 1) \<le> 3 * ?c" using cnt(2) by auto
  have "slot_ok (ss_arena s) e" if "e \<in> set (ss_entries s)" for e using es that by (simp add: slots_ok_def)
  moreover have "length (live_slots (ss_entries s)) < ?c" using c(2) cnt(1) by (simp add: used_count_def)
  moreover have "slot_free (replicate ?c empty_slot ! i)" if "i < ?c" for i
    using that by (simp add: empty_slot_def)
  ultimately obtain new' where new': "rehash_slots ?c (ss_arena s) (ss_entries s) (replicate ?c empty_slot) = Some new'"
    "slots_ok (ss_arena s) ?c new'" "used_count new' = length (live_slots (ss_entries s))"
    "\<And>c off. stored_at (ss_arena s) new' c off \<longleftrightarrow> stored_at (ss_arena s) (ss_entries s) c off"
    using rehash_slots_correct [of "ss_arena s" ?c "replicate ?c empty_slot" "ss_entries s"]
      distinct_live_chars [OF es] replicate_empty_slots by (metis add.left_neutral)
  let ?s1 = "s\<lparr>ss_entries := new', ss_capacity := ?c\<rparr>"
  show thesis
  proof (rule that [of ?s1])
    show "string_set_ok ?s1" using new' cnt c by (auto simp: string_set_ok_def used_count_def)
  qed (use True new' c in \<open>auto simp: set_adjustCapacity_def\<close>)
next
  case False
  show thesis by (rule that [of s]) (use False ok in auto)
qed

section \<open>The operations\<close>

lemma stringSetInit_ok [simp]: "string_set_ok stringSetInit" "set_strings stringSetInit = {}"
  by (auto simp: string_set_ok_def stringSetInit_def slots_ok_def probe_ok_def used_count_def
      set_strings_def stored_at_def)

lemma arenaAppend_simps:
  "fst (arenaAppend s chars) = length (ss_arena s)"
  "ss_arena (snd (arenaAppend s chars)) = ss_arena s @ chars"
  "ss_entries (snd (arenaAppend s chars)) = ss_entries s"
  "ss_count (snd (arenaAppend s chars)) = ss_count s"
  "ss_capacity (snd (arenaAppend s chars)) = ss_capacity s"
  by (simp_all add: arenaAppend_def Let_def)

lemma arenaAppend_fits:
  "length (ss_arena s) + length chars \<le> ss_arenaCapacity (snd (arenaAppend s chars))"
  using grow_cap_bounds by (simp add: arenaAppend_def Let_def)

lemma stored_at_bytes:
  assumes "slots_ok arena cap es" "stored_at arena es c off"
  shows "off + length c \<le> length arena" "take (length c) (drop off arena) = c"
proof -
  obtain e where e: "e \<in> set es" "\<not> slot_free e" "slot_chars arena e = c" "se_offset e = off"
    using assms(2) by (auto simp: stored_at_def)
  have "slot_ok arena e" using assms(1) e(1) by (simp add: slots_ok_def)
  with e show "off + length c \<le> length arena" "take (length c) (drop off arena) = c"
    by (auto simp: slot_ok_def slot_chars_def)
qed

text \<open>Interning adds one string and leaves every stored string where it is.\<close>

lemma stringSetIntern_correct:
  assumes ok: "string_set_ok s"
  obtains off s' where "stringSetIntern s chars = Some (off, s')" "string_set_ok s'"
    "\<And>c o'. stored_at (ss_arena s') (ss_entries s') c o' \<longleftrightarrow>
       stored_at (ss_arena s) (ss_entries s) c o' \<or> c = chars \<and> o' = off"
    "\<exists>xs. ss_arena s' = ss_arena s @ xs"
proof -
  obtain s1 where grow: "(if ss_count s + 1 > 3 * ss_capacity s div 4
      then set_adjustCapacity s (if ss_capacity s < 8 then 8 else ss_capacity s * 2) else Some s) = Some s1"
    and ok1: "string_set_ok s1" and room: "4 * (ss_count s1 + 1) \<le> 3 * ss_capacity s1"
    and arena: "ss_arena s1 = ss_arena s"
    and same: "\<And>c off. stored_at (ss_arena s) (ss_entries s1) c off \<longleftrightarrow> stored_at (ss_arena s) (ss_entries s) c off"
    using set_room [OF ok] by blast
  have es: "slots_ok (ss_arena s) (ss_capacity s1) (ss_entries s1)"
    and cnt: "ss_count s1 = used_count (ss_entries s1)"
    using ok1 arena by (simp_all add: string_set_ok_def)
  have "used_count (ss_entries s1) < ss_capacity s1" using room cnt by simp
  from findSlot_correct [OF es this, of chars] obtain d where
    d: "findSlot (ss_entries s1) (ss_capacity s1) (ss_arena s) chars (hashBytes chars) = Some d"
    "d < ss_capacity s1"
    "\<And>i. slot_free (ss_entries s1 ! d) \<Longrightarrow> i < ss_capacity s1 \<Longrightarrow> \<not> slot_free (ss_entries s1 ! i) \<Longrightarrow>
       slot_chars (ss_arena s) (ss_entries s1 ! i) \<noteq> chars"
    "\<not> slot_free (ss_entries s1 ! d) \<Longrightarrow> slot_chars (ss_arena s) (ss_entries s1 ! d) = chars"
    "\<And>i. i < ss_capacity s1 \<Longrightarrow> probe_dist (ss_capacity s1) (unat (hashBytes chars) mod ss_capacity s1) i <
       probe_dist (ss_capacity s1) (unat (hashBytes chars) mod ss_capacity s1) d \<Longrightarrow>
       \<not> slot_free (ss_entries s1 ! i)" by blast
  have len: "length (ss_entries s1) = ss_capacity s1" using es by (rule slots_ok_length)
  show thesis
  proof (cases "slot_free (ss_entries s1 ! d)")
    case False
    have "stored_at (ss_arena s) (ss_entries s1) chars (se_offset (ss_entries s1 ! d))"
      using False d(2,4) len by (auto simp: stored_at_def)
    moreover have "stringSetIntern s chars = Some (se_offset (ss_entries s1 ! d), s1)"
      unfolding stringSetIntern_def grow using d(1) False arena by simp
    ultimately show thesis
      using that [of "se_offset (ss_entries s1 ! d)" s1] ok1 arena same by auto
  next
    case True
    let ?e = "\<lparr>se_offset = length (ss_arena s), se_length = int (length chars), se_hash = hashBytes chars\<rparr>"
    let ?s2 = "snd (arenaAppend s1 chars)"
    let ?s' = "?s2\<lparr>ss_entries := (ss_entries s1)[d := ?e], ss_count := ss_count s1 + 1\<rparr>"
    have e: "\<not> slot_free ?e" "slot_ok (ss_arena s @ chars) ?e" "slot_chars (ss_arena s @ chars) ?e = chars"
      by (simp_all add: slot_ok_def slot_chars_def)
    note st = store_slot [OF es d(2) True d(3) [OF True] d(5) e]
    have u: "used_count ((ss_entries s1)[d := ?e]) = ss_count s1 + 1"
      using used_count_update [of d "ss_entries s1" ?e] d(2) len True cnt by simp
    have "stringSetIntern s chars = Some (length (ss_arena s), ?s')"
      unfolding stringSetIntern_def grow using d(1) True arena
      by (simp add: Let_def split_beta arenaAppend_simps)
    moreover have "string_set_ok ?s'"
      using st(1) u room ok1 arena arenaAppend_fits [of s1 chars]
      by (simp add: string_set_ok_def arenaAppend_simps)
    ultimately show thesis
      using that [of "length (ss_arena s)" ?s'] st(2) same arena by (simp add: arenaAppend_simps)
  qed
qed

lemma stringSetContains_correct:
  assumes ok: "string_set_ok s"
  shows "stringSetContains s chars = Some (chars \<in> set_strings s)"
proof -
  have es: "slots_ok (ss_arena s) (ss_capacity s) (ss_entries s)"
    and cnt: "ss_count s = used_count (ss_entries s)" "4 * ss_count s \<le> 3 * ss_capacity s"
    using ok by (simp_all add: string_set_ok_def)
  have len: "length (ss_entries s) = ss_capacity s" using es by (rule slots_ok_length)
  have mem: "chars \<in> set_strings s \<longleftrightarrow> (\<exists>i < ss_capacity s. \<not> slot_free (ss_entries s ! i) \<and>
      slot_chars (ss_arena s) (ss_entries s ! i) = chars)"
    by (auto simp: set_strings_def stored_at_def set_conv_nth len)
  show ?thesis
  proof (cases "ss_count s = 0")
    case True
    then have "\<forall>e \<in> set (ss_entries s). slot_free e" using cnt(1) by (simp add: used_count_def filter_empty_conv)
    then have "chars \<notin> set_strings s" by (auto simp: set_strings_def stored_at_def)
    with True show ?thesis by (simp add: stringSetContains_def)
  next
    case False
    have "used_count (ss_entries s) < ss_capacity s" using False cnt by simp
    from findSlot_correct [OF es this, of chars] obtain d where
      "findSlot (ss_entries s) (ss_capacity s) (ss_arena s) chars (hashBytes chars) = Some d"
      "d < ss_capacity s"
      "\<And>i. slot_free (ss_entries s ! d) \<Longrightarrow> i < ss_capacity s \<Longrightarrow> \<not> slot_free (ss_entries s ! i) \<Longrightarrow>
         slot_chars (ss_arena s) (ss_entries s ! i) \<noteq> chars"
      "\<not> slot_free (ss_entries s ! d) \<Longrightarrow> slot_chars (ss_arena s) (ss_entries s ! d) = chars" by metis
    then show ?thesis using False mem by (auto simp: stringSetContains_def)
  qed
qed

section \<open>The interface\<close>

fun intern_all :: "('s \<Rightarrow> bytes \<Rightarrow> (nat \<times> 's) option) \<Rightarrow> bytes list \<Rightarrow> 's \<Rightarrow> (nat list \<times> 's) option" where
  "intern_all intern [] s = Some ([], s)"
| "intern_all intern (c # cs) s =
     do { (off, s) \<leftarrow> intern s c; (offs, s) \<leftarrow> intern_all intern cs s; Some (off # offs, s) }"

locale byte_interner =
  fixes ok :: "'s \<Rightarrow> bool" and emp :: 's
    and arena :: "'s \<Rightarrow> bytes"
    and has :: "'s \<Rightarrow> bytes \<Rightarrow> bool option"
    and intern :: "'s \<Rightarrow> bytes \<Rightarrow> (nat \<times> 's) option"
    and at :: "'s \<Rightarrow> bytes \<Rightarrow> nat \<Rightarrow> bool"
  assumes ok_emp: "ok emp" and at_emp: "\<not> at emp c off"
    and at_bytes: "ok s \<Longrightarrow> at s c off \<Longrightarrow> off + length c \<le> length (arena s) \<and> take (length c) (drop off (arena s)) = c"
    and at_unique: "ok s \<Longrightarrow> at s c off \<Longrightarrow> at s c off' \<Longrightarrow> off = off'"
    and has_law: "ok s \<Longrightarrow> has s c = Some (\<exists>off. at s c off)"
    and intern_law: "ok s \<Longrightarrow> \<exists>off s'. intern s c = Some (off, s') \<and> ok s' \<and>
      (\<forall>x o'. at s' x o' \<longleftrightarrow> at s x o' \<or> x = c \<and> o' = off)"
begin

lemma intern_all_at:
  "ok s \<Longrightarrow> \<exists>offs s'. intern_all intern cs s = Some (offs, s') \<and> ok s' \<and>
     (\<forall>x o'. at s' x o' \<longleftrightarrow> at s x o' \<or> (x, o') \<in> set (zip cs offs)) \<and> length offs = length cs"
proof (induction cs arbitrary: s)
  case (Cons c cs)
  obtain off s1 where s1: "intern s c = Some (off, s1)" "ok s1"
    "\<And>x o'. at s1 x o' \<longleftrightarrow> at s x o' \<or> x = c \<and> o' = off"
    using intern_law [OF Cons.prems] by blast
  obtain offs s' where s': "intern_all intern cs s1 = Some (offs, s')" "ok s'"
    "\<And>x o'. at s' x o' \<longleftrightarrow> at s1 x o' \<or> (x, o') \<in> set (zip cs offs)" "length offs = length cs"
    using Cons.IH [OF s1(2)] by blast
  have "at s' x o' \<longleftrightarrow> at s x o' \<or> (x, o') \<in> set (zip (c # cs) (off # offs))" for x o'
    unfolding s'(3) s1(3) by auto
  then show ?case using s1(1) s'(1,2,4) by (intro exI [of _ "off # offs"] exI [of _ s']) simp
qed simp

text \<open>
  Interning a list of strings from the empty set: each offset returned still points at its
  string in the final arena, equal strings have equal offsets, and membership is membership
  in the list.
\<close>

lemma intern_all_correct:
  "\<exists>offs s'. intern_all intern cs emp = Some (offs, s') \<and> length offs = length cs \<and>
     (\<forall>i < length cs. take (length (cs ! i)) (drop (offs ! i) (arena s')) = cs ! i \<and>
        offs ! i + length (cs ! i) \<le> length (arena s')) \<and>
     (\<forall>i < length cs. \<forall>j < length cs. cs ! i = cs ! j \<longrightarrow> offs ! i = offs ! j) \<and>
     (\<forall>x. has s' x = Some (x \<in> set cs))"
proof -
  obtain offs s' where s': "intern_all intern cs emp = Some (offs, s')" "ok s'"
    "\<And>x o'. at s' x o' \<longleftrightarrow> (x, o') \<in> set (zip cs offs)" "length offs = length cs"
    using intern_all_at [OF ok_emp, of cs] at_emp by auto
  have at: "at s' (cs ! i) (offs ! i)" if "i < length cs" for i
    unfolding s'(3) using that s'(4) by (auto simp: set_zip)
  have "(\<exists>off. at s' x off) \<longleftrightarrow> x \<in> set cs" for x
    unfolding s'(3) using s'(4) by (metis in_set_impl_in_set_zip1 set_zip_leftD)
  then have "has s' x = Some (x \<in> set cs)" for x using has_law [OF s'(2)] by simp
  with s' at show ?thesis
    by (intro exI [of _ offs] exI [of _ s']) (metis at_bytes at_unique)
qed

end

interpretation string_set: byte_interner string_set_ok stringSetInit ss_arena stringSetContains
  stringSetIntern "\<lambda>s. stored_at (ss_arena s) (ss_entries s)"
proof unfold_locales
  show "string_set_ok stringSetInit" by simp
  show "\<not> stored_at (ss_arena stringSetInit) (ss_entries stringSetInit) c off" for c off
    by (simp add: stringSetInit_def stored_at_def)
  fix s :: StringSet and c off off'
  assume ok: "string_set_ok s"
  then have es: "slots_ok (ss_arena s) (ss_capacity s) (ss_entries s)" by (simp add: string_set_ok_def)
  show "off + length c \<le> length (ss_arena s) \<and> take (length c) (drop off (ss_arena s)) = c"
    if "stored_at (ss_arena s) (ss_entries s) c off"
    using stored_at_bytes [OF es that] by simp
  show "off = off'" if at: "stored_at (ss_arena s) (ss_entries s) c off" "stored_at (ss_arena s) (ss_entries s) c off'"
  proof -
    obtain i j where "i < ss_capacity s" "j < ss_capacity s" "\<not> slot_free (ss_entries s ! i)"
      "\<not> slot_free (ss_entries s ! j)" "slot_chars (ss_arena s) (ss_entries s ! i) = c"
      "slot_chars (ss_arena s) (ss_entries s ! j) = c"
      "se_offset (ss_entries s ! i) = off" "se_offset (ss_entries s ! j) = off'"
      using at slots_ok_length [OF es] by (auto simp: stored_at_def set_conv_nth)
    then show ?thesis using slots_ok_unique [OF es] by metis
  qed
  show "stringSetContains s c = Some (\<exists>off. stored_at (ss_arena s) (ss_entries s) c off)"
    using stringSetContains_correct [OF ok] by (simp add: set_strings_def)
  show "\<exists>off s'. stringSetIntern s c = Some (off, s') \<and> string_set_ok s' \<and>
      (\<forall>x o'. stored_at (ss_arena s') (ss_entries s') x o' \<longleftrightarrow>
        stored_at (ss_arena s) (ss_entries s) x o' \<or> x = c \<and> o' = off)"
    using stringSetIntern_correct [OF ok, of c] by metis
qed

section \<open>Properties\<close>

text \<open>
  C14. Interning any list of strings into an empty set returns; every offset handed out still
  points at the bytes of its string in the final arena, equal strings share one offset, and
  afterwards exactly the interned strings are members.
\<close>

theorem stringSet_intern_all:
  "\<exists>offs s'. intern_all stringSetIntern cs stringSetInit = Some (offs, s') \<and> length offs = length cs \<and>
     (\<forall>i < length cs. take (length (cs ! i)) (drop (offs ! i) (ss_arena s')) = cs ! i \<and>
        offs ! i + length (cs ! i) \<le> length (ss_arena s')) \<and>
     (\<forall>i < length cs. \<forall>j < length cs. cs ! i = cs ! j \<longrightarrow> offs ! i = offs ! j) \<and>
     (\<forall>x. stringSetContains s' x = Some (x \<in> set cs))"
  by (rule string_set.intern_all_correct)

theorem stringSet_intern_all_witness:
  "\<exists>offs s'. intern_all stringSetIntern [[1, 2], [], [1, 2]] stringSetInit = Some (offs, s') \<and>
     length offs = 3 \<and> offs ! 0 = offs ! 2 \<and> take 2 (drop (offs ! 2) (ss_arena s')) = [1, 2] \<and>
     stringSetContains s' [] = Some True \<and> stringSetContains s' [2] = Some False"
proof -
  let ?cs = "[[1, 2], [], [1, 2]] :: bytes list"
  obtain offs s' where s': "intern_all stringSetIntern ?cs stringSetInit = Some (offs, s')" "length offs = length ?cs"
    "\<forall>i < length ?cs. take (length (?cs ! i)) (drop (offs ! i) (ss_arena s')) = ?cs ! i \<and>
       offs ! i + length (?cs ! i) \<le> length (ss_arena s')"
    "\<forall>i < length ?cs. \<forall>j < length ?cs. ?cs ! i = ?cs ! j \<longrightarrow> offs ! i = offs ! j"
    "\<forall>x. stringSetContains s' x = Some (x \<in> set ?cs)"
    using stringSet_intern_all [of ?cs] by blast
  have "offs ! 0 = offs ! 2" using s'(4) [rule_format, of 0 2] by simp
  moreover have "take 2 (drop (offs ! 2) (ss_arena s')) = [1, 2]" using s'(3) [rule_format, of 2] by (simp add: numeral_2_eq_2)
  ultimately show ?thesis using s'(1,2,5) by (intro exI [of _ offs] exI [of _ s']) simp
qed

end
