(* ===== verification/Compiled_Unit.thy ===== *)
theory Compiled_Unit
  imports Number_Ops String_Set
begin

text \<open>
  The compiler's output, \<^verbatim>\<open>src/compiled_unit.c\<close>: functions with their bytecode, lines, constants
  and captured variables, and one string blob.  The counts of the C arrays are the lengths of the
  lists; their capacities, which only size the allocations, are left out.
\<close>

datatype CompiledConst =
    CONST_NUMBER NumberKind NumberPayload
  | CONST_BOOL bool
  | CONST_NIL
  | CONST_STRING int int
  | CONST_FUNCTION int

record CompiledUpvalue =
  cv_isLocal :: bool
  cv_index :: u8

record CompiledFn =
  cf_arity :: int
  cf_upvalueCount :: int
  cf_code :: bytes
  cf_codeLines :: "int list"
  cf_constants :: "CompiledConst list"
  cf_upvalues :: "CompiledUpvalue list"
  cf_nameOffset :: int
  cf_nameLength :: int
  cf_isStatic :: bool
  cf_isPublic :: bool

record CompiledUnit =
  cu_strings :: StringSet
  cu_functions :: "CompiledFn list"

definition cuInit :: CompiledUnit where
  "cuInit = \<lparr>cu_strings = stringSetInit, cu_functions = []\<rparr>"

definition cuInternString :: "CompiledUnit \<Rightarrow> bytes \<Rightarrow> (nat \<times> CompiledUnit) option" where
  "cuInternString unit chars =
     do {
       (offset, strings) \<leftarrow> stringSetIntern (cu_strings unit) chars;
       Some (offset, unit\<lparr>cu_strings := strings\<rparr>)
     }"

definition cuInitFn :: CompiledFn where
  "cuInitFn =
     \<lparr>cf_arity = 0, cf_upvalueCount = 0, cf_code = [], cf_codeLines = [], cf_constants = [],
      cf_upvalues = [], cf_nameOffset = 0, cf_nameLength = -1, cf_isStatic = False,
      cf_isPublic = False\<rparr>"

definition cuAddFunction :: "CompiledUnit \<Rightarrow> nat \<times> CompiledUnit" where
  "cuAddFunction unit =
     (length (cu_functions unit), unit\<lparr>cu_functions := cu_functions unit @ [cuInitFn]\<rparr>)"

text \<open>\<open>None\<close> is the pointer outside the array.\<close>

definition cuGetFnByIndex :: "CompiledUnit \<Rightarrow> nat \<Rightarrow> CompiledFn option" where
  "cuGetFnByIndex unit index =
     (if index < length (cu_functions unit) then Some (cu_functions unit ! index) else None)"

definition cuWriteByte :: "CompiledFn \<Rightarrow> u8 \<Rightarrow> int \<Rightarrow> CompiledFn" where
  "cuWriteByte fn byte line =
     fn\<lparr>cf_code := cf_code fn @ [byte], cf_codeLines := cf_codeLines fn @ [line]\<rparr>"

fun compiledConstantsAreEqual :: "CompiledConst \<Rightarrow> CompiledConst \<Rightarrow> bool" where
  "compiledConstantsAreEqual (CONST_NUMBER k a) (CONST_NUMBER k' b) =
     (if k \<noteq> k' then False else if isFloatKind k then f64_eq a b else a = b)"
| "compiledConstantsAreEqual (CONST_BOOL a) (CONST_BOOL b) = (a = b)"
| "compiledConstantsAreEqual CONST_NIL CONST_NIL = True"
| "compiledConstantsAreEqual (CONST_STRING off len) (CONST_STRING off' len') = (off = off' \<and> len = len')"
| "compiledConstantsAreEqual _ _ = False"

fun find_constant :: "CompiledConst list \<Rightarrow> CompiledConst \<Rightarrow> nat \<Rightarrow> nat option" where
  "find_constant [] c i = None"
| "find_constant (x # xs) c i =
     (if compiledConstantsAreEqual x c then Some i else find_constant xs c (i + 1))"

definition cuAddConstant :: "CompiledFn \<Rightarrow> CompiledConst \<Rightarrow> nat \<times> CompiledFn" where
  "cuAddConstant fn c =
     (case find_constant (cf_constants fn) c 0 of
        Some i \<Rightarrow> (i, fn)
      | None \<Rightarrow> (length (cf_constants fn), fn\<lparr>cf_constants := cf_constants fn @ [c]\<rparr>))"

definition cuAddUpvalue :: "CompiledFn \<Rightarrow> bool \<Rightarrow> u8 \<Rightarrow> nat \<times> CompiledFn" where
  "cuAddUpvalue fn isLocal index =
     (length (cf_upvalues fn),
      fn\<lparr>cf_upvalues := cf_upvalues fn @ [\<lparr>cv_isLocal = isLocal, cv_index = index\<rparr>]\<rparr>)"

definition freeCompiledUnit :: "CompiledUnit \<Rightarrow> CompiledUnit" where
  "freeCompiledUnit unit = cuInit"

section \<open>The constant pool\<close>

lemma find_constant_Some:
  "find_constant xs c i = Some j \<Longrightarrow> i \<le> j \<and> j - i < length xs \<and> compiledConstantsAreEqual (xs ! (j - i)) c"
proof (induction xs arbitrary: i)
  case (Cons x xs)
  show ?case
  proof (cases "compiledConstantsAreEqual x c")
    case False
    with Cons.prems have "find_constant xs c (i + 1) = Some j" by simp
    from Cons.IH [OF this] show ?thesis by (auto simp: nth_Cons')
  qed (use Cons.prems in auto)
qed simp

lemma find_constant_None:
  "find_constant xs c i = None \<longleftrightarrow> (\<forall>x \<in> set xs. \<not> compiledConstantsAreEqual x c)"
  by (induction xs arbitrary: i) auto

text \<open>
  When two constants stand for the same value, read off their values and not off the code's comparison: a
  float is compared as a number, so the two zeros are one value and a NaN is not even itself.  A function
  is made anew for every closure expression, so its constants are never shared.
\<close>

fun same_value :: "CompiledConst \<Rightarrow> CompiledConst \<Rightarrow> bool" where
  "same_value (CONST_NUMBER k a) c =
     (\<exists>b. c = CONST_NUMBER k b \<and> (if isFloatKind k then f64_eq a b else a = b))"
| "same_value (CONST_FUNCTION i) c = False"
| "same_value c c' \<longleftrightarrow> c = c'"

lemma compiledConstantsAreEqual_same_value: "compiledConstantsAreEqual a b \<longleftrightarrow> same_value a b"
  by (cases a; cases b) auto

text \<open>A pool never holds a constant that an earlier one already stands for.\<close>

definition pool_ok :: "CompiledFn \<Rightarrow> bool" where
  "pool_ok fn \<longleftrightarrow>
     (\<forall>j < length (cf_constants fn). \<forall>i < j. \<not> same_value (cf_constants fn ! i) (cf_constants fn ! j))"

lemma cuInitFn_pool_ok: "pool_ok cuInitFn"
  by (simp add: pool_ok_def cuInitFn_def)

text \<open>
  Two constants the pool identifies are the same value for the running program, up to the sign
  of a float zero.
\<close>

fun const_same :: "CompiledConst \<Rightarrow> CompiledConst \<Rightarrow> bool" where
  "const_same (CONST_NUMBER k a) c =
     (c = CONST_NUMBER k a \<or> (isFloatKind k \<and> (\<exists>b. c = CONST_NUMBER k b \<and> f64_eq a b)))"
| "const_same c c' \<longleftrightarrow> c = c'"

lemma equal_constants_same: "compiledConstantsAreEqual a b \<Longrightarrow> const_same a b"
  by (cases a; cases b) (auto split: if_splits)

lemma const_same_refl: "const_same c c"
  by (cases c) auto

lemma cuAddConstant_spec:
  assumes "pool_ok fn" "cuAddConstant fn c = (i, fn')"
  shows "pool_ok fn'" "i < length (cf_constants fn')" "const_same (cf_constants fn' ! i) c"
    "take (length (cf_constants fn)) (cf_constants fn') = cf_constants fn"
    "length (cf_constants fn') \<le> length (cf_constants fn) + 1"
    "fn' = fn\<lparr>cf_constants := cf_constants fn'\<rparr>"
proof -
  have "pool_ok fn' \<and> i < length (cf_constants fn') \<and> const_same (cf_constants fn' ! i) c \<and>
    take (length (cf_constants fn)) (cf_constants fn') = cf_constants fn \<and>
    length (cf_constants fn') \<le> length (cf_constants fn) + 1 \<and> fn' = fn\<lparr>cf_constants := cf_constants fn'\<rparr>"
  proof (cases "find_constant (cf_constants fn) c 0")
    case (Some j)
    with assms show ?thesis
      using find_constant_Some [OF Some] by (auto simp: cuAddConstant_def intro: equal_constants_same)
  next
    case None
    then have "fn' = fn\<lparr>cf_constants := cf_constants fn @ [c]\<rparr>" "i = length (cf_constants fn)"
      using assms(2) by (auto simp: cuAddConstant_def)
    with assms(1) None show ?thesis
      by (auto simp: pool_ok_def find_constant_None compiledConstantsAreEqual_same_value nth_append less_Suc_eq const_same_refl)
  qed
  then show "pool_ok fn'" "i < length (cf_constants fn')" "const_same (cf_constants fn' ! i) c"
    "take (length (cf_constants fn)) (cf_constants fn') = cf_constants fn"
    "length (cf_constants fn') \<le> length (cf_constants fn) + 1"
    "fn' = fn\<lparr>cf_constants := cf_constants fn'\<rparr>" by blast+
qed

text \<open>Adding a list of constants, as the compiler does while it emits a function.\<close>

fun add_constants :: "CompiledFn \<Rightarrow> CompiledConst list \<Rightarrow> nat list \<times> CompiledFn" where
  "add_constants fn [] = ([], fn)"
| "add_constants fn (c # cs) =
     (let (i, fn) = cuAddConstant fn c; (is, fn) = add_constants fn cs in (i # is, fn))"

lemma add_constants_spec:
  assumes "pool_ok fn" "add_constants fn cs = (is, fn')"
  shows "pool_ok fn' \<and> length is = length cs \<and>
    take (length (cf_constants fn)) (cf_constants fn') = cf_constants fn \<and>
    (\<forall>j < length cs. is ! j < length (cf_constants fn') \<and> const_same (cf_constants fn' ! (is ! j)) (cs ! j))"
  using assms
proof (induction cs arbitrary: fn "is")
  case (Cons c cs)
  obtain i fn1 is1 where s: "cuAddConstant fn c = (i, fn1)" "add_constants fn1 cs = (is1, fn')" "is = i # is1"
    using Cons.prems(2) by (auto split: prod.splits)
  note c = cuAddConstant_spec [OF Cons.prems(1) s(1)]
  from Cons.IH [OF c(1) s(2)] have ih: "pool_ok fn'" "length is1 = length cs"
    "take (length (cf_constants fn1)) (cf_constants fn') = cf_constants fn1"
    "\<forall>j < length cs. is1 ! j < length (cf_constants fn') \<and>
       const_same (cf_constants fn' ! (is1 ! j)) (cs ! j)" by blast+
  have len: "length (cf_constants fn1) \<le> length (cf_constants fn')"
    using ih(3) by (metis length_take min.bounded_iff nle_le)
  have "cf_constants fn' ! i = cf_constants fn1 ! i" using ih(3) c(2) by (metis nth_take)
  moreover have "length (cf_constants fn) \<le> length (cf_constants fn1)"
    using c(4) by (metis length_take min.bounded_iff nle_le)
  then have "take (length (cf_constants fn)) (cf_constants fn') = cf_constants fn"
    using ih(3) c(4) by (metis min.absorb1 take_take)
  ultimately show ?case using ih c len s(3) by (auto simp: nth_Cons split: nat.split)
qed simp

section \<open>Properties\<close>

text \<open>
  C17. Whatever constants a function is given, one after the other, each index handed out still
  names, in the final pool, a constant of the value asked for.  No two entries of the pool are the same
  string, boolean, nil or integer of a kind, and no two floats of a kind are equal numbers: an entry that
  occurs twice is a function or a NaN.
\<close>

theorem cuAddConstant_pool:
  "case add_constants cuInitFn cs of (is, fn) \<Rightarrow>
     length is = length cs \<and>
     (\<forall>j < length cs. is ! j < length (cf_constants fn) \<and>
        const_same (cf_constants fn ! (is ! j)) (cs ! j)) \<and>
     (\<forall>j < length (cf_constants fn). \<forall>i < j.
        \<not> same_value (cf_constants fn ! i) (cf_constants fn ! j) \<and>
        (cf_constants fn ! i = cf_constants fn ! j \<longrightarrow>
           (\<exists>f. cf_constants fn ! i = CONST_FUNCTION f) \<or>
           (\<exists>k a. cf_constants fn ! i = CONST_NUMBER k a \<and> isFloatKind k \<and> \<not> f64_eq a a)))"
proof -
  obtain "is" fn where a: "add_constants cuInitFn cs = (is, fn)" by fastforce
  have "(\<exists>f. c = CONST_FUNCTION f) \<or> (\<exists>k a. c = CONST_NUMBER k a \<and> isFloatKind k \<and> \<not> f64_eq a a)"
    if "\<not> same_value c c" for c
    using that by (cases c) (auto split: if_splits)
  with add_constants_spec [OF cuInitFn_pool_ok a] show ?thesis unfolding a pool_ok_def by auto metis
qed

theorem cuAddConstant_pool_witness:
  "add_constants cuInitFn [CONST_NIL, CONST_STRING 3 2, CONST_NIL, CONST_STRING 3 2] =
     ([0, 1, 0, 1], cuInitFn\<lparr>cf_constants := [CONST_NIL, CONST_STRING 3 2]\<rparr>) \<and>
   \<not> same_value CONST_NIL (CONST_STRING 3 2)"
  using cuAddConstant_pool [of "[CONST_NIL, CONST_STRING 3 2, CONST_NIL, CONST_STRING 3 2]"]
  by (simp add: cuAddConstant_def cuInitFn_def)

end
