(* ===== verification/Byte_Codec.thy ===== *)
theory Byte_Codec
  imports Prelude
begin

text \<open>
  Little-endian bytes and the \<open>Reader\<close> of \<^verbatim>\<open>src/unit_bytes.c\<close>: the first problem is kept in the
  status, and after a problem every read gives zero.  The locale \<open>codec\<close> states what a pair of
  an encoder and a decoder promises; lists of items are decoded once for all codecs.
\<close>

section \<open>Little-endian bytes\<close>

definition le_bytes :: "nat \<Rightarrow> 'a::len word \<Rightarrow> bytes" where
  "le_bytes n v = map (\<lambda>i. ucast (drop_bit (8 * i) v)) [0..<n]"

definition le_word :: "bytes \<Rightarrow> 'a::len word" where
  "le_word bs = foldl (\<lambda>v i. v OR push_bit (8 * i) (ucast (bs ! i))) 0 [0..<length bs]"

lemma length_le_bytes [simp]: "length (le_bytes n v) = n"
  by (simp add: le_bytes_def)

lemma foldl_or_cong: "(\<And>i. i \<in> set is \<Longrightarrow> f i = g i) \<Longrightarrow> foldl (\<lambda>v i. v OR f i) z is = foldl (\<lambda>v i. v OR g i) z is"
  for f g :: "nat \<Rightarrow> 'a::len word"
  by (induction "is" arbitrary: z) auto

lemma le_word_snoc: "le_word (bs @ [b]) = le_word bs OR push_bit (8 * length bs) (ucast b)"
proof -
  have "foldl (\<lambda>v i. v OR push_bit (8 * i) (ucast ((bs @ [b]) ! i))) 0 [0..<length bs] =
      foldl (\<lambda>v i. v OR push_bit (8 * i) (ucast (bs ! i) :: 'a word)) 0 [0..<length bs]"
    by (rule foldl_or_cong) (simp add: nth_append)
  then show ?thesis by (simp add: le_word_def)
qed

lemma le_word_Nil [simp]: "le_word [] = 0"
  by (simp add: le_word_def)

lemma bit_le_word:
  "bit (le_word bs :: 'a::len word) j \<longleftrightarrow>
     j < LENGTH('a) \<and> j div 8 < length bs \<and> bit (bs ! (j div 8)) (j mod 8)"
proof (induction bs rule: rev_induct)
  case (snoc b bs)
  have j: "8 * (j div 8) + j mod 8 = j" "j mod 8 < 8" by simp_all
  have "(8 * length bs \<le> j \<and> bit b (j - 8 * length bs)) \<longleftrightarrow> (j div 8 = length bs \<and> bit b (j mod 8))"
  proof
    assume a: "8 * length bs \<le> j \<and> bit b (j - 8 * length bs)"
    then have "j - 8 * length bs < 8" using bit_imp_le_length [of b "j - 8 * length bs"] by simp
    with a have d: "j div 8 = length bs" by (intro div_nat_eqI) auto
    have "j - 8 * length bs = j mod 8" using j(1) unfolding d by linarith
    with a d show "j div 8 = length bs \<and> bit b (j mod 8)" by simp
  next
    assume a: "j div 8 = length bs \<and> bit b (j mod 8)"
    then have "8 * length bs + j mod 8 = j" using j(1) by simp
    then have "8 * length bs \<le> j" "j - 8 * length bs = j mod 8" by linarith+
    with a show "8 * length bs \<le> j \<and> bit b (j - 8 * length bs)" by simp
  qed
  moreover have "bit (push_bit (8 * length bs) (ucast b :: 'a word)) j \<longleftrightarrow>
      j < LENGTH('a) \<and> 8 * length bs \<le> j \<and> bit b (j - 8 * length bs)"
    by (auto simp: bit_push_bit_iff bit_ucast_iff)
  ultimately show ?case
    by (auto simp: le_word_snoc bit_or_iff snoc.IH nth_append less_Suc_eq)
qed simp

lemma nth_le_bytes: "i < n \<Longrightarrow> le_bytes n v ! i = ucast (drop_bit (8 * i) v)"
  by (simp add: le_bytes_def)

lemma le_word_bytes: "le_word (le_bytes n (v :: 'a::len word)) = take_bit (8 * n) v"
proof (rule bit_word_eqI)
  fix j assume j: "j < LENGTH('a)"
  have "8 * (j div 8) + j mod 8 = j" by simp
  then show "bit (le_word (le_bytes n v) :: 'a word) j = bit (take_bit (8 * n) v) j"
    using j by (auto simp: bit_le_word nth_le_bytes bit_ucast_iff bit_drop_bit_eq bit_take_bit_iff)
qed

lemma le_word_bytes_full [simp]: "LENGTH('a) \<le> 8 * n \<Longrightarrow> le_word (le_bytes n (v :: 'a::len word)) = v"
  by (simp add: le_word_bytes take_bit_word_eq_self)

lemma le_bytes_word:
  assumes "length bs = n" "8 * n \<le> LENGTH('a::len)"
  shows "le_bytes n (le_word bs :: 'a word) = bs"
proof (rule nth_equalityI)
  fix i assume i: "i < length (le_bytes n (le_word bs :: 'a word))"
  show "le_bytes n (le_word bs :: 'a word) ! i = bs ! i"
  proof (rule bit_word_eqI)
    fix j assume j: "j < LENGTH(8)"
    then have "(8 * i + j) div 8 = i" "(8 * i + j) mod 8 = j" "8 * i + j < LENGTH('a)"
      using i assms(2) by auto
    then show "bit (le_bytes n (le_word bs :: 'a word) ! i) j = bit (bs ! i) j"
      using i j assms(1) by (simp add: nth_le_bytes bit_ucast_iff bit_drop_bit_eq bit_le_word)
  qed
qed (simp add: assms)

section \<open>Putting\<close>

definition putU8 :: "u8 \<Rightarrow> bytes" where
  "putU8 value = [value]"

definition putU16 :: "u16 \<Rightarrow> bytes" where
  "putU16 value = [ucast (value AND 0xff), ucast (drop_bit 8 value)]"

definition putU32 :: "u32 \<Rightarrow> bytes" where
  "putU32 value = map (\<lambda>i. ucast (drop_bit (8 * i) value AND 0xff)) [0..<4]"

definition putI32 :: "int \<Rightarrow> bytes" where
  "putI32 value = putU32 (word_of_int value)"

definition putDouble :: "u64 \<Rightarrow> bytes" where
  "putDouble bits = map (\<lambda>i. ucast (drop_bit (8 * i) bits AND 0xff)) [0..<8]"

definition putSized :: "u64 \<Rightarrow> nat \<Rightarrow> bytes" where
  "putSized value sz = map (\<lambda>i. ucast (drop_bit (8 * i) value AND 0xff)) [0..<sz]"

lemma ucast_and_mask: "(ucast (v AND 0xff) :: u8) = ucast (v :: 'a::len word)"
proof (rule bit_word_eqI)
  fix j assume "j < LENGTH(8)"
  then show "bit (ucast (v AND 0xff) :: u8) j = bit (ucast v :: u8) j"
    using bit_mask_iff [of 8 j, where ?'a = "'a word"]
    by (auto simp: bit_ucast_iff bit_and_iff mask_eq_exp_minus_1 dest: bit_imp_le_length)
qed

lemma put_le_bytes:
  "putU16 w = le_bytes 2 w" "putU32 x = le_bytes 4 x" "putDouble y = le_bytes 8 y"
  "putSized z n = le_bytes n z"
  by (simp_all add: putU16_def putU32_def putDouble_def putSized_def le_bytes_def ucast_and_mask
      upt_rec numeral_2_eq_2)

section \<open>Reading\<close>

datatype UnitDecodeStatus =
    UNIT_DECODE_OK
  | UNIT_DECODE_TRUNCATED
  | UNIT_DECODE_BAD_MAGIC
  | UNIT_DECODE_BAD_FORMAT_VERSION
  | UNIT_DECODE_VERSION_MISMATCH
  | UNIT_DECODE_INVALID

record Reader =
  rd_data :: bytes
  rd_position :: nat
  rd_status :: UnitDecodeStatus

abbreviation rd_length :: "Reader \<Rightarrow> nat" where
  "rd_length r \<equiv> length (rd_data r)"

definition rd_fail :: "Reader \<Rightarrow> UnitDecodeStatus \<Rightarrow> Reader" where
  "rd_fail r status = (if rd_status r = UNIT_DECODE_OK then r\<lparr>rd_status := status\<rparr> else r)"

definition rd_take :: "Reader \<Rightarrow> nat \<Rightarrow> bytes option \<times> Reader" where
  "rd_take r count =
     (if rd_status r \<noteq> UNIT_DECODE_OK then (None, r)
      else if count > rd_length r - rd_position r then (None, rd_fail r UNIT_DECODE_TRUNCATED)
      else (Some (take count (drop (rd_position r) (rd_data r))), r\<lparr>rd_position := rd_position r + count\<rparr>))"

definition readU8 :: "Reader \<Rightarrow> u8 \<times> Reader" where
  "readU8 r = (case rd_take r 1 of (None, r) \<Rightarrow> (0, r) | (Some bs, r) \<Rightarrow> (bs ! 0, r))"

definition readU16 :: "Reader \<Rightarrow> u16 \<times> Reader" where
  "readU16 r =
     (case rd_take r 2 of
        (None, r) \<Rightarrow> (0, r)
      | (Some bs, r) \<Rightarrow> (ucast (bs ! 0) OR push_bit 8 (ucast (bs ! 1)), r))"

definition readU32 :: "Reader \<Rightarrow> u32 \<times> Reader" where
  "readU32 r =
     (case rd_take r 4 of
        (None, r) \<Rightarrow> (0, r)
      | (Some bs, r) \<Rightarrow>
          (ucast (bs ! 0) OR push_bit 8 (ucast (bs ! 1)) OR push_bit 16 (ucast (bs ! 2)) OR
             push_bit 24 (ucast (bs ! 3)), r))"

definition readI32 :: "Reader \<Rightarrow> int \<times> Reader" where
  "readI32 r = (case readU32 r of (w, r) \<Rightarrow> (sint w, r))"

definition readSized :: "Reader \<Rightarrow> nat \<Rightarrow> u64 \<times> Reader" where
  "readSized r sz =
     (case rd_take r sz of
        (None, r) \<Rightarrow> (0, r)
      | (Some bs, r) \<Rightarrow> (foldl (\<lambda>v i. v OR push_bit (8 * i) (ucast (bs ! i))) 0 [0..<sz], r))"

definition readDouble :: "Reader \<Rightarrow> u64 \<times> Reader" where
  "readDouble r =
     (case rd_take r 8 of
        (None, r) \<Rightarrow> (0, r)
      | (Some bs, r) \<Rightarrow> (foldl (\<lambda>v i. v OR push_bit (8 * i) (ucast (bs ! i))) 0 [0..<8], r))"

definition countFits :: "Reader \<Rightarrow> u32 \<Rightarrow> nat \<Rightarrow> bool \<times> Reader" where
  "countFits r count bytesEach =
     (if rd_status r \<noteq> UNIT_DECODE_OK then (False, r)
      else if unat count > 2147483647 then (False, rd_fail r UNIT_DECODE_INVALID)
      else if unat count > (rd_length r - rd_position r) div bytesEach
      then (False, rd_fail r UNIT_DECODE_TRUNCATED)
      else (True, r))"

text \<open>
  A loop of the decoder that reads \<open>n\<close> items.  \<open>stops\<close> is its early return: the items it did not
  reach are not in the list, and the unit is rejected.
\<close>

fun readMany :: "(Reader \<Rightarrow> bool) \<Rightarrow> nat \<Rightarrow> (Reader \<Rightarrow> 'a \<times> Reader) \<Rightarrow> Reader \<Rightarrow> 'a list \<times> Reader" where
  "readMany stops 0 dec r = ([], r)"
| "readMany stops (Suc n) dec r =
     (let (x, r) = dec r
      in if stops r then ([x], r) else let (xs, r) = readMany stops n dec r in (x # xs, r))"

section \<open>What a decoder promises\<close>

text \<open>The reader stands before the bytes \<open>bs\<close>.\<close>

definition at_bytes :: "Reader \<Rightarrow> bytes \<Rightarrow> bool" where
  "at_bytes r bs \<longleftrightarrow> rd_status r = UNIT_DECODE_OK \<and> rd_position r \<le> rd_length r \<and>
     drop (rd_position r) (rd_data r) = bs"

definition move_reader :: "Reader \<Rightarrow> nat \<Rightarrow> Reader" where
  "move_reader r n = r\<lparr>rd_position := rd_position r + n\<rparr>"

lemma move_reader_simps [simp]:
  "rd_data (move_reader r n) = rd_data r" "rd_status (move_reader r n) = rd_status r"
  "rd_position (move_reader r n) = rd_position r + n" "move_reader r 0 = r"
  "move_reader (move_reader r m) n = move_reader r (m + n)"
  by (simp_all add: move_reader_def add.assoc)

lemma at_bytes_advance: "at_bytes r (xs @ ys) \<Longrightarrow> at_bytes (move_reader r (length xs)) ys"
proof -
  assume a: "at_bytes r (xs @ ys)"
  then have "length (drop (rd_position r) (rd_data r)) = length xs + length ys"
    by (simp add: at_bytes_def)
  moreover have "drop (length xs) (drop (rd_position r) (rd_data r)) = ys"
    using a by (simp add: at_bytes_def)
  ultimately show ?thesis using a by (auto simp: at_bytes_def add.commute)
qed

lemma at_bytes_status: "at_bytes r bs \<Longrightarrow> rd_status r = UNIT_DECODE_OK"
  by (simp add: at_bytes_def)

lemma at_bytes_remaining: "at_bytes r bs \<Longrightarrow> rd_length r - rd_position r = length bs"
  unfolding at_bytes_def by (metis length_drop)

lemma rd_take_at: "at_bytes r (xs @ ys) \<Longrightarrow> length xs = n \<Longrightarrow> rd_take r n = (Some xs, move_reader r n)"
  using at_bytes_remaining [of r "xs @ ys"]
  by (auto simp: rd_take_def move_reader_def at_bytes_def)

lemma rd_fail_status [simp]: "s \<noteq> UNIT_DECODE_OK \<Longrightarrow> rd_status (rd_fail r s) \<noteq> UNIT_DECODE_OK"
  by (simp add: rd_fail_def)

lemma rd_fail_sticky [simp]: "rd_status r \<noteq> UNIT_DECODE_OK \<Longrightarrow> rd_fail r s = r"
  by (simp add: rd_fail_def)

lemma rd_take_sticky [simp]: "rd_status r \<noteq> UNIT_DECODE_OK \<Longrightarrow> rd_take r n = (None, r)"
  by (simp add: rd_take_def)

lemma rd_take_exact:
  assumes "rd_take r n = (res, r')" "rd_status r' = UNIT_DECODE_OK" "rd_position r \<le> rd_length r"
  shows "\<exists>xs ys. res = Some xs \<and> length xs = n \<and> at_bytes r (xs @ ys) \<and> r' = move_reader r n"
proof -
  have c: "rd_status r = UNIT_DECODE_OK" "n \<le> rd_length r - rd_position r"
    "res = Some (take n (drop (rd_position r) (rd_data r)))" "r' = move_reader r n"
    using assms(1,2) by (auto simp: rd_take_def move_reader_def split: if_splits)
  then have "at_bytes r (take n (drop (rd_position r) (rd_data r)) @ drop n (drop (rd_position r) (rd_data r)))"
    using assms(3) unfolding at_bytes_def append_take_drop_id by simp
  with c show ?thesis
    by (intro exI [of _ "take n (drop (rd_position r) (rd_data r))"]
        exI [of _ "drop n (drop (rd_position r) (rd_data r))"]) simp
qed

text \<open>The reader \<open>r'\<close> is \<open>r\<close> after the bytes \<open>xs\<close>.\<close>

definition reads :: "Reader \<Rightarrow> bytes \<Rightarrow> Reader \<Rightarrow> bool" where
  "reads r xs r' \<longleftrightarrow> (\<exists>bs. at_bytes r (xs @ bs)) \<and> r' = move_reader r (length xs)"

lemma reads_trans [trans]: "reads r xs r1 \<Longrightarrow> reads r1 ys r2 \<Longrightarrow> reads r (xs @ ys) r2"
proof -
  assume a: "reads r xs r1" "reads r1 ys r2"
  then obtain bs cs where b: "at_bytes r (xs @ bs)" "r1 = move_reader r (length xs)"
    "at_bytes r1 (ys @ cs)" "r2 = move_reader r1 (length ys)" by (auto simp: reads_def)
  then have "bs = ys @ cs" using at_bytes_advance [OF b(1)] by (simp add: at_bytes_def)
  with b show ?thesis by (auto simp: reads_def)
qed

lemma reads_position: "reads r xs r' \<Longrightarrow> rd_position r' \<le> rd_length r'"
  using at_bytes_advance by (fastforce simp: reads_def at_bytes_def)

lemma reads_status: "reads r xs r' \<Longrightarrow> rd_status r' = UNIT_DECODE_OK"
  by (auto simp: reads_def at_bytes_def)

lemma reads_remaining: "reads r xs r' \<Longrightarrow> length xs + (rd_length r' - rd_position r') = rd_length r - rd_position r"
proof -
  assume a: "reads r xs r'"
  then obtain bs where b: "at_bytes r (xs @ bs)" "r' = move_reader r (length xs)" by (auto simp: reads_def)
  show ?thesis using at_bytes_remaining [OF b(1)] b(2) by simp
qed

lemma rd_take_reads:
  assumes "rd_take r n = (res, r')" "rd_status r' = UNIT_DECODE_OK" "rd_position r \<le> rd_length r"
  obtains xs where "res = Some xs" "length xs = n" "reads r xs r'"
  using rd_take_exact [OF assms] by (auto simp: reads_def)

locale codec =
  fixes enc :: "'a \<Rightarrow> bytes" and dec :: "Reader \<Rightarrow> 'a \<times> Reader" and ok :: "'a \<Rightarrow> bool"
  assumes sticky: "rd_status r \<noteq> UNIT_DECODE_OK \<Longrightarrow> snd (dec r) = r"
    and roundtrip: "ok x \<Longrightarrow> at_bytes r (enc x @ bs) \<Longrightarrow> dec r = (x, move_reader r (length (enc x)))"
    and exact: "dec r = (x, r') \<Longrightarrow> rd_status r' = UNIT_DECODE_OK \<Longrightarrow> rd_position r \<le> rd_length r \<Longrightarrow>
      ok x \<and> reads r (enc x) r'"
begin

lemma ok_before: "dec r = (x, r') \<Longrightarrow> rd_status r' = UNIT_DECODE_OK \<Longrightarrow> rd_status r = UNIT_DECODE_OK"
  using sticky [of r] by fastforce

lemma many_sticky:
  "rd_status r \<noteq> UNIT_DECODE_OK \<Longrightarrow> snd (readMany stops n dec r) = r"
proof (induction n arbitrary: r)
  case (Suc n)
  then show ?case using sticky [OF Suc.prems] by (auto simp: Let_def split: prod.split) (metis snd_conv)+
qed simp

lemma many_roundtrip:
  assumes stops: "\<And>r. stops r \<Longrightarrow> rd_status r \<noteq> UNIT_DECODE_OK"
  shows "\<forall>x \<in> set xs. ok x \<Longrightarrow> at_bytes r (concat (map enc xs) @ bs) \<Longrightarrow>
     readMany stops (length xs) dec r = (xs, move_reader r (length (concat (map enc xs))))"
proof (induction xs arbitrary: r)
  case (Cons x xs)
  then have at: "at_bytes r (enc x @ (concat (map enc xs) @ bs))" by simp
  have d: "dec r = (x, move_reader r (length (enc x)))" using roundtrip [OF _ at] Cons.prems(1) by simp
  have "\<not> stops (move_reader r (length (enc x)))"
    using stops [of "move_reader r (length (enc x))"] at_bytes_status [OF at] by auto
  with Cons.IH [OF _ at_bytes_advance [OF at]] Cons.prems(1) show ?case by (simp add: d)
qed simp

lemma many_exact:
  "(\<And>r. stops r \<Longrightarrow> rd_status r \<noteq> UNIT_DECODE_OK) \<Longrightarrow> readMany stops n dec r = (xs, r') \<Longrightarrow>
   rd_status r' = UNIT_DECODE_OK \<Longrightarrow> rd_position r \<le> rd_length r \<Longrightarrow>
     length xs = n \<and> (\<forall>x \<in> set xs. ok x) \<and> reads r (concat (map enc xs)) r'"
proof (induction n arbitrary: r xs)
  case 0
  then show ?case by (simp add: reads_def at_bytes_def)
next
  case (Suc n)
  obtain x r1 where d: "dec r = (x, r1)" by fastforce
  have ns: "\<not> stops r1" using Suc.prems(1-3) d by (auto simp: Let_def split: if_splits)
  obtain ys r2 where y: "readMany stops n dec r1 = (ys, r2)" by fastforce
  have eq: "xs = x # ys" "r2 = r'" using Suc.prems(2) d y ns by (auto simp: Let_def)
  have st: "rd_status r1 = UNIT_DECODE_OK"
    using many_sticky [of r1 stops n] y eq Suc.prems(3) by fastforce
  note x = exact [OF d st Suc.prems(4)]
  from Suc.IH [OF Suc.prems(1) y [unfolded eq(2)] Suc.prems(3) reads_position [OF conjunct2 [OF x]]]
  show ?case using x eq by (auto intro: reads_trans)
qed

lemma many_codec:
  assumes "\<And>r. stops r \<Longrightarrow> rd_status r \<noteq> UNIT_DECODE_OK"
  shows "codec (\<lambda>xs. concat (map enc xs)) (readMany stops n dec) (\<lambda>xs. length xs = n \<and> (\<forall>x \<in> set xs. ok x))"
proof
  show "snd (readMany stops n dec r) = r" if "rd_status r \<noteq> UNIT_DECODE_OK" for r
    by (rule many_sticky [OF that])
  show "readMany stops n dec r = (xs, move_reader r (length (concat (map enc xs))))"
    if "length xs = n \<and> (\<forall>x \<in> set xs. ok x)" "at_bytes r (concat (map enc xs) @ bs)" for xs r bs
    using many_roundtrip [OF assms, where xs = xs and r = r and bs = bs] that by auto
qed (use many_exact [OF assms] in blast)

end

section \<open>The primitive codecs\<close>

text \<open>A fixed number of bytes turned into a value.\<close>

lemma fixed_codec:
  assumes dec: "\<And>r. dec r = (case rd_take r n of (None, r) \<Rightarrow> (z, r) | (Some bs, r) \<Rightarrow> (f bs, r))"
    and len: "\<And>x. ok x \<Longrightarrow> length (enc x) = n"
    and there_ok: "\<And>x. ok x \<Longrightarrow> f (enc x) = x"
    and back_ok: "\<And>bs. length bs = n \<Longrightarrow> ok (f bs) \<and> enc (f bs) = bs"
  shows "codec enc dec ok"
proof
  show "snd (dec r) = r" if "rd_status r \<noteq> UNIT_DECODE_OK" for r using that by (simp add: dec)
  show "dec r = (x, move_reader r (length (enc x)))" if "ok x" "at_bytes r (enc x @ bs)" for x r bs
    using rd_take_at [OF that(2) len [OF that(1)]] that(1) len there_ok by (simp add: dec)
  show "ok x \<and> reads r (enc x) r'"
    if a: "dec r = (x, r')" "rd_status r' = UNIT_DECODE_OK" "rd_position r \<le> rd_length r" for x r r'
  proof -
    obtain res r1 where t: "rd_take r n = (res, r1)" by fastforce
    have "r1 = r'" using a(1) t by (auto simp: dec split: option.splits)
    with rd_take_reads [OF t _ a(3)] a(2) obtain xs where
      "res = Some xs" "length xs = n" "reads r xs r'" by blast
    with a(1) t back_ok show ?thesis by (auto simp: dec)
  qed
qed

abbreviation anything :: "'a \<Rightarrow> bool" where
  "anything \<equiv> \<lambda>_. True"

definition in_i32 :: "int \<Rightarrow> bool" where
  "in_i32 x \<longleftrightarrow> - (2 ^ 31) \<le> x \<and> x < 2 ^ 31"

lemma sint_i32: "in_i32 x \<Longrightarrow> sint (word_of_int x :: u32) = x"
  by (simp add: in_i32_def sint_sbintrunc' signed_take_bit_int_eq_self)

lemma in_i32_sint: "in_i32 (sint (w :: u32))"
  using sint_ge [of w] sint_less [of w] by (simp add: in_i32_def)

lemma le_word_explicit:
  "length bs = 2 \<Longrightarrow> le_word bs = ucast (bs ! 0) OR push_bit 8 (ucast (bs ! 1))"
  "length bs = 4 \<Longrightarrow> le_word bs = ucast (bs ! 0) OR push_bit 8 (ucast (bs ! 1)) OR
     push_bit 16 (ucast (bs ! 2)) OR push_bit 24 (ucast (bs ! 3))"
  by (simp_all add: le_word_def upt_rec or.assoc eval_nat_numeral)

lemma rd_take_length: "rd_take r n = (Some bs, r') \<Longrightarrow> length bs = n"
  by (auto simp: rd_take_def split: if_splits)

interpretation u8_codec: codec putU8 readU8 anything
  by (rule fixed_codec [where n = 1 and f = "\<lambda>bs. bs ! 0" and z = 0])
    (auto simp: readU8_def putU8_def length_Suc_conv)

interpretation u16_codec: codec putU16 readU16 anything
proof (rule fixed_codec [where n = 2 and f = le_word and z = 0])
  show "readU16 r = (case rd_take r 2 of (None, r) \<Rightarrow> (0, r) | (Some bs, r) \<Rightarrow> (le_word bs, r))" for r
    by (auto simp: readU16_def le_word_explicit dest: rd_take_length split: option.split prod.split)
qed (auto simp: put_le_bytes le_bytes_word)

lemma readU32_le: "readU32 r = (case rd_take r 4 of (None, r) \<Rightarrow> (0, r) | (Some bs, r) \<Rightarrow> (le_word bs, r))"
  by (auto simp: readU32_def le_word_explicit dest: rd_take_length split: option.split prod.split)

interpretation u32_codec: codec putU32 readU32 anything
  by (rule fixed_codec [where n = 4 and f = le_word and z = 0])
    (auto simp: put_le_bytes le_bytes_word readU32_le)

interpretation i32_codec: codec putI32 readI32 in_i32
  by (rule fixed_codec [where n = 4 and f = "\<lambda>bs. sint (le_word bs :: u32)" and z = 0])
    (auto simp: put_le_bytes le_bytes_word readI32_def readU32_le putI32_def sint_i32 in_i32_sint
      split: option.split prod.split)

interpretation double_codec: codec putDouble readDouble anything
proof (rule fixed_codec [where n = 8 and f = le_word and z = 0])
  show "readDouble r = (case rd_take r 8 of (None, r) \<Rightarrow> (0, r) | (Some bs, r) \<Rightarrow> (le_word bs, r))" for r
    by (auto simp: readDouble_def le_word_def rd_take_def)
qed (auto simp: put_le_bytes le_bytes_word)

lemma sized_codec:
  assumes "n \<le> 8"
  shows "codec (\<lambda>v. putSized v n) (\<lambda>r. readSized r n) (\<lambda>v. take_bit (8 * n) v = v)"
proof (rule fixed_codec [where n = n and f = le_word and z = 0])
  show "readSized r n = (case rd_take r n of (None, r) \<Rightarrow> (0, r) | (Some bs, r) \<Rightarrow> (le_word bs, r))" for r
    by (auto simp: readSized_def le_word_def rd_take_def)
  show "take_bit (8 * n) (le_word bs :: u64) = le_word bs \<and> putSized (le_word bs) n = bs"
    if "length bs = n" for bs
    using \<open>n \<le> 8\<close> that le_word_bytes [of n "le_word bs :: u64"]
    by (simp add: put_le_bytes le_bytes_word)
qed (auto simp: put_le_bytes le_word_bytes)

end
