(* ===== verification/Unit_Bytes.thy ===== *)
theory Unit_Bytes
  imports Compiled_Unit Byte_Codec
begin

text \<open>
  The byte form of a compiled unit, \<^verbatim>\<open>src/unit_bytes.c\<close>.  The version string of the build,
  \<^verbatim>\<open>KIRBY_VERSION\<close>, is generated and a parameter here.  Arrays that the decoder leaves unfinished
  when it rejects a unit are given up to the point it reached.
\<close>

definition MAGIC :: bytes where
  "MAGIC = [0x4b, 0x52, 0x42, 0x43]"

definition UNIT_BYTES_FORMAT_VERSION :: u16 where
  "UNIT_BYTES_FORMAT_VERSION = 3"

definition MIN_FUNCTION_BYTES :: nat where
  "MIN_FUNCTION_BYTES = 4 + 4 + 1 + 4 + 4 + 4 + 4 + 4"

section \<open>Encoding\<close>

fun const_kind :: "CompiledConst \<Rightarrow> u8" where
  "const_kind (CONST_NUMBER _ _) = 0"
| "const_kind (CONST_BOOL _) = 1"
| "const_kind CONST_NIL = 2"
| "const_kind (CONST_STRING _ _) = 3"
| "const_kind (CONST_FUNCTION _) = 4"

definition encodeConstant :: "CompiledConst \<Rightarrow> bytes" where
  "encodeConstant c =
     putU8 (const_kind c) @
     (case c of
        CONST_NUMBER k p \<Rightarrow>
          putU8 (word_of_nat (kind_ordinal k)) @
          (if isFloatKind k then putDouble p else putSized p (ki_size (numberKindInfo k)))
      | CONST_BOOL b \<Rightarrow> putU8 (if b then 1 else 0)
      | CONST_NIL \<Rightarrow> []
      | CONST_STRING off len \<Rightarrow> putI32 off @ putI32 len
      | CONST_FUNCTION i \<Rightarrow> putI32 i)"

definition encodeUpvalue :: "CompiledUpvalue \<Rightarrow> bytes" where
  "encodeUpvalue u = putU8 (if cv_isLocal u then 1 else 0) @ putU8 (cv_index u)"

definition fn_flags :: "CompiledFn \<Rightarrow> u8" where
  "fn_flags fn = (if cf_isStatic fn then 1 else 0) OR (if cf_isPublic fn then 2 else 0)"

definition encodeFunction :: "CompiledFn \<Rightarrow> bytes" where
  "encodeFunction fn =
     putI32 (cf_arity fn) @ putI32 (cf_upvalueCount fn) @ putU8 (fn_flags fn) @
     putI32 (cf_nameOffset fn) @ putI32 (cf_nameLength fn) @
     putU32 (word_of_nat (length (cf_code fn))) @ cf_code fn @ concat (map putI32 (cf_codeLines fn)) @
     putU32 (word_of_nat (length (cf_constants fn))) @ concat (map encodeConstant (cf_constants fn)) @
     putU32 (word_of_nat (length (cf_upvalues fn))) @ concat (map encodeUpvalue (cf_upvalues fn))"

definition unitEncode :: "bytes \<Rightarrow> CompiledUnit \<Rightarrow> bytes" where
  "unitEncode version unit =
     MAGIC @ putU16 UNIT_BYTES_FORMAT_VERSION @
     putU8 (word_of_nat (length version)) @ version @
     putU32 (word_of_nat (length (ss_arena (cu_strings unit)))) @ ss_arena (cu_strings unit) @
     putU32 (word_of_nat (length (cu_functions unit))) @ concat (map encodeFunction (cu_functions unit))"

section \<open>Decoding\<close>

definition rangeInside :: "int \<Rightarrow> int \<Rightarrow> nat \<Rightarrow> bool" where
  "rangeInside offset len limit \<longleftrightarrow> offset \<ge> 0 \<and> len \<ge> 0 \<and> offset + len \<le> int limit"

text \<open>What \<open>calloc\<close> leaves in a constant and in a function.\<close>

definition zero_const :: CompiledConst where
  "zero_const = CONST_NUMBER NUMBER_KIND_I64 0"

definition zero_fn :: CompiledFn where
  "zero_fn = cuInitFn\<lparr>cf_nameLength := 0\<rparr>"

definition fail_unless :: "bool \<Rightarrow> Reader \<Rightarrow> Reader" where
  "fail_unless b r = (if b then r else rd_fail r UNIT_DECODE_INVALID)"

definition readConstant :: "nat \<Rightarrow> nat \<Rightarrow> Reader \<Rightarrow> CompiledConst \<times> Reader" where
  "readConstant arenaLen functionCount r =
     (let (kind, r) = readU8 r
      in if kind = 0 then
           let (numberKind, r) = readU8 r
           in case kind_of_ordinal (unat numberKind) of
                None \<Rightarrow> (zero_const, rd_fail r UNIT_DECODE_INVALID)
              | Some k \<Rightarrow>
                  if isFloatKind k then let (d, r) = readDouble r in (CONST_NUMBER k d, r)
                  else
                    let sz = ki_size (numberKindInfo k);
                        (raw, r) = readSized r sz;
                        raw = (if isSignedKind k \<and> sz < 8
                               then let signBit = push_bit (sz * 8 - 1) 1 in (raw XOR signBit) - signBit
                               else raw)
                    in (CONST_NUMBER k raw, r)
         else if kind = 1 then
           let (value, r) = readU8 r in (CONST_BOOL (value = 1), fail_unless (value \<le> 1) r)
         else if kind = 2 then (CONST_NIL, r)
         else if kind = 3 then
           let (offset, r) = readI32 r;
               (len, r) = readI32 r
           in (CONST_STRING offset len, fail_unless (rangeInside offset len arenaLen) r)
         else if kind = 4 then
           let (index, r) = readI32 r
           in (CONST_FUNCTION index, fail_unless (0 \<le> index \<and> index < int functionCount) r)
         else (zero_const, rd_fail r UNIT_DECODE_INVALID))"

definition readUpvalue :: "Reader \<Rightarrow> CompiledUpvalue \<times> Reader" where
  "readUpvalue r =
     (let (isLocal, r) = readU8 r
      in if isLocal > 1 then (\<lparr>cv_isLocal = False, cv_index = 0\<rparr>, rd_fail r UNIT_DECODE_INVALID)
         else let (index, r) = readU8 r in (\<lparr>cv_isLocal = (isLocal = 1), cv_index = index\<rparr>, r))"

text \<open>The fixed fields of a function, and their checks.\<close>

definition readHeader :: "nat \<Rightarrow> Reader \<Rightarrow> CompiledFn \<times> Reader" where
  "readHeader arenaLen r =
     (let (arity, r) = readI32 r;
          (upvalueCount, r) = readI32 r;
          (flags, r) = readU8 r;
          (nameOffset, r) = readI32 r;
          (nameLength, r) = readI32 r;
          fn = zero_fn\<lparr>cf_arity := arity, cf_upvalueCount := upvalueCount,
                 cf_isStatic := flags AND 1 \<noteq> 0, cf_isPublic := flags AND 2 \<noteq> 0,
                 cf_nameOffset := nameOffset, cf_nameLength := nameLength\<rparr>
      in if rd_status r \<noteq> UNIT_DECODE_OK then (fn, r)
         else if flags AND NOT 3 \<noteq> 0 \<or> arity < 0 \<or> upvalueCount < 0 \<or>
                 (nameLength \<ge> 0 \<and> \<not> rangeInside nameOffset nameLength arenaLen)
         then (fn, rd_fail r UNIT_DECODE_INVALID)
         else (fn, r))"

text \<open>A count, its plausibility check, and that many items.\<close>

definition readCounted ::
    "(Reader \<Rightarrow> bool) \<Rightarrow> nat \<Rightarrow> (Reader \<Rightarrow> 'a \<times> Reader) \<Rightarrow> Reader \<Rightarrow> 'a list \<times> Reader" where
  "readCounted stops bytesEach dec r =
     (let (count, r) = readU32 r;
          (fits, r) = countFits r count bytesEach
      in if \<not> fits then ([], r) else readMany stops (unat count) dec r)"

definition readCode :: "Reader \<Rightarrow> (bytes \<times> int list) \<times> Reader" where
  "readCode r =
     (let (codeCount, r) = readU32 r;
          (fits, r) = countFits r codeCount (1 + 4)
      in if \<not> fits then (([], []), r)
         else
           let (code, r) = rd_take r (unat codeCount);
               (lines, r) = readMany (\<lambda>_. False) (unat codeCount) readI32 r
           in ((case code of Some c \<Rightarrow> c | None \<Rightarrow> replicate (unat codeCount) 0, lines), r))"

definition failed :: "Reader \<Rightarrow> bool" where
  "failed r \<longleftrightarrow> rd_status r \<noteq> UNIT_DECODE_OK"

definition readFunction :: "nat \<Rightarrow> nat \<Rightarrow> Reader \<Rightarrow> CompiledFn \<times> Reader" where
  "readFunction arenaLen functionCount r =
     (let (fn, r) = readHeader arenaLen r
      in if failed r then (fn, r)
         else
           let ((code, lines), r) = readCode r;
               fn = fn\<lparr>cf_code := code, cf_codeLines := lines\<rparr>
           in if failed r then (fn, r)
              else
                let (constants, r) = readCounted failed 1 (readConstant arenaLen functionCount) r;
                    fn = fn\<lparr>cf_constants := constants\<rparr>
                in if failed r then (fn, r)
                   else
                     let (upvalues, r) =
                           readCounted (\<lambda>r. rd_status r = UNIT_DECODE_INVALID) 2 readUpvalue r
                     in (fn\<lparr>cf_upvalues := upvalues\<rparr>, r))"

definition check :: "bool \<Rightarrow> UnitDecodeStatus \<Rightarrow> Reader \<Rightarrow> Reader" where
  "check b status r = (if rd_status r = UNIT_DECODE_OK \<and> \<not> b then rd_fail r status else r)"

definition unitDecode :: "bytes \<Rightarrow> bytes \<Rightarrow> CompiledUnit option \<times> UnitDecodeStatus" where
  "unitDecode KIRBY_VERSION data =
     (let r = \<lparr>rd_data = data, rd_position = 0, rd_status = UNIT_DECODE_OK\<rparr>;
          (magic, r) = rd_take r 4;
          r = (case magic of Some m \<Rightarrow> check (m = MAGIC) UNIT_DECODE_BAD_MAGIC r | None \<Rightarrow> r);
          (formatVersion, r) = readU16 r;
          r = check (formatVersion = UNIT_BYTES_FORMAT_VERSION) UNIT_DECODE_BAD_FORMAT_VERSION r;
          (versionLength, r) = readU8 r;
          (version, r) = rd_take r (unat versionLength);
          r = (case version of
                 Some v \<Rightarrow> check (unat versionLength = length KIRBY_VERSION \<and> v = KIRBY_VERSION)
                            UNIT_DECODE_VERSION_MISMATCH r
               | None \<Rightarrow> r);
          (blobLength, r) = readU32 r;
          r = check (unat blobLength \<le> 2147483647) UNIT_DECODE_INVALID r;
          (blob, r) = rd_take r (unat blobLength);
          (functionCount, r) = readU32 r;
          r = check (functionCount \<noteq> 0) UNIT_DECODE_INVALID r;
          (fits, r) = countFits r functionCount MIN_FUNCTION_BYTES
      in if \<not> fits then (None, rd_status r)
         else
           let arena = (case blob of Some b \<Rightarrow> b | None \<Rightarrow> []);
               strings = stringSetInit\<lparr>ss_arena := arena, ss_arenaCapacity := length arena\<rparr>;
               (functions, r) =
                 readMany failed (unat functionCount) (readFunction (length arena) (unat functionCount)) r
           in if failed r then (None, rd_status r)
              else if rd_position r \<noteq> rd_length r then (None, UNIT_DECODE_INVALID)
              else (Some \<lparr>cu_strings = strings, cu_functions = functions\<rparr>, UNIT_DECODE_OK))"

section \<open>Well-formed units\<close>

definition const_ok :: "nat \<Rightarrow> nat \<Rightarrow> CompiledConst \<Rightarrow> bool" where
  "const_ok arenaLen functionCount c \<longleftrightarrow>
     (case c of
        CONST_NUMBER k p \<Rightarrow> payload_ok k p
      | CONST_STRING off len \<Rightarrow> rangeInside off len arenaLen \<and> in_i32 off \<and> in_i32 len
      | CONST_FUNCTION i \<Rightarrow> 0 \<le> i \<and> i < int functionCount \<and> in_i32 i
      | _ \<Rightarrow> True)"

definition header_ok :: "nat \<Rightarrow> CompiledFn \<Rightarrow> bool" where
  "header_ok arenaLen fn \<longleftrightarrow>
     0 \<le> cf_arity fn \<and> in_i32 (cf_arity fn) \<and> 0 \<le> cf_upvalueCount fn \<and> in_i32 (cf_upvalueCount fn) \<and>
     in_i32 (cf_nameOffset fn) \<and> in_i32 (cf_nameLength fn) \<and>
     (cf_nameLength fn \<ge> 0 \<longrightarrow> rangeInside (cf_nameOffset fn) (cf_nameLength fn) arenaLen)"

definition code_ok :: "bytes \<times> int list \<Rightarrow> bool" where
  "code_ok cl \<longleftrightarrow> length (fst cl) = length (snd cl) \<and> length (fst cl) \<le> 2147483647 \<and>
     (\<forall>l \<in> set (snd cl). in_i32 l)"

definition fn_ok :: "nat \<Rightarrow> nat \<Rightarrow> CompiledFn \<Rightarrow> bool" where
  "fn_ok arenaLen functionCount fn \<longleftrightarrow>
     header_ok arenaLen fn \<and> code_ok (cf_code fn, cf_codeLines fn) \<and>
     length (cf_constants fn) \<le> 2147483647 \<and>
     (\<forall>c \<in> set (cf_constants fn). const_ok arenaLen functionCount c) \<and>
     length (cf_upvalues fn) \<le> 2147483647"

definition unit_ok :: "CompiledUnit \<Rightarrow> bool" where
  "unit_ok u \<longleftrightarrow>
     cu_functions u \<noteq> [] \<and> length (cu_functions u) \<le> 2147483647 \<and>
     length (ss_arena (cu_strings u)) \<le> 2147483647 \<and>
     (\<forall>fn \<in> set (cu_functions u). fn_ok (length (ss_arena (cu_strings u))) (length (cu_functions u)) fn)"

text \<open>A decoded unit has the strings' bytes but not the table that was used to intern them.\<close>

definition unit_wire :: "CompiledUnit \<Rightarrow> CompiledUnit" where
  "unit_wire u =
     u\<lparr>cu_strings := stringSetInit\<lparr>ss_arena := ss_arena (cu_strings u),
                       ss_arenaCapacity := length (ss_arena (cu_strings u))\<rparr>\<rparr>"

section \<open>Constants\<close>

lemma read_sticky:
  "rd_status r \<noteq> UNIT_DECODE_OK \<Longrightarrow> readU8 r = (0, r)"
  "rd_status r \<noteq> UNIT_DECODE_OK \<Longrightarrow> readU16 r = (0, r)"
  "rd_status r \<noteq> UNIT_DECODE_OK \<Longrightarrow> readU32 r = (0, r)"
  "rd_status r \<noteq> UNIT_DECODE_OK \<Longrightarrow> readI32 r = (0, r)"
  "rd_status r \<noteq> UNIT_DECODE_OK \<Longrightarrow> readSized r n = (0, r)"
  "rd_status r \<noteq> UNIT_DECODE_OK \<Longrightarrow> readDouble r = (0, r)"
  "rd_status r \<noteq> UNIT_DECODE_OK \<Longrightarrow> countFits r w n = (False, r)"
  by (simp_all add: readU8_def readU16_def readU32_def readI32_def readSized_def readDouble_def
      countFits_def)

lemma fail_unless_status: "rd_status (fail_unless b r) = UNIT_DECODE_OK \<longleftrightarrow> b \<and> rd_status r = UNIT_DECODE_OK"
  by (simp add: fail_unless_def)

lemma fail_unless_ok [simp]: "b \<Longrightarrow> fail_unless b r = r"
  by (simp add: fail_unless_def)

lemma failed_sticky: "failed r \<Longrightarrow> rd_status r \<noteq> UNIT_DECODE_OK"
  by (simp add: failed_def)

text \<open>The bytes of an integer payload are sign-extended when they are read back.\<close>

definition extend_sized :: "NumberKind \<Rightarrow> u64 \<Rightarrow> u64" where
  "extend_sized k raw =
     (if isSignedKind k \<and> ki_size (numberKindInfo k) < 8
      then let signBit = push_bit (ki_size (numberKindInfo k) * 8 - 1) 1 in (raw XOR signBit) - signBit
      else raw)"

lemma take_bit_64 [simp]: "take_bit 64 (w :: u64) = w"
  by (rule take_bit_word_eq_self) simp

lemma truncate_small:
  "ki_size (numberKindInfo k) < 8 \<Longrightarrow>
     truncateRawInteger k w =
       (let r = take_bit (8 * ki_size (numberKindInfo k)) w in
        if isSignedKind k
        then let signBit = push_bit (ki_size (numberKindInfo k) * 8 - 1) 1 in (r XOR signBit) - signBit
        else r)"
  by (simp add: truncateRawInteger_def Let_def take_bit_eq_mask mask_eq_exp_minus_1 push_bit_eq_mult
      mult.commute)

lemma truncate_full: "ki_size (numberKindInfo k) = 8 \<Longrightarrow> truncateRawInteger k w = w"
  by (simp add: truncateRawInteger_def)

lemma kind_size_cases: "ki_size (numberKindInfo k) = 8 \<or> ki_size (numberKindInfo k) < 8"
  by (cases k) simp_all

lemma truncate_signed:
  assumes "isSignedKind k" "ki_size (numberKindInfo k) < 8" "ki_size (numberKindInfo k) * 8 = Suc n"
  shows "truncateRawInteger k w = signed_take_bit n w"
  using assms xor_minus_signed_take_bit [of n w]
  unfolding truncate_small [OF assms(2)] Let_def by (simp add: mult.commute)

lemma extend_sized_truncate:
  "\<not> isFloatKind k \<Longrightarrow> extend_sized k (take_bit (8 * ki_size (numberKindInfo k)) w) = truncateRawInteger k w"
  using kind_size_cases [of k]
  by (auto simp: extend_sized_def truncate_full truncate_small Let_def)

lemma extend_sized_payload:
  assumes "\<not> isFloatKind k" "payload_ok k p"
  shows "extend_sized k (take_bit (8 * ki_size (numberKindInfo k)) p) = p"
  using assms by (simp add: extend_sized_truncate truncateRawInteger_id)

lemma take_bit_truncate:
  "take_bit (8 * ki_size (numberKindInfo k)) (truncateRawInteger k w) =
     take_bit (8 * ki_size (numberKindInfo k)) w"
proof (cases "isSignedKind k \<and> ki_size (numberKindInfo k) < 8")
  case True
  obtain n where n: "ki_size (numberKindInfo k) * 8 = Suc n" by (cases k) auto
  have "take_bit (Suc n) (signed_take_bit n w) = take_bit (Suc n) w"
    by (simp add: take_bit_signed_take_bit)
  with True n show ?thesis by (simp add: truncate_signed mult.commute)
next
  case False
  with kind_size_cases [of k] show ?thesis
    by (auto simp: truncate_full truncate_small Let_def)
qed

lemma truncate_payload_ok:
  assumes "\<not> isFloatKind k"
  shows "payload_ok k (truncateRawInteger k w)"
proof -
  obtain n where n: "ki_size (numberKindInfo k) * 8 = Suc n" by (cases k) auto
  consider (full) "ki_size (numberKindInfo k) = 8" | (s) "isSignedKind k" "ki_size (numberKindInfo k) < 8"
    | (u) "\<not> isSignedKind k" "ki_size (numberKindInfo k) < 8" using kind_size_cases [of k] by blast
  then show ?thesis
  proof cases
    case full
    have "- (2 ^ 63) \<le> sint w" "sint w < 2 ^ 63" "uint w < 2 ^ 64"
      using in_i64_sint [of w] uint_lt2p [of w] by (simp_all add: in_i64_def)
    with full show ?thesis
      by (simp add: truncate_full payload_ok_def in_kind_def int_value_def kind_lo_def kind_hi_def)
  next
    case s
    have "n \<le> 63" using n s(2) by simp
    then have "(2 :: int) ^ n \<le> 2 ^ 63" by (rule power_increasing) simp
    then have "in_i64 (signed_take_bit n (sint w))"
      using signed_take_bit_int_greater_eq_minus_exp [of n "sint w"]
        signed_take_bit_int_less_exp [of n "sint w"] unfolding in_i64_def by linarith
    moreover have "signed_take_bit n w = word_of_int (signed_take_bit n (sint w))"
      using signed_take_bit_of_int [of n "sint w", where ?'a = "64 word"] by simp
    ultimately have "sint (signed_take_bit n w) = signed_take_bit n (sint w)"
      by (simp add: sint_of_int_in)
    then have "- (2 ^ n) \<le> sint (signed_take_bit n w)" "sint (signed_take_bit n w) < 2 ^ n"
      by (simp_all add: signed_take_bit_int_greater_eq_minus_exp signed_take_bit_int_less_exp)
    then show ?thesis
      using s n by (simp add: truncate_signed payload_ok_def in_kind_def int_value_def kind_lo_def kind_hi_def)
  next
    case u
    have "uint (take_bit (8 * ki_size (numberKindInfo k)) w) < 2 ^ (8 * ki_size (numberKindInfo k))"
      by (simp add: unsigned_take_bit_eq)
    then show ?thesis
      using u by (simp add: truncate_small Let_def payload_ok_def in_kind_def int_value_def kind_lo_def
          kind_hi_def mult.commute)
  qed
qed

lemma put_lengths [simp]:
  "length (putU8 a) = 1" "length (putU16 b) = 2" "length (putU32 c) = 4" "length (putI32 i) = 4"
  "length (putDouble d) = 8" "length (putSized e n) = n"
  by (simp_all add: putU8_def putI32_def put_le_bytes)

lemma kind_size_le: "ki_size (numberKindInfo k) \<le> 8"
  by (cases k) simp_all

lemma putSized_take_bit: "putSized (take_bit (8 * n) v) n = putSized v n"
  unfolding put_le_bytes le_bytes_def
  by (rule map_cong)
    (auto intro!: bit_word_eqI simp: bit_ucast_iff bit_drop_bit_eq bit_take_bit_iff)

lemma word_of_ordinal: "unat (word_of_nat (kind_ordinal k) :: u8) = kind_ordinal k"
  by (cases k) simp_all

lemma readConstant_number:
  "readConstant al fc r =
     (case readU8 r of (kind, r1) \<Rightarrow>
       if kind = 0 then
         (case readU8 r1 of (nk, r2) \<Rightarrow>
           (case kind_of_ordinal (unat nk) of
              None \<Rightarrow> (zero_const, rd_fail r2 UNIT_DECODE_INVALID)
            | Some k \<Rightarrow> if isFloatKind k then (case readDouble r2 of (d, r3) \<Rightarrow> (CONST_NUMBER k d, r3))
                else (case readSized r2 (ki_size (numberKindInfo k)) of
                        (raw, r3) \<Rightarrow> (CONST_NUMBER k (extend_sized k raw), r3))))
       else if kind = 1 then
         (case readU8 r1 of (v, r2) \<Rightarrow> (CONST_BOOL (v = 1), fail_unless (v \<le> 1) r2))
       else if kind = 2 then (CONST_NIL, r1)
       else if kind = 3 then
         (case readI32 r1 of (off, r2) \<Rightarrow> case readI32 r2 of (len, r3) \<Rightarrow>
            (CONST_STRING off len, fail_unless (rangeInside off len al) r3))
       else if kind = 4 then
         (case readI32 r1 of (i, r2) \<Rightarrow> (CONST_FUNCTION i, fail_unless (0 \<le> i \<and> i < int fc) r2))
       else (zero_const, rd_fail r1 UNIT_DECODE_INVALID))"
  by (simp add: readConstant_def Let_def extend_sized_def split: prod.split option.split)

lemma kind_of_ordinal_0: "kind_of_ordinal 0 = Some NUMBER_KIND_I64"
  by (simp add: kind_of_ordinal_def all_kinds_def NUMBER_KIND_COUNT_def)

lemma readConstant_sticky: "rd_status r \<noteq> UNIT_DECODE_OK \<Longrightarrow> snd (readConstant al fc r) = r"
  by (simp add: readConstant_number read_sticky kind_of_ordinal_0)

lemma readConstant_roundtrip:
  assumes ok: "const_ok al fc c" and at: "at_bytes r (encodeConstant c @ bs)"
  shows "readConstant al fc r = (c, move_reader r (length (encodeConstant c)))"
proof (cases c)
  case (CONST_NUMBER k p)
  let ?sz = "ki_size (numberKindInfo k)"
  let ?tail = "if isFloatKind k then putDouble p else putSized p ?sz"
  have a0: "at_bytes r (putU8 0 @ putU8 (word_of_nat (kind_ordinal k)) @ ?tail @ bs)"
    using at CONST_NUMBER by (simp add: encodeConstant_def)
  note a1 = at_bytes_advance [OF a0] and a2 = at_bytes_advance [OF at_bytes_advance [OF a0]]
  note reads = u8_codec.roundtrip [OF TrueI a0] u8_codec.roundtrip [OF TrueI a1]
  show ?thesis
  proof (cases "isFloatKind k")
    case True
    with a2 show ?thesis using double_codec.roundtrip [OF TrueI, of _ p bs] reads
      by (simp add: readConstant_number word_of_ordinal CONST_NUMBER encodeConstant_def)
  next
    case False
    have "at_bytes (move_reader (move_reader r (length (putU8 0))) (length (putU8 (word_of_nat (kind_ordinal k)))))
        (putSized (take_bit (8 * ?sz) p) ?sz @ bs)" using a2 False by (simp add: putSized_take_bit)
    from codec.roundtrip [OF sized_codec [OF kind_size_le] _ this] False ok reads show ?thesis
      by (simp add: readConstant_number word_of_ordinal CONST_NUMBER encodeConstant_def
          const_ok_def extend_sized_payload)
  qed
next
  case (CONST_BOOL b)
  then have a0: "at_bytes r (putU8 1 @ putU8 (if b then 1 else 0) @ bs)" using at by (simp add: encodeConstant_def)
  note a1 = at_bytes_advance [OF a0]
  show ?thesis using u8_codec.roundtrip [OF TrueI a0] u8_codec.roundtrip [OF TrueI a1]
    by (simp add: readConstant_number CONST_BOOL encodeConstant_def)
next
  case CONST_NIL
  then have a0: "at_bytes r (putU8 2 @ bs)" using at by (simp add: encodeConstant_def)
  show ?thesis using u8_codec.roundtrip [OF TrueI a0]
    by (simp add: readConstant_number CONST_NIL encodeConstant_def)
next
  case (CONST_STRING off len)
  then have a0: "at_bytes r (putU8 3 @ putI32 off @ putI32 len @ bs)" using at by (simp add: encodeConstant_def)
  note a1 = at_bytes_advance [OF a0] and a2 = at_bytes_advance [OF at_bytes_advance [OF a0]]
  show ?thesis
    using u8_codec.roundtrip [OF TrueI a0] i32_codec.roundtrip [OF _ a1] i32_codec.roundtrip [OF _ a2] ok
    by (simp add: readConstant_number CONST_STRING encodeConstant_def const_ok_def)
next
  case (CONST_FUNCTION i)
  then have a0: "at_bytes r (putU8 4 @ putI32 i @ bs)" using at by (simp add: encodeConstant_def)
  note a1 = at_bytes_advance [OF a0]
  show ?thesis
    using u8_codec.roundtrip [OF TrueI a0] i32_codec.roundtrip [OF _ a1] ok
    by (simp add: readConstant_number CONST_FUNCTION encodeConstant_def const_ok_def)
qed

text \<open>Reading back a number: the second half of exactness.\<close>

lemma readSized_extend:
  assumes k: "\<not> isFloatKind k" and rd: "readSized r (ki_size (numberKindInfo k)) = (raw, r')"
    "rd_status r' = UNIT_DECODE_OK" "rd_position r \<le> rd_length r"
  shows "payload_ok k (extend_sized k raw)"
    "reads r (putSized (extend_sized k raw) (ki_size (numberKindInfo k))) r'"
proof -
  let ?n = "ki_size (numberKindInfo k)"
  from codec.exact [OF sized_codec [OF kind_size_le] rd]
  have raw: "take_bit (8 * ?n) raw = raw" and r: "reads r (putSized raw ?n) r'" by blast+
  have e: "extend_sized k raw = truncateRawInteger k raw"
    using extend_sized_truncate [OF k, of raw] raw by simp
  then show "payload_ok k (extend_sized k raw)" using truncate_payload_ok [OF k] by simp
  have "putSized (extend_sized k raw) ?n = putSized raw ?n"
    using putSized_take_bit [of ?n "truncateRawInteger k raw"] putSized_take_bit [of ?n raw]
    by (simp add: e take_bit_truncate)
  with r show "reads r (putSized (extend_sized k raw) ?n) r'" by simp
qed

lemma readU8_failed: "readU8 r = (k, r1) \<Longrightarrow> rd_status r1 \<noteq> UNIT_DECODE_OK \<Longrightarrow> k = 0"
  by (auto simp: readU8_def rd_take_def split: if_splits)

lemma u8_le_1: "(v :: u8) \<le> 1 \<Longrightarrow> v = (if v = 1 then 1 else 0)"
  by (simp add: word_le_nat_alt) (metis One_nat_def le_Suc_eq le_zero_eq unat_0 unat_1 unat_eq_zero word_unat_eq_iff)

lemma readConstant_exact:
  assumes d: "readConstant al fc r = (c, r')" and st: "rd_status r' = UNIT_DECODE_OK"
    and pos: "rd_position r \<le> rd_length r"
  shows "const_ok al fc c \<and> reads r (encodeConstant c) r'"
proof -
  obtain kind r1 where k: "readU8 r = (kind, r1)" by fastforce
  have s1: "rd_status r1 = UNIT_DECODE_OK"
  proof (rule ccontr)
    assume s1: "rd_status r1 \<noteq> UNIT_DECODE_OK"
    with readU8_failed [OF k] have "r' = r1"
      using d k by (simp add: readConstant_number read_sticky kind_of_ordinal_0)
    with s1 st show False by simp
  qed
  from u8_codec.exact [OF k s1 pos] have R1: "reads r (putU8 kind) r1" by blast
  note p1 = reads_position [OF R1]
  consider "kind = 0" | "kind = 1" | "kind = 2" | "kind = 3" | "kind = 4"
    | "kind \<notin> {0, 1, 2, 3, 4}" by blast
  then show ?thesis
  proof cases
    case 1
    obtain nk r2 where n: "readU8 r1 = (nk, r2)" by fastforce
    obtain nkind where nkind: "kind_of_ordinal (unat nk) = Some nkind"
      using d k n 1 st by (cases "kind_of_ordinal (unat nk)") (auto simp: readConstant_number)
    have nk: "nk = word_of_nat (kind_ordinal nkind)" using kind_of_ordinal_Some [OF nkind] by simp
    show ?thesis
    proof (cases "isFloatKind nkind")
      case True
      obtain v r3 where v: "readDouble r2 = (v, r3)" by fastforce
      have e: "c = CONST_NUMBER nkind v" "r' = r3" using d k n 1 nkind v True by (auto simp: readConstant_number)
      have s2: "rd_status r2 = UNIT_DECODE_OK" using double_codec.ok_before [OF v] st e by simp
      from u8_codec.exact [OF n s2 p1] have R2: "reads r1 (putU8 nk) r2" by blast
      from double_codec.exact [OF v _ reads_position [OF R2]] st e have "reads r2 (putDouble v) r'" by blast
      from reads_trans [OF R1 reads_trans [OF R2 this]] show ?thesis
        using 1 e True nk by (simp add: encodeConstant_def const_ok_def payload_ok_def)
    next
      case False
      obtain v r3 where v: "readSized r2 (ki_size (numberKindInfo nkind)) = (v, r3)" by fastforce
      have e: "c = CONST_NUMBER nkind (extend_sized nkind v)" "r' = r3"
        using d k n 1 nkind v False by (auto simp: readConstant_number)
      have s2: "rd_status r2 = UNIT_DECODE_OK"
        using codec.ok_before [OF sized_codec [OF kind_size_le] v] st e by simp
      from u8_codec.exact [OF n s2 p1] have R2: "reads r1 (putU8 nk) r2" by blast
      note S = readSized_extend [OF False v [folded e(2)] st reads_position [OF R2]]
      from reads_trans [OF R1 reads_trans [OF R2 S(2)]] show ?thesis
        using 1 e False nk S(1) by (simp add: encodeConstant_def const_ok_def)
    qed
  next
    case 2
    obtain v r2 where v: "readU8 r1 = (v, r2)" by fastforce
    have e: "c = CONST_BOOL (v = 1)" "r' = fail_unless (v \<le> 1) r2"
      using d k v 2 by (auto simp: readConstant_number)
    then have v1: "v \<le> 1" "r' = r2" using st by (auto simp: fail_unless_def split: if_splits)
    from u8_codec.exact [OF v _ p1] st v1 have "reads r1 (putU8 v) r'" by blast
    from reads_trans [OF R1 this] show ?thesis
      using 2 e u8_le_1 [OF v1(1)] by (auto simp: encodeConstant_def const_ok_def)
  next
    case 3
    then show ?thesis using d k R1 by (auto simp: readConstant_number encodeConstant_def const_ok_def)
  next
    case 4
    obtain off r2 where o: "readI32 r1 = (off, r2)" by fastforce
    obtain len r3 where l: "readI32 r2 = (len, r3)" by fastforce
    have e: "c = CONST_STRING off len" "r' = fail_unless (rangeInside off len al) r3"
      using d k o l 4 by (auto simp: readConstant_number)
    then have ri: "rangeInside off len al" "r' = r3" using st by (auto simp: fail_unless_def split: if_splits)
    have s2: "rd_status r2 = UNIT_DECODE_OK" using i32_codec.ok_before [OF l] st ri by simp
    from i32_codec.exact [OF o s2 p1] have R2: "in_i32 off" "reads r1 (putI32 off) r2" by blast+
    from i32_codec.exact [OF l _ reads_position [OF R2(2)]] st ri
    have R3: "in_i32 len" "reads r2 (putI32 len) r'" by blast+
    from reads_trans [OF R1 reads_trans [OF R2(2) R3(2)]] show ?thesis
      using 4 e ri R2(1) R3(1) by (simp add: encodeConstant_def const_ok_def)
  next
    case 5
    obtain i r2 where i: "readI32 r1 = (i, r2)" by fastforce
    have e: "c = CONST_FUNCTION i" "r' = fail_unless (0 \<le> i \<and> i < int fc) r2"
      using d k i 5 by (auto simp: readConstant_number)
    then have ri: "0 \<le> i \<and> i < int fc" "r' = r2" using st by (auto simp: fail_unless_def split: if_splits)
    from i32_codec.exact [OF i _ p1] st ri have R2: "in_i32 i" "reads r1 (putI32 i) r'" by blast+
    from reads_trans [OF R1 R2(2)] show ?thesis
      using 5 e ri R2(1) by (simp add: encodeConstant_def const_ok_def)
  next
    case 6
    then have "r' = rd_fail r1 UNIT_DECODE_INVALID" using d k by (auto simp: readConstant_number)
    with st show ?thesis by simp
  qed
qed

interpretation const_codec: codec encodeConstant "readConstant al fc" "const_ok al fc" for al fc
  by unfold_locales (auto intro: readConstant_sticky readConstant_roundtrip dest: readConstant_exact)

section \<open>Functions\<close>

lemma u8_gt_1: "\<not> (v :: u8) > 1 \<Longrightarrow> v = (if v = 1 then 1 else 0)"
  using u8_le_1 [of v] by simp

interpretation upvalue_codec: codec encodeUpvalue readUpvalue anything
proof
  show "snd (readUpvalue r) = r" if "rd_status r \<noteq> UNIT_DECODE_OK" for r
    using that by (simp add: readUpvalue_def read_sticky)
next
  fix u r bs assume "at_bytes r (encodeUpvalue u @ bs)"
  then have a0: "at_bytes r (putU8 (if cv_isLocal u then 1 else 0) @ putU8 (cv_index u) @ bs)"
    by (simp add: encodeUpvalue_def)
  note a1 = at_bytes_advance [OF a0]
  show "readUpvalue r = (u, move_reader r (length (encodeUpvalue u)))"
    using u8_codec.roundtrip [OF TrueI a0] u8_codec.roundtrip [OF TrueI a1]
    by (simp add: readUpvalue_def encodeUpvalue_def)
next
  fix r u r' assume d: "readUpvalue r = (u, r')" "rd_status r' = UNIT_DECODE_OK" "rd_position r \<le> rd_length r"
  obtain b r1 where b: "readU8 r = (b, r1)" by fastforce
  obtain i r2 where i: "readU8 r1 = (i, r2)" by fastforce
  have nb: "\<not> b > 1" using d(1,2) b by (auto simp: readUpvalue_def)
  then have e: "u = \<lparr>cv_isLocal = (b = 1), cv_index = i\<rparr>" "r' = r2"
    using d(1) b i by (auto simp: readUpvalue_def)
  have s1: "rd_status r1 = UNIT_DECODE_OK" using u8_codec.ok_before [OF i] d(2) e by simp
  from u8_codec.exact [OF b s1 d(3)] have R1: "reads r (putU8 b) r1" by blast
  from u8_codec.exact [OF i _ reads_position [OF R1]] d(2) e have "reads r1 (putU8 i) r'" by blast
  from reads_trans [OF R1 this] show "True \<and> reads r (encodeUpvalue u) r'"
    using u8_gt_1 [OF nb] e by (auto simp: encodeUpvalue_def)
qed

definition encode_header :: "CompiledFn \<Rightarrow> bytes" where
  "encode_header fn =
     putI32 (cf_arity fn) @ putI32 (cf_upvalueCount fn) @ putU8 (fn_flags fn) @
     putI32 (cf_nameOffset fn) @ putI32 (cf_nameLength fn)"

text \<open>A function with its fixed fields only.\<close>

definition header_of :: "CompiledFn \<Rightarrow> CompiledFn" where
  "header_of fn = fn\<lparr>cf_code := [], cf_codeLines := [], cf_constants := [], cf_upvalues := []\<rparr>"

lemma fn_flags_bits:
  "fn_flags fn AND 1 \<noteq> 0 \<longleftrightarrow> cf_isStatic fn" "fn_flags fn AND 2 \<noteq> 0 \<longleftrightarrow> cf_isPublic fn"
  "fn_flags fn AND NOT 3 = 0"
  by (auto simp: fn_flags_def)

lemma u8_low_bits:
  assumes "(flags :: u8) AND NOT 3 = 0"
  shows "flags = (if flags AND 1 \<noteq> 0 then 1 else 0) OR (if flags AND 2 \<noteq> 0 then 2 else 0)"
proof -
  have "flags = flags AND 3"
    using assms by (metis bit.conj_disj_distrib bit.disj_cancel_right bit.conj_one_right or.right_neutral)
  also have "\<dots> = (flags AND 1) OR (flags AND 2)"
    using bit.conj_disj_distrib [of flags 1 2] by simp
  also have "flags AND 1 = (if flags AND 1 \<noteq> 0 then 1 else 0)"
    by (auto intro!: bit_word_eqI simp: bit_and_iff bit_1_iff and_one_eq odd_iff_mod_2_eq_one split: if_splits)
  also have "flags AND 2 = (if flags AND 2 \<noteq> 0 then 2 else 0)"
    using and_exp_eq_0_iff_not_bit [of flags 1] and_exp_eq_0_iff_not_bit [of flags 1]
    by (auto intro!: bit_word_eqI simp: bit_and_iff bit_double_iff bit_simps numeral_2_eq_2 [symmetric])
  finally show ?thesis .
qed

text \<open>The header that the five fields and the flags make.\<close>

definition make_header :: "int \<Rightarrow> int \<Rightarrow> u8 \<Rightarrow> int \<Rightarrow> int \<Rightarrow> CompiledFn" where
  "make_header arity upvalueCount flags nameOffset nameLength =
     zero_fn\<lparr>cf_arity := arity, cf_upvalueCount := upvalueCount,
       cf_isStatic := flags AND 1 \<noteq> 0, cf_isPublic := flags AND 2 \<noteq> 0,
       cf_nameOffset := nameOffset, cf_nameLength := nameLength\<rparr>"

lemma make_header_of:
  "make_header (cf_arity fn) (cf_upvalueCount fn) (fn_flags fn) (cf_nameOffset fn) (cf_nameLength fn) = header_of fn"
  by (simp add: make_header_def header_of_def zero_fn_def cuInitFn_def fn_flags_bits)

lemma make_header_simps [simp]:
  "header_of (make_header a u f no nl) = make_header a u f no nl"
  "cf_arity (make_header a u f no nl) = a" "cf_upvalueCount (make_header a u f no nl) = u"
  "cf_nameOffset (make_header a u f no nl) = no" "cf_nameLength (make_header a u f no nl) = nl"
  by (simp_all add: make_header_def header_of_def zero_fn_def cuInitFn_def)

lemma make_header_flags: "f AND NOT 3 = 0 \<Longrightarrow> fn_flags (make_header a u f no nl) = f"
  using u8_low_bits [of f] by (simp add: fn_flags_def make_header_def)

definition header_bad :: "nat \<Rightarrow> int \<Rightarrow> int \<Rightarrow> u8 \<Rightarrow> int \<Rightarrow> int \<Rightarrow> bool" where
  "header_bad al arity upvalueCount flags nameOffset nameLength \<longleftrightarrow>
     flags AND NOT 3 \<noteq> 0 \<or> arity < 0 \<or> upvalueCount < 0 \<or>
       (nameLength \<ge> 0 \<and> \<not> rangeInside nameOffset nameLength al)"

lemma readHeader_steps:
  "readHeader al r =
     (case readI32 r of (a, r1) \<Rightarrow> case readI32 r1 of (u, r2) \<Rightarrow> case readU8 r2 of (f, r3) \<Rightarrow>
      case readI32 r3 of (no, r4) \<Rightarrow> case readI32 r4 of (nl, r5) \<Rightarrow>
        (make_header a u f no nl,
         if rd_status r5 = UNIT_DECODE_OK \<and> header_bad al a u f no nl
         then rd_fail r5 UNIT_DECODE_INVALID else r5))"
  by (auto simp: readHeader_def Let_def make_header_def header_bad_def split: prod.split)

interpretation header_codec: codec encode_header "readHeader al" "\<lambda>fn. header_ok al fn \<and> header_of fn = fn" for al
proof
  show "snd (readHeader al r) = r" if "rd_status r \<noteq> UNIT_DECODE_OK" for r
    using that by (simp add: readHeader_steps read_sticky)
next
  fix fn r bs
  assume ok: "header_ok al fn \<and> header_of fn = fn" and at: "at_bytes r (encode_header fn @ bs)"
  have a0: "at_bytes r (putI32 (cf_arity fn) @ putI32 (cf_upvalueCount fn) @ putU8 (fn_flags fn) @
     putI32 (cf_nameOffset fn) @ putI32 (cf_nameLength fn) @ bs)" using at by (simp add: encode_header_def)
  note a1 = at_bytes_advance [OF a0]
  note a2 = at_bytes_advance [OF a1]
  note a3 = at_bytes_advance [OF a2]
  note a4 = at_bytes_advance [OF a3]
  have "\<not> header_bad al (cf_arity fn) (cf_upvalueCount fn) (fn_flags fn) (cf_nameOffset fn) (cf_nameLength fn)"
    using ok fn_flags_bits(3) [of fn] by (auto simp: header_bad_def header_ok_def)
  then show "readHeader al r = (fn, move_reader r (length (encode_header fn)))"
    using i32_codec.roundtrip [OF _ a0] i32_codec.roundtrip [OF _ a1] u8_codec.roundtrip [OF TrueI a2]
      i32_codec.roundtrip [OF _ a3] i32_codec.roundtrip [OF _ a4] ok make_header_of [of fn]
    by (simp add: readHeader_steps header_ok_def encode_header_def)
next
  fix r fn r'
  assume d: "readHeader al r = (fn, r')" and st: "rd_status r' = UNIT_DECODE_OK" and pos: "rd_position r \<le> rd_length r"
  obtain a r1 u r2 f r3 where e1: "readI32 r = (a, r1)" "readI32 r1 = (u, r2)" "readU8 r2 = (f, r3)" by fastforce
  obtain no r4 nl r5 where e2: "readI32 r3 = (no, r4)" "readI32 r4 = (nl, r5)" by fastforce
  have fn: "fn = make_header a u f no nl" "r' = r5" "\<not> header_bad al a u f no nl"
    using d st by (auto simp: readHeader_steps e1 e2 split: if_splits)
  have s4: "rd_status r4 = UNIT_DECODE_OK" using i32_codec.ok_before [OF e2(2)] st fn by simp
  then have s3: "rd_status r3 = UNIT_DECODE_OK" using i32_codec.ok_before [OF e2(1)] by simp
  then have s2: "rd_status r2 = UNIT_DECODE_OK" using u8_codec.ok_before [OF e1(3)] by simp
  then have s1: "rd_status r1 = UNIT_DECODE_OK" using i32_codec.ok_before [OF e1(2)] by simp
  from i32_codec.exact [OF e1(1) s1 pos] have R1: "in_i32 a" "reads r (putI32 a) r1" by blast+
  from i32_codec.exact [OF e1(2) s2 reads_position [OF R1(2)]] have R2: "in_i32 u" "reads r1 (putI32 u) r2" by blast+
  from u8_codec.exact [OF e1(3) s3 reads_position [OF R2(2)]] have R3: "reads r2 (putU8 f) r3" by blast
  from i32_codec.exact [OF e2(1) s4 reads_position [OF R3]] have R4: "in_i32 no" "reads r3 (putI32 no) r4" by blast+
  from i32_codec.exact [OF e2(2) _ reads_position [OF R4(2)]] st fn
  have R5: "in_i32 nl" "reads r4 (putI32 nl) r'" by blast+
  from reads_trans [OF R1(2) reads_trans [OF R2(2) reads_trans [OF R3 reads_trans [OF R4(2) R5(2)]]]]
  have "reads r (encode_header fn) r'"
    using fn(3) by (simp add: encode_header_def fn(1) make_header_flags header_bad_def)
  moreover have "header_ok al fn" using fn(3) R1 R2 R4 R5 by (auto simp: fn(1) header_ok_def header_bad_def)
  ultimately show "(header_ok al fn \<and> header_of fn = fn) \<and> reads r (encode_header fn) r'" by (simp add: fn(1))
qed

text \<open>Counted lists.\<close>

lemma countFits_simp:
  "rd_status r = UNIT_DECODE_OK \<Longrightarrow> unat w \<le> 2147483647 \<Longrightarrow>
     unat w \<le> (rd_length r - rd_position r) div n \<Longrightarrow> countFits r w n = (True, r)"
  by (simp add: countFits_def)

lemma countFits_False: "countFits r w n = (False, r') \<Longrightarrow> rd_status r' \<noteq> UNIT_DECODE_OK"
  by (auto simp: countFits_def split: if_splits)

lemma countFits_True:
  "countFits r w n = (True, r') \<Longrightarrow> r' = r \<and> rd_status r = UNIT_DECODE_OK \<and> unat w \<le> 2147483647"
  by (auto simp: countFits_def split: if_splits)

lemma unat_count: "n \<le> 2147483647 \<Longrightarrow> unat (word_of_nat n :: u32) = n"
  by (simp add: unsigned_of_nat take_bit_nat_eq_self)

lemma length_concat_ge: "(\<And>x. x \<in> set xs \<Longrightarrow> b \<le> length (f x)) \<Longrightarrow> length xs * b \<le> length (concat (map f xs))"
  by (induction xs) (fastforce)+

lemma counted_codec:
  assumes c: "codec enc dec ok" and stops: "\<And>r. stops r \<Longrightarrow> rd_status r \<noteq> UNIT_DECODE_OK"
    and each: "0 < b" "\<And>x. ok x \<Longrightarrow> b \<le> length (enc x)"
  shows "codec (\<lambda>xs. putU32 (word_of_nat (length xs)) @ concat (map enc xs)) (readCounted stops b dec)
           (\<lambda>xs. length xs \<le> 2147483647 \<and> (\<forall>x \<in> set xs. ok x))"
proof
  show "snd (readCounted stops b dec r) = r" if "rd_status r \<noteq> UNIT_DECODE_OK" for r
    using that by (simp add: readCounted_def read_sticky)
next
  fix xs r bs
  assume ok: "length xs \<le> 2147483647 \<and> (\<forall>x \<in> set xs. ok x)"
    and at: "at_bytes r ((putU32 (word_of_nat (length xs)) @ concat (map enc xs)) @ bs)"
  then have a0: "at_bytes r (putU32 (word_of_nat (length xs)) @ concat (map enc xs) @ bs)" by simp
  note a1 = at_bytes_advance [OF a0]
  have "length xs * b \<le> length (concat (map enc xs) @ bs)"
    using length_concat_ge [of xs b enc] ok each(2) by fastforce
  then have "length xs \<le> length (concat (map enc xs) @ bs) div b"
    using each(1) by (simp add: less_eq_div_iff_mult_less_eq)
  then have "countFits (move_reader r 4) (word_of_nat (length xs)) b = (True, move_reader r 4)"
    using at_bytes_status [OF a1] at_bytes_remaining [OF a1] ok by (intro countFits_simp) (simp_all add: unat_count)
  then show "readCounted stops b dec r = (xs, move_reader r (length (putU32 (word_of_nat (length xs)) @ concat (map enc xs))))"
    using u32_codec.roundtrip [OF TrueI a0] ok unat_count [of "length xs"]
      codec.many_roundtrip [OF c stops, where xs = xs and bs = bs and r = "move_reader r 4"] a1
    by (simp add: readCounted_def)
next
  fix r xs r'
  assume d: "readCounted stops b dec r = (xs, r')" and st: "rd_status r' = UNIT_DECODE_OK"
    and pos: "rd_position r \<le> rd_length r"
  obtain w r1 where w: "readU32 r = (w, r1)" by fastforce
  obtain fits r2 where f: "countFits r1 w b = (fits, r2)" by fastforce
  have fits: "fits" using d w f st countFits_False by (auto simp: readCounted_def split: if_splits)
  then have t: "r2 = r1" "rd_status r1 = UNIT_DECODE_OK" "unat w \<le> 2147483647"
    using countFits_True f by auto
  from u32_codec.exact [OF w t(2) pos] have R1: "reads r (putU32 w) r1" by blast
  have m: "readMany stops (unat w) dec r1 = (xs, r')" using d w f fits t(1) by (simp add: readCounted_def)
  from codec.many_exact [OF c stops m st reads_position [OF R1]]
  have R2: "length xs = unat w" "\<forall>x \<in> set xs. ok x" "reads r1 (concat (map enc xs)) r'" by blast+
  from reads_trans [OF R1 R2(3)] R2(1,2) t(3)
  show "(length xs \<le> 2147483647 \<and> (\<forall>x \<in> set xs. ok x)) \<and>
      reads r (putU32 (word_of_nat (length xs)) @ concat (map enc xs)) r'" by simp
qed

text \<open>Bytecode: one count for two arrays.\<close>

definition encode_code :: "bytes \<times> int list \<Rightarrow> bytes" where
  "encode_code cl =
     putU32 (word_of_nat (length (fst cl))) @ fst cl @ concat (map putI32 (snd cl))"

lemma length_concat_putI32: "length (concat (map putI32 ls)) = 4 * length ls"
  by (induction ls) simp_all

interpretation code_codec: codec encode_code readCode code_ok
proof
  show "snd (readCode r) = r" if "rd_status r \<noteq> UNIT_DECODE_OK" for r
    using that by (simp add: readCode_def read_sticky)
next
  fix cl r bs
  assume ok: "code_ok cl" and at: "at_bytes r (encode_code cl @ bs)"
  obtain c ls where cl: "cl = (c, ls)" by fastforce
  have n: "length ls = length c" "length c \<le> 2147483647" "\<forall>l \<in> set ls. in_i32 l"
    using ok cl by (simp_all add: code_ok_def)
  have a0: "at_bytes r (putU32 (word_of_nat (length c)) @ c @ concat (map putI32 ls) @ bs)"
    using at cl by (simp add: encode_code_def)
  note a1 = at_bytes_advance [OF a0]
  note a2 = at_bytes_advance [OF a1]
  have "countFits (move_reader r 4) (word_of_nat (length c)) 5 = (True, move_reader r 4)"
    using at_bytes_status [OF a1] at_bytes_remaining [OF a1] n
    by (intro countFits_simp) (simp_all add: unat_count length_concat_putI32)
  then show "readCode r = (cl, move_reader r (length (encode_code cl)))"
    using u32_codec.roundtrip [OF TrueI a0] rd_take_at [OF a1 refl] n
      i32_codec.many_roundtrip [where xs = ls and bs = bs and stops = "\<lambda>_. False", OF _ _ a2]
    by (simp add: readCode_def cl encode_code_def unat_count length_concat_putI32)
next
  fix r cl r'
  assume d: "readCode r = (cl, r')" and st: "rd_status r' = UNIT_DECODE_OK" and pos: "rd_position r \<le> rd_length r"
  obtain w r1 where w: "readU32 r = (w, r1)" by fastforce
  obtain fits r2 where f: "countFits r1 w 5 = (fits, r2)" by fastforce
  have fits: "fits" using d w f st countFits_False by (auto simp: readCode_def split: if_splits)
  then have t: "r2 = r1" "rd_status r1 = UNIT_DECODE_OK" "unat w \<le> 2147483647"
    using countFits_True f by auto
  from u32_codec.exact [OF w t(2) pos] have R1: "reads r (putU32 w) r1" by blast
  obtain c r3 where c: "rd_take r1 (unat w) = (c, r3)" by fastforce
  obtain ls r4 where l: "readMany (\<lambda>_. False) (unat w) readI32 r3 = (ls, r4)" by fastforce
  have e: "r4 = r'" "cl = (case c of Some c \<Rightarrow> c | None \<Rightarrow> replicate (unat w) 0, ls)"
    using d w f fits t(1) c l by (simp_all add: readCode_def)
  have s3: "rd_status r3 = UNIT_DECODE_OK"
    using i32_codec.many_sticky [of r3 "\<lambda>_. False" "unat w"] l e(1) st by fastforce
  obtain xs where xs: "c = Some xs" "length xs = unat w" "reads r1 xs r3"
    using rd_take_reads [OF c s3 reads_position [OF R1]] .
  from i32_codec.many_exact [OF _ l [unfolded e(1)] st reads_position [OF xs(3)]]
  have R3: "length ls = unat w" "\<forall>x \<in> set ls. in_i32 x" "reads r3 (concat (map putI32 ls)) r'" by blast+
  from reads_trans [OF R1 reads_trans [OF xs(3) R3(3)]] show "code_ok cl \<and> reads r (encode_code cl) r'"
    using e(2) xs R3(1,2) t(3) by (simp add: code_ok_def encode_code_def)
qed

text \<open>Whole functions.\<close>

abbreviation enc_constants :: "CompiledConst list \<Rightarrow> bytes" where
  "enc_constants cs \<equiv> putU32 (word_of_nat (length cs)) @ concat (map encodeConstant cs)"

abbreviation enc_upvalues :: "CompiledUpvalue list \<Rightarrow> bytes" where
  "enc_upvalues us \<equiv> putU32 (word_of_nat (length us)) @ concat (map encodeUpvalue us)"

lemma encodeFunction_parts:
  "encodeFunction fn =
     encode_header (header_of fn) @ encode_code (cf_code fn, cf_codeLines fn) @
     enc_constants (cf_constants fn) @ enc_upvalues (cf_upvalues fn)"
  by (simp add: encodeFunction_def encode_header_def header_of_def encode_code_def fn_flags_def)

lemma constants_codec:
  "codec enc_constants (readCounted failed 1 (readConstant al fc))
     (\<lambda>cs. length cs \<le> 2147483647 \<and> (\<forall>c \<in> set cs. const_ok al fc c))"
  by (rule counted_codec [OF const_codec.codec_axioms])
    (auto simp: failed_def encodeConstant_def)

lemma upvalues_codec:
  "codec enc_upvalues (readCounted (\<lambda>r. rd_status r = UNIT_DECODE_INVALID) 2 readUpvalue)
     (\<lambda>us. length us \<le> 2147483647 \<and> (\<forall>u \<in> set us. True))"
  by (rule counted_codec [OF upvalue_codec.codec_axioms]) (auto simp: encodeUpvalue_def)

lemma function_parts:
  assumes "cf_code f = []" "cf_codeLines f = []" "cf_constants f = []" "cf_upvalues f = []"
  shows "header_of (f\<lparr>cf_code := c, cf_codeLines := ls, cf_constants := cs, cf_upvalues := us\<rparr>) = f"
  using assms by (simp add: header_of_def)

lemma header_of_lists [simp]:
  "cf_code (header_of f) = []" "cf_codeLines (header_of f) = []" "cf_constants (header_of f) = []"
  "cf_upvalues (header_of f) = []" "header_ok al (header_of f) = header_ok al f"
  "header_of (header_of f) = header_of f"
  "(header_of f)\<lparr>cf_code := cf_code f, cf_codeLines := cf_codeLines f, cf_constants := cf_constants f,
     cf_upvalues := cf_upvalues f\<rparr> = f"
  by (simp_all add: header_of_def header_ok_def)

interpretation function_codec: codec encodeFunction "readFunction al fc" "fn_ok al fc" for al fc
proof
  show "snd (readFunction al fc r) = r" if "rd_status r \<noteq> UNIT_DECODE_OK" for r
    using header_codec.sticky [OF that, of al] that
    by (auto simp: readFunction_def failed_def Let_def split: prod.split)
next
  fix fn r bs
  assume ok: "fn_ok al fc fn" and at: "at_bytes r (encodeFunction fn @ bs)"
  have a0: "at_bytes r (encode_header (header_of fn) @ encode_code (cf_code fn, cf_codeLines fn) @
     enc_constants (cf_constants fn) @ enc_upvalues (cf_upvalues fn) @ bs)"
    using at by (simp add: encodeFunction_parts)
  note a1 = at_bytes_advance [OF a0]
  note a2 = at_bytes_advance [OF a1]
  note a3 = at_bytes_advance [OF a2]
  note s = at_bytes_status [OF a1] at_bytes_status [OF a2] at_bytes_status [OF a3]
  have "readHeader al r = (header_of fn, move_reader r (length (encode_header (header_of fn))))"
    by (rule header_codec.roundtrip [OF _ a0]) (use ok in \<open>simp add: fn_ok_def\<close>)
  moreover note code_codec.roundtrip [OF _ a1]
    codec.roundtrip [OF constants_codec _ a2] codec.roundtrip [OF upvalues_codec _ a3]
  ultimately show "readFunction al fc r = (fn, move_reader r (length (encodeFunction fn)))"
    using ok s unfolding encodeFunction_parts
    by (simp add: readFunction_def failed_def fn_ok_def Let_def add.assoc)
next
  fix r fn r'
  assume d: "readFunction al fc r = (fn, r')" and st: "rd_status r' = UNIT_DECODE_OK"
    and pos: "rd_position r \<le> rd_length r"
  obtain h r1 where h: "readHeader al r = (h, r1)" by fastforce
  obtain c ls r2 where c: "readCode r1 = ((c, ls), r2)" by (metis surj_pair)
  obtain cs r3 where cs: "readCounted failed 1 (readConstant al fc) r2 = (cs, r3)" by fastforce
  obtain us r4 where us: "readCounted (\<lambda>r. rd_status r = UNIT_DECODE_INVALID) 2 readUpvalue r3 = (us, r4)"
    by fastforce
  have e: "\<not> failed r1" "\<not> failed r2" "\<not> failed r3" "r' = r4"
    "fn = h\<lparr>cf_code := c, cf_codeLines := ls, cf_constants := cs, cf_upvalues := us\<rparr>"
    using d st by (auto simp: readFunction_def h c cs us failed_def Let_def simp del: One_nat_def split: if_splits)
  then have s: "rd_status r1 = UNIT_DECODE_OK" "rd_status r2 = UNIT_DECODE_OK" "rd_status r3 = UNIT_DECODE_OK"
    by (simp_all add: failed_def)
  from header_codec.exact [OF h s(1) pos]
  have R1: "header_ok al h" "header_of h = h" "reads r (encode_header h) r1" by blast+
  from code_codec.exact [OF c s(2) reads_position [OF R1(3)]]
  have R2: "code_ok (c, ls)" "reads r1 (encode_code (c, ls)) r2" by blast+
  from codec.exact [OF constants_codec cs s(3) reads_position [OF R2(2)]]
  have R3: "length cs \<le> 2147483647" "\<forall>c \<in> set cs. const_ok al fc c" "reads r2 (enc_constants cs) r3" by blast+
  from codec.exact [OF upvalues_codec us _ reads_position [OF R3(3)]] st e(4)
  have R4: "length us \<le> 2147483647" "reads r3 (enc_upvalues us) r'" by blast+
  have l: "cf_code h = []" "cf_codeLines h = []" "cf_constants h = []" "cf_upvalues h = []"
    using R1(2) header_of_lists(1-4) by metis+
  have hf: "header_of fn = h" using function_parts [OF l] e(5) by simp
  from reads_trans [OF R1(3) reads_trans [OF R2(2) reads_trans [OF R3(3) R4(2)]]]
  have "reads r (encodeFunction fn) r'" by (simp add: encodeFunction_parts hf) (simp add: e(5))
  moreover have "header_ok al fn" using R1(1) header_of_lists(5) hf by metis
  ultimately show "fn_ok al fc fn \<and> reads r (encodeFunction fn) r'"
    using R2(1) R3(1,2) R4(1) by (simp add: fn_ok_def) (simp add: e(5))
qed

section \<open>Units\<close>

lemma check_ok [simp]: "b \<Longrightarrow> check b s r = r"
  by (simp add: check_def)

lemma check_status: "s \<noteq> UNIT_DECODE_OK \<Longrightarrow> rd_status (check b s r) = UNIT_DECODE_OK \<Longrightarrow> b \<and> check b s r = r"
  by (auto simp: check_def rd_fail_def split: if_splits)

lemma length_encodeFunction: "MIN_FUNCTION_BYTES \<le> length (encodeFunction fn)"
  by (simp add: encodeFunction_def MIN_FUNCTION_BYTES_def)

definition start :: "bytes \<Rightarrow> Reader" where
  "start data = \<lparr>rd_data = data, rd_position = 0, rd_status = UNIT_DECODE_OK\<rparr>"

lemma at_start: "at_bytes (start data) data" "rd_position (start data) \<le> rd_length (start data)"
  by (simp_all add: at_bytes_def start_def)

lemma length_MAGIC [simp]: "length MAGIC = 4"
  by (simp add: MAGIC_def)

lemma unat_u8_length: "n < 256 \<Longrightarrow> unat (word_of_nat n :: u8) = n"
  by (simp add: unsigned_of_nat take_bit_nat_eq_self)

lemma unitDecode_roundtrip:
  assumes ok: "unit_ok u" and v: "length version < 256"
  shows "unitDecode version (unitEncode version u) = (Some (unit_wire u), UNIT_DECODE_OK)"
proof -
  let ?arena = "ss_arena (cu_strings u)" and ?fns = "cu_functions u"
  let ?r = "start (unitEncode version u)"
  have sizes: "length ?arena \<le> 2147483647" "length ?fns \<le> 2147483647" "?fns \<noteq> []"
    and fns: "\<forall>fn \<in> set ?fns. fn_ok (length ?arena) (length ?fns) fn"
    using ok by (simp_all add: unit_ok_def)
  have a0: "at_bytes ?r (MAGIC @ putU16 UNIT_BYTES_FORMAT_VERSION @ putU8 (word_of_nat (length version)) @
     version @ putU32 (word_of_nat (length ?arena)) @ ?arena @ putU32 (word_of_nat (length ?fns)) @
     concat (map encodeFunction ?fns) @ [])"
    using at_start(1) [of "unitEncode version u"] by (simp add: unitEncode_def)
  note a1 = at_bytes_advance [OF a0]
  note a2 = at_bytes_advance [OF a1]
  note a3 = at_bytes_advance [OF a2]
  note a4 = at_bytes_advance [OF a3]
  note a5 = at_bytes_advance [OF a4]
  note a6 = at_bytes_advance [OF a5]
  note a7 = at_bytes_advance [OF a6]
  have n0: "(word_of_nat (length ?fns) :: u32) \<noteq> 0"
    using unat_count [OF sizes(2)] sizes(3) by (metis length_0_conv unat_0)
  define r7 where "r7 = move_reader ?r (19 + length version + length ?arena - 4)"
  have r7: "r7 = move_reader (move_reader (move_reader (move_reader (move_reader (move_reader (move_reader ?r (length MAGIC))
      (length (putU16 UNIT_BYTES_FORMAT_VERSION))) (length (putU8 (word_of_nat (length version)))))
      (length version)) (length (putU32 (word_of_nat (length ?arena))))) (length ?arena))
      (length (putU32 (word_of_nat (length ?fns))))"
    by (simp add: r7_def)
  note a7' = a7 [folded r7]
  have "length ?fns * MIN_FUNCTION_BYTES \<le> length (concat (map encodeFunction ?fns))"
    by (rule length_concat_ge) (rule length_encodeFunction)
  then have fits: "countFits r7 (word_of_nat (length ?fns)) MIN_FUNCTION_BYTES = (True, r7)"
    using at_bytes_status [OF a7'] at_bytes_remaining [OF a7'] sizes(2)
    by (intro countFits_simp) (simp_all add: unat_count less_eq_div_iff_mult_less_eq MIN_FUNCTION_BYTES_def)
  have many: "readMany failed (length ?fns) (readFunction (length ?arena) (length ?fns)) r7 =
      (?fns, move_reader r7 (length (concat (map encodeFunction ?fns))))"
    by (rule function_codec.many_roundtrip [OF failed_sticky fns a7'])
  have end_pos: "rd_position r7 + length (concat (map encodeFunction ?fns)) = length (unitEncode version u)"
  proof -
    have "rd_length r7 = length (unitEncode version u)" by (simp add: r7_def start_def)
    moreover have "rd_position r7 \<le> rd_length r7" using a7' unfolding at_bytes_def by blast
    ultimately show ?thesis using at_bytes_remaining [OF a7'] by simp
  qed
  show ?thesis
    using rd_take_at [OF a0 length_MAGIC] u16_codec.roundtrip [OF TrueI a1] u8_codec.roundtrip [OF TrueI a2]
      rd_take_at [OF a3 refl] u32_codec.roundtrip [OF TrueI a4] rd_take_at [OF a5 refl]
      u32_codec.roundtrip [OF TrueI a6] fits [unfolded r7_def] many [unfolded r7_def] end_pos [unfolded r7_def]
      unat_u8_length [OF v] unat_count [OF sizes(1)] unat_count [OF sizes(2)] sizes n0
      at_bytes_status [OF a0]
    by (simp add: unitDecode_def Let_def start_def [symmetric] failed_def unit_wire_def)
      (simp add: start_def)
qed

lemma unitDecode_exact:
  assumes d: "unitDecode version data = (Some u, st)" 
  shows "unitEncode version u = data \<and> unit_ok u \<and> u = unit_wire u \<and> st = UNIT_DECODE_OK"
proof -
  let ?r = "start data"
  obtain m r1 where m: "rd_take ?r 4 = (m, r1)" by fastforce
  define r1' where "r1' = (case m of Some m \<Rightarrow> check (m = MAGIC) UNIT_DECODE_BAD_MAGIC r1 | None \<Rightarrow> r1)"
  obtain fv r2 where fv: "readU16 r1' = (fv, r2)" by fastforce
  define r2' where "r2' = check (fv = UNIT_BYTES_FORMAT_VERSION) UNIT_DECODE_BAD_FORMAT_VERSION r2"
  obtain vl r3 where vl: "readU8 r2' = (vl, r3)" by fastforce
  obtain ver r4 where ver: "rd_take r3 (unat vl) = (ver, r4)" by fastforce
  define r4' where "r4' = (case ver of Some v \<Rightarrow> check (unat vl = length version \<and> v = version)
      UNIT_DECODE_VERSION_MISMATCH r4 | None \<Rightarrow> r4)"
  obtain bl r5 where bl: "readU32 r4' = (bl, r5)" by fastforce
  define r5' where "r5' = check (unat bl \<le> 2147483647) UNIT_DECODE_INVALID r5"
  obtain blob r6 where blob: "rd_take r5' (unat bl) = (blob, r6)" by fastforce
  obtain fc r7 where fc: "readU32 r6 = (fc, r7)" by fastforce
  define r7' where "r7' = check (fc \<noteq> 0) UNIT_DECODE_INVALID r7"
  obtain fits r8 where fits: "countFits r7' fc MIN_FUNCTION_BYTES = (fits, r8)" by fastforce
  define arena where "arena = (case blob of Some b \<Rightarrow> b | None \<Rightarrow> [])"
  obtain fns r9 where fns: "readMany failed (unat fc) (readFunction (length arena) (unat fc)) r8 = (fns, r9)"
    by fastforce
  note defs = r1'_def [symmetric] r2'_def [symmetric] r4'_def [symmetric] r5'_def [symmetric] r7'_def [symmetric]
    arena_def [symmetric]
  have res: "fits" "\<not> failed r9" "rd_position r9 = rd_length r9" "st = UNIT_DECODE_OK"
    "u = \<lparr>cu_strings = stringSetInit\<lparr>ss_arena := arena, ss_arenaCapacity := length arena\<rparr>, cu_functions = fns\<rparr>"
    using d unfolding unitDecode_def Let_def start_def [symmetric] m fv vl ver bl blob fc fits fns prod.case defs
    by (simp_all add: fns split: if_splits)
  then have s9: "rd_status r9 = UNIT_DECODE_OK" by (simp add: failed_def)
  have f8: "r8 = r7'" "rd_status r7' = UNIT_DECODE_OK" "unat fc \<le> 2147483647"
    using countFits_True fits res(1) by auto
  have c7: "fc \<noteq> 0" "r7' = r7" using check_status [of UNIT_DECODE_INVALID "fc \<noteq> 0" r7] f8(2) r7'_def by auto
  have s6: "rd_status r6 = UNIT_DECODE_OK" using u32_codec.ok_before [OF fc] f8 c7 by simp
  have s5: "rd_status r5' = UNIT_DECODE_OK" using s6 blob rd_take_sticky by (metis prod.inject)
  have c5: "unat bl \<le> 2147483647" "r5' = r5"
    using check_status [of UNIT_DECODE_INVALID _ r5] s5 unfolding r5'_def by blast+
  have s4: "rd_status r4' = UNIT_DECODE_OK" using u32_codec.ok_before [OF bl] s5 c5 by simp
  have s4r: "rd_status r4 = UNIT_DECODE_OK" using s4 by (auto simp: r4'_def check_def split: option.splits if_splits)
  have s3: "rd_status r3 = UNIT_DECODE_OK" using s4r ver rd_take_sticky by (metis prod.inject)
  have s2: "rd_status r2' = UNIT_DECODE_OK" using u8_codec.ok_before [OF vl] s3 by simp
  have c2: "fv = UNIT_BYTES_FORMAT_VERSION" "r2' = r2"
    using check_status [of UNIT_DECODE_BAD_FORMAT_VERSION _ r2] s2 unfolding r2'_def by blast+
  have s1: "rd_status r1' = UNIT_DECODE_OK" using u16_codec.ok_before [OF fv] s2 c2 by simp
  have s1r: "rd_status r1 = UNIT_DECODE_OK" using s1 by (auto simp: r1'_def check_def split: option.splits if_splits)
  obtain mx where mx: "m = Some mx" "length mx = 4" "reads ?r mx r1"
    using rd_take_reads [OF m s1r at_start(2)] .
  have c1: "mx = MAGIC" "r1' = r1"
    using check_status [of UNIT_DECODE_BAD_MAGIC _ r1] s1 mx(1) unfolding r1'_def by auto
  from u16_codec.exact [OF fv [unfolded c1(2)]] s2 c2 reads_position [OF mx(3)]
  have R2: "reads r1 (putU16 fv) r2" by auto
  from u8_codec.exact [OF vl [unfolded c2(2)] s3 reads_position [OF R2]] have R3: "reads r2 (putU8 vl) r3" by blast
  obtain vx where vx: "ver = Some vx" "length vx = unat vl" "reads r3 vx r4"
    using rd_take_reads [OF ver s4r reads_position [OF R3]] .
  have c4: "unat vl = length version" "vx = version" "r4' = r4"
    using check_status [of UNIT_DECODE_VERSION_MISMATCH _ r4] s4 vx(1) unfolding r4'_def by auto
  from u32_codec.exact [OF bl [unfolded c4(3)]] s5 c5 reads_position [OF vx(3)]
  have R5: "reads r4 (putU32 bl) r5" by auto
  obtain bx where bx: "blob = Some bx" "length bx = unat bl" "reads r5 bx r6"
    using rd_take_reads [OF blob [unfolded c5(2)] s6 reads_position [OF R5]] .
  from u32_codec.exact [OF fc _ reads_position [OF bx(3)]] f8 c7 have R7: "reads r6 (putU32 fc) r7" by auto
  have arena: "arena = bx" using bx(1) by (simp add: arena_def)
  from function_codec.many_exact [OF failed_sticky fns s9] reads_position [OF R7] f8 c7
  have R9: "length fns = unat fc" "\<forall>fn \<in> set fns. fn_ok (length arena) (unat fc) fn"
    "reads r7 (concat (map encodeFunction fns)) r9" by auto
  from reads_trans [OF mx(3) reads_trans [OF R2 reads_trans [OF R3 reads_trans [OF vx(3) reads_trans [OF R5
      reads_trans [OF bx(3) reads_trans [OF R7 R9(3)]]]]]]]
  have all: "reads ?r (mx @ putU16 fv @ putU8 vl @ vx @ putU32 bl @ bx @ putU32 fc @ concat (map encodeFunction fns)) r9" .
  have enc: "mx @ putU16 fv @ putU8 vl @ vx @ putU32 bl @ bx @ putU32 fc @ concat (map encodeFunction fns) =
      unitEncode version u"
  proof -
    have "bl = word_of_nat (length bx)" "fc = word_of_nat (length fns)" "vl = word_of_nat (length version)"
      using bx(2) R9(1) c4(1) by (simp_all flip: c4(1))
    then show ?thesis using c1(1) c2(1) c4(2) arena res(5) by (simp add: unitEncode_def)
  qed
  have "unitEncode version u = data"
    using all res(3) unfolding enc reads_def at_bytes_def by (auto simp: start_def)
  moreover have "unit_ok u" using R9 c7(1) f8(3) c5(1) bx(2) arena res(5)
    by (auto simp: unit_ok_def unat_eq_zero)
  ultimately show ?thesis using res(4,5) by (simp add: unit_wire_def)
qed

section \<open>Properties\<close>

text \<open>
  C18. Decoding the bytes of any well-formed unit gives the unit back, field by field: functions,
  bytecode, lines, constants of every kind and captured variables, with the string bytes.
\<close>

theorem unit_bytes_roundtrip:
  assumes "unit_ok u" "length version < 256"
  shows "unitDecode version (unitEncode version u) = (Some (unit_wire u), UNIT_DECODE_OK)"
  using assms by (rule unitDecode_roundtrip)

definition sample_unit :: CompiledUnit where
  "sample_unit =
     \<lparr>cu_strings = stringSetInit\<lparr>ss_arena := [0x68, 0x69], ss_arenaCapacity := 64\<rparr>,
      cu_functions =
        [cuInitFn\<lparr>cf_code := [0, 0, 10, 1, 11], cf_codeLines := [1, 1, 1, 2, 2],
           cf_constants := [CONST_STRING 0 2, CONST_NUMBER NUMBER_KIND_I8 (- 3), CONST_FUNCTION 1]\<rparr>,
         cuInitFn\<lparr>cf_nameLength := 1, cf_upvalues := [\<lparr>cv_isLocal = True, cv_index = 7\<rparr>]\<rparr>]\<rparr>"

lemma sample_unit_ok: "unit_ok sample_unit"
  by (simp add: unit_ok_def sample_unit_def fn_ok_def header_ok_def code_ok_def const_ok_def cuInitFn_def
      stringSetInit_def rangeInside_def in_i32_def payload_ok_def in_kind_def int_value_def kind_lo_def
      kind_hi_def)

theorem unit_bytes_roundtrip_witness:
  "unitDecode [48, 46, 52] (unitEncode [48, 46, 52] sample_unit) = (Some (unit_wire sample_unit), UNIT_DECODE_OK)"
  by (rule unit_bytes_roundtrip [OF sample_unit_ok]) simp

text \<open>
  C10. The decoder accepts nothing but encodings of well-formed units: whatever bytes it accepts,
  every index, offset and count of the unit is in range, every integer constant is in the range
  of its kind, and encoding the unit again gives exactly these bytes.
\<close>

theorem unitDecode_accepts_only_encodings:
  assumes "unitDecode version data = (Some u, st)"
  shows "unit_ok u \<and> unitEncode version u = data \<and> st = UNIT_DECODE_OK"
  using unitDecode_exact [OF assms] by blast

theorem unitDecode_accepts_only_encodings_witness:
  "unitEncode [48, 46, 52] (unit_wire sample_unit) = unitEncode [48, 46, 52] sample_unit"
  using unitDecode_accepts_only_encodings [OF unitDecode_roundtrip [OF sample_unit_ok, of "[48, 46, 52]"]]
  by simp

end
