(* ===== verification/Packaged_Program.thy ===== *)
theory Packaged_Program
  imports Unit_Bytes
begin

text \<open>
  Packaged programs, \<^verbatim>\<open>src/packaged_program.c\<close>, and the loading half of \<^verbatim>\<open>src/runtime.c\<close>.  A
  payload is the bytes of the \<^verbatim>\<open>StrBuf\<close>.  The file system is a map from paths to contents;
  what the operating system may refuse is the record \<open>Os\<close>, a parameter of every operation that
  does input or output.
\<close>

section \<open>Payloads\<close>

definition TRAILER_MAGIC :: bytes where
  "TRAILER_MAGIC = [0x4b, 0x52, 0x42, 0x41, 0x50, 0x50, 0x30, 0x31]"

definition PACKAGED_TRAILER_SIZE :: nat where
  "PACKAGED_TRAILER_SIZE = 16"

definition putU32At :: "bytes \<Rightarrow> nat \<Rightarrow> u32 \<Rightarrow> bytes" where
  "putU32At buf at value =
     take at buf @ map (\<lambda>i. ucast (drop_bit (8 * i) value AND 0xff)) [0..<4] @ drop (at + 4) buf"

definition getU32At :: "bytes \<Rightarrow> nat \<Rightarrow> u32" where
  "getU32At buf at =
     ucast (buf ! at) OR push_bit 8 (ucast (buf ! (at + 1))) OR push_bit 16 (ucast (buf ! (at + 2))) OR
       push_bit 24 (ucast (buf ! (at + 3)))"

definition packagedAddUnit :: "bytes \<Rightarrow> bytes \<Rightarrow> CompiledUnit \<Rightarrow> bytes" where
  "packagedAddUnit KIRBY_VERSION payload unit =
     (let lengthAt = length payload;
          payload = payload @ [0, 0, 0, 0];
          payload = payload @ unitEncode KIRBY_VERSION unit
      in putU32At payload lengthAt (word_of_nat (length payload - lengthAt - 4)))"

datatype PackagedUnitStatus =
    PACKAGED_UNIT_OK bytes nat
  | PACKAGED_UNIT_END
  | PACKAGED_UNIT_DAMAGED

text \<open>The unit at the cursor, with the cursor after it.\<close>

definition packagedNextUnit :: "bytes \<Rightarrow> nat \<Rightarrow> PackagedUnitStatus" where
  "packagedNextUnit payload cursor =
     (if cursor = length payload then PACKAGED_UNIT_END
      else if length payload - cursor < 4 then PACKAGED_UNIT_DAMAGED
      else
        let unitLength = unat (getU32At payload cursor);
            position = cursor + 4
        in if unitLength > length payload - position then PACKAGED_UNIT_DAMAGED
           else PACKAGED_UNIT_OK (take unitLength (drop position payload)) (position + unitLength))"

section \<open>Files\<close>

type_synonym path = string
type_synonym files = "path \<Rightarrow> bytes option"

record Os =
  os_same :: bool
  os_open :: bool
  os_fdopen :: bool
  os_copy :: "nat option"
  os_payload :: "nat option"
  os_trailer :: "nat option"
  os_close :: "nat option"
  os_chmod :: bool
  os_rename :: bool
  os_remove :: bool

text \<open>
  A write that stops after some bytes when the system refuses the rest.  Closing is one too: what
  \<open>fwrite\<close> took may still be in a buffer, and when it cannot be written out \<open>fclose\<close> fails and the file
  has only a part.
\<close>

definition write_some :: "nat option \<Rightarrow> bytes \<Rightarrow> bool \<times> bytes" where
  "write_some refused bs = (case refused of None \<Rightarrow> (True, bs) | Some n \<Rightarrow> (False, take n bs))"

definition trailer_bytes :: "nat \<Rightarrow> bytes" where
  "trailer_bytes payloadLength =
     TRAILER_MAGIC @
     map (\<lambda>i. ucast (drop_bit (8 * i) (word_of_nat payloadLength :: u64) AND 0xff)) [0..<8]"

text \<open>
  The temporary output: the first of a hundred names that is not taken.  \<open>temp\<close> gives the name
  of an attempt, which the source makes of the output path, the process and the attempt.
\<close>

fun openTemporaryOutput ::
    "Os \<Rightarrow> (path \<Rightarrow> nat \<Rightarrow> path) \<Rightarrow> files \<Rightarrow> path \<Rightarrow> nat \<Rightarrow> nat \<Rightarrow> path option \<times> files" where
  "openTemporaryOutput os temp fs outputPath 0 attempt = (None, fs)"
| "openTemporaryOutput os temp fs outputPath (Suc n) attempt =
     (let path = temp outputPath attempt
      in if fs path \<noteq> None then openTemporaryOutput os temp fs outputPath n (attempt + 1)
         else if \<not> os_open os then (None, fs)
         else if \<not> os_fdopen os then (None, if os_remove os then fs else fs(path \<mapsto> []))
         else (Some path, fs(path \<mapsto> [])))"

datatype PackagedWriteError =
    COULD_NOT_OPEN_RUNTIME
  | OUTPUT_IS_RUNTIME
  | COULD_NOT_WRITE

definition packagedWrite ::
    "Os \<Rightarrow> (path \<Rightarrow> nat \<Rightarrow> path) \<Rightarrow> files \<Rightarrow> path \<Rightarrow> path \<Rightarrow> bytes \<Rightarrow> PackagedWriteError option \<times> files" where
  "packagedWrite os temp fs runtimePath outputPath payload =
     (case fs runtimePath of
        None \<Rightarrow> (Some COULD_NOT_OPEN_RUNTIME, fs)
      | Some runtime \<Rightarrow>
          if fs outputPath \<noteq> None \<and> (runtimePath = outputPath \<or> os_same os) then (Some OUTPUT_IS_RUNTIME, fs)
          else
            (case openTemporaryOutput os temp fs outputPath 100 0 of
              (None, fs) \<Rightarrow> (Some COULD_NOT_WRITE, fs)
            | (Some temporaryPath, fs) \<Rightarrow>
                let (ok, out) = write_some (os_copy os) runtime;
                    (ok, out) = (if ok then let (ok, bs) = write_some (os_payload os) payload in (ok, out @ bs)
                                 else (ok, out));
                    (ok, out) = (if ok then let (ok, bs) = write_some (os_trailer os)
                                                              (trailer_bytes (length payload)) in (ok, out @ bs)
                                 else (ok, out));
                    (closed, out) = write_some (os_close os) out;
                    fs = fs(temporaryPath \<mapsto> out);
                    ok = (ok \<and> closed);
                    ok = (ok \<and> os_chmod os);
                    ok = (ok \<and> os_rename os);
                    fs = (if ok then fs(outputPath \<mapsto> out, temporaryPath := None) else fs)
                in if \<not> ok then (Some COULD_NOT_WRITE,
                                 if os_remove os then fs(temporaryPath := None) else fs)
                   else (None, fs)))"

datatype PackagedReadStatus =
    PACKAGED_READ_OK
  | PACKAGED_READ_NO_PROGRAM
  | PACKAGED_READ_DAMAGED
  | PACKAGED_READ_IO_ERROR

text \<open>Reading a file that the system lets us read to the end, or not at all.\<close>

definition packagedRead :: "files \<Rightarrow> path \<Rightarrow> PackagedReadStatus \<times> bytes" where
  "packagedRead fs path =
     (case fs path of
        None \<Rightarrow> (PACKAGED_READ_IO_ERROR, [])
      | Some file \<Rightarrow>
          if length file < PACKAGED_TRAILER_SIZE then (PACKAGED_READ_NO_PROGRAM, [])
          else
            let trailer = drop (length file - PACKAGED_TRAILER_SIZE) file
            in if take 8 trailer \<noteq> TRAILER_MAGIC then (PACKAGED_READ_NO_PROGRAM, [])
               else
                 let len = foldl (\<lambda>v i. v OR push_bit (8 * i) (ucast (trailer ! (8 + i)))) (0 :: u64) [0..<8]
                 in if unat len > length file - PACKAGED_TRAILER_SIZE then (PACKAGED_READ_DAMAGED, [])
                    else (PACKAGED_READ_OK,
                          take (unat len) (drop (length file - PACKAGED_TRAILER_SIZE - unat len) file)))"

section \<open>Loading a packaged program\<close>

datatype LoadDeath =
    NO_PROGRAM_TO_RUN
  | PROGRAM_DAMAGED
  | COULD_NOT_READ_PROGRAM
  | COULD_NOT_LOAD UnitDecodeStatus

definition death_exit_code :: "LoadDeath \<Rightarrow> int" where
  "death_exit_code d = (case d of NO_PROGRAM_TO_RUN \<Rightarrow> 64 | _ \<Rightarrow> 71)"

definition readPayload :: "files \<Rightarrow> path \<Rightarrow> LoadDeath + bytes" where
  "readPayload fs self =
     (case packagedRead fs self of
        (PACKAGED_READ_OK, payload) \<Rightarrow> Inr payload
      | (PACKAGED_READ_NO_PROGRAM, _) \<Rightarrow> Inl NO_PROGRAM_TO_RUN
      | (PACKAGED_READ_DAMAGED, _) \<Rightarrow> Inl PROGRAM_DAMAGED
      | (PACKAGED_READ_IO_ERROR, _) \<Rightarrow> Inl COULD_NOT_READ_PROGRAM)"

lemma packagedNextUnit_progress:
  "packagedNextUnit payload cursor = PACKAGED_UNIT_OK bs cursor' \<Longrightarrow>
     cursor < cursor' \<and> cursor' \<le> length payload \<and> length payload - cursor' < length payload - cursor"
  by (auto simp: packagedNextUnit_def Let_def split: if_splits)

function decode_loop :: "bytes \<Rightarrow> bytes \<Rightarrow> nat \<Rightarrow> CompiledUnit list \<Rightarrow> LoadDeath + CompiledUnit list" where
  "decode_loop KIRBY_VERSION payload cursor units =
     (case packagedNextUnit payload cursor of
        PACKAGED_UNIT_END \<Rightarrow> Inr units
      | PACKAGED_UNIT_DAMAGED \<Rightarrow> Inl PROGRAM_DAMAGED
      | PACKAGED_UNIT_OK bs cursor' \<Rightarrow>
          (case unitDecode KIRBY_VERSION bs of
             (None, status) \<Rightarrow> Inl (COULD_NOT_LOAD status)
           | (Some unit, _) \<Rightarrow> decode_loop KIRBY_VERSION payload cursor' (units @ [unit])))"
  by auto
termination
  by (relation "measure (\<lambda>(_, payload, cursor, _). length payload - cursor)")
    (auto dest: packagedNextUnit_progress)

declare decode_loop.simps [simp del]

definition decodeUnits :: "bytes \<Rightarrow> bytes \<Rightarrow> LoadDeath + CompiledUnit list" where
  "decodeUnits KIRBY_VERSION payload =
     (case decode_loop KIRBY_VERSION payload 0 [] of
        Inl death \<Rightarrow> Inl death
      | Inr units \<Rightarrow> if units = [] then Inl PROGRAM_DAMAGED else Inr units)"

section \<open>What goes in comes out\<close>

lemma packagedAddUnit_append:
  "packagedAddUnit v payload u =
     payload @ le_bytes 4 (word_of_nat (length (unitEncode v u)) :: u32) @ unitEncode v u"
proof -
  have "putU32At (payload @ [0, 0, 0, 0] @ xs) (length payload) w = payload @ le_bytes 4 w @ xs" for xs w
    using put_le_bytes(2) [of w] by (simp add: putU32At_def putU32_def)
  then show ?thesis by (simp add: packagedAddUnit_def Let_def)
qed

lemma getU32At_le_word:
  "at + 4 \<le> length buf \<Longrightarrow> getU32At buf at = le_word (take 4 (drop at buf))"
  by (subst le_word_explicit(2)) (simp_all add: getU32At_def)

lemma packagedNextUnit_at:
  assumes "length bs < 2 ^ 32"
  shows "packagedNextUnit (pre @ le_bytes 4 (word_of_nat (length bs) :: u32) @ bs @ rest) (length pre) =
     PACKAGED_UNIT_OK bs (length pre + 4 + length bs)"
proof -
  let ?p = "pre @ le_bytes 4 (word_of_nat (length bs) :: u32) @ bs @ rest"
  have "getU32At ?p (length pre) = le_word (take 4 (drop (length pre) ?p))"
    by (rule getU32At_le_word) simp
  also have "\<dots> = word_of_nat (length bs)" by simp
  finally have "unat (getU32At ?p (length pre)) = length bs"
    using assms by (simp add: unsigned_of_nat take_bit_nat_eq_self)
  then show ?thesis by (simp add: packagedNextUnit_def Let_def)
qed

definition package :: "bytes \<Rightarrow> CompiledUnit list \<Rightarrow> bytes" where
  "package v us = foldl (packagedAddUnit v) [] us"

lemma foldl_package: "foldl (packagedAddUnit v) payload us = payload @ package v us"
proof (induction us arbitrary: payload)
  case (Cons u us)
  have "package v (u # us) = packagedAddUnit v [] u @ package v us"
    using Cons.IH [of "packagedAddUnit v [] u"] by (simp add: package_def)
  moreover have "packagedAddUnit v payload u = payload @ packagedAddUnit v [] u"
    by (simp add: packagedAddUnit_append)
  ultimately show ?case using Cons.IH [of "packagedAddUnit v payload u"] by simp
qed (simp add: package_def)

lemma package_Cons:
  "package v (u # us) = le_bytes 4 (word_of_nat (length (unitEncode v u)) :: u32) @ unitEncode v u @ package v us"
  using foldl_package [of v "packagedAddUnit v [] u" us]
  by (simp add: package_def packagedAddUnit_append)

lemma decode_loop_package:
  assumes "length v < 256" "\<forall>u \<in> set us. unit_ok u \<and> length (unitEncode v u) < 2 ^ 32"
  shows "decode_loop v (pre @ package v us) (length pre) acc = Inr (acc @ map unit_wire us)"
  using assms(2)
proof (induction us arbitrary: pre acc)
  case Nil
  then show ?case by (simp add: decode_loop.simps package_def packagedNextUnit_def)
next
  case (Cons u us)
  let ?len = "le_bytes 4 (word_of_nat (length (unitEncode v u)) :: u32)"
  have p: "pre @ package v (u # us) = pre @ ?len @ unitEncode v u @ package v us"
    by (simp add: package_Cons)
  have nxt: "packagedNextUnit (pre @ ?len @ unitEncode v u @ package v us) (length pre) =
      PACKAGED_UNIT_OK (unitEncode v u) (length (pre @ ?len @ unitEncode v u))"
    using packagedNextUnit_at [of "unitEncode v u" pre "package v us"] Cons.prems by simp
  have "decode_loop v (pre @ package v (u # us)) (length pre) acc =
      decode_loop v ((pre @ ?len @ unitEncode v u) @ package v us) (length (pre @ ?len @ unitEncode v u))
        (acc @ [unit_wire u])"
    unfolding p
    by (subst decode_loop.simps)
      (use Cons.prems assms(1) unitDecode_roundtrip [of u v] in \<open>simp add: nxt [simplified]\<close>)
  also have "\<dots> = Inr ((acc @ [unit_wire u]) @ map unit_wire us)" by (rule Cons.IH) (use Cons.prems in simp)
  finally show ?case by simp
qed

lemma decodeUnits_package:
  "length v < 256 \<Longrightarrow> \<forall>u \<in> set us. unit_ok u \<and> length (unitEncode v u) < 2 ^ 32 \<Longrightarrow> us \<noteq> [] \<Longrightarrow>
     decodeUnits v (package v us) = Inr (map unit_wire us)"
  using decode_loop_package [of v us "[]" "[]"] by (simp add: decodeUnits_def)

lemma trailer_bytes_le: "trailer_bytes n = TRAILER_MAGIC @ le_bytes 8 (word_of_nat n :: u64)"
  using put_le_bytes(3) [of "word_of_nat n"] by (simp add: trailer_bytes_def putDouble_def)

lemma length_TRAILER_MAGIC [simp]: "length TRAILER_MAGIC = 8"
  by (simp add: TRAILER_MAGIC_def)

lemma packagedRead_trailer:
  assumes "fs path = Some (runtime @ payload @ trailer_bytes (length payload))" "length payload < 2 ^ 64"
  shows "packagedRead fs path = (PACKAGED_READ_OK, payload)"
proof -
  let ?file = "runtime @ payload @ trailer_bytes (length payload)"
  let ?len = "word_of_nat (length payload) :: u64"
  have l: "length (trailer_bytes n) = 16" for n by (simp add: trailer_bytes_le)
  have tr: "drop (length ?file - PACKAGED_TRAILER_SIZE) ?file = trailer_bytes (length payload)"
    by (simp add: l PACKAGED_TRAILER_SIZE_def)
  have "foldl (\<lambda>v i. v OR push_bit (8 * i) (ucast (trailer_bytes (length payload) ! (8 + i)))) (0 :: u64) [0..<8] =
      foldl (\<lambda>v i. v OR push_bit (8 * i) (ucast (le_bytes 8 ?len ! i))) 0 [0..<8]"
    by (rule foldl_or_cong) (simp add: trailer_bytes_le nth_append)
  also have "\<dots> = le_word (le_bytes 8 ?len)" by (simp add: le_word_def)
  also have "\<dots> = ?len" by simp
  finally have len: "unat (foldl (\<lambda>v i. v OR push_bit (8 * i) (ucast (trailer_bytes (length payload) ! (8 + i))))
      (0 :: u64) [0..<8]) = length payload"
    using assms(2) by (simp add: unsigned_of_nat take_bit_nat_eq_self)
  have m: "take 8 (trailer_bytes (length payload)) = TRAILER_MAGIC" by (simp add: trailer_bytes_le)
  show ?thesis
    unfolding packagedRead_def assms(1) option.case Let_def tr len m
    by (simp add: l PACKAGED_TRAILER_SIZE_def)
qed

section \<open>The output file is replaced at once or not at all\<close>

lemma openTemporaryOutput_cases:
  assumes "openTemporaryOutput os temp fs out n a = (res, fs')" "\<And>i. temp out i \<noteq> out"
  shows "(case res of None \<Rightarrow> fs' out = fs out \<and> (os_remove os \<longrightarrow> fs' = fs)
     | Some p \<Rightarrow> p \<noteq> out \<and> fs p = None \<and> fs' = fs(p \<mapsto> []))"
  using assms(1)
proof (induction n arbitrary: a)
  case (Suc n)
  then show ?case using assms(2) [of a] by (auto simp: Let_def split: if_splits)
qed auto

text \<open>What a run of \<open>packagedWrite\<close> can do to the files.\<close>

lemma packagedWrite_outcome:
  assumes "packagedWrite os temp fs runtimePath out payload = (res, fs')" "\<And>i. temp out i \<noteq> out"
  shows "(res \<noteq> None \<and> fs' out = fs out \<and> (os_remove os \<longrightarrow> fs' = fs)) \<or>
     (res = None \<and> (\<exists>runtime. fs runtimePath = Some runtime \<and>
        fs' = fs(out \<mapsto> runtime @ payload @ trailer_bytes (length payload))))"
proof (cases "fs runtimePath")
  case None
  with assms(1) show ?thesis by (auto simp: packagedWrite_def)
next
  case (Some runtime)
  show ?thesis
  proof (cases "fs out \<noteq> None \<and> (runtimePath = out \<or> os_same os)")
    case True
    with assms(1) Some show ?thesis by (auto simp: packagedWrite_def)
  next
    case False
    obtain t fs1 where t: "openTemporaryOutput os temp fs out 100 0 = (t, fs1)" by fastforce
    note tc = openTemporaryOutput_cases [OF t assms(2)]
    show ?thesis
    proof (cases t)
      case None
      then show ?thesis using assms(1) Some False t tc
        by (auto simp: packagedWrite_def simp del: openTemporaryOutput.simps)
    next
      case (Some p)
      then have p: "p \<noteq> out" "fs p = None" "fs1 = fs(p \<mapsto> [])" using tc by auto
      have d: "packagedWrite os temp fs runtimePath out payload =
        (let (ok, bs) = (case write_some (os_copy os) runtime of (ok, bs) \<Rightarrow>
            if ok then case write_some (os_payload os) payload of (ok, bs') \<Rightarrow>
              if ok then case write_some (os_trailer os) (trailer_bytes (length payload)) of (ok, bs'') \<Rightarrow>
                (ok, (bs @ bs') @ bs'') else (ok, bs @ bs') else (ok, bs));
             (closed, bs) = write_some (os_close os) bs
         in if ok \<and> closed \<and> os_chmod os \<and> os_rename os
            then (None, fs1(p \<mapsto> bs, out \<mapsto> bs, p := None))
            else (Some COULD_NOT_WRITE, if os_remove os then fs1(p \<mapsto> bs, p := None) else fs1(p \<mapsto> bs)))"
        using False unfolding packagedWrite_def \<open>fs runtimePath = Some runtime\<close> option.case t Some prod.case
        by (auto simp: Let_def fun_upd_twist split: prod.split)
      show ?thesis
        using assms(1) p unfolding d
        by (auto simp: write_some_def Let_def \<open>fs runtimePath = Some runtime\<close> fun_upd_twist fun_upd_idem
            split: option.splits if_splits)
    qed
  qed
qed

section \<open>Properties\<close>

text \<open>
  C19. Writing a packaged program is all or nothing, whatever step the operating system refuses, the
  closing that writes out the buffered rest included:
  on failure the output path holds what it held before (and, when the temporary file could be
  removed, no file changed at all); on success the output is exactly the runtime, the payload
  and the trailer, and nothing else changed.
\<close>

theorem packagedWrite_all_or_nothing:
  assumes "packagedWrite os temp fs runtimePath out payload = (res, fs')" "\<forall>i. temp out i \<noteq> out"
  shows "(res \<noteq> None \<and> fs' out = fs out \<and> (os_remove os \<longrightarrow> fs' = fs)) \<or>
     (res = None \<and> (\<exists>runtime. fs runtimePath = Some runtime \<and>
        fs' = fs(out \<mapsto> runtime @ payload @ trailer_bytes (length payload))))"
  using packagedWrite_outcome [OF assms(1)] assms(2) by blast

definition good_os :: Os where
  "good_os = \<lparr>os_same = False, os_open = True, os_fdopen = True, os_copy = None, os_payload = None,
     os_trailer = None, os_close = None, os_chmod = True, os_rename = True, os_remove = True\<rparr>"

definition tmp_name :: "path \<Rightarrow> nat \<Rightarrow> path" where
  "tmp_name p i = p @ ''.tmp'' @ replicate i (CHR ''x'')"

lemma openTemporaryOutput_first:
  assumes "fs (temp out 0) = None" "os_open os" "os_fdopen os"
  shows "openTemporaryOutput os temp fs out 100 0 = (Some (temp out 0), fs(temp out 0 \<mapsto> []))"
proof -
  have "(100 :: nat) = Suc 99" by simp
  then show ?thesis using assms by (simp only: openTemporaryOutput.simps) (simp add: Let_def)
qed

lemma tmp_name_0: "tmp_name ''out'' 0 = ''out.tmp''"
  by (simp add: tmp_name_def)

text \<open>A full disk that shows only when the file is closed: the old output stays.\<close>

theorem packagedWrite_all_or_nothing_witness:
  "snd (packagedWrite (good_os\<lparr>os_close := Some 1\<rparr>) tmp_name [''rt'' \<mapsto> [7], ''out'' \<mapsto> [1]] ''rt'' ''out'' [2, 3])
     ''out'' = Some [1]"
proof -
  let ?w = "packagedWrite (good_os\<lparr>os_close := Some 1\<rparr>) tmp_name [''rt'' \<mapsto> [7], ''out'' \<mapsto> [1]] ''rt'' ''out'' [2, 3]"
  have res: "fst ?w = Some COULD_NOT_WRITE"
    by (simp add: packagedWrite_def good_os_def openTemporaryOutput_first tmp_name_0 write_some_def)
  have "?w = (fst ?w, snd ?w)" by simp
  from packagedWrite_all_or_nothing [OF this] res show ?thesis by (simp add: tmp_name_def)
qed

text \<open>
  C20. From the compiler's units to the running program: when the units are well-formed and the
  file could be written, the runtime that reads its own file gets back the payload, and decodes
  exactly the units that were packaged, in order.
\<close>

theorem packaged_units_arrive:
  assumes "\<forall>u \<in> set us. unit_ok u \<and> length (unitEncode version u) < 2 ^ 32" "us \<noteq> []"
    "length version < 256" "length (foldl (packagedAddUnit version) [] us) < 2 ^ 64"
    "\<forall>i. temp out i \<noteq> out"
    "packagedWrite os temp fs runtimePath out (foldl (packagedAddUnit version) [] us) = (None, fs')"
  shows "readPayload fs' out = Inr (foldl (packagedAddUnit version) [] us) \<and>
    decodeUnits version (foldl (packagedAddUnit version) [] us) = Inr (map unit_wire us)"
proof -
  let ?p = "foldl (packagedAddUnit version) [] us"
  obtain runtime where "fs' = fs(out \<mapsto> runtime @ ?p @ trailer_bytes (length ?p))"
    using packagedWrite_outcome [OF assms(6)] assms(5) by auto
  then have "packagedRead fs' out = (PACKAGED_READ_OK, ?p)"
    using assms(4) by (intro packagedRead_trailer) simp_all
  then show ?thesis
    using decodeUnits_package [OF assms(3,1,2)] by (simp add: readPayload_def package_def)
qed

lemma length_sample_encode: "length (unitEncode [48] sample_unit) < 2 ^ 32"
  by (simp add: unitEncode_def sample_unit_def encodeFunction_def encodeConstant_def encodeUpvalue_def
      cuInitFn_def stringSetInit_def)

lemma length_package_sample: "length (foldl (packagedAddUnit [48]) [] [sample_unit, sample_unit]) < 2 ^ 64"
  using length_sample_encode by (simp add: packagedAddUnit_append)

theorem packaged_units_arrive_witness:
  "\<exists>fs'. packagedWrite good_os tmp_name [''rt'' \<mapsto> [7]] ''rt'' ''out''
       (foldl (packagedAddUnit [48]) [] [sample_unit, sample_unit]) = (None, fs') \<and>
     decodeUnits [48] (foldl (packagedAddUnit [48]) [] [sample_unit, sample_unit]) =
       Inr [unit_wire sample_unit, unit_wire sample_unit]"
proof -
  let ?p = "foldl (packagedAddUnit [48]) [] [sample_unit, sample_unit]"
  let ?w = "packagedWrite good_os tmp_name [''rt'' \<mapsto> [7]] ''rt'' ''out'' ?p"
  have "fst ?w = None"
    by (simp add: packagedWrite_def good_os_def openTemporaryOutput_first tmp_name_0 write_some_def)
  then have w: "?w = (None, snd ?w)" by (metis prod.collapse)
  have "\<forall>u \<in> set [sample_unit, sample_unit]. unit_ok u \<and> length (unitEncode [48] u) < 2 ^ 32"
    using sample_unit_ok length_sample_encode by simp
  moreover have "\<forall>i. tmp_name ''out'' i \<noteq> ''out''" by (simp add: tmp_name_def)
  ultimately have "decodeUnits [48] ?p = Inr (map unit_wire [sample_unit, sample_unit])"
    using packaged_units_arrive [of "[sample_unit, sample_unit]" "[48]" tmp_name "''out''" good_os
        "[''rt'' \<mapsto> [7]]" "''rt''" "snd ?w", OF _ _ _ length_package_sample _ w] by simp
  with w show ?thesis by auto
qed

end
