(* ===== verification/Runtime_State.thy ===== *)
theory Runtime_State
  imports Hash_Table String_Set
begin

text \<open>
  The state of the running program: the objects of \<^verbatim>\<open>src/object.h\<close>, the collector's heap of
  \<^verbatim>\<open>src/gc.h\<close>, the chunks of \<^verbatim>\<open>src/chunk.h\<close> and the virtual machine of \<^verbatim>\<open>src/vm.h\<close>.  An object
  pointer is an address; the heap maps the addresses of the allocated objects to their contents,
  so that reading through a dangling pointer is \<open>None\<close>, as is every other undefined behaviour of
  the C code.  Addresses are never used twice.  \<open>isMarked\<close> and the list through \<open>next\<close> are
  fields of the heap.
\<close>

section \<open>Objects\<close>

datatype ObjType =
    OBJ_STRUCT | OBJ_INSTANCE | OBJ_BOUND_METHOD | OBJ_CLOSURE | OBJ_FUNCTION | OBJ_NATIVE
  | OBJ_STRING | OBJ_UPVALUE | OBJ_LIST | OBJ_ARRAY

record ValueArray =
  va_capacity :: nat
  va_values :: "Value list"

record Chunk =
  ch_capacity :: nat
  ch_code :: bytes
  ch_lines :: "int list"
  ch_constants :: ValueArray

record ObjString =
  str_chars :: bytes
  str_hash :: u32

record ObjList =
  li_capacity :: nat
  li_values :: "Value list"

text \<open>An upvalue points into the stack until it is closed, then at its own \<open>closed\<close> field.\<close>

datatype Location = LOC_STACK nat | LOC_CLOSED

record ObjUpvalue =
  uv_location :: Location
  uv_closed :: Value

record ObjFunction =
  fn_arity :: int
  fn_upvalueCount :: nat
  fn_chunk :: Chunk
  fn_name :: "obj_ref option"
  fn_isStatic :: bool
  fn_isPublic :: bool

record ObjClosure =
  cl_function :: obj_ref
  cl_upvalues :: "obj_ref option list"
  cl_owner :: "obj_ref option"

text \<open>\<open>newStruct\<close> leaves \<open>fieldMutable\<close> uninitialised: an entry is \<open>None\<close> until it is written.\<close>

record ObjStruct =
  st_name :: obj_ref
  st_methods :: Table
  st_fields :: Table
  st_fieldCount :: nat
  st_fieldPublic :: "bool list"
  st_fieldMutable :: "bool option list"

record ObjInstance =
  in_struct :: obj_ref
  in_fields :: "Value list option"

record ObjBoundMethod =
  bm_receiver :: Value
  bm_method :: obj_ref

datatype Obj =
    OStruct ObjStruct
  | OInstance ObjInstance
  | OBoundMethod ObjBoundMethod
  | OClosure ObjClosure
  | OFunction ObjFunction
  | ONative nat
  | OString ObjString
  | OUpvalue ObjUpvalue
  | OList ObjList
  | OArray "Value list"

fun obj_type :: "Obj \<Rightarrow> ObjType" where
  "obj_type (OStruct s) = OBJ_STRUCT"
| "obj_type (OInstance i) = OBJ_INSTANCE"
| "obj_type (OBoundMethod b) = OBJ_BOUND_METHOD"
| "obj_type (OClosure c) = OBJ_CLOSURE"
| "obj_type (OFunction f) = OBJ_FUNCTION"
| "obj_type (ONative n) = OBJ_NATIVE"
| "obj_type (OString s) = OBJ_STRING"
| "obj_type (OUpvalue u) = OBJ_UPVALUE"
| "obj_type (OList l) = OBJ_LIST"
| "obj_type (OArray a) = OBJ_ARRAY"

section \<open>The heap and the machine\<close>

record GC =
  gc_bytesAllocated :: u64
  gc_nextGC :: u64
  gc_objects :: "obj_ref list"
  gc_strings :: Table
  gc_grayStack :: "obj_ref list"
  gc_isMarked :: "obj_ref \<Rightarrow> bool"
  gc_store :: "obj_ref \<Rightarrow> Obj option"
  gc_fresh :: obj_ref

record CallFrame =
  fr_closure :: obj_ref
  fr_ip :: nat
  fr_slots :: nat

text \<open>
  What the machine has printed: text, and numbers still to be formatted by \<open>formatNumber\<close>.
\<close>

datatype Printed = P_text string | P_chars bytes | P_number NumberKind NumberPayload

text \<open>
  The call frames are kept with the current one first; \<open>frameCount\<close> is their number.  The chain
  of open upvalues through \<open>next\<close> is a list.  A stack slot keeps its value when it is popped, as
  the C array does.
\<close>

text \<open>
  What the natives ask of the system: the bytes still to be read from standard input, the files
  by name, which names can be opened for writing and which files can be read in full, the
  environment and the names it accepts, the numbers that \<open>rand\<close>, \<open>clock\<close> (in seconds) and \<open>time\<close>
  are going to give, the library's \<open>pow\<close>, how many bytes of a text given to \<open>fprintf\<close> stay in the
  buffer of the stream, and what the open streams still hold.
\<close>

record System =
  sys_stdin :: bytes
  sys_files :: "bytes \<Rightarrow> bytes option"
  sys_writable :: "bytes \<Rightarrow> bool"
  sys_readable :: "bytes \<Rightarrow> bool"
  sys_environment :: "bytes \<Rightarrow> bytes option"
  sys_env_name :: "bytes \<Rightarrow> bool"
  sys_rand :: "nat \<Rightarrow> nat"
  sys_clock :: "nat \<Rightarrow> u64"
  sys_time :: "nat \<Rightarrow> int"
  sys_pow :: "u64 \<Rightarrow> u64 \<Rightarrow> u64"
  sys_buffered :: "bytes \<Rightarrow> nat"
  sys_pending :: "(bytes \<times> bytes) list"

record VM =
  vm_frames :: "CallFrame list"
  vm_stack :: "nat \<Rightarrow> Value"
  vm_stackTop :: nat
  vm_globals :: Table
  vm_openUpvalues :: "obj_ref list"
  vm_gc :: GC
  vm_stdout :: "Printed list"
  vm_stderr :: "Printed list"
  vm_argv :: "bytes list"
  vm_system :: System

definition FRAMES_MAX :: nat where
  "FRAMES_MAX = 64"

definition STACK_MAX :: nat where
  "STACK_MAX = FRAMES_MAX * 256"

abbreviation vm_store :: "VM \<Rightarrow> obj_ref \<Rightarrow> Obj option" where
  "vm_store vm \<equiv> gc_store (vm_gc vm)"

text \<open>The casts \<open>AS_STRING\<close>, \<open>AS_STRUCT\<close>, ... of an object pointer.\<close>

definition as_string :: "(obj_ref \<Rightarrow> Obj option) \<Rightarrow> obj_ref \<Rightarrow> ObjString option" where
  "as_string store r = (case store r of Some (OString s) \<Rightarrow> Some s | _ \<Rightarrow> None)"

definition as_struct :: "(obj_ref \<Rightarrow> Obj option) \<Rightarrow> obj_ref \<Rightarrow> ObjStruct option" where
  "as_struct store r = (case store r of Some (OStruct s) \<Rightarrow> Some s | _ \<Rightarrow> None)"

definition as_instance :: "(obj_ref \<Rightarrow> Obj option) \<Rightarrow> obj_ref \<Rightarrow> ObjInstance option" where
  "as_instance store r = (case store r of Some (OInstance i) \<Rightarrow> Some i | _ \<Rightarrow> None)"

definition as_bound_method :: "(obj_ref \<Rightarrow> Obj option) \<Rightarrow> obj_ref \<Rightarrow> ObjBoundMethod option" where
  "as_bound_method store r = (case store r of Some (OBoundMethod b) \<Rightarrow> Some b | _ \<Rightarrow> None)"

definition as_closure :: "(obj_ref \<Rightarrow> Obj option) \<Rightarrow> obj_ref \<Rightarrow> ObjClosure option" where
  "as_closure store r = (case store r of Some (OClosure c) \<Rightarrow> Some c | _ \<Rightarrow> None)"

definition as_function :: "(obj_ref \<Rightarrow> Obj option) \<Rightarrow> obj_ref \<Rightarrow> ObjFunction option" where
  "as_function store r = (case store r of Some (OFunction f) \<Rightarrow> Some f | _ \<Rightarrow> None)"

definition as_upvalue :: "(obj_ref \<Rightarrow> Obj option) \<Rightarrow> obj_ref \<Rightarrow> ObjUpvalue option" where
  "as_upvalue store r = (case store r of Some (OUpvalue u) \<Rightarrow> Some u | _ \<Rightarrow> None)"

definition as_list :: "(obj_ref \<Rightarrow> Obj option) \<Rightarrow> obj_ref \<Rightarrow> ObjList option" where
  "as_list store r = (case store r of Some (OList l) \<Rightarrow> Some l | _ \<Rightarrow> None)"

definition as_array :: "(obj_ref \<Rightarrow> Obj option) \<Rightarrow> obj_ref \<Rightarrow> Value list option" where
  "as_array store r = (case store r of Some (OArray a) \<Rightarrow> Some a | _ \<Rightarrow> None)"

definition value_ref :: "Value \<Rightarrow> obj_ref option" where
  "value_ref v = (case v of VAL_OBJ r \<Rightarrow> Some r | _ \<Rightarrow> None)"

text \<open>\<open>IS_STRING(value)\<close> and the like read the type of the object a value points at.\<close>

definition isObjType :: "(obj_ref \<Rightarrow> Obj option) \<Rightarrow> Value \<Rightarrow> ObjType \<Rightarrow> bool option" where
  "isObjType store value type =
     (case value of
        VAL_OBJ r \<Rightarrow> do { obj \<leftarrow> store r; Some (obj_type obj = type) }
      | _ \<Rightarrow> Some False)"

text \<open>The characters and the hash that a table reads from its keys.\<close>

definition key_hash :: "(obj_ref \<Rightarrow> Obj option) \<Rightarrow> obj_ref \<Rightarrow> u32" where
  "key_hash store r = (case store r of Some (OString s) \<Rightarrow> str_hash s | _ \<Rightarrow> 0)"

definition key_chars :: "(obj_ref \<Rightarrow> Obj option) \<Rightarrow> obj_ref \<Rightarrow> bytes" where
  "key_chars store r = (case store r of Some (OString s) \<Rightarrow> str_chars s | _ \<Rightarrow> [])"

text \<open>The keys of a table are live strings: what its operations need to read their hashes.\<close>

definition keys_alive :: "(obj_ref \<Rightarrow> Obj option) \<Rightarrow> Table \<Rightarrow> bool" where
  "keys_alive store table \<longleftrightarrow> (\<forall>k \<in> set (live_keys (t_entries table)). as_string store k \<noteq> None)"

section \<open>The stack\<close>

definition pushOnStack :: "Value \<Rightarrow> VM \<Rightarrow> VM option" where
  "pushOnStack value vm =
     (if vm_stackTop vm < STACK_MAX
      then Some (vm\<lparr>vm_stack := (vm_stack vm)(vm_stackTop vm := value),
                    vm_stackTop := vm_stackTop vm + 1\<rparr>)
      else None)"

definition popFromStack :: "VM \<Rightarrow> (Value \<times> VM) option" where
  "popFromStack vm =
     (if 0 < vm_stackTop vm
      then Some (vm_stack vm (vm_stackTop vm - 1), vm\<lparr>vm_stackTop := vm_stackTop vm - 1\<rparr>)
      else None)"

definition popNFromStack :: "nat \<Rightarrow> VM \<Rightarrow> VM option" where
  "popNFromStack count vm =
     (if count \<le> vm_stackTop vm then Some (vm\<lparr>vm_stackTop := vm_stackTop vm - count\<rparr>) else None)"

definition peekStack :: "nat \<Rightarrow> VM \<Rightarrow> Value option" where
  "peekStack distance vm =
     (if distance < vm_stackTop vm then Some (vm_stack vm (vm_stackTop vm - 1 - distance)) else None)"

definition resetStack :: "VM \<Rightarrow> VM" where
  "resetStack vm = vm\<lparr>vm_stackTop := 0, vm_frames := [], vm_openUpvalues := []\<rparr>"

text \<open>The live part of the stack, bottom first.\<close>

definition stack_list :: "VM \<Rightarrow> Value list" where
  "stack_list vm = map (vm_stack vm) [0..<vm_stackTop vm]"

lemma length_stack_list [simp]: "length (stack_list vm) = vm_stackTop vm"
  by (simp add: stack_list_def)

lemma pushOnStack_list: "pushOnStack v vm = Some vm' \<Longrightarrow> stack_list vm' = stack_list vm @ [v]"
  by (auto simp: pushOnStack_def stack_list_def split: if_splits)

lemma popFromStack_list: "popFromStack vm = Some (v, vm') \<Longrightarrow> stack_list vm = stack_list vm' @ [v]"
  by (cases "vm_stackTop vm") (auto simp: popFromStack_def stack_list_def split: if_splits)

lemma popNFromStack_list: "popNFromStack n vm = Some vm' \<Longrightarrow>
    stack_list vm' = take (vm_stackTop vm - n) (stack_list vm)"
  by (auto simp: popNFromStack_def stack_list_def take_map split: if_splits)

lemma peekStack_list: "peekStack d vm = Some v \<Longrightarrow> d < length (stack_list vm) \<and> v = rev (stack_list vm) ! d"
  by (auto simp: peekStack_def stack_list_def rev_nth split: if_splits)

end
