(* ===== verification/GC.thy ===== *)
theory GC
  imports Runtime_State
begin

text \<open>
  The mark-and-sweep collector, \<^verbatim>\<open>src/gc.c\<close>, with the root marker of \<^verbatim>\<open>src/vm.c\<close> and
  \<open>markTable\<close> of \<^verbatim>\<open>src/hashtable.c\<close>.  Allocation may collect, so \<open>reallocate\<close> acts on the
  machine, whose roots the collector reads.  Memory that the system refuses (the source exits
  then) is not modelled.  The sizes are those of the LP64 layout of the C structs.
\<close>

section \<open>Marking\<close>

definition markObject :: "obj_ref option \<Rightarrow> GC \<Rightarrow> GC option" where
  "markObject object gc =
     (case object of
        None \<Rightarrow> Some gc
      | Some r \<Rightarrow>
          if gc_store gc r = None then None
          else if gc_isMarked gc r then Some gc
          else Some (gc\<lparr>gc_isMarked := (gc_isMarked gc)(r := True),
                        gc_grayStack := r # gc_grayStack gc\<rparr>))"

definition markValue :: "Value \<Rightarrow> GC \<Rightarrow> GC option" where
  "markValue value gc = (case value of VAL_OBJ r \<Rightarrow> markObject (Some r) gc | _ \<Rightarrow> Some gc)"

fun markArray :: "Value list \<Rightarrow> GC \<Rightarrow> GC option" where
  "markArray [] gc = Some gc"
| "markArray (v # vs) gc = do { gc \<leftarrow> markValue v gc; markArray vs gc }"

fun markObjects :: "obj_ref option list \<Rightarrow> GC \<Rightarrow> GC option" where
  "markObjects [] gc = Some gc"
| "markObjects (r # rs) gc = do { gc \<leftarrow> markObject r gc; markObjects rs gc }"

fun mark_entries :: "Entry list \<Rightarrow> GC \<Rightarrow> GC option" where
  "mark_entries [] gc = Some gc"
| "mark_entries (e # es) gc =
     do { gc \<leftarrow> markObject (e_key e) gc; gc \<leftarrow> markValue (e_value e) gc; mark_entries es gc }"

definition markTable :: "Table \<Rightarrow> GC \<Rightarrow> GC option" where
  "markTable table gc = mark_entries (t_entries table) gc"

text \<open>An instance's fields are counted by its struct.\<close>

definition instance_values :: "(obj_ref \<Rightarrow> Obj option) \<Rightarrow> ObjInstance \<Rightarrow> Value list option" where
  "instance_values store i =
     (case in_fields i of
        None \<Rightarrow> Some []
      | Some vs \<Rightarrow>
          do {
            s \<leftarrow> as_struct store (in_struct i);
            if st_fieldCount s \<le> length vs then Some (take (st_fieldCount s) vs) else None
          })"

definition blackenObject :: "obj_ref \<Rightarrow> GC \<Rightarrow> GC option" where
  "blackenObject object gc =
     do {
       obj \<leftarrow> gc_store gc object;
       (case obj of
          OStruct s \<Rightarrow>
            do {
              gc \<leftarrow> markObject (Some (st_name s)) gc;
              gc \<leftarrow> markTable (st_methods s) gc;
              markTable (st_fields s) gc
            }
        | OInstance i \<Rightarrow>
            do {
              gc \<leftarrow> markObject (Some (in_struct i)) gc;
              values \<leftarrow> instance_values (gc_store gc) i;
              markArray values gc
            }
        | OBoundMethod b \<Rightarrow>
            do { gc \<leftarrow> markValue (bm_receiver b) gc; markObject (Some (bm_method b)) gc }
        | OUpvalue u \<Rightarrow> markValue (uv_closed u) gc
        | OClosure c \<Rightarrow>
            do {
              gc \<leftarrow> markObject (Some (cl_function c)) gc;
              gc \<leftarrow> markObject (cl_owner c) gc;
              markObjects (cl_upvalues c) gc
            }
        | OFunction f \<Rightarrow>
            do { gc \<leftarrow> markObject (fn_name f) gc; markArray (va_values (ch_constants (fn_chunk f))) gc }
        | OList l \<Rightarrow> markArray (li_values l) gc
        | OArray a \<Rightarrow> markArray a gc
        | ONative n \<Rightarrow> Some gc
        | OString s \<Rightarrow> Some gc)
     }"

text \<open>\<open>None\<close> is a dangling read, or a loop that does not end.\<close>

partial_function (option) traceReferences :: "GC \<Rightarrow> GC option" where
  "traceReferences gc =
     (case gc_grayStack gc of
        [] \<Rightarrow> Some gc
      | object # rest \<Rightarrow>
          do { gc \<leftarrow> blackenObject object (gc\<lparr>gc_grayStack := rest\<rparr>); traceReferences gc })"

text \<open>\<open>markVMRoots\<close> of \<^verbatim>\<open>src/vm.c\<close>, the collector's root marker.\<close>

definition markVMRoots :: "VM \<Rightarrow> GC \<Rightarrow> GC option" where
  "markVMRoots vm gc =
     do {
       gc \<leftarrow> markArray (stack_list vm) gc;
       gc \<leftarrow> markObjects (map (\<lambda>f. Some (fr_closure f)) (rev (vm_frames vm))) gc;
       gc \<leftarrow> markObjects (map Some (vm_openUpvalues vm)) gc;
       markTable (vm_globals vm) gc
     }"

section \<open>Sweeping\<close>

definition sizeof_Value :: nat where "sizeof_Value = 24"
definition sizeof_Entry :: nat where "sizeof_Entry = 32"
definition sizeof_pointer :: nat where "sizeof_pointer = 8"
definition sizeof_int :: nat where "sizeof_int = 4"

fun sizeof_obj :: "ObjType \<Rightarrow> nat" where
  "sizeof_obj OBJ_STRUCT = 576"
| "sizeof_obj OBJ_INSTANCE = 32"
| "sizeof_obj OBJ_BOUND_METHOD = 48"
| "sizeof_obj OBJ_CLOSURE = 48"
| "sizeof_obj OBJ_FUNCTION = 80"
| "sizeof_obj OBJ_NATIVE = 24"
| "sizeof_obj OBJ_STRING = 40"
| "sizeof_obj OBJ_UPVALUE = 56"
| "sizeof_obj OBJ_LIST = 32"
| "sizeof_obj OBJ_ARRAY = 32"

text \<open>The accounting of \<open>reallocate\<close>, in \<open>size_t\<close>; freeing never collects.\<close>

definition account :: "nat \<Rightarrow> nat \<Rightarrow> GC \<Rightarrow> GC" where
  "account oldSize newSize gc =
     gc\<lparr>gc_bytesAllocated := gc_bytesAllocated gc + (word_of_nat newSize - word_of_nat oldSize)\<rparr>"

definition free_bytes :: "nat \<Rightarrow> GC \<Rightarrow> GC" where
  "free_bytes oldSize gc = account oldSize 0 gc"

text \<open>What an object owns beside itself: freeing an instance reads its struct.\<close>

definition owned_bytes :: "(obj_ref \<Rightarrow> Obj option) \<Rightarrow> Obj \<Rightarrow> nat list option" where
  "owned_bytes store obj =
     (case obj of
        OStruct s \<Rightarrow>
          Some [sizeof_Entry * t_capacity (st_methods s), sizeof_Entry * t_capacity (st_fields s)]
      | OInstance i \<Rightarrow>
          do { s \<leftarrow> as_struct store (in_struct i); Some [sizeof_Value * st_fieldCount s] }
      | OClosure c \<Rightarrow> Some [sizeof_pointer * length (cl_upvalues c)]
      | OFunction f \<Rightarrow>
          Some [ch_capacity (fn_chunk f), sizeof_int * ch_capacity (fn_chunk f),
                sizeof_Value * va_capacity (ch_constants (fn_chunk f))]
      | OString s \<Rightarrow> Some [length (str_chars s) + 1]
      | OList l \<Rightarrow> Some [sizeof_Value * li_capacity l]
      | OArray a \<Rightarrow> Some [sizeof_Value * length a]
      | OBoundMethod b \<Rightarrow> Some []
      | ONative n \<Rightarrow> Some []
      | OUpvalue u \<Rightarrow> Some [])"

definition freeObject :: "obj_ref \<Rightarrow> GC \<Rightarrow> GC option" where
  "freeObject object gc =
     do {
       obj \<leftarrow> gc_store gc object;
       owned \<leftarrow> owned_bytes (gc_store gc) obj;
       let gc = free_bytes (sizeof_obj (obj_type obj)) (fold free_bytes owned gc)
       in Some (gc\<lparr>gc_store := (gc_store gc)(object := None)\<rparr>)
     }"

text \<open>The loop of \<open>sweep\<close> over the object list; it returns the objects that stay.\<close>

fun sweep_loop :: "obj_ref list \<Rightarrow> GC \<Rightarrow> (obj_ref list \<times> GC) option" where
  "sweep_loop [] gc = Some ([], gc)"
| "sweep_loop (object # objects) gc =
     (if gc_store gc object = None then None
      else if gc_isMarked gc object
      then do {
        (kept, gc) \<leftarrow> sweep_loop objects (gc\<lparr>gc_isMarked := (gc_isMarked gc)(object := False)\<rparr>);
        Some (object # kept, gc)
      }
      else do {
        gc \<leftarrow> freeObject object gc;
        sweep_loop objects gc
      })"

definition sweep :: "GC \<Rightarrow> GC option" where
  "sweep gc =
     do {
       (kept, gc) \<leftarrow> sweep_loop (gc_objects gc) gc;
       Some (gc\<lparr>gc_objects := kept\<rparr>)
     }"

definition GC_HEAP_GROW_FACTOR :: u64 where
  "GC_HEAP_GROW_FACTOR = 2"

definition collectGarbage :: "VM \<Rightarrow> VM option" where
  "collectGarbage vm =
     do {
       gc \<leftarrow> markVMRoots vm (vm_gc vm);
       gc \<leftarrow> traceReferences gc;
       strings \<leftarrow> (if keys_alive (gc_store gc) (gc_strings gc)
                   then tableRemoveWhite (key_hash (gc_store gc)) (gc_isMarked gc) (gc_strings gc)
                   else None);
       gc \<leftarrow> sweep (gc\<lparr>gc_strings := strings\<rparr>);
       Some (vm\<lparr>vm_gc := gc\<lparr>gc_nextGC := gc_bytesAllocated gc * GC_HEAP_GROW_FACTOR\<rparr>\<rparr>)
     }"

text \<open>The memory is granted; \<open>oldSize\<close> and \<open>newSize\<close> are in bytes.\<close>

definition reallocate :: "nat \<Rightarrow> nat \<Rightarrow> VM \<Rightarrow> VM option" where
  "reallocate oldSize newSize vm =
     (let vm = vm\<lparr>vm_gc := account oldSize newSize (vm_gc vm)\<rparr>
      in if oldSize < newSize \<and> gc_nextGC (vm_gc vm) < gc_bytesAllocated (vm_gc vm)
         then collectGarbage vm
         else Some vm)"

fun free_all :: "obj_ref list \<Rightarrow> GC \<Rightarrow> GC option" where
  "free_all [] gc = Some gc"
| "free_all (object # objects) gc = do { gc \<leftarrow> freeObject object gc; free_all objects gc }"

definition freeObjects :: "GC \<Rightarrow> GC option" where
  "freeObjects gc = free_all (gc_objects gc) gc"


section \<open>What an object points at\<close>

definition value_refs :: "Value list \<Rightarrow> obj_ref list" where
  "value_refs vs = List.map_filter value_ref vs"

definition some_refs :: "obj_ref option list \<Rightarrow> obj_ref list" where
  "some_refs rs = List.map_filter id rs"

definition table_refs :: "Table \<Rightarrow> obj_ref list" where
  "table_refs t = concat (map (\<lambda>e. some_refs [e_key e] @ value_refs [e_value e]) (t_entries t))"

fun obj_refs :: "Obj \<Rightarrow> obj_ref list" where
  "obj_refs (OStruct s) = st_name s # table_refs (st_methods s) @ table_refs (st_fields s)"
| "obj_refs (OInstance i) = in_struct i # (case in_fields i of None \<Rightarrow> [] | Some vs \<Rightarrow> value_refs vs)"
| "obj_refs (OBoundMethod b) = value_refs [bm_receiver b] @ [bm_method b]"
| "obj_refs (OUpvalue u) = value_refs [uv_closed u]"
| "obj_refs (OClosure c) = cl_function c # some_refs (cl_owner c # cl_upvalues c)"
| "obj_refs (OFunction f) = some_refs [fn_name f] @ value_refs (va_values (ch_constants (fn_chunk f)))"
| "obj_refs (OList l) = value_refs (li_values l)"
| "obj_refs (OArray a) = value_refs a"
| "obj_refs (ONative n) = []"
| "obj_refs (OString s) = []"

definition vm_roots :: "VM \<Rightarrow> obj_ref list" where
  "vm_roots vm = value_refs (stack_list vm) @ map fr_closure (rev (vm_frames vm)) @
     vm_openUpvalues vm @ table_refs (vm_globals vm)"

inductive reaches :: "(obj_ref \<Rightarrow> Obj option) \<Rightarrow> obj_ref set \<Rightarrow> obj_ref \<Rightarrow> bool"
  for store :: "obj_ref \<Rightarrow> Obj option" and roots :: "obj_ref set" where
  root: "r \<in> roots \<Longrightarrow> reaches store roots r"
| refers: "reaches store roots r \<Longrightarrow> store r = Some obj \<Longrightarrow> s \<in> set (obj_refs obj) \<Longrightarrow>
    reaches store roots s"

lemma value_refs_simps [simp]:
  "value_refs [] = []" "value_refs (v # vs) = some_refs [value_ref v] @ value_refs vs"
  "some_refs [] = []" "some_refs (None # rs) = some_refs rs" "some_refs (Some r # rs) = r # some_refs rs"
  by (auto simp: value_refs_def some_refs_def map_filter_def split: option.splits)

lemma some_refs_append [simp]: "some_refs (xs @ ys) = some_refs xs @ some_refs ys"
  by (simp add: some_refs_def map_filter_def)

lemma value_refs_append [simp]: "value_refs (xs @ ys) = value_refs xs @ value_refs ys"
  by (simp add: value_refs_def map_filter_def)

lemma some_refs_map_Some [simp]: "some_refs (map Some rs) = rs"
  by (induction rs) simp_all

lemma set_some_refs: "set (some_refs rs) = {r. Some r \<in> set rs}"
  by (force simp: some_refs_def map_filter_def)

lemma set_value_refs: "set (value_refs vs) = {r. VAL_OBJ r \<in> set vs}"
  by (force simp: value_refs_def map_filter_def value_ref_def split: Value.splits)

lemma set_table_refs:
  "set (table_refs t) = {r. \<exists>e \<in> set (t_entries t). e_key e = Some r \<or> e_value e = VAL_OBJ r}"
  by (auto simp: table_refs_def set_some_refs value_ref_def split: Value.splits)

section \<open>The marking functions mark exactly those\<close>

lemma markObjects_fun [simp]: "markObjects [] = Some"
  by (simp add: fun_eq_iff)

lemma markObjects_single [simp]: "markObjects [r] = markObject r"
  by (rule ext) simp

lemma markObjects_append:
  "markObjects (xs @ ys) = (\<lambda>gc. Option.bind (markObjects xs gc) (markObjects ys))"
  by (induction xs) (rule ext, simp)+

lemma markObjects_some: "markObjects rs = markObjects (map Some (some_refs rs))"
proof (induction rs)
  case (Cons r rs)
  then show ?case by (cases r) (simp_all add: markObject_def fun_eq_iff)
qed simp

lemma markObject_objects: "markObject r = markObjects (map Some (some_refs [r]))"
  using markObjects_some [of "[r]"] by simp

lemma markValue_objects: "markValue v = markObjects (map Some (value_refs [v]))"
  by (cases v) (simp_all add: markValue_def value_ref_def fun_eq_iff)

lemma markArray_objects: "markArray vs = markObjects (map Some (value_refs vs))"
  by (induction vs) (rule ext, simp add: markObjects_append markValue_objects)+

lemma mark_entries_objects:
  "mark_entries es =
     markObjects (map Some (concat (map (\<lambda>e. some_refs [e_key e] @ value_refs [e_value e]) es)))"
  by (induction es)
    (rule ext, simp add: markObjects_append markValue_objects markObject_objects [of "e_key _"])+

lemma markTable_objects: "markTable t = markObjects (map Some (table_refs t))"
  by (simp add: markTable_def table_refs_def mark_entries_objects fun_eq_iff)

lemmas mark_objects = markArray_objects markTable_objects markValue_objects markObjects_append

lemma markObjects_store: "markObjects rs gc = Some gc' \<Longrightarrow> gc_store gc' = gc_store gc"
  by (induction rs arbitrary: gc gc')
    (auto simp: markObject_def bind_eq_Some_conv split: option.splits if_splits)

section \<open>Well-formed objects\<close>

lemma live_keys_map: "k \<in> set (live_keys (t_entries t)) \<longleftrightarrow> table_map t k \<noteq> None"
  by (auto simp: set_live_keys table_map_def entries_map_None_iff)

definition table_alive :: "(obj_ref \<Rightarrow> Obj option) \<Rightarrow> Table \<Rightarrow> bool" where
  "table_alive store t \<longleftrightarrow> table_ok (key_hash store) t \<and> keys_alive store t"

definition slot_value :: "nat \<Rightarrow> Value" where
  "slot_value i = VAL_NUMBER NUMBER_KIND_F64 (f64_of_int (int i))"

text \<open>
  A struct's methods are closures; its field names are in bijection with its slots, and every
  slot in use says whether it is mutable.
\<close>

definition struct_ok :: "(obj_ref \<Rightarrow> Obj option) \<Rightarrow> ObjStruct \<Rightarrow> bool" where
  "struct_ok store s \<longleftrightarrow>
     as_string store (st_name s) \<noteq> None \<and>
     table_alive store (st_methods s) \<and> table_alive store (st_fields s) \<and>
     (\<forall>k v. table_map (st_methods s) k = Some v \<longrightarrow> (\<exists>c. v = VAL_OBJ c \<and> as_closure store c \<noteq> None)) \<and>
     (\<forall>k v. table_map (st_fields s) k = Some v \<longrightarrow> (\<exists>i < st_fieldCount s. v = slot_value i)) \<and>
     (\<forall>i < st_fieldCount s. \<exists>!k. table_map (st_fields s) k = Some (slot_value i)) \<and>
     st_fieldCount s \<le> 256 \<and> length (st_fieldPublic s) = 256 \<and> length (st_fieldMutable s) = 256 \<and>
     (\<forall>i < st_fieldCount s. st_fieldMutable s ! i \<noteq> None)"

text \<open>
  An instance is younger than its struct and has a value for each of its fields (none before
  they are allocated); a closure has its function's captured variables.
\<close>

definition instance_ok :: "(obj_ref \<Rightarrow> Obj option) \<Rightarrow> obj_ref \<Rightarrow> ObjInstance \<Rightarrow> bool" where
  "instance_ok store r i \<longleftrightarrow>
     in_struct i < r \<and>
     (\<exists>s. as_struct store (in_struct i) = Some s \<and>
        (\<forall>vs. in_fields i = Some vs \<longrightarrow> length vs = st_fieldCount s))"

definition closure_ok :: "(obj_ref \<Rightarrow> Obj option) \<Rightarrow> ObjClosure \<Rightarrow> bool" where
  "closure_ok store c \<longleftrightarrow>
     (\<exists>f. as_function store (cl_function c) = Some f \<and> length (cl_upvalues c) = fn_upvalueCount f) \<and>
     (\<forall>u. Some u \<in> set (cl_upvalues c) \<longrightarrow> as_upvalue store u \<noteq> None) \<and>
     (\<forall>s. cl_owner c = Some s \<longrightarrow> as_struct store s \<noteq> None)"

definition obj_ok :: "(obj_ref \<Rightarrow> Obj option) \<Rightarrow> obj_ref \<Rightarrow> Obj \<Rightarrow> bool" where
  "obj_ok store r obj \<longleftrightarrow>
     set (obj_refs obj) \<subseteq> dom store \<and>
     (case obj of
        OStruct s \<Rightarrow> struct_ok store s
      | OInstance i \<Rightarrow> instance_ok store r i
      | OClosure c \<Rightarrow> closure_ok store c
      | OBoundMethod b \<Rightarrow> as_closure store (bm_method b) \<noteq> None
      | OFunction f \<Rightarrow>
          (\<forall>n. fn_name f = Some n \<longrightarrow> as_string store n \<noteq> None) \<and>
          length (ch_lines (fn_chunk f)) = length (ch_code (fn_chunk f))
      | _ \<Rightarrow> True)"

text \<open>
  What the objects that point at an object rely on; well-formedness survives every change of the
  heap that keeps it.
\<close>

definition obj_shape :: "Obj \<Rightarrow> ObjType \<times> bytes \<times> u32 \<times> nat" where
  "obj_shape obj =
     (obj_type obj,
      (case obj of OString s \<Rightarrow> str_chars s | _ \<Rightarrow> []),
      (case obj of OString s \<Rightarrow> str_hash s | _ \<Rightarrow> 0),
      (case obj of OFunction f \<Rightarrow> fn_upvalueCount f | _ \<Rightarrow> 0))"

definition field_count :: "(obj_ref \<Rightarrow> Obj option) \<Rightarrow> obj_ref \<Rightarrow> nat option" where
  "field_count store r = map_option st_fieldCount (as_struct store r)"

definition same_shape :: "(obj_ref \<Rightarrow> Obj option) \<Rightarrow> (obj_ref \<Rightarrow> Obj option) \<Rightarrow> obj_ref \<Rightarrow> bool" where
  "same_shape store store' r \<longleftrightarrow> map_option obj_shape (store r) = map_option obj_shape (store' r)"

lemma as_type_iff:
  "as_string store r \<noteq> None \<longleftrightarrow> map_option obj_type (store r) = Some OBJ_STRING"
  "as_struct store r \<noteq> None \<longleftrightarrow> map_option obj_type (store r) = Some OBJ_STRUCT"
  "as_closure store r \<noteq> None \<longleftrightarrow> map_option obj_type (store r) = Some OBJ_CLOSURE"
  "as_function store r \<noteq> None \<longleftrightarrow> map_option obj_type (store r) = Some OBJ_FUNCTION"
  "as_upvalue store r \<noteq> None \<longleftrightarrow> map_option obj_type (store r) = Some OBJ_UPVALUE"
  by (auto simp: as_string_def as_struct_def as_closure_def as_function_def as_upvalue_def
      split: option.splits Obj.splits elim!: obj_type.elims)

lemma same_shape_type: "same_shape store store' r \<Longrightarrow> map_option obj_type (store r) = map_option obj_type (store' r)"
  by (cases "store r"; cases "store' r") (simp_all add: same_shape_def obj_shape_def)

lemma same_shape_dom: "same_shape store store' r \<Longrightarrow> r \<in> dom store \<longleftrightarrow> r \<in> dom store'"
  by (cases "store r"; cases "store' r") (auto simp: same_shape_def)

lemma same_shape_as:
  assumes "same_shape store store' r"
  shows "as_string store r \<noteq> None \<longleftrightarrow> as_string store' r \<noteq> None"
    "as_struct store r \<noteq> None \<longleftrightarrow> as_struct store' r \<noteq> None"
    "as_closure store r \<noteq> None \<longleftrightarrow> as_closure store' r \<noteq> None"
    "as_function store r \<noteq> None \<longleftrightarrow> as_function store' r \<noteq> None"
    "as_upvalue store r \<noteq> None \<longleftrightarrow> as_upvalue store' r \<noteq> None"
  using same_shape_type [OF assms] by (simp_all add: as_type_iff del: not_None_eq)

lemma same_shape_string:
  "same_shape store store' r \<Longrightarrow> key_hash store r = key_hash store' r \<and> key_chars store r = key_chars store' r"
  by (cases "store r"; cases "store' r")
    (auto simp: same_shape_def obj_shape_def key_hash_def key_chars_def split: Obj.splits)

lemma same_shape_count:
  assumes "same_shape store store' r"
  shows "as_function store r = Some f \<Longrightarrow> \<exists>f'. as_function store' r = Some f' \<and> fn_upvalueCount f' = fn_upvalueCount f"
  using assms by (cases "store' r"; auto simp: same_shape_def obj_shape_def as_function_def
      split: option.splits Obj.splits)

lemma table_ok_hash_cong:
  assumes "table_ok hash t" "\<And>k. table_map t k \<noteq> None \<Longrightarrow> hash k = hash' k"
  shows "table_ok hash' t"
proof -
  have eq: "map_option (key_home hash (t_capacity t)) (e_key (t_entries t ! i)) =
      map_option (key_home hash' (t_capacity t)) (e_key (t_entries t ! i))" if "i < t_capacity t" for i
  proof (cases "e_key (t_entries t ! i)")
    case (Some k)
    then have "table_map t k \<noteq> None"
      using that table_ok_length [OF assms(1)] by (auto simp: table_map_def entries_map_None_iff)
    then show ?thesis using assms(2) Some by (simp add: key_home_def)
  qed simp
  have "probe_ok (t_capacity t) (\<lambda>i. entry_free (t_entries t ! i))
      (\<lambda>i. map_option (key_home hash' (t_capacity t)) (e_key (t_entries t ! i)))"
    by (rule probe_ok_weaken [of _ "\<lambda>i. entry_free (t_entries t ! i)"
          "\<lambda>i. map_option (key_home hash (t_capacity t)) (e_key (t_entries t ! i))"])
      (use assms(1) eq in \<open>auto simp: table_ok_def entries_ok_def\<close>)
  with assms(1) show ?thesis by (simp add: table_ok_def entries_ok_def)
qed

lemma table_key_refs: "table_map t k \<noteq> None \<Longrightarrow> k \<in> set (table_refs t)"
  by (auto simp: table_map_def entries_map_None_iff set_table_refs intro!: bexI [OF _ nth_mem])

lemma table_value_refs:
  assumes "table_map t k = Some (VAL_OBJ r)"
  shows "r \<in> set (table_refs t)"
proof -
  obtain e where "find (\<lambda>e. e_key e = Some k) (t_entries t) = Some e" "e_value e = VAL_OBJ r"
    using assms by (auto simp: table_map_def entries_map_def)
  then show ?thesis by (force simp: set_table_refs find_Some_iff)
qed

lemma table_alive_shape:
  assumes "table_alive store t" "\<And>r. r \<in> set (table_refs t) \<Longrightarrow> same_shape store store' r"
  shows "table_alive store' t"
proof -
  have "same_shape store store' k" if "table_map t k \<noteq> None" for k
    using assms(2) table_key_refs [OF that] by blast
  then have same: "key_hash store k = key_hash store' k" "as_string store' k \<noteq> None \<longleftrightarrow> as_string store k \<noteq> None"
    if "table_map t k \<noteq> None" for k
    using that same_shape_string same_shape_as(1) by blast+
  have ok: "table_ok (key_hash store) t" using assms(1) by (simp add: table_alive_def)
  show ?thesis
    unfolding table_alive_def keys_alive_def
    using table_ok_hash_cong [OF ok same(1)] assms(1) same(2)
    by (simp add: table_alive_def keys_alive_def live_keys_map del: not_None_eq)
qed

lemma obj_ok_shape:
  assumes ok: "obj_ok store r obj" and same: "\<And>s. s \<in> set (obj_refs obj) \<Longrightarrow> same_shape store store' s"
    and count: "\<And>i. obj = OInstance i \<Longrightarrow> field_count store (in_struct i) = field_count store' (in_struct i)"
  shows "obj_ok store' r obj"
proof -
  have dom: "set (obj_refs obj) \<subseteq> dom store'"
    using ok same same_shape_dom unfolding obj_ok_def by blast
  show ?thesis
  proof (cases obj)
    case (OStruct s)
    have st: "struct_ok store s" using ok OStruct by (simp add: obj_ok_def)
    have sub: "same_shape store store' x"
      if "x = st_name s \<or> x \<in> set (table_refs (st_methods s)) \<or> x \<in> set (table_refs (st_fields s))" for x
      using that same OStruct by auto
    have "table_alive store' (st_methods s)" "table_alive store' (st_fields s)"
      using st sub unfolding struct_ok_def by (blast intro: table_alive_shape)+
    moreover have "as_string store' (st_name s) \<noteq> None"
      using st sub same_shape_as(1) unfolding struct_ok_def by blast
    moreover have "\<exists>c. v = VAL_OBJ c \<and> as_closure store' c \<noteq> None"
      if "table_map (st_methods s) k = Some v" for k v
    proof -
      from st that obtain c where c: "v = VAL_OBJ c" "as_closure store c \<noteq> None"
        unfolding struct_ok_def by blast
      then have "same_shape store store' c" using that table_value_refs sub by blast
      with c show ?thesis using same_shape_as(3) by blast
    qed
    ultimately have "struct_ok store' s" using st unfolding struct_ok_def by blast
    with dom OStruct show ?thesis by (simp add: obj_ok_def)
  next
    case (OInstance i)
    then have eq: "field_count store (in_struct i) = field_count store' (in_struct i)" using count by simp
    obtain s where s: "in_struct i < r" "as_struct store (in_struct i) = Some s"
      "\<And>vs. in_fields i = Some vs \<Longrightarrow> length vs = st_fieldCount s"
      using ok OInstance by (auto simp: obj_ok_def instance_ok_def)
    then obtain s' where "as_struct store' (in_struct i) = Some s'" "st_fieldCount s' = st_fieldCount s"
      using eq by (cases "as_struct store' (in_struct i)") (auto simp: field_count_def)
    with s have "instance_ok store' r i" by (auto simp: instance_ok_def)
    with dom OInstance show ?thesis by (simp add: obj_ok_def)
  next
    case (OClosure c)
    have cl: "closure_ok store c" using ok OClosure by (simp add: obj_ok_def)
    have sub: "same_shape store store' x"
      if "x = cl_function c \<or> cl_owner c = Some x \<or> Some x \<in> set (cl_upvalues c)" for x
      using that same OClosure by (auto simp: set_some_refs)
    have "closure_ok store' c"
      using cl sub same_shape_count [of store store' "cl_function c"] same_shape_as(2,5)
      unfolding closure_ok_def by metis
    with dom OClosure show ?thesis by (simp add: obj_ok_def)
  next
    case (OBoundMethod b)
    then have "same_shape store store' (bm_method b)" using same by simp
    from same_shape_as(3) [OF this] show ?thesis using ok dom OBoundMethod by (simp add: obj_ok_def)
  next
    case (OFunction f)
    have "as_string store' n \<noteq> None" if "fn_name f = Some n" for n
    proof -
      have "same_shape store store' n" using that same OFunction by simp
      with that ok OFunction show ?thesis using same_shape_as(1) by (simp add: obj_ok_def del: not_None_eq)
    qed
    then show ?thesis using ok dom OFunction by (simp add: obj_ok_def)
  qed (use ok dom in \<open>simp_all add: obj_ok_def\<close>)
qed

lemma blackenObject_objects:
  assumes "gc_store gc r = Some obj" "obj_ok (gc_store gc) r obj"
  shows "blackenObject r gc = markObjects (map Some (obj_refs obj)) gc"
proof (cases obj)
  case (OInstance i)
  have vs: "instance_values (gc_store gc) i = Some (case in_fields i of None \<Rightarrow> [] | Some vs \<Rightarrow> vs)"
    using assms OInstance by (auto simp: instance_values_def obj_ok_def instance_ok_def split: option.splits)
  have "(do { gc' \<leftarrow> markObject (Some (in_struct i)) gc;
      values \<leftarrow> instance_values (gc_store gc') i; markArray values gc' }) =
    (do { gc' \<leftarrow> markObject (Some (in_struct i)) gc;
      markArray (case in_fields i of None \<Rightarrow> [] | Some vs \<Rightarrow> vs) gc' })"
    using markObjects_store [of "[Some (in_struct i)]" gc] vs
    by (cases "markObject (Some (in_struct i)) gc") simp_all
  then show ?thesis using assms OInstance
    by (simp add: blackenObject_def mark_objects split: option.splits)
next
  case (OClosure c)
  have "some_refs (cl_owner c # cl_upvalues c) = some_refs [cl_owner c] @ some_refs (cl_upvalues c)"
    by (metis append_Cons append_Nil some_refs_append)
  then show ?thesis
    using assms OClosure markObjects_some [of "cl_upvalues c"] markObject_objects [of "cl_owner c"]
    by (simp add: blackenObject_def mark_objects)
next
  case (OFunction f)
  then show ?thesis using assms markObject_objects [of "fn_name f"]
    by (simp add: blackenObject_def mark_objects)
next
  case (OBoundMethod b)
  then show ?thesis using assms markObject_objects [of "Some (bm_method b)"]
    by (simp add: blackenObject_def mark_objects)
qed (use assms in \<open>simp_all add: blackenObject_def mark_objects\<close>)

lemma markObjects_correct:
  assumes "set rs \<subseteq> dom (gc_store gc)"
  shows "\<exists>new. markObjects (map Some rs) gc =
      Some (gc\<lparr>gc_isMarked := (\<lambda>x. gc_isMarked gc x \<or> x \<in> set rs), gc_grayStack := new @ gc_grayStack gc\<rparr>) \<and>
    set new = set rs - {x. gc_isMarked gc x} \<and> distinct new"
  using assms
proof (induction rs arbitrary: gc)
  case Nil
  show ?case by (rule exI [of _ "[]"]) simp
next
  case (Cons r rs)
  have r: "gc_store gc r \<noteq> None" using Cons.prems by auto
  show ?case
  proof (cases "gc_isMarked gc r")
    case True
    then have "markObject (Some r) gc = Some gc" using r by (simp add: markObject_def)
    moreover have "(\<lambda>x. gc_isMarked gc x \<or> x \<in> set (r # rs)) = (\<lambda>x. gc_isMarked gc x \<or> x \<in> set rs)"
      using True by auto
    ultimately show ?thesis using Cons.IH [of gc] Cons.prems True by auto
  next
    case False
    let ?gc = "gc\<lparr>gc_isMarked := (gc_isMarked gc)(r := True), gc_grayStack := r # gc_grayStack gc\<rparr>"
    have m: "markObject (Some r) gc = Some ?gc" using r False by (simp add: markObject_def)
    have "set rs \<subseteq> dom (gc_store ?gc)" using Cons.prems by simp
    from Cons.IH [OF this] obtain new where
      new: "markObjects (map Some rs) ?gc =
        Some (?gc\<lparr>gc_isMarked := (\<lambda>x. gc_isMarked ?gc x \<or> x \<in> set rs), gc_grayStack := new @ gc_grayStack ?gc\<rparr>)"
      "set new = set rs - {x. gc_isMarked ?gc x}" "distinct new" by blast
    have "(\<lambda>x. gc_isMarked ?gc x \<or> x \<in> set rs) = (\<lambda>x. gc_isMarked gc x \<or> x \<in> set (r # rs))" by auto
    with new m False show ?thesis by (intro exI [of _ "new @ [r]"]) auto
  qed
qed

section \<open>Tracing\<close>

definition store_ok :: "(obj_ref \<Rightarrow> Obj option) \<Rightarrow> bool" where
  "store_ok store \<longleftrightarrow> finite (dom store) \<and> (\<forall>r obj. store r = Some obj \<longrightarrow> obj_ok store r obj)"

text \<open>The tricolour invariant: the black objects refer to no white one.\<close>

definition tricolour :: "GC \<Rightarrow> bool" where
  "tricolour gc \<longleftrightarrow>
     {r. gc_isMarked gc r} \<subseteq> dom (gc_store gc) \<and>
     (\<forall>r \<in> set (gc_grayStack gc). gc_isMarked gc r) \<and>
     (\<forall>r obj. gc_isMarked gc r \<and> r \<notin> set (gc_grayStack gc) \<and> gc_store gc r = Some obj \<longrightarrow>
        (\<forall>s \<in> set (obj_refs obj). gc_isMarked gc s))"

lemma reaches_mono: "reaches store A r \<Longrightarrow> (\<And>a. a \<in> A \<Longrightarrow> reaches store B a) \<Longrightarrow> reaches store B r"
  by (induction rule: reaches.induct) (auto intro: reaches.intros)

lemma reaches_closed:
  assumes "reaches store A r" "A \<subseteq> M"
    and "\<And>r obj s. r \<in> M \<Longrightarrow> store r = Some obj \<Longrightarrow> s \<in> set (obj_refs obj) \<Longrightarrow> s \<in> M"
  shows "r \<in> M"
  using assms(1) by (induction rule: reaches.induct) (use assms in blast)+

lemma traceReferences_correct:
  assumes "store_ok (gc_store gc)" "tricolour gc"
  shows "traceReferences gc =
    Some (gc\<lparr>gc_isMarked := reaches (gc_store gc) {r. gc_isMarked gc r}, gc_grayStack := []\<rparr>)"
  using assms
proof (induction "length (gc_grayStack gc) + card (dom (gc_store gc) - {r. gc_isMarked gc r})"
    arbitrary: gc rule: less_induct)
  case less
  show ?case
  proof (cases "gc_grayStack gc")
    case Nil
    have "reaches (gc_store gc) {r. gc_isMarked gc r} = gc_isMarked gc"
    proof (rule ext)
      fix r
      show "reaches (gc_store gc) {r. gc_isMarked gc r} r = gc_isMarked gc r"
      proof
        assume "reaches (gc_store gc) {r. gc_isMarked gc r} r"
        then have "r \<in> {r. gc_isMarked gc r}"
          by (rule reaches_closed) (use less.prems(2) Nil in \<open>simp_all add: tricolour_def\<close>)
        then show "gc_isMarked gc r" by simp
      qed (simp add: reaches.root)
    qed
    then show ?thesis using Nil by (simp add: traceReferences.simps)
  next
    case (Cons r rest)
    let ?gc = "gc\<lparr>gc_grayStack := rest\<rparr>" and ?M = "{r. gc_isMarked gc r}"
    have marked: "gc_isMarked gc r" using less.prems(2) Cons by (simp add: tricolour_def)
    then obtain obj where obj: "gc_store gc r = Some obj" using less.prems(2) by (auto simp: tricolour_def)
    have ok: "obj_ok (gc_store gc) r obj" using less.prems(1) obj by (simp add: store_ok_def)
    then have refs: "set (obj_refs obj) \<subseteq> dom (gc_store gc)" by (simp add: obj_ok_def)
    obtain new where new: "markObjects (map Some (obj_refs obj)) ?gc =
        Some (?gc\<lparr>gc_isMarked := (\<lambda>x. gc_isMarked gc x \<or> x \<in> set (obj_refs obj)), gc_grayStack := new @ rest\<rparr>)"
      "set new = set (obj_refs obj) - ?M" "distinct new"
      using markObjects_correct [of "obj_refs obj" ?gc] refs by auto
    let ?gc' = "gc\<lparr>gc_isMarked := (\<lambda>x. gc_isMarked gc x \<or> x \<in> set (obj_refs obj)), gc_grayStack := new @ rest\<rparr>"
    have step: "blackenObject r ?gc = Some ?gc'"
      using blackenObject_objects [of ?gc r obj] obj ok new(1) by simp
    have fin: "finite (dom (gc_store gc))" using less.prems(1) by (simp add: store_ok_def)
    have marked': "{x. gc_isMarked ?gc' x} = ?M \<union> set (obj_refs obj)" by auto
    have split: "dom (gc_store gc) - ?M = set new \<union> (dom (gc_store gc) - (?M \<union> set (obj_refs obj)))"
      using new(2) refs by auto
    have "card (dom (gc_store gc) - ?M) = length new + card (dom (gc_store gc) - (?M \<union> set (obj_refs obj)))"
      unfolding split distinct_card [OF new(3), symmetric]
      using new(2) fin by (subst card_Un_disjoint) auto
    then have smaller: "length (gc_grayStack ?gc') + card (dom (gc_store ?gc') - {x. gc_isMarked ?gc' x}) <
        length (gc_grayStack gc) + card (dom (gc_store gc) - ?M)"
      unfolding marked' using Cons by simp
    have tri: "tricolour ?gc'"
      unfolding tricolour_def
    proof (intro conjI allI impI ballI)
      show "{x. gc_isMarked ?gc' x} \<subseteq> dom (gc_store ?gc')"
        using less.prems(2) refs by (auto simp: tricolour_def)
      show "gc_isMarked ?gc' x" if "x \<in> set (gc_grayStack ?gc')" for x
        using that new(2) less.prems(2) Cons by (auto simp: tricolour_def)
      fix x o' s
      assume x: "gc_isMarked ?gc' x \<and> x \<notin> set (gc_grayStack ?gc') \<and> gc_store ?gc' x = Some o'"
        and s: "s \<in> set (obj_refs o')"
      show "gc_isMarked ?gc' s"
      proof (cases "x = r")
        case True
        then show ?thesis using x s obj by simp
      next
        case False
        have "gc_isMarked gc x" using x new(2) by auto
        moreover have "x \<notin> set (gc_grayStack gc)" using False x Cons by simp
        ultimately show ?thesis using less.prems(2) x s by (auto simp: tricolour_def)
      qed
    qed
    have "reaches (gc_store gc) (?M \<union> set (obj_refs obj)) = reaches (gc_store gc) ?M"
    proof (rule ext)
      fix x
      have "reaches (gc_store gc) ?M a" if "a \<in> ?M \<union> set (obj_refs obj)" for a
        using that marked obj by (auto intro: reaches.intros)
      then show "reaches (gc_store gc) (?M \<union> set (obj_refs obj)) x = reaches (gc_store gc) ?M x"
        by (blast intro: reaches_mono reaches.root)
    qed
    with less.hyps [OF smaller _ tri] less.prems(1) marked' step Cons show ?thesis
      by (simp add: traceReferences.simps [of gc])
  qed
qed

section \<open>Sweeping\<close>

lemma fold_free_bytes: "\<exists>b. fold free_bytes ns gc = gc\<lparr>gc_bytesAllocated := b\<rparr>"
proof (induction ns arbitrary: gc)
  case Nil
  show ?case by (rule exI [of _ "gc_bytesAllocated gc"]) simp
next
  case (Cons n ns)
  obtain b where "fold free_bytes ns (free_bytes n gc) = (free_bytes n gc)\<lparr>gc_bytesAllocated := b\<rparr>"
    using Cons.IH by blast
  then show ?case by (intro exI [of _ b]) (simp add: free_bytes_def [of n] account_def)
qed

text \<open>An instance can be freed while its struct is still there.\<close>

definition freeable :: "(obj_ref \<Rightarrow> Obj option) \<Rightarrow> obj_ref \<Rightarrow> bool" where
  "freeable store r \<longleftrightarrow>
     (\<exists>obj. store r = Some obj \<and>
        (\<forall>i. obj = OInstance i \<longrightarrow> in_struct i < r \<and> as_struct store (in_struct i) \<noteq> None))"

lemma freeObject_correct:
  assumes "freeable (gc_store gc) r"
  shows "\<exists>b. freeObject r gc =
    Some (gc\<lparr>gc_bytesAllocated := b, gc_store := (gc_store gc)(r := None)\<rparr>)"
proof -
  obtain obj where obj: "gc_store gc r = Some obj"
    "\<And>i. obj = OInstance i \<Longrightarrow> as_struct (gc_store gc) (in_struct i) \<noteq> None"
    using assms by (auto simp: freeable_def)
  then have "\<exists>owned. owned_bytes (gc_store gc) obj = Some owned"
    by (cases obj) (auto simp: owned_bytes_def)
  then obtain owned where owned: "owned_bytes (gc_store gc) obj = Some owned" by blast
  obtain b where b: "fold free_bytes owned gc = gc\<lparr>gc_bytesAllocated := b\<rparr>" using fold_free_bytes by blast
  show ?thesis
    using obj(1) owned b by (simp add: freeObject_def free_bytes_def account_def Let_def) blast
qed

lemma freeable_below:
  assumes "freeable store x" "x < r"
  shows "freeable (store(r := None)) x"
proof -
  obtain obj where obj: "store x = Some obj"
    "\<And>i. obj = OInstance i \<Longrightarrow> in_struct i < x \<and> as_struct store (in_struct i) \<noteq> None"
    using assms(1) by (auto simp: freeable_def)
  have "as_struct (store(r := None)) (in_struct i) \<noteq> None" if "obj = OInstance i" for i
    using obj(2) [OF that] assms(2) by (simp add: as_struct_def)
  with obj assms(2) show ?thesis by (auto simp: freeable_def)
qed

lemma sweep_loop_correct:
  assumes "sorted_wrt (>) os" "\<forall>r \<in> set os. freeable (gc_store gc) r"
  shows "\<exists>b. sweep_loop os gc = Some (filter (gc_isMarked gc) os,
    gc\<lparr>gc_bytesAllocated := b, gc_isMarked := (\<lambda>r. gc_isMarked gc r \<and> r \<notin> set os),
       gc_store := gc_store gc |` {r. r \<in> set os \<longrightarrow> gc_isMarked gc r}\<rparr>)"
  using assms
proof (induction os arbitrary: gc)
  case Nil
  show ?case by (rule exI [of _ "gc_bytesAllocated gc"]) (simp add: restrict_map_def)
next
  case (Cons r os)
  have live: "gc_store gc r \<noteq> None" using Cons.prems(2) by (auto simp: freeable_def)
  have notin: "r \<notin> set os" using Cons.prems(1) by auto
  show ?case
  proof (cases "gc_isMarked gc r")
    case True
    let ?gc = "gc\<lparr>gc_isMarked := (gc_isMarked gc)(r := False)\<rparr>"
    have "sorted_wrt (>) os" "\<forall>r \<in> set os. freeable (gc_store ?gc) r" using Cons.prems by auto
    from Cons.IH [OF this] obtain b where b: "sweep_loop os ?gc = Some (filter (gc_isMarked ?gc) os,
        ?gc\<lparr>gc_bytesAllocated := b, gc_isMarked := (\<lambda>r. gc_isMarked ?gc r \<and> r \<notin> set os),
          gc_store := gc_store ?gc |` {r. r \<in> set os \<longrightarrow> gc_isMarked ?gc r}\<rparr>)" by blast
    have "filter (gc_isMarked ?gc) os = filter (gc_isMarked gc) os"
      using notin by (intro filter_cong) auto
    moreover have "(\<lambda>x. gc_isMarked ?gc x \<and> x \<notin> set os) = (\<lambda>x. gc_isMarked gc x \<and> x \<notin> set (r # os))"
      by auto
    moreover have "{x. x \<in> set os \<longrightarrow> gc_isMarked ?gc x} = {x. x \<in> set (r # os) \<longrightarrow> gc_isMarked gc x}"
      using True notin by auto
    ultimately show ?thesis using b True live by auto
  next
    case False
    obtain b where b: "freeObject r gc =
        Some (gc\<lparr>gc_bytesAllocated := b, gc_store := (gc_store gc)(r := None)\<rparr>)"
      using freeObject_correct Cons.prems(2) by fastforce
    let ?gc = "gc\<lparr>gc_bytesAllocated := b, gc_store := (gc_store gc)(r := None)\<rparr>"
    have "sorted_wrt (>) os" "\<forall>x \<in> set os. freeable (gc_store ?gc) x"
      using Cons.prems freeable_below by auto
    from Cons.IH [OF this] obtain b' where b': "sweep_loop os ?gc = Some (filter (gc_isMarked ?gc) os,
        ?gc\<lparr>gc_bytesAllocated := b', gc_isMarked := (\<lambda>r. gc_isMarked ?gc r \<and> r \<notin> set os),
          gc_store := gc_store ?gc |` {r. r \<in> set os \<longrightarrow> gc_isMarked ?gc r}\<rparr>)" by blast
    have "(gc_store gc)(r := None) |` {x. x \<in> set os \<longrightarrow> gc_isMarked gc x} =
        gc_store gc |` {x. x \<in> set (r # os) \<longrightarrow> gc_isMarked gc x}"
      using False by (auto simp: restrict_map_def fun_eq_iff)
    moreover have "(\<lambda>x. gc_isMarked gc x \<and> x \<notin> set os) = (\<lambda>x. gc_isMarked gc x \<and> x \<notin> set (r # os))"
      using False by auto
    ultimately show ?thesis using b b' False live by auto
  qed
qed

lemma free_all_correct:
  assumes "sorted_wrt (>) os" "\<forall>r \<in> set os. freeable (gc_store gc) r"
  shows "\<exists>b. free_all os gc =
    Some (gc\<lparr>gc_bytesAllocated := b, gc_store := gc_store gc |` (- set os)\<rparr>)"
  using assms
proof (induction os arbitrary: gc)
  case Nil
  show ?case by (rule exI [of _ "gc_bytesAllocated gc"]) (simp add: restrict_map_def)
next
  case (Cons r os)
  obtain b where b: "freeObject r gc =
      Some (gc\<lparr>gc_bytesAllocated := b, gc_store := (gc_store gc)(r := None)\<rparr>)"
    using freeObject_correct Cons.prems(2) by fastforce
  let ?gc = "gc\<lparr>gc_bytesAllocated := b, gc_store := (gc_store gc)(r := None)\<rparr>"
  have "sorted_wrt (>) os" "\<forall>x \<in> set os. freeable (gc_store ?gc) x"
    using Cons.prems freeable_below by auto
  from Cons.IH [OF this] obtain b' where
    "free_all os ?gc = Some (?gc\<lparr>gc_bytesAllocated := b', gc_store := gc_store ?gc |` (- set os)\<rparr>)" by blast
  moreover have "(gc_store gc)(r := None) |` (- set os) = gc_store gc |` (- set (r # os))"
    by (auto simp: restrict_map_def fun_eq_iff)
  ultimately show ?case using b by auto
qed

section \<open>A collection\<close>

text \<open>
  The heap between two collections: the list of objects holds the allocated ones, youngest first;
  nothing is marked; the interned strings are live, different and have the hash of their
  characters.
\<close>

definition strings_ok :: "GC \<Rightarrow> bool" where
  "strings_ok gc \<longleftrightarrow>
     table_alive (gc_store gc) (gc_strings gc) \<and>
     (\<forall>k. table_map (gc_strings gc) k \<noteq> None \<longrightarrow>
        key_hash (gc_store gc) k = hashBytes (key_chars (gc_store gc) k)) \<and>
     (\<forall>k k'. table_map (gc_strings gc) k \<noteq> None \<and> table_map (gc_strings gc) k' \<noteq> None \<and>
        key_chars (gc_store gc) k = key_chars (gc_store gc) k' \<longrightarrow> k = k')"

definition heap_ok :: "GC \<Rightarrow> bool" where
  "heap_ok gc \<longleftrightarrow>
     store_ok (gc_store gc) \<and>
     sorted_wrt (>) (gc_objects gc) \<and> set (gc_objects gc) = dom (gc_store gc) \<and>
     (\<forall>r \<in> dom (gc_store gc). r < gc_fresh gc) \<and>
     gc_isMarked gc = (\<lambda>_. False) \<and> gc_grayStack gc = [] \<and>
     strings_ok gc"

definition live_objects :: "VM \<Rightarrow> obj_ref set" where
  "live_objects vm = {r. reaches (vm_store vm) (set (vm_roots vm)) r}"

lemma markVMRoots_objects: "markVMRoots vm = markObjects (map Some (vm_roots vm))"
proof (rule ext)
  fix gc
  have "map (\<lambda>f. Some (fr_closure f)) fs = map Some (map fr_closure fs)" for fs :: "CallFrame list" by simp
  then show "markVMRoots vm gc = markObjects (map Some (vm_roots vm)) gc"
    by (simp only: markVMRoots_def vm_roots_def map_append markObjects_append mark_objects)
qed

lemma store_ok_freeable: "store_ok store \<Longrightarrow> r \<in> dom store \<Longrightarrow> freeable store r"
proof -
  assume ok: "store_ok store" and "r \<in> dom store"
  then obtain obj where obj: "store r = Some obj" by blast
  have "obj_ok store r obj" using ok obj by (simp add: store_ok_def)
  then have "in_struct i < r \<and> as_struct store (in_struct i) \<noteq> None" if "obj = OInstance i" for i
    using that by (auto simp: obj_ok_def instance_ok_def)
  with obj show ?thesis by (simp add: freeable_def)
qed

lemma live_objects_closed:
  assumes "r \<in> live_objects vm" "vm_store vm r = Some obj" "s \<in> set (obj_refs obj)"
  shows "s \<in> live_objects vm"
  using assms by (auto simp: live_objects_def intro: reaches.refers)

lemma reaches_dom:
  assumes "reaches store A r" "store_ok store" "A \<subseteq> dom store"
  shows "r \<in> dom store"
  by (rule reaches_closed [OF assms(1,3)]) (use assms(2) in \<open>auto simp: store_ok_def obj_ok_def\<close>)

text \<open>Well-formedness survives the removal of everything outside a closed set of objects.\<close>

lemma store_ok_restrict:
  assumes "store_ok store"
    and closed: "\<And>r obj s. r \<in> A \<Longrightarrow> store r = Some obj \<Longrightarrow> s \<in> set (obj_refs obj) \<Longrightarrow> s \<in> A"
  shows "store_ok (store |` A)"
  unfolding store_ok_def
proof (intro conjI allI impI)
  show "finite (dom (store |` A))" using assms(1) by (simp add: store_ok_def)
  fix r obj assume r: "(store |` A) r = Some obj"
  then have r: "store r = Some obj" "r \<in> A" by (auto simp: restrict_map_def split: if_splits)
  have "obj_ok store r obj" using assms(1) r by (simp add: store_ok_def)
  then show "obj_ok (store |` A) r obj"
    by (rule obj_ok_shape)
      (use closed [OF r(2,1)] in \<open>simp_all add: same_shape_def field_count_def as_struct_def\<close>)
qed

lemma collectGarbage_correct:
  assumes ok: "heap_ok (vm_gc vm)" and roots: "set (vm_roots vm) \<subseteq> dom (vm_store vm)"
  shows "\<exists>gc. collectGarbage vm = Some (vm\<lparr>vm_gc := gc\<rparr>) \<and> heap_ok gc \<and>
    gc_store gc = vm_store vm |` live_objects vm \<and>
    gc_objects gc = filter (\<lambda>r. r \<in> live_objects vm) (gc_objects (vm_gc vm)) \<and>
    table_map (gc_strings gc) = table_map (gc_strings (vm_gc vm)) |` live_objects vm \<and>
    gc_fresh gc = gc_fresh (vm_gc vm)"
proof -
  let ?gc = "vm_gc vm" and ?S = "vm_store vm" and ?L = "live_objects vm"
  have store: "store_ok ?S" and marks: "gc_isMarked ?gc = (\<lambda>_. False)" and gray: "gc_grayStack ?gc = []"
    and sorted: "sorted_wrt (>) (gc_objects ?gc)" and objs: "set (gc_objects ?gc) = dom ?S"
    and strs: "strings_ok ?gc"
    using ok by (simp_all add: heap_ok_def)
  obtain new where new: "markVMRoots vm ?gc =
      Some (?gc\<lparr>gc_isMarked := (\<lambda>x. x \<in> set (vm_roots vm)), gc_grayStack := new\<rparr>)"
    "set new = set (vm_roots vm)"
    using markObjects_correct [of "vm_roots vm" ?gc] roots marks gray by (auto simp: markVMRoots_objects)
  let ?gc1 = "?gc\<lparr>gc_isMarked := (\<lambda>x. x \<in> set (vm_roots vm)), gc_grayStack := new\<rparr>"
  have "tricolour ?gc1" using new(2) roots by (auto simp: tricolour_def)
  with store have trace: "traceReferences ?gc1 =
      Some (?gc\<lparr>gc_isMarked := (\<lambda>r. r \<in> ?L), gc_grayStack := []\<rparr>)"
    using traceReferences_correct [of ?gc1] by (simp add: live_objects_def Collect_mem_eq)
  have alive: "table_alive ?S (gc_strings ?gc)" using strs by (simp add: strings_ok_def)
  obtain strings where strings: "tableRemoveWhite (key_hash ?S) (\<lambda>r. r \<in> ?L) (gc_strings ?gc) = Some strings"
    "table_ok (key_hash ?S) strings" "table_map strings = table_map (gc_strings ?gc) |` ?L"
    using tableRemoveWhite_correct [of "key_hash ?S" "gc_strings ?gc" "\<lambda>r. r \<in> ?L"] alive
    by (auto simp: table_alive_def)
  let ?gc2 = "?gc\<lparr>gc_isMarked := (\<lambda>r. r \<in> ?L), gc_grayStack := [], gc_strings := strings\<rparr>"
  have "\<forall>r \<in> set (gc_objects ?gc). freeable ?S r" using store objs store_ok_freeable by blast
  then obtain b where swept: "sweep_loop (gc_objects ?gc) ?gc2 = Some (filter (\<lambda>r. r \<in> ?L) (gc_objects ?gc),
      ?gc2\<lparr>gc_bytesAllocated := b, gc_isMarked := (\<lambda>r. r \<in> ?L \<and> r \<notin> dom ?S),
        gc_store := ?S |` {r. r \<in> dom ?S \<longrightarrow> r \<in> ?L}\<rparr>)"
    using sweep_loop_correct [OF sorted, of ?gc2] objs by auto
  have Ldom: "?L \<subseteq> dom ?S" using reaches_dom [OF _ store roots] by (auto simp: live_objects_def)
  have none: "(\<lambda>r. r \<in> ?L \<and> r \<notin> dom ?S) = (\<lambda>_. False)" using Ldom by auto
  have rs: "?S |` {r. r \<in> dom ?S \<longrightarrow> r \<in> ?L} = ?S |` ?L"
    by (auto simp: restrict_map_def fun_eq_iff)
  let ?gc3 = "?gc\<lparr>gc_bytesAllocated := b, gc_nextGC := b * GC_HEAP_GROW_FACTOR,
      gc_objects := filter (\<lambda>r. r \<in> ?L) (gc_objects ?gc), gc_strings := strings, gc_grayStack := [],
      gc_isMarked := (\<lambda>_. False), gc_store := ?S |` ?L\<rparr>"
  have run: "collectGarbage vm = Some (vm\<lparr>vm_gc := ?gc3\<rparr>)"
    using alive by (simp add: collectGarbage_def new(1) trace strings(1) sweep_def swept none rs table_alive_def)
  have sub: "same_shape ?S (?S |` ?L) k" if "k \<in> ?L" for k using that by (simp add: same_shape_def)
  have tm: "table_map strings k \<noteq> None \<longleftrightarrow> table_map (gc_strings ?gc) k \<noteq> None \<and> k \<in> ?L" for k
    by (simp add: strings(3) restrict_map_def)
  have kl: "key_hash (?S |` ?L) k = key_hash ?S k" "key_chars (?S |` ?L) k = key_chars ?S k"
    "as_string (?S |` ?L) k = as_string ?S k" if "k \<in> ?L" for k
    using that by (simp_all add: key_hash_def key_chars_def as_string_def)
  have "table_ok (key_hash (?S |` ?L)) strings"
    by (rule table_ok_hash_cong [OF strings(2)]) (use tm kl(1) in auto)
  moreover have "keys_alive (?S |` ?L) strings"
    using alive tm kl(3) by (simp add: keys_alive_def table_alive_def live_keys_map)
  ultimately have "strings_ok ?gc3"
    using strs tm kl(1,2) by (simp add: strings_ok_def table_alive_def) metis
  moreover have "store_ok (?S |` ?L)"
    by (rule store_ok_restrict [OF store]) (rule live_objects_closed)
  moreover have "sorted_wrt (>) (filter (\<lambda>r. r \<in> ?L) (gc_objects ?gc))"
    using sorted by (rule sorted_wrt_filter)
  ultimately have "heap_ok ?gc3"
    using ok objs by (auto simp: heap_ok_def restrict_map_def split: if_splits)
  with run strings show ?thesis by (intro exI [of _ ?gc3]) simp
qed

section \<open>Allocation\<close>

text \<open>What an allocation may do to the machine: drop objects that nothing reaches.\<close>

definition collected :: "VM \<Rightarrow> VM \<Rightarrow> bool" where
  "collected vm vm' \<longleftrightarrow>
     vm' = vm\<lparr>vm_gc := vm_gc vm'\<rparr> \<and> heap_ok (vm_gc vm') \<and> gc_fresh (vm_gc vm') = gc_fresh (vm_gc vm) \<and>
     (\<exists>A. live_objects vm \<subseteq> A \<and> vm_store vm' = vm_store vm |` A \<and>
        table_map (gc_strings (vm_gc vm')) = table_map (gc_strings (vm_gc vm)) |` A)"

definition roots_ok :: "VM \<Rightarrow> bool" where
  "roots_ok vm \<longleftrightarrow> set (vm_roots vm) \<subseteq> dom (vm_store vm)"

lemma account_simps [simp]:
  "gc_store (account m n gc) = gc_store gc" "gc_objects (account m n gc) = gc_objects gc"
  "gc_strings (account m n gc) = gc_strings gc" "gc_fresh (account m n gc) = gc_fresh gc"
  "gc_isMarked (account m n gc) = gc_isMarked gc" "gc_grayStack (account m n gc) = gc_grayStack gc"
  by (simp_all add: account_def)

lemma heap_ok_account [simp]: "heap_ok (account m n gc) = heap_ok gc"
  by (simp add: heap_ok_def strings_ok_def)

lemma vm_roots_gc [simp]: "vm_roots (vm\<lparr>vm_gc := gc\<rparr>) = vm_roots vm"
  by (simp add: vm_roots_def stack_list_def)

lemma reallocate_correct:
  assumes ok: "heap_ok (vm_gc vm)" and roots: "roots_ok vm"
  shows "\<exists>vm'. reallocate oldSize newSize vm = Some vm' \<and> collected vm vm'"
proof -
  let ?vm = "vm\<lparr>vm_gc := account oldSize newSize (vm_gc vm)\<rparr>"
  have live: "live_objects ?vm = live_objects vm" by (simp add: live_objects_def)
  have ok': "heap_ok (vm_gc ?vm)" "set (vm_roots ?vm) \<subseteq> dom (vm_store ?vm)"
    using ok roots by (simp_all add: roots_ok_def)
  show ?thesis
  proof (cases "oldSize < newSize \<and> gc_nextGC (vm_gc ?vm) < gc_bytesAllocated (vm_gc ?vm)")
    case True
    obtain gc where "collectGarbage ?vm = Some (?vm\<lparr>vm_gc := gc\<rparr>)" "heap_ok gc"
      "gc_store gc = vm_store ?vm |` live_objects ?vm"
      "table_map (gc_strings gc) = table_map (gc_strings (vm_gc ?vm)) |` live_objects ?vm"
      "gc_fresh gc = gc_fresh (vm_gc ?vm)"
      using collectGarbage_correct [OF ok'] by blast
    with True show ?thesis
      by (intro exI [of _ "?vm\<lparr>vm_gc := gc\<rparr>"]) (auto simp: reallocate_def collected_def live Let_def)
  next
    case False
    then have "reallocate oldSize newSize vm = Some ?vm" by (auto simp: reallocate_def Let_def)
    moreover have "collected vm ?vm"
      using ok by (auto simp: collected_def restrict_map_def intro: exI [of _ UNIV])
    ultimately show ?thesis by blast
  qed
qed

section \<open>Properties\<close>

text \<open>
  C1. A collection of a well-formed heap returns, keeps exactly the objects that the stack, the
  call frames, the open upvalues and the globals reach (cycles or not), each unchanged, leaves the
  rest of the machine alone and the heap well-formed: no kept object and no root dangles.
\<close>

theorem collectGarbage_keeps_exactly_the_reachable:
  assumes "heap_ok (vm_gc vm)" and "set (vm_roots vm) \<subseteq> dom (vm_store vm)"
  shows "\<exists>vm'. collectGarbage vm = Some vm' \<and>
    (\<forall>r. vm_store vm' r =
       (if reaches (vm_store vm) (set (vm_roots vm)) r then vm_store vm r else None)) \<and>
    vm' = vm\<lparr>vm_gc := vm_gc vm'\<rparr> \<and> heap_ok (vm_gc vm') \<and>
    set (vm_roots vm') \<subseteq> dom (vm_store vm')"
proof -
  obtain gc where gc: "collectGarbage vm = Some (vm\<lparr>vm_gc := gc\<rparr>)" "heap_ok gc"
    "gc_store gc = vm_store vm |` live_objects vm"
    using collectGarbage_correct [OF assms] by blast
  have "set (vm_roots vm) \<subseteq> live_objects vm" by (auto simp: live_objects_def intro: reaches.root)
  with gc assms(2) show ?thesis
    by (intro exI [of _ "vm\<lparr>vm_gc := gc\<rparr>"]) (auto simp: restrict_map_def live_objects_def)
qed

text \<open>A struct, an unreachable instance of it, and a list on the stack that holds itself.\<close>

definition sample_struct :: ObjStruct where
  "sample_struct = \<lparr>st_name = 0, st_methods = initTable, st_fields = initTable, st_fieldCount = 0,
     st_fieldPublic = replicate 256 False, st_fieldMutable = replicate 256 None\<rparr>"

definition sample_gc :: GC where
  "sample_gc = \<lparr>gc_bytesAllocated = 1000, gc_nextGC = 2000, gc_objects = [3, 2, 1, 0],
     gc_strings = initTable, gc_grayStack = [], gc_isMarked = (\<lambda>_. False),
     gc_store = [0 \<mapsto> OString \<lparr>str_chars = [65], str_hash = 7\<rparr>, 1 \<mapsto> OStruct sample_struct,
       2 \<mapsto> OInstance \<lparr>in_struct = 1, in_fields = None\<rparr>,
       3 \<mapsto> OList \<lparr>li_capacity = 8, li_values = [VAL_OBJ 3]\<rparr>],
     gc_fresh = 4\<rparr>"

definition no_system :: System where
  "no_system = \<lparr>sys_stdin = [], sys_files = Map.empty, sys_writable = (\<lambda>_. True),
     sys_readable = (\<lambda>_. True), sys_environment = Map.empty, sys_env_name = (\<lambda>n. n \<noteq> []),
     sys_rand = (\<lambda>_. 0), sys_clock = (\<lambda>_. 0), sys_time = (\<lambda>_. 0), sys_pow = (\<lambda>_ _. 0),
     sys_buffered = length, sys_pending = []\<rparr>"

definition sample_vm :: VM where
  "sample_vm = \<lparr>vm_frames = [], vm_stack = (\<lambda>_. VAL_OBJ 3), vm_stackTop = 1, vm_globals = initTable,
     vm_openUpvalues = [], vm_gc = sample_gc, vm_stdout = [], vm_stderr = [], vm_argv = [],
     vm_system = no_system\<rparr>"

lemma initTable_refs [simp]: "table_refs initTable = []" "keys_alive store initTable"
  by (simp_all add: table_refs_def initTable_def keys_alive_def)

lemma initTable_alive [simp]: "table_alive store initTable"
  by (simp add: table_alive_def)

lemma sample_heap_ok: "heap_ok sample_gc"
proof -
  have "struct_ok (gc_store sample_gc) sample_struct"
    by (simp add: struct_ok_def sample_struct_def sample_gc_def as_string_def)
  then have "obj_ok (gc_store sample_gc) r obj" if "gc_store sample_gc r = Some obj" for r obj
    using that by (auto simp: sample_gc_def obj_ok_def instance_ok_def as_struct_def sample_struct_def
        value_ref_def split: if_splits)
  moreover have "dom (gc_store sample_gc) = {0, 1, 2, 3}"
    by (auto simp: sample_gc_def)
  moreover have "gc_objects sample_gc = [3, 2, 1, 0]" "gc_fresh sample_gc = 4"
    "gc_isMarked sample_gc = (\<lambda>_. False)" "gc_grayStack sample_gc = []" "gc_strings sample_gc = initTable"
    by (simp_all add: sample_gc_def)
  ultimately show ?thesis
    by (simp add: heap_ok_def store_ok_def strings_ok_def insert_commute)
qed

lemma sample_roots: "vm_roots sample_vm = [3]"
  by (simp add: vm_roots_def sample_vm_def stack_list_def value_ref_def)

lemma sample_reaches: "reaches (vm_store sample_vm) {3} r \<longleftrightarrow> r = 3"
proof
  assume "reaches (vm_store sample_vm) {3} r"
  then have "r \<in> {3}"
    by (rule reaches_closed) (auto simp: sample_vm_def sample_gc_def value_ref_def)
  then show "r = 3" by simp
qed (simp add: reaches.root)

theorem collectGarbage_keeps_exactly_the_reachable_witness:
  "\<exists>vm'. collectGarbage sample_vm = Some vm' \<and> vm_store vm' 2 = None \<and> vm_store vm' 1 = None \<and>
     vm_store vm' 3 = Some (OList \<lparr>li_capacity = 8, li_values = [VAL_OBJ 3]\<rparr>)"
proof -
  have "heap_ok (vm_gc sample_vm)" using sample_heap_ok by (simp add: sample_vm_def)
  moreover have "set (vm_roots sample_vm) \<subseteq> dom (vm_store sample_vm)"
    unfolding sample_roots by (simp add: sample_vm_def sample_gc_def)
  ultimately obtain vm' where "collectGarbage sample_vm = Some vm'"
    "\<And>r. vm_store vm' r = (if reaches (vm_store sample_vm) (set (vm_roots sample_vm)) r
       then vm_store sample_vm r else None)"
    using collectGarbage_keeps_exactly_the_reachable by blast
  then show ?thesis
    by (simp add: sample_roots sample_reaches) (simp add: sample_vm_def sample_gc_def)
qed

text \<open>
  C21. Freeing the whole heap, at shutdown, frees every object and never reads one it has
  already freed: an instance, whose struct says how many values to free, is younger than that
  struct, and the list has the youngest object first.
\<close>

theorem freeObjects_frees_every_object:
  assumes "heap_ok gc"
  shows "\<exists>gc'. freeObjects gc = Some gc' \<and> gc_store gc' = Map.empty"
proof -
  have "\<forall>r \<in> set (gc_objects gc). freeable (gc_store gc) r"
    using assms store_ok_freeable by (auto simp: heap_ok_def)
  then obtain b where "freeObjects gc =
      Some (gc\<lparr>gc_bytesAllocated := b, gc_store := gc_store gc |` (- dom (gc_store gc))\<rparr>)"
    using free_all_correct [of "gc_objects gc" gc] assms by (auto simp: freeObjects_def heap_ok_def)
  moreover have "gc_store gc |` (- dom (gc_store gc)) = Map.empty"
    by (auto simp: restrict_map_def fun_eq_iff)
  ultimately show ?thesis by auto
qed

theorem freeObjects_frees_every_object_witness:
  "\<exists>gc'. freeObjects sample_gc = Some gc' \<and> gc_store gc' 2 = None"
  using freeObjects_frees_every_object [OF sample_heap_ok] by auto

end
