(* ===== verification/Object_Heap.thy ===== *)
theory Object_Heap
  imports GC
begin

text \<open>
  Making and changing objects, \<^verbatim>\<open>src/object.c\<close>, with the growing arrays of \<^verbatim>\<open>src/value.c\<close> and
  \<^verbatim>\<open>src/chunk.c\<close> and the runtime tables as they live in the heap: every allocation may run a
  collection.  An object's contents are given when it is allocated; the source writes them right
  after, with no allocation in between.
\<close>

section \<open>Objects and their allocation\<close>

definition put_obj :: "obj_ref \<Rightarrow> Obj \<Rightarrow> VM \<Rightarrow> VM" where
  "put_obj r obj vm = vm\<lparr>vm_gc := (vm_gc vm)\<lparr>gc_store := (vm_store vm)(r \<mapsto> obj)\<rparr>\<rparr>"

lemma put_obj_simps [simp]:
  "vm_store (put_obj r obj vm) = (vm_store vm)(r \<mapsto> obj)"
  "vm_roots (put_obj r obj vm) = vm_roots vm"
  "vm_frames (put_obj r obj vm) = vm_frames vm" "vm_globals (put_obj r obj vm) = vm_globals vm"
  "vm_stack (put_obj r obj vm) = vm_stack vm" "vm_stackTop (put_obj r obj vm) = vm_stackTop vm"
  "vm_openUpvalues (put_obj r obj vm) = vm_openUpvalues vm" "vm_stdout (put_obj r obj vm) = vm_stdout vm"
  "gc_fresh (vm_gc (put_obj r obj vm)) = gc_fresh (vm_gc vm)"
  "gc_strings (vm_gc (put_obj r obj vm)) = gc_strings (vm_gc vm)"
  by (simp_all add: put_obj_def)

definition allocateObject :: "Obj \<Rightarrow> VM \<Rightarrow> (obj_ref \<times> VM) option" where
  "allocateObject obj vm =
     do {
       vm \<leftarrow> reallocate 0 (sizeof_obj (obj_type obj)) vm;
       let gc = vm_gc vm; object = gc_fresh gc
       in Some (object,
            vm\<lparr>vm_gc := gc\<lparr>gc_store := (gc_store gc)(object \<mapsto> obj),
                           gc_isMarked := (gc_isMarked gc)(object := False),
                           gc_objects := object # gc_objects gc,
                           gc_fresh := object + 1\<rparr>\<rparr>)
     }"

definition newBoundMethod :: "Value \<Rightarrow> obj_ref \<Rightarrow> VM \<Rightarrow> (obj_ref \<times> VM) option" where
  "newBoundMethod receiver method vm =
     allocateObject (OBoundMethod \<lparr>bm_receiver = receiver, bm_method = method\<rparr>) vm"

definition newStruct :: "obj_ref \<Rightarrow> VM \<Rightarrow> (obj_ref \<times> VM) option" where
  "newStruct name vm =
     allocateObject (OStruct \<lparr>st_name = name, st_methods = initTable, st_fields = initTable,
       st_fieldCount = 0, st_fieldPublic = replicate 256 False,
       st_fieldMutable = replicate 256 None\<rparr>) vm"

text \<open>\<open>(int)AS_NUMBER_F64(value)\<close>, undefined when it does not fit an \<open>int\<close>.\<close>

definition slot_of_value :: "Value \<Rightarrow> int option" where
  "slot_of_value v =
     (case v of
        VAL_NUMBER kind payload \<Rightarrow>
          do { i \<leftarrow> f64_trunc payload; if - (2 ^ 31) \<le> i \<and> i < 2 ^ 31 then Some i else None }
      | _ \<Rightarrow> None)"

definition structFieldSlot ::
    "(obj_ref \<Rightarrow> Obj option) \<Rightarrow> ObjStruct \<Rightarrow> obj_ref \<Rightarrow> int option option" where
  "structFieldSlot store s name =
     do {
       found \<leftarrow> tableGet (key_hash store) (st_fields s) name;
       (case found of
          None \<Rightarrow> Some None
        | Some value \<Rightarrow> do { slot \<leftarrow> slot_of_value value; Some (Some slot) })
     }"

fun find_field_name :: "Entry list \<Rightarrow> int \<Rightarrow> obj_ref option option" where
  "find_field_name [] slot = Some None"
| "find_field_name (e # es) slot =
     (case e_key e of
        None \<Rightarrow> find_field_name es slot
      | Some key \<Rightarrow>
          do {
            i \<leftarrow> slot_of_value (e_value e);
            if i = slot then Some (Some key) else find_field_name es slot
          })"

definition structFieldName :: "ObjStruct \<Rightarrow> int \<Rightarrow> obj_ref option option" where
  "structFieldName s slot = find_field_name (t_entries (st_fields s)) slot"

definition newClosure :: "obj_ref \<Rightarrow> VM \<Rightarrow> (obj_ref \<times> VM) option" where
  "newClosure fn vm =
     do {
       f \<leftarrow> as_function (vm_store vm) fn;
       vm \<leftarrow> reallocate 0 (sizeof_pointer * fn_upvalueCount f) vm;
       f \<leftarrow> as_function (vm_store vm) fn;
       allocateObject (OClosure \<lparr>cl_function = fn, cl_upvalues = replicate (fn_upvalueCount f) None,
         cl_owner = None\<rparr>) vm
     }"

definition initValueArray :: ValueArray where
  "initValueArray = \<lparr>va_capacity = 0, va_values = []\<rparr>"

definition initChunk :: Chunk where
  "initChunk = \<lparr>ch_capacity = 0, ch_code = [], ch_lines = [], ch_constants = initValueArray\<rparr>"

definition newFunction :: "VM \<Rightarrow> (obj_ref \<times> VM) option" where
  "newFunction vm =
     allocateObject (OFunction \<lparr>fn_arity = 0, fn_upvalueCount = 0, fn_chunk = initChunk,
       fn_name = None, fn_isStatic = False, fn_isPublic = False\<rparr>) vm"

definition newInstance :: "obj_ref \<Rightarrow> VM \<Rightarrow> (obj_ref \<times> VM) option" where
  "newInstance struct_ref vm =
     do {
       (r, vm) \<leftarrow> allocateObject (OInstance \<lparr>in_struct = struct_ref, in_fields = None\<rparr>) vm;
       vm \<leftarrow> pushOnStack (VAL_OBJ r) vm;
       s \<leftarrow> as_struct (vm_store vm) struct_ref;
       vm \<leftarrow> (if 0 < st_fieldCount s
              then do {
                vm \<leftarrow> reallocate 0 (sizeof_Value * st_fieldCount s) vm;
                s \<leftarrow> as_struct (vm_store vm) struct_ref;
                i \<leftarrow> as_instance (vm_store vm) r;
                Some (put_obj r (OInstance (i\<lparr>in_fields := Some (replicate (st_fieldCount s) VAL_NIL)\<rparr>)) vm)
              }
              else Some vm);
       (_, vm) \<leftarrow> popFromStack vm;
       Some (r, vm)
     }"

definition newNative :: "nat \<Rightarrow> VM \<Rightarrow> (obj_ref \<times> VM) option" where
  "newNative function_id vm = allocateObject (ONative function_id) vm"

definition newList :: "VM \<Rightarrow> (obj_ref \<times> VM) option" where
  "newList vm = allocateObject (OList \<lparr>li_capacity = 0, li_values = []\<rparr>) vm"

definition newArray :: "nat \<Rightarrow> VM \<Rightarrow> (obj_ref \<times> VM) option" where
  "newArray count vm =
     do {
       vm \<leftarrow> (if 0 < count then reallocate 0 (sizeof_Value * count) vm else Some vm);
       allocateObject (OArray (replicate count VAL_NIL)) vm
     }"

definition newUpvalue :: "nat \<Rightarrow> VM \<Rightarrow> (obj_ref \<times> VM) option" where
  "newUpvalue slot vm =
     allocateObject (OUpvalue \<lparr>uv_location = LOC_STACK slot, uv_closed = VAL_NIL\<rparr>) vm"

text \<open>The capacity of a list grows before its memory does.\<close>

definition writeValueToListObj :: "obj_ref \<Rightarrow> Value \<Rightarrow> VM \<Rightarrow> VM option" where
  "writeValueToListObj list value vm =
     do {
       l \<leftarrow> as_list (vm_store vm) list;
       vm \<leftarrow> (if li_capacity l < length (li_values l) + 1
              then let capacity = GROW_CAPACITY (li_capacity l)
                   in reallocate (sizeof_Value * li_capacity l) (sizeof_Value * capacity)
                        (put_obj list (OList (l\<lparr>li_capacity := capacity\<rparr>)) vm)
              else Some vm);
       l \<leftarrow> as_list (vm_store vm) list;
       Some (put_obj list (OList (l\<lparr>li_values := li_values l @ [value]\<rparr>)) vm)
     }"

section \<open>Tables in the heap\<close>

datatype TablePtr = T_STRINGS | T_GLOBALS | T_METHODS obj_ref | T_FIELDS obj_ref

fun get_table :: "VM \<Rightarrow> TablePtr \<Rightarrow> Table option" where
  "get_table vm T_STRINGS = Some (gc_strings (vm_gc vm))"
| "get_table vm T_GLOBALS = Some (vm_globals vm)"
| "get_table vm (T_METHODS r) = map_option st_methods (as_struct (vm_store vm) r)"
| "get_table vm (T_FIELDS r) = map_option st_fields (as_struct (vm_store vm) r)"

fun put_table :: "VM \<Rightarrow> TablePtr \<Rightarrow> Table \<Rightarrow> VM option" where
  "put_table vm T_STRINGS t = Some (vm\<lparr>vm_gc := (vm_gc vm)\<lparr>gc_strings := t\<rparr>\<rparr>)"
| "put_table vm T_GLOBALS t = Some (vm\<lparr>vm_globals := t\<rparr>)"
| "put_table vm (T_METHODS r) t =
     map_option (\<lambda>s. put_obj r (OStruct (s\<lparr>st_methods := t\<rparr>)) vm) (as_struct (vm_store vm) r)"
| "put_table vm (T_FIELDS r) t =
     map_option (\<lambda>s. put_obj r (OStruct (s\<lparr>st_fields := t\<rparr>)) vm) (as_struct (vm_store vm) r)"

text \<open>
  \<open>tableSet\<close> on a table of the machine.  Growing allocates the new entries, which may collect and
  thereby delete keys from the string table, and then frees the old ones.
\<close>

definition tableSetAt :: "TablePtr \<Rightarrow> obj_ref \<Rightarrow> Value \<Rightarrow> VM \<Rightarrow> (bool \<times> VM) option" where
  "tableSetAt p key value vm =
     do {
       old \<leftarrow> get_table vm p;
       vm \<leftarrow> (if table_overloaded old
              then do {
                vm \<leftarrow> reallocate 0 (sizeof_Entry * GROW_CAPACITY (t_capacity old)) vm;
                Some (vm\<lparr>vm_gc := free_bytes (sizeof_Entry * t_capacity old) (vm_gc vm)\<rparr>)
              }
              else Some vm);
       table \<leftarrow> get_table vm p;
       (if keys_alive (vm_store vm) table \<and> as_string (vm_store vm) key \<noteq> None
        then do {
          (isNewKey, table) \<leftarrow> tableSet (key_hash (vm_store vm)) table key value;
          vm \<leftarrow> put_table vm p table;
          Some (isNewKey, vm)
        }
        else None)
     }"

section \<open>Strings\<close>

definition allocateString :: "bytes \<Rightarrow> u32 \<Rightarrow> VM \<Rightarrow> (obj_ref \<times> VM) option" where
  "allocateString chars hash vm =
     do {
       (string, vm) \<leftarrow> allocateObject (OString \<lparr>str_chars = chars, str_hash = hash\<rparr>) vm;
       vm \<leftarrow> pushOnStack (VAL_OBJ string) vm;
       (_, vm) \<leftarrow> tableSetAt T_STRINGS string VAL_NIL vm;
       (_, vm) \<leftarrow> popFromStack vm;
       Some (string, vm)
     }"

definition find_interned :: "bytes \<Rightarrow> u32 \<Rightarrow> VM \<Rightarrow> obj_ref option option" where
  "find_interned chars hash vm =
     (if keys_alive (vm_store vm) (gc_strings (vm_gc vm))
      then tableFindString (key_hash (vm_store vm)) (key_chars (vm_store vm))
             (gc_strings (vm_gc vm)) chars hash
      else None)"

text \<open>\<open>takeString\<close> owns the buffer it is given; \<open>copyString\<close> allocates its own.\<close>

definition takeString :: "bytes \<Rightarrow> VM \<Rightarrow> (obj_ref \<times> VM) option" where
  "takeString chars vm =
     do {
       interned \<leftarrow> find_interned chars (hashBytes chars) vm;
       (case interned of
          Some r \<Rightarrow> do { vm \<leftarrow> reallocate (length chars + 1) 0 vm; Some (r, vm) }
        | None \<Rightarrow> allocateString chars (hashBytes chars) vm)
     }"

definition copyString :: "bytes \<Rightarrow> VM \<Rightarrow> (obj_ref \<times> VM) option" where
  "copyString chars vm =
     do {
       interned \<leftarrow> find_interned chars (hashBytes chars) vm;
       (case interned of
          Some r \<Rightarrow> Some (r, vm)
        | None \<Rightarrow>
            do {
              vm \<leftarrow> reallocate 0 (length chars + 1) vm;
              allocateString chars (hashBytes chars) vm
            })
     }"

section \<open>Chunks\<close>

definition grow_constants :: "obj_ref \<Rightarrow> ObjFunction \<Rightarrow> nat \<Rightarrow> VM \<Rightarrow> VM" where
  "grow_constants fn f capacity vm =
     put_obj fn (OFunction (f\<lparr>fn_chunk := (fn_chunk f)\<lparr>ch_constants :=
       (ch_constants (fn_chunk f))\<lparr>va_capacity := capacity\<rparr>\<rparr>\<rparr>)) vm"

text \<open>\<open>writeValueArray\<close> on the constants of a function.\<close>

definition writeValueArray :: "obj_ref \<Rightarrow> Value \<Rightarrow> VM \<Rightarrow> VM option" where
  "writeValueArray fn value vm =
     do {
       f \<leftarrow> as_function (vm_store vm) fn;
       let array = ch_constants (fn_chunk f);
       let capacity = GROW_CAPACITY (va_capacity array);
       vm \<leftarrow> (if va_capacity array < length (va_values array) + 1
              then reallocate (sizeof_Value * va_capacity array) (sizeof_Value * capacity)
                     (grow_constants fn f capacity vm)
              else Some vm);
       f \<leftarrow> as_function (vm_store vm) fn;
       let array = ch_constants (fn_chunk f)
       in Some (put_obj fn (OFunction (f\<lparr>fn_chunk := (fn_chunk f)\<lparr>ch_constants :=
            array\<lparr>va_values := va_values array @ [value]\<rparr>\<rparr>\<rparr>)) vm)
     }"

text \<open>The code and the lines of a chunk are two arrays: growing them may collect twice.\<close>

definition writeChunk :: "obj_ref \<Rightarrow> u8 \<Rightarrow> int \<Rightarrow> VM \<Rightarrow> VM option" where
  "writeChunk fn byte line vm =
     do {
       f \<leftarrow> as_function (vm_store vm) fn;
       let old = ch_capacity (fn_chunk f);
       let capacity = GROW_CAPACITY old;
       vm \<leftarrow> (if old < length (ch_code (fn_chunk f)) + 1
              then do {
                vm \<leftarrow> reallocate old capacity
                  (put_obj fn (OFunction (f\<lparr>fn_chunk := (fn_chunk f)\<lparr>ch_capacity := capacity\<rparr>\<rparr>)) vm);
                reallocate (sizeof_int * old) (sizeof_int * capacity) vm
              }
              else Some vm);
       f \<leftarrow> as_function (vm_store vm) fn;
       Some (put_obj fn (OFunction (f\<lparr>fn_chunk := (fn_chunk f)\<lparr>
         ch_code := ch_code (fn_chunk f) @ [byte], ch_lines := ch_lines (fn_chunk f) @ [line]\<rparr>\<rparr>)) vm)
     }"

section \<open>Types and printing\<close>

fun objectTypeToString :: "ObjType \<Rightarrow> string" where
  "objectTypeToString OBJ_STRING = ''string''"
| "objectTypeToString OBJ_FUNCTION = ''function''"
| "objectTypeToString OBJ_CLOSURE = ''function''"
| "objectTypeToString OBJ_NATIVE = ''function''"
| "objectTypeToString OBJ_UPVALUE = ''upvalue''"
| "objectTypeToString OBJ_STRUCT = ''struct''"
| "objectTypeToString OBJ_INSTANCE = ''instance''"
| "objectTypeToString OBJ_BOUND_METHOD = ''function''"
| "objectTypeToString OBJ_LIST = ''list''"
| "objectTypeToString OBJ_ARRAY = ''array''"

text \<open>\<open>%s\<close> prints the characters up to the first NUL.\<close>

definition c_string :: "bytes \<Rightarrow> bytes" where
  "c_string chars = takeWhile (\<lambda>b. b \<noteq> 0) chars"

definition string_at :: "(obj_ref \<Rightarrow> Obj option) \<Rightarrow> obj_ref \<Rightarrow> bytes option" where
  "string_at store r = map_option (\<lambda>s. c_string (str_chars s)) (as_string store r)"

definition printFunction :: "(obj_ref \<Rightarrow> Obj option) \<Rightarrow> obj_ref \<Rightarrow> Printed list option" where
  "printFunction store fn =
     do {
       f \<leftarrow> as_function store fn;
       (case fn_name f of
          None \<Rightarrow> Some [P_text ''<script>'']
        | Some n \<Rightarrow> do { s \<leftarrow> string_at store n; Some [P_text ''<fn '', P_chars s, P_text ''>''] })
     }"

text \<open>What is left to print: a piece of text, or a value.\<close>

datatype PrintItem = Piece Printed | Item Value

fun print_items :: "Value list \<Rightarrow> PrintItem list" where
  "print_items [] = []"
| "print_items [v] = [Item v]"
| "print_items (v # vs) = Item v # Piece (P_text '', '') # print_items vs"

definition printObject :: "(obj_ref \<Rightarrow> Obj option) \<Rightarrow> obj_ref \<Rightarrow> PrintItem list option" where
  "printObject store r =
     do {
       obj \<leftarrow> store r;
       (case obj of
          OStruct s \<Rightarrow> do { n \<leftarrow> string_at store (st_name s); Some [Piece (P_chars n)] }
        | OInstance i \<Rightarrow>
            do {
              s \<leftarrow> as_struct store (in_struct i);
              n \<leftarrow> string_at store (st_name s);
              Some [Piece (P_chars n), Piece (P_text '' instance'')]
            }
        | OBoundMethod b \<Rightarrow>
            do {
              c \<leftarrow> as_closure store (bm_method b);
              ps \<leftarrow> printFunction store (cl_function c);
              Some (map Piece ps)
            }
        | OFunction f \<Rightarrow> do { ps \<leftarrow> printFunction store r; Some (map Piece ps) }
        | ONative n \<Rightarrow> Some [Piece (P_text ''<native fn>'')]
        | OString s \<Rightarrow> Some [Piece (P_chars (c_string (str_chars s)))]
        | OClosure c \<Rightarrow> do { ps \<leftarrow> printFunction store (cl_function c); Some (map Piece ps) }
        | OUpvalue u \<Rightarrow> Some [Piece (P_text ''upvalue'')]
        | OList l \<Rightarrow> Some (Piece (P_text ''['') # print_items (li_values l) @ [Piece (P_text '']'')])
        | OArray a \<Rightarrow> Some (Piece (P_text ''['') # print_items a @ [Piece (P_text '']'')]))
     }"

fun valueToPrinted :: "Value \<Rightarrow> Printed" where
  "valueToPrinted (VAL_BOOL b) = P_text (if b then ''true'' else ''false'')"
| "valueToPrinted VAL_NIL = P_text ''nil''"
| "valueToPrinted (VAL_NUMBER kind payload) = P_number kind payload"
| "valueToPrinted (VAL_OBJ r) = P_text []"

text \<open>
  \<open>printValue\<close> and \<open>printObject\<close> call each other; the items still to print stand for the calls
  that have not returned.  A list that contains itself never finishes.
\<close>

partial_function (option) print_loop ::
    "(obj_ref \<Rightarrow> Obj option) \<Rightarrow> PrintItem list \<Rightarrow> Printed list \<Rightarrow> Printed list option" where
  "print_loop store items printed =
     (case items of
        [] \<Rightarrow> Some printed
      | Piece p # rest \<Rightarrow> print_loop store rest (printed @ [p])
      | Item v # rest \<Rightarrow>
          (case v of
             VAL_OBJ r \<Rightarrow> do { more \<leftarrow> printObject store r; print_loop store (more @ rest) printed }
           | _ \<Rightarrow> print_loop store rest (printed @ [valueToPrinted v])))"

definition printValue :: "(obj_ref \<Rightarrow> Obj option) \<Rightarrow> Value \<Rightarrow> Printed list option" where
  "printValue store v = print_loop store [Item v] []"

end
