(* ===== verification/VM_Calls.thy ===== *)
theory VM_Calls
  imports Object_Heap
begin

text \<open>
  The parts of \<^verbatim>\<open>src/vm.c\<close> that the instructions share: runtime errors with their stack
  trace, calls, method lookup, upvalues, string concatenation and arithmetic.  A function that
  returns \<open>false\<close> after \<open>runtimeError\<close> returns the failure here; \<open>assertNonZeroNumber\<close> of
  \<^verbatim>\<open>src/asserts.c\<close> leaves the process.
\<close>

section \<open>Errors\<close>

text \<open>One constructor per message, with the arguments its format takes.\<close>

datatype NativeError =
    N_arg_count string nat nat
  | N_arg_type string nat string
  | N_index_bounds string int nat
  | N_zero string nat u64
  | N_not_positive string nat u64
  | N_not_at_least string nat u64 u64
  | N_not_at_most string nat u64 u64
  | N_negative string nat u64
  | N_not_whole string nat u64
  | N_no_file bytes
  | N_no_variable bytes
  | N_setenv_failed bytes
  | N_rand_bounds
  | N_empty_list
  | N_slice_order string
  | N_element_type string nat string
  | N_not_number_text string string bytes
  | N_zero_power u64
  | N_fractional_power u64 u64
  | N_script string bytes
  | N_too_large string
  | N_position string nat nat u64
  | N_prompt_type string
  | N_input_too_long string

datatype RuntimeError =
    E_arity int nat
  | E_stack_overflow
  | E_not_callable
  | E_undefined_property bytes
  | E_static_called bytes bytes
  | E_static_accessed bytes bytes
  | E_method_private bytes bytes
  | E_needs_instance bytes bytes
  | E_only_instances_have_methods
  | E_field_private bytes bytes
  | E_only_structs_have_impls
  | E_add_operands
  | E_number_operands
  | E_integer_overflow NumberKind NumberOp NumberPayload NumberPayload
  | E_negate_overflow NumberKind NumberPayload
  | E_zero_operand string NumberKind NumberPayload
  | E_operand_not_number
  | E_cast_target nat
  | E_cast_not_number
  | E_cast_float NumberKind NumberPayload NumberKind
  | E_cast_integer NumberKind NumberPayload NumberKind
  | E_undefined_variable bytes
  | E_set_undefined_variable bytes
  | E_not_a_struct
  | E_undefined_field bytes
  | E_missing_field "bytes option"
  | E_only_instances_have_properties
  | E_only_instances_have_fields
  | E_field_immutable bytes
  | E_field_outside_struct
  | E_duplicate_field bytes
  | E_too_many_fields
  | E_index_target
  | E_index_not_number
  | E_index string
  | E_native NativeError

type_synonym TraceLine = "int \<times> bytes option"

datatype StepResult =
    Next VM
  | Finished VM
  | Failed RuntimeError "TraceLine list" VM
  | Exited int RuntimeError "TraceLine list" VM
  | Stopped int VM

definition frame_function :: "VM \<Rightarrow> CallFrame \<Rightarrow> ObjFunction option" where
  "frame_function vm frame =
     do {
       c \<leftarrow> as_closure (vm_store vm) (fr_closure frame);
       as_function (vm_store vm) (cl_function c)
     }"

text \<open>The line of the instruction before \<open>ip\<close>, and the function's name (none for the script).\<close>

definition trace_line :: "VM \<Rightarrow> CallFrame \<Rightarrow> TraceLine option" where
  "trace_line vm frame =
     do {
       f \<leftarrow> frame_function vm frame;
       let lines = ch_lines (fn_chunk f);
       (if 0 < fr_ip frame \<and> fr_ip frame - 1 < length lines
        then (case fn_name f of
                None \<Rightarrow> Some (lines ! (fr_ip frame - 1), None)
              | Some n \<Rightarrow> do { s \<leftarrow> string_at (vm_store vm) n; Some (lines ! (fr_ip frame - 1), Some s) })
        else None)
     }"

fun stack_trace :: "VM \<Rightarrow> CallFrame list \<Rightarrow> TraceLine list option" where
  "stack_trace vm [] = Some []"
| "stack_trace vm (frame # frames) =
     do { line \<leftarrow> trace_line vm frame; lines \<leftarrow> stack_trace vm frames; Some (line # lines) }"

definition runtimeError :: "RuntimeError \<Rightarrow> VM \<Rightarrow> StepResult option" where
  "runtimeError err vm =
     do { trace \<leftarrow> stack_trace vm (vm_frames vm); Some (Failed err trace (resetStack vm)) }"

definition EXIT_CODE_RUNTIME_ERR :: int where
  "EXIT_CODE_RUNTIME_ERR = 70"

definition raise_and_exit :: "RuntimeError \<Rightarrow> VM \<Rightarrow> StepResult option" where
  "raise_and_exit err vm =
     do {
       trace \<leftarrow> stack_trace vm (vm_frames vm);
       Some (Exited EXIT_CODE_RUNTIME_ERR err trace (resetStack vm))
     }"

text \<open>The characters a message shows for a string object.\<close>

definition shown :: "VM \<Rightarrow> obj_ref \<Rightarrow> bytes option" where
  "shown vm r = string_at (vm_store vm) r"

definition struct_shown :: "VM \<Rightarrow> obj_ref \<Rightarrow> bytes option" where
  "struct_shown vm r = do { s \<leftarrow> as_struct (vm_store vm) r; shown vm (st_name s) }"

section \<open>Calls\<close>

text \<open>A native returns a value, leaves the process after a message, or just leaves it.\<close>

datatype NativeResult =
    Returns Value VM
  | Exits int RuntimeError "TraceLine list" VM
  | Stops int VM

text \<open>
  The native functions of \<^verbatim>\<open>src/native.c\<close>: from the identity of one, the machine, the number of
  arguments and the stack position of the first.
\<close>

type_synonym natives = "nat \<Rightarrow> VM \<Rightarrow> nat \<Rightarrow> nat \<Rightarrow> NativeResult option"

definition call :: "obj_ref \<Rightarrow> nat \<Rightarrow> VM \<Rightarrow> StepResult option" where
  "call closure argCount vm =
     do {
       c \<leftarrow> as_closure (vm_store vm) closure;
       f \<leftarrow> as_function (vm_store vm) (cl_function c);
       (if int argCount \<noteq> fn_arity f then runtimeError (E_arity (fn_arity f) argCount) vm
        else if length (vm_frames vm) = FRAMES_MAX then runtimeError E_stack_overflow vm
        else if argCount + 1 \<le> vm_stackTop vm
        then Some (Next (vm\<lparr>vm_frames :=
               \<lparr>fr_closure = closure, fr_ip = 0, fr_slots = vm_stackTop vm - argCount - 1\<rparr> # vm_frames vm\<rparr>))
        else None)
     }"

text \<open>\<open>vm.stackTop[-argCount - 1] = value\<close>.\<close>

definition set_callee :: "nat \<Rightarrow> Value \<Rightarrow> VM \<Rightarrow> VM option" where
  "set_callee argCount value vm =
     (if argCount + 1 \<le> vm_stackTop vm
      then Some (vm\<lparr>vm_stack := (vm_stack vm)(vm_stackTop vm - argCount - 1 := value)\<rparr>)
      else None)"

definition callNative :: "natives \<Rightarrow> nat \<Rightarrow> nat \<Rightarrow> VM \<Rightarrow> StepResult option" where
  "callNative native function_id argCount vm =
     (if argCount \<le> vm_stackTop vm
      then do {
        result \<leftarrow> native function_id vm argCount (vm_stackTop vm - argCount);
        (case result of
           Returns value vm \<Rightarrow>
             do {
               vm \<leftarrow> popNFromStack (argCount + 1) vm;
               vm \<leftarrow> pushOnStack value vm;
               Some (Next vm)
             }
         | Exits code err trace vm \<Rightarrow> Some (Exited code err trace vm)
         | Stops code vm \<Rightarrow> Some (Stopped code vm))
      }
      else None)"

definition callValue :: "natives \<Rightarrow> Value \<Rightarrow> nat \<Rightarrow> VM \<Rightarrow> StepResult option" where
  "callValue native callee argCount vm =
     (case callee of
        VAL_OBJ r \<Rightarrow>
          do {
            obj \<leftarrow> vm_store vm r;
            (case obj of
               OBoundMethod bound \<Rightarrow>
                 do {
                   vm \<leftarrow> set_callee argCount (bm_receiver bound) vm;
                   call (bm_method bound) argCount vm
                 }
             | OClosure c \<Rightarrow> call r argCount vm
             | ONative function_id \<Rightarrow> callNative native function_id argCount vm
             | _ \<Rightarrow> runtimeError E_not_callable vm)
          }
      | _ \<Rightarrow> runtimeError E_not_callable vm)"

section \<open>Structs: visibility and methods\<close>

definition currentOwner :: "VM \<Rightarrow> obj_ref option option" where
  "currentOwner vm =
     (case vm_frames vm of
        [] \<Rightarrow> Some None
      | frame # _ \<Rightarrow> map_option cl_owner (as_closure (vm_store vm) (fr_closure frame)))"

definition canAccess :: "obj_ref \<Rightarrow> bool \<Rightarrow> VM \<Rightarrow> bool option" where
  "canAccess struct_ref isPublic vm =
     (if isPublic then Some True
      else do { owner \<leftarrow> currentOwner vm; Some (owner = Some struct_ref) })"

text \<open>\<open>canAccess(struct_, struct_->fieldPublic[slot])\<close>.\<close>

definition canAccessField :: "obj_ref \<Rightarrow> nat \<Rightarrow> VM \<Rightarrow> bool option" where
  "canAccessField struct_ref slot vm =
     do {
       s \<leftarrow> as_struct (vm_store vm) struct_ref;
       (if slot < length (st_fieldPublic s)
        then canAccess struct_ref (st_fieldPublic s ! slot) vm else None)
     }"

definition find_method :: "obj_ref \<Rightarrow> obj_ref \<Rightarrow> VM \<Rightarrow> Value option option" where
  "find_method struct_ref name vm =
     do {
       s \<leftarrow> as_struct (vm_store vm) struct_ref;
       tableGet (key_hash (vm_store vm)) (st_methods s) name
     }"

text \<open>\<open>structFieldSlot\<close> on a struct of the heap; a negative slot would index out of its arrays.\<close>

definition find_slot :: "obj_ref \<Rightarrow> obj_ref \<Rightarrow> VM \<Rightarrow> nat option option" where
  "find_slot struct_ref name vm =
     do {
       s \<leftarrow> as_struct (vm_store vm) struct_ref;
       found \<leftarrow> structFieldSlot (vm_store vm) s name;
       (case found of
          None \<Rightarrow> Some None
        | Some slot \<Rightarrow> if 0 \<le> slot then Some (Some (nat slot)) else None)
     }"

text \<open>\<open>AS_CLOSURE(method)\<close> and its function.\<close>

definition method_closure :: "Value \<Rightarrow> VM \<Rightarrow> (obj_ref \<times> ObjFunction) option" where
  "method_closure method vm =
     do {
       r \<leftarrow> value_ref method;
       c \<leftarrow> as_closure (vm_store vm) r;
       f \<leftarrow> as_function (vm_store vm) (cl_function c);
       Some (r, f)
     }"

definition invokeFromStruct :: "obj_ref \<Rightarrow> obj_ref \<Rightarrow> nat \<Rightarrow> VM \<Rightarrow> StepResult option" where
  "invokeFromStruct struct_ref name argCount vm =
     do {
       found \<leftarrow> find_method struct_ref name vm;
       name_s \<leftarrow> shown vm name;
       struct_s \<leftarrow> struct_shown vm struct_ref;
       (case found of
          None \<Rightarrow> runtimeError (E_undefined_property name_s) vm
        | Some method \<Rightarrow>
            do {
              (closure, f) \<leftarrow> method_closure method vm;
              access \<leftarrow> canAccess struct_ref (fn_isPublic f) vm;
              (if fn_isStatic f then runtimeError (E_static_called name_s struct_s) vm
               else if \<not> access then runtimeError (E_method_private name_s struct_s) vm
               else call closure argCount vm)
            })
     }"

definition invokeStatic :: "obj_ref \<Rightarrow> obj_ref \<Rightarrow> nat \<Rightarrow> VM \<Rightarrow> StepResult option" where
  "invokeStatic struct_ref name argCount vm =
     do {
       found \<leftarrow> find_method struct_ref name vm;
       name_s \<leftarrow> shown vm name;
       struct_s \<leftarrow> struct_shown vm struct_ref;
       (case found of
          None \<Rightarrow> runtimeError (E_undefined_property name_s) vm
        | Some method \<Rightarrow>
            do {
              (closure, f) \<leftarrow> method_closure method vm;
              access \<leftarrow> canAccess struct_ref (fn_isPublic f) vm;
              (if \<not> fn_isStatic f then runtimeError (E_needs_instance name_s struct_s) vm
               else if \<not> access then runtimeError (E_method_private name_s struct_s) vm
               else call closure argCount vm)
            })
     }"

text \<open>
  A private field that the caller may not see is shadowed by a method of the same name; a field
  that holds a function is called in the receiver's place.
\<close>

definition invokeInstance :: "natives \<Rightarrow> obj_ref \<Rightarrow> obj_ref \<Rightarrow> nat \<Rightarrow> VM \<Rightarrow> StepResult option" where
  "invokeInstance native instance_ref name argCount vm =
     do {
       i \<leftarrow> as_instance (vm_store vm) instance_ref;
       let struct_ref = in_struct i;
       found \<leftarrow> find_slot struct_ref name vm;
       (case found of
          Some slot \<Rightarrow>
            do {
              access \<leftarrow> canAccessField struct_ref slot vm;
              (if \<not> access
               then do {
                 method \<leftarrow> find_method struct_ref name vm;
                 (case method of
                    Some _ \<Rightarrow> invokeFromStruct struct_ref name argCount vm
                  | None \<Rightarrow>
                      do {
                        name_s \<leftarrow> shown vm name;
                        struct_s \<leftarrow> struct_shown vm struct_ref;
                        runtimeError (E_field_private name_s struct_s) vm
                      })
               }
               else do {
                 values \<leftarrow> in_fields i;
                 (if slot < length values
                  then do {
                    vm \<leftarrow> set_callee argCount (values ! slot) vm;
                    callValue native (values ! slot) argCount vm
                  }
                  else None)
               })
            }
        | None \<Rightarrow> invokeFromStruct struct_ref name argCount vm)
     }"

definition invoke :: "natives \<Rightarrow> obj_ref \<Rightarrow> nat \<Rightarrow> VM \<Rightarrow> StepResult option" where
  "invoke native name argCount vm =
     do {
       caller \<leftarrow> peekStack argCount vm;
       isStruct \<leftarrow> isObjType (vm_store vm) caller OBJ_STRUCT;
       isInstance \<leftarrow> isObjType (vm_store vm) caller OBJ_INSTANCE;
       (if isStruct then do { r \<leftarrow> value_ref caller; invokeStatic r name argCount vm }
        else if \<not> isInstance then runtimeError E_only_instances_have_methods vm
        else do { r \<leftarrow> value_ref caller; invokeInstance native r name argCount vm })
     }"

text \<open>\<open>bindMethod\<close>, with what \<open>OP_GET_PROPERTY\<close> does with its three results.\<close>

definition bindMethod :: "obj_ref \<Rightarrow> obj_ref \<Rightarrow> VM \<Rightarrow> StepResult option" where
  "bindMethod struct_ref name vm =
     do {
       found \<leftarrow> find_method struct_ref name vm;
       name_s \<leftarrow> shown vm name;
       struct_s \<leftarrow> struct_shown vm struct_ref;
       (case found of
          None \<Rightarrow> runtimeError (E_undefined_property name_s) vm
        | Some method \<Rightarrow>
            do {
              (closure, f) \<leftarrow> method_closure method vm;
              access \<leftarrow> canAccess struct_ref (fn_isPublic f) vm;
              (if fn_isStatic f then runtimeError (E_static_accessed name_s struct_s) vm
               else if \<not> access then runtimeError (E_method_private name_s struct_s) vm
               else do {
                 receiver \<leftarrow> peekStack 0 vm;
                 (bound, vm) \<leftarrow> newBoundMethod receiver closure vm;
                 (_, vm) \<leftarrow> popFromStack vm;
                 vm \<leftarrow> pushOnStack (VAL_OBJ bound) vm;
                 Some (Next vm)
               })
            })
     }"

text \<open>The owner is recorded in the closure before the method table grows.\<close>

definition defineMethod :: "obj_ref \<Rightarrow> VM \<Rightarrow> StepResult option" where
  "defineMethod name vm =
     do {
       method \<leftarrow> peekStack 0 vm;
       target \<leftarrow> peekStack 1 vm;
       isStruct \<leftarrow> isObjType (vm_store vm) target OBJ_STRUCT;
       (if \<not> isStruct then runtimeError E_only_structs_have_impls vm
        else do {
          struct_ref \<leftarrow> value_ref target;
          closure \<leftarrow> value_ref method;
          c \<leftarrow> as_closure (vm_store vm) closure;
          let vm = put_obj closure (OClosure (c\<lparr>cl_owner := Some struct_ref\<rparr>)) vm;
          (_, vm) \<leftarrow> tableSetAt (T_METHODS struct_ref) name method vm;
          (_, vm) \<leftarrow> popFromStack vm;
          Some (Next vm)
        })
     }"

section \<open>Upvalues\<close>

text \<open>
  The open upvalues are sorted by the stack slot they point at, the highest first.  The search
  splits them at the first that is not above \<open>local\<close>.
\<close>

fun split_open :: "(obj_ref \<Rightarrow> Obj option) \<Rightarrow> nat \<Rightarrow> obj_ref list \<Rightarrow> (obj_ref list \<times> obj_ref list) option" where
  "split_open store local [] = Some ([], [])"
| "split_open store local (u # us) =
     do {
       uv \<leftarrow> as_upvalue store u;
       (case uv_location uv of
          LOC_CLOSED \<Rightarrow> None
        | LOC_STACK n \<Rightarrow>
            if local < n
            then do { (before, after) \<leftarrow> split_open store local us; Some (u # before, after) }
            else Some ([], u # us))
     }"

definition captureUpvalue :: "nat \<Rightarrow> VM \<Rightarrow> (obj_ref \<times> VM) option" where
  "captureUpvalue local vm =
     (if local < STACK_MAX
      then do {
        (before, after) \<leftarrow> split_open (vm_store vm) local (vm_openUpvalues vm);
        (if after \<noteq> [] \<and> map_option uv_location (as_upvalue (vm_store vm) (hd after)) = Some (LOC_STACK local)
         then Some (hd after, vm)
         else do {
           (created, vm) \<leftarrow> newUpvalue local vm;
           Some (created, vm\<lparr>vm_openUpvalues := before @ created # after\<rparr>)
         })
      }
      else None)"

fun close_loop :: "nat \<Rightarrow> obj_ref list \<Rightarrow> VM \<Rightarrow> VM option" where
  "close_loop bound [] vm = Some (vm\<lparr>vm_openUpvalues := []\<rparr>)"
| "close_loop bound (u # us) vm =
     do {
       uv \<leftarrow> as_upvalue (vm_store vm) u;
       (case uv_location uv of
          LOC_CLOSED \<Rightarrow> None
        | LOC_STACK n \<Rightarrow>
            if bound \<le> n
            then close_loop bound us
                   (put_obj u (OUpvalue \<lparr>uv_location = LOC_CLOSED, uv_closed = vm_stack vm n\<rparr>) vm)
            else Some (vm\<lparr>vm_openUpvalues := u # us\<rparr>))
     }"

definition closeUpvalues :: "nat \<Rightarrow> VM \<Rightarrow> VM option" where
  "closeUpvalues bound vm = close_loop bound (vm_openUpvalues vm) vm"

text \<open>Reading and writing \<open>*upvalue->location\<close>.\<close>

definition read_upvalue :: "obj_ref \<Rightarrow> VM \<Rightarrow> Value option" where
  "read_upvalue u vm =
     do {
       uv \<leftarrow> as_upvalue (vm_store vm) u;
       Some (case uv_location uv of LOC_STACK n \<Rightarrow> vm_stack vm n | LOC_CLOSED \<Rightarrow> uv_closed uv)
     }"

definition write_upvalue :: "obj_ref \<Rightarrow> Value \<Rightarrow> VM \<Rightarrow> VM option" where
  "write_upvalue u value vm =
     do {
       uv \<leftarrow> as_upvalue (vm_store vm) u;
       Some (case uv_location uv of
               LOC_STACK n \<Rightarrow> vm\<lparr>vm_stack := (vm_stack vm)(n := value)\<rparr>
             | LOC_CLOSED \<Rightarrow> put_obj u (OUpvalue (uv\<lparr>uv_closed := value\<rparr>)) vm)
     }"

section \<open>Operators\<close>

definition isFalsey :: "Value \<Rightarrow> bool" where
  "isFalsey value \<longleftrightarrow> value = VAL_NIL \<or> value = VAL_BOOL False"

text \<open>
  The operands stay on the stack until the result exists.  The lengths are of type \<open>int\<close> and their sum is not
  checked: when it does not fit, the C code is undefined and the result here \<open>None\<close>.
\<close>

definition concatenate :: "VM \<Rightarrow> StepResult option" where
  "concatenate vm =
     do {
       vb \<leftarrow> peekStack 0 vm;
       va \<leftarrow> peekStack 1 vm;
       rb \<leftarrow> value_ref vb;
       ra \<leftarrow> value_ref va;
       a \<leftarrow> as_string (vm_store vm) ra;
       b \<leftarrow> as_string (vm_store vm) rb;
       _ \<leftarrow> (if length (str_chars a) + length (str_chars b) + 1 < 2 ^ 31 then Some () else None);
       vm \<leftarrow> reallocate 0 (length (str_chars a) + length (str_chars b) + 1) vm;
       a \<leftarrow> as_string (vm_store vm) ra;
       b \<leftarrow> as_string (vm_store vm) rb;
       (result, vm) \<leftarrow> takeString (str_chars a @ str_chars b) vm;
       (_, vm) \<leftarrow> popFromStack vm;
       (_, vm) \<leftarrow> popFromStack vm;
       vm \<leftarrow> pushOnStack (VAL_OBJ result) vm;
       Some (Next vm)
     }"

text \<open>
  The position an index of any number kind denotes, or the message that says why it is none.
\<close>

definition arrayPosition :: "NumberKind \<Rightarrow> NumberPayload \<Rightarrow> nat \<Rightarrow> (string + nat) option" where
  "arrayPosition kind payload count =
     (let info = numberKindInfo kind
      in if ki_isFloat info then
           if \<not> f64_is_floor payload then Some (Inl ''Array index must be a whole number.'')
           else if f64_less payload 0 \<or> \<not> f64_less payload (f64_of_int (int count))
           then Some (Inl ''Array index out of bounds.'')
           else do { i \<leftarrow> f64_trunc payload; Some (Inr (nat i)) }
         else if (if ki_isSigned info then sint payload < 0 \<or> int count \<le> sint payload
                  else word_of_nat count \<le> payload)
         then Some (Inl ''Array index out of bounds.'')
         else Some (Inr (unat payload)))"

fun sameNumberKind :: "Value \<Rightarrow> Value \<Rightarrow> bool" where
  "sameNumberKind (VAL_NUMBER k a) (VAL_NUMBER l b) = (k = l)"
| "sameNumberKind _ _ = False"

fun numberOpSymbol :: "NumberOp \<Rightarrow> string" where
  "numberOpSymbol NUMBER_OP_ADD = ''+''"
| "numberOpSymbol NUMBER_OP_SUBTRACT = ''-''"
| "numberOpSymbol NUMBER_OP_MULTIPLY = ''*''"
| "numberOpSymbol NUMBER_OP_DIVIDE = ''/''"
| "numberOpSymbol NUMBER_OP_MODULO = ''%''"

text \<open>\<open>None\<close> when the number is not zero.\<close>

definition assertNonZeroNumber :: "string \<Rightarrow> NumberKind \<Rightarrow> NumberPayload \<Rightarrow> RuntimeError option" where
  "assertNonZeroNumber symbol kind payload =
     (if \<not> numberIsZero kind payload then None else Some (E_zero_operand symbol kind payload))"

definition replace_operands :: "Value \<Rightarrow> VM \<Rightarrow> StepResult option" where
  "replace_operands value vm =
     do {
       (_, vm) \<leftarrow> popFromStack vm;
       (_, vm) \<leftarrow> popFromStack vm;
       vm \<leftarrow> pushOnStack value vm;
       Some (Next vm)
     }"

definition numberBinary :: "NumberOp \<Rightarrow> RuntimeError \<Rightarrow> VM \<Rightarrow> StepResult option" where
  "numberBinary op mismatch vm =
     do {
       vb \<leftarrow> peekStack 0 vm;
       va \<leftarrow> peekStack 1 vm;
       (case (va, vb) of
          (VAL_NUMBER kind a, VAL_NUMBER kind' b) \<Rightarrow>
            if kind \<noteq> kind' then runtimeError mismatch vm
            else
              (case (if op = NUMBER_OP_DIVIDE \<or> (op = NUMBER_OP_MODULO \<and> \<not> isFloatKind kind)
                     then assertNonZeroNumber (numberOpSymbol op) kind b else None) of
                 Some err \<Rightarrow> raise_and_exit err vm
               | None \<Rightarrow>
                   do {
                     result \<leftarrow> numberArithmetic kind op a b;
                     (case result of
                        DoesNotFit \<Rightarrow> runtimeError (E_integer_overflow kind op a b) vm
                      | Fits r \<Rightarrow> replace_operands (numberValue kind r) vm)
                   })
        | _ \<Rightarrow> runtimeError mismatch vm)
     }"

definition numberCompare :: "bool \<Rightarrow> VM \<Rightarrow> StepResult option" where
  "numberCompare isGreater vm =
     do {
       vb \<leftarrow> peekStack 0 vm;
       va \<leftarrow> peekStack 1 vm;
       (case (va, vb) of
          (VAL_NUMBER kind a, VAL_NUMBER kind' b) \<Rightarrow>
            if kind \<noteq> kind' then runtimeError E_number_operands vm
            else replace_operands
                   (VAL_BOOL (if isGreater then numberOpLessThan kind b a else numberOpLessThan kind a b)) vm
        | _ \<Rightarrow> runtimeError E_number_operands vm)
     }"

definition castNumber :: "NumberKind \<Rightarrow> NumberPayload \<Rightarrow> NumberKind \<Rightarrow> VM \<Rightarrow> StepResult option" where
  "castNumber source payload target vm =
     do {
       status \<leftarrow> numberCast source payload target;
       (case status of
          NUMBER_CAST_OK result \<Rightarrow>
            do { vm \<leftarrow> pushOnStack (numberValue target result) vm; Some (Next vm) }
        | _ \<Rightarrow>
            runtimeError (if isFloatKind target then E_cast_float source payload target
                          else E_cast_integer source payload target) vm)
     }"

end
