(* ===== verification/Opcode.thy ===== *)
theory Opcode
  imports Prelude
begin

text \<open>
  The instruction set of \<^verbatim>\<open>src/opcode.h\<close> and the table of \<^verbatim>\<open>src/opcode.c\<close> that says how each
  instruction is encoded and how it changes the stack.
\<close>

datatype OpCode =
    OP_CONSTANT | OP_NIL | OP_TRUE | OP_FALSE | OP_ADD | OP_SUBTRACT | OP_MULTIPLY | OP_DIVIDE
  | OP_MODULO | OP_NEGATE | OP_PRINT | OP_RETURN | OP_EQUAL | OP_NOT | OP_POP | OP_CLOSE_UPVALUE
  | OP_DEFINE_GLOBAL | OP_GET_GLOBAL | OP_SET_GLOBAL | OP_GET_UPVALUE | OP_SET_UPVALUE
  | OP_GET_LOCAL | OP_SET_LOCAL | OP_JUMP_IF_FALSE | OP_JUMP_IF_NOT_NIL | OP_JUMP | OP_LOOP
  | OP_GREATER | OP_LESS | OP_CALL | OP_CLOSURE | OP_STRUCT | OP_STRUCT_INIT | OP_FIELD
  | OP_GET_PROPERTY | OP_SET_PROPERTY | OP_METHOD | OP_INVOKE | OP_LIST | OP_GET_INDEX
  | OP_SET_INDEX | OP_CLOSE_BLOCK_EXPR | OP_CAST | OP_ARRAY

definition all_opcodes :: "OpCode list" where
  "all_opcodes =
     [OP_CONSTANT, OP_NIL, OP_TRUE, OP_FALSE, OP_ADD, OP_SUBTRACT, OP_MULTIPLY, OP_DIVIDE,
      OP_MODULO, OP_NEGATE, OP_PRINT, OP_RETURN, OP_EQUAL, OP_NOT, OP_POP, OP_CLOSE_UPVALUE,
      OP_DEFINE_GLOBAL, OP_GET_GLOBAL, OP_SET_GLOBAL, OP_GET_UPVALUE, OP_SET_UPVALUE,
      OP_GET_LOCAL, OP_SET_LOCAL, OP_JUMP_IF_FALSE, OP_JUMP_IF_NOT_NIL, OP_JUMP, OP_LOOP,
      OP_GREATER, OP_LESS, OP_CALL, OP_CLOSURE, OP_STRUCT, OP_STRUCT_INIT, OP_FIELD,
      OP_GET_PROPERTY, OP_SET_PROPERTY, OP_METHOD, OP_INVOKE, OP_LIST, OP_GET_INDEX,
      OP_SET_INDEX, OP_CLOSE_BLOCK_EXPR, OP_CAST, OP_ARRAY]"

definition OP_COUNT :: nat where
  "OP_COUNT = 44"

text \<open>A byte of code read as an \<open>OpCode\<close>; the enumeration has no other values.\<close>

definition op_of_byte :: "u8 \<Rightarrow> OpCode option" where
  "op_of_byte b = (if unat b < OP_COUNT then Some (all_opcodes ! unat b) else None)"

record OpInfo =
  oi_isKnownOp :: bool
  oi_operandBytes :: nat
  oi_stackEffect :: int
  oi_countOperand :: int
  oi_perCount :: int

definition op_info :: "nat \<Rightarrow> int \<Rightarrow> int \<Rightarrow> int \<Rightarrow> OpInfo" where
  "op_info operands effect countOperand perCount =
     \<lparr>oi_isKnownOp = True, oi_operandBytes = operands, oi_stackEffect = effect,
      oi_countOperand = countOperand, oi_perCount = perCount\<rparr>"

fun opInfos :: "OpCode \<Rightarrow> OpInfo" where
  "opInfos OP_CONSTANT = op_info 1 1 (-1) 0"
| "opInfos OP_NIL = op_info 0 1 (-1) 0"
| "opInfos OP_TRUE = op_info 0 1 (-1) 0"
| "opInfos OP_FALSE = op_info 0 1 (-1) 0"
| "opInfos OP_ADD = op_info 0 (-1) (-1) 0"
| "opInfos OP_SUBTRACT = op_info 0 (-1) (-1) 0"
| "opInfos OP_MULTIPLY = op_info 0 (-1) (-1) 0"
| "opInfos OP_DIVIDE = op_info 0 (-1) (-1) 0"
| "opInfos OP_MODULO = op_info 0 (-1) (-1) 0"
| "opInfos OP_NEGATE = op_info 0 0 (-1) 0"
| "opInfos OP_PRINT = op_info 0 (-1) (-1) 0"
| "opInfos OP_RETURN = op_info 0 (-1) (-1) 0"
| "opInfos OP_EQUAL = op_info 0 (-1) (-1) 0"
| "opInfos OP_NOT = op_info 0 0 (-1) 0"
| "opInfos OP_POP = op_info 0 (-1) (-1) 0"
| "opInfos OP_CLOSE_UPVALUE = op_info 0 (-1) (-1) 0"
| "opInfos OP_DEFINE_GLOBAL = op_info 1 (-1) (-1) 0"
| "opInfos OP_GET_GLOBAL = op_info 1 1 (-1) 0"
| "opInfos OP_SET_GLOBAL = op_info 1 0 (-1) 0"
| "opInfos OP_GET_UPVALUE = op_info 1 1 (-1) 0"
| "opInfos OP_SET_UPVALUE = op_info 1 0 (-1) 0"
| "opInfos OP_GET_LOCAL = op_info 1 1 (-1) 0"
| "opInfos OP_SET_LOCAL = op_info 1 0 (-1) 0"
| "opInfos OP_JUMP_IF_FALSE = op_info 2 0 (-1) 0"
| "opInfos OP_JUMP_IF_NOT_NIL = op_info 2 0 (-1) 0"
| "opInfos OP_JUMP = op_info 2 0 (-1) 0"
| "opInfos OP_LOOP = op_info 2 0 (-1) 0"
| "opInfos OP_GREATER = op_info 0 (-1) (-1) 0"
| "opInfos OP_LESS = op_info 0 (-1) (-1) 0"
| "opInfos OP_CALL = op_info 1 0 0 (-1)"
| "opInfos OP_CLOSURE = op_info 1 1 (-1) 0"
| "opInfos OP_STRUCT = op_info 1 1 (-1) 0"
| "opInfos OP_STRUCT_INIT = op_info 1 0 0 (-2)"
| "opInfos OP_FIELD = op_info 3 (-1) (-1) 0"
| "opInfos OP_GET_PROPERTY = op_info 1 0 (-1) 0"
| "opInfos OP_SET_PROPERTY = op_info 1 (-1) (-1) 0"
| "opInfos OP_METHOD = op_info 1 (-1) (-1) 0"
| "opInfos OP_INVOKE = op_info 2 0 1 (-1)"
| "opInfos OP_LIST = op_info 1 1 0 (-1)"
| "opInfos OP_GET_INDEX = op_info 0 (-1) (-1) 0"
| "opInfos OP_SET_INDEX = op_info 0 (-2) (-1) 0"
| "opInfos OP_CLOSE_BLOCK_EXPR = op_info 1 0 0 (-1)"
| "opInfos OP_CAST = op_info 1 0 (-1) 0"
| "opInfos OP_ARRAY = op_info 1 1 0 (-1)"

text \<open>\<open>NULL\<close> outside the enumeration.\<close>

definition opInfo :: "int \<Rightarrow> OpInfo option" where
  "opInfo op = (if op < 0 \<or> op \<ge> int OP_COUNT then None else Some (opInfos (all_opcodes ! nat op)))"

text \<open>
  The stack change an instruction declares, given its operand bytes: what the compiler's
  bookkeeping adds to the height.
\<close>

definition declared_effect :: "OpInfo \<Rightarrow> bytes \<Rightarrow> int" where
  "declared_effect info operands =
     oi_stackEffect info +
     (if oi_countOperand info < 0 then 0
      else oi_perCount info * uint (operands ! nat (oi_countOperand info)))"

lemma length_all_opcodes: "length all_opcodes = OP_COUNT"
  by (simp add: all_opcodes_def OP_COUNT_def)

lemma opInfo_op_of_byte: "op_of_byte b = Some op \<Longrightarrow> opInfo (uint b) = Some (opInfos op)"
proof -
  assume op: "op_of_byte b = Some op"
  define n where "n = unat b"
  have "uint b = int n" by (simp add: n_def)
  then show ?thesis using op [unfolded op_of_byte_def, folded n_def] by (simp add: opInfo_def split: if_splits)
qed

end
