(* ===== verification/VM_Run.thy ===== *)
theory VM_Run
  imports VM_Calls Opcode
begin

text \<open>
  The interpreter loop of \<^verbatim>\<open>src/vm.c\<close>: one definition per instruction, dispatch on the
  opcode, and the loop itself.  \<open>None\<close> is undefined behaviour (reading past the code, through a
  dangling pointer, above the stack, ...), or in \<open>run\<close> a program that does not end.  A byte that
  is no opcode is skipped, as the \<open>switch\<close> without a default does.
\<close>

section \<open>Reading the code\<close>

definition current_frame :: "VM \<Rightarrow> CallFrame option" where
  "current_frame vm = (case vm_frames vm of [] \<Rightarrow> None | frame # _ \<Rightarrow> Some frame)"

definition set_ip :: "nat \<Rightarrow> VM \<Rightarrow> VM" where
  "set_ip ip vm =
     (case vm_frames vm of
        [] \<Rightarrow> vm
      | frame # frames \<Rightarrow> vm\<lparr>vm_frames := frame\<lparr>fr_ip := ip\<rparr> # frames\<rparr>)"

definition READ_BYTE :: "VM \<Rightarrow> (u8 \<times> VM) option" where
  "READ_BYTE vm =
     do {
       frame \<leftarrow> current_frame vm;
       f \<leftarrow> frame_function vm frame;
       let code = ch_code (fn_chunk f);
       (if fr_ip frame < length code
        then Some (code ! fr_ip frame, set_ip (fr_ip frame + 1) vm) else None)
     }"

definition READ_CONSTANT :: "VM \<Rightarrow> (Value \<times> VM) option" where
  "READ_CONSTANT vm =
     do {
       (index, vm) \<leftarrow> READ_BYTE vm;
       frame \<leftarrow> current_frame vm;
       f \<leftarrow> frame_function vm frame;
       let values = va_values (ch_constants (fn_chunk f));
       (if unat index < length values then Some (values ! unat index, vm) else None)
     }"

definition READ_SHORT :: "VM \<Rightarrow> (nat \<times> VM) option" where
  "READ_SHORT vm =
     do {
       (high, vm) \<leftarrow> READ_BYTE vm;
       (low, vm) \<leftarrow> READ_BYTE vm;
       Some (unat high * 256 + unat low, vm)
     }"

definition READ_STRING :: "VM \<Rightarrow> (obj_ref \<times> VM) option" where
  "READ_STRING vm =
     do {
       (constant, vm) \<leftarrow> READ_CONSTANT vm;
       r \<leftarrow> value_ref constant;
       s \<leftarrow> as_string (vm_store vm) r;
       Some (r, vm)
     }"

text \<open>\<open>frame->slots[slot]\<close>.\<close>

definition local_slot :: "u8 \<Rightarrow> VM \<Rightarrow> nat option" where
  "local_slot slot vm =
     do {
       frame \<leftarrow> current_frame vm;
       (if fr_slots frame + unat slot < STACK_MAX then Some (fr_slots frame + unat slot) else None)
     }"

definition push_next :: "Value \<Rightarrow> VM \<Rightarrow> StepResult option" where
  "push_next value vm = do { vm \<leftarrow> pushOnStack value vm; Some (Next vm) }"

section \<open>Constants, locals, globals\<close>

definition exec_CONSTANT :: "VM \<Rightarrow> StepResult option" where
  "exec_CONSTANT vm = do { (constant, vm) \<leftarrow> READ_CONSTANT vm; push_next constant vm }"

definition exec_GET_LOCAL :: "VM \<Rightarrow> StepResult option" where
  "exec_GET_LOCAL vm =
     do { (slot, vm) \<leftarrow> READ_BYTE vm; n \<leftarrow> local_slot slot vm; push_next (vm_stack vm n) vm }"

definition exec_SET_LOCAL :: "VM \<Rightarrow> StepResult option" where
  "exec_SET_LOCAL vm =
     do {
       (slot, vm) \<leftarrow> READ_BYTE vm;
       value \<leftarrow> peekStack 0 vm;
       n \<leftarrow> local_slot slot vm;
       Some (Next (vm\<lparr>vm_stack := (vm_stack vm)(n := value)\<rparr>))
     }"

definition exec_GET_GLOBAL :: "VM \<Rightarrow> StepResult option" where
  "exec_GET_GLOBAL vm =
     do {
       (name, vm) \<leftarrow> READ_STRING vm;
       found \<leftarrow> tableGet (key_hash (vm_store vm)) (vm_globals vm) name;
       (case found of
          None \<Rightarrow> do { name_s \<leftarrow> shown vm name; runtimeError (E_undefined_variable name_s) vm }
        | Some value \<Rightarrow> push_next value vm)
     }"

text \<open>Setting a global that does not exist inserts it, and takes it out again.\<close>

definition exec_SET_GLOBAL :: "VM \<Rightarrow> StepResult option" where
  "exec_SET_GLOBAL vm =
     do {
       (name, vm) \<leftarrow> READ_STRING vm;
       value \<leftarrow> peekStack 0 vm;
       (isNewKey, vm) \<leftarrow> tableSetAt T_GLOBALS name value vm;
       (if isNewKey
        then do {
          (_, globals) \<leftarrow> tableDelete (key_hash (vm_store vm)) (vm_globals vm) name;
          let vm = vm\<lparr>vm_globals := globals\<rparr>;
          name_s \<leftarrow> shown vm name;
          runtimeError (E_set_undefined_variable name_s) vm
        }
        else Some (Next vm))
     }"

definition exec_DEFINE_GLOBAL :: "VM \<Rightarrow> StepResult option" where
  "exec_DEFINE_GLOBAL vm =
     do {
       (name, vm) \<leftarrow> READ_STRING vm;
       value \<leftarrow> peekStack 0 vm;
       (_, vm) \<leftarrow> tableSetAt T_GLOBALS name value vm;
       (_, vm) \<leftarrow> popFromStack vm;
       Some (Next vm)
     }"

section \<open>Operators\<close>

definition exec_ADD :: "VM \<Rightarrow> StepResult option" where
  "exec_ADD vm =
     do {
       b \<leftarrow> peekStack 0 vm;
       a \<leftarrow> peekStack 1 vm;
       b_string \<leftarrow> isObjType (vm_store vm) b OBJ_STRING;
       a_string \<leftarrow> isObjType (vm_store vm) a OBJ_STRING;
       (if b_string \<and> a_string then concatenate vm
        else numberBinary NUMBER_OP_ADD E_add_operands vm)
     }"

definition exec_NOT :: "VM \<Rightarrow> StepResult option" where
  "exec_NOT vm = do { (value, vm) \<leftarrow> popFromStack vm; push_next (VAL_BOOL (isFalsey value)) vm }"

definition exec_NEGATE :: "VM \<Rightarrow> StepResult option" where
  "exec_NEGATE vm =
     do {
       value \<leftarrow> peekStack 0 vm;
       (case value of
          VAL_NUMBER kind payload \<Rightarrow>
            do {
              result \<leftarrow> numberNegateValue kind payload;
              (case result of
                 DoesNotFit \<Rightarrow> runtimeError (E_negate_overflow kind payload) vm
               | Fits r \<Rightarrow>
                   do { (_, vm) \<leftarrow> popFromStack vm; push_next (numberValue kind r) vm })
            }
        | _ \<Rightarrow> runtimeError E_operand_not_number vm)
     }"

definition exec_CAST :: "VM \<Rightarrow> StepResult option" where
  "exec_CAST vm =
     do {
       (target, vm) \<leftarrow> READ_BYTE vm;
       (value, vm) \<leftarrow> popFromStack vm;
       (case kind_of_ordinal (unat target) of
          None \<Rightarrow> runtimeError (E_cast_target (unat target)) vm
        | Some kind \<Rightarrow>
            (case value of
               VAL_NUMBER source payload \<Rightarrow> castNumber source payload kind vm
             | _ \<Rightarrow> runtimeError E_cast_not_number vm))
     }"

definition exec_EQUAL :: "VM \<Rightarrow> StepResult option" where
  "exec_EQUAL vm =
     do {
       (b, vm) \<leftarrow> popFromStack vm;
       (a, vm) \<leftarrow> popFromStack vm;
       push_next (VAL_BOOL (valuesEqual a b)) vm
     }"

definition exec_POP :: "VM \<Rightarrow> StepResult option" where
  "exec_POP vm = do { (_, vm) \<leftarrow> popFromStack vm; Some (Next vm) }"

definition exec_PRINT :: "VM \<Rightarrow> StepResult option" where
  "exec_PRINT vm =
     do {
       (value, vm) \<leftarrow> popFromStack vm;
       printed \<leftarrow> printValue (vm_store vm) value;
       Some (Next (vm\<lparr>vm_stdout := vm_stdout vm @ printed @ [P_chars [10]]\<rparr>))
     }"

section \<open>Control\<close>

definition jump_if :: "(Value \<Rightarrow> bool) \<Rightarrow> VM \<Rightarrow> StepResult option" where
  "jump_if cond vm =
     do {
       (jumpOffset, vm) \<leftarrow> READ_SHORT vm;
       value \<leftarrow> peekStack 0 vm;
       frame \<leftarrow> current_frame vm;
       Some (Next (if cond value then set_ip (fr_ip frame + jumpOffset) vm else vm))
     }"

definition exec_JUMP :: "VM \<Rightarrow> StepResult option" where
  "exec_JUMP vm =
     do {
       (jumpOffset, vm) \<leftarrow> READ_SHORT vm;
       frame \<leftarrow> current_frame vm;
       Some (Next (set_ip (fr_ip frame + jumpOffset) vm))
     }"

definition exec_LOOP :: "VM \<Rightarrow> StepResult option" where
  "exec_LOOP vm =
     do {
       (jumpOffset, vm) \<leftarrow> READ_SHORT vm;
       frame \<leftarrow> current_frame vm;
       (if jumpOffset \<le> fr_ip frame then Some (Next (set_ip (fr_ip frame - jumpOffset) vm)) else None)
     }"

definition exec_CALL :: "natives \<Rightarrow> VM \<Rightarrow> StepResult option" where
  "exec_CALL native vm =
     do {
       (argCount, vm) \<leftarrow> READ_BYTE vm;
       callee \<leftarrow> peekStack (unat argCount) vm;
       callValue native callee (unat argCount) vm
     }"

definition exec_RETURN :: "VM \<Rightarrow> StepResult option" where
  "exec_RETURN vm =
     do {
       frame \<leftarrow> current_frame vm;
       (result, vm) \<leftarrow> popFromStack vm;
       vm \<leftarrow> closeUpvalues (fr_slots frame) vm;
       let vm = vm\<lparr>vm_frames := tl (vm_frames vm)\<rparr>;
       (if vm_frames vm = []
        then do { (_, vm) \<leftarrow> popFromStack vm; Some (Finished vm) }
        else push_next result (vm\<lparr>vm_stackTop := fr_slots frame\<rparr>))
     }"

definition exec_CLOSE_BLOCK_EXPR :: "VM \<Rightarrow> StepResult option" where
  "exec_CLOSE_BLOCK_EXPR vm =
     do {
       (locals, vm) \<leftarrow> READ_BYTE vm;
       (result, vm) \<leftarrow> popFromStack vm;
       (if unat locals \<le> vm_stackTop vm
        then do {
          vm \<leftarrow> closeUpvalues (vm_stackTop vm - unat locals) vm;
          push_next result (vm\<lparr>vm_stackTop := vm_stackTop vm - unat locals\<rparr>)
        }
        else None)
     }"

section \<open>Closures and upvalues\<close>

definition frame_upvalue :: "u8 \<Rightarrow> VM \<Rightarrow> obj_ref option option" where
  "frame_upvalue index vm =
     do {
       frame \<leftarrow> current_frame vm;
       c \<leftarrow> as_closure (vm_store vm) (fr_closure frame);
       (if unat index < length (cl_upvalues c) then Some (cl_upvalues c ! unat index) else None)
     }"

text \<open>The loop over the captured variables of a new closure, from the \<open>i\<close>-th, \<open>n\<close> of them.\<close>

fun capture_loop :: "obj_ref \<Rightarrow> nat \<Rightarrow> nat \<Rightarrow> VM \<Rightarrow> VM option" where
  "capture_loop closure i 0 vm = Some vm"
| "capture_loop closure i (Suc n) vm =
     do {
       (isLocal, vm) \<leftarrow> READ_BYTE vm;
       (index, vm) \<leftarrow> READ_BYTE vm;
       (upvalue, vm) \<leftarrow>
         (if isLocal \<noteq> 0
          then do {
            frame \<leftarrow> current_frame vm;
            (u, vm) \<leftarrow> captureUpvalue (fr_slots frame + unat index) vm;
            Some (Some u, vm)
          }
          else do { u \<leftarrow> frame_upvalue index vm; Some (u, vm) });
       c \<leftarrow> as_closure (vm_store vm) closure;
       capture_loop closure (i + 1) n
         (put_obj closure (OClosure (c\<lparr>cl_upvalues := (cl_upvalues c)[i := upvalue]\<rparr>)) vm)
     }"

definition exec_CLOSURE :: "VM \<Rightarrow> StepResult option" where
  "exec_CLOSURE vm =
     do {
       (constant, vm) \<leftarrow> READ_CONSTANT vm;
       fn \<leftarrow> value_ref constant;
       (closure, vm) \<leftarrow> newClosure fn vm;
       owner \<leftarrow> currentOwner vm;
       c \<leftarrow> as_closure (vm_store vm) closure;
       let vm = put_obj closure (OClosure (c\<lparr>cl_owner := owner\<rparr>)) vm;
       vm \<leftarrow> pushOnStack (VAL_OBJ closure) vm;
       vm \<leftarrow> capture_loop closure 0 (length (cl_upvalues c)) vm;
       Some (Next vm)
     }"

definition exec_GET_UPVALUE :: "VM \<Rightarrow> StepResult option" where
  "exec_GET_UPVALUE vm =
     do {
       (slot, vm) \<leftarrow> READ_BYTE vm;
       upvalue \<leftarrow> frame_upvalue slot vm;
       u \<leftarrow> upvalue;
       value \<leftarrow> read_upvalue u vm;
       push_next value vm
     }"

definition exec_SET_UPVALUE :: "VM \<Rightarrow> StepResult option" where
  "exec_SET_UPVALUE vm =
     do {
       (slot, vm) \<leftarrow> READ_BYTE vm;
       upvalue \<leftarrow> frame_upvalue slot vm;
       u \<leftarrow> upvalue;
       value \<leftarrow> peekStack 0 vm;
       vm \<leftarrow> write_upvalue u value vm;
       Some (Next vm)
     }"

definition exec_CLOSE_UPVALUE :: "VM \<Rightarrow> StepResult option" where
  "exec_CLOSE_UPVALUE vm =
     (if 0 < vm_stackTop vm
      then do {
        vm \<leftarrow> closeUpvalues (vm_stackTop vm - 1) vm;
        (_, vm) \<leftarrow> popFromStack vm;
        Some (Next vm)
      }
      else None)"

section \<open>Structs\<close>

definition exec_STRUCT :: "VM \<Rightarrow> StepResult option" where
  "exec_STRUCT vm =
     do {
       (name, vm) \<leftarrow> READ_STRING vm;
       (r, vm) \<leftarrow> newStruct name vm;
       push_next (VAL_OBJ r) vm
     }"

definition exec_FIELD :: "VM \<Rightarrow> StepResult option" where
  "exec_FIELD vm =
     do {
       (field_name, vm) \<leftarrow> READ_STRING vm;
       (isPublic, vm) \<leftarrow> READ_BYTE vm;
       (isMutable, vm) \<leftarrow> READ_BYTE vm;
       value \<leftarrow> peekStack 1 vm;
       isStruct \<leftarrow> isObjType (vm_store vm) value OBJ_STRUCT;
       (if \<not> isStruct then runtimeError E_field_outside_struct vm
        else do {
          struct_ref \<leftarrow> value_ref value;
          s \<leftarrow> as_struct (vm_store vm) struct_ref;
          existing \<leftarrow> tableGet (key_hash (vm_store vm)) (st_fields s) field_name;
          name_s \<leftarrow> shown vm field_name;
          (if existing \<noteq> None then runtimeError (E_duplicate_field name_s) vm
           else if 256 \<le> st_fieldCount s then runtimeError E_too_many_fields vm
           else do {
             (_, vm) \<leftarrow> tableSetAt (T_FIELDS struct_ref) field_name (slot_value (st_fieldCount s)) vm;
             s \<leftarrow> as_struct (vm_store vm) struct_ref;
             let count = st_fieldCount s;
             (if count < length (st_fieldPublic s) \<and> count < length (st_fieldMutable s)
              then do {
                let vm = put_obj struct_ref
                  (OStruct (s\<lparr>st_fieldPublic := (st_fieldPublic s)[count := isPublic \<noteq> 0],
                              st_fieldMutable := (st_fieldMutable s)[count := Some (isMutable \<noteq> 0)],
                              st_fieldCount := count + 1\<rparr>)) vm;
                (_, vm) \<leftarrow> popFromStack vm;
                Some (Next vm)
              }
              else None)
           })
        })
     }"

definition exec_METHOD :: "VM \<Rightarrow> StepResult option" where
  "exec_METHOD vm = do { (method_name, vm) \<leftarrow> READ_STRING vm; defineMethod method_name vm }"

text \<open>
  \<open>OP_STRUCT_INIT\<close>: the name and value pairs given are above the struct.  The first loop writes
  the fields, the second finds the first one not given.
\<close>

definition set_field :: "obj_ref \<Rightarrow> nat \<Rightarrow> Value \<Rightarrow> VM \<Rightarrow> VM option" where
  "set_field instance_ref slot value vm =
     do {
       i \<leftarrow> as_instance (vm_store vm) instance_ref;
       values \<leftarrow> in_fields i;
       (if slot < length values
        then Some (put_obj instance_ref (OInstance (i\<lparr>in_fields := Some (values[slot := value])\<rparr>)) vm)
        else None)
     }"

fun init_fields ::
    "obj_ref \<Rightarrow> obj_ref \<Rightarrow> (Value \<times> Value) list \<Rightarrow> bool list \<Rightarrow> VM \<Rightarrow> (StepResult + bool list \<times> VM) option" where
  "init_fields struct_ref instance_ref [] provided vm = Some (Inr (provided, vm))"
| "init_fields struct_ref instance_ref ((name, value) # pairs) provided vm =
     do {
       field \<leftarrow> value_ref name;
       name_s \<leftarrow> shown vm field;
       struct_s \<leftarrow> struct_shown vm struct_ref;
       found \<leftarrow> find_slot struct_ref field vm;
       (case found of
          None \<Rightarrow> map_option Inl (runtimeError (E_undefined_field name_s) vm)
        | Some slot \<Rightarrow>
            do {
              access \<leftarrow> canAccessField struct_ref slot vm;
              (if \<not> access then map_option Inl (runtimeError (E_field_private name_s struct_s) vm)
               else do {
                 vm \<leftarrow> set_field instance_ref slot value vm;
                 init_fields struct_ref instance_ref pairs (provided[slot := True]) vm
               })
            })
     }"

fun first_missing :: "bool list \<Rightarrow> nat list \<Rightarrow> nat option" where
  "first_missing provided [] = None"
| "first_missing provided (i # is) = (if provided ! i then first_missing provided is else Some i)"

definition init_pairs :: "VM \<Rightarrow> nat \<Rightarrow> nat \<Rightarrow> (Value \<times> Value) list" where
  "init_pairs vm base n = map (\<lambda>i. (vm_stack vm (base + 2 * i), vm_stack vm (base + 2 * i + 1))) [0..<n]"

definition exec_STRUCT_INIT :: "VM \<Rightarrow> StepResult option" where
  "exec_STRUCT_INIT vm =
     do {
       (fieldCount, vm) \<leftarrow> READ_BYTE vm;
       let n = unat fieldCount;
       structValue \<leftarrow> peekStack (2 * n) vm;
       let base = vm_stackTop vm - 2 * n;
       isStruct \<leftarrow> isObjType (vm_store vm) structValue OBJ_STRUCT;
       (if \<not> isStruct then runtimeError E_not_a_struct vm
        else do {
          struct_ref \<leftarrow> value_ref structValue;
          (instance_ref, vm) \<leftarrow> newInstance struct_ref vm;
          initialised \<leftarrow> init_fields struct_ref instance_ref (init_pairs vm base n) (replicate 256 False) vm;
          (case initialised of
             Inl failure \<Rightarrow> Some failure
           | Inr (provided, vm) \<Rightarrow>
               do {
                 s \<leftarrow> as_struct (vm_store vm) struct_ref;
                 (case first_missing provided [0..<st_fieldCount s] of
                    Some i \<Rightarrow>
                      do {
                        missing \<leftarrow> structFieldName s (int i);
                        (case missing of
                           None \<Rightarrow> runtimeError (E_missing_field None) vm
                         | Some r \<Rightarrow> do { m \<leftarrow> shown vm r; runtimeError (E_missing_field (Some m)) vm })
                      }
                  | None \<Rightarrow> push_next (VAL_OBJ instance_ref) (vm\<lparr>vm_stackTop := base - 1\<rparr>))
               })
        })
     }"

text \<open>On a struct, only its static methods are properties.\<close>

definition get_struct_property :: "obj_ref \<Rightarrow> obj_ref \<Rightarrow> VM \<Rightarrow> StepResult option" where
  "get_struct_property struct_ref name vm =
     do {
       found \<leftarrow> find_method struct_ref name vm;
       name_s \<leftarrow> shown vm name;
       struct_s \<leftarrow> struct_shown vm struct_ref;
       (case found of
          None \<Rightarrow> runtimeError (E_undefined_property name_s) vm
        | Some method \<Rightarrow>
            do {
              (closure, f) \<leftarrow> method_closure method vm;
              access \<leftarrow> canAccess struct_ref (fn_isPublic f) vm;
              (if \<not> fn_isStatic f then runtimeError (E_needs_instance name_s struct_s) vm
               else if \<not> access then runtimeError (E_method_private name_s struct_s) vm
               else do { (_, vm) \<leftarrow> popFromStack vm; push_next method vm })
            })
     }"

definition get_instance_property :: "obj_ref \<Rightarrow> obj_ref \<Rightarrow> VM \<Rightarrow> StepResult option" where
  "get_instance_property instance_ref name vm =
     do {
       i \<leftarrow> as_instance (vm_store vm) instance_ref;
       let struct_ref = in_struct i;
       found \<leftarrow> find_slot struct_ref name vm;
       (case found of
          None \<Rightarrow> bindMethod struct_ref name vm
        | Some slot \<Rightarrow>
            do {
              access \<leftarrow> canAccessField struct_ref slot vm;
              shadowed \<leftarrow> find_method struct_ref name vm;
              (if \<not> access \<and> shadowed = None
               then do {
                 name_s \<leftarrow> shown vm name;
                 struct_s \<leftarrow> struct_shown vm struct_ref;
                 runtimeError (E_field_private name_s struct_s) vm
               }
               else if access
               then do {
                 values \<leftarrow> in_fields i;
                 (if slot < length values
                  then do { (_, vm) \<leftarrow> popFromStack vm; push_next (values ! slot) vm }
                  else None)
               }
               else bindMethod struct_ref name vm)
            })
     }"

definition exec_GET_PROPERTY :: "VM \<Rightarrow> StepResult option" where
  "exec_GET_PROPERTY vm =
     do {
       value \<leftarrow> peekStack 0 vm;
       isStruct \<leftarrow> isObjType (vm_store vm) value OBJ_STRUCT;
       isInstance \<leftarrow> isObjType (vm_store vm) value OBJ_INSTANCE;
       (if isStruct
        then do {
          r \<leftarrow> value_ref value;
          (name, vm) \<leftarrow> READ_STRING vm;
          get_struct_property r name vm
        }
        else if \<not> isInstance then runtimeError E_only_instances_have_properties vm
        else do {
          r \<leftarrow> value_ref value;
          (name, vm) \<leftarrow> READ_STRING vm;
          get_instance_property r name vm
        })
     }"

definition exec_SET_PROPERTY :: "VM \<Rightarrow> StepResult option" where
  "exec_SET_PROPERTY vm =
     do {
       target \<leftarrow> peekStack 1 vm;
       isInstance \<leftarrow> isObjType (vm_store vm) target OBJ_INSTANCE;
       (if \<not> isInstance then runtimeError E_only_instances_have_fields vm
        else do {
          instance_ref \<leftarrow> value_ref target;
          i \<leftarrow> as_instance (vm_store vm) instance_ref;
          (name, vm) \<leftarrow> READ_STRING vm;
          let struct_ref = in_struct i;
          name_s \<leftarrow> shown vm name;
          struct_s \<leftarrow> struct_shown vm struct_ref;
          found \<leftarrow> find_slot struct_ref name vm;
          (case found of
             None \<Rightarrow> runtimeError (E_undefined_field name_s) vm
           | Some slot \<Rightarrow>
               do {
                 access \<leftarrow> canAccessField struct_ref slot vm;
                 s \<leftarrow> as_struct (vm_store vm) struct_ref;
                 (if \<not> access then runtimeError (E_field_private name_s struct_s) vm
                  else do {
                    isMutable \<leftarrow> (if slot < length (st_fieldMutable s) then st_fieldMutable s ! slot else None);
                    (if \<not> isMutable then runtimeError (E_field_immutable name_s) vm
                     else do {
                       new_value \<leftarrow> peekStack 0 vm;
                       vm \<leftarrow> set_field instance_ref slot new_value vm;
                       (value, vm) \<leftarrow> popFromStack vm;
                       (_, vm) \<leftarrow> popFromStack vm;
                       push_next value vm
                     })
                  })
               })
        })
     }"

definition exec_INVOKE :: "natives \<Rightarrow> VM \<Rightarrow> StepResult option" where
  "exec_INVOKE native vm =
     do {
       (method, vm) \<leftarrow> READ_STRING vm;
       (argCount, vm) \<leftarrow> READ_BYTE vm;
       invoke native method (unat argCount) vm
     }"

section \<open>Lists and arrays\<close>

fun list_loop :: "obj_ref \<Rightarrow> nat \<Rightarrow> VM \<Rightarrow> VM option" where
  "list_loop list 0 vm = Some vm"
| "list_loop list (Suc i) vm =
     do {
       value \<leftarrow> peekStack (i + 1) vm;
       vm \<leftarrow> writeValueToListObj list value vm;
       list_loop list i vm
     }"

definition exec_LIST :: "VM \<Rightarrow> StepResult option" where
  "exec_LIST vm =
     do {
       (count, vm) \<leftarrow> READ_BYTE vm;
       (list, vm) \<leftarrow> newList vm;
       vm \<leftarrow> pushOnStack (VAL_OBJ list) vm;
       vm \<leftarrow> list_loop list (unat count) vm;
       (arrayValue, vm) \<leftarrow> popFromStack vm;
       vm \<leftarrow> popNFromStack (unat count) vm;
       push_next arrayValue vm
     }"

definition exec_ARRAY :: "VM \<Rightarrow> StepResult option" where
  "exec_ARRAY vm =
     do {
       (count, vm) \<leftarrow> READ_BYTE vm;
       (array, vm) \<leftarrow> newArray (unat count) vm;
       (if unat count \<le> vm_stackTop vm
        then do {
          let values = map (\<lambda>i. vm_stack vm (vm_stackTop vm - unat count + i)) [0..<unat count];
          vm \<leftarrow> popNFromStack (unat count) (put_obj array (OArray values) vm);
          push_next (VAL_OBJ array) vm
        }
        else None)
     }"

text \<open>What \<open>AS_LIST(target)->values\<close> or \<open>AS_ARRAY(target)->values\<close> holds; none for another type.\<close>

definition indexable :: "VM \<Rightarrow> Value \<Rightarrow> Value list option option" where
  "indexable vm target =
     (case target of
        VAL_OBJ r \<Rightarrow>
          do {
            obj \<leftarrow> vm_store vm r;
            Some (case obj of OList l \<Rightarrow> Some (li_values l) | OArray a \<Rightarrow> Some a | _ \<Rightarrow> None)
          }
      | _ \<Rightarrow> Some None)"

definition put_indexable :: "Value \<Rightarrow> Value list \<Rightarrow> VM \<Rightarrow> VM option" where
  "put_indexable target values vm =
     do {
       r \<leftarrow> value_ref target;
       obj \<leftarrow> vm_store vm r;
       (case obj of
          OList l \<Rightarrow> Some (put_obj r (OList (l\<lparr>li_values := values\<rparr>)) vm)
        | OArray a \<Rightarrow> Some (put_obj r (OArray values) vm)
        | _ \<Rightarrow> None)
     }"

text \<open>The checks both index instructions make, and what they do with a position in range.\<close>

definition with_position ::
    "Value \<Rightarrow> Value \<Rightarrow> VM \<Rightarrow> (Value list \<Rightarrow> nat \<Rightarrow> StepResult option) \<Rightarrow> StepResult option" where
  "with_position target index vm use =
     do {
       found \<leftarrow> indexable vm target;
       (case found of
          None \<Rightarrow> runtimeError E_index_target vm
        | Some values \<Rightarrow>
            (case index of
               VAL_NUMBER kind payload \<Rightarrow>
                 do {
                   position \<leftarrow> arrayPosition kind payload (length values);
                   (case position of
                      Inl message \<Rightarrow> runtimeError (E_index message) vm
                    | Inr i \<Rightarrow> if i < length values then use values i else None)
                 }
             | _ \<Rightarrow> runtimeError E_index_not_number vm))
     }"

definition exec_GET_INDEX :: "VM \<Rightarrow> StepResult option" where
  "exec_GET_INDEX vm =
     do {
       (index, vm) \<leftarrow> popFromStack vm;
       (target, vm) \<leftarrow> popFromStack vm;
       with_position target index vm (\<lambda>values i. push_next (values ! i) vm)
     }"

definition exec_SET_INDEX :: "VM \<Rightarrow> StepResult option" where
  "exec_SET_INDEX vm =
     do {
       (value, vm) \<leftarrow> popFromStack vm;
       (index, vm) \<leftarrow> popFromStack vm;
       (target, vm) \<leftarrow> popFromStack vm;
       with_position target index vm
         (\<lambda>values i. do { vm \<leftarrow> put_indexable target (values[i := value]) vm; push_next value vm })
     }"

section \<open>The loop\<close>

fun execute :: "natives \<Rightarrow> OpCode \<Rightarrow> VM \<Rightarrow> StepResult option" where
  "execute native OP_CONSTANT vm = exec_CONSTANT vm"
| "execute native OP_NIL vm = push_next VAL_NIL vm"
| "execute native OP_TRUE vm = push_next (VAL_BOOL True) vm"
| "execute native OP_FALSE vm = push_next (VAL_BOOL False) vm"
| "execute native OP_ADD vm = exec_ADD vm"
| "execute native OP_SUBTRACT vm = numberBinary NUMBER_OP_SUBTRACT E_number_operands vm"
| "execute native OP_MULTIPLY vm = numberBinary NUMBER_OP_MULTIPLY E_number_operands vm"
| "execute native OP_DIVIDE vm = numberBinary NUMBER_OP_DIVIDE E_number_operands vm"
| "execute native OP_MODULO vm = numberBinary NUMBER_OP_MODULO E_number_operands vm"
| "execute native OP_NEGATE vm = exec_NEGATE vm"
| "execute native OP_PRINT vm = exec_PRINT vm"
| "execute native OP_RETURN vm = exec_RETURN vm"
| "execute native OP_EQUAL vm = exec_EQUAL vm"
| "execute native OP_NOT vm = exec_NOT vm"
| "execute native OP_POP vm = exec_POP vm"
| "execute native OP_CLOSE_UPVALUE vm = exec_CLOSE_UPVALUE vm"
| "execute native OP_DEFINE_GLOBAL vm = exec_DEFINE_GLOBAL vm"
| "execute native OP_GET_GLOBAL vm = exec_GET_GLOBAL vm"
| "execute native OP_SET_GLOBAL vm = exec_SET_GLOBAL vm"
| "execute native OP_GET_UPVALUE vm = exec_GET_UPVALUE vm"
| "execute native OP_SET_UPVALUE vm = exec_SET_UPVALUE vm"
| "execute native OP_GET_LOCAL vm = exec_GET_LOCAL vm"
| "execute native OP_SET_LOCAL vm = exec_SET_LOCAL vm"
| "execute native OP_JUMP_IF_FALSE vm = jump_if isFalsey vm"
| "execute native OP_JUMP_IF_NOT_NIL vm = jump_if (\<lambda>v. v \<noteq> VAL_NIL) vm"
| "execute native OP_JUMP vm = exec_JUMP vm"
| "execute native OP_LOOP vm = exec_LOOP vm"
| "execute native OP_GREATER vm = numberCompare True vm"
| "execute native OP_LESS vm = numberCompare False vm"
| "execute native OP_CALL vm = exec_CALL native vm"
| "execute native OP_CLOSURE vm = exec_CLOSURE vm"
| "execute native OP_STRUCT vm = exec_STRUCT vm"
| "execute native OP_STRUCT_INIT vm = exec_STRUCT_INIT vm"
| "execute native OP_FIELD vm = exec_FIELD vm"
| "execute native OP_GET_PROPERTY vm = exec_GET_PROPERTY vm"
| "execute native OP_SET_PROPERTY vm = exec_SET_PROPERTY vm"
| "execute native OP_METHOD vm = exec_METHOD vm"
| "execute native OP_INVOKE vm = exec_INVOKE native vm"
| "execute native OP_LIST vm = exec_LIST vm"
| "execute native OP_GET_INDEX vm = exec_GET_INDEX vm"
| "execute native OP_SET_INDEX vm = exec_SET_INDEX vm"
| "execute native OP_CLOSE_BLOCK_EXPR vm = exec_CLOSE_BLOCK_EXPR vm"
| "execute native OP_CAST vm = exec_CAST vm"
| "execute native OP_ARRAY vm = exec_ARRAY vm"

definition step :: "natives \<Rightarrow> VM \<Rightarrow> StepResult option" where
  "step native vm =
     do {
       (instruction, vm) \<leftarrow> READ_BYTE vm;
       (case op_of_byte instruction of
          None \<Rightarrow> Some (Next vm)
        | Some op \<Rightarrow> execute native op vm)
     }"

partial_function (option) run :: "natives \<Rightarrow> VM \<Rightarrow> StepResult option" where
  "run native vm =
     do {
       result \<leftarrow> step native vm;
       (case result of Next vm \<Rightarrow> run native vm | _ \<Rightarrow> Some result)
     }"

text \<open>The result of the \<open>call\<close> is not looked at: a script that takes arguments has no frame to run.\<close>

definition interpretFunction :: "natives \<Rightarrow> obj_ref \<Rightarrow> VM \<Rightarrow> StepResult option" where
  "interpretFunction native fn vm =
     do {
       vm \<leftarrow> pushOnStack (VAL_OBJ fn) vm;
       (closure, vm) \<leftarrow> newClosure fn vm;
       (_, vm) \<leftarrow> popFromStack vm;
       vm \<leftarrow> pushOnStack (VAL_OBJ closure) vm;
       result \<leftarrow> call closure 0 vm;
       (case result of Next vm \<Rightarrow> run native vm | _ \<Rightarrow> None)
     }"

section \<open>Starting and stopping\<close>

text \<open>The machine before \<open>defineAllNatives\<close>.  The static stack is zero, which reads as \<open>false\<close>.\<close>

definition initial_vm :: VM where
  "initial_vm = \<lparr>vm_frames = [], vm_stack = (\<lambda>_. VAL_BOOL False), vm_stackTop = 0, vm_globals = initTable,
     vm_openUpvalues = [],
     vm_gc = \<lparr>gc_bytesAllocated = 0, gc_nextGC = 1024 * 1024, gc_objects = [], gc_strings = initTable,
       gc_grayStack = [], gc_isMarked = (\<lambda>_. False), gc_store = Map.empty, gc_fresh = 0\<rparr>,
     vm_stdout = [], vm_stderr = [], vm_argv = [], vm_system = no_system\<rparr>"

definition freeVM :: "VM \<Rightarrow> VM option" where
  "freeVM vm =
     (let vm = vm\<lparr>vm_gc := free_bytes (sizeof_Entry * t_capacity (vm_globals vm)) (vm_gc vm),
                  vm_globals := freeTable (vm_globals vm)\<rparr>;
          gc = free_bytes (sizeof_Entry * t_capacity (gc_strings (vm_gc vm))) (vm_gc vm);
          gc = gc\<lparr>gc_strings := freeTable (gc_strings gc)\<rparr>
      in do { gc \<leftarrow> freeObjects gc; Some (vm\<lparr>vm_gc := gc\<rparr>) })"

end
