(* ===== verification/VM_Store.thy ===== *)
theory VM_Store
  imports VM_Run
begin

text \<open>
  What an allocation may do to the objects that exist already: a collection removes some of them and
  changes none.  The theories on the effects of instructions and natives rest on this.
\<close>

text \<open>A collection only removes objects.\<close>

lemma freeObject_kept: "freeObject r gc = Some gc' \<Longrightarrow> gc_store gc' = (gc_store gc)(r := None) \<and> gc_fresh gc' = gc_fresh gc"
proof -
  assume "freeObject r gc = Some gc'"
  then obtain obj owned where "gc_store gc r = Some obj" "gc' =
      (let gc = free_bytes (sizeof_obj (obj_type obj)) (fold free_bytes owned gc)
       in gc\<lparr>gc_store := (gc_store gc)(r := None)\<rparr>)"
    by (auto simp: freeObject_def Let_def elim!: bind_SomeE)
  moreover obtain b where "fold free_bytes owned gc = gc\<lparr>gc_bytesAllocated := b\<rparr>" using fold_free_bytes by blast
  ultimately show ?thesis by (simp add: free_bytes_def Let_def)
qed

lemma sweep_loop_kept:
  "sweep_loop os gc = Some (kept, gc') \<Longrightarrow> gc_store gc' \<subseteq>\<^sub>m gc_store gc \<and> gc_fresh gc' = gc_fresh gc"
proof (induction os arbitrary: gc kept)
  case (Cons r os)
  show ?case
  proof (cases "gc_isMarked gc r")
    case True
    with Cons.prems Cons.IH show ?thesis by (fastforce elim!: bind_SomeE split: if_split_asm)
  next
    case False
    with Cons.prems obtain gc1 where gc1: "freeObject r gc = Some gc1" "sweep_loop os gc1 = Some (kept, gc')"
      by (auto elim!: bind_SomeE split: if_split_asm)
    have "gc_store gc1 \<subseteq>\<^sub>m gc_store gc" using freeObject_kept [OF gc1(1)] by (simp add: map_le_def)
    moreover have "gc_store gc' \<subseteq>\<^sub>m gc_store gc1" "gc_fresh gc' = gc_fresh gc1" using Cons.IH [OF gc1(2)] by simp_all
    ultimately show ?thesis using freeObject_kept [OF gc1(1)] map_le_trans by metis
  qed
qed (simp add: map_le_refl)

lemma markObjects_fresh: "markObjects rs gc = Some gc' \<Longrightarrow> gc_fresh gc' = gc_fresh gc"
  by (induction rs arbitrary: gc)
    (auto simp: markObject_def elim!: bind_SomeE split: option.split_asm if_split_asm)

lemma mark_store:
  "markObject r gc = Some gc' \<Longrightarrow> gc_store gc' = gc_store gc \<and> gc_fresh gc' = gc_fresh gc"
  "markValue v gc = Some gc' \<Longrightarrow> gc_store gc' = gc_store gc \<and> gc_fresh gc' = gc_fresh gc"
  "markArray vs gc = Some gc' \<Longrightarrow> gc_store gc' = gc_store gc \<and> gc_fresh gc' = gc_fresh gc"
  "markObjects rs gc = Some gc' \<Longrightarrow> gc_store gc' = gc_store gc \<and> gc_fresh gc' = gc_fresh gc"
  "markTable t gc = Some gc' \<Longrightarrow> gc_store gc' = gc_store gc \<and> gc_fresh gc' = gc_fresh gc"
  unfolding mark_objects markObject_objects [of r] using markObjects_store markObjects_fresh by blast+

lemma blackenObject_store:
  "blackenObject r gc = Some gc' \<Longrightarrow> gc_store gc' = gc_store gc \<and> gc_fresh gc' = gc_fresh gc"
  by (auto simp: blackenObject_def elim!: bind_SomeE dest!: mark_store split: Obj.split_asm)

lemma traceReferences_store:
  "traceReferences gc = Some gc' \<Longrightarrow> gc_store gc' = gc_store gc \<and> gc_fresh gc' = gc_fresh gc"
proof (rule traceReferences.raw_induct [of "\<lambda>gc gc'. gc_store gc' = gc_store gc \<and> gc_fresh gc' = gc_fresh gc"])
  fix trace gc gc'
  assume ih: "\<And>gc gc'. trace gc = Some gc' \<Longrightarrow> gc_store gc' = gc_store gc \<and> gc_fresh gc' = gc_fresh gc"
    and "(case gc_grayStack gc of [] \<Rightarrow> Some gc
      | object # rest \<Rightarrow> do { gc \<leftarrow> blackenObject object (gc\<lparr>gc_grayStack := rest\<rparr>); trace gc }) = Some gc'"
  then show "gc_store gc' = gc_store gc \<and> gc_fresh gc' = gc_fresh gc"
    by (auto split: list.split_asm elim!: bind_SomeE dest!: blackenObject_store ih)
qed

lemma collectGarbage_store:
  assumes "collectGarbage vm = Some vm'"
  shows "vm_store vm' \<subseteq>\<^sub>m vm_store vm \<and> gc_fresh (vm_gc vm') = gc_fresh (vm_gc vm)"
proof -
  from assms obtain gc1 gc2 strings kept gc3 where
    m: "markVMRoots vm (vm_gc vm) = Some gc1" "traceReferences gc1 = Some gc2"
    and s: "sweep_loop (gc_objects gc2) (gc2\<lparr>gc_strings := strings\<rparr>) = Some (kept, gc3)"
    and vm': "vm_store vm' = gc_store gc3" "gc_fresh (vm_gc vm') = gc_fresh gc3"
    by (auto simp: collectGarbage_def sweep_def elim!: bind_SomeE split: if_split_asm)
  have "gc_store gc1 = vm_store vm \<and> gc_fresh gc1 = gc_fresh (vm_gc vm)"
    using m(1) mark_store(4) by (simp add: markVMRoots_objects)
  with sweep_loop_kept [OF s] traceReferences_store [OF m(2)] vm' show ?thesis by auto
qed

lemma reallocate_store:
  assumes "reallocate m n vm = Some vm'"
  shows "vm_store vm' \<subseteq>\<^sub>m vm_store vm \<and> gc_fresh (vm_gc vm') = gc_fresh (vm_gc vm)"
proof -
  let ?vm = "vm\<lparr>vm_gc := account m n (vm_gc vm)\<rparr>"
  have "vm' = ?vm \<or> collectGarbage ?vm = Some vm'"
    using assms unfolding reallocate_def Let_def by (metis option.inject)
  then show ?thesis using collectGarbage_store [of ?vm vm'] by (auto simp: map_le_refl)
qed

lemma as_function_sub:
  "store' \<subseteq>\<^sub>m store \<Longrightarrow> as_function store' r = Some f \<Longrightarrow> as_function store r = Some f"
  by (auto simp: as_function_def map_le_def dom_def split: option.split_asm Obj.split_asm)

end
