(* ===== verification/VM_Effects.thy ===== *)
theory VM_Effects
  imports VM_Store
begin

text \<open>
  What each instruction does to the height of the stack and to the call frames, against the
  table of \<^verbatim>\<open>src/opcode.c\<close> that the compiler relies on.  The collection \<open>effects\<close> holds, for
  each operation of the machine, what it leaves alone.
\<close>

named_theorems effects

text \<open>The same height and the same frames.\<close>

definition same_height :: "VM \<Rightarrow> VM \<Rightarrow> bool" where
  "same_height vm vm' \<longleftrightarrow> vm_stackTop vm' = vm_stackTop vm \<and> vm_frames vm' = vm_frames vm"

lemma same_height_refl [simp]: "same_height vm vm"
  by (simp add: same_height_def)

lemma same_height_trans [trans]: "same_height a b \<Longrightarrow> same_height b c \<Longrightarrow> same_height a c"
  by (simp add: same_height_def)

lemma collectGarbage_height [effects]: "collectGarbage vm = Some vm' \<Longrightarrow> same_height vm vm'"
  by (auto simp: collectGarbage_def same_height_def bind_eq_Some_conv)

lemma reallocate_height [effects]: "reallocate m n vm = Some vm' \<Longrightarrow> same_height vm vm'"
  by (auto simp: reallocate_def Let_def same_height_def dest!: collectGarbage_height split: if_split_asm)

lemma allocateObject_height [effects]: "allocateObject x vm = Some (r, vm') \<Longrightarrow> same_height vm vm'"
  by (auto simp: allocateObject_def Let_def same_height_def bind_eq_Some_conv dest!: reallocate_height)

lemma pushOnStack_height [effects]:
  "pushOnStack v vm = Some vm' \<Longrightarrow> vm_stackTop vm' = Suc (vm_stackTop vm) \<and> vm_frames vm' = vm_frames vm"
  by (auto simp: pushOnStack_def split: if_split_asm)

lemma popFromStack_height [effects]:
  "popFromStack vm = Some (v, vm') \<Longrightarrow> vm_stackTop vm = Suc (vm_stackTop vm') \<and> vm_frames vm' = vm_frames vm"
  by (auto simp: popFromStack_def split: if_split_asm)

lemma popNFromStack_height [effects]:
  "popNFromStack n vm = Some vm' \<Longrightarrow> vm_stackTop vm = vm_stackTop vm' + n \<and> vm_frames vm' = vm_frames vm"
  by (auto simp: popNFromStack_def split: if_split_asm)

lemma new_height [effects]:
  "newBoundMethod v m vm = Some (r, vm') \<Longrightarrow> same_height vm vm'"
  "newStruct n vm = Some (r, vm') \<Longrightarrow> same_height vm vm'"
  "newList vm = Some (r, vm') \<Longrightarrow> same_height vm vm'"
  "newUpvalue slot vm = Some (r, vm') \<Longrightarrow> same_height vm vm'"
  "newFunction vm = Some (r, vm') \<Longrightarrow> same_height vm vm'"
  by (simp_all add: newBoundMethod_def newStruct_def newList_def newUpvalue_def newFunction_def
      allocateObject_height)

lemma newClosure_height [effects]: "newClosure fn vm = Some (r, vm') \<Longrightarrow> same_height vm vm'"
  by (auto simp: newClosure_def bind_eq_Some_conv same_height_def dest!: allocateObject_height reallocate_height)

lemma newArray_height [effects]: "newArray n vm = Some (r, vm') \<Longrightarrow> same_height vm vm'"
  by (auto simp: newArray_def bind_eq_Some_conv same_height_def dest!: allocateObject_height reallocate_height
      split: if_split_asm)

lemma newInstance_height [effects]: "newInstance s vm = Some (r, vm') \<Longrightarrow> same_height vm vm'"
  by (auto simp: newInstance_def bind_eq_Some_conv same_height_def
      dest!: allocateObject_height reallocate_height pushOnStack_height popFromStack_height split: if_split_asm)

lemma put_table_height [effects]: "put_table vm p t = Some vm' \<Longrightarrow> same_height vm vm'"
  by (cases p) (auto simp: same_height_def)

lemma tableSetAt_height [effects]: "tableSetAt p k v vm = Some (b, vm') \<Longrightarrow> same_height vm vm'"
  by (auto simp: tableSetAt_def bind_eq_Some_conv same_height_def dest!: reallocate_height put_table_height
      split: if_split_asm prod.split_asm)

lemma allocateString_height [effects]: "allocateString c h vm = Some (r, vm') \<Longrightarrow> same_height vm vm'"
  by (auto simp: allocateString_def bind_eq_Some_conv same_height_def
      dest!: allocateObject_height pushOnStack_height popFromStack_height tableSetAt_height split: prod.split_asm)

lemma takeString_height [effects]: "takeString c vm = Some (r, vm') \<Longrightarrow> same_height vm vm'"
  by (auto simp: takeString_def elim!: bind_SomeE dest: reallocate_height allocateString_height
      split: option.split_asm)

lemma copyString_height [effects]: "copyString c vm = Some (r, vm') \<Longrightarrow> same_height vm vm'"
  by (auto simp: copyString_def same_height_def elim!: bind_SomeE
      dest!: reallocate_height allocateString_height split: option.split_asm)

lemma writeValueToListObj_height [effects]: "writeValueToListObj l v vm = Some vm' \<Longrightarrow> same_height vm vm'"
  by (auto simp: writeValueToListObj_def bind_eq_Some_conv same_height_def Let_def dest!: reallocate_height
      split: if_split_asm)

lemma close_loop_height: "close_loop b us vm = Some vm' \<Longrightarrow> same_height vm vm'"
proof (induction us arbitrary: vm)
  case (Cons u us)
  then show ?case
    by (auto simp: same_height_def elim!: bind_SomeE split: Location.split_asm if_split_asm)
qed (auto simp: same_height_def)

lemma closeUpvalues_height [effects]: "closeUpvalues b vm = Some vm' \<Longrightarrow> same_height vm vm'"
  by (simp add: closeUpvalues_def close_loop_height)

lemma captureUpvalue_height [effects]: "captureUpvalue n vm = Some (u, vm') \<Longrightarrow> same_height vm vm'"
  by (auto simp: captureUpvalue_def bind_eq_Some_conv same_height_def dest!: new_height(4)
      split: if_split_asm prod.split_asm)

lemma set_callee_height [effects]: "set_callee n v vm = Some vm' \<Longrightarrow> same_height vm vm'"
  by (auto simp: set_callee_def same_height_def split: if_split_asm)

lemma set_field_height [effects]: "set_field r i v vm = Some vm' \<Longrightarrow> same_height vm vm'"
  by (auto simp: set_field_def same_height_def bind_eq_Some_conv split: if_split_asm)

lemma list_loop_height [effects]: "list_loop l n vm = Some vm' \<Longrightarrow> same_height vm vm'"
  by (induction n arbitrary: vm)
    (auto simp: bind_eq_Some_conv intro: same_height_trans dest!: writeValueToListObj_height)

lemma write_upvalue_height [effects]: "write_upvalue u v vm = Some vm' \<Longrightarrow> same_height vm vm'"
  by (cases "as_upvalue (vm_store vm) u") (auto simp: write_upvalue_def same_height_def split: Location.split)

lemma put_indexable_height [effects]: "put_indexable t vs vm = Some vm' \<Longrightarrow> same_height vm vm'"
  by (auto simp: put_indexable_def same_height_def elim!: bind_SomeE split: Obj.split_asm)

lemma errors_not_Next [simp]:
  "runtimeError e vm = Some (Next vm') \<longleftrightarrow> False" "raise_and_exit e vm = Some (Next vm') \<longleftrightarrow> False"
  "runtimeError e vm = Some (Finished vm') \<longleftrightarrow> False" "raise_and_exit e vm = Some (Finished vm') \<longleftrightarrow> False"
  by (auto simp: runtimeError_def raise_and_exit_def bind_eq_Some_conv)

lemma init_fields_height [effects]:
  "init_fields s r ps given vm = Some (Inr (given', vm')) \<Longrightarrow> same_height vm vm'"
proof (induction s r ps given vm rule: init_fields.induct)
  case (2 struct_ref instance_ref name val pairs provided vm)
  from 2(2) obtain field slot vm1 where "find_slot struct_ref field vm = Some (Some slot)"
    "set_field instance_ref slot val vm = Some vm1"
    "init_fields struct_ref instance_ref pairs (provided[slot := True]) vm1 = Some (Inr (given', vm'))"
    and ih: "init_fields struct_ref instance_ref pairs (provided[slot := True]) vm1 = Some (Inr (given', vm')) \<Longrightarrow>
      same_height vm1 vm'"
    using 2(1) by (auto elim!: bind_SomeE split: option.split_asm if_split_asm)
  then show ?case using set_field_height same_height_trans by blast
qed simp

section \<open>Reading code moves only the instruction pointer\<close>

text \<open>The current frame with its instruction pointer moved on by \<open>n\<close>; the rest is the same.\<close>

definition advances :: "nat \<Rightarrow> VM \<Rightarrow> VM \<Rightarrow> bool" where
  "advances n vm vm' \<longleftrightarrow>
     (\<exists>frame frames. vm_frames vm = frame # frames \<and>
        vm' = vm\<lparr>vm_frames := frame\<lparr>fr_ip := fr_ip frame + n\<rparr> # frames\<rparr>)"

definition operand_bytes :: "VM \<Rightarrow> bytes" where
  "operand_bytes vm =
     (case vm_frames vm of
        [] \<Rightarrow> []
      | frame # _ \<Rightarrow>
          (case frame_function vm frame of
             None \<Rightarrow> [] | Some f \<Rightarrow> drop (fr_ip frame) (ch_code (fn_chunk f))))"

lemma advances_add: "advances m a b \<Longrightarrow> advances n b c \<Longrightarrow> advances (m + n) a c"
  by (auto simp: advances_def add.assoc)

lemma advances_simps:
  assumes "advances n vm vm'"
  shows "vm_stackTop vm' = vm_stackTop vm" "vm_stack vm' = vm_stack vm" "vm_gc vm' = vm_gc vm"
    "vm_globals vm' = vm_globals vm" "vm_openUpvalues vm' = vm_openUpvalues vm"
    "vm_stdout vm' = vm_stdout vm" "tl (vm_frames vm') = tl (vm_frames vm)"
    "length (vm_frames vm') = length (vm_frames vm)"
  using assms by (auto simp: advances_def)

lemma frame_function_ip [simp]:
  "frame_function (vm\<lparr>vm_frames := fs\<rparr>) frame = frame_function vm frame"
  "frame_function vm (frame\<lparr>fr_ip := i\<rparr>) = frame_function vm frame"
  by (simp_all add: frame_function_def)

lemma advances_operands: "advances n vm vm' \<Longrightarrow> operand_bytes vm' = drop n (operand_bytes vm)"
  by (auto simp: advances_def operand_bytes_def add.commute split: option.split)

lemma READ_BYTE_effect:
  assumes "READ_BYTE vm = Some (b, vm')"
  shows "advances 1 vm vm' \<and> operand_bytes vm = b # operand_bytes vm'"
proof -
  from assms obtain frame f where f: "current_frame vm = Some frame" "frame_function vm frame = Some f"
    "fr_ip frame < length (ch_code (fn_chunk f))" "b = ch_code (fn_chunk f) ! fr_ip frame"
    "vm' = set_ip (fr_ip frame + 1) vm"
    by (auto simp: READ_BYTE_def Let_def elim!: bind_SomeE split: if_split_asm)
  then obtain frames where fr: "vm_frames vm = frame # frames"
    by (auto simp: current_frame_def split: list.split_asm)
  then have "advances 1 vm vm'" using f by (simp add: advances_def set_ip_def)
  moreover have "operand_bytes vm = drop (fr_ip frame) (ch_code (fn_chunk f))"
    using fr f by (simp add: operand_bytes_def)
  ultimately show ?thesis using f(3,4) advances_operands [of 1 vm vm'] by (simp add: Cons_nth_drop_Suc)
qed

lemma READ_CONSTANT_effect:
  "READ_CONSTANT vm = Some (v, vm') \<Longrightarrow> advances 1 vm vm' \<and> (\<exists>b. operand_bytes vm = b # operand_bytes vm')"
  by (auto simp: READ_CONSTANT_def Let_def elim!: bind_SomeE split: if_split_asm dest!: READ_BYTE_effect)

lemma READ_STRING_effect:
  "READ_STRING vm = Some (r, vm') \<Longrightarrow> advances 1 vm vm' \<and> (\<exists>b. operand_bytes vm = b # operand_bytes vm')"
  by (auto simp: READ_STRING_def elim!: bind_SomeE dest!: READ_CONSTANT_effect)

lemma READ_SHORT_effect:
  assumes "READ_SHORT vm = Some (n, vm')"
  shows "advances 2 vm vm'"
proof -
  from assms obtain b c vm1 where "READ_BYTE vm = Some (b, vm1)" "READ_BYTE vm1 = Some (c, vm')"
    by (auto simp: READ_SHORT_def elim!: bind_SomeE)
  then have "advances 1 vm vm1" "advances 1 vm1 vm'" using READ_BYTE_effect by blast+
  then show ?thesis using advances_add [of 1 vm vm1 1 vm'] by (simp add: numeral_2_eq_2)
qed

section \<open>The stack effect of every instruction\<close>

fun adv :: "nat \<Rightarrow> CallFrame list \<Rightarrow> CallFrame list" where
  "adv n [] = []"
| "adv n (frame # frames) = frame\<lparr>fr_ip := fr_ip frame + n\<rparr> # frames"

lemma adv_adv [simp]: "adv n (adv m fs) = adv (m + n) fs" "adv 0 fs = fs"
  by (cases fs; simp add: add.assoc)+

lemma advances_adv:
  "advances n vm vm' \<Longrightarrow> vm_stackTop vm' = vm_stackTop vm \<and> vm_frames vm' = adv n (vm_frames vm)"
  by (auto simp: advances_def)

lemma read_facts [effects]:
  "READ_BYTE vm = Some (b, vm') \<Longrightarrow> vm_stackTop vm' = vm_stackTop vm \<and>
     vm_frames vm' = adv 1 (vm_frames vm) \<and> operand_bytes vm = b # operand_bytes vm'"
  "READ_CONSTANT vm = Some (v, vm') \<Longrightarrow> vm_stackTop vm' = vm_stackTop vm \<and>
     vm_frames vm' = adv 1 (vm_frames vm) \<and> (\<exists>b. operand_bytes vm = b # operand_bytes vm')"
  "READ_STRING vm = Some (r, vm') \<Longrightarrow> vm_stackTop vm' = vm_stackTop vm \<and>
     vm_frames vm' = adv 1 (vm_frames vm) \<and> (\<exists>b. operand_bytes vm = b # operand_bytes vm')"
  "READ_SHORT vm = Some (n, vm') \<Longrightarrow> vm_stackTop vm' = vm_stackTop vm \<and>
     vm_frames vm' = adv 2 (vm_frames vm)"
  using READ_BYTE_effect READ_CONSTANT_effect READ_STRING_effect READ_SHORT_effect advances_adv by blast+

text \<open>The height changes by \<open>d\<close> and the current frame reads \<open>n\<close> bytes.\<close>

definition effect :: "int \<Rightarrow> nat \<Rightarrow> VM \<Rightarrow> VM \<Rightarrow> bool" where
  "effect d n vm vm' \<longleftrightarrow>
     int (vm_stackTop vm') = int (vm_stackTop vm) + d \<and> vm_frames vm' = adv n (vm_frames vm)"

lemma push_next_effect: "push_next v vm = Some (Next vm') \<Longrightarrow> effect 1 0 vm vm'"
  by (auto simp: push_next_def effect_def elim!: bind_SomeE dest!: effects)

lemma replace_operands_effect: "replace_operands v vm = Some (Next vm') \<Longrightarrow> effect (-1) 0 vm vm'"
  by (auto simp: replace_operands_def effect_def elim!: bind_SomeE dest!: effects)

lemma numberBinary_effect: "numberBinary op e vm = Some (Next vm') \<Longrightarrow> effect (-1) 0 vm vm'"
  by (auto simp: numberBinary_def elim!: bind_SomeE dest!: replace_operands_effect
      split: Value.split_asm option.split_asm arith_result.split_asm if_split_asm)

lemma numberCompare_effect: "numberCompare g vm = Some (Next vm') \<Longrightarrow> effect (-1) 0 vm vm'"
  by (auto simp: numberCompare_def elim!: bind_SomeE dest!: replace_operands_effect
      split: Value.split_asm if_split_asm)

lemma concatenate_effect: "concatenate vm = Some (Next vm') \<Longrightarrow> effect (-1) 0 vm vm'"
  by (auto simp: concatenate_def effect_def same_height_def elim!: bind_SomeE dest!: effects split: if_split_asm)

lemmas combined_effects = push_next_effect replace_operands_effect numberBinary_effect
  numberCompare_effect concatenate_effect

lemma bindMethod_effect: "bindMethod s n vm = Some (Next vm') \<Longrightarrow> effect 0 0 vm vm'"
  by (auto simp: bindMethod_def effect_def same_height_def elim!: bind_SomeE dest!: effects
      split: option.split_asm if_split_asm)

lemma defineMethod_effect: "defineMethod n vm = Some (Next vm') \<Longrightarrow> effect (-1) 0 vm vm'"
  by (auto simp: defineMethod_def effect_def same_height_def Let_def elim!: bind_SomeE dest!: effects
      split: option.split_asm if_split_asm)

lemma castNumber_effect: "castNumber s p t vm = Some (Next vm') \<Longrightarrow> effect 1 0 vm vm'"
  by (auto simp: castNumber_def effect_def elim!: bind_SomeE dest!: effects
      split: NumberCastResult.split_asm)

lemma get_struct_property_effect: "get_struct_property s n vm = Some (Next vm') \<Longrightarrow> effect 0 0 vm vm'"
  by (auto simp: get_struct_property_def effect_def elim!: bind_SomeE
      dest!: effects push_next_effect split: option.split_asm if_split_asm)

lemma get_instance_property_effect: "get_instance_property s n vm = Some (Next vm') \<Longrightarrow> effect 0 0 vm vm'"
  by (auto simp: get_instance_property_def Let_def elim!: bind_SomeE
      dest!: bindMethod_effect split: option.split_asm if_split_asm)
    (auto simp: effect_def dest!: effects push_next_effect)

lemma with_position_use:
  assumes "with_position target index vm use = Some (Next vm')"
  obtains vs i where "use vs i = Some (Next vm')"
  using assms by (auto simp: with_position_def elim!: bind_SomeE
      split: option.split_asm Value.split_asm sum.split_asm if_split_asm)

lemma declared_fixed: "declared_effect (op_info n d (-1) p) bs = d"
  "declared_effect (op_info n d 0 p) (b # bs) = d + p * int (unat b)"
  "oi_operandBytes (op_info n d c p) = n"
  by (simp_all add: declared_effect_def op_info_def)

text \<open>The instructions that leave the current frame current, and read a fixed number of bytes.\<close>

definition straight_line :: "OpCode \<Rightarrow> bool" where
  "straight_line op \<longleftrightarrow> op \<notin> {OP_RETURN, OP_CALL, OP_INVOKE, OP_JUMP, OP_LOOP, OP_JUMP_IF_FALSE,
     OP_JUMP_IF_NOT_NIL, OP_CLOSURE}"

lemma exec_effect0:
  "exec_ADD vm = Some (Next vm') \<Longrightarrow> effect (-1) 0 vm vm'"
  "exec_NOT vm = Some (Next vm') \<Longrightarrow> effect 0 0 vm vm'"
  "exec_NEGATE vm = Some (Next vm') \<Longrightarrow> effect 0 0 vm vm'"
  "exec_EQUAL vm = Some (Next vm') \<Longrightarrow> effect (-1) 0 vm vm'"
  "exec_POP vm = Some (Next vm') \<Longrightarrow> effect (-1) 0 vm vm'"
  "exec_PRINT vm = Some (Next vm') \<Longrightarrow> effect (-1) 0 vm vm'"
  "exec_CLOSE_UPVALUE vm = Some (Next vm') \<Longrightarrow> effect (-1) 0 vm vm'"
proof -
  show "exec_ADD vm = Some (Next vm') \<Longrightarrow> effect (-1) 0 vm vm'"
    by (auto simp: exec_ADD_def elim!: bind_SomeE dest!: combined_effects split: if_split_asm)
  show "exec_NOT vm = Some (Next vm') \<Longrightarrow> effect 0 0 vm vm'"
    by (auto simp: exec_NOT_def effect_def elim!: bind_SomeE dest!: effects push_next_effect)
  show "exec_NEGATE vm = Some (Next vm') \<Longrightarrow> effect 0 0 vm vm'"
    by (auto simp: exec_NEGATE_def effect_def elim!: bind_SomeE dest!: effects push_next_effect
        split: Value.split_asm arith_result.split_asm)
  show "exec_EQUAL vm = Some (Next vm') \<Longrightarrow> effect (-1) 0 vm vm'"
    by (auto simp: exec_EQUAL_def effect_def elim!: bind_SomeE dest!: effects push_next_effect)
  show "exec_POP vm = Some (Next vm') \<Longrightarrow> effect (-1) 0 vm vm'"
    by (auto simp: exec_POP_def effect_def elim!: bind_SomeE dest!: effects)
  show "exec_PRINT vm = Some (Next vm') \<Longrightarrow> effect (-1) 0 vm vm'"
    by (auto simp: exec_PRINT_def effect_def elim!: bind_SomeE dest!: effects)
  show "exec_CLOSE_UPVALUE vm = Some (Next vm') \<Longrightarrow> effect (-1) 0 vm vm'"
    by (auto simp: exec_CLOSE_UPVALUE_def effect_def same_height_def elim!: bind_SomeE dest!: effects
        split: if_split_asm)
qed

lemma exec_effect1:
  "exec_CONSTANT vm = Some (Next vm') \<Longrightarrow> effect 1 1 vm vm'"
  "exec_GET_LOCAL vm = Some (Next vm') \<Longrightarrow> effect 1 1 vm vm'"
  "exec_SET_LOCAL vm = Some (Next vm') \<Longrightarrow> effect 0 1 vm vm'"
  "exec_GET_GLOBAL vm = Some (Next vm') \<Longrightarrow> effect 1 1 vm vm'"
  "exec_SET_GLOBAL vm = Some (Next vm') \<Longrightarrow> effect 0 1 vm vm'"
  "exec_DEFINE_GLOBAL vm = Some (Next vm') \<Longrightarrow> effect (-1) 1 vm vm'"
  "exec_CAST vm = Some (Next vm') \<Longrightarrow> effect 0 1 vm vm'"
  "exec_GET_UPVALUE vm = Some (Next vm') \<Longrightarrow> effect 1 1 vm vm'"
  "exec_SET_UPVALUE vm = Some (Next vm') \<Longrightarrow> effect 0 1 vm vm'"
  "exec_STRUCT vm = Some (Next vm') \<Longrightarrow> effect 1 1 vm vm'"
  "exec_METHOD vm = Some (Next vm') \<Longrightarrow> effect (-1) 1 vm vm'"
proof -
  show "exec_CONSTANT vm = Some (Next vm') \<Longrightarrow> effect 1 1 vm vm'"
    by (auto simp: exec_CONSTANT_def effect_def elim!: bind_SomeE dest!: effects push_next_effect)
  show "exec_GET_LOCAL vm = Some (Next vm') \<Longrightarrow> effect 1 1 vm vm'"
    by (auto simp: exec_GET_LOCAL_def effect_def elim!: bind_SomeE dest!: effects push_next_effect)
  show "exec_SET_LOCAL vm = Some (Next vm') \<Longrightarrow> effect 0 1 vm vm'"
    by (auto simp: exec_SET_LOCAL_def effect_def elim!: bind_SomeE dest!: effects)
  show "exec_GET_GLOBAL vm = Some (Next vm') \<Longrightarrow> effect 1 1 vm vm'"
    by (auto simp: exec_GET_GLOBAL_def effect_def elim!: bind_SomeE dest!: effects push_next_effect
        split: option.split_asm)
  show "exec_SET_GLOBAL vm = Some (Next vm') \<Longrightarrow> effect 0 1 vm vm'"
    by (auto simp: exec_SET_GLOBAL_def Let_def effect_def same_height_def elim!: bind_SomeE dest!: effects
        split: if_split_asm)
  show "exec_DEFINE_GLOBAL vm = Some (Next vm') \<Longrightarrow> effect (-1) 1 vm vm'"
    by (auto simp: exec_DEFINE_GLOBAL_def effect_def same_height_def elim!: bind_SomeE dest!: effects)
  show "exec_CAST vm = Some (Next vm') \<Longrightarrow> effect 0 1 vm vm'"
    by (auto simp: exec_CAST_def effect_def elim!: bind_SomeE dest!: effects castNumber_effect
        split: option.split_asm Value.split_asm)
  show "exec_GET_UPVALUE vm = Some (Next vm') \<Longrightarrow> effect 1 1 vm vm'"
    by (auto simp: exec_GET_UPVALUE_def effect_def elim!: bind_SomeE dest!: effects push_next_effect)
  show "exec_SET_UPVALUE vm = Some (Next vm') \<Longrightarrow> effect 0 1 vm vm'"
    by (auto simp: exec_SET_UPVALUE_def effect_def same_height_def elim!: bind_SomeE dest!: effects)
  show "exec_STRUCT vm = Some (Next vm') \<Longrightarrow> effect 1 1 vm vm'"
    by (auto simp: exec_STRUCT_def effect_def same_height_def elim!: bind_SomeE dest!: effects push_next_effect)
  show "exec_METHOD vm = Some (Next vm') \<Longrightarrow> effect (-1) 1 vm vm'"
    by (auto simp: exec_METHOD_def effect_def elim!: bind_SomeE dest!: effects defineMethod_effect)
qed
lemma exec_properties_effect:
  "exec_GET_PROPERTY vm = Some (Next vm') \<Longrightarrow> effect 0 1 vm vm'"
  "exec_SET_PROPERTY vm = Some (Next vm') \<Longrightarrow> effect (-1) 1 vm vm'"
  "exec_FIELD vm = Some (Next vm') \<Longrightarrow> effect (-1) 3 vm vm'"
proof -
  show "exec_GET_PROPERTY vm = Some (Next vm') \<Longrightarrow> effect 0 1 vm vm'"
    by (auto simp: exec_GET_PROPERTY_def effect_def elim!: bind_SomeE split: if_split_asm
        dest!: effects get_struct_property_effect get_instance_property_effect)
  show "exec_SET_PROPERTY vm = Some (Next vm') \<Longrightarrow> effect (-1) 1 vm vm'"
    by (auto simp: exec_SET_PROPERTY_def Let_def effect_def same_height_def elim!: bind_SomeE
        dest!: effects push_next_effect split: option.split_asm if_split_asm)
  show "exec_FIELD vm = Some (Next vm') \<Longrightarrow> effect (-1) 3 vm vm'"
    by (auto simp: exec_FIELD_def Let_def effect_def same_height_def numeral_3_eq_3 elim!: bind_SomeE
        dest!: effects split: if_split_asm)
qed

lemma exec_index_effect:
  "exec_GET_INDEX vm = Some (Next vm') \<Longrightarrow> effect (-1) 0 vm vm'"
  "exec_SET_INDEX vm = Some (Next vm') \<Longrightarrow> effect (-2) 0 vm vm'"
proof -
  show "exec_GET_INDEX vm = Some (Next vm') \<Longrightarrow> effect (-1) 0 vm vm'"
    by (auto simp: exec_GET_INDEX_def elim!: bind_SomeE with_position_use)
      (auto simp: effect_def dest!: effects push_next_effect)
  show "exec_SET_INDEX vm = Some (Next vm') \<Longrightarrow> effect (-2) 0 vm vm'"
    by (auto simp: exec_SET_INDEX_def elim!: bind_SomeE with_position_use)
      (auto simp: effect_def same_height_def dest!: effects push_next_effect)
qed

lemma init_fields_fails [simp]: "init_fields s r ps given vm \<noteq> Some (Inl (Next vm'))"
  by (induction s r ps given vm rule: init_fields.induct)
    (auto elim!: bind_SomeE split: option.split_asm if_split_asm)

text \<open>The instructions with a count: the byte they read is the number of values they take.\<close>

lemma exec_count_effect:
  "exec_LIST vm = Some (Next vm') \<Longrightarrow> operand_bytes vm = b # bs \<Longrightarrow> effect (1 - int (unat b)) 1 vm vm'"
  "exec_ARRAY vm = Some (Next vm') \<Longrightarrow> operand_bytes vm = b # bs \<Longrightarrow> effect (1 - int (unat b)) 1 vm vm'"
  "exec_CLOSE_BLOCK_EXPR vm = Some (Next vm') \<Longrightarrow> operand_bytes vm = b # bs \<Longrightarrow>
     effect (- int (unat b)) 1 vm vm'"
  "exec_STRUCT_INIT vm = Some (Next vm') \<Longrightarrow> operand_bytes vm = b # bs \<Longrightarrow>
     effect (- 2 * int (unat b)) 1 vm vm'"
proof -
  assume bs: "operand_bytes vm = b # bs"
  show "exec_LIST vm = Some (Next vm') \<Longrightarrow> effect (1 - int (unat b)) 1 vm vm'"
    using bs by (auto simp: exec_LIST_def effect_def same_height_def simp del: of_nat_unat elim!: bind_SomeE
        dest!: effects push_next_effect)
  show "exec_ARRAY vm = Some (Next vm') \<Longrightarrow> effect (1 - int (unat b)) 1 vm vm'"
    using bs by (auto simp: exec_ARRAY_def Let_def effect_def same_height_def simp del: of_nat_unat elim!: bind_SomeE
        dest!: effects push_next_effect split: if_split_asm)
  show "exec_CLOSE_BLOCK_EXPR vm = Some (Next vm') \<Longrightarrow> effect (- int (unat b)) 1 vm vm'"
    using bs by (auto simp: exec_CLOSE_BLOCK_EXPR_def effect_def same_height_def simp del: of_nat_unat elim!: bind_SomeE
        dest!: effects push_next_effect split: if_split_asm)
  show "exec_STRUCT_INIT vm = Some (Next vm') \<Longrightarrow> effect (- 2 * int (unat b)) 1 vm vm'"
    using bs by (auto simp: exec_STRUCT_INIT_def peekStack_def Let_def effect_def same_height_def simp del: of_nat_unat elim!: bind_SomeE
        dest!: effects push_next_effect split: if_split_asm sum.split_asm option.split_asm)
qed

text \<open>
  An instruction that stays in its frame moves the height by what \<open>opInfos\<close> declares and reads the
  operand bytes it declares.
\<close>

lemma operand_bytes_read:
  assumes "execute native op vm = Some r" "op \<in> {OP_LIST, OP_ARRAY, OP_CLOSE_BLOCK_EXPR, OP_STRUCT_INIT}"
  obtains b bs where "operand_bytes vm = b # bs"
proof -
  have "\<exists>b vm1. READ_BYTE vm = Some (b, vm1)"
    using assms by (auto simp: exec_LIST_def exec_ARRAY_def exec_CLOSE_BLOCK_EXPR_def exec_STRUCT_INIT_def
        elim!: bind_SomeE)
  then show thesis using that READ_BYTE_effect by blast
qed

lemma execute_effect:
  assumes "execute native op vm = Some (Next vm')" "straight_line op"
  shows "effect (declared_effect (opInfos op) (operand_bytes vm)) (oi_operandBytes (opInfos op)) vm vm'"
proof (cases "op \<in> {OP_LIST, OP_ARRAY, OP_CLOSE_BLOCK_EXPR, OP_STRUCT_INIT}")
  case True
  then obtain b bs where bs: "operand_bytes vm = b # bs"
    using operand_bytes_read [OF assms(1)] by blast
  note counts = exec_count_effect [OF _ bs]
  from True consider "op = OP_LIST" | "op = OP_ARRAY" | "op = OP_CLOSE_BLOCK_EXPR" | "op = OP_STRUCT_INIT"
    by blast
  then show ?thesis
    by cases (use assms(1) counts [of vm'] in \<open>simp_all add: declared_fixed bs del: of_nat_unat\<close>)
next
  case False
  note fixed = declared_fixed exec_effect0 exec_effect1 exec_properties_effect exec_index_effect
    push_next_effect numberBinary_effect numberCompare_effect
  show ?thesis
    using assms False by (cases op) (auto simp: straight_line_def fixed simp del: One_nat_def)
qed

lemma capture_loop_height:
  "capture_loop c i n vm = Some vm' \<Longrightarrow>
     vm_stackTop vm' = vm_stackTop vm \<and> vm_frames vm' = adv (2 * n) (vm_frames vm)"
proof (induction c i n vm rule: capture_loop.induct)
  case (2 closure i n vm)
  from 2(2) obtain isLocal vm1 index vm2 upvalue vm3 cl where
    r: "READ_BYTE vm = Some (isLocal, vm1)" "READ_BYTE vm1 = Some (index, vm2)"
    and u: "(if isLocal \<noteq> 0 then do {
          frame \<leftarrow> current_frame vm2;
          (u, vm) \<leftarrow> captureUpvalue (fr_slots frame + unat index) vm2;
          Some (Some u, vm)
        } else do { u \<leftarrow> frame_upvalue index vm2; Some (u, vm2) }) = Some (upvalue, vm3)"
    and c: "as_closure (vm_store vm3) closure = Some cl"
    and rest: "capture_loop closure (i + 1) n
      (put_obj closure (OClosure (cl\<lparr>cl_upvalues := (cl_upvalues cl)[i := upvalue]\<rparr>)) vm3) = Some vm'"
    by (auto elim!: bind_SomeE)
  have ih: "vm_stackTop vm' = vm_stackTop vm3 \<and> vm_frames vm' = adv (2 * n) (vm_frames vm3)"
    using 2(1) r u c rest by simp
  have "same_height vm2 vm3"
    using u by (auto simp: same_height_def elim!: bind_SomeE dest!: effects split: if_split_asm)
  with ih r show ?case by (auto simp: same_height_def dest!: effects)
qed simp

lemma exec_CLOSURE_height:
  "exec_CLOSURE vm = Some (Next vm') \<Longrightarrow> vm_stackTop vm' = Suc (vm_stackTop vm) \<and>
     (\<exists>n. vm_frames vm' = adv (1 + 2 * n) (vm_frames vm))"
  by (auto simp: exec_CLOSURE_def Let_def same_height_def elim!: bind_SomeE
      dest!: effects capture_loop_height)

text \<open>
  \<open>OP_CLOSURE\<close> reads two more bytes for each variable that the closure captures: the number is in the
  function that its constant names.
\<close>

definition captured :: "VM \<Rightarrow> ObjFunction \<Rightarrow> bytes \<Rightarrow> nat" where
  "captured vm f operands =
     (case va_values (ch_constants (fn_chunk f)) ! unat (hd operands) of
        VAL_OBJ r \<Rightarrow> (case as_function (vm_store vm) r of Some g \<Rightarrow> fn_upvalueCount g | None \<Rightarrow> 0)
      | _ \<Rightarrow> 0)"

lemma newClosure_upvalues:
  assumes "newClosure fn vm = Some (r, vm')"
  shows "\<exists>g c. as_function (vm_store vm) fn = Some g \<and> as_closure (vm_store vm') r = Some c \<and>
    length (cl_upvalues c) = fn_upvalueCount g"
proof -
  from assms obtain g vm1 f where g: "as_function (vm_store vm) fn = Some g"
    "reallocate 0 (sizeof_pointer * fn_upvalueCount g) vm = Some vm1" "as_function (vm_store vm1) fn = Some f"
    "allocateObject (OClosure \<lparr>cl_function = fn, cl_upvalues = replicate (fn_upvalueCount f) None,
         cl_owner = None\<rparr>) vm1 = Some (r, vm')"
    by (auto simp: newClosure_def elim!: bind_SomeE)
  then have "f = g" using as_function_sub [of "vm_store vm1" "vm_store vm" fn f] reallocate_store by fastforce
  with g show ?thesis by (auto simp: allocateObject_def Let_def as_closure_def elim!: bind_SomeE)
qed

lemma exec_CLOSURE_frames:
  assumes "exec_CLOSURE vm = Some (Next vm')" "vm_frames vm = frame # frames" "frame_function vm frame = Some f"
  shows "vm_frames vm' = adv (1 + 2 * captured vm f (operand_bytes vm)) (vm_frames vm)"
proof -
  from assms(1) obtain k vm1 fn closure vm2 owner c vm3 vm4 where
    r: "READ_CONSTANT vm = Some (k, vm1)" "value_ref k = Some fn"
    and n: "newClosure fn vm1 = Some (closure, vm2)" and c: "as_closure (vm_store vm2) closure = Some c"
    and p: "pushOnStack (VAL_OBJ closure) (put_obj closure (OClosure (c\<lparr>cl_owner := owner\<rparr>)) vm2) = Some vm3"
    and l: "capture_loop closure 0 (length (cl_upvalues c)) vm3 = Some vm4" and vm': "vm' = vm4"
    by (auto simp: exec_CLOSURE_def Let_def elim!: bind_SomeE)
  from r(1) obtain b where b: "READ_BYTE vm = Some (b, vm1)"
    "va_values (ch_constants (fn_chunk f)) ! unat b = k"
    using assms(2,3) READ_BYTE_effect
    by (auto simp: READ_CONSTANT_def Let_def current_frame_def elim!: bind_SomeE split: if_split_asm)
      (fastforce simp: advances_def)+
  have same: "vm_gc vm1 = vm_gc vm" "vm_frames vm1 = adv 1 (vm_frames vm)" "hd (operand_bytes vm) = b"
    using READ_BYTE_effect [OF b(1)] read_facts(1) [OF b(1)] by (auto dest: advances_simps(3))
  obtain g where g: "as_function (vm_store vm) fn = Some g" "length (cl_upvalues c) = fn_upvalueCount g"
    using newClosure_upvalues [OF n] c same(1) by auto
  have "k = VAL_OBJ fn" using r(2) by (cases k) (auto simp: value_ref_def)
  then have "captured vm f (operand_bytes vm) = fn_upvalueCount g"
    using b(2) g(1) same(3) by (simp add: captured_def)
  moreover have "vm_frames vm3 = vm_frames vm1"
    using newClosure_height [OF n] pushOnStack_height [OF p] by (simp add: same_height_def)
  ultimately show ?thesis using capture_loop_height [OF l] g(2) same(2) vm' by simp
qed

lemma set_ip_height [simp]: "vm_stackTop (set_ip n vm) = vm_stackTop vm"
  by (simp add: set_ip_def split: list.split)

lemma jump_height:
  "jump_if c vm = Some (Next vm') \<Longrightarrow> vm_stackTop vm' = vm_stackTop vm"
  "exec_JUMP vm = Some (Next vm') \<Longrightarrow> vm_stackTop vm' = vm_stackTop vm"
  "exec_LOOP vm = Some (Next vm') \<Longrightarrow> vm_stackTop vm' = vm_stackTop vm"
  by (auto simp: jump_if_def exec_JUMP_def exec_LOOP_def elim!: bind_SomeE dest!: effects split: if_split_asm)

lemma execute_height:
  assumes "execute native op vm = Some (Next vm')" "op \<notin> {OP_RETURN, OP_CALL, OP_INVOKE}"
  shows "int (vm_stackTop vm') = int (vm_stackTop vm) + declared_effect (opInfos op) (operand_bytes vm)"
proof (cases "straight_line op")
  case True
  then show ?thesis using execute_effect [OF assms(1)] by (simp add: effect_def)
next
  case False
  with assms(2) consider "op = OP_JUMP" | "op = OP_LOOP" | "op = OP_JUMP_IF_FALSE" | "op = OP_JUMP_IF_NOT_NIL"
    | "op = OP_CLOSURE" by (auto simp: straight_line_def)
  then show ?thesis
    by cases (use assms(1) jump_height exec_CLOSURE_height in \<open>auto simp: declared_fixed\<close>)
qed

lemma step_execute:
  assumes "step native vm = Some r" "vm_frames vm = frame # frames" "frame_function vm frame = Some f"
    "op_of_byte (ch_code (fn_chunk f) ! fr_ip frame) = Some op"
  obtains vm1 where "execute native op vm1 = Some r" "advances 1 vm vm1"
    "operand_bytes vm1 = drop (fr_ip frame + 1) (ch_code (fn_chunk f))"
proof -
  from assms(1) obtain b vm1 where b: "READ_BYTE vm = Some (b, vm1)"
    "(case op_of_byte b of None \<Rightarrow> Some (Next vm1) | Some op \<Rightarrow> execute native op vm1) = Some r"
    by (auto simp: step_def elim!: bind_SomeE)
  note eff = READ_BYTE_effect [OF b(1)]
  have ops: "operand_bytes vm = drop (fr_ip frame) (ch_code (fn_chunk f))"
    using assms(2,3) by (simp add: operand_bytes_def)
  then have lt: "fr_ip frame < length (ch_code (fn_chunk f))" using eff by (metis drop_all list.distinct(1) not_less)
  have "b = ch_code (fn_chunk f) ! fr_ip frame"
    "operand_bytes vm1 = drop (fr_ip frame + 1) (ch_code (fn_chunk f))"
    using eff ops Cons_nth_drop_Suc [OF lt] by auto
  with that b(2) assms(4) eff show thesis by simp
qed

section \<open>Properties\<close>

text \<open>The bytes after the opcode that an instruction reads.\<close>

definition operand_count :: "VM \<Rightarrow> ObjFunction \<Rightarrow> OpCode \<Rightarrow> bytes \<Rightarrow> nat" where
  "operand_count vm f op operands =
     oi_operandBytes (opInfos op) + (if op = OP_CLOSURE then 2 * captured vm f operands else 0)"

text \<open>
  C3. Every instruction other than a call or a return changes the height of the stack by exactly
  what \<open>opInfo\<close> declares for it and its operand bytes, so the compiler's bookkeeping and the machine
  agree.  One that does not jump leaves the other frames alone and moves its own past the opcode and the
  declared operand bytes, with the two bytes for each captured variable that follow an \<open>OP_CLOSURE\<close>.
\<close>

theorem step_follows_opInfo:
  assumes "step native vm = Some (Next vm')"
    and "vm_frames vm = frame # frames" and "frame_function vm frame = Some f"
    and "op_of_byte (ch_code (fn_chunk f) ! fr_ip frame) = Some op"
    and "op \<notin> {OP_RETURN, OP_CALL, OP_INVOKE}"
    and "operands = drop (fr_ip frame + 1) (ch_code (fn_chunk f))"
  shows "int (vm_stackTop vm') = int (vm_stackTop vm) + declared_effect (opInfos op) operands \<and>
    (op \<notin> {OP_JUMP, OP_LOOP, OP_JUMP_IF_FALSE, OP_JUMP_IF_NOT_NIL} \<longrightarrow>
       vm_frames vm' = frame\<lparr>fr_ip := fr_ip frame + 1 + operand_count vm f op operands\<rparr> # frames)"
proof -
  obtain vm1 where vm1: "execute native op vm1 = Some (Next vm')" "advances 1 vm vm1"
    "operand_bytes vm1 = operands"
    using step_execute [OF assms(1-4)] assms(6) by blast
  have eq: "vm_stackTop vm1 = vm_stackTop vm" "vm_frames vm1 = frame\<lparr>fr_ip := fr_ip frame + 1\<rparr> # frames"
    "frame_function vm1 (frame\<lparr>fr_ip := fr_ip frame + 1\<rparr>) = Some f"
    using vm1(2) assms(2,3) by (auto simp: advances_def)
  have same: "captured vm1 = captured vm"
    unfolding captured_def advances_simps(3) [OF vm1(2)] ..
  have "vm_frames vm' = adv (operand_count vm f op operands) (vm_frames vm1)"
    if "op \<notin> {OP_JUMP, OP_LOOP, OP_JUMP_IF_FALSE, OP_JUMP_IF_NOT_NIL}"
  proof (cases "op = OP_CLOSURE")
    case True
    then show ?thesis using exec_CLOSURE_frames [OF _ eq(2,3)] vm1(1,3) same
      by (simp add: operand_count_def declared_fixed)
  next
    case False
    then have "straight_line op" using that assms(5) by (auto simp: straight_line_def)
    then show ?thesis using execute_effect [OF vm1(1)] False by (simp add: effect_def operand_count_def)
  qed
  then show ?thesis using execute_height [OF vm1(1) assms(5)] eq(1,2) vm1(3) by auto
qed

text \<open>A machine running one function, and one instruction of it.\<close>

definition sample_function :: "bytes \<Rightarrow> Value list \<Rightarrow> ObjFunction" where
  "sample_function code constants = \<lparr>fn_arity = 0, fn_upvalueCount = 0,
     fn_chunk = \<lparr>ch_capacity = 8, ch_code = code, ch_lines = replicate (length code) 1,
       ch_constants = \<lparr>va_capacity = 8, va_values = constants\<rparr>\<rparr>,
     fn_name = None, fn_isStatic = False, fn_isPublic = False\<rparr>"

definition sample_run :: "bytes \<Rightarrow> Value list \<Rightarrow> Value list \<Rightarrow> VM" where
  "sample_run code constants values =
     initial_vm\<lparr>vm_frames := [\<lparr>fr_closure = 1, fr_ip = 0, fr_slots = 0\<rparr>],
       vm_stack := (\<lambda>i. if i < length values then values ! i else VAL_NIL),
       vm_stackTop := length values,
       vm_gc := (vm_gc initial_vm)\<lparr>
         gc_store := [0 \<mapsto> OFunction (sample_function code constants),
           1 \<mapsto> OClosure \<lparr>cl_function = 0, cl_upvalues = [], cl_owner = None\<rparr>],
         gc_objects := [1, 0], gc_fresh := 2\<rparr>\<rparr>"

lemmas sample_run_simps = sample_run_def sample_function_def initial_vm_def step_def READ_BYTE_def
  current_frame_def frame_function_def set_ip_def as_closure_def as_function_def
  op_of_byte_def OP_COUNT_def all_opcodes_def

definition block_run :: VM where
  "block_run = sample_run [41, 1] [] [VAL_OBJ 1, VAL_BOOL True, VAL_NIL]"

lemma block_run_step: "\<exists>vm'. step native block_run = Some (Next vm')"
  by (simp add: block_run_def sample_run_simps exec_CLOSE_BLOCK_EXPR_def popFromStack_def
      closeUpvalues_def push_next_def pushOnStack_def STACK_MAX_def FRAMES_MAX_def)

theorem step_follows_opInfo_witness:
  "\<exists>vm'. step (\<lambda>_ _ _ _. None) block_run = Some (Next vm') \<and> vm_stackTop vm' = 2 \<and>
     vm_frames vm' = [\<lparr>fr_closure = 1, fr_ip = 2, fr_slots = 0\<rparr>]"
proof -
  obtain vm' where vm': "step (\<lambda>_ _ _ _. None) block_run = Some (Next vm')"
    using block_run_step by blast
  have fr: "vm_frames block_run = [\<lparr>fr_closure = 1, fr_ip = 0, fr_slots = 0\<rparr>]"
    "frame_function block_run \<lparr>fr_closure = 1, fr_ip = 0, fr_slots = 0\<rparr> = Some (sample_function [41, 1] [])"
    "vm_stackTop block_run = 3"
    by (simp_all add: block_run_def sample_run_def frame_function_def as_closure_def as_function_def)
  have op: "op_of_byte (ch_code (fn_chunk (sample_function [41, 1] [])) ! 0) = Some OP_CLOSE_BLOCK_EXPR"
    by (simp add: sample_function_def op_of_byte_def OP_COUNT_def all_opcodes_def)
  have "int (vm_stackTop vm') = 3 + declared_effect (opInfos OP_CLOSE_BLOCK_EXPR) [1]"
    "vm_frames vm' = [\<lparr>fr_closure = 1, fr_ip = 2, fr_slots = 0\<rparr>]"
    using step_follows_opInfo [OF vm' fr(1,2) _ _ refl] op fr(3)
    by (simp_all add: operand_count_def sample_function_def op_info_def)
  then show ?thesis using vm' by (simp add: declared_fixed)
qed

end
