(* ===== verification/VM_Upvalues.thy ===== *)
theory VM_Upvalues
  imports VM_Effects
begin

text \<open>
  Captured variables: the list of open upvalues is sorted by stack slot and holds one upvalue per
  slot, so closures that capture the same variable share it, and closing moves values from the
  stack into the upvalues without changing what a closure reads.
\<close>

definition open_slot :: "(obj_ref \<Rightarrow> Obj option) \<Rightarrow> obj_ref \<Rightarrow> nat option" where
  "open_slot store u =
     (case as_upvalue store u of
        None \<Rightarrow> None
      | Some uv \<Rightarrow> (case uv_location uv of LOC_STACK n \<Rightarrow> Some n | LOC_CLOSED \<Rightarrow> None))"

definition sorted_open :: "(obj_ref \<Rightarrow> Obj option) \<Rightarrow> obj_ref list \<Rightarrow> bool" where
  "sorted_open store us \<longleftrightarrow>
     (\<forall>u \<in> set us. open_slot store u \<noteq> None) \<and>
     sorted_wrt (\<lambda>u w. the (open_slot store w) < the (open_slot store u)) us"

lemma open_slot_Some:
  "open_slot store u = Some n \<longleftrightarrow> (\<exists>uv. as_upvalue store u = Some uv \<and> uv_location uv = LOC_STACK n)"
  by (auto simp: open_slot_def split: option.splits Location.splits)

lemma sorted_open_Cons:
  "sorted_open store (u # us) \<longleftrightarrow>
     (\<exists>n. open_slot store u = Some n \<and> (\<forall>w \<in> set us. the (open_slot store w) < n)) \<and> sorted_open store us"
  by (auto simp: sorted_open_def)

lemma sorted_open_append:
  "sorted_open store (us @ ws) \<longleftrightarrow> sorted_open store us \<and> sorted_open store ws \<and>
     (\<forall>u \<in> set us. \<forall>w \<in> set ws. the (open_slot store w) < the (open_slot store u))"
  by (auto simp: sorted_open_def sorted_wrt_append)

lemma sorted_open_cong:
  "(\<And>u. u \<in> set us \<Longrightarrow> open_slot store' u = open_slot store u) \<Longrightarrow> sorted_open store' us = sorted_open store us"
  by (induction us) (auto simp: sorted_open_Cons sorted_open_def [of _ "[]"])

lemma as_upvalue_put [simp]:
  "as_upvalue (store(r \<mapsto> OUpvalue x)) u = (if u = r then Some x else as_upvalue store u)"
  by (simp add: as_upvalue_def)

section \<open>Closing\<close>

definition closed_upvalue :: "Value \<Rightarrow> Obj" where
  "closed_upvalue v = OUpvalue \<lparr>uv_location = LOC_CLOSED, uv_closed = v\<rparr>"

lemma close_loop_correct:
  assumes "sorted_open (vm_store vm) us"
  shows "\<exists>vm'. close_loop b us vm = Some vm' \<and>
    vm_openUpvalues vm' = filter (\<lambda>u. the (open_slot (vm_store vm) u) < b) us \<and>
    vm_stack vm' = vm_stack vm \<and>
    (\<forall>u. vm_store vm' u =
       (if u \<in> set us \<and> b \<le> the (open_slot (vm_store vm) u)
        then Some (closed_upvalue (vm_stack vm (the (open_slot (vm_store vm) u)))) else vm_store vm u))"
  using assms
proof (induction us arbitrary: vm)
  case (Cons u us)
  then obtain n uv where n: "open_slot (vm_store vm) u = Some n" "\<forall>w \<in> set us. the (open_slot (vm_store vm) w) < n"
    "sorted_open (vm_store vm) us" "as_upvalue (vm_store vm) u = Some uv" "uv_location uv = LOC_STACK n"
    by (auto simp: sorted_open_Cons open_slot_Some)
  have notin: "u \<notin> set us" using n(1,2) by auto
  show ?case
  proof (cases "b \<le> n")
    case True
    let ?vm = "put_obj u (closed_upvalue (vm_stack vm n)) vm"
    have same: "open_slot (vm_store ?vm) w = open_slot (vm_store vm) w" if "w \<in> set us" for w
      using that notin by (auto simp: open_slot_def as_upvalue_def)
    then have "sorted_open (vm_store ?vm) us" using n(3) sorted_open_cong by blast
    from Cons.IH [OF this] obtain vm' where vm': "close_loop b us ?vm = Some vm'"
      "vm_openUpvalues vm' = filter (\<lambda>u. the (open_slot (vm_store ?vm) u) < b) us"
      "vm_stack vm' = vm_stack ?vm"
      "\<And>w. vm_store vm' w = (if w \<in> set us \<and> b \<le> the (open_slot (vm_store ?vm) w)
        then Some (closed_upvalue (vm_stack ?vm (the (open_slot (vm_store ?vm) w)))) else vm_store ?vm w)"
      by blast
    have "filter (\<lambda>u. the (open_slot (vm_store ?vm) u) < b) us = filter (\<lambda>u. the (open_slot (vm_store vm) u) < b) us"
      using same by (intro filter_cong) auto
    moreover have "vm_store vm' w = (if w \<in> set (u # us) \<and> b \<le> the (open_slot (vm_store vm) w)
        then Some (closed_upvalue (vm_stack vm (the (open_slot (vm_store vm) w)))) else vm_store vm w)" for w
      using vm'(4) [of w] same [of w] n(1) True notin by (cases "w = u"; cases "w \<in> set us") auto
    ultimately show ?thesis using vm' n True by (auto simp: closed_upvalue_def)
  next
    case False
    then have "\<forall>w \<in> set (u # us). the (open_slot (vm_store vm) w) < b" using n by fastforce
    moreover from this have "filter (\<lambda>u. the (open_slot (vm_store vm) u) < b) (u # us) = u # us"
      by (intro filter_True) blast
    ultimately show ?thesis using n False by (intro exI [of _ "vm\<lparr>vm_openUpvalues := u # us\<rparr>"]) auto
  qed
qed simp

lemma read_closed:
  assumes "open_slot (vm_store vm) u = Some n" "vm_store vm' u = Some (closed_upvalue (vm_stack vm n))"
  shows "read_upvalue u vm' = read_upvalue u vm"
  using assms by (auto simp: read_upvalue_def open_slot_Some closed_upvalue_def as_upvalue_def)

text \<open>The open upvalues at a slot from \<open>b\<close> upwards.\<close>

definition open_from :: "nat \<Rightarrow> VM \<Rightarrow> obj_ref set" where
  "open_from b vm = {u \<in> set (vm_openUpvalues vm). b \<le> the (open_slot (vm_store vm) u)}"

lemma closeUpvalues_store:
  assumes "sorted_open (vm_store vm) (vm_openUpvalues vm)"
  shows "\<exists>vm'. closeUpvalues b vm = Some vm' \<and>
    vm_openUpvalues vm' = filter (\<lambda>u. u \<notin> open_from b vm) (vm_openUpvalues vm) \<and>
    vm_stack vm' = vm_stack vm \<and>
    (\<forall>u. vm_store vm' u = (if u \<in> open_from b vm
       then Some (closed_upvalue (vm_stack vm (the (open_slot (vm_store vm) u)))) else vm_store vm u))"
proof -
  have "filter (\<lambda>u. the (open_slot (vm_store vm) u) < b) (vm_openUpvalues vm) =
      filter (\<lambda>u. u \<notin> open_from b vm) (vm_openUpvalues vm)"
    by (rule filter_cong) (auto simp: open_from_def)
  with close_loop_correct [OF assms, of b] show ?thesis by (auto simp: closeUpvalues_def open_from_def)
qed

lemma closed_reads:
  assumes "sorted_open (vm_store vm) (vm_openUpvalues vm)" "u \<in> open_from b vm"
    "vm_store vm' u = Some (closed_upvalue (vm_stack vm (the (open_slot (vm_store vm) u))))"
  shows "read_upvalue u (vm'\<lparr>vm_stack := stack\<rparr>) = read_upvalue u vm"
    "map_option uv_location (as_upvalue (vm_store vm') u) = Some LOC_CLOSED"
proof -
  obtain n where n: "open_slot (vm_store vm) u = Some n"
    using assms(1,2) by (auto simp: sorted_open_def open_from_def)
  then show "read_upvalue u (vm'\<lparr>vm_stack := stack\<rparr>) = read_upvalue u vm"
    using read_closed [OF n, of "vm'\<lparr>vm_stack := stack\<rparr>"] assms(3) by simp
  show "map_option uv_location (as_upvalue (vm_store vm') u) = Some LOC_CLOSED"
    using assms(3) by (simp add: as_upvalue_def closed_upvalue_def)
qed

section \<open>Capturing\<close>

lemma split_open_correct:
  assumes "sorted_open store us"
  shows "\<exists>before after. split_open store local us = Some (before, after) \<and> us = before @ after \<and>
    (\<forall>u \<in> set before. local < the (open_slot store u)) \<and>
    (\<forall>u \<in> set after. the (open_slot store u) \<le> local)"
  using assms
proof (induction us)
  case (Cons u us)
  then obtain n uv where n: "open_slot store u = Some n" "\<forall>w \<in> set us. the (open_slot store w) < n"
    "sorted_open store us" "as_upvalue store u = Some uv" "uv_location uv = LOC_STACK n"
    by (auto simp: sorted_open_Cons open_slot_Some)
  obtain before after where b: "split_open store local us = Some (before, after)" "us = before @ after"
    "\<forall>u \<in> set before. local < the (open_slot store u)" "\<forall>u \<in> set after. the (open_slot store u) \<le> local"
    using Cons.IH [OF n(3)] by blast
  show ?case
  proof (cases "local < n")
    case True
    with n b show ?thesis by (intro exI [of _ "u # before"] exI [of _ after]) auto
  next
    case False
    with n show ?thesis by (intro exI [of _ "[]"] exI [of _ "u # us"]) fastforce
  qed
qed simp

lemma split_open_unique:
  "\<forall>u \<in> set before. \<exists>n. open_slot store u = Some n \<and> local < n \<Longrightarrow> open_slot store w = Some m \<Longrightarrow> m \<le> local \<Longrightarrow>
     split_open store local (before @ w # after) = Some (before, w # after)"
proof (induction before)
  case Nil
  then show ?case by (auto simp: open_slot_Some)
next
  case (Cons u before)
  then obtain uv n where "as_upvalue store u = Some uv" "uv_location uv = LOC_STACK n" "local < n"
    by (auto simp: open_slot_Some)
  with Cons show ?case by simp
qed

lemma captureUpvalue_correct:
  assumes ok: "heap_ok (vm_gc vm)" "roots_ok vm" and sorted: "sorted_open (vm_store vm) (vm_openUpvalues vm)"
    and "local": "local < STACK_MAX"
  shows "\<exists>u vm'. captureUpvalue local vm = Some (u, vm') \<and>
    sorted_open (vm_store vm') (vm_openUpvalues vm') \<and>
    set (vm_openUpvalues vm') = insert u (set (vm_openUpvalues vm)) \<and>
    open_slot (vm_store vm') u = Some local \<and>
    (\<forall>w \<in> set (vm_openUpvalues vm). open_slot (vm_store vm') w = open_slot (vm_store vm) w) \<and>
    vm_stack vm' = vm_stack vm \<and>
    captureUpvalue local vm' = Some (u, vm')"
proof -
  let ?us = "vm_openUpvalues vm" and ?S = "vm_store vm"
  obtain before after where sp: "split_open ?S local ?us = Some (before, after)" "?us = before @ after"
    "\<forall>u \<in> set before. local < the (open_slot ?S u)" "\<forall>u \<in> set after. the (open_slot ?S u) \<le> local"
    using split_open_correct [OF sorted, of local] by blast
  show ?thesis
  proof (cases "after \<noteq> [] \<and> open_slot ?S (hd after) = Some local")
    case True
    then have hit: "map_option uv_location (as_upvalue ?S (hd after)) = Some (LOC_STACK local)"
      by (auto simp: open_slot_Some)
    have "captureUpvalue local vm = Some (hd after, vm)"
      using "local" sp(1) True hit by (simp add: captureUpvalue_def)
    moreover have "hd after \<in> set ?us" using sp(2) True by simp
    ultimately show ?thesis using sorted True by (intro exI [of _ "hd after"] exI [of _ vm]) auto
  next
    case False
    have miss: "\<not> (after \<noteq> [] \<and> map_option uv_location (as_upvalue ?S (hd after)) = Some (LOC_STACK local))"
      using False by (auto simp: open_slot_Some)
    let ?new = "OUpvalue \<lparr>uv_location = LOC_STACK local, uv_closed = VAL_NIL\<rparr>"
    obtain vm1 where vm1: "reallocate 0 (sizeof_obj OBJ_UPVALUE) vm = Some vm1" "collected vm vm1"
      using reallocate_correct [OF ok] by blast
    then obtain A where A: "live_objects vm \<subseteq> A" "vm_store vm1 = ?S |` A" "vm1 = vm\<lparr>vm_gc := vm_gc vm1\<rparr>"
      "heap_ok (vm_gc vm1)" by (auto simp: collected_def)
    let ?r = "gc_fresh (vm_gc vm1)"
    define vm2 where "vm2 = vm1\<lparr>vm_gc := (vm_gc vm1)\<lparr>gc_store := (vm_store vm1)(?r \<mapsto> ?new),
        gc_isMarked := (gc_isMarked (vm_gc vm1))(?r := False),
        gc_objects := ?r # gc_objects (vm_gc vm1), gc_fresh := ?r + 1\<rparr>\<rparr>"
    define vm3 where "vm3 = vm2\<lparr>vm_openUpvalues := before @ ?r # after\<rparr>"
    have cap: "captureUpvalue local vm = Some (?r, vm3)"
      using "local" sp(1) miss vm1(1)
      by (auto simp: captureUpvalue_def newUpvalue_def allocateObject_def vm2_def vm3_def Let_def)
    have us: "set ?us \<subseteq> set (vm_roots vm)" by (auto simp: vm_roots_def)
    then have live: "u \<in> live_objects vm" if "u \<in> set ?us" for u
      using that by (auto simp: live_objects_def intro: reaches.root)
    have slot: "open_slot (vm_store vm3) w = open_slot ?S w" if "w \<in> set ?us" for w
    proof -
      have "w \<in> dom ?S" using that us ok(2) by (auto simp: roots_ok_def)
      then have "w \<in> dom (vm_store vm1)" using A live [OF that] by auto
      then have "w \<noteq> ?r" using A(4) by (auto simp: heap_ok_def)
      then show ?thesis using A live [OF that]
        by (auto simp: open_slot_def as_upvalue_def vm3_def vm2_def restrict_map_def)
    qed
    have new: "open_slot (vm_store vm3) ?r = Some local"
      by (simp add: open_slot_def vm3_def vm2_def)
    have strict: "the (open_slot ?S u) < local" if "u \<in> set after" for u
    proof -
      have sa: "sorted_open ?S after" using sorted sp(2) by (auto simp: sorted_open_def sorted_wrt_append)
      obtain a as' where af: "after = a # as'" using \<open>u \<in> set after\<close> by (cases after) auto
      have "the (open_slot ?S a) \<le> local" "open_slot ?S a \<noteq> Some local" "open_slot ?S a \<noteq> None"
        using sp(4) False af sa by (auto simp: sorted_open_Cons)
      then have "the (open_slot ?S a) < local" by auto
      then show ?thesis using sa that af by (fastforce simp: sorted_open_Cons)
    qed
    have "sorted_open (vm_store vm3) (before @ after)" using sorted slot sp(2) sorted_open_cong by metis
    then have "sorted_open (vm_store vm3) (before @ ?r # after)"
      using slot new sp(2,3) strict by (auto simp: sorted_open_append sorted_open_Cons)
    moreover have "captureUpvalue local vm3 = Some (?r, vm3)"
    proof -
      have "\<forall>u \<in> set before. \<exists>n. open_slot (vm_store vm3) u = Some n \<and> local < n"
        using sp(2,3) slot sorted by (fastforce simp: sorted_open_def)
      from split_open_unique [OF this new order_refl, of after] new "local" show ?thesis
        by (auto simp: captureUpvalue_def vm3_def open_slot_Some)
    qed
    ultimately show ?thesis
      using cap new slot sp(2) A(3)
      by (intro exI [of _ ?r] exI [of _ vm3]) (auto simp: vm3_def vm2_def dest: arg_cong [of _ _ vm_stack])
  qed
qed

section \<open>Properties\<close>

text \<open>
  C23. Capturing a stack slot returns, keeps the open upvalues sorted with one per slot, gives an
  upvalue of that slot, and capturing the slot again gives the same upvalue and changes nothing:
  closures over the same variable share it.
\<close>

theorem captureUpvalue_shares:
  assumes "heap_ok (vm_gc vm)" and "set (vm_roots vm) \<subseteq> dom (vm_store vm)"
    and "sorted_open (vm_store vm) (vm_openUpvalues vm)" and "slot < STACK_MAX"
  shows "\<exists>u vm'. captureUpvalue slot vm = Some (u, vm') \<and>
    sorted_open (vm_store vm') (vm_openUpvalues vm') \<and>
    set (vm_openUpvalues vm') = insert u (set (vm_openUpvalues vm)) \<and>
    read_upvalue u vm' = Some (vm_stack vm slot) \<and>
    captureUpvalue slot vm' = Some (u, vm')"
proof -
  obtain u vm' where "captureUpvalue slot vm = Some (u, vm')"
    "sorted_open (vm_store vm') (vm_openUpvalues vm')"
    "set (vm_openUpvalues vm') = insert u (set (vm_openUpvalues vm))"
    "open_slot (vm_store vm') u = Some slot" "vm_stack vm' = vm_stack vm"
    "captureUpvalue slot vm' = Some (u, vm')"
    using captureUpvalue_correct [of vm slot] assms by (auto simp: roots_ok_def)
  then show ?thesis by (auto simp: read_upvalue_def open_slot_Some)
qed

lemma sample_vm_ok:
  "heap_ok (vm_gc sample_vm)" "set (vm_roots sample_vm) \<subseteq> dom (vm_store sample_vm)"
proof -
  show "heap_ok (vm_gc sample_vm)" using sample_heap_ok by (simp add: sample_vm_def)
  show "set (vm_roots sample_vm) \<subseteq> dom (vm_store sample_vm)"
    unfolding sample_roots by (simp add: sample_vm_def sample_gc_def)
qed

theorem captureUpvalue_shares_witness:
  "\<exists>u vm'. captureUpvalue 0 sample_vm = Some (u, vm') \<and> captureUpvalue 0 vm' = Some (u, vm') \<and>
     read_upvalue u vm' = Some (VAL_OBJ 3)"
proof -
  have "sorted_open (vm_store sample_vm) (vm_openUpvalues sample_vm)" "(0 :: nat) < STACK_MAX"
    by (simp_all add: sample_vm_def sorted_open_def STACK_MAX_def FRAMES_MAX_def)
  from captureUpvalue_shares [OF sample_vm_ok this] show ?thesis
    by (auto simp: sample_vm_def)
qed

text \<open>
  C6. Closing the upvalues from a slot upwards returns and leaves exactly the lower ones open, still
  sorted and at their slots.  It is invisible to closures: every upvalue reads the same value before and
  after.  The ones above are closed: each holds its value itself, so it goes on reading that value whatever
  is written to the stack afterwards.  No other object changes.
\<close>

theorem closeUpvalues_invisible:
  assumes "sorted_open (vm_store vm) (vm_openUpvalues vm)"
  shows "\<exists>vm'. closeUpvalues bound vm = Some vm' \<and>
    vm_openUpvalues vm' = filter (\<lambda>u. u \<notin> open_from bound vm) (vm_openUpvalues vm) \<and>
    sorted_open (vm_store vm') (vm_openUpvalues vm') \<and>
    (\<forall>u. read_upvalue u vm' = read_upvalue u vm) \<and>
    (\<forall>u\<in>open_from bound vm.
       map_option uv_location (as_upvalue (vm_store vm') u) = Some LOC_CLOSED \<and>
       (\<forall>stack. read_upvalue u (vm'\<lparr>vm_stack := stack\<rparr>) = read_upvalue u vm)) \<and>
    (\<forall>r. r \<notin> open_from bound vm \<longrightarrow> vm_store vm' r = vm_store vm r)"
proof -
  obtain vm' where vm': "closeUpvalues bound vm = Some vm'"
    "vm_openUpvalues vm' = filter (\<lambda>u. u \<notin> open_from bound vm) (vm_openUpvalues vm)"
    "vm_stack vm' = vm_stack vm"
    and store: "\<And>u. vm_store vm' u = (if u \<in> open_from bound vm
       then Some (closed_upvalue (vm_stack vm (the (open_slot (vm_store vm) u)))) else vm_store vm u)"
    using closeUpvalues_store [OF assms] by blast
  have slots: "open_slot (vm_store vm') u = open_slot (vm_store vm) u" if "u \<notin> open_from bound vm" for u
    using that store [of u] by (simp add: open_slot_def as_upvalue_def)
  have "sorted_open (vm_store vm) (vm_openUpvalues vm')"
    using assms by (auto simp: vm'(2) sorted_open_def intro: sorted_wrt_filter)
  then have "sorted_open (vm_store vm') (vm_openUpvalues vm')"
    using sorted_open_cong [of "vm_openUpvalues vm'" "vm_store vm'" "vm_store vm"] slots vm'(2) by simp
  moreover have "read_upvalue u vm' = read_upvalue u vm" for u
  proof (cases "u \<in> open_from bound vm")
    case True
    then show ?thesis using closed_reads(1) [OF assms True, of vm' "vm_stack vm'"] store [of u] by simp
  next
    case False
    then have "vm_store vm' u = vm_store vm u" using store [of u] by simp
    then show ?thesis unfolding read_upvalue_def as_upvalue_def vm'(3) by (rule arg_cong)
  qed
  ultimately show ?thesis using vm'(1,2) store closed_reads [OF assms] by (intro exI [of _ vm']) simp
qed

definition open_run :: VM where
  "open_run = sample_vm\<lparr>vm_openUpvalues := [4],
     vm_gc := sample_gc\<lparr>gc_store := (gc_store sample_gc)
       (4 \<mapsto> OUpvalue \<lparr>uv_location = LOC_STACK 0, uv_closed = VAL_NIL\<rparr>)\<rparr>\<rparr>"

theorem closeUpvalues_invisible_witness:
  "\<exists>vm'. closeUpvalues 0 open_run = Some vm' \<and> vm_openUpvalues vm' = [] \<and>
     (\<forall>stack. read_upvalue 4 (vm'\<lparr>vm_stack := stack\<rparr>) = Some (VAL_OBJ 3))"
proof -
  have slot: "open_slot (vm_store open_run) 4 = Some 0" by (simp add: open_slot_def open_run_def)
  have "sorted_open (vm_store open_run) (vm_openUpvalues open_run)" "4 \<in> open_from 0 open_run"
    "filter (\<lambda>u. u \<notin> open_from 0 open_run) (vm_openUpvalues open_run) = []"
    using slot by (simp_all add: sorted_open_def open_from_def open_run_def)
  moreover have "read_upvalue 4 open_run = Some (VAL_OBJ 3)"
    by (simp add: read_upvalue_def open_run_def sample_vm_def)
  ultimately show ?thesis using closeUpvalues_invisible [of open_run 0] by auto
qed

end
