(* ===== verification/Number_Format.thy ===== *)
theory Number_Format
  imports Value
begin

text \<open>
  Numbers as text, \<^verbatim>\<open>src/value.c\<close>.  \<open>snprintf\<close> with \<open>%.*e\<close> rounds the exact value to that many
  digits, ties to even, and \<open>strtod\<close> and \<open>strtof\<close> round the exact value of the text to the nearest
  number, ties to even, as the C libraries in use do.  The text \<open>d.ddde+XX\<close> between the two is kept
  as its digits and its exponent.
\<close>

text \<open>\<open>snprintf(buffer, size, ...)\<close> keeps room for the NUL.\<close>

definition snprintf :: "nat \<Rightarrow> bytes \<Rightarrow> bytes" where
  "snprintf bufsize cs = take (bufsize - 1) cs"

section \<open>Decimal digits\<close>

fun nat_digits :: "nat \<Rightarrow> nat list" where
  "nat_digits n = (if n < 10 then [n] else nat_digits (n div 10) @ [n mod 10])"

declare nat_digits.simps [simp del]

definition digits_value :: "nat list \<Rightarrow> nat" where
  "digits_value ds = foldl (\<lambda>n d. 10 * n + d) 0 ds"

definition digit_char :: "nat \<Rightarrow> u8" where
  "digit_char d = 48 + word_of_nat d"

definition nat_text :: "nat \<Rightarrow> bytes" where
  "nat_text n = map digit_char (nat_digits n)"

definition int_text :: "int \<Rightarrow> bytes" where
  "int_text i = (if i < 0 then [45] else []) @ nat_text (nat \<bar>i\<bar>)"

text \<open>The decimal exponent of \<open>num / den > 0\<close>.\<close>

definition decimal_exponent :: "nat \<Rightarrow> nat \<Rightarrow> int" where
  "decimal_exponent num den =
     (if den \<le> num then int (length (nat_digits (num div den))) - 1
      else let k = length (nat_digits (den div num))
           in if num * 10 ^ (k - 1) = den then - (int k - 1) else - int k)"

text \<open>The digits and the exponent that \<open>%.*e\<close> prints, with \<open>precision\<close> digits after the point.\<close>

definition scientific :: "nat \<Rightarrow> nat \<Rightarrow> nat \<Rightarrow> nat list \<times> int" where
  "scientific precision num den =
     (let x = decimal_exponent num den;
          q = round_half_even (num * 10 ^ nat (int precision - x)) (den * 10 ^ nat (x - int precision))
      in if q = 10 ^ (precision + 1) then (nat_digits (q div 10), x + 1) else (nat_digits q, x))"

text \<open>\<open>0.d1d2d3... * 10^point\<close>, read as a double or a float.\<close>

definition read_decimal :: "fp_format \<Rightarrow> nat list \<Rightarrow> int \<Rightarrow> fp" where
  "read_decimal fmt ds point =
     (let e = point - int (length ds)
      in fp_round fmt False (digits_value ds * 10 ^ nat e) (10 ^ nat (- e)))"

definition number_format :: "bool \<Rightarrow> fp_format" where
  "number_format single = (if single then binary32 else binary64)"

definition read_back :: "bool \<Rightarrow> nat list \<times> int \<Rightarrow> u64" where
  "read_back single s = fp_pack (read_decimal (number_format single) (fst s) (snd s + 1))"

text \<open>The loop over the precisions: the first that reads back as the number, or the last.\<close>

function shortest_loop :: "bool \<Rightarrow> u64 \<Rightarrow> nat \<Rightarrow> nat \<Rightarrow> nat \<Rightarrow> nat list \<times> int" where
  "shortest_loop single magnitude num den precision =
     (let s = scientific precision num den
      in if f64_eq (read_back single s) magnitude \<or> 16 \<le> precision then s
         else shortest_loop single magnitude num den (precision + 1))"
  by pat_completeness auto
termination by (relation "measure (\<lambda>(_, _, _, _, p). 16 - p)") auto

declare shortest_loop.simps [simp del]

fun drop_trailing_zeros :: "nat list \<Rightarrow> nat list" where
  "drop_trailing_zeros ds =
     (if 1 < length ds \<and> last ds = 0 then drop_trailing_zeros (butlast ds) else ds)"

declare drop_trailing_zeros.simps [simp del]

section \<open>Laying out the digits\<close>

definition appendChar :: "nat \<Rightarrow> bytes \<Rightarrow> u8 \<Rightarrow> bytes" where
  "appendChar bufsize buffer c = (if length buffer + 1 < bufsize then buffer @ [c] else buffer)"

definition append_chars :: "nat \<Rightarrow> bytes \<Rightarrow> bytes \<Rightarrow> bytes" where
  "append_chars bufsize = foldl (appendChar bufsize)"

definition exponent_text :: "int \<Rightarrow> bytes" where
  "exponent_text x = [101] @ (if x < 0 then [45] else [43]) @ nat_text (nat \<bar>x\<bar>)"

text \<open>The number is \<open>0.[digits] * 10^point\<close>.\<close>

definition layout_digits :: "nat list \<Rightarrow> int \<Rightarrow> bytes" where
  "layout_digits digits point =
     (let text = map digit_char digits; count = int (length digits)
      in if count \<le> point \<and> point \<le> 21 then text @ replicate (nat (point - count)) 48
         else if 0 < point \<and> point \<le> 21 then take (nat point) text @ [46] @ drop (nat point) text
         else if - 6 < point \<and> point \<le> 0 then [48, 46] @ replicate (nat (- point)) 48 @ text
         else take 1 text @ (if 1 < count then [46] @ drop 1 text else []) @ exponent_text (point - 1))"

definition formatFloat :: "u64 \<Rightarrow> bool \<Rightarrow> nat \<Rightarrow> bytes" where
  "formatFloat value single bufsize =
     (case fp_decode value of
        NaN \<Rightarrow> snprintf bufsize (ascii ''nan'')
      | Inf s \<Rightarrow> snprintf bufsize (ascii (if s then ''-inf'' else ''inf''))
      | Fin s m e \<Rightarrow>
          if m = 0 then snprintf bufsize (ascii (if s then ''-0'' else ''0''))
          else
            let magnitude = take_bit 63 value;
                (scientificDigits, exponent) =
                  shortest_loop single magnitude (m * 2 ^ nat e) (2 ^ nat (- e)) 0;
                digits = drop_trailing_zeros scientificDigits;
                point = exponent + 1
            in append_chars bufsize [] ((if s then [45] else []) @ layout_digits digits point))"

definition formatNumberF64 :: "u64 \<Rightarrow> nat \<Rightarrow> bytes" where
  "formatNumberF64 value bufsize = formatFloat value False bufsize"

definition formatNumber :: "NumberKind \<Rightarrow> NumberPayload \<Rightarrow> nat \<Rightarrow> bytes" where
  "formatNumber kind payload bufsize =
     (if isFloatKind kind then formatFloat payload (kind = NUMBER_KIND_F32) bufsize
      else if bufsize = 0 then []
      else if isSignedKind kind then snprintf bufsize (int_text (sint payload))
      else snprintf bufsize (nat_text (unat payload)))"

definition NUMBER_STRING_MAX :: nat where
  "NUMBER_STRING_MAX = 32"

definition VALUE_STRING_MAX :: nat where
  "VALUE_STRING_MAX = 128"

end
