(* ===== verification/Float64_Math.thy ===== *)
theory Float64_Math
  imports Float64
begin

text \<open>
  The functions of C's \<^verbatim>\<open>math.h\<close> that the natives call, on the doubles of \<open>Float64\<close>: rounding to an
  integer, absolute value, the correctly rounded square root, \<open>fmin\<close> and \<open>fmax\<close>, and the
  conversion of a double to an \<open>int\<close>.
\<close>

section \<open>Rounding to an integer\<close>

text \<open>
  A finite double is \<open>m / d\<close> with \<open>d\<close> a power of two; each function picks a whole magnitude and
  keeps the sign, so \<open>ceil(-0.5)\<close> is \<open>-0\<close>.
\<close>

definition fp_integral :: "(bool \<Rightarrow> nat \<Rightarrow> nat \<Rightarrow> nat) \<Rightarrow> fp \<Rightarrow> fp" where
  "fp_integral pick x =
     (case x of
        Fin s m e \<Rightarrow> if 0 \<le> e then x else Fin s (pick s m (2 ^ nat (- e))) 0
      | _ \<Rightarrow> x)"

definition div_up :: "nat \<Rightarrow> nat \<Rightarrow> nat" where
  "div_up m d = (if m mod d = 0 then m div d else m div d + 1)"

definition f64_floor :: "u64 \<Rightarrow> u64" where
  "f64_floor a = fp_pack (fp_integral (\<lambda>s m d. if s then div_up m d else m div d) (fp_decode a))"

definition f64_ceil :: "u64 \<Rightarrow> u64" where
  "f64_ceil a = fp_pack (fp_integral (\<lambda>s m d. if s then m div d else div_up m d) (fp_decode a))"

definition f64_truncate :: "u64 \<Rightarrow> u64" where
  "f64_truncate a = fp_pack (fp_integral (\<lambda>s m d. m div d) (fp_decode a))"

text \<open>\<open>round\<close>: halves away from zero.\<close>

definition f64_round :: "u64 \<Rightarrow> u64" where
  "f64_round a = fp_pack (fp_integral (\<lambda>s m d. (2 * m + d) div (2 * d)) (fp_decode a))"

definition f64_fabs :: "u64 \<Rightarrow> u64" where
  "f64_fabs a = (if f64_isnan a then a else take_bit 63 a)"

section \<open>Square root\<close>

fun isqrt :: "nat \<Rightarrow> nat" where
  "isqrt n = (if n = 0 then 0 else let r = 2 * isqrt (n div 4) in if (r + 1) * (r + 1) \<le> n then r + 1 else r)"

declare isqrt.simps [simp del]

lemma isqrt_bounds: "isqrt n * isqrt n \<le> n \<and> n < (isqrt n + 1) * (isqrt n + 1)"
proof (induction n rule: isqrt.induct)
  case (1 n)
  show ?case
  proof (cases "n = 0")
    case True
    then show ?thesis by (simp add: isqrt.simps)
  next
    case False
    let ?q = "isqrt (n div 4)"
    have IH: "?q * ?q \<le> n div 4" "n div 4 < (?q + 1) * (?q + 1)" using 1 [OF False] by simp_all
    have low: "(2 * ?q) * (2 * ?q) \<le> n" using IH(1) by auto
    have up: "n < (2 * ?q + 2) * (2 * ?q + 2)" using IH(2) by auto
    show ?thesis using False low up by (subst (1 2 3 4) isqrt.simps) (simp add: Let_def)
  qed
qed

text \<open>
  The root of \<open>m * 2^e\<close> from the root of \<open>m * 2^(e - 2 k)\<close>, with at least two bits more than a
  double has, and one more that says whether the root is inexact; then one rounding is right.
\<close>

definition fp_sqrt :: "fp \<Rightarrow> fp" where
  "fp_sqrt x =
     (case x of
        Fin s m e \<Rightarrow>
          if m = 0 then x
          else if s then NaN
          else let e' = (if even e then e else e - 1) - 128;
                   n = m * 2 ^ nat (e - e');
                   r = isqrt n
               in Fin False (2 * r + (if r * r = n then 0 else 1)) (e' div 2 - 1)
      | Inf s \<Rightarrow> if s then NaN else x
      | NaN \<Rightarrow> NaN)"

definition f64_sqrt :: "u64 \<Rightarrow> u64" where
  "f64_sqrt a = fp_pack (fp_sqrt (fp_decode a))"

section \<open>Comparisons and conversions\<close>

definition f64_le :: "u64 \<Rightarrow> u64 \<Rightarrow> bool" where
  "f64_le a b \<longleftrightarrow> f64_less a b \<or> f64_eq a b"

text \<open>A NaN counts as missing; which zero comes out of two is left open by C.\<close>

definition f64_fmin :: "u64 \<Rightarrow> u64 \<Rightarrow> u64" where
  "f64_fmin a b = (if f64_isnan a then b else if f64_isnan b then a else if f64_le a b then a else b)"

definition f64_fmax :: "u64 \<Rightarrow> u64 \<Rightarrow> u64" where
  "f64_fmax a b = (if f64_isnan a then b else if f64_isnan b then a else if f64_le b a then a else b)"

text \<open>\<open>(int)x\<close> and \<open>(int64_t)x\<close>, undefined out of range.\<close>

definition f64_to_i32 :: "u64 \<Rightarrow> int option" where
  "f64_to_i32 a =
     do { i \<leftarrow> f64_trunc a; if - (2 ^ 31) \<le> i \<and> i < 2 ^ 31 then Some i else None }"

definition f64_to_i64 :: "u64 \<Rightarrow> int option" where
  "f64_to_i64 a = do { i \<leftarrow> f64_trunc a; if in_i64 i then Some i else None }"

end
