(* ===== verification/Asserts.thy ===== *)
theory Asserts
  imports VM_Calls Number_Format Float64_Math
begin

text \<open>
  The argument checks of the native functions, \<^verbatim>\<open>src/asserts.c\<close>.  A check answers the error it
  raises, if any, or \<open>None\<close> for undefined behaviour; \<open>require_all\<close> runs checks in order and leaves
  the process with the first error, as \<open>runtimeError\<close> followed by \<open>exit\<close> does.
\<close>

type_synonym check = "NativeError option option"

definition raiseError :: "NativeError \<Rightarrow> VM \<Rightarrow> NativeResult option" where
  "raiseError e vm =
     do {
       trace \<leftarrow> stack_trace vm (vm_frames vm);
       Some (Exits EXIT_CODE_RUNTIME_ERR (E_native e) trace (resetStack vm))
     }"

fun require_all :: "check list \<Rightarrow> VM \<Rightarrow> NativeResult option \<Rightarrow> NativeResult option" where
  "require_all [] vm continue_with = continue_with"
| "require_all (c # cs) vm continue_with =
     (case c of
        None \<Rightarrow> None
      | Some (Some e) \<Rightarrow> raiseError e vm
      | Some None \<Rightarrow> require_all cs vm continue_with)"

text \<open>\<open>args[index]\<close>.\<close>

definition arg :: "VM \<Rightarrow> nat \<Rightarrow> nat \<Rightarrow> Value" where
  "arg vm args index = vm_stack vm (args + index)"

definition fails_if :: "bool \<Rightarrow> NativeError \<Rightarrow> check" where
  "fails_if failed e = Some (if failed then Some e else None)"

definition assertArgCount :: "string \<Rightarrow> nat \<Rightarrow> nat \<Rightarrow> check" where
  "assertArgCount fn expectedCount actualCount =
     fails_if (expectedCount \<noteq> actualCount) (N_arg_count fn expectedCount actualCount)"

definition IS_BOOL :: "Value \<Rightarrow> bool" where
  "IS_BOOL v = (case v of VAL_BOOL b \<Rightarrow> True | _ \<Rightarrow> False)"

definition IS_NUMBER :: "Value \<Rightarrow> bool" where
  "IS_NUMBER v = (case v of VAL_NUMBER k p \<Rightarrow> True | _ \<Rightarrow> False)"

definition assertArgIsBool :: "VM \<Rightarrow> string \<Rightarrow> nat \<Rightarrow> nat \<Rightarrow> check" where
  "assertArgIsBool vm fn args index =
     fails_if (\<not> IS_BOOL (arg vm args index)) (N_arg_type fn (index + 1) ''boolean value'')"

definition assert_obj_type :: "VM \<Rightarrow> string \<Rightarrow> nat \<Rightarrow> nat \<Rightarrow> ObjType \<Rightarrow> string \<Rightarrow> check" where
  "assert_obj_type vm fn args index type name =
     do {
       ok \<leftarrow> isObjType (vm_store vm) (arg vm args index) type;
       fails_if (\<not> ok) (N_arg_type fn (index + 1) name)
     }"

definition assertArgIsStruct :: "VM \<Rightarrow> string \<Rightarrow> nat \<Rightarrow> nat \<Rightarrow> check" where
  "assertArgIsStruct vm fn args index = assert_obj_type vm fn args index OBJ_STRUCT ''struct''"

definition assertArgIsList :: "VM \<Rightarrow> string \<Rightarrow> nat \<Rightarrow> nat \<Rightarrow> check" where
  "assertArgIsList vm fn args index = assert_obj_type vm fn args index OBJ_LIST ''list''"

definition assertArgIsArray :: "VM \<Rightarrow> string \<Rightarrow> nat \<Rightarrow> nat \<Rightarrow> check" where
  "assertArgIsArray vm fn args index = assert_obj_type vm fn args index OBJ_ARRAY ''array''"

definition assertArgIsString :: "VM \<Rightarrow> string \<Rightarrow> nat \<Rightarrow> nat \<Rightarrow> check" where
  "assertArgIsString vm fn args index = assert_obj_type vm fn args index OBJ_STRING ''string''"

definition assertArgIsInstance :: "VM \<Rightarrow> string \<Rightarrow> nat \<Rightarrow> nat \<Rightarrow> check" where
  "assertArgIsInstance vm fn args index = assert_obj_type vm fn args index OBJ_INSTANCE ''instance''"

definition assertArgIsNumber :: "VM \<Rightarrow> string \<Rightarrow> nat \<Rightarrow> nat \<Rightarrow> check" where
  "assertArgIsNumber vm fn args index =
     fails_if (\<not> IS_NUMBER (arg vm args index)) (N_arg_type fn (index + 1) ''number'')"

definition assertArgIsAnyNumber :: "VM \<Rightarrow> string \<Rightarrow> nat \<Rightarrow> nat \<Rightarrow> check" where
  "assertArgIsAnyNumber vm fn args index =
     fails_if (\<not> IS_NUMBER (arg vm args index)) (N_arg_type fn (index + 1) ''number'')"

text \<open>The position one past the last is inside the bounds.\<close>

definition assertIsInArrayBounds :: "nat \<Rightarrow> int \<Rightarrow> check" where
  "assertIsInArrayBounds count index =
     fails_if (index < 0 \<or> int count < index) (N_index_bounds ''array'' index count)"

definition assertIsInListBounds :: "nat \<Rightarrow> int \<Rightarrow> check" where
  "assertIsInListBounds count index =
     fails_if (index < 0 \<or> int count < index) (N_index_bounds ''list'' index count)"

definition assertNonZero :: "string \<Rightarrow> u64 \<Rightarrow> nat \<Rightarrow> check" where
  "assertNonZero fn number index = fails_if (f64_eq number 0) (N_zero fn index number)"

definition assertPositiveNumber :: "string \<Rightarrow> u64 \<Rightarrow> nat \<Rightarrow> check" where
  "assertPositiveNumber fn number argIndex = fails_if (f64_le number 0) (N_not_positive fn argIndex number)"

definition assertGtEq :: "string \<Rightarrow> u64 \<Rightarrow> u64 \<Rightarrow> nat \<Rightarrow> check" where
  "assertGtEq fn number bound argIndex =
     fails_if (\<not> f64_le bound number) (N_not_at_least fn (argIndex + 1) bound number)"

definition assertLtEq :: "string \<Rightarrow> u64 \<Rightarrow> u64 \<Rightarrow> nat \<Rightarrow> check" where
  "assertLtEq fn number bound argIndex =
     fails_if (\<not> f64_le number bound) (N_not_at_most fn (argIndex + 1) bound number)"

definition assertNonNegativeNumber :: "string \<Rightarrow> u64 \<Rightarrow> nat \<Rightarrow> check" where
  "assertNonNegativeNumber fn number index =
     fails_if (f64_less number 0) (N_negative fn (index + 1) number)"

definition assertWholeNumber :: "string \<Rightarrow> u64 \<Rightarrow> nat \<Rightarrow> check" where
  "assertWholeNumber fn number index =
     fails_if (\<not> f64_eq number (f64_floor number)) (N_not_whole fn (index + 1) number)"

section \<open>Reading arguments\<close>

text \<open>The casts of an argument that a check has passed.\<close>

definition arg_string :: "VM \<Rightarrow> nat \<Rightarrow> nat \<Rightarrow> ObjString option" where
  "arg_string vm args index =
     do { r \<leftarrow> value_ref (arg vm args index); as_string (vm_store vm) r }"

definition arg_list :: "VM \<Rightarrow> nat \<Rightarrow> nat \<Rightarrow> (obj_ref \<times> Value list) option" where
  "arg_list vm args index =
     do {
       r \<leftarrow> value_ref (arg vm args index);
       l \<leftarrow> as_list (vm_store vm) r;
       Some (r, li_values l)
     }"

definition arg_array :: "VM \<Rightarrow> nat \<Rightarrow> nat \<Rightarrow> Value list option" where
  "arg_array vm args index =
     do { r \<leftarrow> value_ref (arg vm args index); as_array (vm_store vm) r }"

text \<open>\<open>numberArg\<close> of \<^verbatim>\<open>src/native.c\<close>.\<close>

definition numberArg :: "Value \<Rightarrow> u64" where
  "numberArg v = (case v of VAL_NUMBER kind payload \<Rightarrow> numberToDouble kind payload | _ \<Rightarrow> 0)"

definition NUMBER_F64_VAL :: "u64 \<Rightarrow> Value" where
  "NUMBER_F64_VAL x = VAL_NUMBER NUMBER_KIND_F64 x"

definition NUMBER_I64_VAL :: "int \<Rightarrow> Value" where
  "NUMBER_I64_VAL i = VAL_NUMBER NUMBER_KIND_I64 (word_of_int i)"

definition NUMBER_U8_VAL :: "u8 \<Rightarrow> Value" where
  "NUMBER_U8_VAL b = VAL_NUMBER NUMBER_KIND_U8 (ucast b)"

text \<open>A native's answer from an object it made.\<close>

definition returns_object :: "(obj_ref \<times> VM) option \<Rightarrow> NativeResult option" where
  "returns_object made = do { (r, vm) \<leftarrow> made; Some (Returns (VAL_OBJ r) vm) }"

type_synonym native = "VM \<Rightarrow> nat \<Rightarrow> nat \<Rightarrow> NativeResult option"

end
