(* ===== verification/Native_Data.thy ===== *)
theory Native_Data
  imports Asserts
begin

text \<open>
  The natives of \<^verbatim>\<open>src/native.c\<close> on lists, arrays and the types of values.  A native takes the
  machine, the number of its arguments and the stack position of the first; the arguments stay on
  the stack while it runs.
\<close>

section \<open>Types\<close>

fun valueTypeToString :: "VM \<Rightarrow> Value \<Rightarrow> string option" where
  "valueTypeToString vm (VAL_BOOL b) = Some ''bool''"
| "valueTypeToString vm VAL_NIL = Some ''nil''"
| "valueTypeToString vm (VAL_NUMBER kind payload) = Some (ki_name (numberKindInfo kind))"
| "valueTypeToString vm (VAL_OBJ r) =
     map_option (\<lambda>obj. objectTypeToString (obj_type obj)) (vm_store vm r)"

definition typeofNative :: native where
  "typeofNative vm argCount args =
     require_all [assertArgCount ''@typeof'' 1 argCount] vm
       (do {
          type \<leftarrow> valueTypeToString vm (arg vm args 0);
          returns_object (takeString (ascii type) vm)
        })"

text \<open>\<open>strcmp(type, buffer) == 0\<close>.\<close>

definition isHelper :: "VM \<Rightarrow> Value \<Rightarrow> bytes \<Rightarrow> bool option" where
  "isHelper vm value type =
     do { name \<leftarrow> valueTypeToString vm value; Some (c_string type = ascii name) }"

definition returns_bool :: "VM \<Rightarrow> bool option \<Rightarrow> NativeResult option" where
  "returns_bool vm answer = do { b \<leftarrow> answer; Some (Returns (VAL_BOOL b) vm) }"

definition isNative :: native where
  "isNative vm argCount args =
     require_all [assertArgCount ''@is'' 2 argCount, assertArgIsString vm ''@is'' args 1] vm
       (do {
          type \<leftarrow> arg_string vm args 1;
          returns_bool vm (isHelper vm (arg vm args 0) (str_chars type))
        })"

definition isNumberNative :: native where
  "isNumberNative vm argCount args =
     require_all [assertArgCount ''@isNumber'' 1 argCount] vm
       (returns_bool vm (Some (IS_NUMBER (arg vm args 0))))"

definition isFunctionNative :: native where
  "isFunctionNative vm argCount args =
     require_all [assertArgCount ''@isFunction'' 1 argCount] vm
       (returns_bool vm (isHelper vm (arg vm args 0) (ascii ''function'')))"

definition isBoolNative :: native where
  "isBoolNative vm argCount args =
     require_all [assertArgCount ''@isBool'' 1 argCount] vm
       (returns_bool vm (isHelper vm (arg vm args 0) (ascii ''bool'')))"

definition isStringNative :: native where
  "isStringNative vm argCount args =
     require_all [assertArgCount ''@isString'' 1 argCount] vm
       (returns_bool vm (isHelper vm (arg vm args 0) (ascii ''string'')))"

definition isNilNative :: native where
  "isNilNative vm argCount args =
     require_all [assertArgCount ''@isNil'' 1 argCount] vm
       (returns_bool vm (isHelper vm (arg vm args 0) (ascii ''nil'')))"

definition instanceOfNative :: native where
  "instanceOfNative vm argCount args =
     require_all [assertArgCount ''@instanceOf'' 2 argCount, assertArgIsStruct vm ''@instanceOf'' args 1] vm
       (do {
          isInstance \<leftarrow> isObjType (vm_store vm) (arg vm args 0) OBJ_INSTANCE;
          (if \<not> isInstance then Some (Returns (VAL_BOOL False) vm)
           else do {
             r \<leftarrow> value_ref (arg vm args 0);
             inst \<leftarrow> as_instance (vm_store vm) r;
             struct2 \<leftarrow> value_ref (arg vm args 1);
             Some (Returns (VAL_BOOL (in_struct inst = struct2)) vm)
           })
        })"

section \<open>Lists\<close>

definition listLenNative :: native where
  "listLenNative vm argCount args =
     require_all [assertArgCount ''@listLen'' 1 argCount, assertArgIsList vm ''@listLen'' args 0] vm
       (do {
          (_, values) \<leftarrow> arg_list vm args 0;
          Some (Returns (NUMBER_I64_VAL (int (length values))) vm)
        })"

definition listIsEmptyNative :: native where
  "listIsEmptyNative vm argCount args =
     require_all [assertArgCount ''@listIsEmpty'' 1 argCount, assertArgIsList vm ''@listIsEmpty'' args 0] vm
       (do {
          (_, values) \<leftarrow> arg_list vm args 0;
          Some (Returns (VAL_BOOL (length values = 0)) vm)
        })"

definition listPushNative :: native where
  "listPushNative vm argCount args =
     require_all [assertArgCount ''@listPush'' 2 argCount, assertArgIsList vm ''@listPush'' args 0] vm
       (do {
          (list, _) \<leftarrow> arg_list vm args 0;
          vm \<leftarrow> writeValueToListObj list (arg vm args 1) vm;
          Some (Returns VAL_NIL vm)
        })"

text \<open>\<open>list->values\<close> and \<open>list->count\<close> after a change in place.\<close>

definition set_list :: "obj_ref \<Rightarrow> Value list \<Rightarrow> VM \<Rightarrow> VM option" where
  "set_list list values vm =
     do { l \<leftarrow> as_list (vm_store vm) list; Some (put_obj list (OList (l\<lparr>li_values := values\<rparr>)) vm) }"

definition listPopNative :: native where
  "listPopNative vm argCount args =
     require_all [assertArgCount ''@listPop'' 1 argCount, assertArgIsList vm ''@listPop'' args 0] vm
       (do {
          (list, values) \<leftarrow> arg_list vm args 0;
          (if length values = 0 then raiseError N_empty_list vm
           else do {
             vm \<leftarrow> set_list list (take (length values - 1) values) vm;
             Some (Returns (values ! (length values - 1)) vm)
           })
        })"

text \<open>The loops that move the values after \<open>index\<close> up by one, from the end, or down by one.\<close>

fun shift_up :: "Value list \<Rightarrow> nat \<Rightarrow> nat \<Rightarrow> Value list" where
  "shift_up values index 0 = values"
| "shift_up values index (Suc i) =
     (if index < Suc i then shift_up (values[Suc i := values ! i]) index i else values)"

function shift_down :: "Value list \<Rightarrow> nat \<Rightarrow> Value list" where
  "shift_down values i =
     (if i + 1 < length values then shift_down (values[i := values ! (i + 1)]) (i + 1) else values)"
  by pat_completeness auto
termination by (relation "measure (\<lambda>(values, i). length values - i)") auto

declare shift_down.simps [simp del]

definition listInsertNative :: native where
  "listInsertNative vm argCount args =
     require_all [assertArgCount ''@listInsert'' 3 argCount, assertArgIsList vm ''@listInsert'' args 0,
       assertArgIsNumber vm ''@listInsert'' args 1,
       assertWholeNumber ''@listInsert'' (numberArg (arg vm args 1)) 1] vm
       (do {
          (list, values) \<leftarrow> arg_list vm args 0;
          index \<leftarrow> f64_to_i32 (numberArg (arg vm args 1));
          let value = arg vm args 2;
          require_all [assertIsInListBounds (length values) index] vm
            (do {
               vm \<leftarrow> writeValueToListObj list VAL_NIL vm;
               l \<leftarrow> as_list (vm_store vm) list;
               let moved = shift_up (li_values l) (nat index) (length (li_values l) - 1);
               vm \<leftarrow> set_list list (moved[nat index := value]) vm;
               Some (Returns VAL_NIL vm)
             })
        })"

definition listRemoveNative :: native where
  "listRemoveNative vm argCount args =
     require_all [assertArgCount ''@listRemove'' 2 argCount, assertArgIsList vm ''@listRemove'' args 0,
       assertArgIsNumber vm ''@listRemove'' args 1,
       assertWholeNumber ''@listRemove'' (numberArg (arg vm args 1)) 1] vm
       (do {
          (list, values) \<leftarrow> arg_list vm args 0;
          index \<leftarrow> f64_to_i32 (numberArg (arg vm args 1));
          require_all [assertIsInListBounds (length values) index] vm
            (if index = int (length values)
             then raiseError (N_index_bounds ''list'' index (length values)) vm
             else do {
               vm \<leftarrow> set_list list (take (length values - 1) (shift_down values (nat index))) vm;
               Some (Returns (values ! nat index) vm)
             })
        })"

definition listClearNative :: native where
  "listClearNative vm argCount args =
     require_all [assertArgCount ''@listClear'' 1 argCount, assertArgIsList vm ''@listClear'' args 0] vm
       (do {
          (list, _) \<leftarrow> arg_list vm args 0;
          vm \<leftarrow> set_list list [] vm;
          Some (Returns VAL_NIL vm)
        })"

fun contains_loop :: "Value list \<Rightarrow> Value \<Rightarrow> bool" where
  "contains_loop [] value = False"
| "contains_loop (v # vs) value = (if valuesEqual v value then True else contains_loop vs value)"

definition listContainsNative :: native where
  "listContainsNative vm argCount args =
     require_all [assertArgCount ''@listContains'' 2 argCount, assertArgIsList vm ''@listContains'' args 0] vm
       (do {
          (_, values) \<leftarrow> arg_list vm args 0;
          Some (Returns (VAL_BOOL (contains_loop values (arg vm args 1))) vm)
        })"

fun equal_loop :: "Value list \<Rightarrow> Value list \<Rightarrow> bool" where
  "equal_loop (a # as) (b # bs) = (if \<not> valuesEqual a b then False else equal_loop as bs)"
| "equal_loop _ _ = True"

definition equal_values :: "Value list \<Rightarrow> Value list \<Rightarrow> bool" where
  "equal_values a b = (if length a \<noteq> length b then False else equal_loop a b)"

definition listEqualNative :: native where
  "listEqualNative vm argCount args =
     require_all [assertArgCount ''@listEqual'' 2 argCount, assertArgIsList vm ''@listEqual'' args 0,
       assertArgIsList vm ''@listEqual'' args 1] vm
       (do {
          (_, a) \<leftarrow> arg_list vm args 0;
          (_, b) \<leftarrow> arg_list vm args 1;
          Some (Returns (VAL_BOOL (equal_values a b)) vm)
        })"

section \<open>Making lists\<close>

text \<open>The loop that writes values to a new list one after the other.\<close>

fun write_all :: "obj_ref \<Rightarrow> Value list \<Rightarrow> VM \<Rightarrow> VM option" where
  "write_all list [] vm = Some vm"
| "write_all list (v # vs) vm = do { vm \<leftarrow> writeValueToListObj list v vm; write_all list vs vm }"

text \<open>
  A new list is pushed while it is filled, for the collector, and popped.  The values come from
  objects among the arguments, which filling the list does not change.
\<close>

definition new_list_of :: "Value list \<Rightarrow> VM \<Rightarrow> (obj_ref \<times> VM) option" where
  "new_list_of values vm =
     do {
       (list, vm) \<leftarrow> newList vm;
       vm \<leftarrow> pushOnStack (VAL_OBJ list) vm;
       vm \<leftarrow> write_all list values vm;
       (_, vm) \<leftarrow> popFromStack vm;
       Some (list, vm)
     }"

definition listCopyNative :: native where
  "listCopyNative vm argCount args =
     require_all [assertArgCount ''@listCopy'' 1 argCount, assertArgIsList vm ''@listCopy'' args 0] vm
       (do { (_, values) \<leftarrow> arg_list vm args 0; returns_object (new_list_of values vm) })"

definition listConcatNative :: native where
  "listConcatNative vm argCount args =
     require_all [assertArgCount ''@listConcat'' 2 argCount, assertArgIsList vm ''@listConcat'' args 0,
       assertArgIsList vm ''@listConcat'' args 1] vm
       (do {
          (_, a) \<leftarrow> arg_list vm args 0;
          (_, b) \<leftarrow> arg_list vm args 1;
          returns_object (new_list_of (a @ b) vm)
        })"

definition listReverseNative :: native where
  "listReverseNative vm argCount args =
     require_all [assertArgCount ''@listReverse'' 1 argCount, assertArgIsList vm ''@listReverse'' args 0] vm
       (do { (_, values) \<leftarrow> arg_list vm args 0; returns_object (new_list_of (rev values) vm) })"

text \<open>
  \<open>@listSlice\<close> and \<open>@arrSlice\<close> differ in the kind of their first argument only.  The bounds are
  converted to \<open>int\<close> when they are checked, and \<open>start\<close> again for the loop.
\<close>

definition slice_values ::
    "string \<Rightarrow> (nat \<Rightarrow> int \<Rightarrow> check) \<Rightarrow> Value list \<Rightarrow> VM \<Rightarrow> nat \<Rightarrow> NativeResult option" where
  "slice_values fn inBounds values vm args =
     (let start = numberArg (arg vm args 1); finish = numberArg (arg vm args 2); n = length values
      in require_all
           [assertPositiveNumber fn start 1, assertWholeNumber fn start 1,
            do { i \<leftarrow> f64_to_i32 start; inBounds n i },
            assertPositiveNumber fn finish 2, assertWholeNumber fn finish 2,
            do { i \<leftarrow> f64_to_i32 finish; inBounds n i }] vm
           (if f64_le finish start then raiseError (N_slice_order fn) vm
            else do {
              first \<leftarrow> f64_to_i32 start;
              upto \<leftarrow> f64_to_i32 finish;
              returns_object (new_list_of (map (\<lambda>i. values ! i) [nat first..<nat upto]) vm)
            }))"

definition listSliceNative :: native where
  "listSliceNative vm argCount args =
     require_all [assertArgCount ''@listSlice'' 3 argCount, assertArgIsList vm ''@listSlice'' args 0,
       assertArgIsNumber vm ''@listSlice'' args 1, assertArgIsNumber vm ''@listSlice'' args 2] vm
       (do {
          (_, values) \<leftarrow> arg_list vm args 0;
          slice_values ''@listSlice'' assertIsInListBounds values vm args
        })"

section \<open>Arrays\<close>

definition arrLenNative :: native where
  "arrLenNative vm argCount args =
     require_all [assertArgCount ''@arrLen'' 1 argCount, assertArgIsArray vm ''@arrLen'' args 0] vm
       (do { a \<leftarrow> arg_array vm args 0; Some (Returns (NUMBER_I64_VAL (int (length a))) vm) })"

definition arrContainsNative :: native where
  "arrContainsNative vm argCount args =
     require_all [assertArgCount ''@arrContains'' 2 argCount, assertArgIsArray vm ''@arrContains'' args 0] vm
       (do {
          a \<leftarrow> arg_array vm args 0;
          Some (Returns (VAL_BOOL (contains_loop a (arg vm args 1))) vm)
        })"

definition arrEqualNative :: native where
  "arrEqualNative vm argCount args =
     require_all [assertArgCount ''@arrEqual'' 2 argCount, assertArgIsArray vm ''@arrEqual'' args 0,
       assertArgIsArray vm ''@arrEqual'' args 1] vm
       (do {
          a \<leftarrow> arg_array vm args 0;
          b \<leftarrow> arg_array vm args 1;
          Some (Returns (VAL_BOOL (equal_values a b)) vm)
        })"

text \<open>A new array whose elements are assigned after it is allocated.\<close>

definition new_array_of :: "Value list \<Rightarrow> VM \<Rightarrow> (obj_ref \<times> VM) option" where
  "new_array_of values vm =
     do {
       (r, vm) \<leftarrow> newArray (length values) vm;
       Some (r, put_obj r (OArray values) vm)
     }"

definition arrCopyNative :: native where
  "arrCopyNative vm argCount args =
     require_all [assertArgCount ''@arrCopy'' 1 argCount, assertArgIsArray vm ''@arrCopy'' args 0] vm
       (do { a \<leftarrow> arg_array vm args 0; returns_object (new_array_of a vm) })"

definition arrReverseNative :: native where
  "arrReverseNative vm argCount args =
     require_all [assertArgCount ''@arrReverse'' 1 argCount, assertArgIsArray vm ''@arrReverse'' args 0] vm
       (do {
          a \<leftarrow> arg_array vm args 0;
          returns_object (new_array_of (map (\<lambda>i. a ! (length a - 1 - i)) [0..<length a]) vm)
        })"

definition arrSliceNative :: native where
  "arrSliceNative vm argCount args =
     require_all [assertArgCount ''@arrSlice'' 3 argCount, assertArgIsArray vm ''@arrSlice'' args 0,
       assertArgIsNumber vm ''@arrSlice'' args 1, assertArgIsNumber vm ''@arrSlice'' args 2] vm
       (do {
          a \<leftarrow> arg_array vm args 0;
          slice_values ''@arrSlice'' assertIsInArrayBounds a vm args
        })"

definition arrConcatNative :: native where
  "arrConcatNative vm argCount args =
     require_all [assertArgCount ''@arrConcat'' 2 argCount, assertArgIsArray vm ''@arrConcat'' args 0,
       assertArgIsArray vm ''@arrConcat'' args 1] vm
       (do {
          a \<leftarrow> arg_array vm args 0;
          b \<leftarrow> arg_array vm args 1;
          returns_object (new_list_of (a @ b) vm)
        })"

definition arrToListNative :: native where
  "arrToListNative vm argCount args =
     require_all [assertArgCount ''@arrToList'' 1 argCount, assertArgIsArray vm ''@arrToList'' args 0] vm
       (do { a \<leftarrow> arg_array vm args 0; returns_object (new_list_of a vm) })"

end
