(* ===== verification/Native_Text.thy ===== *)
theory Native_Text
  imports Native_Data
begin

text \<open>
  The natives of \<^verbatim>\<open>src/native.c\<close> on strings and on numbers as text.  Lengths are \<open>int\<close>; the sum of
  two of them is taken to fit one, except where the source checks it or where the model says
  otherwise.
\<close>

definition INT_MAX :: nat where
  "INT_MAX = 2147483647"

section \<open>Searching\<close>

text \<open>The offset of the first match at or after \<open>start\<close>; \<open>None\<close> is the answer \<open>-1\<close>.\<close>

function findBytes :: "bytes \<Rightarrow> nat \<Rightarrow> bytes \<Rightarrow> nat option" where
  "findBytes haystack i needle =
     (if i + length needle \<le> length haystack
      then if take (length needle) (drop i haystack) = needle then Some i
           else findBytes haystack (i + 1) needle
      else None)"
  by pat_completeness auto
termination by (relation "measure (\<lambda>(h, i, n). Suc (length h) - i)") auto

declare findBytes.simps [simp del]

lemma findBytes_Some:
  "findBytes h i n = Some j \<Longrightarrow> i \<le> j \<and> j + length n \<le> length h \<and> take (length n) (drop j h) = n"
  by (induction h i n rule: findBytes.induct) (subst (asm) (2) findBytes.simps, auto split: if_splits)

section \<open>Natives that only read\<close>

definition strLenNative :: native where
  "strLenNative vm argCount args =
     require_all [assertArgCount ''@strLen'' 1 argCount, assertArgIsString vm ''@strLen'' args 0] vm
       (do {
          string \<leftarrow> arg_string vm args 0;
          Some (Returns (NUMBER_I64_VAL (int (length (str_chars string)))) vm)
        })"

definition strIsEmptyNative :: native where
  "strIsEmptyNative vm argCount args =
     require_all [assertArgCount ''@strIsEmpty'' 1 argCount, assertArgIsString vm ''@strIsEmpty'' args 0] vm
       (do {
          string \<leftarrow> arg_string vm args 0;
          Some (Returns (VAL_BOOL (length (str_chars string) = 0)) vm)
        })"

text \<open>The two string arguments most of the natives here start from.\<close>

definition two_strings :: "string \<Rightarrow> VM \<Rightarrow> nat \<Rightarrow> nat \<Rightarrow> (bytes \<Rightarrow> bytes \<Rightarrow> NativeResult option) \<Rightarrow>
    NativeResult option" where
  "two_strings fn vm argCount args body =
     require_all [assertArgCount fn 2 argCount, assertArgIsString vm fn args 0,
       assertArgIsString vm fn args 1] vm
       (do {
          a \<leftarrow> arg_string vm args 0;
          b \<leftarrow> arg_string vm args 1;
          body (str_chars a) (str_chars b)
        })"

definition strContainsNative :: native where
  "strContainsNative vm argCount args =
     two_strings ''@strContains'' vm argCount args
       (\<lambda>string sub. Some (Returns (VAL_BOOL (findBytes string 0 sub \<noteq> None)) vm))"

definition strStartsWithNative :: native where
  "strStartsWithNative vm argCount args =
     two_strings ''@strStartsWith'' vm argCount args
       (\<lambda>string prefix. Some (Returns (VAL_BOOL
          (length prefix \<le> length string \<and> take (length prefix) string = prefix)) vm))"

definition strEndsWithNative :: native where
  "strEndsWithNative vm argCount args =
     two_strings ''@strEndsWith'' vm argCount args
       (\<lambda>string suffix. Some (Returns (VAL_BOOL
          (length suffix \<le> length string \<and> drop (length string - length suffix) string = suffix)) vm))"

definition strIndexOfNative :: native where
  "strIndexOfNative vm argCount args =
     two_strings ''@strIndexOf'' vm argCount args
       (\<lambda>string sub. Some (Returns (NUMBER_I64_VAL
          (case findBytes string 0 sub of None \<Rightarrow> - 1 | Some i \<Rightarrow> int i)) vm))"

section \<open>Natives that make strings\<close>

definition isTrimmedChar :: "u8 \<Rightarrow> bool" where
  "isTrimmedChar c \<longleftrightarrow> c = 32 \<or> c = 9 \<or> c = 10 \<or> c = 13"

text \<open>The loops move \<open>start\<close> up, then \<open>end\<close> down to no less than \<open>start\<close>.\<close>

definition trim_bytes :: "bytes \<Rightarrow> bytes" where
  "trim_bytes cs = rev (dropWhile isTrimmedChar (rev (dropWhile isTrimmedChar cs)))"

definition strTrimNative :: native where
  "strTrimNative vm argCount args =
     require_all [assertArgCount ''@strTrim'' 1 argCount, assertArgIsString vm ''@strTrim'' args 0] vm
       (do {
          string \<leftarrow> arg_string vm args 0;
          returns_object (copyString (trim_bytes (str_chars string)) vm)
        })"

definition ascii_case :: "bool \<Rightarrow> u8 \<Rightarrow> u8" where
  "ascii_case toUpper c =
     (if toUpper \<and> 97 \<le> c \<and> c \<le> 122 then c - 97 + 65
      else if \<not> toUpper \<and> 65 \<le> c \<and> c \<le> 90 then c - 65 + 97
      else c)"

definition changeAsciiCase :: "ObjString \<Rightarrow> bool \<Rightarrow> VM \<Rightarrow> NativeResult option" where
  "changeAsciiCase string toUpper vm =
     do {
       vm \<leftarrow> reallocate 0 (length (str_chars string) + 1) vm;
       returns_object (takeString (map (ascii_case toUpper) (str_chars string)) vm)
     }"

definition strToUpperNative :: native where
  "strToUpperNative vm argCount args =
     require_all [assertArgCount ''@strToUpper'' 1 argCount, assertArgIsString vm ''@strToUpper'' args 0] vm
       (do { string \<leftarrow> arg_string vm args 0; changeAsciiCase string True vm })"

definition strToLowerNative :: native where
  "strToLowerNative vm argCount args =
     require_all [assertArgCount ''@strToLower'' 1 argCount, assertArgIsString vm ''@strToLower'' args 0] vm
       (do { string \<leftarrow> arg_string vm args 0; changeAsciiCase string False vm })"

text \<open>
  \<open>count\<close> copies, once the check has passed; the product is an \<open>int\<close>, so it is undefined when it
  does not fit.
\<close>

definition repeat_bytes :: "bytes \<Rightarrow> u64 \<Rightarrow> (nat \<times> bytes) option" where
  "repeat_bytes chars number =
     do {
       count \<leftarrow> f64_to_i32 number;
       (if 0 \<le> count \<and> int (length chars) * count + 1 \<le> int INT_MAX
        then Some (length chars * nat count, concat (replicate (nat count) chars))
        else None)
     }"

definition repeat_too_large :: "bytes \<Rightarrow> u64 \<Rightarrow> bool" where
  "repeat_too_large chars number \<longleftrightarrow>
     \<not> f64_le number (f64_div (f64_of_int (int INT_MAX - 1)) (f64_of_int (int (length chars))))"

definition strRepeatNative :: native where
  "strRepeatNative vm argCount args =
     (let number = numberArg (arg vm args 1)
      in require_all [assertArgCount ''@strRepeat'' 2 argCount, assertArgIsString vm ''@strRepeat'' args 0,
           assertArgIsNumber vm ''@strRepeat'' args 1,
           assertNonNegativeNumber ''@strRepeat'' number 1, assertWholeNumber ''@strRepeat'' number 1] vm
           (do {
              string \<leftarrow> arg_string vm args 0;
              (if length (str_chars string) = 0 \<or> f64_less number (f64_of_int 1)
               then returns_object (copyString [] vm)
               else if repeat_too_large (str_chars string) number
               then raiseError (N_too_large ''@strRepeat'') vm
               else do {
                 (len, chars) \<leftarrow> repeat_bytes (str_chars string) number;
                 vm \<leftarrow> reallocate 0 (len + 1) vm;
                 returns_object (takeString chars vm)
               })
            }))"

text \<open>A whole position in the string, up to and including its length.\<close>

definition assertStringPosition :: "string \<Rightarrow> nat \<Rightarrow> u64 \<Rightarrow> nat \<Rightarrow> check list" where
  "assertStringPosition fn len number index =
     [assertWholeNumber fn number index,
      fails_if (\<not> (f64_le 0 number \<and> f64_le number (f64_of_int (int len)))) (N_position fn (index + 1) len number)]"

definition strSliceNative :: native where
  "strSliceNative vm argCount args =
     require_all [assertArgCount ''@strSlice'' 3 argCount, assertArgIsString vm ''@strSlice'' args 0,
       assertArgIsNumber vm ''@strSlice'' args 1, assertArgIsNumber vm ''@strSlice'' args 2] vm
       (do {
          string \<leftarrow> arg_string vm args 0;
          let chars = str_chars string;
          let a = numberArg (arg vm args 1);
          let b = numberArg (arg vm args 2);
          require_all (assertStringPosition ''@strSlice'' (length chars) a 1 @
              assertStringPosition ''@strSlice'' (length chars) b 2) vm
            (do {
               start \<leftarrow> f64_to_i32 a;
               finish \<leftarrow> f64_to_i32 b;
               (if finish < start then raiseError (N_slice_order ''@strSlice'') vm
                else returns_object
                  (copyString (take (nat (finish - start)) (drop (nat start) chars)) vm))
             })
        })"

section \<open>Splitting and joining\<close>

definition appendStringCopy :: "obj_ref \<Rightarrow> bytes \<Rightarrow> VM \<Rightarrow> VM option" where
  "appendStringCopy list chars vm =
     do {
       (piece, vm) \<leftarrow> copyString chars vm;
       vm \<leftarrow> pushOnStack (VAL_OBJ piece) vm;
       vm \<leftarrow> writeValueToListObj list (VAL_OBJ piece) vm;
       (_, vm) \<leftarrow> popFromStack vm;
       Some vm
     }"

fun append_pieces :: "obj_ref \<Rightarrow> bytes list \<Rightarrow> VM \<Rightarrow> VM option" where
  "append_pieces list [] vm = Some vm"
| "append_pieces list (p # ps) vm = do { vm \<leftarrow> appendStringCopy list p vm; append_pieces list ps vm }"

text \<open>The pieces between the matches, found left to right.\<close>

function split_pieces :: "bytes \<Rightarrow> bytes \<Rightarrow> nat \<Rightarrow> bytes list" where
  "split_pieces string separator start =
     (if separator = [] then []
      else case findBytes string start separator of
             None \<Rightarrow> [drop start string]
           | Some found \<Rightarrow>
               take (found - start) (drop start string) #
               split_pieces string separator (found + length separator))"
  by pat_completeness auto
termination
  by (relation "measure (\<lambda>(string, separator, start). Suc (length string) - start)")
    (auto dest!: findBytes_Some simp: Suc_diff_le simp flip: length_greater_0_conv intro!: diff_less_mono2)

declare split_pieces.simps [simp del]

definition pieces_of :: "bytes \<Rightarrow> bytes \<Rightarrow> bytes list" where
  "pieces_of string separator =
     (if length separator = 0 then map (\<lambda>c. [c]) string else split_pieces string separator 0)"

definition strSplitNative :: native where
  "strSplitNative vm argCount args =
     two_strings ''@strSplit'' vm argCount args
       (\<lambda>string separator.
          returns_object (do {
            (result, vm) \<leftarrow> newList vm;
            vm \<leftarrow> pushOnStack (VAL_OBJ result) vm;
            vm \<leftarrow> append_pieces result (pieces_of string separator) vm;
            (_, vm) \<leftarrow> popFromStack vm;
            Some (result, vm)
          }))"

definition strToBytesNative :: native where
  "strToBytesNative vm argCount args =
     require_all [assertArgCount ''@strToBytes'' 1 argCount, assertArgIsString vm ''@strToBytes'' args 0] vm
       (do {
          string \<leftarrow> arg_string vm args 0;
          returns_object (new_list_of (map NUMBER_U8_VAL (str_chars string)) vm)
        })"

text \<open>
  The measuring loop of \<open>joinStrings\<close>: the strings, or the first element that is not one.  The sum
  of the lengths is an \<open>int\<close>.
\<close>

datatype JoinCheck = Join_strings "bytes list" | Join_type nat string

fun join_check :: "VM \<Rightarrow> Value list \<Rightarrow> nat \<Rightarrow> JoinCheck option" where
  "join_check vm [] i = Some (Join_strings [])"
| "join_check vm (v # vs) i =
     do {
       isString \<leftarrow> isObjType (vm_store vm) v OBJ_STRING;
       (if \<not> isString then do { type \<leftarrow> valueTypeToString vm v; Some (Join_type i type) }
        else do {
          r \<leftarrow> value_ref v;
          s \<leftarrow> as_string (vm_store vm) r;
          rest \<leftarrow> join_check vm vs (i + 1);
          (case rest of
             Join_strings strings \<Rightarrow>
               if length (str_chars s) + sum_list (map length strings) \<le> INT_MAX
               then Some (Join_strings (str_chars s # strings)) else None
           | Join_type j type \<Rightarrow> Some rest)
        })
     }"

fun join_bytes :: "bytes \<Rightarrow> bytes list \<Rightarrow> bytes" where
  "join_bytes separator [] = []"
| "join_bytes separator [s] = s"
| "join_bytes separator (s # ss) = s @ separator @ join_bytes separator ss"

definition joinStrings :: "string \<Rightarrow> Value list \<Rightarrow> bytes \<Rightarrow> VM \<Rightarrow> NativeResult option" where
  "joinStrings name values separator vm =
     do {
       checked \<leftarrow> join_check vm values 0;
       (case checked of
          Join_type i type \<Rightarrow> raiseError (N_element_type name i type) vm
        | Join_strings strings \<Rightarrow>
            let chars = join_bytes separator strings
            in if length chars + 1 \<le> INT_MAX
               then do {
                 vm \<leftarrow> reallocate 0 (length chars + 1) vm;
                 returns_object (takeString chars vm)
               }
               else None)
     }"

definition listJoinNative :: native where
  "listJoinNative vm argCount args =
     require_all [assertArgCount ''@listJoin'' 2 argCount, assertArgIsList vm ''@listJoin'' args 0,
       assertArgIsString vm ''@listJoin'' args 1] vm
       (do {
          separator \<leftarrow> arg_string vm args 1;
          (_, values) \<leftarrow> arg_list vm args 0;
          joinStrings ''@listJoin'' values (str_chars separator) vm
        })"

definition strConcatNative :: native where
  "strConcatNative vm argCount args =
     require_all [assertArgCount ''@strConcat'' 1 argCount, assertArgIsList vm ''@strConcat'' args 0] vm
       (do { (_, values) \<leftarrow> arg_list vm args 0; joinStrings ''@strConcat'' values [] vm })"

definition arrJoinNative :: native where
  "arrJoinNative vm argCount args =
     require_all [assertArgCount ''@arrJoin'' 2 argCount, assertArgIsArray vm ''@arrJoin'' args 0,
       assertArgIsString vm ''@arrJoin'' args 1] vm
       (do {
          separator \<leftarrow> arg_string vm args 1;
          values \<leftarrow> arg_array vm args 0;
          joinStrings ''@arrJoin'' values (str_chars separator) vm
        })"

section \<open>Replacing\<close>

text \<open>The first loop counts the matches, of which there is at most one unless \<open>all\<close>.\<close>

function count_matches :: "bytes \<Rightarrow> bytes \<Rightarrow> bool \<Rightarrow> nat \<Rightarrow> nat" where
  "count_matches string old all start =
     (if old = [] then 0
      else case findBytes string start old of
             None \<Rightarrow> 0
           | Some found \<Rightarrow>
               if \<not> all then 1 else 1 + count_matches string old all (found + length old))"
  by pat_completeness auto
termination
  by (relation "measure (\<lambda>(string, old, all, start). Suc (length string) - start)")
    (auto dest!: findBytes_Some simp: Suc_diff_le simp flip: length_greater_0_conv intro!: diff_less_mono2)

declare count_matches.simps [simp del]

text \<open>The second copies what precedes each match and the replacement, then the rest.\<close>

fun replace_loop :: "bytes \<Rightarrow> bytes \<Rightarrow> bytes \<Rightarrow> nat \<Rightarrow> nat \<Rightarrow> bytes option" where
  "replace_loop string old replacement 0 start = Some (drop start string)"
| "replace_loop string old replacement (Suc matches) start =
     do {
       found \<leftarrow> findBytes string start old;
       rest \<leftarrow> replace_loop string old replacement matches (found + length old);
       Some (take (found - start) (drop start string) @ replacement @ rest)
     }"

definition replaceMatches :: "string \<Rightarrow> bool \<Rightarrow> native" where
  "replaceMatches fn all vm argCount args =
     require_all [assertArgCount fn 3 argCount, assertArgIsString vm fn args 0,
       assertArgIsString vm fn args 1, assertArgIsString vm fn args 2] vm
       (do {
          string_o \<leftarrow> arg_string vm args 0;
          old_o \<leftarrow> arg_string vm args 1;
          replacement_o \<leftarrow> arg_string vm args 2;
          let string = str_chars string_o;
          let old = str_chars old_o;
          let replacement = str_chars replacement_o;
          let matches = (if length old = 0 then 0 else count_matches string old all 0);
          let len = int (length string) + int matches * (int (length replacement) - int (length old));
          (if length old = 0 then Some (Returns (arg vm args 0) vm)
           else if matches = 0 then Some (Returns (arg vm args 0) vm)
           else if int INT_MAX \<le> len then raiseError (N_too_large fn) vm
           else do {
             vm \<leftarrow> reallocate 0 (nat len + 1) vm;
             chars \<leftarrow> replace_loop string old replacement matches 0;
             returns_object (takeString chars vm)
           })
        })"

definition strReplaceNative :: native where
  "strReplaceNative = replaceMatches ''@strReplace'' False"

definition strReplaceAllNative :: native where
  "strReplaceAllNative = replaceMatches ''@strReplaceAll'' True"

end
