(* ===== verification/Native_Numbers.thy ===== *)
theory Native_Numbers
  imports Native_Text
begin

text \<open>
  The natives of \<^verbatim>\<open>src/native.c\<close> on numbers: parsing, formatting and mathematics.  \<open>strtoll\<close> and
  \<open>strtod\<close> are called on texts that the grammar below accepts; a text that reaches them has no NUL
  and nothing after the number.
\<close>

section \<open>Numbers in a text\<close>

datatype NumberTextKind = NUMBER_TEXT_WHOLE | NUMBER_TEXT_DECIMAL

definition isdigit :: "u8 \<Rightarrow> bool" where
  "isdigit c \<longleftrightarrow> 48 \<le> c \<and> c \<le> 57"

text \<open>The pointer \<open>c\<close> is the rest of the text.\<close>

definition skipDigits :: "bytes \<Rightarrow> bytes option" where
  "skipDigits cs =
     (case cs of
        [] \<Rightarrow> None
      | c # _ \<Rightarrow> if isdigit c then Some (dropWhile isdigit cs) else None)"

definition skipSign :: "bytes \<Rightarrow> bytes" where
  "skipSign cs = (case cs of [] \<Rightarrow> [] | c # rest \<Rightarrow> if c = 43 \<or> c = 45 then rest else cs)"

definition skip_fraction :: "bytes \<Rightarrow> bytes option" where
  "skip_fraction cs =
     (case cs of [] \<Rightarrow> Some cs | c # rest \<Rightarrow> if c = 46 then skipDigits rest else Some cs)"

definition skip_exponent :: "bytes \<Rightarrow> bytes option" where
  "skip_exponent cs =
     (case cs of
        [] \<Rightarrow> Some cs
      | c # rest \<Rightarrow> if c = 101 \<or> c = 69 then skipDigits (skipSign rest) else Some cs)"

definition isNumberText :: "bytes \<Rightarrow> NumberTextKind \<Rightarrow> bool" where
  "isNumberText chars kind =
     (case skipDigits (skipSign chars) of
        None \<Rightarrow> False
      | Some cs \<Rightarrow>
          (case (if kind = NUMBER_TEXT_DECIMAL
                 then Option.bind (skip_fraction cs) skip_exponent else Some cs) of
             None \<Rightarrow> False
           | Some cs \<Rightarrow> cs = []))"

section \<open>Parsing\<close>

definition text_negative :: "bytes \<Rightarrow> bool" where
  "text_negative cs \<longleftrightarrow> cs \<noteq> [] \<and> hd cs = 45"

definition text_digits :: "bytes \<Rightarrow> nat list" where
  "text_digits cs = map (\<lambda>c. unat (c - 48)) (takeWhile isdigit cs)"

text \<open>\<open>strtoll\<close> in base ten; \<open>None\<close> is \<open>ERANGE\<close>.\<close>

definition strtoll :: "bytes \<Rightarrow> int option" where
  "strtoll cs =
     (let n = int (digits_value (text_digits (skipSign cs)));
          value = (if text_negative cs then - n else n)
      in if in_i64 value then Some value else None)"

text \<open>\<open>strtod\<close>: the double nearest to the number, ties to even.\<close>

definition text_exponent :: "bytes \<Rightarrow> int" where
  "text_exponent cs =
     (case cs of
        [] \<Rightarrow> 0
      | c # rest \<Rightarrow>
          if c = 101 \<or> c = 69
          then let n = int (digits_value (text_digits (skipSign rest)))
               in if text_negative rest then - n else n
          else 0)"

definition strtod :: "bytes \<Rightarrow> u64" where
  "strtod cs =
     (let unsigned = skipSign cs;
          whole = text_digits unsigned;
          rest = dropWhile isdigit unsigned;
          point = (rest \<noteq> [] \<and> hd rest = 46);
          fraction = (if point then text_digits (tl rest) else []);
          exponent = text_exponent (if point then dropWhile isdigit (tl rest) else rest);
          e = exponent - int (length fraction)
      in fp_pack (fp_round binary64 (text_negative cs)
           (digits_value (whole @ fraction) * 10 ^ nat e) (10 ^ nat (- e))))"

definition parseArgError :: "string \<Rightarrow> string \<Rightarrow> bytes \<Rightarrow> VM \<Rightarrow> NativeResult option" where
  "parseArgError fn expectation chars vm = raiseError (N_not_number_text fn expectation chars) vm"

definition parseIntNative :: native where
  "parseIntNative vm argCount args =
     require_all [assertArgCount ''@parseInt'' 1 argCount, assertArgIsString vm ''@parseInt'' args 0] vm
       (do {
          string \<leftarrow> arg_string vm args 0;
          let chars = str_chars string;
          (if \<not> isNumberText chars NUMBER_TEXT_WHOLE
           then parseArgError ''@parseInt'' ''a whole number'' chars vm
           else case strtoll chars of
                  None \<Rightarrow> parseArgError ''@parseInt''
                    ''a whole number from -9223372036854775808 to 9223372036854775807'' chars vm
                | Some value \<Rightarrow> Some (Returns (NUMBER_I64_VAL value) vm))
        })"

definition parseFloatNative :: native where
  "parseFloatNative vm argCount args =
     require_all [assertArgCount ''@parseFloat'' 1 argCount, assertArgIsString vm ''@parseFloat'' args 0] vm
       (do {
          string \<leftarrow> arg_string vm args 0;
          let chars = str_chars string;
          (if \<not> isNumberText chars NUMBER_TEXT_DECIMAL
           then parseArgError ''@parseFloat'' ''a number such as 1.5 or 2.5e-4'' chars vm
           else if f64_isinf (strtod chars)
           then parseArgError ''@parseFloat'' ''a number small enough for an f64'' chars vm
           else Some (Returns (NUMBER_F64_VAL (strtod chars)) vm))
        })"

definition numberToStringNative :: native where
  "numberToStringNative vm argCount args =
     require_all [assertArgCount ''@numberToString'' 1 argCount,
       assertArgIsAnyNumber vm ''@numberToString'' args 0] vm
       (case arg vm args 0 of
          VAL_NUMBER kind payload \<Rightarrow>
            returns_object (copyString (formatNumber kind payload NUMBER_STRING_MAX) vm)
        | _ \<Rightarrow> None)"

definition boolToStringNative :: native where
  "boolToStringNative vm argCount args =
     require_all [assertArgCount ''@boolToString'' 1 argCount, assertArgIsBool vm ''@boolToString'' args 0] vm
       (case arg vm args 0 of
          VAL_BOOL b \<Rightarrow> returns_object (copyString (ascii (if b then ''true'' else ''false'')) vm)
        | _ \<Rightarrow> None)"

section \<open>Mathematics\<close>

text \<open>The natives that apply one function to one number.\<close>

definition unary_native :: "string \<Rightarrow> (u64 \<Rightarrow> u64) \<Rightarrow> native" where
  "unary_native fn f vm argCount args =
     require_all [assertArgCount fn 1 argCount, assertArgIsNumber vm fn args 0] vm
       (Some (Returns (NUMBER_F64_VAL (f (numberArg (arg vm args 0)))) vm))"

definition ceilNative :: native where "ceilNative = unary_native ''@ceil'' f64_ceil"
definition floorNative :: native where "floorNative = unary_native ''@floor'' f64_floor"
definition roundNative :: native where "roundNative = unary_native ''@round'' f64_round"
definition truncNative :: native where "truncNative = unary_native ''@trunc'' f64_truncate"
definition absNative :: native where "absNative = unary_native ''@abs'' f64_fabs"

definition sqrtNative :: native where
  "sqrtNative vm argCount args =
     (let number = numberArg (arg vm args 0)
      in require_all [assertArgCount ''@sqrt'' 1 argCount, assertArgIsNumber vm ''@sqrt'' args 0,
           assertNonNegativeNumber ''@sqrt'' number 0] vm
           (Some (Returns (NUMBER_F64_VAL (f64_sqrt number)) vm)))"

definition powNative :: native where
  "powNative vm argCount args =
     (let base = numberArg (arg vm args 0); exponent = numberArg (arg vm args 1)
      in require_all [assertArgCount ''@pow'' 2 argCount, assertArgIsNumber vm ''@pow'' args 0,
           assertArgIsNumber vm ''@pow'' args 1] vm
           (if f64_eq base 0 \<and> f64_less exponent 0 then raiseError (N_zero_power exponent) vm
            else if f64_less base 0 \<and> \<not> f64_eq exponent (f64_floor exponent)
            then raiseError (N_fractional_power base exponent) vm
            else Some (Returns (NUMBER_F64_VAL (sys_pow (vm_system vm) base exponent)) vm)))"

definition binary_native :: "string \<Rightarrow> (u64 \<Rightarrow> u64 \<Rightarrow> u64) \<Rightarrow> native" where
  "binary_native fn f vm argCount args =
     require_all [assertArgCount fn 2 argCount, assertArgIsNumber vm fn args 0,
       assertArgIsNumber vm fn args 1] vm
       (Some (Returns (NUMBER_F64_VAL (f (numberArg (arg vm args 0)) (numberArg (arg vm args 1)))) vm))"

definition minNative :: native where "minNative = binary_native ''@min'' f64_fmin"
definition maxNative :: native where "maxNative = binary_native ''@max'' f64_fmax"

end
