(* ===== verification/Native_System.thy ===== *)
theory Native_System
  imports Native_Numbers
begin

text \<open>
  The natives of \<^verbatim>\<open>src/native.c\<close> that reach outside the machine: the process, the clock, random
  numbers, files, the environment, standard input and output.
\<close>

section \<open>The process\<close>

definition exitNative :: native where
  "exitNative vm argCount args =
     (let exitCode = numberArg (arg vm args 0)
      in require_all [assertArgCount ''@exit'' 1 argCount, assertArgIsNumber vm ''@exit'' args 0,
           assertGtEq ''@exit'' exitCode 0 0, assertLtEq ''@exit'' exitCode (f64_of_int 255) 0] vm
           (do { code \<leftarrow> f64_to_i32 exitCode; Some (Stops code vm) }))"

definition raiseScriptMessage :: "string \<Rightarrow> bytes \<Rightarrow> VM \<Rightarrow> NativeResult option" where
  "raiseScriptMessage prefix message vm = raiseError (N_script prefix message) vm"

definition assertNative :: native where
  "assertNative vm argCount args =
     require_all [assertArgCount ''@assert'' 2 argCount, assertArgIsBool vm ''@assert'' args 0,
       assertArgIsString vm ''@assert'' args 1] vm
       (do {
          message \<leftarrow> arg_string vm args 1;
          (if arg vm args 0 \<noteq> VAL_BOOL True
           then raiseScriptMessage ''assertion failed: '' (str_chars message) vm
           else Some (Returns VAL_NIL vm))
        })"

definition panicNative :: native where
  "panicNative vm argCount args =
     require_all [assertArgCount ''@panic'' 1 argCount, assertArgIsString vm ''@panic'' args 0] vm
       (do {
          message \<leftarrow> arg_string vm args 0;
          raiseScriptMessage ''panic: '' (str_chars message) vm
        })"

text \<open>\<open>KIRBY_VERSION\<close> is generated by the build.\<close>

definition versionNative :: "bytes \<Rightarrow> native" where
  "versionNative version vm argCount args =
     require_all [assertArgCount ''@version'' 0 argCount] vm (returns_object (copyString version vm))"

definition argcNative :: native where
  "argcNative vm argCount args =
     require_all [assertArgCount ''@argc'' 0 argCount] vm
       (Some (Returns (NUMBER_I64_VAL (int (length (vm_argv vm)))) vm))"

definition argvNative :: native where
  "argvNative vm argCount args =
     require_all [assertArgCount ''@argv'' 1 argCount, assertArgIsNumber vm ''@argv'' args 0,
       assertWholeNumber ''@argv'' (numberArg (arg vm args 0)) 0] vm
       (do {
          idx \<leftarrow> f64_to_i32 (numberArg (arg vm args 0));
          (if idx < 0 \<or> int (length (vm_argv vm)) \<le> idx then Some (Returns VAL_NIL vm)
           else returns_object (copyString (vm_argv vm ! nat idx) vm))
        })"

section \<open>Time and chance\<close>

definition next_rand :: "VM \<Rightarrow> nat \<times> VM" where
  "next_rand vm =
     (sys_rand (vm_system vm) 0 mod 2147483648,
      vm\<lparr>vm_system := (vm_system vm)\<lparr>sys_rand := \<lambda>n. sys_rand (vm_system vm) (n + 1)\<rparr>\<rparr>)"

definition RAND_MAX :: int where
  "RAND_MAX = 2147483647"

definition clockNative :: native where
  "clockNative vm argCount args =
     require_all [assertArgCount ''@clock'' 0 argCount] vm
       (Some (Returns (NUMBER_F64_VAL (sys_clock (vm_system vm) 0))
          (vm\<lparr>vm_system := (vm_system vm)\<lparr>sys_clock := \<lambda>n. sys_clock (vm_system vm) (n + 1)\<rparr>\<rparr>)))"

definition nowNative :: native where
  "nowNative vm argCount args =
     require_all [assertArgCount ''@now'' 0 argCount] vm
       (Some (Returns (NUMBER_I64_VAL (sys_time (vm_system vm) 0))
          (vm\<lparr>vm_system := (vm_system vm)\<lparr>sys_time := \<lambda>n. sys_time (vm_system vm) (n + 1)\<rparr>\<rparr>)))"

definition randNative :: native where
  "randNative vm argCount args =
     require_all [assertArgCount ''@rand'' 0 argCount] vm
       (let (r, vm) = next_rand vm in Some (Returns (NUMBER_F64_VAL (f64_of_int (int r))) vm))"

definition rand01Native :: native where
  "rand01Native vm argCount args =
     require_all [assertArgCount ''@rand01'' 0 argCount] vm
       (let (r, vm) = next_rand vm
        in Some (Returns (NUMBER_F64_VAL (f64_div (f64_of_int (int r)) (f64_of_int RAND_MAX))) vm))"

definition randBetweenNative :: native where
  "randBetweenNative vm argCount args =
     (let least = numberArg (arg vm args 0); most = numberArg (arg vm args 1)
      in require_all [assertArgCount ''@randBetween'' 2 argCount, assertArgIsNumber vm ''@randBetween'' args 0,
           assertArgIsNumber vm ''@randBetween'' args 1] vm
           (if f64_less most least then raiseError N_rand_bounds vm
            else let (n, vm) = next_rand vm;
                     r = f64_div (f64_of_int (int n)) (f64_of_int RAND_MAX);
                     result = f64_add least (f64_mul r (f64_sub most least))
                 in do {
                      i \<leftarrow> f64_to_i64 (f64_ceil result);
                      Some (Returns (NUMBER_I64_VAL i) vm)
                    }))"

section \<open>Files and the environment\<close>

definition fileExists :: "bytes \<Rightarrow> VM \<Rightarrow> Value" where
  "fileExists filename vm = VAL_BOOL (sys_files (vm_system vm) (c_string filename) \<noteq> None)"

definition fileExistsNative :: native where
  "fileExistsNative vm argCount args =
     require_all [assertArgCount ''@fileExists'' 1 argCount, assertArgIsString vm ''@fileExists'' args 0] vm
       (do {
          path \<leftarrow> arg_string vm args 0;
          Some (Returns (fileExists (str_chars path) vm) vm)
        })"

text \<open>
  A file that opens but cannot be read in full gives the null string, which the caller wraps in a
  value: undefined from there on.
\<close>

definition readFile :: "bytes \<Rightarrow> VM \<Rightarrow> NativeResult option" where
  "readFile path vm =
     (case sys_files (vm_system vm) (c_string path) of
        None \<Rightarrow> raiseError (N_no_file (c_string path)) vm
      | Some contents \<Rightarrow>
          if sys_readable (vm_system vm) (c_string path) \<and> length contents \<le> INT_MAX
          then returns_object (takeString contents vm) else None)"

definition readFileToStringNative :: native where
  "readFileToStringNative vm argCount args =
     require_all [assertArgCount ''@readFileToString'' 1 argCount,
       assertArgIsString vm ''@readFileToString'' args 0] vm
       (do { path \<leftarrow> arg_string vm args 0; readFile (str_chars path) vm })"

text \<open>
  Opening a file for writing empties it.  The stream is never closed: what \<open>fprintf\<close> leaves in its
  buffer reaches the file when the process ends.
\<close>

definition writeFile :: "bytes \<Rightarrow> bytes \<Rightarrow> VM \<Rightarrow> NativeResult option" where
  "writeFile path chars vm =
     (let system = vm_system vm; name = c_string path; out = c_string chars;
          written = length out - sys_buffered system out
      in if \<not> sys_writable system name then raiseError (N_no_file name) vm
         else Some (Returns VAL_NIL
           (vm\<lparr>vm_system := system\<lparr>sys_files := (sys_files system)(name := Some (take written out)),
              sys_pending := sys_pending system @ [(name, drop written out)]\<rparr>\<rparr>)))"

definition writeStringToFileNative :: native where
  "writeStringToFileNative vm argCount args =
     require_all [assertArgCount ''@writeStringToFile'' 2 argCount,
       assertArgIsString vm ''@writeStringToFile'' args 0,
       assertArgIsString vm ''@writeStringToFile'' args 1] vm
       (do {
          path \<leftarrow> arg_string vm args 0;
          chars \<leftarrow> arg_string vm args 1;
          writeFile (str_chars path) (str_chars chars) vm
        })"

definition getEnvNative :: native where
  "getEnvNative vm argCount args =
     require_all [assertArgCount ''@getenv'' 1 argCount, assertArgIsString vm ''@getenv'' args 0] vm
       (do {
          name \<leftarrow> arg_string vm args 0;
          (case sys_environment (vm_system vm) (c_string (str_chars name)) of
             None \<Rightarrow> raiseError (N_no_variable (c_string (str_chars name))) vm
           | Some env_value \<Rightarrow> returns_object (copyString env_value vm))
        })"

definition setEnvNative :: native where
  "setEnvNative vm argCount args =
     require_all [assertArgCount ''@setenv'' 2 argCount, assertArgIsString vm ''@setenv'' args 0,
       assertArgIsString vm ''@setenv'' args 1] vm
       (do {
          name \<leftarrow> arg_string vm args 0;
          value \<leftarrow> arg_string vm args 1;
          let n = c_string (str_chars name);
          let system = vm_system vm;
          (if \<not> sys_env_name system n then raiseError (N_setenv_failed n) vm
           else Some (Returns VAL_NIL (vm\<lparr>vm_system := system\<lparr>sys_environment :=
                  (sys_environment system)(n := Some (c_string (str_chars value)))\<rparr>\<rparr>)))
        })"

section \<open>Output\<close>

definition printNative :: native where
  "printNative vm argCount args =
     require_all [assertArgCount ''@print'' 1 argCount] vm
       (do {
          printed \<leftarrow> printValue (vm_store vm) (arg vm args 0);
          Some (Returns VAL_NIL (vm\<lparr>vm_stdout := vm_stdout vm @ printed\<rparr>))
        })"

definition printlnNative :: native where
  "printlnNative vm argCount args =
     require_all [assertArgCount ''@println'' 1 argCount] vm
       (do {
          printed \<leftarrow> printValue (vm_store vm) (arg vm args 0);
          Some (Returns VAL_NIL (vm\<lparr>vm_stdout := vm_stdout vm @ printed @ [P_chars [10]]\<rparr>))
        })"

definition printFunctionToErr :: "(obj_ref \<Rightarrow> Obj option) \<Rightarrow> obj_ref \<Rightarrow> Printed list option" where
  "printFunctionToErr store fn =
     do {
       f \<leftarrow> as_function store fn;
       (case fn_name f of
          None \<Rightarrow> Some [P_text ''<script>'']
        | Some n \<Rightarrow> do { s \<leftarrow> string_at store n; Some [P_text ''<fn '', P_chars s, P_text ''>''] })
     }"

text \<open>
  To standard error an object is printed on its own.  An instance is first written to a buffer of
  512 characters as if there were 1024, so a long name overruns it.
\<close>

definition printObjectToErr :: "(obj_ref \<Rightarrow> Obj option) \<Rightarrow> obj_ref \<Rightarrow> Printed list option" where
  "printObjectToErr store r =
     do {
       obj \<leftarrow> store r;
       (case obj of
          OString s \<Rightarrow> Some [P_chars (c_string (str_chars s))]
        | OFunction f \<Rightarrow> printFunctionToErr store r
        | OClosure c \<Rightarrow> printFunctionToErr store (cl_function c)
        | ONative n \<Rightarrow> Some [P_text ''<fn native>'']
        | OUpvalue u \<Rightarrow> Some [P_text ''upvalue'']
        | OStruct s \<Rightarrow> do { n \<leftarrow> string_at store (st_name s); Some [P_chars n] }
        | OInstance i \<Rightarrow>
            do {
              s \<leftarrow> as_struct store (in_struct i);
              n \<leftarrow> string_at store (st_name s);
              (if length n + length '' instance'' < 512
               then Some [P_chars n, P_text '' instance''] else None)
            }
        | OBoundMethod b \<Rightarrow>
            do {
              c \<leftarrow> as_closure store (bm_method b);
              f \<leftarrow> as_function store (cl_function c);
              n \<leftarrow> fn_name f;
              s \<leftarrow> string_at store n;
              Some [P_text ''<fn method '', P_chars s, P_text ''>'']
            }
        | OList l \<Rightarrow>
            Some [P_text ''<list size='', P_chars (nat_text (length (li_values l))), P_text ''>'']
        | OArray a \<Rightarrow> Some [P_text ''<array size='', P_chars (nat_text (length a)), P_text ''>''])
     }"

definition printValueToErr :: "(obj_ref \<Rightarrow> Obj option) \<Rightarrow> Value \<Rightarrow> Printed list option" where
  "printValueToErr store value =
     (case value of VAL_OBJ r \<Rightarrow> printObjectToErr store r | _ \<Rightarrow> Some [valueToPrinted value])"

definition eprintNative :: native where
  "eprintNative vm argCount args =
     require_all [assertArgCount ''@eprint'' 1 argCount] vm
       (do {
          printed \<leftarrow> printValueToErr (vm_store vm) (arg vm args 0);
          Some (Returns VAL_NIL (vm\<lparr>vm_stderr := vm_stderr vm @ printed\<rparr>))
        })"

definition eprintlnNative :: native where
  "eprintlnNative vm argCount args =
     require_all [assertArgCount ''@eprintln'' 1 argCount] vm
       (do {
          printed \<leftarrow> printValueToErr (vm_store vm) (arg vm args 0);
          Some (Returns VAL_NIL (vm\<lparr>vm_stderr := vm_stderr vm @ printed @ [P_chars [10]]\<rparr>))
        })"

section \<open>Input\<close>

text \<open>
  The loop of \<open>@stdin\<close> and \<open>@prompt\<close>: it stops at the end of the input or, for a prompt, at a line
  feed, skips carriage returns and doubles its buffer, up to a cap, while there is no room for one
  more byte and the NUL.  The result is what was read, or none when the cap is exceeded, with the
  capacity of the buffer, the input left over and whether the input ended.
\<close>

datatype ReadOutcome = Read_bytes bytes nat bool | Read_too_long nat

function read_loop ::
    "bool \<Rightarrow> nat \<Rightarrow> bytes \<Rightarrow> nat \<Rightarrow> bytes \<Rightarrow> VM \<Rightarrow> (ReadOutcome \<times> bytes \<times> VM) option" where
  "read_loop line cap buffer capacity input vm =
     (case input of
        [] \<Rightarrow> Some (Read_bytes buffer capacity True, [], vm)
      | c # rest \<Rightarrow>
          if line \<and> c = 10 then Some (Read_bytes buffer capacity False, rest, vm)
          else if c = 13 then read_loop line cap buffer capacity rest vm
          else if capacity \<le> length buffer + 1
          then let newCapacity = min (capacity * 2) cap
               in if capacity = cap then Some (Read_too_long capacity, rest, vm)
                  else (case reallocate capacity newCapacity vm of
                          None \<Rightarrow> None
                        | Some vm \<Rightarrow> read_loop line cap (buffer @ [c]) newCapacity rest vm)
          else read_loop line cap (buffer @ [c]) capacity rest vm)"
  by pat_completeness auto
termination by (relation "measure (\<lambda>(_, _, _, _, input, _). length input)") auto

declare read_loop.simps [simp del]

text \<open>\<open>FREE_ARRAY\<close> of a raw buffer.\<close>

definition free_buffer :: "nat \<Rightarrow> VM \<Rightarrow> VM" where
  "free_buffer capacity vm = vm\<lparr>vm_gc := free_bytes capacity (vm_gc vm)\<rparr>"

text \<open>
  An error here does not leave the process: after the message (and the trace, left out here) the
  native returns with the machine's stack reset.
\<close>

definition reports :: "string \<Rightarrow> VM \<Rightarrow> NativeResult option" where
  "reports message vm =
     Some (Returns VAL_NIL (resetStack (vm\<lparr>vm_stderr := vm_stderr vm @ [P_text message, P_chars [10]]\<rparr>)))"

definition read_input :: "string \<Rightarrow> bool \<Rightarrow> nat \<Rightarrow> VM \<Rightarrow> NativeResult option" where
  "read_input fn line cap vm =
     do {
       vm \<leftarrow> reallocate 0 64 vm;
       (outcome, rest, vm) \<leftarrow> read_loop line cap [] 64 (sys_stdin (vm_system vm)) vm;
       let vm = vm\<lparr>vm_system := (vm_system vm)\<lparr>sys_stdin := rest\<rparr>\<rparr>;
       (case outcome of
          Read_too_long capacity \<Rightarrow> reports (fn @ '' exceeded maximum length.'') (free_buffer capacity vm)
        | Read_bytes buffer capacity ended \<Rightarrow>
            if ended \<and> length buffer = 0 then Some (Returns VAL_NIL (free_buffer capacity vm))
            else returns_object (takeString buffer vm))
     }"

text \<open>The prompt, when there is one argument; more are refused.\<close>

definition with_prompt :: "string \<Rightarrow> check list \<Rightarrow> VM \<Rightarrow> nat \<Rightarrow> nat \<Rightarrow> (VM \<Rightarrow> NativeResult option) \<Rightarrow>
    NativeResult option" where
  "with_prompt fn checks vm argCount args body =
     (if 1 < argCount then require_all checks vm (body vm)
      else if argCount = 1
      then do {
        isString \<leftarrow> isObjType (vm_store vm) (arg vm args 0) OBJ_STRING;
        (if \<not> isString then reports (fn @ '' argument must be a string.'') vm
         else do {
           prompt \<leftarrow> arg_string vm args 0;
           body (vm\<lparr>vm_stdout := vm_stdout vm @ [P_chars (str_chars prompt)]\<rparr>)
         })
      }
      else body vm)"

definition stdinNative :: native where
  "stdinNative vm argCount args =
     with_prompt ''input()'' [assertArgCount ''@stdin'' 1 argCount] vm argCount args
       (read_input ''stdin()'' False (1024 * 1024 * 5))"

definition promptNative :: native where
  "promptNative vm argCount args =
     with_prompt ''prompt()'' [assertArgCount ''@prompt'' 1 argCount, assertArgIsString vm ''@prompt'' args 0]
       vm argCount args (read_input ''input()'' True (1024 * 1024))"

end
