(* ===== verification/Native.thy ===== *)
theory Native
  imports Native_System VM_Run
begin

text \<open>
  The table of natives at the end of \<^verbatim>\<open>src/native.c\<close>, how a native runs, and the start of the
  machine, \<open>initVM\<close> of \<^verbatim>\<open>src/vm.c\<close>, which defines a global for each.  A native object holds the
  position of its function in the table.
\<close>

definition nativeDefinitions :: "bytes \<Rightarrow> (string \<times> native) list" where
  "nativeDefinitions version =
     [(''@clock'', clockNative), (''@version'', versionNative version), (''@exit'', exitNative),
      (''@rand'', randNative), (''@rand01'', rand01Native), (''@randBetween'', randBetweenNative),
      (''@ceil'', ceilNative), (''@readFileToString'', readFileToStringNative),
      (''@writeStringToFile'', writeStringToFileNative),
      (''@numberToString'', numberToStringNative), (''@boolToString'', boolToStringNative),
      (''@fileExists'', fileExistsNative), (''@getenv'', getEnvNative),
      (''@setenv'', setEnvNative), (''@strLen'', strLenNative), (''@arrLen'', arrLenNative),
      (''@arrContains'', arrContainsNative), (''@arrEqual'', arrEqualNative),
      (''@arrCopy'', arrCopyNative), (''@arrReverse'', arrReverseNative),
      (''@arrJoin'', arrJoinNative), (''@arrSlice'', arrSliceNative),
      (''@arrConcat'', arrConcatNative), (''@arrToList'', arrToListNative),
      (''@listLen'', listLenNative), (''@typeof'', typeofNative), (''@print'', printNative),
      (''@println'', printlnNative), (''@eprint'', eprintNative), (''@eprintln'', eprintlnNative),
      (''@argv'', argvNative), (''@argc'', argcNative), (''@parseInt'', parseIntNative),
      (''@parseFloat'', parseFloatNative), (''@instanceOf'', instanceOfNative),
      (''@prompt'', promptNative), (''@stdin'', stdinNative), (''@listPush'', listPushNative),
      (''@listPop'', listPopNative), (''@listInsert'', listInsertNative),
      (''@listRemove'', listRemoveNative), (''@listClear'', listClearNative),
      (''@listContains'', listContainsNative), (''@listCopy'', listCopyNative),
      (''@listIsEmpty'', listIsEmptyNative), (''@listEqual'', listEqualNative),
      (''@listSlice'', listSliceNative), (''@listConcat'', listConcatNative),
      (''@listReverse'', listReverseNative), (''@listJoin'', listJoinNative),
      (''@strConcat'', strConcatNative), (''@is'', isNative), (''@isNumber'', isNumberNative),
      (''@isFunction'', isFunctionNative), (''@isBool'', isBoolNative),
      (''@isString'', isStringNative), (''@isNil'', isNilNative),
      (''@strIsEmpty'', strIsEmptyNative), (''@floor'', floorNative), (''@round'', roundNative),
      (''@trunc'', truncNative), (''@abs'', absNative), (''@sqrt'', sqrtNative),
      (''@pow'', powNative), (''@min'', minNative), (''@max'', maxNative),
      (''@assert'', assertNative), (''@panic'', panicNative),
      (''@strContains'', strContainsNative), (''@strStartsWith'', strStartsWithNative),
      (''@strEndsWith'', strEndsWithNative), (''@strTrim'', strTrimNative),
      (''@strToUpper'', strToUpperNative), (''@strToLower'', strToLowerNative),
      (''@strRepeat'', strRepeatNative), (''@strSplit'', strSplitNative),
      (''@strIndexOf'', strIndexOfNative), (''@strSlice'', strSliceNative),
      (''@strReplace'', strReplaceNative), (''@strReplaceAll'', strReplaceAllNative),
      (''@strToBytes'', strToBytesNative), (''@now'', nowNative)]"

definition nativeDefinitionCount :: nat where
  "nativeDefinitionCount = length (nativeDefinitions [])"

text \<open>Calling the function of a native object.\<close>

definition run_native :: "bytes \<Rightarrow> natives" where
  "run_native version function_id vm argCount args =
     (if function_id < length (nativeDefinitions version)
      then snd (nativeDefinitions version ! function_id) vm argCount args else None)"

definition defineNative :: "string \<Rightarrow> nat \<Rightarrow> VM \<Rightarrow> VM option" where
  "defineNative name function_id vm =
     do {
       (name_s, vm) \<leftarrow> copyString (ascii name) vm;
       vm \<leftarrow> pushOnStack (VAL_OBJ name_s) vm;
       (native, vm) \<leftarrow> newNative function_id vm;
       vm \<leftarrow> pushOnStack (VAL_OBJ native) vm;
       key \<leftarrow> value_ref (vm_stack vm 0);
       (_, vm) \<leftarrow> tableSetAt T_GLOBALS key (vm_stack vm 1) vm;
       (_, vm) \<leftarrow> popFromStack vm;
       (_, vm) \<leftarrow> popFromStack vm;
       Some vm
     }"

fun define_natives :: "string list \<Rightarrow> nat \<Rightarrow> VM \<Rightarrow> VM option" where
  "define_natives [] i vm = Some vm"
| "define_natives (name # names) i vm = do { vm \<leftarrow> defineNative name i vm; define_natives names (i + 1) vm }"

definition native_names :: "string list" where
  "native_names = map fst (nativeDefinitions [])"

definition defineAllNatives :: "VM \<Rightarrow> VM option" where
  "defineAllNatives vm = define_natives native_names 0 vm"

definition initVM :: "bytes list \<Rightarrow> System \<Rightarrow> VM option" where
  "initVM argv system = defineAllNatives (initial_vm\<lparr>vm_argv := argv, vm_system := system\<rparr>)"

end
