(* ===== verification/Native_Relations.thy ===== *)
theory Native_Relations
  imports Native
begin

text \<open>
  Facts that hold of every native because they hold of each primitive step that natives are made of.  The
  locale \<open>native_relation\<close> has a relation on machines that allocation, lists, output, the outside
  world and a value held on the stack for a while respect; inside it all natives of the table are shown to respect it, so that \<open>run_native\<close>
  does.  A native that leaves the process is not looked at.
\<close>

lemma require_all_returns: "require_all cs vm k = Some (Returns v vm') \<Longrightarrow> k = Some (Returns v vm')"
proof (induction cs)
  case (Cons c cs)
  then show ?case by (auto simp: raiseError_def elim!: bind_SomeE split: option.split_asm)
qed simp

lemma raiseError_exits [simp]: "raiseError e vm = Some (Returns v vm') \<longleftrightarrow> False"
  by (auto simp: raiseError_def elim!: bind_SomeE)

lemma returns_object_D: "returns_object m = Some (Returns v vm') \<Longrightarrow> \<exists>r. m = Some (r, vm')"
  by (auto simp: returns_object_def elim!: bind_SomeE)

lemma returns_bool_D: "returns_bool vm b = Some (Returns v vm') \<Longrightarrow> vm' = vm"
  by (auto simp: returns_bool_def elim!: bind_SomeE)

declare require_all.simps [simp del]

lemmas native_returns = require_all_returns returns_object_D returns_bool_D

locale native_relation =
  fixes R :: "VM \<Rightarrow> VM \<Rightarrow> bool"
  assumes R_refl: "R vm vm"
    and R_trans: "R a b \<Longrightarrow> R b c \<Longrightarrow> R a c"
    and R_reallocate: "reallocate m n vm = Some vm' \<Longrightarrow> R vm vm'"
    and R_takeString: "takeString cs vm = Some (r, vm') \<Longrightarrow> R vm vm'"
    and R_copyString: "copyString cs vm = Some (r, vm') \<Longrightarrow> R vm vm'"
    and R_newList: "newList vm = Some (r, vm') \<Longrightarrow> R vm vm'"
    and R_newArray: "newArray n vm = Some (r, vm') \<Longrightarrow> R vm vm'"
    and R_writeList: "writeValueToListObj r v vm = Some vm' \<Longrightarrow> R vm vm'"
    and R_list: "R vm (put_obj r (OList l) vm)"
    and R_array: "R vm (put_obj r (OArray vs) vm)"
    and R_rooted: "pushOnStack v vm = Some vm1 \<Longrightarrow> R vm1 vm2 \<Longrightarrow> popFromStack vm2 = Some (w, vm') \<Longrightarrow> R vm vm'"
    and R_free: "R vm (free_buffer n vm)"
    and R_system: "R vm (vm\<lparr>vm_system := s\<rparr>)"
    and R_stdout: "R vm (vm\<lparr>vm_stdout := out\<rparr>)"
    and R_stderr: "R vm (vm\<lparr>vm_stderr := out\<rparr>)"
    and R_reset: "R vm (resetStack vm)"
begin

declare R_refl [simp] R_list [simp] R_array [simp] R_free [simp] R_system [simp] R_stdout [simp]
  R_stderr [simp] R_reset [simp]

lemmas R_steps = R_reallocate R_takeString R_copyString R_newList R_newArray R_writeList

lemma set_list_R: "set_list r vs vm = Some vm' \<Longrightarrow> R vm vm'"
  by (auto simp: set_list_def elim!: bind_SomeE)

lemma write_all_R: "write_all r vs vm = Some vm' \<Longrightarrow> R vm vm'"
  by (induction vs arbitrary: vm) (auto elim!: bind_SomeE dest!: R_writeList intro: R_trans)

lemma new_list_of_R: "new_list_of vs vm = Some (r, vm') \<Longrightarrow> R vm vm'"
  unfolding new_list_of_def
  by (auto elim!: bind_SomeE dest!: R_newList write_all_R) (meson R_rooted R_trans)

lemma new_array_of_R: "new_array_of vs vm = Some (r, vm') \<Longrightarrow> R vm vm'"
  by (auto simp: new_array_of_def elim!: bind_SomeE dest!: R_newArray intro: R_trans [OF _ R_array])

lemma append_pieces_R: "append_pieces r ps vm = Some vm' \<Longrightarrow> R vm vm'"
proof (induction ps arbitrary: vm)
  case (Cons p ps)
  then obtain vm1 where "appendStringCopy r p vm = Some vm1" "append_pieces r ps vm1 = Some vm'"
    by (auto elim!: bind_SomeE)
  moreover from this(1) have "R vm vm1"
    by (auto simp: appendStringCopy_def elim!: bind_SomeE dest!: R_steps) (meson R_rooted R_trans)
  ultimately show ?case using Cons.IH R_trans by blast
qed simp

lemmas R_makers = set_list_R new_list_of_R new_array_of_R append_pieces_R

text \<open>What the natives that share a body have in common.\<close>

lemma two_strings_R:
  assumes "two_strings fn vm n args body = Some (Returns v vm')"
    and "\<And>a b. body a b = Some (Returns v vm') \<Longrightarrow> R vm vm'"
  shows "R vm vm'"
  using assms by (auto simp: two_strings_def elim!: bind_SomeE dest!: require_all_returns)

lemma slice_values_R: "slice_values fn b vs vm args = Some (Returns v vm') \<Longrightarrow> R vm vm'"
  by (auto simp: slice_values_def Let_def elim!: bind_SomeE dest!: native_returns new_list_of_R split: if_split_asm)

lemma joinStrings_R: "joinStrings fn vs sep vm = Some (Returns v vm') \<Longrightarrow> R vm vm'"
  by (auto simp: joinStrings_def Let_def elim!: bind_SomeE dest!: native_returns R_steps
      split: JoinCheck.split_asm if_split_asm intro: R_trans)

lemma changeAsciiCase_R: "changeAsciiCase s up vm = Some (Returns v vm') \<Longrightarrow> R vm vm'"
  by (auto simp: changeAsciiCase_def elim!: bind_SomeE dest!: native_returns R_steps intro: R_trans)

lemma replaceMatches_R: "replaceMatches fn every vm n args = Some (Returns v vm') \<Longrightarrow> R vm vm'"
  by (auto simp: replaceMatches_def Let_def elim!: bind_SomeE dest!: native_returns R_steps
      split: if_split_asm intro: R_trans)

lemma number_native_R:
  "unary_native fn f vm n args = Some (Returns v vm') \<Longrightarrow> R vm vm'"
  "binary_native fn g vm n args = Some (Returns v vm') \<Longrightarrow> R vm vm'"
  by (auto simp: unary_native_def binary_native_def dest!: native_returns)

lemmas R_bodies = slice_values_R joinStrings_R changeAsciiCase_R replaceMatches_R number_native_R

lemma data_natives_R:
  "typeofNative vm n args = Some (Returns v vm') \<Longrightarrow> R vm vm'"
  "isNative vm n args = Some (Returns v vm') \<Longrightarrow> R vm vm'"
  "isNumberNative vm n args = Some (Returns v vm') \<Longrightarrow> R vm vm'"
  "isFunctionNative vm n args = Some (Returns v vm') \<Longrightarrow> R vm vm'"
  "isBoolNative vm n args = Some (Returns v vm') \<Longrightarrow> R vm vm'"
  "isStringNative vm n args = Some (Returns v vm') \<Longrightarrow> R vm vm'"
  "isNilNative vm n args = Some (Returns v vm') \<Longrightarrow> R vm vm'"
  "instanceOfNative vm n args = Some (Returns v vm') \<Longrightarrow> R vm vm'"
  by (auto simp: typeofNative_def isNative_def isNumberNative_def isFunctionNative_def isBoolNative_def
      isStringNative_def isNilNative_def instanceOfNative_def elim!: bind_SomeE dest!: native_returns R_steps
      split: if_split_asm)

lemma list_natives_R:
  "listLenNative vm n args = Some (Returns v vm') \<Longrightarrow> R vm vm'"
  "listIsEmptyNative vm n args = Some (Returns v vm') \<Longrightarrow> R vm vm'"
  "listPushNative vm n args = Some (Returns v vm') \<Longrightarrow> R vm vm'"
  "listPopNative vm n args = Some (Returns v vm') \<Longrightarrow> R vm vm'"
  "listInsertNative vm n args = Some (Returns v vm') \<Longrightarrow> R vm vm'"
  "listRemoveNative vm n args = Some (Returns v vm') \<Longrightarrow> R vm vm'"
  "listClearNative vm n args = Some (Returns v vm') \<Longrightarrow> R vm vm'"
  "listContainsNative vm n args = Some (Returns v vm') \<Longrightarrow> R vm vm'"
  "listEqualNative vm n args = Some (Returns v vm') \<Longrightarrow> R vm vm'"
  "listCopyNative vm n args = Some (Returns v vm') \<Longrightarrow> R vm vm'"
  "listConcatNative vm n args = Some (Returns v vm') \<Longrightarrow> R vm vm'"
  "listReverseNative vm n args = Some (Returns v vm') \<Longrightarrow> R vm vm'"
  "listSliceNative vm n args = Some (Returns v vm') \<Longrightarrow> R vm vm'"
  "listJoinNative vm n args = Some (Returns v vm') \<Longrightarrow> R vm vm'"
  by (auto simp: listLenNative_def listIsEmptyNative_def listPushNative_def listPopNative_def listInsertNative_def
      listRemoveNative_def listClearNative_def listContainsNative_def listEqualNative_def listCopyNative_def
      listConcatNative_def listReverseNative_def listSliceNative_def listJoinNative_def Let_def
      elim!: bind_SomeE dest!: native_returns R_makers R_steps R_bodies split: if_split_asm intro: R_trans)

lemma array_natives_R:
  "arrLenNative vm n args = Some (Returns v vm') \<Longrightarrow> R vm vm'"
  "arrContainsNative vm n args = Some (Returns v vm') \<Longrightarrow> R vm vm'"
  "arrEqualNative vm n args = Some (Returns v vm') \<Longrightarrow> R vm vm'"
  "arrCopyNative vm n args = Some (Returns v vm') \<Longrightarrow> R vm vm'"
  "arrReverseNative vm n args = Some (Returns v vm') \<Longrightarrow> R vm vm'"
  "arrSliceNative vm n args = Some (Returns v vm') \<Longrightarrow> R vm vm'"
  "arrConcatNative vm n args = Some (Returns v vm') \<Longrightarrow> R vm vm'"
  "arrToListNative vm n args = Some (Returns v vm') \<Longrightarrow> R vm vm'"
  "arrJoinNative vm n args = Some (Returns v vm') \<Longrightarrow> R vm vm'"
  by (auto simp: arrLenNative_def arrContainsNative_def arrEqualNative_def arrCopyNative_def arrReverseNative_def
      arrSliceNative_def arrConcatNative_def arrToListNative_def arrJoinNative_def
      elim!: bind_SomeE dest!: native_returns R_makers R_bodies)

lemma text_natives_R:
  "strLenNative vm n args = Some (Returns v vm') \<Longrightarrow> R vm vm'"
  "strIsEmptyNative vm n args = Some (Returns v vm') \<Longrightarrow> R vm vm'"
  "strTrimNative vm n args = Some (Returns v vm') \<Longrightarrow> R vm vm'"
  "strToUpperNative vm n args = Some (Returns v vm') \<Longrightarrow> R vm vm'"
  "strToLowerNative vm n args = Some (Returns v vm') \<Longrightarrow> R vm vm'"
  "strRepeatNative vm n args = Some (Returns v vm') \<Longrightarrow> R vm vm'"
  "strSliceNative vm n args = Some (Returns v vm') \<Longrightarrow> R vm vm'"
  "strToBytesNative vm n args = Some (Returns v vm') \<Longrightarrow> R vm vm'"
  "strConcatNative vm n args = Some (Returns v vm') \<Longrightarrow> R vm vm'"
  "strReplaceNative vm n args = Some (Returns v vm') \<Longrightarrow> R vm vm'"
  "strReplaceAllNative vm n args = Some (Returns v vm') \<Longrightarrow> R vm vm'"
  by (auto simp: strLenNative_def strIsEmptyNative_def strTrimNative_def strToUpperNative_def strToLowerNative_def
      strRepeatNative_def strSliceNative_def strToBytesNative_def strConcatNative_def strReplaceNative_def
      strReplaceAllNative_def Let_def elim!: bind_SomeE dest!: native_returns R_makers R_steps R_bodies
      split: if_split_asm intro: R_trans)

lemma search_natives_R:
  "strContainsNative vm n args = Some (Returns v vm') \<Longrightarrow> R vm vm'"
  "strStartsWithNative vm n args = Some (Returns v vm') \<Longrightarrow> R vm vm'"
  "strEndsWithNative vm n args = Some (Returns v vm') \<Longrightarrow> R vm vm'"
  "strIndexOfNative vm n args = Some (Returns v vm') \<Longrightarrow> R vm vm'"
  by (auto simp: strContainsNative_def strStartsWithNative_def strEndsWithNative_def strIndexOfNative_def
      elim!: two_strings_R)

lemma strSplitNative_R: "strSplitNative vm n args = Some (Returns v vm') \<Longrightarrow> R vm vm'"
  unfolding strSplitNative_def
  by (erule two_strings_R, drule returns_object_D)
    (auto elim!: bind_SomeE dest!: R_makers R_steps, meson R_rooted R_trans)

lemma number_natives_R:
  "parseIntNative vm n args = Some (Returns v vm') \<Longrightarrow> R vm vm'"
  "parseFloatNative vm n args = Some (Returns v vm') \<Longrightarrow> R vm vm'"
  "numberToStringNative vm n args = Some (Returns v vm') \<Longrightarrow> R vm vm'"
  "boolToStringNative vm n args = Some (Returns v vm') \<Longrightarrow> R vm vm'"
  "sqrtNative vm n args = Some (Returns v vm') \<Longrightarrow> R vm vm'"
  "powNative vm n args = Some (Returns v vm') \<Longrightarrow> R vm vm'"
  "ceilNative vm n args = Some (Returns v vm') \<Longrightarrow> R vm vm'"
  "floorNative vm n args = Some (Returns v vm') \<Longrightarrow> R vm vm'"
  "roundNative vm n args = Some (Returns v vm') \<Longrightarrow> R vm vm'"
  "truncNative vm n args = Some (Returns v vm') \<Longrightarrow> R vm vm'"
  "absNative vm n args = Some (Returns v vm') \<Longrightarrow> R vm vm'"
  "minNative vm n args = Some (Returns v vm') \<Longrightarrow> R vm vm'"
  "maxNative vm n args = Some (Returns v vm') \<Longrightarrow> R vm vm'"
  by (auto simp: parseIntNative_def parseFloatNative_def parseArgError_def numberToStringNative_def
      boolToStringNative_def sqrtNative_def powNative_def ceilNative_def floorNative_def roundNative_def
      truncNative_def absNative_def minNative_def maxNative_def Let_def
      elim!: bind_SomeE dest!: native_returns R_steps R_bodies
      split: if_split_asm option.split_asm Value.split_asm)

lemma readFile_R: "readFile path vm = Some (Returns v vm') \<Longrightarrow> R vm vm'"
  by (auto simp: readFile_def dest!: native_returns R_steps split: option.split_asm if_split_asm)

lemma writeFile_R: "writeFile path chars vm = Some (Returns v vm') \<Longrightarrow> R vm vm'"
  by (auto simp: writeFile_def Let_def split: if_split_asm)

lemma next_rand_R: "R vm (snd (next_rand vm))"
  by (simp add: next_rand_def)

lemma system_natives_R:
  "exitNative vm n args = Some (Returns v vm') \<Longrightarrow> R vm vm'"
  "assertNative vm n args = Some (Returns v vm') \<Longrightarrow> R vm vm'"
  "panicNative vm n args = Some (Returns v vm') \<Longrightarrow> R vm vm'"
  "versionNative version vm n args = Some (Returns v vm') \<Longrightarrow> R vm vm'"
  "argcNative vm n args = Some (Returns v vm') \<Longrightarrow> R vm vm'"
  "argvNative vm n args = Some (Returns v vm') \<Longrightarrow> R vm vm'"
  "clockNative vm n args = Some (Returns v vm') \<Longrightarrow> R vm vm'"
  "nowNative vm n args = Some (Returns v vm') \<Longrightarrow> R vm vm'"
  "randNative vm n args = Some (Returns v vm') \<Longrightarrow> R vm vm'"
  "rand01Native vm n args = Some (Returns v vm') \<Longrightarrow> R vm vm'"
  "randBetweenNative vm n args = Some (Returns v vm') \<Longrightarrow> R vm vm'"
  by (auto simp: exitNative_def assertNative_def panicNative_def raiseScriptMessage_def versionNative_def
      argcNative_def argvNative_def clockNative_def nowNative_def randNative_def rand01Native_def
      randBetweenNative_def next_rand_def Let_def elim!: bind_SomeE dest!: native_returns R_steps
      split: if_split_asm)

lemma file_natives_R:
  "fileExistsNative vm n args = Some (Returns v vm') \<Longrightarrow> R vm vm'"
  "readFileToStringNative vm n args = Some (Returns v vm') \<Longrightarrow> R vm vm'"
  "writeStringToFileNative vm n args = Some (Returns v vm') \<Longrightarrow> R vm vm'"
  "getEnvNative vm n args = Some (Returns v vm') \<Longrightarrow> R vm vm'"
  "setEnvNative vm n args = Some (Returns v vm') \<Longrightarrow> R vm vm'"
  by (auto simp: fileExistsNative_def readFileToStringNative_def writeStringToFileNative_def getEnvNative_def
      setEnvNative_def Let_def elim!: bind_SomeE dest!: native_returns R_steps readFile_R writeFile_R
      split: if_split_asm option.split_asm)

lemma output_natives_R:
  "printNative vm n args = Some (Returns v vm') \<Longrightarrow> R vm vm'"
  "printlnNative vm n args = Some (Returns v vm') \<Longrightarrow> R vm vm'"
  "eprintNative vm n args = Some (Returns v vm') \<Longrightarrow> R vm vm'"
  "eprintlnNative vm n args = Some (Returns v vm') \<Longrightarrow> R vm vm'"
  by (auto simp: printNative_def printlnNative_def eprintNative_def eprintlnNative_def
      elim!: bind_SomeE dest!: native_returns)

lemma reports_R: "reports message vm = Some (Returns v vm') \<Longrightarrow> R vm vm'"
  by (auto simp: reports_def intro: R_trans [OF R_stderr R_reset])

lemma read_loop_R: "read_loop line cap buffer capacity input vm = Some (out, left, vm') \<Longrightarrow> R vm vm'"
proof (induction input arbitrary: buffer capacity vm)
  case Nil
  then show ?case by (simp add: read_loop.simps)
next
  case (Cons c cs)
  consider "R vm vm'" | n vm1 buffer' where "reallocate capacity n vm = Some vm1"
      "read_loop line cap buffer' n cs vm1 = Some (out, left, vm')"
    | buffer' where "read_loop line cap buffer' capacity cs vm = Some (out, left, vm')"
    using Cons.prems
    by (subst (asm) read_loop.simps) (auto simp: Let_def split: if_split_asm option.split_asm)
  then show ?case using Cons.IH R_reallocate R_trans by cases blast+
qed

lemma read_input_R: "read_input fn line cap vm = Some (Returns v vm') \<Longrightarrow> R vm vm'"
proof -
  assume "read_input fn line cap vm = Some (Returns v vm')"
  then obtain vm1 out left vm2 where r: "reallocate 0 64 vm = Some vm1"
    "read_loop line cap [] 64 (sys_stdin (vm_system vm1)) vm1 = Some (out, left, vm2)"
    and e: "(case out of
        Read_too_long capacity \<Rightarrow> reports (fn @ '' exceeded maximum length.'')
          (free_buffer capacity (vm2\<lparr>vm_system := (vm_system vm2)\<lparr>sys_stdin := left\<rparr>\<rparr>))
      | Read_bytes buffer capacity ended \<Rightarrow>
          if ended \<and> length buffer = 0
          then Some (Returns VAL_NIL (free_buffer capacity (vm2\<lparr>vm_system := (vm_system vm2)\<lparr>sys_stdin := left\<rparr>\<rparr>)))
          else returns_object (takeString buffer (vm2\<lparr>vm_system := (vm_system vm2)\<lparr>sys_stdin := left\<rparr>\<rparr>))) =
      Some (Returns v vm')"
    by (auto simp: read_input_def Let_def elim!: bind_SomeE)
  have "R vm vm2" using R_reallocate [OF r(1)] read_loop_R [OF r(2)] R_trans by blast
  moreover have "R vm2 vm'"
    using e by (auto split: ReadOutcome.split_asm if_split_asm dest!: reports_R native_returns R_takeString
        intro: R_trans [OF R_system] R_trans [OF R_system R_trans [OF R_free]] R_trans [OF R_system R_free])
  ultimately show ?thesis using R_trans by blast
qed

lemma with_prompt_R:
  assumes "with_prompt fn cs vm n args body = Some (Returns v vm')"
    and "\<And>vm1. body vm1 = Some (Returns v vm') \<Longrightarrow> R vm1 vm'"
  shows "R vm vm'"
proof -
  have "R vm vm'" if "body (vm\<lparr>vm_stdout := out\<rparr>) = Some (Returns v vm')" for out
    using assms(2) [OF that] R_stdout R_trans by blast
  then show ?thesis using assms unfolding with_prompt_def
    by (auto elim!: bind_SomeE dest!: require_all_returns reports_R split: if_split_asm)
qed

lemma input_natives_R:
  "stdinNative vm n args = Some (Returns v vm') \<Longrightarrow> R vm vm'"
  "promptNative vm n args = Some (Returns v vm') \<Longrightarrow> R vm vm'"
  unfolding stdinNative_def promptNative_def by (erule with_prompt_R, erule read_input_R)+

lemmas all_natives_R = data_natives_R list_natives_R array_natives_R text_natives_R search_natives_R
  strSplitNative_R number_natives_R system_natives_R file_natives_R output_natives_R input_natives_R

lemma table_R:
  assumes "(name, native) \<in> set (nativeDefinitions version)" "native vm n args = Some (Returns v vm')"
  shows "R vm vm'"
  using assms unfolding nativeDefinitions_def by (auto intro: all_natives_R)

lemma run_native_R:
  assumes "run_native version function_id vm n args = Some (Returns v vm')"
  shows "R vm vm'"
proof -
  have i: "function_id < length (nativeDefinitions version)"
    and r: "snd (nativeDefinitions version ! function_id) vm n args = Some (Returns v vm')"
    using assms by (auto simp: run_native_def split: if_split_asm)
  have "(fst (nativeDefinitions version ! function_id), snd (nativeDefinitions version ! function_id)) \<in>
      set (nativeDefinitions version)"
    using nth_mem [OF i] by simp
  from table_R [OF this r] show ?thesis .
qed

end

end
