(* ===== verification/VM_Fields.thy ===== *)
theory VM_Fields
  imports VM_Effects Native_Relations
begin

text \<open>
  Who writes the fields of an instance: among all instructions only \<open>OP_SET_PROPERTY\<close>, and only a
  mutable field that the running code may see.  The relation \<open>instances_kept\<close> says that the
  instances that existed before are, as far as they still exist, unchanged; every operation of the
  machine but \<open>set_field\<close> satisfies it.
\<close>

definition instances_kept :: "GC \<Rightarrow> GC \<Rightarrow> bool" where
  "instances_kept gc gc' \<longleftrightarrow>
     gc_fresh gc \<le> gc_fresh gc' \<and>
     (\<forall>r i. r < gc_fresh gc \<and> gc_store gc' r = Some (OInstance i) \<longrightarrow>
        gc_store gc r = Some (OInstance i))"

named_theorems kept

lemma instances_kept_refl [simp]: "instances_kept gc gc"
  by (simp add: instances_kept_def)

lemma instances_kept_trans: "instances_kept a b \<Longrightarrow> instances_kept b c \<Longrightarrow> instances_kept a c"
  by (meson instances_kept_def less_le_trans le_trans)

lemma instances_kept_put [simp]:
  "(\<And>i. x \<noteq> OInstance i) \<Longrightarrow> instances_kept gc (vm_gc vm) \<Longrightarrow> instances_kept gc (vm_gc (put_obj r x vm))"
  by (auto simp: instances_kept_def put_obj_def split: if_splits)

lemma instances_kept_put_new [simp]:
  "gc_fresh gc \<le> r \<Longrightarrow> instances_kept gc (vm_gc vm) \<Longrightarrow> instances_kept gc (vm_gc (put_obj r x vm))"
  by (auto simp: instances_kept_def put_obj_def)

lemma instances_kept_after_put:
  assumes "instances_kept (vm_gc (put_obj r x vm)) gc'"
  shows "(\<And>i. x \<noteq> OInstance i) \<Longrightarrow> instances_kept (vm_gc vm) gc'"
  using assms instances_kept_trans instances_kept_put instances_kept_refl by blast

lemma instances_kept_via: "instances_kept b c \<Longrightarrow> instances_kept a b \<Longrightarrow> instances_kept a c"
  by (rule instances_kept_trans)

lemma instances_kept_heap [simp]:
  "instances_kept gc (gc'\<lparr>gc_strings := t\<rparr>) = instances_kept gc gc'"
  "instances_kept gc (account m n gc') = instances_kept gc gc'"
  "instances_kept gc (free_bytes m gc') = instances_kept gc gc'"
  "instances_kept (free_bytes m gc) gc' = instances_kept gc gc'"
  by (simp_all add: instances_kept_def free_bytes_def)

lemma reallocate_kept [kept]: "reallocate m n vm = Some vm' \<Longrightarrow> instances_kept (vm_gc vm) (vm_gc vm')"
  using reallocate_store [of m n vm vm'] unfolding instances_kept_def map_le_def by (metis domI order_refl)

lemma allocateObject_kept [kept]:
  assumes "allocateObject x vm = Some (r, vm')"
  shows "instances_kept (vm_gc vm) (vm_gc vm') \<and> gc_fresh (vm_gc vm) \<le> r \<and> r < gc_fresh (vm_gc vm')"
proof -
  from assms obtain vm1 where vm1: "reallocate 0 (sizeof_obj (obj_type x)) vm = Some vm1"
    and r: "r = gc_fresh (vm_gc vm1)" "vm_store vm' = (vm_store vm1)(r \<mapsto> x)"
      "gc_fresh (vm_gc vm') = gc_fresh (vm_gc vm1) + 1"
    by (auto simp: allocateObject_def Let_def elim!: bind_SomeE)
  with reallocate_kept [OF vm1] show ?thesis by (auto simp: instances_kept_def)
qed

lemma stack_kept [kept]:
  "pushOnStack v vm = Some vm' \<Longrightarrow> vm_gc vm' = vm_gc vm"
  "popFromStack vm = Some (v, vm') \<Longrightarrow> vm_gc vm' = vm_gc vm"
  "popNFromStack n vm = Some vm' \<Longrightarrow> vm_gc vm' = vm_gc vm"
  "set_callee n v vm = Some vm' \<Longrightarrow> vm_gc vm' = vm_gc vm"
  by (auto simp: pushOnStack_def popFromStack_def popNFromStack_def set_callee_def split: if_split_asm)

lemma new_kept [kept]:
  "newBoundMethod v m vm = Some (r, vm') \<Longrightarrow> instances_kept (vm_gc vm) (vm_gc vm')"
  "newStruct n vm = Some (r, vm') \<Longrightarrow> instances_kept (vm_gc vm) (vm_gc vm')"
  "newList vm = Some (r, vm') \<Longrightarrow> instances_kept (vm_gc vm) (vm_gc vm')"
  "newUpvalue slot vm = Some (r, vm') \<Longrightarrow> instances_kept (vm_gc vm) (vm_gc vm')"
  by (auto simp: newBoundMethod_def newStruct_def newList_def newUpvalue_def dest: allocateObject_kept)

lemma newClosure_kept [kept]: "newClosure fn vm = Some (r, vm') \<Longrightarrow> instances_kept (vm_gc vm) (vm_gc vm')"
  by (auto simp: newClosure_def elim!: bind_SomeE dest!: allocateObject_kept reallocate_kept
      intro: instances_kept_trans)

lemma newArray_kept [kept]: "newArray n vm = Some (r, vm') \<Longrightarrow> instances_kept (vm_gc vm) (vm_gc vm')"
  by (auto simp: newArray_def elim!: bind_SomeE dest!: allocateObject_kept reallocate_kept
      intro: instances_kept_trans split: if_split_asm)

text \<open>A new instance is written, but it is new.\<close>

lemma newInstance_kept [kept]:
  "newInstance s vm = Some (r, vm') \<Longrightarrow>
     instances_kept (vm_gc vm) (vm_gc vm') \<and> gc_fresh (vm_gc vm) \<le> r"
  by (auto simp: newInstance_def elim!: bind_SomeE split: if_split_asm
      dest!: allocateObject_kept reallocate_kept stack_kept intro!: instances_kept_put_new)
    (blast intro: instances_kept_trans)

lemma put_table_kept [kept]: "put_table vm p t = Some vm' \<Longrightarrow> instances_kept (vm_gc vm) (vm_gc vm')"
  by (cases p) auto

lemma tableSetAt_kept [kept]:
  "tableSetAt p k v vm = Some (b, vm') \<Longrightarrow> instances_kept (vm_gc vm) (vm_gc vm')"
  by (auto simp: tableSetAt_def elim!: bind_SomeE dest!: reallocate_kept put_table_kept
      split: if_split_asm) (blast intro: instances_kept_trans)

lemma allocateString_kept [kept]:
  "allocateString c h vm = Some (r, vm') \<Longrightarrow> instances_kept (vm_gc vm) (vm_gc vm')"
  by (auto simp: allocateString_def elim!: bind_SomeE
      dest!: allocateObject_kept stack_kept tableSetAt_kept intro: instances_kept_trans)

lemma takeString_kept [kept]: "takeString c vm = Some (r, vm') \<Longrightarrow> instances_kept (vm_gc vm) (vm_gc vm')"
  by (auto simp: takeString_def elim!: bind_SomeE dest!: reallocate_kept allocateString_kept
      split: option.split_asm)

lemma copyString_kept [kept]: "copyString c vm = Some (r, vm') \<Longrightarrow> instances_kept (vm_gc vm) (vm_gc vm')"
  by (auto simp: copyString_def Let_def elim!: bind_SomeE dest!: reallocate_kept allocateString_kept
      split: option.split_asm intro: instances_kept_trans)

lemma writeValueToListObj_kept [kept]:
  "writeValueToListObj l v vm = Some vm' \<Longrightarrow> instances_kept (vm_gc vm) (vm_gc vm')"
  by (auto simp: writeValueToListObj_def Let_def elim!: bind_SomeE split: if_split_asm
      dest!: reallocate_kept instances_kept_after_put)

lemma close_loop_kept: "close_loop b us vm = Some vm' \<Longrightarrow> instances_kept (vm_gc vm) (vm_gc vm')"
proof (induction us arbitrary: vm)
  case (Cons u us)
  from Cons.prems show ?case
    by (auto elim!: bind_SomeE split: Location.split_asm if_split_asm
        dest!: Cons.IH instances_kept_after_put)
qed auto

lemma closeUpvalues_kept [kept]: "closeUpvalues b vm = Some vm' \<Longrightarrow> instances_kept (vm_gc vm) (vm_gc vm')"
  by (simp add: closeUpvalues_def close_loop_kept)

lemma captureUpvalue_kept [kept]:
  "captureUpvalue n vm = Some (u, vm') \<Longrightarrow> instances_kept (vm_gc vm) (vm_gc vm')"
  by (auto simp: captureUpvalue_def elim!: bind_SomeE dest!: new_kept(4) split: if_split_asm)

lemma write_upvalue_kept [kept]:
  "write_upvalue u v vm = Some vm' \<Longrightarrow> instances_kept (vm_gc vm) (vm_gc vm')"
  by (cases "as_upvalue (vm_store vm) u") (auto simp: write_upvalue_def split: Location.split)

lemma put_indexable_kept [kept]:
  "put_indexable t vs vm = Some vm' \<Longrightarrow> instances_kept (vm_gc vm) (vm_gc vm')"
  by (auto simp: put_indexable_def elim!: bind_SomeE split: Obj.split_asm)

lemma list_loop_kept [kept]: "list_loop l n vm = Some vm' \<Longrightarrow> instances_kept (vm_gc vm) (vm_gc vm')"
  by (induction n arbitrary: vm)
    (auto elim!: bind_SomeE dest!: writeValueToListObj_kept intro: instances_kept_trans)

lemma read_kept [kept]:
  "READ_BYTE vm = Some (b, vm') \<Longrightarrow> vm_gc vm' = vm_gc vm"
  "READ_CONSTANT vm = Some (v, vm') \<Longrightarrow> vm_gc vm' = vm_gc vm"
  "READ_STRING vm = Some (r, vm') \<Longrightarrow> vm_gc vm' = vm_gc vm"
  "READ_SHORT vm = Some (n, vm') \<Longrightarrow> vm_gc vm' = vm_gc vm"
  using READ_BYTE_effect READ_CONSTANT_effect READ_STRING_effect READ_SHORT_effect advances_simps(3) by blast+

lemma capture_loop_kept [kept]: "capture_loop c i n vm = Some vm' \<Longrightarrow> instances_kept (vm_gc vm) (vm_gc vm')"
proof (induction c i n vm rule: capture_loop.induct)
  case (2 closure i n vm)
  from 2(2) obtain isLocal vm1 index vm2 upvalue vm3 cl where
    r: "READ_BYTE vm = Some (isLocal, vm1)" "READ_BYTE vm1 = Some (index, vm2)"
    and u: "(if isLocal \<noteq> 0 then do {
          frame \<leftarrow> current_frame vm2;
          (u, vm) \<leftarrow> captureUpvalue (fr_slots frame + unat index) vm2;
          Some (Some u, vm)
        } else do { u \<leftarrow> frame_upvalue index vm2; Some (u, vm2) }) = Some (upvalue, vm3)"
    and c: "as_closure (vm_store vm3) closure = Some cl"
    and rest: "capture_loop closure (i + 1) n
      (put_obj closure (OClosure (cl\<lparr>cl_upvalues := (cl_upvalues cl)[i := upvalue]\<rparr>)) vm3) = Some vm'"
    by (auto elim!: bind_SomeE)
  let ?vm4 = "put_obj closure (OClosure (cl\<lparr>cl_upvalues := (cl_upvalues cl)[i := upvalue]\<rparr>)) vm3"
  have ih: "instances_kept (vm_gc ?vm4) (vm_gc vm')" using 2(1) r u c rest by simp
  have "instances_kept (vm_gc vm2) (vm_gc vm3)"
    using u by (auto elim!: bind_SomeE dest!: captureUpvalue_kept split: if_split_asm)
  then have "instances_kept (vm_gc vm) (vm_gc ?vm4)" using r by (auto dest!: read_kept)
  with ih show ?case using instances_kept_trans by blast
qed simp

section \<open>Every instruction but one\<close>

definition natives_keep_instances :: "natives \<Rightarrow> bool" where
  "natives_keep_instances native \<longleftrightarrow>
     (\<forall>id vm n args v vm'. native id vm n args = Some (Returns v vm') \<longrightarrow>
        instances_kept (vm_gc vm) (vm_gc vm'))"

text \<open>The natives of the program write no field.\<close>

interpretation field_natives: native_relation "\<lambda>vm vm'. instances_kept (vm_gc vm) (vm_gc vm')"
proof
  show "instances_kept (vm_gc a) (vm_gc b) \<Longrightarrow> instances_kept (vm_gc b) (vm_gc c) \<Longrightarrow>
    instances_kept (vm_gc a) (vm_gc c)" for a b c by (rule instances_kept_trans)
qed (auto simp: free_buffer_def resetStack_def dest!: kept)

lemma run_native_keeps_instances: "natives_keep_instances (run_native version)"
  using field_natives.run_native_R by (auto simp: natives_keep_instances_def)

lemma set_ip_gc [simp]: "vm_gc (set_ip n vm) = vm_gc vm"
  by (simp add: set_ip_def split: list.split)

lemma push_next_kept [kept]: "push_next v vm = Some (Next vm') \<Longrightarrow> vm_gc vm' = vm_gc vm"
  by (auto simp: push_next_def elim!: bind_SomeE dest!: kept)

lemma replace_operands_kept [kept]: "replace_operands v vm = Some (Next vm') \<Longrightarrow> vm_gc vm' = vm_gc vm"
  by (auto simp: replace_operands_def elim!: bind_SomeE dest!: kept)

lemma number_kept [kept]:
  "numberBinary op e vm = Some (Next vm') \<Longrightarrow> vm_gc vm' = vm_gc vm"
  "numberCompare g vm = Some (Next vm') \<Longrightarrow> vm_gc vm' = vm_gc vm"
  "castNumber s p t vm = Some (Next vm') \<Longrightarrow> vm_gc vm' = vm_gc vm"
  by (auto simp: numberBinary_def numberCompare_def castNumber_def elim!: bind_SomeE dest!: kept
      split: Value.split_asm option.split_asm arith_result.split_asm if_split_asm NumberCastResult.split_asm)

lemma concatenate_kept [kept]: "concatenate vm = Some (Next vm') \<Longrightarrow> instances_kept (vm_gc vm) (vm_gc vm')"
  by (auto simp: concatenate_def elim!: bind_SomeE dest!: kept intro: instances_kept_trans split: if_split_asm)

lemma call_kept [kept]: "call c n vm = Some (Next vm') \<Longrightarrow> vm_gc vm' = vm_gc vm"
  by (auto simp: call_def elim!: bind_SomeE split: if_split_asm)

lemma callValue_kept:
  "callValue native v n vm = Some (Next vm') \<Longrightarrow> natives_keep_instances native \<Longrightarrow>
     instances_kept (vm_gc vm) (vm_gc vm')"
  unfolding callValue_def callNative_def natives_keep_instances_def
  by (auto elim!: bind_SomeE split: Value.split_asm Obj.split_asm if_split_asm NativeResult.split_asm dest!: kept)

lemma invokeFromStruct_kept [kept]:
  "invokeFromStruct s name n vm = Some (Next vm') \<Longrightarrow> vm_gc vm' = vm_gc vm"
  "invokeStatic s name n vm = Some (Next vm') \<Longrightarrow> vm_gc vm' = vm_gc vm"
  by (auto simp: invokeFromStruct_def invokeStatic_def elim!: bind_SomeE
      split: option.split_asm if_split_asm dest!: call_kept)

lemma invoke_kept:
  assumes "invoke native name n vm = Some (Next vm')" "natives_keep_instances native"
  shows "instances_kept (vm_gc vm) (vm_gc vm')"
proof -
  have field: "instances_kept (vm_gc vm) (vm_gc vm')"
    if "set_callee n v vm = Some vm1" "callValue native v n vm1 = Some (Next vm')" for v vm1
    using callValue_kept [OF that(2) assms(2)] stack_kept(4) [OF that(1)] by simp
  show ?thesis using assms(1)
    by (auto simp: invoke_def invokeInstance_def Let_def elim!: bind_SomeE field
        split: option.split_asm if_split_asm dest!: invokeFromStruct_kept)
qed

lemma bindMethod_kept [kept]: "bindMethod s n vm = Some (Next vm') \<Longrightarrow> instances_kept (vm_gc vm) (vm_gc vm')"
  by (auto simp: bindMethod_def elim!: bind_SomeE dest!: kept split: option.split_asm if_split_asm)

lemma defineMethod_kept [kept]: "defineMethod n vm = Some (Next vm') \<Longrightarrow> instances_kept (vm_gc vm) (vm_gc vm')"
  by (auto simp: defineMethod_def Let_def elim!: bind_SomeE dest!: kept instances_kept_after_put
      split: option.split_asm if_split_asm)

lemma init_fields_kept:
  assumes "init_fields s r ps given vm = Some (Inr (given', vm'))" "gc_fresh g \<le> r" "instances_kept g (vm_gc vm)"
  shows "instances_kept g (vm_gc vm')"
  using assms
proof (induction s r ps given vm rule: init_fields.induct)
  case (2 struct_ref instance_ref name val pairs provided vm)
  from 2(2) obtain field slot vm1 where "find_slot struct_ref field vm = Some (Some slot)"
    "set_field instance_ref slot val vm = Some vm1"
    and rest: "init_fields struct_ref instance_ref pairs (provided[slot := True]) vm1 = Some (Inr (given', vm'))"
    and ih: "instances_kept g (vm_gc vm1) \<Longrightarrow> instances_kept g (vm_gc vm')"
    using 2(1,3) by (auto elim!: bind_SomeE split: option.split_asm if_split_asm)
  moreover from this(2) have "instances_kept g (vm_gc vm1)"
    using 2(3,4) by (auto simp: set_field_def elim!: bind_SomeE split: if_split_asm intro!: instances_kept_put_new)
  ultimately show ?case by simp
qed simp

lemma exec_kept:
  "exec_SET_GLOBAL vm = Some (Next vm') \<Longrightarrow> instances_kept (vm_gc vm) (vm_gc vm')"
  "exec_DEFINE_GLOBAL vm = Some (Next vm') \<Longrightarrow> instances_kept (vm_gc vm) (vm_gc vm')"
  "exec_ADD vm = Some (Next vm') \<Longrightarrow> instances_kept (vm_gc vm) (vm_gc vm')"
  "exec_RETURN vm = Some (Next vm') \<Longrightarrow> instances_kept (vm_gc vm) (vm_gc vm')"
  "exec_CLOSE_BLOCK_EXPR vm = Some (Next vm') \<Longrightarrow> instances_kept (vm_gc vm) (vm_gc vm')"
  "exec_SET_UPVALUE vm = Some (Next vm') \<Longrightarrow> instances_kept (vm_gc vm) (vm_gc vm')"
  "exec_CLOSE_UPVALUE vm = Some (Next vm') \<Longrightarrow> instances_kept (vm_gc vm) (vm_gc vm')"
  "exec_STRUCT vm = Some (Next vm') \<Longrightarrow> instances_kept (vm_gc vm) (vm_gc vm')"
  "exec_METHOD vm = Some (Next vm') \<Longrightarrow> instances_kept (vm_gc vm) (vm_gc vm')"
  "exec_SET_INDEX vm = Some (Next vm') \<Longrightarrow> instances_kept (vm_gc vm) (vm_gc vm')"
  by (auto simp: exec_SET_GLOBAL_def exec_DEFINE_GLOBAL_def exec_ADD_def exec_RETURN_def Let_def
      exec_CLOSE_BLOCK_EXPR_def exec_SET_UPVALUE_def exec_CLOSE_UPVALUE_def exec_STRUCT_def exec_METHOD_def
      exec_SET_INDEX_def elim!: bind_SomeE with_position_use dest!: kept split: if_split_asm)

lemma exec_same_heap:
  "exec_CONSTANT vm = Some (Next vm') \<Longrightarrow> vm_gc vm' = vm_gc vm"
  "exec_GET_LOCAL vm = Some (Next vm') \<Longrightarrow> vm_gc vm' = vm_gc vm"
  "exec_SET_LOCAL vm = Some (Next vm') \<Longrightarrow> vm_gc vm' = vm_gc vm"
  "exec_GET_GLOBAL vm = Some (Next vm') \<Longrightarrow> vm_gc vm' = vm_gc vm"
  "exec_NOT vm = Some (Next vm') \<Longrightarrow> vm_gc vm' = vm_gc vm"
  "exec_NEGATE vm = Some (Next vm') \<Longrightarrow> vm_gc vm' = vm_gc vm"
  "exec_CAST vm = Some (Next vm') \<Longrightarrow> vm_gc vm' = vm_gc vm"
  "exec_EQUAL vm = Some (Next vm') \<Longrightarrow> vm_gc vm' = vm_gc vm"
  "exec_POP vm = Some (Next vm') \<Longrightarrow> vm_gc vm' = vm_gc vm"
  "exec_PRINT vm = Some (Next vm') \<Longrightarrow> vm_gc vm' = vm_gc vm"
  "jump_if c vm = Some (Next vm') \<Longrightarrow> vm_gc vm' = vm_gc vm"
  "exec_JUMP vm = Some (Next vm') \<Longrightarrow> vm_gc vm' = vm_gc vm"
  "exec_LOOP vm = Some (Next vm') \<Longrightarrow> vm_gc vm' = vm_gc vm"
  "exec_GET_UPVALUE vm = Some (Next vm') \<Longrightarrow> vm_gc vm' = vm_gc vm"
  "exec_GET_INDEX vm = Some (Next vm') \<Longrightarrow> vm_gc vm' = vm_gc vm"
  by (auto simp: exec_CONSTANT_def exec_GET_LOCAL_def exec_SET_LOCAL_def exec_GET_GLOBAL_def exec_NOT_def
      exec_NEGATE_def exec_CAST_def exec_EQUAL_def exec_POP_def exec_PRINT_def jump_if_def exec_JUMP_def
      exec_LOOP_def exec_GET_UPVALUE_def exec_GET_INDEX_def elim!: bind_SomeE with_position_use
      dest!: kept split: if_split_asm option.split_asm Value.split_asm arith_result.split_asm)

lemma exec_kept_alloc:
  "exec_CLOSURE vm = Some (Next vm') \<Longrightarrow> instances_kept (vm_gc vm) (vm_gc vm')"
  "exec_FIELD vm = Some (Next vm') \<Longrightarrow> instances_kept (vm_gc vm) (vm_gc vm')"
  "exec_LIST vm = Some (Next vm') \<Longrightarrow> instances_kept (vm_gc vm) (vm_gc vm')"
  "exec_ARRAY vm = Some (Next vm') \<Longrightarrow> instances_kept (vm_gc vm) (vm_gc vm')"
  "exec_GET_PROPERTY vm = Some (Next vm') \<Longrightarrow> instances_kept (vm_gc vm) (vm_gc vm')"
proof -
  show "exec_CLOSURE vm = Some (Next vm') \<Longrightarrow> instances_kept (vm_gc vm) (vm_gc vm')"
    by (auto simp: exec_CLOSURE_def Let_def elim!: bind_SomeE dest!: kept instances_kept_after_put)
      (blast intro: instances_kept_trans)
  show "exec_FIELD vm = Some (Next vm') \<Longrightarrow> instances_kept (vm_gc vm) (vm_gc vm')"
    by (auto simp: exec_FIELD_def Let_def elim!: bind_SomeE dest!: kept split: if_split_asm)
  show "exec_LIST vm = Some (Next vm') \<Longrightarrow> instances_kept (vm_gc vm) (vm_gc vm')"
    by (auto simp: exec_LIST_def elim!: bind_SomeE dest!: kept) (metis instances_kept_trans)
  show "exec_ARRAY vm = Some (Next vm') \<Longrightarrow> instances_kept (vm_gc vm) (vm_gc vm')"
    by (auto simp: exec_ARRAY_def Let_def elim!: bind_SomeE dest!: kept split: if_split_asm)
  show "exec_GET_PROPERTY vm = Some (Next vm') \<Longrightarrow> instances_kept (vm_gc vm) (vm_gc vm')"
    by (auto simp: exec_GET_PROPERTY_def get_struct_property_def get_instance_property_def Let_def
        elim!: bind_SomeE dest!: kept split: if_split_asm option.split_asm)
qed

lemma exec_STRUCT_INIT_kept:
  assumes "exec_STRUCT_INIT vm = Some (Next vm')"
  shows "instances_kept (vm_gc vm) (vm_gc vm')"
proof -
  from assms obtain c vm1 s r vm2 given vm3 n where "READ_BYTE vm = Some (c, vm1)"
    and i: "newInstance s vm1 = Some (r, vm2)"
    and f: "init_fields s r (init_pairs vm2 (vm_stackTop vm1 - 2 * unat c) (unat c)) (replicate 256 False) vm2 =
      Some (Inr (given, vm3))"
    and p: "push_next (VAL_OBJ r) (vm3\<lparr>vm_stackTop := n\<rparr>) = Some (Next vm')"
    by (auto simp: exec_STRUCT_INIT_def Let_def elim!: bind_SomeE
        split: if_split_asm sum.split_asm option.split_asm)
  then have "vm_gc vm1 = vm_gc vm" by (auto dest!: kept)
  with newInstance_kept [OF i] init_fields_kept [OF f, of "vm_gc vm"] push_next_kept [OF p]
  show ?thesis by simp
qed

lemma execute_kept:
  assumes "execute native op vm = Some (Next vm')" "op \<noteq> OP_SET_PROPERTY" "natives_keep_instances native"
  shows "instances_kept (vm_gc vm) (vm_gc vm')"
proof -
  have CALL: "exec_CALL native vm = Some (Next vm') \<Longrightarrow> instances_kept (vm_gc vm) (vm_gc vm')"
    using callValue_kept [OF _ assms(3)] by (fastforce simp: exec_CALL_def elim!: bind_SomeE dest!: read_kept)
  have INVOKE: "exec_INVOKE native vm = Some (Next vm') \<Longrightarrow> instances_kept (vm_gc vm) (vm_gc vm')"
    using invoke_kept [OF _ assms(3)] by (fastforce simp: exec_INVOKE_def elim!: bind_SomeE dest!: read_kept)
  have eq: "gc' = gc \<Longrightarrow> instances_kept gc gc'" for gc gc' by simp
  note same = exec_same_heap [THEN eq] push_next_kept [THEN eq] number_kept [THEN eq]
  show ?thesis using assms(1,2)
    by (cases op) (auto simp: exec_kept exec_kept_alloc exec_STRUCT_INIT_kept CALL INVOKE same)
qed

section \<open>Writing a field\<close>

lemma currentOwner_advances: "advances n vm vm' \<Longrightarrow> currentOwner vm' = currentOwner vm"
  by (auto simp: advances_def currentOwner_def)

lemma exec_SET_PROPERTY_writes:
  assumes "exec_SET_PROPERTY vm = Some (Next vm')"
  obtains r i slot s vs v where
    "as_instance (vm_store vm) r = Some i" "as_struct (vm_store vm) (in_struct i) = Some s"
    "in_fields i = Some vs" "slot < length vs" "st_fieldMutable s ! slot = Some True"
    "st_fieldPublic s ! slot \<or> currentOwner vm = Some (Some (in_struct i))"
    "vm_store vm' = (vm_store vm)(r \<mapsto> OInstance (i\<lparr>in_fields := Some (vs[slot := v])\<rparr>))"
proof -
  from assms obtain r i name vm1 slot s v vm2 where
    i: "as_instance (vm_store vm) r = Some i" and n: "READ_STRING vm = Some (name, vm1)"
    and acc: "canAccessField (in_struct i) slot vm1 = Some True" "as_struct (vm_store vm1) (in_struct i) = Some s"
    and mut: "(if slot < length (st_fieldMutable s) then st_fieldMutable s ! slot else None) = Some True"
    and w: "set_field r slot v vm1 = Some vm2" "vm_gc vm' = vm_gc vm2"
    by (auto simp: exec_SET_PROPERTY_def Let_def elim!: bind_SomeE split: if_split_asm option.split_asm
        dest!: stack_kept push_next_kept)
  have adv: "advances 1 vm vm1" "vm_gc vm1 = vm_gc vm" using READ_STRING_effect [OF n] read_kept(3) [OF n] by simp_all
  from w(1) i adv obtain vs where vs: "in_fields i = Some vs" "slot < length vs"
    "vm_store vm2 = (vm_store vm)(r \<mapsto> OInstance (i\<lparr>in_fields := Some (vs[slot := v])\<rparr>))"
    by (auto simp: set_field_def elim!: bind_SomeE split: if_split_asm)
  have s: "as_struct (vm_store vm) (in_struct i) = Some s" using acc(2) adv by simp
  have "st_fieldPublic s ! slot \<or> currentOwner vm = Some (Some (in_struct i))"
    using acc(1) s adv currentOwner_advances [OF adv(1)]
    by (auto simp: canAccessField_def canAccess_def elim!: bind_SomeE split: if_split_asm)
  with that [OF i s vs(1,2)] mut vs(3) w(2) show thesis by (auto split: if_split_asm)
qed

text \<open>
  C2. An instruction, a call of any of the program's natives included, changes an instance that existed
  before only by storing one field that its struct declares mutable and that is public or belongs to the
  struct whose method is running: immutable fields never change and private ones are written from inside
  only.
\<close>

theorem fields_change_only_by_permission:
  assumes "step (run_native version) vm = Some (Next vm')" and "r < gc_fresh (vm_gc vm)" and "as_instance (vm_store vm') r = Some i'"
  shows "\<exists>i. as_instance (vm_store vm) r = Some i \<and>
    (i' = i \<or>
     (\<exists>slot s vs v. in_fields i = Some vs \<and> i' = i\<lparr>in_fields := Some (vs[slot := v])\<rparr> \<and>
        as_struct (vm_store vm) (in_struct i) = Some s \<and> st_fieldMutable s ! slot = Some True \<and>
        (st_fieldPublic s ! slot \<or> currentOwner vm = Some (Some (in_struct i)))))"
proof -
  have i': "vm_store vm' r = Some (OInstance i')"
    using assms(3) by (auto simp: as_instance_def split: option.split_asm Obj.split_asm)
  from assms(1) obtain b vm1 where b: "READ_BYTE vm = Some (b, vm1)"
    "(case op_of_byte b of None \<Rightarrow> Some (Next vm1) | Some op \<Rightarrow> execute (run_native version) op vm1) = Some (Next vm')"
    by (auto simp: step_def elim!: bind_SomeE)
  have adv: "advances 1 vm vm1" "vm_gc vm1 = vm_gc vm" using READ_BYTE_effect [OF b(1)] read_kept(1) [OF b(1)] by simp_all
  have kept: ?thesis if "instances_kept (vm_gc vm) (vm_gc vm')"
    using that assms(2) i' by (auto simp: instances_kept_def as_instance_def)
  show ?thesis
  proof (cases "op_of_byte b")
    case None
    then show ?thesis using b(2) adv kept by simp
  next
    case (Some op)
    then have ex: "execute (run_native version) op vm1 = Some (Next vm')" using b(2) by simp
    show ?thesis
    proof (cases "op = OP_SET_PROPERTY")
      case False
      then show ?thesis using execute_kept [OF ex False run_native_keeps_instances] adv kept by simp
    next
      case True
      then have "exec_SET_PROPERTY vm1 = Some (Next vm')" using ex by simp
      then obtain r' i slot s vs v where w: "as_instance (vm_store vm1) r' = Some i"
        "as_struct (vm_store vm1) (in_struct i) = Some s" "in_fields i = Some vs"
        "st_fieldMutable s ! slot = Some True" "st_fieldPublic s ! slot \<or> currentOwner vm1 = Some (Some (in_struct i))"
        "vm_store vm' = (vm_store vm1)(r' \<mapsto> OInstance (i\<lparr>in_fields := Some (vs[slot := v])\<rparr>))"
        by (rule exec_SET_PROPERTY_writes)
      show ?thesis
      proof (cases "r = r'")
        case True
        with w i' adv currentOwner_advances [OF adv(1)] show ?thesis
          by (auto intro!: exI [of _ i] exI [of _ slot] exI [of _ s])
      next
        case False
        with w(6) i' adv show ?thesis by (auto simp: as_instance_def)
      qed
    qed
  qed
qed

text \<open>A struct with one public, mutable field, an instance of it, and a program that sets the field.\<close>

definition field_table :: Table where
  "field_table = \<lparr>t_count = 1, t_capacity = 8,
     t_entries = [\<lparr>e_key = Some 2, e_value = slot_value 0\<rparr>, empty_entry, empty_entry, empty_entry,
       empty_entry, empty_entry, empty_entry, empty_entry]\<rparr>"

definition field_struct :: ObjStruct where
  "field_struct = \<lparr>st_name = 2, st_methods = initTable, st_fields = field_table, st_fieldCount = 1,
     st_fieldPublic = True # replicate 255 False, st_fieldMutable = Some True # replicate 255 None\<rparr>"

definition field_run :: VM where
  "field_run = (sample_run [35, 0] [VAL_OBJ 2] [VAL_OBJ 1, VAL_OBJ 4, VAL_BOOL True])
     \<lparr>vm_gc := (vm_gc initial_vm)\<lparr>
        gc_store := [0 \<mapsto> OFunction (sample_function [35, 0] [VAL_OBJ 2]),
          1 \<mapsto> OClosure \<lparr>cl_function = 0, cl_upvalues = [], cl_owner = None\<rparr>,
          2 \<mapsto> OString \<lparr>str_chars = [120], str_hash = 0\<rparr>,
          3 \<mapsto> OStruct field_struct,
          4 \<mapsto> OInstance \<lparr>in_struct = 3, in_fields = Some [VAL_NIL]\<rparr>],
        gc_objects := [4, 3, 2, 1, 0], gc_fresh := 5\<rparr>\<rparr>"

lemma field_slot: "slot_of_value (slot_value 0) = Some 0"
  using f64_trunc_of_int [of 0] by (simp add: slot_of_value_def slot_value_def)

lemma field_get: "tableGet hash field_table 2 = Some (Some (slot_value 0))" if "hash 2 = 0"
proof -
  have "findEntry_loop (Suc 7) (t_entries field_table) 8 2 0 None = Some 0"
    by (simp only: findEntry_loop.simps) (simp add: field_table_def)
  then have "findEntry hash (t_entries field_table) 8 2 = Some 0" using that by (simp add: findEntry_def)
  moreover have "t_count field_table = 1" "t_capacity field_table = 8"
    "t_entries field_table ! 0 = \<lparr>e_key = Some 2, e_value = slot_value 0\<rparr>"
    by (simp_all add: field_table_def)
  ultimately show ?thesis by (simp add: tableGet_def)
qed

lemma field_run_step:
  "\<exists>vm'. step native field_run = Some (Next vm') \<and>
     as_instance (vm_store vm') 4 = Some \<lparr>in_struct = 3, in_fields = Some [VAL_BOOL True]\<rparr>"
proof -
  have slot: "structFieldSlot (vm_store field_run) field_struct 2 = Some (Some 0)"
    using field_get [of "key_hash (vm_store field_run)"]
    by (simp add: structFieldSlot_def field_struct_def field_slot)
      (simp add: key_hash_def field_run_def field_slot)
  define vm1 where "vm1 = set_ip 2 field_run"
  have store: "vm_store vm1 = vm_store field_run" by (simp add: vm1_def)
  have st: "as_struct (vm_store field_run) 3 = Some field_struct"
    "as_string (vm_store field_run) 2 = Some \<lparr>str_chars = [120], str_hash = 0\<rparr>"
    "as_instance (vm_store field_run) 4 = Some \<lparr>in_struct = 3, in_fields = Some [VAL_NIL]\<rparr>"
    by (simp_all add: field_run_def as_struct_def as_string_def as_instance_def)
  have name: "READ_STRING (set_ip 1 field_run) = Some (2, vm1)"
    by (simp add: vm1_def READ_STRING_def READ_CONSTANT_def field_run_def sample_run_simps Let_def
        value_ref_def as_string_def)
  have step: "step native field_run = exec_SET_PROPERTY (set_ip 1 field_run)"
    by (simp add: field_run_def sample_run_simps)
  have "peekStack 1 (set_ip 1 field_run) = Some (VAL_OBJ 4)" "peekStack 0 vm1 = Some (VAL_BOOL True)"
    "vm_stackTop vm1 = 3" "vm_stack vm1 2 = VAL_BOOL True"
    by (simp_all add: vm1_def field_run_def sample_run_simps peekStack_def)
  moreover have "isObjType (vm_store field_run) (VAL_OBJ 4) OBJ_INSTANCE = Some True"
    by (simp add: isObjType_def field_run_def)
  moreover have "find_slot 3 2 vm1 = Some (Some 0)" using slot st by (simp add: find_slot_def store)
  moreover have "canAccessField 3 0 vm1 = Some True"
    using st(1) by (simp add: canAccessField_def canAccess_def store field_struct_def)
  moreover have "shown vm1 2 = Some [120]" "struct_shown vm1 3 = Some [120]"
    using st by (simp_all add: shown_def struct_shown_def string_at_def c_string_def store field_struct_def)
  ultimately have "\<exists>vm'. exec_SET_PROPERTY (set_ip 1 field_run) = Some (Next vm') \<and>
      as_instance (vm_store vm') 4 = Some \<lparr>in_struct = 3, in_fields = Some [VAL_BOOL True]\<rparr>"
    using st name
    by (simp add: exec_SET_PROPERTY_def value_ref_def store set_field_def popFromStack_def push_next_def
        pushOnStack_def STACK_MAX_def FRAMES_MAX_def field_struct_def as_instance_def)
  then show ?thesis unfolding step .
qed

theorem fields_change_only_by_permission_witness:
  "\<exists>vm'. step (run_native [48]) field_run = Some (Next vm') \<and>
     as_instance (vm_store vm') 4 = Some \<lparr>in_struct = 3, in_fields = Some [VAL_BOOL True]\<rparr> \<and>
     (\<exists>slot s. as_struct (vm_store field_run) 3 = Some s \<and> st_fieldMutable s ! slot = Some True)"
proof -
  obtain vm' where vm': "step (run_native [48]) field_run = Some (Next vm')"
    "as_instance (vm_store vm') 4 = Some \<lparr>in_struct = 3, in_fields = Some [VAL_BOOL True]\<rparr>"
    using field_run_step by blast
  have i: "as_instance (vm_store field_run) 4 = Some \<lparr>in_struct = 3, in_fields = Some [VAL_NIL]\<rparr>"
    "4 < gc_fresh (vm_gc field_run)"
    by (simp_all add: field_run_def as_instance_def)
  from fields_change_only_by_permission [OF vm'(1) i(2) vm'(2)] i(1) vm' show ?thesis by auto
qed

end
