(* ===== verification/VM_Frames.thy ===== *)
theory VM_Frames
  imports VM_Effects Native_Relations
begin

text \<open>
  The call frames: what one instruction can do to them, and that their number is bounded however long a program
  runs.  The machine here has the program's
  own natives, \<open>run_native\<close>: they leave the frames alone, but for the two that on an error reset the stack and
  return, after which nothing is left to return to.
\<close>

section \<open>Natives\<close>

definition frames_kept :: "VM \<Rightarrow> VM \<Rightarrow> bool" where
  "frames_kept vm vm' \<longleftrightarrow> vm_frames vm' = vm_frames vm \<or> vm_frames vm' = []"

lemma same_height_frames_kept: "same_height vm vm' \<Longrightarrow> frames_kept vm vm'"
  by (simp add: same_height_def frames_kept_def)

interpretation frame_natives: native_relation frames_kept
proof
  show "takeString cs vm = Some (r, vm') \<Longrightarrow> frames_kept vm vm'"
    "copyString cs vm = Some (r, vm') \<Longrightarrow> frames_kept vm vm'" "newList vm = Some (r, vm') \<Longrightarrow> frames_kept vm vm'"
    "newArray n vm = Some (r, vm') \<Longrightarrow> frames_kept vm vm'" "reallocate m n vm = Some vm' \<Longrightarrow> frames_kept vm vm'"
    "writeValueToListObj r v vm = Some vm' \<Longrightarrow> frames_kept vm vm'"
    for cs r vm vm' n m v
    by (auto dest: effects intro: same_height_frames_kept)
qed (auto simp: frames_kept_def free_buffer_def resetStack_def dest!: effects)

definition natives_keep_frames :: "natives \<Rightarrow> bool" where
  "natives_keep_frames native \<longleftrightarrow>
     (\<forall>fid vm n args v vm'. native fid vm n args = Some (Returns v vm') \<longrightarrow> frames_kept vm vm')"

lemma run_native_keeps_frames: "natives_keep_frames (run_native version)"
  using frame_natives.run_native_R by (auto simp: natives_keep_frames_def)

section \<open>One instruction\<close>

text \<open>The current frame moves on, or a frame is added if there is room for it.\<close>

definition frames_grow :: "CallFrame list \<Rightarrow> CallFrame list \<Rightarrow> bool" where
  "frames_grow fs fs' \<longleftrightarrow>
     fs' = [] \<or>
     (\<exists>frame frames ip. fs = frame # frames \<and>
        (fs' = frame\<lparr>fr_ip := ip\<rparr> # frames \<or>
         (length fs \<noteq> FRAMES_MAX \<and> (\<exists>callee. fs' = callee # frame\<lparr>fr_ip := ip\<rparr> # frames))))"

lemma frames_grow_adv: "frames_grow fs (adv n fs)"
  by (cases fs) (auto simp: frames_grow_def)

lemma frames_grow_same [simp]: "frames_grow fs fs"
  using frames_grow_adv [of fs 0] by simp

lemma frames_grow_after_adv: "frames_grow (adv n fs) fs' \<Longrightarrow> frames_grow fs fs'"
  by (cases fs) (auto simp: frames_grow_def)

lemma call_frames: "call c n vm = Some (Next vm') \<Longrightarrow> vm_frames vm \<noteq> [] \<Longrightarrow> frames_grow (vm_frames vm) (vm_frames vm')"
proof -
  assume c: "call c n vm = Some (Next vm')" and "vm_frames vm \<noteq> []"
  then obtain frame frames where fr: "vm_frames vm = frame # frames" by (cases "vm_frames vm") auto
  from c have "length (vm_frames vm) \<noteq> FRAMES_MAX \<and> (\<exists>callee. vm_frames vm' = callee # vm_frames vm)"
    by (auto simp: call_def elim!: bind_SomeE split: if_split_asm)
  moreover have "frame\<lparr>fr_ip := fr_ip frame\<rparr> = frame" by simp
  ultimately show ?thesis using fr unfolding frames_grow_def by metis
qed

lemma callNative_frames:
  assumes "callNative native fid n vm = Some (Next vm')" "natives_keep_frames native"
  shows "frames_grow (vm_frames vm) (vm_frames vm')"
proof -
  from assms(1) obtain v vm1 vm2 where "native fid vm n (vm_stackTop vm - n) = Some (Returns v vm1)"
    "popNFromStack (n + 1) vm1 = Some vm2" "pushOnStack v vm2 = Some vm'"
    by (auto simp: callNative_def elim!: bind_SomeE split: if_split_asm NativeResult.split_asm)
  moreover from this assms(2) have "frames_kept vm vm1" by (auto simp: natives_keep_frames_def)
  ultimately have "vm_frames vm' = vm_frames vm \<or> vm_frames vm' = []"
    by (auto simp: frames_kept_def dest!: effects)
  then show ?thesis by (elim disjE) (simp, simp add: frames_grow_def)
qed

lemma callValue_frames:
  assumes "callValue native v n vm = Some (Next vm')" "natives_keep_frames native" "vm_frames vm \<noteq> []"
  shows "frames_grow (vm_frames vm) (vm_frames vm')"
proof -
  have bound: "frames_grow (vm_frames vm) (vm_frames vm')"
    if "set_callee n r vm = Some vm1" "call m n vm1 = Some (Next vm')" for r m vm1
    using that call_frames [OF that(2)] set_callee_height [OF that(1)] assms(3) by (simp add: same_height_def)
  show ?thesis using assms(1) callNative_frames [OF _ assms(2)] call_frames [OF _ assms(3)] bound
    by (auto simp: callValue_def elim!: bind_SomeE split: Value.split_asm Obj.split_asm)
qed

lemma invoke_frames:
  assumes "invoke native name n vm = Some (Next vm')" "natives_keep_frames native" "vm_frames vm \<noteq> []"
  shows "frames_grow (vm_frames vm) (vm_frames vm')"
proof -
  have st: "invokeFromStruct s name n vm = Some (Next vm') \<Longrightarrow> frames_grow (vm_frames vm) (vm_frames vm')"
    "invokeStatic s name n vm = Some (Next vm') \<Longrightarrow> frames_grow (vm_frames vm) (vm_frames vm')" for s
    using call_frames [OF _ assms(3)] by (auto simp: invokeFromStruct_def invokeStatic_def elim!: bind_SomeE
        split: option.split_asm if_split_asm)
  have field: "frames_grow (vm_frames vm) (vm_frames vm')"
    if "set_callee n v vm = Some vm1" "callValue native v n vm1 = Some (Next vm')" for v vm1
    using callValue_frames [OF that(2) assms(2)] set_callee_height [OF that(1)] assms(3)
    by (simp add: same_height_def)
  show ?thesis using assms(1) st field
    by (auto simp: invoke_def invokeInstance_def Let_def elim!: bind_SomeE split: option.split_asm if_split_asm)
qed

lemma set_ip_frames: "frames_grow (vm_frames vm) (vm_frames (set_ip n vm))"
  by (cases "vm_frames vm") (auto simp: set_ip_def frames_grow_def)

lemma jump_frames:
  "jump_if c vm = Some (Next vm') \<Longrightarrow> frames_grow (vm_frames vm) (vm_frames vm')"
  "exec_JUMP vm = Some (Next vm') \<Longrightarrow> frames_grow (vm_frames vm) (vm_frames vm')"
  "exec_LOOP vm = Some (Next vm') \<Longrightarrow> frames_grow (vm_frames vm) (vm_frames vm')"
proof -
  have short: "frames_grow (vm_frames vm) (vm_frames vm1)" "frames_grow (vm_frames vm) (vm_frames (set_ip k vm1))"
    if "READ_SHORT vm = Some (n, vm1)" for n vm1 k
    using read_facts(4) [OF that] frames_grow_adv [of "vm_frames vm" 2]
      frames_grow_after_adv [of 2 "vm_frames vm"] set_ip_frames [of vm1 k] by simp_all
  show "jump_if c vm = Some (Next vm') \<Longrightarrow> frames_grow (vm_frames vm) (vm_frames vm')"
    "exec_JUMP vm = Some (Next vm') \<Longrightarrow> frames_grow (vm_frames vm) (vm_frames vm')"
    "exec_LOOP vm = Some (Next vm') \<Longrightarrow> frames_grow (vm_frames vm) (vm_frames vm')"
    by (auto simp: jump_if_def exec_JUMP_def exec_LOOP_def elim!: bind_SomeE intro: short split: if_split_asm)
qed

lemma exec_RETURN_frames:
  assumes "exec_RETURN vm = Some (Next vm')"
  shows "\<exists>frame. vm_frames vm = frame # vm_frames vm' \<and> vm_frames vm' \<noteq> [] \<and>
    vm_stackTop vm' = fr_slots frame + 1 \<and>
    vm_stack vm' = (vm_stack vm)(fr_slots frame := vm_stack vm (vm_stackTop vm - 1))"
proof -
  from assms obtain frame result vm1 vm2 where r: "current_frame vm = Some frame" "popFromStack vm = Some (result, vm1)"
    "closeUpvalues (fr_slots frame) vm1 = Some vm2" "tl (vm_frames vm2) \<noteq> []"
    "push_next result (vm2\<lparr>vm_frames := tl (vm_frames vm2), vm_stackTop := fr_slots frame\<rparr>) = Some (Next vm')"
    by (auto simp: exec_RETURN_def Let_def elim!: bind_SomeE split: if_split_asm)
  have s: "close_loop b us vm = Some vm' \<Longrightarrow> vm_stack vm' = vm_stack vm" for b us vm vm'
  proof (induction us arbitrary: vm)
    case (Cons u us)
    then show ?case by (auto elim!: bind_SomeE split: Location.split_asm if_split_asm)
  qed auto
  have "vm_frames vm2 = vm_frames vm" "vm_stack vm2 = vm_stack vm" "result = vm_stack vm (vm_stackTop vm - 1)"
    using r(2,3) closeUpvalues_height [OF r(3)] s
    by (auto simp: closeUpvalues_def same_height_def popFromStack_def split: if_split_asm)
  moreover obtain frames where "vm_frames vm = frame # frames"
    using r(1) by (auto simp: current_frame_def split: list.split_asm)
  ultimately show ?thesis using r(4,5)
    by (auto simp: push_next_def pushOnStack_def elim!: bind_SomeE split: if_split_asm)
qed

lemma execute_frames:
  assumes "execute native op vm = Some (Next vm')" "natives_keep_frames native" "vm_frames vm \<noteq> []"
    "op \<noteq> OP_RETURN"
  shows "frames_grow (vm_frames vm) (vm_frames vm')"
proof -
  have adv_step: "frames_grow (vm_frames vm) (vm_frames vm')"
    if "vm_frames vm1 = adv n (vm_frames vm)" "vm_frames vm1 \<noteq> [] \<Longrightarrow> frames_grow (vm_frames vm1) (vm_frames vm')"
    for vm1 n
    using that assms(3) frames_grow_after_adv [of n "vm_frames vm"] by (cases "vm_frames vm") auto
  have CALL: "frames_grow (vm_frames vm) (vm_frames vm')" if c: "exec_CALL native vm = Some (Next vm')"
  proof -
    from c obtain a vm1 v where r: "READ_BYTE vm = Some (a, vm1)" "callValue native v (unat a) vm1 = Some (Next vm')"
      by (auto simp: exec_CALL_def elim!: bind_SomeE)
    then show ?thesis using adv_step [of vm1 1] read_facts(1) [OF r(1)] callValue_frames [OF r(2) assms(2)] by simp
  qed
  have INVOKE: "frames_grow (vm_frames vm) (vm_frames vm')" if c: "exec_INVOKE native vm = Some (Next vm')"
  proof -
    from c obtain m vm1 a vm2 where r: "READ_STRING vm = Some (m, vm1)" "READ_BYTE vm1 = Some (a, vm2)"
      "invoke native m (unat a) vm2 = Some (Next vm')"
      by (auto simp: exec_INVOKE_def elim!: bind_SomeE)
    then show ?thesis
      using adv_step [of vm2 2] read_facts(3) [OF r(1)] read_facts(1) [OF r(2)] invoke_frames [OF r(3) assms(2)]
      by (simp add: numeral_2_eq_2)
  qed
  have CLOSURE: "exec_CLOSURE vm = Some (Next vm') \<Longrightarrow> frames_grow (vm_frames vm) (vm_frames vm')"
    using exec_CLOSURE_height frames_grow_adv by metis
  show ?thesis
  proof (cases "straight_line op")
    case True
    then show ?thesis using execute_effect [OF assms(1)] frames_grow_adv by (simp add: effect_def)
  next
    case False
    then show ?thesis using assms(1,4) CALL INVOKE CLOSURE jump_frames by (auto simp: straight_line_def)
  qed
qed

text \<open>An instruction leaves a frame only by a return, and then only the current one.\<close>

lemma step_frames:
  assumes "step native vm = Some (Next vm')" "natives_keep_frames native"
  obtains "frames_grow (vm_frames vm) (vm_frames vm')"
  | vm1 where "advances 1 vm vm1" "exec_RETURN vm1 = Some (Next vm')"
proof -
  from assms(1) obtain b vm1 where b: "READ_BYTE vm = Some (b, vm1)"
    "(case op_of_byte b of None \<Rightarrow> Some (Next vm1) | Some op \<Rightarrow> execute native op vm1) = Some (Next vm')"
    by (auto simp: step_def elim!: bind_SomeE)
  note adv = READ_BYTE_effect [OF b(1)]
  have fr: "vm_frames vm1 = adv 1 (vm_frames vm)" using read_facts(1) [OF b(1)] by simp
  show thesis
  proof (cases "op_of_byte b = Some OP_RETURN")
    case True
    then have "exec_RETURN vm1 = Some (Next vm')" using b(2) by simp
    then show thesis using that(2) adv by blast
  next
    case False
    have "vm_frames vm1 \<noteq> []" using adv by (auto simp: advances_def)
    then have "frames_grow (vm_frames vm1) (vm_frames vm')"
      using b(2) execute_frames [OF _ assms(2)] False by (auto split: option.split_asm)
    then show thesis unfolding fr using that(1) frames_grow_after_adv by blast
  qed
qed

section \<open>The bound on the frames\<close>

text \<open>The states an execution goes through.\<close>

inductive executes :: "natives \<Rightarrow> VM \<Rightarrow> VM \<Rightarrow> bool" for native :: natives where
  start: "executes native vm vm"
| continue: "executes native vm vm1 \<Longrightarrow> step native vm1 = Some (Next vm2) \<Longrightarrow> executes native vm vm2"

lemma step_bounded:
  assumes "step native vm = Some (Next vm')" "natives_keep_frames native" "length (vm_frames vm) \<le> FRAMES_MAX"
  shows "length (vm_frames vm') \<le> FRAMES_MAX"
  by (rule step_frames [OF assms(1,2)])
    (use assms(3) in \<open>auto simp: frames_grow_def advances_def dest!: exec_RETURN_frames\<close>)

lemma executes_bounded:
  "executes native vm vm' \<Longrightarrow> natives_keep_frames native \<Longrightarrow> length (vm_frames vm) \<le> FRAMES_MAX \<Longrightarrow>
     length (vm_frames vm') \<le> FRAMES_MAX"
  by (induction rule: executes.induct) (auto dest: step_bounded)

text \<open>
  C8. However long a program runs, with the natives of the program, at most \<open>FRAMES_MAX\<close> calls are active,
  so the array of call frames is never written out of bounds: the call that would be one too many reports
  a stack overflow instead.
\<close>

theorem call_frames_never_overflow:
  assumes "executes (run_native version) vm vm'" and "length (vm_frames vm) \<le> FRAMES_MAX"
  shows "length (vm_frames vm') \<le> FRAMES_MAX \<and>
    (length (vm_frames vm') = FRAMES_MAX \<longrightarrow>
       (\<forall>closure argCount r. call closure argCount vm' \<noteq> Some (Next r)))"
  using executes_bounded [OF assms(1) run_native_keeps_frames assms(2)]
  by (auto simp: call_def elim!: bind_SomeE split: if_split_asm)

text \<open>A function that calls itself, with one frame less than there is room for.\<close>

definition deep_run :: VM where
  "deep_run = (sample_run [29, 0] [] [VAL_OBJ 1, VAL_OBJ 1])
     \<lparr>vm_frames := replicate 63 \<lparr>fr_closure = 1, fr_ip = 0, fr_slots = 0\<rparr>\<rparr>"

theorem call_frames_never_overflow_witness:
  "\<exists>vm'. executes (run_native [48]) deep_run vm' \<and> length (vm_frames vm') = FRAMES_MAX \<and>
     (\<forall>r. call 1 0 vm' \<noteq> Some (Next r))"
proof -
  have "replicate 63 f = f # replicate 62 f" for f :: CallFrame by (simp add: numeral_eq_Suc)
  then have "\<exists>vm'. step (run_native [48]) deep_run = Some (Next vm') \<and> length (vm_frames vm') = FRAMES_MAX"
    by (simp add: deep_run_def sample_run_simps exec_CALL_def peekStack_def callValue_def call_def FRAMES_MAX_def)
  then obtain vm' where vm': "step (run_native [48]) deep_run = Some (Next vm')" "length (vm_frames vm') = FRAMES_MAX"
    by blast
  have "executes (run_native [48]) deep_run vm'" using vm'(1) by (auto intro: executes.intros)
  moreover have "length (vm_frames deep_run) \<le> FRAMES_MAX" by (simp add: deep_run_def FRAMES_MAX_def)
  ultimately show ?thesis using call_frames_never_overflow vm'(2) by blast
qed

end
