(* ===== verification/VM_Slots.thy ===== *)
theory VM_Slots
  imports VM_Frames
begin

text \<open>
  What an instruction can write below the frame it runs in: nothing but the slots that a closure has captured.
  The property \<open>untouched\<close> is about a set of slots below a base; every operation of the machine that works above
  the base preserves it.  With the frames of \<open>VM_Frames\<close> this gives what a call and its return leave of the caller.
\<close>

section \<open>Slots that no closure holds\<close>

definition held :: "VM \<Rightarrow> nat \<Rightarrow> bool" where
  "held vm i \<longleftrightarrow> (\<exists>r u. vm_store vm r = Some (OUpvalue u) \<and> uv_location u = LOC_STACK i)"

text \<open>The slots \<open>V\<close>, all below \<open>b\<close>, have the values they have in \<open>s\<close>, and no upvalue points at one of them.\<close>

definition untouched :: "nat \<Rightarrow> nat set \<Rightarrow> (nat \<Rightarrow> Value) \<Rightarrow> VM \<Rightarrow> bool" where
  "untouched b V s vm \<longleftrightarrow> V \<subseteq> {..<b} \<and> (\<forall>i\<in>V. vm_stack vm i = s i \<and> \<not> held vm i)"

definition below_kept :: "VM \<Rightarrow> VM \<Rightarrow> bool" where
  "below_kept vm vm' \<longleftrightarrow>
     (\<forall>b V s. b \<le> vm_stackTop vm \<longrightarrow> untouched b V s vm \<longrightarrow> untouched b V s vm')"

named_theorems slot_effects

lemma untouched_simps [simp]:
  "untouched b V s (vm\<lparr>vm_stackTop := n\<rparr>) = untouched b V s vm"
  "untouched b V s (vm\<lparr>vm_frames := fs\<rparr>) = untouched b V s vm"
  "untouched b V s (vm\<lparr>vm_globals := t\<rparr>) = untouched b V s vm"
  "untouched b V s (vm\<lparr>vm_openUpvalues := us\<rparr>) = untouched b V s vm"
  "untouched b V s (vm\<lparr>vm_stdout := out\<rparr>) = untouched b V s vm"
  "untouched b V s (vm\<lparr>vm_stderr := out\<rparr>) = untouched b V s vm"
  "untouched b V s (vm\<lparr>vm_system := sys\<rparr>) = untouched b V s vm"
  "gc_store gc = vm_store vm \<Longrightarrow> untouched b V s (vm\<lparr>vm_gc := gc\<rparr>) = untouched b V s vm"
  by (simp_all add: untouched_def held_def)

lemma untouched_put [simp]:
  "(\<And>u. x \<noteq> OUpvalue u) \<Longrightarrow> untouched b V s vm \<Longrightarrow> untouched b V s (put_obj r x vm)"
  by (auto simp: untouched_def held_def)

lemma untouched_write [simp]:
  "b \<le> n \<Longrightarrow> untouched b V s vm \<Longrightarrow> untouched b V s (vm\<lparr>vm_stack := (vm_stack vm)(n := v)\<rparr>)"
  by (auto simp: untouched_def held_def)

lemma untouched_sub:
  "untouched b V s vm \<Longrightarrow> vm_stack vm' = vm_stack vm \<Longrightarrow> vm_store vm' \<subseteq>\<^sub>m vm_store vm \<Longrightarrow> untouched b V s vm'"
  unfolding untouched_def held_def map_le_def by (metis domI)

section \<open>Allocation and the stack\<close>

lemma collectGarbage_stack: "collectGarbage vm = Some vm' \<Longrightarrow> vm_stack vm' = vm_stack vm"
  by (auto simp: collectGarbage_def bind_eq_Some_conv)

lemma reallocate_slots [slot_effects]: "reallocate m n vm = Some vm' \<Longrightarrow> same_height vm vm' \<and> below_kept vm vm'"
proof -
  assume r: "reallocate m n vm = Some vm'"
  have "vm_stack vm' = vm_stack vm"
    using r by (auto simp: reallocate_def Let_def dest!: collectGarbage_stack split: if_split_asm)
  then show ?thesis
    using reallocate_store [OF r] reallocate_height [OF r] untouched_sub unfolding below_kept_def by blast
qed

lemma allocateObject_slots [slot_effects]:
  assumes "allocateObject x vm = Some (r, vm')"
  shows "same_height vm vm' \<and> ((\<forall>u. x \<noteq> OUpvalue u) \<longrightarrow> below_kept vm vm')"
proof -
  from assms obtain vm1 where vm1: "reallocate 0 (sizeof_obj (obj_type x)) vm = Some vm1"
    and r: "vm_store vm' = (vm_store vm1)(r \<mapsto> x)" "vm_stack vm' = vm_stack vm1"
    by (auto simp: allocateObject_def Let_def elim!: bind_SomeE)
  have "untouched b V s vm1 \<Longrightarrow> \<forall>u. x \<noteq> OUpvalue u \<Longrightarrow> untouched b V s vm'" for b V s
    using r by (auto simp: untouched_def held_def)
  with reallocate_slots [OF vm1] allocateObject_height [OF assms] show ?thesis by (auto simp: below_kept_def)
qed

lemma stack_slots [slot_effects]:
  "pushOnStack v vm = Some vm' \<Longrightarrow>
     vm_stackTop vm' = Suc (vm_stackTop vm) \<and> vm_frames vm' = vm_frames vm \<and> below_kept vm vm'"
  "popFromStack vm = Some (v, vm') \<Longrightarrow> vm_stackTop vm = Suc (vm_stackTop vm') \<and> vm_frames vm' = vm_frames vm \<and>
     (\<forall>b V s. untouched b V s vm' = untouched b V s vm)"
  "popNFromStack n vm = Some vm' \<Longrightarrow> vm_stackTop vm = vm_stackTop vm' + n \<and> vm_frames vm' = vm_frames vm \<and>
     (\<forall>b V s. untouched b V s vm' = untouched b V s vm)"
  "set_callee n v vm = Some vm' \<Longrightarrow> same_height vm vm' \<and> n + 1 \<le> vm_stackTop vm \<and>
     (\<forall>b V s. b + n + 1 \<le> vm_stackTop vm \<longrightarrow> untouched b V s vm \<longrightarrow> untouched b V s vm')"
  by (auto simp: pushOnStack_def popFromStack_def popNFromStack_def set_callee_def below_kept_def same_height_def
      split: if_split_asm)

lemmas slot_simps = below_kept_def same_height_def

lemma new_slots [slot_effects]:
  "newBoundMethod v m vm = Some (r, vm') \<Longrightarrow> same_height vm vm' \<and> below_kept vm vm'"
  "newStruct n vm = Some (r, vm') \<Longrightarrow> same_height vm vm' \<and> below_kept vm vm'"
  "newList vm = Some (r, vm') \<Longrightarrow> same_height vm vm' \<and> below_kept vm vm'"
  by (auto simp: newBoundMethod_def newStruct_def newList_def dest!: allocateObject_slots)

lemma newClosure_slots [slot_effects]:
  "newClosure fn vm = Some (r, vm') \<Longrightarrow> same_height vm vm' \<and> below_kept vm vm'"
  by (auto simp: newClosure_def slot_simps elim!: bind_SomeE dest!: slot_effects)

lemma newArray_slots [slot_effects]:
  "newArray n vm = Some (r, vm') \<Longrightarrow> same_height vm vm' \<and> below_kept vm vm'"
  by (auto simp: newArray_def slot_simps elim!: bind_SomeE dest!: slot_effects split: if_split_asm)

lemma newInstance_slots [slot_effects]:
  "newInstance s vm = Some (r, vm') \<Longrightarrow> same_height vm vm' \<and> below_kept vm vm'"
  by (auto simp: newInstance_def slot_simps elim!: bind_SomeE dest!: slot_effects split: if_split_asm)

lemma put_table_slots [slot_effects]:
  "put_table vm p t = Some vm' \<Longrightarrow> same_height vm vm' \<and> below_kept vm vm'"
  by (cases p) (auto simp: slot_simps)

lemma free_bytes_store [simp]: "gc_store (free_bytes n gc) = gc_store gc"
  by (simp add: free_bytes_def)

lemma tableSetAt_slots [slot_effects]:
  "tableSetAt p k v vm = Some (b, vm') \<Longrightarrow> same_height vm vm' \<and> below_kept vm vm'"
  by (auto simp: tableSetAt_def slot_simps elim!: bind_SomeE dest!: slot_effects split: if_split_asm)

lemma allocateString_slots [slot_effects]:
  "allocateString c h vm = Some (r, vm') \<Longrightarrow> same_height vm vm' \<and> below_kept vm vm'"
  by (auto simp: allocateString_def slot_simps elim!: bind_SomeE dest!: slot_effects)

lemma string_slots [slot_effects]:
  "takeString c vm = Some (r, vm') \<Longrightarrow> same_height vm vm' \<and> below_kept vm vm'"
  "copyString c vm = Some (r, vm') \<Longrightarrow> same_height vm vm' \<and> below_kept vm vm'"
  by (auto simp: takeString_def copyString_def slot_simps Let_def elim!: bind_SomeE dest!: slot_effects
      split: option.split_asm)

lemma writeValueToListObj_slots [slot_effects]:
  "writeValueToListObj l v vm = Some vm' \<Longrightarrow> same_height vm vm' \<and> below_kept vm vm'"
  by (auto simp: writeValueToListObj_def slot_simps Let_def elim!: bind_SomeE dest!: slot_effects split: if_split_asm)

lemma below_kept_refl [simp]: "below_kept vm vm"
  by (simp add: below_kept_def)

lemma kept_trans:
  "same_height a b \<and> below_kept a b \<Longrightarrow> same_height b c \<and> below_kept b c \<Longrightarrow> same_height a c \<and> below_kept a c"
  by (simp add: slot_simps)

lemma list_loop_slots [slot_effects]: "list_loop l n vm = Some vm' \<Longrightarrow> same_height vm vm' \<and> below_kept vm vm'"
proof (induction n arbitrary: vm)
  case (Suc n)
  then obtain v vm1 where "writeValueToListObj l v vm = Some vm1" "list_loop l n vm1 = Some vm'"
    by (auto elim!: bind_SomeE)
  then show ?case using Suc.IH writeValueToListObj_slots kept_trans by blast
qed simp

lemma put_indexable_slots [slot_effects]:
  "put_indexable t vs vm = Some vm' \<Longrightarrow> same_height vm vm' \<and> below_kept vm vm'"
  by (auto simp: put_indexable_def slot_simps elim!: bind_SomeE split: Obj.split_asm)

lemma set_field_slots [slot_effects]: "set_field r i v vm = Some vm' \<Longrightarrow> same_height vm vm' \<and> below_kept vm vm'"
  by (auto simp: set_field_def slot_simps elim!: bind_SomeE split: if_split_asm)

lemma init_fields_slots [slot_effects]:
  "init_fields s r ps given vm = Some (Inr (given', vm')) \<Longrightarrow> same_height vm vm' \<and> below_kept vm vm'"
proof (induction s r ps given vm rule: init_fields.induct)
  case (2 struct_ref instance_ref name val pairs provided vm)
  from 2(2) obtain field slot vm1 where "find_slot struct_ref field vm = Some (Some slot)"
    "set_field instance_ref slot val vm = Some vm1"
    "init_fields struct_ref instance_ref pairs (provided[slot := True]) vm1 = Some (Inr (given', vm'))"
    and ih: "init_fields struct_ref instance_ref pairs (provided[slot := True]) vm1 = Some (Inr (given', vm')) \<Longrightarrow>
      same_height vm1 vm' \<and> below_kept vm1 vm'"
    using 2(1) by (auto elim!: bind_SomeE split: option.split_asm if_split_asm)
  then show ?case using set_field_slots kept_trans by blast
qed simp

section \<open>Upvalues\<close>

lemma untouched_close:
  "untouched b V s vm \<Longrightarrow> untouched b V s (put_obj u (OUpvalue \<lparr>uv_location = LOC_CLOSED, uv_closed = v\<rparr>) vm)"
  by (auto simp: untouched_def held_def)

lemma close_loop_slots: "close_loop n us vm = Some vm' \<Longrightarrow> same_height vm vm' \<and> (\<forall>b V s. untouched b V s vm \<longrightarrow> untouched b V s vm')"
proof (induction us arbitrary: vm)
  case (Cons u us)
  from Cons.prems obtain uv where uv: "as_upvalue (vm_store vm) u = Some uv" by (auto elim!: bind_SomeE)
  show ?case
  proof (cases "\<exists>k. uv_location uv = LOC_STACK k \<and> n \<le> k")
    case True
    then obtain vm1 v where "vm1 = put_obj u (OUpvalue \<lparr>uv_location = LOC_CLOSED, uv_closed = v\<rparr>) vm"
      "close_loop n us vm1 = Some vm'"
      using Cons.prems uv by auto
    then show ?thesis using Cons.IH [of vm1] by (simp add: slot_simps untouched_close)
  next
    case False
    then show ?thesis using Cons.prems uv by (auto simp: slot_simps split: Location.split_asm if_split_asm)
  qed
qed (auto simp: slot_simps)

lemma closeUpvalues_slots [slot_effects]:
  "closeUpvalues n vm = Some vm' \<Longrightarrow> same_height vm vm' \<and> (\<forall>b V s. untouched b V s vm \<longrightarrow> untouched b V s vm')"
  unfolding closeUpvalues_def by (rule close_loop_slots)

text \<open>A new upvalue is above the base if the frame is, and one that is written is not in \<open>V\<close>.\<close>

lemma captureUpvalue_slots:
  assumes "captureUpvalue n vm = Some (u, vm')" "b \<le> n" "untouched b V s vm"
  shows "untouched b V s vm'"
proof -
  have "untouched b V s vm1" if "newUpvalue n vm = Some (r, vm1)" for r vm1
  proof -
    from that obtain vm2 where vm2: "reallocate 0 (sizeof_obj OBJ_UPVALUE) vm = Some vm2"
      "vm_store vm1 = (vm_store vm2)(r \<mapsto> OUpvalue \<lparr>uv_location = LOC_STACK n, uv_closed = VAL_NIL\<rparr>)"
      "vm_stack vm1 = vm_stack vm2"
      by (auto simp: newUpvalue_def allocateObject_def Let_def elim!: bind_SomeE)
    have "vm_stack vm2 = vm_stack vm"
      using vm2(1) by (auto simp: reallocate_def Let_def dest!: collectGarbage_stack split: if_split_asm)
    then have "untouched b V s vm2" using untouched_sub [OF assms(3)] reallocate_store [OF vm2(1)] by blast
    then show ?thesis using vm2(2,3) assms(2) by (auto simp: untouched_def held_def)
  qed
  with assms(1,3) show ?thesis
    by (auto simp: captureUpvalue_def elim!: bind_SomeE split: if_split_asm)
qed

lemma write_upvalue_slots:
  assumes "write_upvalue u v vm = Some vm'" "untouched b V s vm"
  shows "untouched b V s vm'"
proof -
  from assms(1) obtain uv where uv: "vm_store vm u = Some (OUpvalue uv)"
    "vm' = (case uv_location uv of
       LOC_STACK n \<Rightarrow> vm\<lparr>vm_stack := (vm_stack vm)(n := v)\<rparr>
     | LOC_CLOSED \<Rightarrow> put_obj u (OUpvalue (uv\<lparr>uv_closed := v\<rparr>)) vm)"
    by (auto simp: write_upvalue_def as_upvalue_def elim!: bind_SomeE split: option.split_asm Obj.split_asm)
  then show ?thesis using assms(2) by (auto simp: untouched_def held_def split: Location.split)
qed

section \<open>Instructions\<close>

text \<open>
  What is kept of the slots below a base that the current frame starts at or above, by an instruction that
  leaves more than the base on the stack.
\<close>

definition keeps_below :: "VM \<Rightarrow> VM \<Rightarrow> bool" where
  "keeps_below vm vm' \<longleftrightarrow>
     (\<forall>b V s. b \<le> fr_slots (hd (vm_frames vm)) \<longrightarrow> b < vm_stackTop vm' \<longrightarrow>
        untouched b V s vm \<longrightarrow> untouched b V s vm')"

lemma hd_adv [simp]: "fr_slots (hd (adv n fs)) = fr_slots (hd fs)"
  by (cases fs) simp_all

lemma read_slots [slot_effects]:
  "READ_BYTE vm = Some (c, vm') \<Longrightarrow> vm_stackTop vm' = vm_stackTop vm \<and> vm_frames vm' = adv 1 (vm_frames vm) \<and>
     vm_stack vm' = vm_stack vm \<and> (\<forall>b V s. untouched b V s vm' = untouched b V s vm)"
  "READ_CONSTANT vm = Some (v, vm') \<Longrightarrow> vm_stackTop vm' = vm_stackTop vm \<and> vm_frames vm' = adv 1 (vm_frames vm) \<and>
     vm_stack vm' = vm_stack vm \<and> (\<forall>b V s. untouched b V s vm' = untouched b V s vm)"
  "READ_STRING vm = Some (r, vm') \<Longrightarrow> vm_stackTop vm' = vm_stackTop vm \<and> vm_frames vm' = adv 1 (vm_frames vm) \<and>
     vm_stack vm' = vm_stack vm \<and> (\<forall>b V s. untouched b V s vm' = untouched b V s vm)"
  "READ_SHORT vm = Some (n, vm') \<Longrightarrow> vm_stackTop vm' = vm_stackTop vm \<and> vm_frames vm' = adv 2 (vm_frames vm) \<and>
     vm_stack vm' = vm_stack vm \<and> (\<forall>b V s. untouched b V s vm' = untouched b V s vm)"
proof -
  have "advances n vm vm' \<Longrightarrow> vm_stackTop vm' = vm_stackTop vm \<and> vm_frames vm' = adv n (vm_frames vm) \<and>
     vm_stack vm' = vm_stack vm \<and> (\<forall>b V s. untouched b V s vm' = untouched b V s vm)" for n
    by (auto simp: advances_def)
  then show "READ_BYTE vm = Some (c, vm') \<Longrightarrow> vm_stackTop vm' = vm_stackTop vm \<and> vm_frames vm' = adv 1 (vm_frames vm) \<and>
     vm_stack vm' = vm_stack vm \<and> (\<forall>b V s. untouched b V s vm' = untouched b V s vm)"
    "READ_CONSTANT vm = Some (v, vm') \<Longrightarrow> vm_stackTop vm' = vm_stackTop vm \<and> vm_frames vm' = adv 1 (vm_frames vm) \<and>
     vm_stack vm' = vm_stack vm \<and> (\<forall>b V s. untouched b V s vm' = untouched b V s vm)"
    "READ_STRING vm = Some (r, vm') \<Longrightarrow> vm_stackTop vm' = vm_stackTop vm \<and> vm_frames vm' = adv 1 (vm_frames vm) \<and>
     vm_stack vm' = vm_stack vm \<and> (\<forall>b V s. untouched b V s vm' = untouched b V s vm)"
    "READ_SHORT vm = Some (n, vm') \<Longrightarrow> vm_stackTop vm' = vm_stackTop vm \<and> vm_frames vm' = adv 2 (vm_frames vm) \<and>
     vm_stack vm' = vm_stack vm \<and> (\<forall>b V s. untouched b V s vm' = untouched b V s vm)"
    using READ_BYTE_effect READ_CONSTANT_effect READ_STRING_effect READ_SHORT_effect by blast+
qed

lemma push_next_slots [slot_effects]:
  "push_next v vm = Some (Next vm') \<Longrightarrow>
     vm_stackTop vm' = Suc (vm_stackTop vm) \<and> vm_frames vm' = vm_frames vm \<and> below_kept vm vm'"
  by (auto simp: push_next_def elim!: bind_SomeE dest!: slot_effects)

lemma operator_slots [slot_effects]:
  "replace_operands v vm = Some (Next vm') \<Longrightarrow> keeps_below vm vm'"
  "numberBinary op e vm = Some (Next vm') \<Longrightarrow> keeps_below vm vm'"
  "numberCompare g vm = Some (Next vm') \<Longrightarrow> keeps_below vm vm'"
  "concatenate vm = Some (Next vm') \<Longrightarrow> keeps_below vm vm'"
  "castNumber s p t vm = Some (Next vm') \<Longrightarrow> keeps_below vm vm'"
  "bindMethod r n vm = Some (Next vm') \<Longrightarrow> keeps_below vm vm'"
  "defineMethod n vm = Some (Next vm') \<Longrightarrow> keeps_below vm vm'"
  "get_struct_property r n vm = Some (Next vm') \<Longrightarrow> keeps_below vm vm'"
proof -
  have r: "keeps_below vm vm'" if "replace_operands v vm = Some (Next vm')" for v
    using that by (auto simp: replace_operands_def slot_simps keeps_below_def elim!: bind_SomeE dest!: slot_effects)
  then show "replace_operands v vm = Some (Next vm') \<Longrightarrow> keeps_below vm vm'" .
  show "numberBinary op e vm = Some (Next vm') \<Longrightarrow> keeps_below vm vm'"
    "numberCompare g vm = Some (Next vm') \<Longrightarrow> keeps_below vm vm'"
    by (auto simp: numberBinary_def numberCompare_def elim!: bind_SomeE dest!: r
        split: Value.split_asm option.split_asm arith_result.split_asm if_split_asm)
  show "concatenate vm = Some (Next vm') \<Longrightarrow> keeps_below vm vm'"
    by (auto simp: concatenate_def slot_simps keeps_below_def elim!: bind_SomeE dest!: slot_effects split: if_split_asm)
  show "castNumber s p t vm = Some (Next vm') \<Longrightarrow> keeps_below vm vm'"
    by (auto simp: castNumber_def slot_simps keeps_below_def elim!: bind_SomeE dest!: slot_effects
        split: NumberCastResult.split_asm)
  show "bindMethod r n vm = Some (Next vm') \<Longrightarrow> keeps_below vm vm'"
    by (auto simp: bindMethod_def slot_simps keeps_below_def elim!: bind_SomeE dest!: slot_effects
        split: option.split_asm if_split_asm)
  show "defineMethod n vm = Some (Next vm') \<Longrightarrow> keeps_below vm vm'"
    by (auto simp: defineMethod_def Let_def slot_simps keeps_below_def elim!: bind_SomeE dest!: slot_effects
        split: option.split_asm if_split_asm)
  show "get_struct_property r n vm = Some (Next vm') \<Longrightarrow> keeps_below vm vm'"
    by (auto simp: get_struct_property_def slot_simps keeps_below_def elim!: bind_SomeE dest!: slot_effects
        split: option.split_asm if_split_asm)
qed

lemma exec_slots:
  "exec_ADD vm = Some (Next vm') \<Longrightarrow> keeps_below vm vm'"
  "exec_NOT vm = Some (Next vm') \<Longrightarrow> keeps_below vm vm'"
  "exec_NEGATE vm = Some (Next vm') \<Longrightarrow> keeps_below vm vm'"
  "exec_EQUAL vm = Some (Next vm') \<Longrightarrow> keeps_below vm vm'"
  "exec_POP vm = Some (Next vm') \<Longrightarrow> keeps_below vm vm'"
  "exec_PRINT vm = Some (Next vm') \<Longrightarrow> keeps_below vm vm'"
  "exec_CLOSE_UPVALUE vm = Some (Next vm') \<Longrightarrow> keeps_below vm vm'"
  by (auto simp: exec_ADD_def exec_NOT_def exec_NEGATE_def exec_EQUAL_def exec_POP_def exec_PRINT_def
      exec_CLOSE_UPVALUE_def slot_simps keeps_below_def elim!: bind_SomeE
      dest!: slot_effects [unfolded keeps_below_def] split: if_split_asm Value.split_asm arith_result.split_asm)

lemma exec_slots1:
  "exec_CONSTANT vm = Some (Next vm') \<Longrightarrow> keeps_below vm vm'"
  "exec_GET_LOCAL vm = Some (Next vm') \<Longrightarrow> keeps_below vm vm'"
  "exec_GET_GLOBAL vm = Some (Next vm') \<Longrightarrow> keeps_below vm vm'"
  "exec_SET_GLOBAL vm = Some (Next vm') \<Longrightarrow> keeps_below vm vm'"
  "exec_DEFINE_GLOBAL vm = Some (Next vm') \<Longrightarrow> keeps_below vm vm'"
  "exec_CAST vm = Some (Next vm') \<Longrightarrow> keeps_below vm vm'"
  "exec_GET_UPVALUE vm = Some (Next vm') \<Longrightarrow> keeps_below vm vm'"
  "exec_STRUCT vm = Some (Next vm') \<Longrightarrow> keeps_below vm vm'"
  "exec_METHOD vm = Some (Next vm') \<Longrightarrow> keeps_below vm vm'"
  "exec_CLOSE_BLOCK_EXPR vm = Some (Next vm') \<Longrightarrow> keeps_below vm vm'"
  "exec_LIST vm = Some (Next vm') \<Longrightarrow> keeps_below vm vm'"
  "exec_ARRAY vm = Some (Next vm') \<Longrightarrow> keeps_below vm vm'"
  by (auto simp: exec_CONSTANT_def exec_GET_LOCAL_def exec_GET_GLOBAL_def exec_SET_GLOBAL_def exec_DEFINE_GLOBAL_def
      exec_CAST_def exec_GET_UPVALUE_def exec_STRUCT_def exec_METHOD_def exec_CLOSE_BLOCK_EXPR_def exec_LIST_def
      exec_ARRAY_def Let_def slot_simps keeps_below_def elim!: bind_SomeE
      dest!: slot_effects [unfolded keeps_below_def] split: if_split_asm Value.split_asm option.split_asm)

lemma exec_property_slots:
  "exec_GET_PROPERTY vm = Some (Next vm') \<Longrightarrow> keeps_below vm vm'"
  "exec_SET_PROPERTY vm = Some (Next vm') \<Longrightarrow> keeps_below vm vm'"
  "exec_FIELD vm = Some (Next vm') \<Longrightarrow> keeps_below vm vm'"
  "exec_GET_INDEX vm = Some (Next vm') \<Longrightarrow> keeps_below vm vm'"
  "exec_SET_INDEX vm = Some (Next vm') \<Longrightarrow> keeps_below vm vm'"
  "exec_STRUCT_INIT vm = Some (Next vm') \<Longrightarrow> keeps_below vm vm'"
proof -
  have g: "keeps_below vm vm'" if "get_instance_property r n vm = Some (Next vm')" for r n vm
    using that by (auto simp: get_instance_property_def Let_def slot_simps keeps_below_def elim!: bind_SomeE
        dest!: slot_effects [unfolded keeps_below_def] split: option.split_asm if_split_asm)
  show "exec_GET_PROPERTY vm = Some (Next vm') \<Longrightarrow> keeps_below vm vm'"
    by (auto simp: exec_GET_PROPERTY_def keeps_below_def elim!: bind_SomeE split: if_split_asm
        dest!: g [unfolded keeps_below_def] slot_effects [unfolded keeps_below_def])
  show "exec_SET_PROPERTY vm = Some (Next vm') \<Longrightarrow> keeps_below vm vm'"
    by (auto simp: exec_SET_PROPERTY_def Let_def slot_simps keeps_below_def elim!: bind_SomeE
        dest!: slot_effects [unfolded keeps_below_def] split: option.split_asm if_split_asm)
  show "exec_FIELD vm = Some (Next vm') \<Longrightarrow> keeps_below vm vm'"
    by (auto simp: exec_FIELD_def Let_def slot_simps keeps_below_def elim!: bind_SomeE
        dest!: slot_effects [unfolded keeps_below_def] split: if_split_asm)
  show "exec_GET_INDEX vm = Some (Next vm') \<Longrightarrow> keeps_below vm vm'"
    "exec_SET_INDEX vm = Some (Next vm') \<Longrightarrow> keeps_below vm vm'"
    by (auto simp: exec_GET_INDEX_def exec_SET_INDEX_def elim!: bind_SomeE with_position_use)
      (auto simp: slot_simps keeps_below_def dest!: slot_effects [unfolded keeps_below_def])
  show "exec_STRUCT_INIT vm = Some (Next vm') \<Longrightarrow> keeps_below vm vm'"
    by (auto simp: exec_STRUCT_INIT_def peekStack_def Let_def slot_simps keeps_below_def elim!: bind_SomeE
        dest!: slot_effects [unfolded keeps_below_def] split: if_split_asm sum.split_asm option.split_asm)
qed

lemma current_slots: "current_frame vm = Some frame \<Longrightarrow> hd (vm_frames vm) = frame"
  by (auto simp: current_frame_def split: list.split_asm)

lemma exec_SET_LOCAL_slots: "exec_SET_LOCAL vm = Some (Next vm') \<Longrightarrow> keeps_below vm vm'"
proof -
  assume e: "exec_SET_LOCAL vm = Some (Next vm')"
  then obtain slot vm1 frame v where r: "READ_BYTE vm = Some (slot, vm1)" "current_frame vm1 = Some frame"
    "vm' = vm1\<lparr>vm_stack := (vm_stack vm1)(fr_slots frame + unat slot := v)\<rparr>"
    by (auto simp: exec_SET_LOCAL_def local_slot_def elim!: bind_SomeE split: if_split_asm)
  have "fr_slots (hd (vm_frames vm)) = fr_slots frame"
    using read_slots(1) [OF r(1)] current_slots [OF r(2)] by auto
  then show ?thesis
    using read_slots(1) [OF r(1)] r(3) untouched_write [of _ "fr_slots frame + unat slot" _ _ vm1 v]
    by (simp add: keeps_below_def)
qed

lemma exec_SET_UPVALUE_slots: "exec_SET_UPVALUE vm = Some (Next vm') \<Longrightarrow> keeps_below vm vm'"
proof -
  assume e: "exec_SET_UPVALUE vm = Some (Next vm')"
  then obtain slot vm1 u v where r: "READ_BYTE vm = Some (slot, vm1)" "write_upvalue u v vm1 = Some vm'"
    by (auto simp: exec_SET_UPVALUE_def elim!: bind_SomeE)
  then show ?thesis using read_slots(1) [OF r(1)] write_upvalue_slots [OF r(2)] by (simp add: keeps_below_def)
qed

lemma exec_jump_slots:
  "jump_if c vm = Some (Next vm') \<Longrightarrow> keeps_below vm vm'"
  "exec_JUMP vm = Some (Next vm') \<Longrightarrow> keeps_below vm vm'"
  "exec_LOOP vm = Some (Next vm') \<Longrightarrow> keeps_below vm vm'"
proof -
  have ip: "untouched b V s (set_ip n vm) = untouched b V s vm" for b V s n vm
    by (simp add: set_ip_def split: list.split)
  show "jump_if c vm = Some (Next vm') \<Longrightarrow> keeps_below vm vm'"
    "exec_JUMP vm = Some (Next vm') \<Longrightarrow> keeps_below vm vm'"
    "exec_LOOP vm = Some (Next vm') \<Longrightarrow> keeps_below vm vm'"
    by (auto simp: jump_if_def exec_JUMP_def exec_LOOP_def keeps_below_def ip elim!: bind_SomeE
        dest!: slot_effects [unfolded keeps_below_def] split: if_split_asm)
qed

lemma capture_loop_slots:
  "capture_loop c i n vm = Some vm' \<Longrightarrow> b \<le> fr_slots (hd (vm_frames vm)) \<Longrightarrow> untouched b V s vm \<Longrightarrow> untouched b V s vm'"
proof (induction c i n vm rule: capture_loop.induct)
  case (2 closure i n vm)
  from 2(2) obtain isLocal vm1 index vm2 upvalue vm3 cl where
    r: "READ_BYTE vm = Some (isLocal, vm1)" "READ_BYTE vm1 = Some (index, vm2)"
    and u: "(if isLocal \<noteq> 0 then do {
          frame \<leftarrow> current_frame vm2;
          (u, vm) \<leftarrow> captureUpvalue (fr_slots frame + unat index) vm2;
          Some (Some u, vm)
        } else do { u \<leftarrow> frame_upvalue index vm2; Some (u, vm2) }) = Some (upvalue, vm3)"
    and c: "as_closure (vm_store vm3) closure = Some cl"
    and rest: "capture_loop closure (i + 1) n
      (put_obj closure (OClosure (cl\<lparr>cl_upvalues := (cl_upvalues cl)[i := upvalue]\<rparr>)) vm3) = Some vm'"
    by (auto elim!: bind_SomeE)
  have vm2: "fr_slots (hd (vm_frames vm2)) = fr_slots (hd (vm_frames vm))" "untouched b V s vm2"
    using r 2(4) by (auto dest!: slot_effects)
  have "vm_frames vm3 = vm_frames vm2 \<and> untouched b V s vm3"
  proof (cases "isLocal = 0")
    case False
    then obtain frame u' where "current_frame vm2 = Some frame" "captureUpvalue (fr_slots frame + unat index) vm2 = Some (u', vm3)"
      using u by (auto elim!: bind_SomeE)
    then show ?thesis
      using captureUpvalue_slots [of "fr_slots frame + unat index" vm2 u' vm3 b V s] captureUpvalue_height vm2 2(3) current_slots
      by (auto simp: same_height_def)
  qed (use u vm2 in \<open>auto elim!: bind_SomeE\<close>)
  then show ?case using 2(1) [OF r(1) refl r(2) refl u refl c rest] vm2 2(3) by simp
qed simp

lemma exec_CLOSURE_slots: "exec_CLOSURE vm = Some (Next vm') \<Longrightarrow> keeps_below vm vm'"
proof -
  assume e: "exec_CLOSURE vm = Some (Next vm')"
  then obtain k vm1 fn closure vm2 cl vm3 n vm4 where r: "READ_CONSTANT vm = Some (k, vm1)"
    "newClosure fn vm1 = Some (closure, vm2)" "pushOnStack (VAL_OBJ closure) (put_obj closure (OClosure cl) vm2) = Some vm3"
    "capture_loop closure 0 n vm3 = Some vm4" "vm' = vm4"
    by (auto simp: exec_CLOSURE_def Let_def elim!: bind_SomeE)
  have 3: "vm_frames vm3 = adv 1 (vm_frames vm)" "vm_stackTop vm3 = Suc (vm_stackTop vm)"
    "b \<le> vm_stackTop vm \<Longrightarrow> untouched b V s vm \<Longrightarrow> untouched b V s vm3" for b V s
    using r(1-3) by (auto simp: slot_simps dest!: slot_effects)
  have "vm_stackTop vm4 = vm_stackTop vm3" using capture_loop_height [OF r(4)] by simp
  then show ?thesis using 3 capture_loop_slots [OF r(4)] r(5) by (simp add: keeps_below_def)
qed

section \<open>Natives, calls and returns\<close>

definition stack_kept :: "VM \<Rightarrow> VM \<Rightarrow> bool" where
  "stack_kept vm vm' \<longleftrightarrow>
     frames_kept vm vm' \<and> (vm_frames vm' \<noteq> [] \<longrightarrow> vm_stackTop vm' = vm_stackTop vm \<and> below_kept vm vm')"

lemma same_height_stack_kept: "same_height vm vm' \<and> below_kept vm vm' \<Longrightarrow> stack_kept vm vm'"
  by (simp add: stack_kept_def frames_kept_def same_height_def)

interpretation slot_natives: native_relation stack_kept
proof
  show "takeString cs vm = Some (r, vm') \<Longrightarrow> stack_kept vm vm'"
    "copyString cs vm = Some (r, vm') \<Longrightarrow> stack_kept vm vm'" "newList vm = Some (r, vm') \<Longrightarrow> stack_kept vm vm'"
    "newArray n vm = Some (r, vm') \<Longrightarrow> stack_kept vm vm'" "reallocate m n vm = Some vm' \<Longrightarrow> stack_kept vm vm'"
    "writeValueToListObj r v vm = Some vm' \<Longrightarrow> stack_kept vm vm'"
    for cs r vm vm' n m v
    by (auto dest!: slot_effects intro: same_height_stack_kept)
  show "stack_kept a c" if "stack_kept a b" "stack_kept b c" for a b c
    using that by (auto simp: stack_kept_def frames_kept_def below_kept_def)
  show "stack_kept vm vm'"
    if "pushOnStack v vm = Some vm1" "stack_kept vm1 vm2" "popFromStack vm2 = Some (w, vm')" for v vm vm1 vm2 w vm'
    using that by (auto simp: stack_kept_def frames_kept_def below_kept_def dest!: slot_effects)
qed (auto simp: stack_kept_def frames_kept_def below_kept_def free_buffer_def resetStack_def)

text \<open>A call: the base is at or below the frame that is current afterwards.\<close>

definition keeps_calling :: "VM \<Rightarrow> VM \<Rightarrow> bool" where
  "keeps_calling vm vm' \<longleftrightarrow>
     (\<forall>b V s. vm_frames vm' \<noteq> [] \<longrightarrow> b \<le> fr_slots (hd (vm_frames vm')) \<longrightarrow> b < vm_stackTop vm' \<longrightarrow>
        untouched b V s vm \<longrightarrow> untouched b V s vm')"

lemma call_slots:
  "call c n vm = Some (Next vm') \<Longrightarrow> fr_slots (hd (vm_frames vm')) + n + 1 = vm_stackTop vm \<and>
     (\<forall>b V s. untouched b V s vm' = untouched b V s vm)"
  by (auto simp: call_def elim!: bind_SomeE split: if_split_asm)

lemma callNative_slots:
  assumes "callNative (run_native version) fid n vm = Some (Next vm')" "vm_frames vm' \<noteq> []"
  shows "vm_stackTop vm = vm_stackTop vm' + n" "b < vm_stackTop vm' \<Longrightarrow> untouched b V s vm \<Longrightarrow> untouched b V s vm'"
proof -
  from assms(1) obtain v vm1 vm2 where
    r: "run_native version fid vm n (vm_stackTop vm - n) = Some (Returns v vm1)"
    "popNFromStack (n + 1) vm1 = Some vm2" "pushOnStack v vm2 = Some vm'"
    by (auto simp: callNative_def elim!: bind_SomeE split: if_split_asm NativeResult.split_asm)
  have k: "stack_kept vm vm1" using slot_natives.run_native_R [OF r(1)] .
  then show "vm_stackTop vm = vm_stackTop vm' + n" "b < vm_stackTop vm' \<Longrightarrow> untouched b V s vm \<Longrightarrow> untouched b V s vm'"
    using r(2,3) assms(2) by (auto simp: stack_kept_def below_kept_def dest!: slot_effects)
qed

lemma callValue_slots:
  assumes "callValue (run_native version) v n vm = Some (Next vm')" "vm_frames vm' \<noteq> []"
    "b \<le> fr_slots (hd (vm_frames vm'))" "b < vm_stackTop vm'"
  shows "b + n + 1 \<le> vm_stackTop vm" "untouched b V s vm \<Longrightarrow> untouched b V s vm'"
proof -
  from assms(1) consider c where "call c n vm = Some (Next vm')"
    | r c vm1 where "set_callee n r vm = Some vm1" "call c n vm1 = Some (Next vm')"
    | fid where "callNative (run_native version) fid n vm = Some (Next vm')"
    by (auto simp: callValue_def elim!: bind_SomeE split: Value.split_asm Obj.split_asm)
  then have "b + n + 1 \<le> vm_stackTop vm \<and> (untouched b V s vm \<longrightarrow> untouched b V s vm')"
  proof cases
    case 1
    then show ?thesis using call_slots [OF 1] assms(3) by simp
  next
    case 2
    then show ?thesis using call_slots [OF 2(2)] stack_slots(4) [OF 2(1)] assms(3) by (auto simp: same_height_def)
  next
    case 3
    then show ?thesis using callNative_slots [OF 3 assms(2)] assms(4) by simp
  qed
  then show "b + n + 1 \<le> vm_stackTop vm" "untouched b V s vm \<Longrightarrow> untouched b V s vm'" by simp_all
qed

lemma invoke_slots:
  assumes "invoke (run_native version) name n vm = Some (Next vm')" "vm_frames vm' \<noteq> []"
    "b \<le> fr_slots (hd (vm_frames vm'))" "b < vm_stackTop vm'"
  shows "untouched b V s vm \<Longrightarrow> untouched b V s vm'"
proof -
  assume u: "untouched b V s vm"
  have st: "invokeFromStruct r name n vm = Some (Next vm') \<Longrightarrow> untouched b V s vm'"
    "invokeStatic r name n vm = Some (Next vm') \<Longrightarrow> untouched b V s vm'" for r
    using u by (auto simp: invokeFromStruct_def invokeStatic_def elim!: bind_SomeE dest!: call_slots
        split: option.split_asm if_split_asm)
  have field: "untouched b V s vm'"
    if "set_callee n v vm = Some vm1" "callValue (run_native version) v n vm1 = Some (Next vm')" for v vm1
    using callValue_slots [OF that(2) assms(2-4)] stack_slots(4) [OF that(1)] u by (auto simp: same_height_def)
  show ?thesis using assms(1) st field
    by (auto simp: invoke_def invokeInstance_def Let_def elim!: bind_SomeE split: option.split_asm if_split_asm)
qed

lemma exec_call_slots:
  "exec_CALL (run_native version) vm = Some (Next vm') \<Longrightarrow> keeps_calling vm vm'"
  "exec_INVOKE (run_native version) vm = Some (Next vm') \<Longrightarrow> keeps_calling vm vm'"
proof -
  assume "exec_CALL (run_native version) vm = Some (Next vm')"
  then obtain a vm1 v where r: "READ_BYTE vm = Some (a, vm1)" "callValue (run_native version) v (unat a) vm1 = Some (Next vm')"
    by (auto simp: exec_CALL_def elim!: bind_SomeE)
  show "keeps_calling vm vm'"
    using read_slots(1) [OF r(1)] callValue_slots(2) [OF r(2)] by (simp add: keeps_calling_def)
next
  assume "exec_INVOKE (run_native version) vm = Some (Next vm')"
  then obtain m vm1 a vm2 where r: "READ_STRING vm = Some (m, vm1)" "READ_BYTE vm1 = Some (a, vm2)"
    "invoke (run_native version) m (unat a) vm2 = Some (Next vm')"
    by (auto simp: exec_INVOKE_def elim!: bind_SomeE)
  show "keeps_calling vm vm'"
    using read_slots(3) [OF r(1)] read_slots(1) [OF r(2)] invoke_slots [OF r(3)] by (simp add: keeps_calling_def)
qed

lemma exec_RETURN_slots: "exec_RETURN vm = Some (Next vm') \<Longrightarrow> keeps_below vm vm'"
  by (auto simp: exec_RETURN_def Let_def keeps_below_def slot_simps elim!: bind_SomeE dest!: slot_effects current_slots
      split: if_split_asm)

text \<open>One instruction, in a frame that starts at or above the base and is followed by one that does.\<close>

definition above_base :: "nat \<Rightarrow> VM \<Rightarrow> bool" where
  "above_base b vm \<longleftrightarrow> vm_frames vm \<noteq> [] \<and> b \<le> fr_slots (hd (vm_frames vm)) \<and> b < vm_stackTop vm"

lemma execute_slots:
  assumes "execute (run_native version) op vm = Some (Next vm')" "b \<le> fr_slots (hd (vm_frames vm))" "above_base b vm'"
    "untouched b V s vm"
  shows "untouched b V s vm'"
proof -
  have push: "push_next v vm = Some (Next vm') \<Longrightarrow> keeps_below vm vm'" for v
    by (auto simp: keeps_below_def below_kept_def dest!: slot_effects)
  have "keeps_below vm vm' \<or> keeps_calling vm vm'"
    using assms(1)
    by (cases op) (simp_all add: exec_slots exec_slots1 exec_property_slots exec_jump_slots exec_SET_LOCAL_slots
        exec_SET_UPVALUE_slots exec_CLOSURE_slots exec_RETURN_slots exec_call_slots operator_slots push)
  then show ?thesis using assms(2-4) by (auto simp: keeps_below_def keeps_calling_def above_base_def)
qed

lemma step_slots:
  assumes "step (run_native version) vm = Some (Next vm')" "b \<le> fr_slots (hd (vm_frames vm))" "above_base b vm'"
    "untouched b V s vm"
  shows "untouched b V s vm'"
proof -
  from assms(1) obtain c vm1 where c: "READ_BYTE vm = Some (c, vm1)"
    "(case op_of_byte c of None \<Rightarrow> Some (Next vm1) | Some op \<Rightarrow> execute (run_native version) op vm1) = Some (Next vm')"
    by (auto simp: step_def elim!: bind_SomeE)
  then show ?thesis using read_slots(1) [OF c(1)] execute_slots [OF _ _ assms(3)] assms(2,4)
    by (auto split: option.split_asm)
qed

section \<open>Calls and returns\<close>

text \<open>An execution through states that all have the property \<open>Q\<close>.\<close>

inductive runs_within :: "natives \<Rightarrow> (VM \<Rightarrow> bool) \<Rightarrow> VM \<Rightarrow> VM \<Rightarrow> bool" for native :: natives and Q :: "VM \<Rightarrow> bool" where
  within_start: "Q vm \<Longrightarrow> runs_within native Q vm vm"
| within_step: "runs_within native Q vm vm1 \<Longrightarrow> step native vm1 = Some (Next vm2) \<Longrightarrow> Q vm2 \<Longrightarrow>
    runs_within native Q vm vm2"

definition deeper :: "nat \<Rightarrow> VM \<Rightarrow> bool" where
  "deeper d vm \<longleftrightarrow> d < length (vm_frames vm)"

lemma within_slots:
  "runs_within (run_native version) (above_base b) vm vm' \<Longrightarrow> untouched b V s vm \<Longrightarrow>
     above_base b vm' \<and> untouched b V s vm'"
  by (induction rule: runs_within.induct) (auto intro: step_slots simp: above_base_def)

text \<open>The \<open>d\<close> oldest frames, and the one above them up to its instruction pointer.\<close>

definition frames_below :: "nat \<Rightarrow> CallFrame list \<Rightarrow> CallFrame list \<times> CallFrame" where
  "frames_below d fs = (drop (length fs - d) fs, (fs ! (length fs - Suc d))\<lparr>fr_ip := 0\<rparr>)"

lemma frames_below_Cons: "d < length fs \<Longrightarrow> frames_below d (f # fs) = frames_below d fs"
  by (simp add: frames_below_def Suc_diff_le less_imp_le_nat nth_Cons' Suc_diff_Suc)

lemma frames_below_ip: "d < length (f # fs) \<Longrightarrow> frames_below d (f\<lparr>fr_ip := ip\<rparr> # fs) = frames_below d (f # fs)"
  by (cases "d = length fs") (auto simp: frames_below_def Suc_diff_le nth_Cons')

lemma step_frames_below:
  assumes "step native vm = Some (Next vm')" "natives_keep_frames native"
    "d < length (vm_frames vm)" "d < length (vm_frames vm')"
  shows "frames_below d (vm_frames vm') = frames_below d (vm_frames vm)"
proof (rule step_frames [OF assms(1,2)])
  assume "frames_grow (vm_frames vm) (vm_frames vm')"
  then obtain frame frames ip where fr: "vm_frames vm = frame # frames"
    "vm_frames vm' = frame\<lparr>fr_ip := ip\<rparr> # frames \<or> (\<exists>callee. vm_frames vm' = callee # frame\<lparr>fr_ip := ip\<rparr> # frames)"
    using assms(4) by (auto simp: frames_grow_def)
  then show ?thesis using assms(3) frames_below_ip [of d frame frames ip]
      frames_below_Cons [of d "frame\<lparr>fr_ip := ip\<rparr> # frames"] by auto
next
  fix vm1 assume r: "advances 1 vm vm1" "exec_RETURN vm1 = Some (Next vm')"
  then obtain frame where "vm_frames vm = frame # vm_frames vm'"
    using exec_RETURN_frames [OF r(2)] by (auto simp: advances_def)
  then show ?thesis using frames_below_Cons assms(4) by simp
qed

lemma within_below:
  "runs_within native (deeper d) vm vm' \<Longrightarrow> natives_keep_frames native \<Longrightarrow> d < length (vm_frames vm) \<Longrightarrow>
     d < length (vm_frames vm') \<and> frames_below d (vm_frames vm') = frames_below d (vm_frames vm)"
  by (induction rule: runs_within.induct) (auto simp: step_frames_below deeper_def)

lemma leaving_step:
  assumes "step native vm = Some (Next vm')" "natives_keep_frames native"
    "length (vm_frames vm') < length (vm_frames vm)" "vm_frames vm' \<noteq> []"
  shows "\<exists>frame. vm_frames vm = frame # vm_frames vm' \<and> vm_stackTop vm' = fr_slots frame + 1 \<and>
    vm_stack vm' = (vm_stack vm)(fr_slots frame := vm_stack vm (vm_stackTop vm - 1))"
proof (rule step_frames [OF assms(1,2)])
  fix vm1 assume r: "advances 1 vm vm1" "exec_RETURN vm1 = Some (Next vm')"
  then show ?thesis using exec_RETURN_frames [OF r(2)] by (auto simp: advances_def)
qed (use assms(3,4) in \<open>auto simp: frames_grow_def\<close>)

text \<open>
  C22. A call changes nothing of the stack and adds a frame whose first slots are the callee and its
  arguments.  Whatever the callee then runs, deeper calls and natives included, the step that comes back to
  the caller finds the caller's frames exactly as they were at the call, pops the callee and its arguments and
  leaves one value in their place, the top of the callee's stack.  The slots below are those of before the
  call, but for the ones that a closure had captured, as long as the callee and what it calls stay above its
  own slot: their frames start there or higher, and they never pop it.
\<close>

theorem return_undoes_call:
  assumes "call closure argCount vm = Some (Next vm1)" and "vm_frames vm \<noteq> []"
    and "runs_within (run_native version) (deeper (length (vm_frames vm))) vm1 vm2"
    and "step (run_native version) vm2 = Some (Next vm3)" and "length (vm_frames vm3) = length (vm_frames vm)"
  shows "vm_stack vm1 = vm_stack vm \<and> vm_stackTop vm1 = vm_stackTop vm \<and>
    (\<exists>callee. vm_frames vm1 = callee # vm_frames vm \<and> fr_slots callee + argCount + 1 = vm_stackTop vm) \<and>
    vm_frames vm3 = vm_frames vm \<and> vm_stackTop vm3 + argCount = vm_stackTop vm \<and>
    vm_stack vm3 = (vm_stack vm2)(vm_stackTop vm3 - 1 := vm_stack vm2 (vm_stackTop vm2 - 1)) \<and>
    (runs_within (run_native version) (above_base (vm_stackTop vm - argCount - 1)) vm1 vm2 \<longrightarrow>
       (\<forall>i < vm_stackTop vm - argCount - 1. \<not> held vm i \<longrightarrow> vm_stack vm3 i = vm_stack vm i))"
proof -
  let ?d = "length (vm_frames vm)" and ?base = "vm_stackTop vm - argCount - 1"
  let ?callee = "\<lparr>fr_closure = closure, fr_ip = 0, fr_slots = ?base\<rparr>"
  have new: "vm1 = vm\<lparr>vm_frames := ?callee # vm_frames vm\<rparr>" "argCount + 1 \<le> vm_stackTop vm"
    using assms(1) by (auto simp: call_def elim!: bind_SomeE split: if_split_asm)
  have above: "?d < length (vm_frames vm2)"
    "frames_below ?d (vm_frames vm2) = frames_below ?d (vm_frames vm1)"
    using within_below [OF assms(3) run_native_keeps_frames] new(1) by simp_all
  have some: "vm_frames vm3 \<noteq> []" using assms(2,5) by auto
  obtain frame where fr: "vm_frames vm2 = frame # vm_frames vm3" "vm_stackTop vm3 = fr_slots frame + 1"
    "vm_stack vm3 = (vm_stack vm2)(fr_slots frame := vm_stack vm2 (vm_stackTop vm2 - 1))"
    using leaving_step [OF assms(4) run_native_keeps_frames] above(1) assms(5) some by auto
  have "vm_frames vm3 = vm_frames vm" "frame\<lparr>fr_ip := 0\<rparr> = ?callee"
    using above(2) fr(1) assms(5) new(1) by (simp_all add: frames_below_def)
  moreover from this(2) have "fr_slots frame = ?base"
    by (metis CallFrame.select_convs(3) CallFrame.surjective CallFrame.update_convs(2))
  moreover have "vm_stack vm2 i = vm_stack vm i"
    if "runs_within (run_native version) (above_base ?base) vm1 vm2" "i < ?base" "\<not> held vm i" for i
  proof -
    have "untouched ?base {i} (vm_stack vm) vm1" using that(2,3) new(1) by (simp add: untouched_def held_def)
    then have "untouched ?base {i} (vm_stack vm) vm2" using within_slots [OF that(1)] by blast
    then show ?thesis by (simp add: untouched_def)
  qed
  ultimately show ?thesis using new fr(2,3) by auto
qed

text \<open>A function that calls the native \<open>@argc\<close> and returns what it gives.\<close>

definition call_run :: VM where
  "call_run = (sample_run [0, 0, 29, 0, 11] [VAL_OBJ 2] [VAL_OBJ 1, VAL_OBJ 1])
     \<lparr>vm_gc := (vm_gc (sample_run [0, 0, 29, 0, 11] [VAL_OBJ 2] []))\<lparr>
        gc_store := [0 \<mapsto> OFunction (sample_function [0, 0, 29, 0, 11] [VAL_OBJ 2]),
          1 \<mapsto> OClosure \<lparr>cl_function = 0, cl_upvalues = [], cl_owner = None\<rparr>, 2 \<mapsto> ONative 31],
        gc_objects := [2, 1, 0], gc_fresh := 3\<rparr>\<rparr>"

definition in_call :: "nat \<Rightarrow> (nat \<Rightarrow> Value) \<Rightarrow> nat \<Rightarrow> VM" where
  "in_call ip stack n = call_run\<lparr>vm_frames := \<lparr>fr_closure = 1, fr_ip = ip, fr_slots = 1\<rparr> # vm_frames call_run,
     vm_stack := stack, vm_stackTop := n\<rparr>"

lemma nativeDefinitions_argc: "31 < length (nativeDefinitions v)" "nativeDefinitions v ! 31 = (''@argc'', argcNative)"
  by (simp_all add: nativeDefinitions_def)

lemma run_native_argc: "run_native v 31 vm 0 args = Some (Returns (NUMBER_I64_VAL (int (length (vm_argv vm)))) vm)"
  by (simp add: run_native_def nativeDefinitions_argc argcNative_def require_all.simps assertArgCount_def fails_if_def)

lemmas call_run_simps = call_run_def in_call_def sample_run_simps READ_CONSTANT_def exec_CONSTANT_def push_next_def
  pushOnStack_def STACK_MAX_def FRAMES_MAX_def

lemma in_call_steps:
  "call 1 0 call_run = Some (Next (in_call 0 (vm_stack call_run) 2))"
  "step (run_native v) (in_call 0 stack 2) = Some (Next (in_call 2 (stack(2 := VAL_OBJ 2)) 3))"
  "stack 2 = VAL_OBJ 2 \<Longrightarrow>
     step (run_native v) (in_call 2 stack 3) = Some (Next (in_call 4 (stack(2 := NUMBER_I64_VAL 0)) 3))"
  by (simp_all add: call_run_simps call_def exec_CALL_def peekStack_def callValue_def callNative_def
      run_native_argc popNFromStack_def)

lemma in_call_within:
  assumes "Q (in_call 0 (vm_stack call_run) 2)" "Q (in_call 2 ((vm_stack call_run)(2 := VAL_OBJ 2)) 3)"
    "Q (in_call 4 ((vm_stack call_run)(2 := NUMBER_I64_VAL 0)) 3)"
  shows "runs_within (run_native v) Q (in_call 0 (vm_stack call_run) 2)
    (in_call 4 ((vm_stack call_run)(2 := NUMBER_I64_VAL 0)) 3)"
proof -
  let ?vm = "in_call 4 ((vm_stack call_run)(2 := NUMBER_I64_VAL 0)) 3"
  have "runs_within (run_native v) Q (in_call 0 (vm_stack call_run) 2) (in_call 2 ((vm_stack call_run)(2 := VAL_OBJ 2)) 3)"
    by (rule within_step [OF within_start [of Q, OF assms(1)] in_call_steps(2) assms(2)])
  moreover have "step (run_native v) (in_call 2 ((vm_stack call_run)(2 := VAL_OBJ 2)) 3) = Some (Next ?vm)"
    using in_call_steps(3) [of "(vm_stack call_run)(2 := VAL_OBJ 2)"] by simp
  ultimately show ?thesis using assms(3) by (rule within_step)
qed

theorem return_undoes_call_witness:
  "\<exists>vm3. step (run_native [48]) (in_call 4 ((vm_stack call_run)(2 := NUMBER_I64_VAL 0)) 3) = Some (Next vm3) \<and>
     vm_frames vm3 = vm_frames call_run \<and> vm_stackTop vm3 = 2 \<and> vm_stack vm3 1 = NUMBER_I64_VAL 0 \<and>
     vm_stack vm3 0 = VAL_OBJ 1"
proof -
  let ?vm = "in_call 4 ((vm_stack call_run)(2 := NUMBER_I64_VAL 0)) 3" and ?native = "run_native [48]"
  have size: "length (vm_frames call_run) = 1" "vm_stackTop call_run = 2" "vm_stack call_run 0 = VAL_OBJ 1"
    "\<not> held call_run 0"
    by (simp_all add: call_run_def sample_run_def held_def)
  have frames: "vm_frames (in_call ip stack n) = \<lparr>fr_closure = 1, fr_ip = ip, fr_slots = 1\<rparr> # vm_frames call_run"
    "vm_stackTop (in_call ip stack n) = n" "vm_stack (in_call ip stack n) = stack" for ip stack n
    by (simp_all add: in_call_def)
  have "runs_within ?native (deeper (length (vm_frames call_run))) (in_call 0 (vm_stack call_run) 2) ?vm"
    by (rule in_call_within) (simp_all add: deeper_def frames)
  moreover have "runs_within ?native (above_base 1) (in_call 0 (vm_stack call_run) 2) ?vm"
    by (rule in_call_within) (simp_all add: above_base_def frames)
  moreover have "\<exists>vm3. step ?native ?vm = Some (Next vm3) \<and> length (vm_frames vm3) = 1"
    by (simp add: call_run_simps exec_RETURN_def popFromStack_def closeUpvalues_def)
  then obtain vm3 where vm3: "step ?native ?vm = Some (Next vm3)" "length (vm_frames vm3) = 1" by blast
  moreover have "vm_frames call_run \<noteq> []" using size(1) by auto
  ultimately have "vm_frames vm3 = vm_frames call_run" "vm_stackTop vm3 = 2"
    "vm_stack vm3 1 = vm_stack ?vm (vm_stackTop ?vm - 1)" "vm_stack vm3 0 = VAL_OBJ 1"
    using return_undoes_call [OF in_call_steps(1) _ _ vm3(1)] size by (simp_all add: frames)
  then show ?thesis using vm3(1) by (simp add: in_call_def)
qed

end
