(* ===== verification/Heap_Alloc.thy ===== *)
theory Heap_Alloc
  imports Object_Heap
begin

text \<open>
  What every allocation of \<^verbatim>\<open>src/object.c\<close> guarantees to the code that calls it, although it may
  collect: it returns, the heap stays well-formed, and nothing the machine can still reach changes.
  The lemmas compose, so that a routine that allocates many times keeps what it has built so far
  as long as it keeps it reachable.
\<close>

section \<open>Machines an allocation may run in\<close>

definition vm_good :: "VM \<Rightarrow> bool" where
  "vm_good vm \<longleftrightarrow> heap_ok (vm_gc vm) \<and> roots_ok vm"

abbreviation interned :: "VM \<Rightarrow> obj_ref \<Rightarrow> bool" where
  "interned vm r \<equiv> table_map (gc_strings (vm_gc vm)) r \<noteq> None"

lemma vm_good_live: "vm_good vm \<Longrightarrow> live_objects vm \<subseteq> dom (vm_store vm)"
proof
  fix r assume "vm_good vm" "r \<in> live_objects vm"
  then have "reaches (vm_store vm) (set (vm_roots vm)) r" "store_ok (vm_store vm)"
    "set (vm_roots vm) \<subseteq> dom (vm_store vm)"
    by (simp_all add: vm_good_def roots_ok_def heap_ok_def live_objects_def)
  then show "r \<in> dom (vm_store vm)" by (rule reaches_dom)
qed

lemma vm_good_live_Some: "vm_good vm \<Longrightarrow> r \<in> live_objects vm \<Longrightarrow> \<exists>obj. vm_store vm r = Some obj"
  using vm_good_live by blast

lemma vm_good_fresh: "vm_good vm \<Longrightarrow> r \<in> dom (vm_store vm) \<Longrightarrow> r < gc_fresh (vm_gc vm)"
  by (auto simp: vm_good_def heap_ok_def)

lemma table_alive_string: "table_alive store t \<Longrightarrow> table_map t r \<noteq> None \<Longrightarrow> as_string store r \<noteq> None"
  unfolding table_alive_def keys_alive_def by (elim conjE) (drule bspec, simp only: live_keys_map, assumption)

lemma interned_string: "vm_good vm \<Longrightarrow> interned vm r \<Longrightarrow> as_string (vm_store vm) r \<noteq> None"
  by (rule table_alive_string) (simp_all add: vm_good_def heap_ok_def strings_ok_def)

lemma as_string_dom: "as_string store r \<noteq> None \<Longrightarrow> r \<in> dom store"
  by (auto simp: as_string_def split: option.splits)

text \<open>
  \<open>keeps W\<close>: the reachable objects outside \<open>W\<close> are unchanged, those in \<open>W\<close> only gain references;
  the machine's roots stay, and the stack may have grown.
\<close>

definition keeps :: "obj_ref set \<Rightarrow> VM \<Rightarrow> VM \<Rightarrow> bool" where
  "keeps W vm vm' \<longleftrightarrow>
     vm_good vm' \<and>
     vm_frames vm' = vm_frames vm \<and> vm_globals vm' = vm_globals vm \<and>
     vm_openUpvalues vm' = vm_openUpvalues vm \<and> vm_stdout vm' = vm_stdout vm \<and>
     vm_stackTop vm \<le> vm_stackTop vm' \<and> (\<forall>i < vm_stackTop vm. vm_stack vm' i = vm_stack vm i) \<and>
     gc_fresh (vm_gc vm) \<le> gc_fresh (vm_gc vm') \<and>
     (\<forall>r \<in> live_objects vm. \<exists>obj obj'. vm_store vm r = Some obj \<and> vm_store vm' r = Some obj' \<and>
        (r \<notin> W \<longrightarrow> obj' = obj) \<and> set (obj_refs obj) \<subseteq> set (obj_refs obj')) \<and>
     (\<forall>r \<in> live_objects vm. interned vm r \<longrightarrow> interned vm' r)"

lemma keeps_good: "keeps W vm vm' \<Longrightarrow> vm_good vm'"
  by (simp add: keeps_def)

lemma keeps_fresh: "keeps W vm vm' \<Longrightarrow> gc_fresh (vm_gc vm) \<le> gc_fresh (vm_gc vm')"
  by (simp add: keeps_def)

lemma keeps_machine: "keeps W vm vm' \<Longrightarrow> vm_frames vm' = vm_frames vm \<and> vm_globals vm' = vm_globals vm \<and>
    vm_openUpvalues vm' = vm_openUpvalues vm \<and> vm_stdout vm' = vm_stdout vm"
  by (simp add: keeps_def)

lemma keeps_grows:
  "keeps W vm vm' \<Longrightarrow> r \<in> live_objects vm \<Longrightarrow>
    \<exists>obj obj'. vm_store vm r = Some obj \<and> vm_store vm' r = Some obj' \<and>
      (r \<notin> W \<longrightarrow> obj' = obj) \<and> set (obj_refs obj) \<subseteq> set (obj_refs obj')"
  unfolding keeps_def by (elim conjE) (drule (1) bspec)

lemma keeps_store: "keeps W vm vm' \<Longrightarrow> r \<in> live_objects vm \<Longrightarrow> r \<notin> W \<Longrightarrow> vm_store vm' r = vm_store vm r"
  unfolding keeps_def by fastforce

lemma keeps_interned: "keeps W vm vm' \<Longrightarrow> r \<in> live_objects vm \<Longrightarrow> interned vm r \<Longrightarrow> interned vm' r"
  unfolding keeps_def by blast

lemma keeps_stack: "keeps W vm vm' \<Longrightarrow> i < vm_stackTop vm \<Longrightarrow> vm_stack vm' i = vm_stack vm i"
  by (simp add: keeps_def)

lemma keeps_top: "keeps W vm vm' \<Longrightarrow> vm_stackTop vm \<le> vm_stackTop vm'"
  by (simp add: keeps_def)

lemma keeps_list: "keeps W vm vm' \<Longrightarrow> take (vm_stackTop vm) (stack_list vm') = stack_list vm"
  by (auto simp: keeps_def stack_list_def take_map intro!: nth_equalityI)

lemma set_vm_roots:
  "r \<in> set (vm_roots vm) \<longleftrightarrow>
     (\<exists>i < vm_stackTop vm. vm_stack vm i = VAL_OBJ r) \<or> r \<in> fr_closure ` set (vm_frames vm) \<or>
     r \<in> set (vm_openUpvalues vm) \<or> r \<in> set (table_refs (vm_globals vm))"
  by (auto simp: vm_roots_def set_value_refs stack_list_def) force+

lemma keeps_roots: "keeps W vm vm' \<Longrightarrow> set (vm_roots vm) \<subseteq> set (vm_roots vm')"
proof
  fix r assume k: "keeps W vm vm'" and r: "r \<in> set (vm_roots vm)"
  have "\<exists>i < vm_stackTop vm'. vm_stack vm' i = VAL_OBJ r" if "\<exists>i < vm_stackTop vm. vm_stack vm i = VAL_OBJ r"
    using that k unfolding keeps_def by (metis order_less_le_trans)
  then show "r \<in> set (vm_roots vm')" using r k unfolding set_vm_roots keeps_def by metis
qed

lemma keeps_live: "keeps W vm vm' \<Longrightarrow> live_objects vm \<subseteq> live_objects vm'"
proof
  fix r assume k: "keeps W vm vm'" and "r \<in> live_objects vm"
  then have "reaches (vm_store vm) (set (vm_roots vm)) r" by (simp add: live_objects_def)
  then have "r \<in> live_objects vm \<and> r \<in> live_objects vm'"
  proof (induction rule: reaches.induct)
    case (root r)
    then show ?case using keeps_roots [OF k] by (auto simp: live_objects_def intro: reaches.root)
  next
    case (refers r obj s)
    then obtain obj' where "vm_store vm' r = Some obj'" "set (obj_refs obj) \<subseteq> set (obj_refs obj')"
      using k unfolding keeps_def by fastforce
    then have "s \<in> live_objects vm'" using refers live_objects_closed [of r vm' obj' s] by auto
    moreover have "s \<in> live_objects vm" using refers live_objects_closed [of r vm obj s] by simp
    ultimately show ?case by simp
  qed
  then show "r \<in> live_objects vm'" by simp
qed

lemma keeps_refl: "vm_good vm \<Longrightarrow> keeps {} vm vm"
  using vm_good_live_Some by (fastforce simp: keeps_def)

lemma keeps_trans:
  assumes a: "keeps W vm vm1" and b: "keeps V vm1 vm2"
  shows "keeps (W \<union> V) vm vm2"
proof -
  have grows: "\<exists>obj obj'. vm_store vm r = Some obj \<and> vm_store vm2 r = Some obj' \<and>
      (r \<notin> W \<union> V \<longrightarrow> obj' = obj) \<and> set (obj_refs obj) \<subseteq> set (obj_refs obj')"
    if r: "r \<in> live_objects vm" for r
  proof -
    obtain x y where x: "vm_store vm r = Some x" "vm_store vm1 r = Some y" "r \<notin> W \<longrightarrow> y = x"
      "set (obj_refs x) \<subseteq> set (obj_refs y)"
      using keeps_grows [OF a r] by blast
    obtain y' z where "vm_store vm1 r = Some y'" "vm_store vm2 r = Some z" "r \<notin> V \<longrightarrow> z = y'"
      "set (obj_refs y') \<subseteq> set (obj_refs z)"
      using keeps_grows [OF b subsetD [OF keeps_live [OF a] r]] by blast
    with x show ?thesis by auto
  qed
  have kept: "interned vm2 r" if "r \<in> live_objects vm" "interned vm r" for r
    using keeps_interned [OF b] keeps_interned [OF a that] keeps_live [OF a] that by blast
  have "\<forall>i < vm_stackTop vm. vm_stack vm2 i = vm_stack vm i"
    using keeps_stack [OF a] keeps_stack [OF b] keeps_top [OF a] by simp
  with keeps_top [OF a] keeps_top [OF b] keeps_fresh [OF a] keeps_fresh [OF b] keeps_good [OF b]
    keeps_machine [OF a] keeps_machine [OF b]
  show ?thesis unfolding keeps_def by (intro conjI ballI impI grows kept) simp_all
qed

lemma keeps_trans0: "keeps {} vm vm1 \<Longrightarrow> keeps V vm1 vm2 \<Longrightarrow> keeps V vm vm2"
  using keeps_trans [of "{}"] by simp

lemma keeps_weaken: "keeps W vm vm' \<Longrightarrow> W \<inter> live_objects vm \<subseteq> V \<Longrightarrow> keeps V vm vm'"
  unfolding keeps_def by blast

text \<open>What lies above the caller's stack may be popped again.\<close>

lemma keeps_pop:
  assumes "keeps W vm vm'" "vm_stackTop vm \<le> n" "n \<le> vm_stackTop vm'"
  shows "keeps W vm (vm'\<lparr>vm_stackTop := n\<rparr>)"
proof -
  have "set (vm_roots (vm'\<lparr>vm_stackTop := n\<rparr>)) \<subseteq> set (vm_roots vm')"
    using assms(3) by (auto simp: set_vm_roots)
  then have "vm_good (vm'\<lparr>vm_stackTop := n\<rparr>)"
    using assms(1) by (auto simp: keeps_def vm_good_def roots_ok_def)
  with assms show ?thesis by (simp add: keeps_def)
qed

lemma vm_good_collected: "vm_good vm \<Longrightarrow> collected vm vm' \<Longrightarrow> vm_good vm'"
proof -
  assume good: "vm_good vm" and c: "collected vm vm'"
  then obtain A where A: "live_objects vm \<subseteq> A" "vm_store vm' = vm_store vm |` A"
    by (auto simp: collected_def)
  have "vm_roots vm' = vm_roots vm" using c vm_roots_gc by (metis collected_def)
  moreover have "set (vm_roots vm) \<subseteq> live_objects vm" by (auto simp: live_objects_def intro: reaches.root)
  ultimately have "roots_ok vm'"
    using A vm_good_live [OF good] by (auto simp: roots_ok_def)
  with c show ?thesis by (simp add: vm_good_def collected_def)
qed

lemma keeps_collected: "vm_good vm \<Longrightarrow> collected vm vm' \<Longrightarrow> keeps {} vm vm'"
proof -
  assume good: "vm_good vm" and c: "collected vm vm'"
  then obtain A where A: "live_objects vm \<subseteq> A" "vm_store vm' = vm_store vm |` A"
    "table_map (gc_strings (vm_gc vm')) = table_map (gc_strings (vm_gc vm)) |` A"
    by (auto simp: collected_def)
  have "\<exists>obj obj'. vm_store vm r = Some obj \<and> vm_store vm' r = Some obj' \<and>
      (r \<notin> {} \<longrightarrow> obj' = obj) \<and> set (obj_refs obj) \<subseteq> set (obj_refs obj')" if "r \<in> live_objects vm" for r
    using vm_good_live_Some [OF good that] that A by (auto simp: subset_iff)
  moreover have "vm' = vm\<lparr>vm_gc := vm_gc vm'\<rparr>" using c unfolding collected_def by (elim conjE)
  then have "vm_frames vm' = vm_frames vm" "vm_globals vm' = vm_globals vm" "vm_stackTop vm' = vm_stackTop vm"
    "vm_openUpvalues vm' = vm_openUpvalues vm" "vm_stack vm' = vm_stack vm" "vm_stdout vm' = vm_stdout vm"
    by (metis VM.select_convs(1-5,7) VM.update_convs(6) VM.surjective)+
  ultimately show ?thesis
    using vm_good_collected [OF good c] A c unfolding keeps_def
    by (auto simp: collected_def subset_iff)
qed

section \<open>Changes of the heap\<close>

lemma obj_ok_refs: "obj_ok store r obj \<Longrightarrow> set (obj_refs obj) \<subseteq> dom store"
  by (simp add: obj_ok_def)

lemma instance_struct_ref: "obj = OInstance i \<Longrightarrow> in_struct i \<in> set (obj_refs obj)"
  by simp

text \<open>A new object, or one that keeps its shape, leaves the others well-formed.\<close>

lemma store_ok_upd:
  assumes ok: "store_ok store" and new: "obj_ok store r obj"
    and shape: "r \<notin> dom store \<or> (same_shape store (store(r \<mapsto> obj)) r \<and>
      field_count store r = field_count (store(r \<mapsto> obj)) r)"
  shows "store_ok (store(r \<mapsto> obj))"
proof -
  let ?S = "store(r \<mapsto> obj)"
  have same: "same_shape store ?S x \<and> field_count store x = field_count ?S x" if "x \<in> dom store" for x
    using shape that by (cases "x = r") (auto simp: same_shape_def field_count_def as_struct_def)
  have "obj_ok ?S x y" if "obj_ok store x y" for x y
  proof (rule obj_ok_shape [OF that])
    show "same_shape store ?S s" if "s \<in> set (obj_refs y)" for s
      using same obj_ok_refs [OF \<open>obj_ok store x y\<close>] that by blast
    show "field_count store (in_struct i) = field_count ?S (in_struct i)" if "y = OInstance i" for i
      using same obj_ok_refs [OF \<open>obj_ok store x y\<close>] instance_struct_ref [OF that] by blast
  qed
  with ok new show ?thesis by (auto simp: store_ok_def)
qed

lemma strings_ok_shape:
  assumes ok: "strings_ok gc" and eq: "gc_strings gc' = gc_strings gc"
    and same: "\<And>r. r \<in> dom (gc_store gc) \<Longrightarrow> same_shape (gc_store gc) (gc_store gc') r"
  shows "strings_ok gc'"
proof -
  have alive: "table_alive (gc_store gc) (gc_strings gc)" using ok by (simp add: strings_ok_def)
  have "r \<in> dom (gc_store gc)" if "table_map (gc_strings gc) r \<noteq> None" for r
    by (rule as_string_dom, rule table_alive_string [OF alive that])
  then have k: "same_shape (gc_store gc) (gc_store gc') r" if "table_map (gc_strings gc) r \<noteq> None" for r
    using that same by blast
  then have hc: "key_hash (gc_store gc') r = key_hash (gc_store gc) r"
    "key_chars (gc_store gc') r = key_chars (gc_store gc) r"
    if "table_map (gc_strings gc) r \<noteq> None" for r
    using same_shape_string [OF k [OF that]] by simp_all
  have "table_ok (key_hash (gc_store gc')) (gc_strings gc)"
    by (rule table_ok_hash_cong [of "key_hash (gc_store gc)"]) (use alive hc(1) in \<open>simp_all add: table_alive_def\<close>)
  moreover have "keys_alive (gc_store gc') (gc_strings gc)"
    unfolding keys_alive_def
  proof
    fix r assume "r \<in> set (live_keys (t_entries (gc_strings gc)))"
    then have "table_map (gc_strings gc) r \<noteq> None" by (rule live_keys_map [THEN iffD1])
    then show "as_string (gc_store gc') r \<noteq> None" using same_shape_as(1) [OF k] table_alive_string [OF alive] by blast
  qed
  ultimately show ?thesis
    using ok hc(1,2) by (auto simp: strings_ok_def table_alive_def eq)
qed

lemma put_obj_keeps:
  assumes good: "vm_good vm" and old: "vm_store vm r = Some old" and ok: "obj_ok (vm_store vm) r obj"
    and shape: "obj_shape obj = obj_shape old" "map_option st_fieldCount (case obj of OStruct s \<Rightarrow> Some s | _ \<Rightarrow> None) =
      map_option st_fieldCount (case old of OStruct s \<Rightarrow> Some s | _ \<Rightarrow> None)"
    and refs: "set (obj_refs old) \<subseteq> set (obj_refs obj)"
  shows "keeps {r} vm (put_obj r obj vm)"
proof -
  let ?S = "(vm_store vm)(r \<mapsto> obj)"
  have same: "same_shape (vm_store vm) ?S x" for x
    using old shape(1) by (simp add: same_shape_def)
  have count: "field_count (vm_store vm) r = field_count ?S r"
    using old shape(2) by (simp add: field_count_def as_struct_def)
  have h: "heap_ok (vm_gc vm)" using good by (simp add: vm_good_def)
  then have "store_ok ?S" using store_ok_upd [OF _ ok] same count by (simp add: heap_ok_def)
  moreover have "strings_ok (vm_gc (put_obj r obj vm))"
    by (rule strings_ok_shape [of "vm_gc vm"]) (use h same in \<open>simp_all add: heap_ok_def\<close>)
  moreover have "dom ?S = dom (vm_store vm)" using old by auto
  ultimately have "heap_ok (vm_gc (put_obj r obj vm))" using h by (simp add: heap_ok_def put_obj_def)
  moreover have "roots_ok (put_obj r obj vm)" using good old by (auto simp: vm_good_def roots_ok_def)
  ultimately have "vm_good (put_obj r obj vm)" by (simp add: vm_good_def)
  then show ?thesis using vm_good_live_Some [OF good] old refs unfolding keeps_def by fastforce
qed

section \<open>Allocation\<close>

lemma reallocate_keeps:
  assumes "vm_good vm"
  shows "\<exists>vm'. reallocate oldSize newSize vm = Some vm' \<and> collected vm vm' \<and> keeps {} vm vm' \<and>
    vm_stackTop vm' = vm_stackTop vm"
proof -
  obtain vm' where r: "reallocate oldSize newSize vm = Some vm'" "collected vm vm'"
    using reallocate_correct [of vm] assms unfolding vm_good_def by blast
  have "vm' = vm\<lparr>vm_gc := vm_gc vm'\<rparr>" using r(2) unfolding collected_def by (elim conjE)
  then have "vm_stackTop vm' = vm_stackTop vm" by (metis VM.select_convs(3) VM.update_convs(6) VM.surjective)
  with r keeps_collected [OF assms r(2)] show ?thesis by blast
qed

lemma allocateObject_keeps:
  assumes good: "vm_good vm" and refs: "set (obj_refs obj) \<subseteq> live_objects vm"
    and ok: "obj_ok (vm_store vm) (gc_fresh (vm_gc vm)) obj"
  shows "\<exists>vm'. allocateObject obj vm = Some (gc_fresh (vm_gc vm), vm') \<and> keeps {} vm vm' \<and>
    vm_stackTop vm' = vm_stackTop vm \<and> vm_store vm' (gc_fresh (vm_gc vm)) = Some obj \<and>
    (\<exists>A. table_map (gc_strings (vm_gc vm')) = table_map (gc_strings (vm_gc vm)) |` A \<and>
      (\<forall>k. k \<in> A \<longrightarrow> k \<in> dom (vm_store vm) \<longrightarrow> vm_store vm' k = vm_store vm k))"
proof -
  let ?r = "gc_fresh (vm_gc vm)"
  obtain vm1 where vm1: "reallocate 0 (sizeof_obj (obj_type obj)) vm = Some vm1" "collected vm vm1"
    "keeps {} vm vm1" "vm_stackTop vm1 = vm_stackTop vm"
    using reallocate_keeps [OF good] by blast
  have good1: "vm_good vm1" using vm1(3) by (rule keeps_good)
  obtain A where A: "live_objects vm \<subseteq> A" "vm_store vm1 = vm_store vm |` A"
    "table_map (gc_strings (vm_gc vm1)) = table_map (gc_strings (vm_gc vm)) |` A"
    and fresh: "gc_fresh (vm_gc vm1) = ?r"
    using vm1(2) unfolding collected_def by blast
  let ?vm = "vm1\<lparr>vm_gc := (vm_gc vm1)\<lparr>gc_store := (vm_store vm1)(?r \<mapsto> obj),
      gc_isMarked := (gc_isMarked (vm_gc vm1))(?r := False),
      gc_objects := ?r # gc_objects (vm_gc vm1), gc_fresh := ?r + 1\<rparr>\<rparr>"
  have h1: "heap_ok (vm_gc vm1)" using good1 by (simp add: vm_good_def)
  have new: "?r \<notin> dom (vm_store vm1)" using vm_good_fresh [OF good1, of ?r] fresh by auto
  have sub: "vm_store vm1 x = vm_store vm x" if "x \<in> set (obj_refs obj)" for x
    using that refs A by auto
  have "obj_ok (vm_store vm1) ?r obj"
    by (rule obj_ok_shape [OF ok])
      (use sub in \<open>simp_all add: same_shape_def field_count_def as_struct_def\<close>)
  then have "store_ok ((vm_store vm1)(?r \<mapsto> obj))"
    using store_ok_upd h1 new by (auto simp: heap_ok_def)
  moreover have "strings_ok (vm_gc ?vm)"
    by (rule strings_ok_shape [of "vm_gc vm1"]) (use h1 new in \<open>auto simp: heap_ok_def same_shape_def\<close>)
  moreover have "x < ?r + 1" if "vm_store vm1 x = Some y" for x y
    using vm_good_fresh [OF good1 domI [of "vm_store vm1", OF that]] fresh by simp
  ultimately have "heap_ok (vm_gc ?vm)" using h1 fresh by (auto simp: heap_ok_def)
  moreover have "roots_ok ?vm" using good1 by (auto simp: vm_good_def roots_ok_def)
  ultimately have "vm_good ?vm" by (simp add: vm_good_def)
  moreover have "x \<noteq> ?r" if "x \<in> live_objects vm1" for x
    using that vm_good_live [OF good1] new by blast
  then have "\<exists>obj obj'. vm_store vm1 x = Some obj \<and> vm_store ?vm x = Some obj' \<and>
      (x \<notin> {} \<longrightarrow> obj' = obj) \<and> set (obj_refs obj) \<subseteq> set (obj_refs obj')" if "x \<in> live_objects vm1" for x
    using vm_good_live_Some [OF good1 that] that by auto
  ultimately have "keeps {} vm1 ?vm"
    using fresh unfolding keeps_def by (intro conjI ballI; simp)
  then have "keeps {} vm ?vm" by (rule keeps_trans0 [OF vm1(3)])
  moreover have "allocateObject obj vm = Some (?r, ?vm)"
    by (simp add: allocateObject_def vm1(1) fresh Let_def)
  moreover have "vm_store ?vm k = vm_store vm k" if "k \<in> A" "k \<in> dom (vm_store vm)" for k
    using that A(2) vm_good_fresh [OF good that(2)] by simp
  moreover have "table_map (gc_strings (vm_gc ?vm)) = table_map (gc_strings (vm_gc vm)) |` A"
    "vm_stackTop ?vm = vm_stackTop vm" "vm_store ?vm ?r = Some obj"
    using A(3) vm1(4) by simp_all
  ultimately show ?thesis by blast
qed

lemma stack_live: "i < vm_stackTop vm \<Longrightarrow> vm_stack vm i = VAL_OBJ r \<Longrightarrow> r \<in> live_objects vm"
  unfolding live_objects_def by (auto simp: set_vm_roots intro!: reaches.root)

lemma push_keeps:
  assumes good: "vm_good vm" and top: "vm_stackTop vm < STACK_MAX"
    and v: "\<And>r. v = VAL_OBJ r \<Longrightarrow> r \<in> dom (vm_store vm)"
  shows "\<exists>vm'. pushOnStack v vm = Some vm' \<and> keeps {} vm vm' \<and> vm_gc vm' = vm_gc vm \<and>
    vm_stackTop vm' = vm_stackTop vm + 1 \<and> vm_stack vm' (vm_stackTop vm) = v"
proof -
  let ?vm = "vm\<lparr>vm_stack := (vm_stack vm)(vm_stackTop vm := v), vm_stackTop := vm_stackTop vm + 1\<rparr>"
  have "set (vm_roots ?vm) \<subseteq> set (vm_roots vm) \<union> {r. v = VAL_OBJ r}"
    by (auto simp: set_vm_roots less_Suc_eq split: if_splits)
  then have "vm_good ?vm" using good v by (fastforce simp: vm_good_def roots_ok_def)
  then have "keeps {} vm ?vm" using vm_good_live_Some [OF good] by (simp add: keeps_def)
  with top show ?thesis by (intro exI [of _ ?vm]) (simp add: pushOnStack_def)
qed

lemma pop_above:
  assumes "keeps W vm vm'" "vm_stackTop vm' = vm_stackTop vm + 1"
  shows "\<exists>v vm''. popFromStack vm' = Some (v, vm'') \<and> v = vm_stack vm' (vm_stackTop vm) \<and>
    keeps W vm vm'' \<and> vm_stackTop vm'' = vm_stackTop vm \<and> vm_gc vm'' = vm_gc vm'"
  using keeps_pop [OF assms(1) order_refl] assms(2) by (simp add: popFromStack_def)

section \<open>Strings\<close>

definition unspelt :: "bytes \<Rightarrow> VM \<Rightarrow> bool" where
  "unspelt chars vm \<longleftrightarrow> (\<forall>k. interned vm k \<longrightarrow> key_chars (vm_store vm) k \<noteq> chars)"

lemma unspelt_shrink:
  assumes good: "vm_good vm" and "unspelt chars vm"
    and map: "table_map (gc_strings (vm_gc vm')) = table_map (gc_strings (vm_gc vm)) |` A"
    and same: "\<And>k. k \<in> A \<Longrightarrow> k \<in> dom (vm_store vm) \<Longrightarrow> vm_store vm' k = vm_store vm k"
  shows "unspelt chars vm'"
  unfolding unspelt_def
proof (intro allI impI)
  fix k assume "interned vm' k"
  then have k: "interned vm k" "k \<in> A" using map by (auto simp: restrict_map_def split: if_splits)
  then have "vm_store vm' k = vm_store vm k" using same as_string_dom [OF interned_string [OF good]] by blast
  with k assms(2) show "key_chars (vm_store vm') k \<noteq> chars" by (simp add: unspelt_def key_chars_def)
qed

lemma unspelt_collected: "vm_good vm \<Longrightarrow> unspelt chars vm \<Longrightarrow> collected vm vm' \<Longrightarrow> unspelt chars vm'"
proof -
  assume *: "vm_good vm" "unspelt chars vm" "collected vm vm'"
  then obtain A where "vm_store vm' = vm_store vm |` A"
    "table_map (gc_strings (vm_gc vm')) = table_map (gc_strings (vm_gc vm)) |` A"
    by (auto simp: collected_def)
  then show ?thesis using unspelt_shrink [OF *(1,2)] by simp
qed

lemma vm_good_account: "vm_good (vm\<lparr>vm_gc := account m n (vm_gc vm)\<rparr>) = vm_good vm"
  by (simp add: vm_good_def roots_ok_def)

lemma keeps_account:
  assumes "keeps W vm vm'"
  shows "keeps W vm (vm'\<lparr>vm_gc := account m n (vm_gc vm')\<rparr>)"
  using assms by (simp add: keeps_def vm_good_account)

text \<open>Adding a live string that no interned one spells.\<close>

lemma intern_keeps:
  assumes good: "vm_good vm" and r: "r \<in> live_objects vm"
    and str: "as_string (vm_store vm) r = Some s" "str_hash s = hashBytes (str_chars s)"
    and new: "unspelt (str_chars s) vm"
  shows "\<exists>b vm'. tableSetAt T_STRINGS r VAL_NIL vm = Some (b, vm') \<and> keeps {} vm vm' \<and>
    vm_stackTop vm' = vm_stackTop vm \<and> vm_stack vm' = vm_stack vm \<and> interned vm' r"
proof -
  let ?old = "gc_strings (vm_gc vm)"
  obtain vm1 where vm1: "(if table_overloaded ?old
      then do {
        vm \<leftarrow> reallocate 0 (sizeof_Entry * GROW_CAPACITY (t_capacity ?old)) vm;
        Some (vm\<lparr>vm_gc := free_bytes (sizeof_Entry * t_capacity ?old) (vm_gc vm)\<rparr>)
      }
      else Some vm) = Some vm1" "keeps {} vm vm1" "vm_stackTop vm1 = vm_stackTop vm"
    "unspelt (str_chars s) vm1" "vm_stack vm1 = vm_stack vm"
  proof (cases "table_overloaded ?old")
    case True
    obtain vm2 where vm2: "reallocate 0 (sizeof_Entry * GROW_CAPACITY (t_capacity ?old)) vm = Some vm2"
      "collected vm vm2" "keeps {} vm vm2" "vm_stackTop vm2 = vm_stackTop vm"
      using reallocate_keeps [OF good] by blast
    have "vm2 = vm\<lparr>vm_gc := vm_gc vm2\<rparr>" using vm2(2) unfolding collected_def by (elim conjE)
    then have "vm_stack vm2 = vm_stack vm" by (metis VM.select_convs(2) VM.update_convs(6) VM.surjective)
    moreover have "unspelt (str_chars s) vm2" by (rule unspelt_collected [OF good new vm2(2)])
    ultimately show thesis using True vm2 keeps_account [OF vm2(3)]
      by (intro that [of "vm2\<lparr>vm_gc := free_bytes (sizeof_Entry * t_capacity ?old) (vm_gc vm2)\<rparr>"])
        (simp_all add: free_bytes_def unspelt_def)
  next
    case False
    with that [of vm] keeps_refl [OF good] new show thesis by simp
  qed
  let ?t = "gc_strings (vm_gc vm1)" and ?S = "vm_store vm1"
  have good1: "vm_good vm1" using vm1(2) by (rule keeps_good)
  have h1: "heap_ok (vm_gc vm1)" using good1 by (simp add: vm_good_def)
  have s1: "as_string ?S r = Some s" using keeps_store [OF vm1(2) r] str(1) by (simp add: as_string_def)
  have chars: "key_chars ?S r = str_chars s" "key_hash ?S r = str_hash s"
    using s1 by (auto simp: as_string_def key_chars_def key_hash_def split: option.splits Obj.splits)
  have ok: "strings_ok (vm_gc vm1)" using h1 by (simp add: heap_ok_def)
  then have alive: "table_ok (key_hash ?S) ?t" "keys_alive ?S ?t" by (simp_all add: strings_ok_def table_alive_def)
  obtain t where t: "tableSet (key_hash ?S) ?t r VAL_NIL = Some (table_map ?t r = None, t)"
    "table_ok (key_hash ?S) t" "table_map t = (table_map ?t)(r \<mapsto> VAL_NIL)"
    using tableSet_correct [OF alive(1)] by blast
  let ?vm = "vm1\<lparr>vm_gc := (vm_gc vm1)\<lparr>gc_strings := t\<rparr>\<rparr>"
  have run: "tableSetAt T_STRINGS r VAL_NIL vm = Some (table_map ?t r = None, ?vm)"
    using vm1(1) alive(2) s1 t(1) by (simp add: tableSetAt_def)
  have "keys_alive ?S t"
    unfolding keys_alive_def
  proof
    fix k assume "k \<in> set (live_keys (t_entries t))"
    then have "table_map t k \<noteq> None" by (rule live_keys_map [THEN iffD1])
    then have "k = r \<or> table_map ?t k \<noteq> None" using t(3) by (auto split: if_splits)
    then show "as_string ?S k \<noteq> None" using s1 interned_string [OF good1] by auto
  qed
  moreover have "key_hash ?S k = hashBytes (key_chars ?S k)" if "table_map t k \<noteq> None" for k
    using that t(3) ok chars str(2) by (cases "k = r") (simp_all add: strings_ok_def)
  moreover have "k = k'" if "table_map t k \<noteq> None" "table_map t k' \<noteq> None" "key_chars ?S k = key_chars ?S k'" for k k'
    using that t(3) ok chars vm1(4) by (cases "k = r"; cases "k' = r") (auto simp: strings_ok_def unspelt_def)
  ultimately have "strings_ok (vm_gc ?vm)" using t(2) by (simp add: strings_ok_def table_alive_def)
  then have "vm_good ?vm" using good1 by (simp add: vm_good_def heap_ok_def roots_ok_def)
  then have "keeps {} vm1 ?vm" using vm_good_live_Some [OF good1] t(3) by (simp add: keeps_def)
  from keeps_trans0 [OF vm1(2) this] run vm1(3,5) t(3) show ?thesis by simp
qed

lemma allocateString_keeps:
  assumes good: "vm_good vm" and top: "vm_stackTop vm < STACK_MAX" and new: "unspelt chars vm"
  shows "\<exists>r vm'. allocateString chars (hashBytes chars) vm = Some (r, vm') \<and> keeps {} vm vm' \<and>
    vm_stackTop vm' = vm_stackTop vm \<and> interned vm' r \<and> key_chars (vm_store vm') r = chars"
proof -
  let ?s = "\<lparr>str_chars = chars, str_hash = hashBytes chars\<rparr>" and ?r = "gc_fresh (vm_gc vm)"
  obtain vm1 A where vm1: "allocateObject (OString ?s) vm = Some (?r, vm1)" "keeps {} vm vm1"
    "vm_stackTop vm1 = vm_stackTop vm" "vm_store vm1 ?r = Some (OString ?s)"
    "table_map (gc_strings (vm_gc vm1)) = table_map (gc_strings (vm_gc vm)) |` A"
    "\<And>k. k \<in> A \<Longrightarrow> k \<in> dom (vm_store vm) \<Longrightarrow> vm_store vm1 k = vm_store vm k"
    using allocateObject_keeps [OF good, of "OString ?s"] by (auto simp: obj_ok_def)
  have good1: "vm_good vm1" using vm1(2) by (rule keeps_good)
  have new1: "unspelt chars vm1" by (rule unspelt_shrink [OF good new vm1(5,6)])
  obtain vm2 where vm2: "pushOnStack (VAL_OBJ ?r) vm1 = Some vm2" "keeps {} vm1 vm2" "vm_gc vm2 = vm_gc vm1"
    "vm_stackTop vm2 = vm_stackTop vm1 + 1" "vm_stack vm2 (vm_stackTop vm1) = VAL_OBJ ?r"
    using push_keeps [OF good1, of "VAL_OBJ ?r"] top vm1(3,4) by auto
  have live2: "?r \<in> live_objects vm2" using stack_live [of "vm_stackTop vm1" vm2] vm2(4,5) by simp
  have "unspelt chars vm2" using new1 vm2(3) by (simp add: unspelt_def)
  then obtain b vm3 where vm3: "tableSetAt T_STRINGS ?r VAL_NIL vm2 = Some (b, vm3)" "keeps {} vm2 vm3"
    "vm_stackTop vm3 = vm_stackTop vm2" "interned vm3 ?r"
    using intern_keeps [OF keeps_good [OF vm2(2)] live2, of ?s] vm1(4) vm2(3) by (auto simp: as_string_def)
  have k3: "keeps {} vm vm3" using keeps_trans0 [OF vm1(2) keeps_trans0 [OF vm2(2) vm3(2)]] .
  obtain v vm4 where vm4: "popFromStack vm3 = Some (v, vm4)" "keeps {} vm vm4"
    "vm_stackTop vm4 = vm_stackTop vm" "vm_gc vm4 = vm_gc vm3"
    using pop_above [OF k3] vm3(3) vm2(4) vm1(3) by auto
  have "vm_store vm3 ?r = Some (OString ?s)"
    using keeps_store [OF vm3(2) live2] vm1(4) vm2(3) by simp
  then have "key_chars (vm_store vm4) ?r = chars" using vm4(4) by (simp add: key_chars_def)
  with vm4 vm3(4) show ?thesis
    by (intro exI [of _ ?r] exI [of _ vm4]) (simp add: allocateString_def vm1(1) vm2(1) vm3(1))
qed

lemma find_interned_correct:
  assumes "vm_good vm"
  shows "\<exists>found. find_interned chars (hashBytes chars) vm = Some found \<and>
    (\<forall>k. found = Some k \<longleftrightarrow> interned vm k \<and> key_chars (vm_store vm) k = chars)"
proof -
  have ok: "strings_ok (vm_gc vm)" using assms by (simp add: vm_good_def heap_ok_def)
  have alive: "table_ok (key_hash (vm_store vm)) (gc_strings (vm_gc vm))"
    "keys_alive (vm_store vm) (gc_strings (vm_gc vm))"
    using ok by (simp_all add: strings_ok_def table_alive_def)
  have inj: "k = k'" if "interned vm k" "interned vm k'" "key_chars (vm_store vm) k = key_chars (vm_store vm) k'" for k k'
    using ok that by (simp add: strings_ok_def)
  have hash: "key_hash (vm_store vm) k = hashBytes chars" if "interned vm k" "key_chars (vm_store vm) k = chars" for k
    using ok that by (simp add: strings_ok_def)
  obtain found where "tableFindString (key_hash (vm_store vm)) (key_chars (vm_store vm))
      (gc_strings (vm_gc vm)) chars (hashBytes chars) = Some found"
    "\<And>k. found = Some k \<longleftrightarrow> interned vm k \<and> key_chars (vm_store vm) k = chars"
    using tableFindString_correct [OF alive(1) inj hash] by blast
  then show ?thesis using alive(2) by (simp add: find_interned_def)
qed

text \<open>
  \<open>copyString\<close> gives the one interned string with the given characters, whatever is collected.
\<close>

lemma copyString_keeps:
  assumes good: "vm_good vm" and top: "vm_stackTop vm < STACK_MAX"
  shows "\<exists>r vm'. copyString chars vm = Some (r, vm') \<and> keeps {} vm vm' \<and>
    vm_stackTop vm' = vm_stackTop vm \<and> interned vm' r \<and> key_chars (vm_store vm') r = chars"
proof -
  obtain found where found: "find_interned chars (hashBytes chars) vm = Some found"
    "\<And>k. found = Some k \<longleftrightarrow> interned vm k \<and> key_chars (vm_store vm) k = chars"
    using find_interned_correct [OF good] by blast
  show ?thesis
  proof (cases found)
    case (Some r)
    then have "interned vm r \<and> key_chars (vm_store vm) r = chars" using found(2) by blast
    with Some found(1) keeps_refl [OF good] show ?thesis by (simp add: copyString_def)
  next
    case None
    then have new: "unspelt chars vm" using found(2) unfolding unspelt_def by blast
    obtain vm1 where vm1: "reallocate 0 (length chars + 1) vm = Some vm1" "collected vm vm1" "keeps {} vm vm1"
      "vm_stackTop vm1 = vm_stackTop vm"
      using reallocate_keeps [OF good] by blast
    obtain r vm2 where "allocateString chars (hashBytes chars) vm1 = Some (r, vm2)" "keeps {} vm1 vm2"
      "vm_stackTop vm2 = vm_stackTop vm1" "interned vm2 r" "key_chars (vm_store vm2) r = chars"
      using allocateString_keeps [OF keeps_good [OF vm1(3)] _ unspelt_collected [OF good new vm1(2)]] top vm1(4)
      by auto
    with None found(1) vm1 keeps_trans0 [OF vm1(3)] show ?thesis by (auto simp: copyString_def)
  qed
qed

text \<open>An interned string is determined by its characters.\<close>

lemma interned_unique:
  "vm_good vm \<Longrightarrow> interned vm r \<Longrightarrow> interned vm r' \<Longrightarrow>
    key_chars (vm_store vm) r = key_chars (vm_store vm) r' \<Longrightarrow> r = r'"
  by (simp add: vm_good_def heap_ok_def strings_ok_def)

section \<open>Properties\<close>

text \<open>
  C24. However often the collector runs, copying characters gives the one interned string that
  spells them: the string that was interned before, if the machine could still reach one, and a
  new one otherwise; nothing else that is reachable changes and the heap stays well-formed.
\<close>

theorem copyString_gives_the_interned_string:
  assumes "heap_ok (vm_gc vm)" and "set (vm_roots vm) \<subseteq> dom (vm_store vm)"
    and "vm_stackTop vm < STACK_MAX"
  shows "\<exists>r vm'. copyString chars vm = Some (r, vm') \<and> key_chars (vm_store vm') r = chars \<and>
    interned vm' r \<and>
    (\<forall>r' \<in> live_objects vm. interned vm r' \<and> key_chars (vm_store vm) r' = chars \<longrightarrow> r' = r) \<and>
    (\<forall>r' \<in> live_objects vm. vm_store vm' r' = vm_store vm r') \<and>
    stack_list vm' = stack_list vm \<and> heap_ok (vm_gc vm') \<and> set (vm_roots vm') \<subseteq> dom (vm_store vm')"
proof -
  have good: "vm_good vm" using assms(1,2) by (simp add: vm_good_def roots_ok_def)
  obtain r vm' where r: "copyString chars vm = Some (r, vm')" "keeps {} vm vm'" "vm_stackTop vm' = vm_stackTop vm"
    "interned vm' r" "key_chars (vm_store vm') r = chars"
    using copyString_keeps [OF good assms(3)] by blast
  have same: "vm_store vm' x = vm_store vm x" if "x \<in> live_objects vm" for x
    using keeps_store [OF r(2) that] by simp
  have "x = r" if "x \<in> live_objects vm" "interned vm x" "key_chars (vm_store vm) x = chars" for x
    by (rule interned_unique [OF keeps_good [OF r(2)] keeps_interned [OF r(2) that(1,2)] r(4)])
      (use that(3) same [OF that(1)] r(5) in \<open>simp add: key_chars_def\<close>)
  moreover have "stack_list vm' = stack_list vm" using keeps_list [OF r(2)] r(3) by (metis length_stack_list take_all order_refl)
  ultimately show ?thesis
    using r same keeps_good [OF r(2)] unfolding vm_good_def roots_ok_def by blast
qed

theorem copyString_gives_the_interned_string_witness:
  "\<exists>r vm'. copyString [107] sample_vm = Some (r, vm') \<and> interned vm' r \<and> stack_list vm' = [VAL_OBJ 3]"
proof -
  have "heap_ok (vm_gc sample_vm)" using sample_heap_ok by (simp add: sample_vm_def)
  moreover have "set (vm_roots sample_vm) \<subseteq> dom (vm_store sample_vm)"
    unfolding sample_roots by (simp add: sample_vm_def sample_gc_def)
  moreover have "vm_stackTop sample_vm < STACK_MAX" by (simp add: sample_vm_def STACK_MAX_def FRAMES_MAX_def)
  ultimately obtain r vm' where "copyString [107] sample_vm = Some (r, vm')" "interned vm' r"
    "stack_list vm' = stack_list sample_vm"
    using copyString_gives_the_interned_string [of sample_vm "[107]"] by blast
  then show ?thesis by (auto simp: sample_vm_def stack_list_def)
qed

end
