(* ===== verification/Loader.thy ===== *)
theory Loader
  imports Heap_Alloc Unit_Bytes
begin

text \<open>
  Loading a compiled unit into the machine, \<^verbatim>\<open>src/loader.c\<close>: every compiled function becomes a
  function object, and every constant a value.  The functions are kept on the stack meanwhile,
  as any allocation may collect.  \<open>None\<close> is a read outside the unit or a stack overflow, which
  the source does not check.
\<close>

definition set_function :: "obj_ref \<Rightarrow> (ObjFunction \<Rightarrow> ObjFunction) \<Rightarrow> VM \<Rightarrow> VM option" where
  "set_function r change vm =
     do { f \<leftarrow> as_function (vm_store vm) r; Some (put_obj r (OFunction (change f)) vm) }"

text \<open>\<open>arena + offset\<close>, with \<open>length\<close> characters.\<close>

definition arena_slice :: "CompiledUnit \<Rightarrow> int \<Rightarrow> int \<Rightarrow> bytes option" where
  "arena_slice unit offset len =
     (if rangeInside offset len (length (ss_arena (cu_strings unit)))
      then Some (take (nat len) (drop (nat offset) (ss_arena (cu_strings unit))))
      else None)"

definition writeByteCodeOpToChunk :: "CompiledFn \<Rightarrow> obj_ref \<Rightarrow> nat \<Rightarrow> VM \<Rightarrow> VM option" where
  "writeByteCodeOpToChunk compiledFn fn byteCodeIndex vm =
     (if byteCodeIndex < length (cf_code compiledFn) \<and> byteCodeIndex < length (cf_codeLines compiledFn)
      then writeChunk fn (cf_code compiledFn ! byteCodeIndex) (cf_codeLines compiledFn ! byteCodeIndex) vm
      else None)"

fun write_code_loop :: "CompiledFn \<Rightarrow> obj_ref \<Rightarrow> nat list \<Rightarrow> VM \<Rightarrow> VM option" where
  "write_code_loop compiledFn fn [] vm = Some vm"
| "write_code_loop compiledFn fn (j # js) vm =
     do { vm \<leftarrow> writeByteCodeOpToChunk compiledFn fn j vm; write_code_loop compiledFn fn js vm }"

text \<open>One round of the loop of \<open>allocateFunctions\<close>; the decoder refuses a negative count.\<close>

definition allocate_function :: "CompiledUnit \<Rightarrow> CompiledFn \<Rightarrow> VM \<Rightarrow> (obj_ref \<times> VM) option" where
  "allocate_function unit compiledFn vm =
     do {
       (fn, vm) \<leftarrow> newFunction vm;
       vm \<leftarrow> pushOnStack (VAL_OBJ fn) vm;
       vm \<leftarrow> set_function fn (\<lambda>f. f\<lparr>fn_arity := cf_arity compiledFn,
         fn_upvalueCount := nat (cf_upvalueCount compiledFn),
         fn_isStatic := cf_isStatic compiledFn, fn_isPublic := cf_isPublic compiledFn\<rparr>) vm;
       vm \<leftarrow> (if 0 \<le> cf_nameLength compiledFn
              then do {
                chars \<leftarrow> arena_slice unit (cf_nameOffset compiledFn) (cf_nameLength compiledFn);
                (name, vm) \<leftarrow> copyString chars vm;
                set_function fn (\<lambda>f. f\<lparr>fn_name := Some name\<rparr>) vm
              }
              else set_function fn (\<lambda>f. f\<lparr>fn_name := None\<rparr>) vm);
       vm \<leftarrow> write_code_loop compiledFn fn [0..<length (cf_code compiledFn)] vm;
       Some (fn, vm)
     }"

fun allocateFunctions :: "CompiledUnit \<Rightarrow> CompiledFn list \<Rightarrow> VM \<Rightarrow> (obj_ref list \<times> VM) option" where
  "allocateFunctions unit [] vm = Some ([], vm)"
| "allocateFunctions unit (compiledFn # fns) vm =
     do {
       (fn, vm) \<leftarrow> allocate_function unit compiledFn vm;
       (byIndex, vm) \<leftarrow> allocateFunctions unit fns vm;
       Some (fn # byIndex, vm)
     }"

fun resolveConstToValue ::
    "CompiledUnit \<Rightarrow> CompiledConst \<Rightarrow> obj_ref list \<Rightarrow> VM \<Rightarrow> (Value \<times> VM) option" where
  "resolveConstToValue unit (CONST_NUMBER kind payload) byIndex vm = Some (numberValue kind payload, vm)"
| "resolveConstToValue unit (CONST_BOOL b) byIndex vm = Some (VAL_BOOL b, vm)"
| "resolveConstToValue unit CONST_NIL byIndex vm = Some (VAL_NIL, vm)"
| "resolveConstToValue unit (CONST_STRING offset len) byIndex vm =
     do {
       chars \<leftarrow> arena_slice unit offset len;
       (string, vm) \<leftarrow> copyString chars vm;
       Some (VAL_OBJ string, vm)
     }"
| "resolveConstToValue unit (CONST_FUNCTION i) byIndex vm =
     (if 0 \<le> i \<and> nat i < length byIndex then Some (VAL_OBJ (byIndex ! nat i), vm) else None)"

fun resolve_consts :: "CompiledUnit \<Rightarrow> obj_ref list \<Rightarrow> obj_ref \<Rightarrow> CompiledConst list \<Rightarrow> VM \<Rightarrow> VM option" where
  "resolve_consts unit byIndex fn [] vm = Some vm"
| "resolve_consts unit byIndex fn (c # cs) vm =
     do {
       (resolvedValue, vm) \<leftarrow> resolveConstToValue unit c byIndex vm;
       vm \<leftarrow> pushOnStack resolvedValue vm;
       vm \<leftarrow> writeValueArray fn resolvedValue vm;
       (_, vm) \<leftarrow> popFromStack vm;
       resolve_consts unit byIndex fn cs vm
     }"

fun resolveConstsInFunctionsToValues ::
    "CompiledUnit \<Rightarrow> obj_ref list \<Rightarrow> (CompiledFn \<times> obj_ref) list \<Rightarrow> VM \<Rightarrow> VM option" where
  "resolveConstsInFunctionsToValues unit byIndex [] vm = Some vm"
| "resolveConstsInFunctionsToValues unit byIndex ((cfn, fn) # rest) vm =
     do {
       vm \<leftarrow> resolve_consts unit byIndex fn (cf_constants cfn) vm;
       resolveConstsInFunctionsToValues unit byIndex rest vm
     }"

fun cleanupFromAllocatingFunctions :: "nat \<Rightarrow> VM \<Rightarrow> VM option" where
  "cleanupFromAllocatingFunctions 0 vm = Some vm"
| "cleanupFromAllocatingFunctions (Suc n) vm =
     do { (_, vm) \<leftarrow> popFromStack vm; cleanupFromAllocatingFunctions n vm }"

definition loadUnit :: "CompiledUnit \<Rightarrow> VM \<Rightarrow> (obj_ref \<times> VM) option" where
  "loadUnit unit vm =
     do {
       (byIndex, vm) \<leftarrow> allocateFunctions unit (cu_functions unit) vm;
       vm \<leftarrow> resolveConstsInFunctionsToValues unit byIndex (zip (cu_functions unit) byIndex) vm;
       vm \<leftarrow> cleanupFromAllocatingFunctions (length (cu_functions unit)) vm;
       (case byIndex of [] \<Rightarrow> None | script # _ \<Rightarrow> Some (script, vm))
     }"

section \<open>What a loaded function is\<close>

definition const_loaded :: "CompiledUnit \<Rightarrow> obj_ref list \<Rightarrow> VM \<Rightarrow> CompiledConst \<Rightarrow> Value \<Rightarrow> bool" where
  "const_loaded unit byIndex vm c v \<longleftrightarrow>
     (case c of
        CONST_NUMBER kind payload \<Rightarrow> v = VAL_NUMBER kind payload
      | CONST_BOOL b \<Rightarrow> v = VAL_BOOL b
      | CONST_NIL \<Rightarrow> v = VAL_NIL
      | CONST_STRING offset len \<Rightarrow>
          (\<exists>r. v = VAL_OBJ r \<and> interned vm r \<and>
             arena_slice unit offset len = Some (key_chars (vm_store vm) r))
      | CONST_FUNCTION i \<Rightarrow> v = VAL_OBJ (byIndex ! nat i))"

definition name_loaded :: "CompiledUnit \<Rightarrow> VM \<Rightarrow> CompiledFn \<Rightarrow> obj_ref option \<Rightarrow> bool" where
  "name_loaded unit vm cfn name \<longleftrightarrow>
     (case name of
        None \<Rightarrow> cf_nameLength cfn < 0
      | Some r \<Rightarrow> 0 \<le> cf_nameLength cfn \<and> interned vm r \<and>
          arena_slice unit (cf_nameOffset cfn) (cf_nameLength cfn) = Some (key_chars (vm_store vm) r))"

definition header_loaded :: "CompiledFn \<Rightarrow> ObjFunction \<Rightarrow> bool" where
  "header_loaded cfn f \<longleftrightarrow>
     fn_arity f = cf_arity cfn \<and> int (fn_upvalueCount f) = cf_upvalueCount cfn \<and>
     fn_isStatic f = cf_isStatic cfn \<and> fn_isPublic f = cf_isPublic cfn"

definition function_loaded ::
    "CompiledUnit \<Rightarrow> obj_ref list \<Rightarrow> VM \<Rightarrow> CompiledFn \<Rightarrow> CompiledConst list \<Rightarrow> obj_ref \<Rightarrow> bool" where
  "function_loaded unit byIndex vm cfn cs r \<longleftrightarrow>
     (\<exists>f. vm_store vm r = Some (OFunction f) \<and> header_loaded cfn f \<and> name_loaded unit vm cfn (fn_name f) \<and>
        ch_code (fn_chunk f) = cf_code cfn \<and> ch_lines (fn_chunk f) = cf_codeLines cfn \<and>
        list_all2 (const_loaded unit byIndex vm) cs (va_values (ch_constants (fn_chunk f))))"

text \<open>Only the heap matters.\<close>

lemma loaded_gc:
  assumes "vm_gc vm' = vm_gc vm"
  shows "const_loaded unit byIndex vm' = const_loaded unit byIndex vm"
    "name_loaded unit vm' = name_loaded unit vm"
    "function_loaded unit byIndex vm' = function_loaded unit byIndex vm"
proof -
  show c: "const_loaded unit byIndex vm' = const_loaded unit byIndex vm"
    using assms by (auto simp: fun_eq_iff const_loaded_def split: CompiledConst.split)
  show n: "name_loaded unit vm' = name_loaded unit vm"
    using assms by (auto simp: fun_eq_iff name_loaded_def split: option.split)
  show "function_loaded unit byIndex vm' = function_loaded unit byIndex vm"
    by (intro ext) (simp only: function_loaded_def c n assms)
qed

text \<open>Loaded functions that stay reachable and are not written stay loaded.\<close>

lemma interned_keeps:
  assumes good: "vm_good vm" and k: "keeps W vm vm'"
    and W: "\<And>w. w \<in> W \<Longrightarrow> as_string (vm_store vm) w = None"
    and r: "r \<in> live_objects vm" "interned vm r"
  shows "interned vm' r" "key_chars (vm_store vm') r = key_chars (vm_store vm) r"
proof -
  show "interned vm' r" by (rule keeps_interned [OF k r])
  have "r \<notin> W" using W [of r] interned_string [OF good r(2)] by auto
  then show "key_chars (vm_store vm') r = key_chars (vm_store vm) r"
    using keeps_store [OF k r(1)] by (simp add: key_chars_def)
qed

lemma const_loaded_keeps:
  assumes good: "vm_good vm" and k: "keeps W vm vm'"
    and W: "\<And>w. w \<in> W \<Longrightarrow> as_string (vm_store vm) w = None"
    and live: "\<And>x. v = VAL_OBJ x \<Longrightarrow> x \<in> live_objects vm"
    and c: "const_loaded unit byIndex vm c v"
  shows "const_loaded unit byIndex vm' c v"
proof (cases c)
  case (CONST_STRING off len)
  then obtain x where x: "v = VAL_OBJ x" "interned vm x" "arena_slice unit off len = Some (key_chars (vm_store vm) x)"
    using c by (auto simp: const_loaded_def)
  then show ?thesis
    using CONST_STRING interned_keeps [OF good k W live [OF x(1)] x(2)] by (simp add: const_loaded_def)
qed (use c in \<open>simp_all add: const_loaded_def\<close>)

lemma function_loaded_keeps:
  assumes good: "vm_good vm" and k: "keeps W vm vm'"
    and W: "\<And>w. w \<in> W \<Longrightarrow> as_string (vm_store vm) w = None"
    and r: "r \<in> live_objects vm" "r \<notin> W" and fl: "function_loaded unit byIndex vm cfn cs r"
  shows "function_loaded unit byIndex vm' cfn cs r"
proof -
  obtain f where f: "vm_store vm r = Some (OFunction f)" "header_loaded cfn f"
    "name_loaded unit vm cfn (fn_name f)" "ch_code (fn_chunk f) = cf_code cfn"
    "ch_lines (fn_chunk f) = cf_codeLines cfn"
    "list_all2 (const_loaded unit byIndex vm) cs (va_values (ch_constants (fn_chunk f)))"
    using fl unfolding function_loaded_def by blast
  have sub: "x \<in> live_objects vm" if "x \<in> set (obj_refs (OFunction f))" for x
    using live_objects_closed [OF r(1) f(1) that] .
  have "name_loaded unit vm' cfn (fn_name f)"
  proof (cases "fn_name f")
    case (Some n)
    then have n: "interned vm n" using f(3) by (simp add: name_loaded_def)
    have "n \<in> live_objects vm" using sub Some by simp
    from interned_keeps [OF good k W this n] show ?thesis using f(3) Some by (simp add: name_loaded_def)
  qed (use f(3) in \<open>simp add: name_loaded_def\<close>)
  moreover have "list_all2 (const_loaded unit byIndex vm') cs (va_values (ch_constants (fn_chunk f)))"
    using f(6)
  proof (rule list.rel_mono_strong)
    fix c v assume v: "v \<in> set (va_values (ch_constants (fn_chunk f)))" and c: "const_loaded unit byIndex vm c v"
    have "x \<in> live_objects vm" if "v = VAL_OBJ x" for x
      using sub v that by (simp add: set_value_refs)
    from const_loaded_keeps [OF good k W this c] show "const_loaded unit byIndex vm' c v" .
  qed
  moreover have "vm_store vm' r = Some (OFunction f)" using keeps_store [OF k r] f(1) by simp
  ultimately show ?thesis using f unfolding function_loaded_def by blast
qed

section \<open>Writing functions\<close>

lemma function_keeps:
  assumes good: "vm_good vm" and f: "vm_store vm r = Some (OFunction f)"
    and shape: "fn_upvalueCount f' = fn_upvalueCount f"
      "length (ch_lines (fn_chunk f')) = length (ch_code (fn_chunk f'))"
    and refs: "set (obj_refs (OFunction f)) \<subseteq> set (obj_refs (OFunction f'))"
      "set (obj_refs (OFunction f')) \<subseteq> dom (vm_store vm)"
    and name: "\<And>n. fn_name f' = Some n \<Longrightarrow> as_string (vm_store vm) n \<noteq> None"
  shows "keeps {r} vm (put_obj r (OFunction f') vm)"
proof (rule put_obj_keeps [OF good f])
  show "obj_ok (vm_store vm) r (OFunction f')" using shape(2) refs(2) name by (simp add: obj_ok_def)
  show "obj_shape (OFunction f') = obj_shape (OFunction f)" using shape(1) by (simp add: obj_shape_def)
  show "set (obj_refs (OFunction f)) \<subseteq> set (obj_refs (OFunction f'))" by (rule refs(1))
qed simp

lemma function_ok:
  assumes "vm_good vm" "vm_store vm r = Some (OFunction f)"
  shows "length (ch_lines (fn_chunk f)) = length (ch_code (fn_chunk f))"
    "set (obj_refs (OFunction f)) \<subseteq> dom (vm_store vm)"
    "\<And>n. fn_name f = Some n \<Longrightarrow> as_string (vm_store vm) n \<noteq> None"
proof -
  have "obj_ok (vm_store vm) r (OFunction f)" using assms by (simp add: vm_good_def heap_ok_def store_ok_def)
  then show "length (ch_lines (fn_chunk f)) = length (ch_code (fn_chunk f))"
    "set (obj_refs (OFunction f)) \<subseteq> dom (vm_store vm)"
    "\<And>n. fn_name f = Some n \<Longrightarrow> as_string (vm_store vm) n \<noteq> None"
    by (simp_all add: obj_ok_def)
qed

lemma as_function_Some: "vm_store vm r = Some (OFunction f) \<Longrightarrow> as_function (vm_store vm) r = Some f"
  by (simp add: as_function_def)

lemma writeChunk_keeps:
  assumes good: "vm_good vm" and r: "r \<in> live_objects vm" and f: "vm_store vm r = Some (OFunction f)"
  shows "\<exists>vm' c. writeChunk r byte line vm = Some vm' \<and> keeps {r} vm vm' \<and> vm_stackTop vm' = vm_stackTop vm \<and>
    vm_store vm' r = Some (OFunction (f\<lparr>fn_chunk := (fn_chunk f)\<lparr>ch_capacity := c,
      ch_code := ch_code (fn_chunk f) @ [byte], ch_lines := ch_lines (fn_chunk f) @ [line]\<rparr>\<rparr>))"
proof -
  let ?old = "ch_capacity (fn_chunk f)" and ?cap = "GROW_CAPACITY (ch_capacity (fn_chunk f))"
  let ?f = "\<lambda>c. f\<lparr>fn_chunk := (fn_chunk f)\<lparr>ch_capacity := c\<rparr>\<rparr>"
  note fok = function_ok [OF good f]
  obtain vm1 c where vm1: "(if ?old < length (ch_code (fn_chunk f)) + 1
      then do {
        vm \<leftarrow> reallocate ?old ?cap (put_obj r (OFunction (?f ?cap)) vm);
        reallocate (sizeof_int * ?old) (sizeof_int * ?cap) vm
      } else Some vm) = Some vm1" "keeps {r} vm vm1" "vm_stackTop vm1 = vm_stackTop vm"
    "vm_store vm1 r = Some (OFunction (?f c))"
  proof (cases "?old < length (ch_code (fn_chunk f)) + 1")
    case True
    let ?vm = "put_obj r (OFunction (?f ?cap)) vm"
    have k: "keeps {r} vm ?vm" by (rule function_keeps [OF good f]) (use fok in auto)
    have r1: "r \<in> live_objects ?vm" using keeps_live [OF k] r by blast
    obtain vm2 where vm2: "reallocate ?old ?cap ?vm = Some vm2" "keeps {} ?vm vm2"
      "vm_stackTop vm2 = vm_stackTop ?vm"
      using reallocate_keeps [OF keeps_good [OF k]] by blast
    have r2: "r \<in> live_objects vm2" using keeps_live [OF vm2(2)] r1 by blast
    obtain vm3 where vm3: "reallocate (sizeof_int * ?old) (sizeof_int * ?cap) vm2 = Some vm3" "keeps {} vm2 vm3"
      "vm_stackTop vm3 = vm_stackTop vm2"
      using reallocate_keeps [OF keeps_good [OF vm2(2)]] by blast
    have "vm_store vm3 r = Some (OFunction (?f ?cap))"
      using keeps_store [OF vm2(2) r1] keeps_store [OF vm3(2) r2] by simp
    moreover have "keeps {r} vm vm3" using keeps_trans [OF k keeps_trans0 [OF vm2(2) vm3(2)]] by simp
    ultimately show thesis using True vm2(1,3) vm3(1,3) by (intro that [of vm3 ?cap]) simp_all
  next
    case False
    moreover have "keeps {r} vm vm" using keeps_weaken [OF keeps_refl [OF good]] by blast
    ultimately show thesis using f by (intro that [of vm ?old]) simp_all
  qed
  let ?g = "f\<lparr>fn_chunk := (fn_chunk f)\<lparr>ch_capacity := c,
      ch_code := ch_code (fn_chunk f) @ [byte], ch_lines := ch_lines (fn_chunk f) @ [line]\<rparr>\<rparr>"
  have "keeps {r} vm1 (put_obj r (OFunction ?g) vm1)"
    by (rule function_keeps [OF keeps_good [OF vm1(2)] vm1(4)])
      (use fok(1) function_ok(2,3) [OF keeps_good [OF vm1(2)] vm1(4)] in auto)
  then have "keeps {r} vm (put_obj r (OFunction ?g) vm1)" using keeps_trans [OF vm1(2)] by fastforce
  moreover have "writeChunk r byte line vm = Some (put_obj r (OFunction ?g) vm1)"
    unfolding writeChunk_def as_function_Some [OF f] bind.bind_lunit Let_def vm1(1) as_function_Some [OF vm1(4)]
    by simp
  ultimately show ?thesis using vm1(3) by auto
qed

lemma writeValueArray_keeps:
  assumes good: "vm_good vm" and r: "r \<in> live_objects vm" and f: "vm_store vm r = Some (OFunction f)"
    and v: "\<And>x. v = VAL_OBJ x \<Longrightarrow> x \<in> live_objects vm"
  shows "\<exists>vm' c. writeValueArray r v vm = Some vm' \<and> keeps {r} vm vm' \<and> vm_stackTop vm' = vm_stackTop vm \<and>
    vm_store vm' r = Some (OFunction (f\<lparr>fn_chunk := (fn_chunk f)\<lparr>ch_constants := (ch_constants (fn_chunk f))\<lparr>
      va_capacity := c, va_values := va_values (ch_constants (fn_chunk f)) @ [v]\<rparr>\<rparr>\<rparr>))"
proof -
  let ?a = "ch_constants (fn_chunk f)"
  let ?cap = "GROW_CAPACITY (va_capacity ?a)"
  let ?f = "\<lambda>c. f\<lparr>fn_chunk := (fn_chunk f)\<lparr>ch_constants := ?a\<lparr>va_capacity := c\<rparr>\<rparr>\<rparr>"
  note fok = function_ok [OF good f]
  obtain vm1 c where vm1: "(if va_capacity ?a < length (va_values ?a) + 1
      then reallocate (sizeof_Value * va_capacity ?a) (sizeof_Value * ?cap) (grow_constants r f ?cap vm)
      else Some vm) = Some vm1" "keeps {r} vm vm1" "vm_stackTop vm1 = vm_stackTop vm"
    "vm_store vm1 r = Some (OFunction (?f c))"
  proof (cases "va_capacity ?a < length (va_values ?a) + 1")
    case True
    let ?vm = "grow_constants r f ?cap vm"
    have k: "keeps {r} vm ?vm"
      unfolding grow_constants_def by (rule function_keeps [OF good f]) (use fok in auto)
    have r1: "r \<in> live_objects ?vm" using keeps_live [OF k] r by blast
    obtain vm2 where vm2: "reallocate (sizeof_Value * va_capacity ?a) (sizeof_Value * ?cap) ?vm = Some vm2"
      "keeps {} ?vm vm2" "vm_stackTop vm2 = vm_stackTop ?vm"
      using reallocate_keeps [OF keeps_good [OF k]] by blast
    have "vm_store vm2 r = Some (OFunction (?f ?cap))"
      using keeps_store [OF vm2(2) r1] by (simp add: grow_constants_def)
    moreover have "keeps {r} vm vm2" using keeps_trans [OF k vm2(2)] by simp
    ultimately show thesis using True vm2(1,3)
      by (intro that [of vm2 ?cap]) (simp_all add: grow_constants_def)
  next
    case False
    moreover have "keeps {r} vm vm" using keeps_weaken [OF keeps_refl [OF good]] by blast
    ultimately show thesis using f by (intro that [of vm "va_capacity ?a"]) simp_all
  qed
  let ?g = "f\<lparr>fn_chunk := (fn_chunk f)\<lparr>ch_constants := ?a\<lparr>va_capacity := c, va_values := va_values ?a @ [v]\<rparr>\<rparr>\<rparr>"
  have good1: "vm_good vm1" using vm1(2) by (rule keeps_good)
  have "x \<in> dom (vm_store vm1)" if "v = VAL_OBJ x" for x
    using v [OF that] keeps_live [OF vm1(2)] vm_good_live [OF good1] by blast
  then have "set (obj_refs (OFunction ?g)) \<subseteq> dom (vm_store vm1)"
    using function_ok(2) [OF good1 vm1(4)] by (auto simp: value_ref_def split: Value.splits)
  then have "keeps {r} vm1 (put_obj r (OFunction ?g) vm1)"
    by (intro function_keeps [OF good1 vm1(4)])
      (use fok(1) function_ok(3) [OF good1 vm1(4)] in auto)
  then have "keeps {r} vm (put_obj r (OFunction ?g) vm1)" using keeps_trans [OF vm1(2)] by fastforce
  moreover have "writeValueArray r v vm = Some (put_obj r (OFunction ?g) vm1)"
    unfolding writeValueArray_def as_function_Some [OF f] bind.bind_lunit Let_def vm1(1) as_function_Some [OF vm1(4)]
    by simp
  ultimately show ?thesis using vm1(3) by auto
qed

section \<open>Loading one function\<close>

lemma write_code_loop_keeps:
  assumes "vm_good vm" "r \<in> live_objects vm" "vm_store vm r = Some (OFunction f)"
    "length (cf_codeLines cfn) = length (cf_code cfn)" "j \<le> length (cf_code cfn)"
    "ch_code (fn_chunk f) = take j (cf_code cfn)" "ch_lines (fn_chunk f) = take j (cf_codeLines cfn)"
  shows "\<exists>vm' f'. write_code_loop cfn r [j..<length (cf_code cfn)] vm = Some vm' \<and> keeps {r} vm vm' \<and>
    vm_stackTop vm' = vm_stackTop vm \<and> vm_store vm' r = Some (OFunction f') \<and>
    f' = f\<lparr>fn_chunk := fn_chunk f'\<rparr> \<and> ch_code (fn_chunk f') = cf_code cfn \<and>
    ch_lines (fn_chunk f') = cf_codeLines cfn \<and> ch_constants (fn_chunk f') = ch_constants (fn_chunk f)"
  using assms
proof (induction "length (cf_code cfn) - j" arbitrary: j vm f)
  case 0
  moreover have "keeps {r} vm vm" using keeps_weaken [OF keeps_refl [OF 0(2)]] by blast
  ultimately show ?case by auto
next
  case (Suc n)
  then have j: "j < length (cf_code cfn)" by simp
  obtain vm1 c where vm1: "writeChunk r (cf_code cfn ! j) (cf_codeLines cfn ! j) vm = Some vm1" "keeps {r} vm vm1"
    "vm_stackTop vm1 = vm_stackTop vm" "vm_store vm1 r = Some (OFunction (f\<lparr>fn_chunk := (fn_chunk f)\<lparr>
      ch_capacity := c, ch_code := ch_code (fn_chunk f) @ [cf_code cfn ! j],
      ch_lines := ch_lines (fn_chunk f) @ [cf_codeLines cfn ! j]\<rparr>\<rparr>))" (is "_ = Some (OFunction ?f1)")
    using writeChunk_keeps [OF Suc.prems(1-3)] by blast
  have r1: "r \<in> live_objects vm1" using keeps_live [OF vm1(2)] Suc.prems(2) by blast
  have "n = length (cf_code cfn) - (j + 1)" using Suc.hyps(2) by simp
  from Suc.hyps(1) [OF this keeps_good [OF vm1(2)] r1 vm1(4) Suc.prems(4)] j Suc.prems(4,6,7)
  obtain vm2 f2 where vm2: "write_code_loop cfn r [j + 1..<length (cf_code cfn)] vm1 = Some vm2"
    "keeps {r} vm1 vm2" "vm_stackTop vm2 = vm_stackTop vm1" "vm_store vm2 r = Some (OFunction f2)"
    "f2 = ?f1\<lparr>fn_chunk := fn_chunk f2\<rparr>" "ch_code (fn_chunk f2) = cf_code cfn"
    "ch_lines (fn_chunk f2) = cf_codeLines cfn" "ch_constants (fn_chunk f2) = ch_constants (fn_chunk f)"
    by (auto simp: take_Suc_conv_app_nth)
  have "write_code_loop cfn r [j..<length (cf_code cfn)] vm = Some vm2"
    using j vm1(1) vm2(1) Suc.prems(4) by (simp add: upt_conv_Cons writeByteCodeOpToChunk_def)
  moreover have "keeps {r} vm vm2" using keeps_trans [OF vm1(2) vm2(2)] by simp
  moreover have "f2 = f\<lparr>fn_chunk := fn_chunk f2\<rparr>" by (subst vm2(5)) simp
  ultimately show ?case using vm1(3) vm2(3,4,6-8) by auto
qed

lemma allocateObject_put:
  assumes "allocateObject obj vm = Some (r, vm')" "obj_type obj' = obj_type obj"
  shows "allocateObject obj' vm = Some (r, put_obj r obj' vm')"
  using assms by (auto simp: allocateObject_def bind_eq_Some_conv Let_def put_obj_def)

text \<open>The new function, with its header written after it is on the stack.\<close>

lemma new_function_keeps:
  assumes good: "vm_good vm" and top: "vm_stackTop vm < STACK_MAX"
  shows "\<exists>vm1 vm2 vm3 f r. newFunction vm = Some (r, vm1) \<and> pushOnStack (VAL_OBJ r) vm1 = Some vm2 \<and>
    set_function r (\<lambda>f. f\<lparr>fn_arity := cf_arity cfn, fn_upvalueCount := nat (cf_upvalueCount cfn),
      fn_isStatic := cf_isStatic cfn, fn_isPublic := cf_isPublic cfn\<rparr>) vm2 = Some vm3 \<and>
    keeps {} vm vm3 \<and> vm_stackTop vm3 = vm_stackTop vm + 1 \<and> vm_stack vm3 (vm_stackTop vm) = VAL_OBJ r \<and>
    r = gc_fresh (vm_gc vm) \<and> vm_store vm3 r = Some (OFunction f) \<and>
    f = \<lparr>fn_arity = cf_arity cfn, fn_upvalueCount = nat (cf_upvalueCount cfn), fn_chunk = initChunk,
      fn_name = None, fn_isStatic = cf_isStatic cfn, fn_isPublic = cf_isPublic cfn\<rparr>"
proof -
  let ?init = "\<lparr>fn_arity = 0, fn_upvalueCount = 0, fn_chunk = initChunk,
       fn_name = None, fn_isStatic = False, fn_isPublic = False\<rparr>"
  let ?f = "\<lparr>fn_arity = cf_arity cfn, fn_upvalueCount = nat (cf_upvalueCount cfn), fn_chunk = initChunk,
      fn_name = None, fn_isStatic = cf_isStatic cfn, fn_isPublic = cf_isPublic cfn\<rparr>"
  let ?r = "gc_fresh (vm_gc vm)"
  have refs: "obj_refs (OFunction ?f) = []" "obj_refs (OFunction ?init) = []"
    by (simp_all add: initChunk_def initValueArray_def)
  have ok: "obj_ok (vm_store vm) ?r (OFunction ?f)" "obj_ok (vm_store vm) ?r (OFunction ?init)"
    by (simp_all add: obj_ok_def initChunk_def initValueArray_def)
  obtain vm1 where vm1: "allocateObject (OFunction ?init) vm = Some (?r, vm1)" "keeps {} vm vm1"
    "vm_stackTop vm1 = vm_stackTop vm" "vm_store vm1 ?r = Some (OFunction ?init)"
    using allocateObject_keeps [OF good _ ok(2)] refs(2) by auto
  let ?vm1 = "put_obj ?r (OFunction ?f) vm1"
  have "allocateObject (OFunction ?f) vm = Some (?r, ?vm1)" by (rule allocateObject_put [OF vm1(1)]) simp
  then have k1: "keeps {} vm ?vm1" using allocateObject_keeps [OF good _ ok(1)] refs(1) by auto
  obtain vm3 where vm3: "pushOnStack (VAL_OBJ ?r) ?vm1 = Some vm3" "keeps {} ?vm1 vm3" "vm_gc vm3 = vm_gc ?vm1"
    "vm_stackTop vm3 = vm_stackTop ?vm1 + 1" "vm_stack vm3 (vm_stackTop ?vm1) = VAL_OBJ ?r"
    using push_keeps [OF keeps_good [OF k1], of "VAL_OBJ ?r"] top vm1(3) by auto
  obtain vm2 where vm2: "pushOnStack (VAL_OBJ ?r) vm1 = Some vm2" "vm_store vm2 ?r = Some (OFunction ?init)"
    "vm3 = put_obj ?r (OFunction ?f) vm2"
    using top vm1(3,4) vm3(1) by (auto simp: pushOnStack_def put_obj_def)
  have "keeps {} vm vm3" by (rule keeps_trans0 [OF k1 vm3(2)])
  moreover have "set_function ?r (\<lambda>f. f\<lparr>fn_arity := cf_arity cfn, fn_upvalueCount := nat (cf_upvalueCount cfn),
      fn_isStatic := cf_isStatic cfn, fn_isPublic := cf_isPublic cfn\<rparr>) vm2 = Some vm3"
    using vm2(2,3) by (simp add: set_function_def as_function_def)
  moreover have "newFunction vm = Some (?r, vm1)" using vm1(1) by (simp add: newFunction_def)
  moreover have "vm_stackTop vm3 = vm_stackTop vm + 1" "vm_stack vm3 (vm_stackTop vm) = VAL_OBJ ?r"
    "vm_store vm3 ?r = Some (OFunction ?f)"
    using vm1(3) vm3(3-5) by simp_all
  ultimately show ?thesis using vm2(1) by blast
qed

lemma name_keeps:
  assumes good: "vm_good vm" and r: "r \<in> live_objects vm" and f: "vm_store vm r = Some (OFunction f)"
    and new: "fn_name f = None" and top: "vm_stackTop vm < STACK_MAX"
    and inside: "cf_nameLength cfn \<ge> 0 \<Longrightarrow>
      rangeInside (cf_nameOffset cfn) (cf_nameLength cfn) (length (ss_arena (cu_strings unit)))"
  shows "\<exists>vm' name. (if 0 \<le> cf_nameLength cfn
      then do {
        chars \<leftarrow> arena_slice unit (cf_nameOffset cfn) (cf_nameLength cfn);
        (name, vm) \<leftarrow> copyString chars vm;
        set_function r (\<lambda>f. f\<lparr>fn_name := Some name\<rparr>) vm
      }
      else set_function r (\<lambda>f. f\<lparr>fn_name := None\<rparr>) vm) = Some vm' \<and>
    keeps {r} vm vm' \<and> vm_stackTop vm' = vm_stackTop vm \<and>
    vm_store vm' r = Some (OFunction (f\<lparr>fn_name := name\<rparr>)) \<and> name_loaded unit vm' cfn name"
proof (cases "0 \<le> cf_nameLength cfn")
  case True
  then obtain chars where chars: "arena_slice unit (cf_nameOffset cfn) (cf_nameLength cfn) = Some chars"
    using inside by (simp add: arena_slice_def)
  obtain n vm1 where vm1: "copyString chars vm = Some (n, vm1)" "keeps {} vm vm1"
    "vm_stackTop vm1 = vm_stackTop vm" "interned vm1 n" "key_chars (vm_store vm1) n = chars"
    using copyString_keeps [OF good top] by blast
  have good1: "vm_good vm1" using vm1(2) by (rule keeps_good)
  have f1: "vm_store vm1 r = Some (OFunction f)" using keeps_store [OF vm1(2) r] f by simp
  have str: "as_string (vm_store vm1) n \<noteq> None" by (rule interned_string [OF good1 vm1(4)])
  have "keeps {r} vm1 (put_obj r (OFunction (f\<lparr>fn_name := Some n\<rparr>)) vm1)"
    by (rule function_keeps [OF good1 f1])
      (use function_ok [OF good1 f1] as_string_dom [OF str] str new in auto)
  then have k: "keeps {r} vm (put_obj r (OFunction (f\<lparr>fn_name := Some n\<rparr>)) vm1)"
    by (rule keeps_trans0 [OF vm1(2)])
  have "n \<noteq> r" using str f1 by (auto simp: as_string_def)
  then have "name_loaded unit (put_obj r (OFunction (f\<lparr>fn_name := Some n\<rparr>)) vm1) cfn (Some n)"
    using True chars vm1(4,5) by (simp add: name_loaded_def key_chars_def)
  with k True chars vm1(1,3) f1 show ?thesis
    by (intro exI [of _ "put_obj r (OFunction (f\<lparr>fn_name := Some n\<rparr>)) vm1"] exI [of _ "Some n"])
      (simp add: set_function_def as_function_def)
next
  case False
  have "keeps {r} vm (put_obj r (OFunction (f\<lparr>fn_name := None\<rparr>)) vm)"
    by (rule function_keeps [OF good f]) (use function_ok [OF good f] new in auto)
  with False f show ?thesis
    by (intro exI [of _ "put_obj r (OFunction (f\<lparr>fn_name := None\<rparr>)) vm"] exI [of _ None])
      (simp add: set_function_def as_function_def name_loaded_def)
qed

lemma name_loaded_keeps:
  assumes good: "vm_good vm" and k: "keeps W vm vm'"
    and W: "\<And>w. w \<in> W \<Longrightarrow> as_string (vm_store vm) w = None"
    and live: "\<And>n. name = Some n \<Longrightarrow> n \<in> live_objects vm" and n: "name_loaded unit vm cfn name"
  shows "name_loaded unit vm' cfn name"
proof (cases name)
  case (Some x)
  then have "interned vm x" using n by (simp add: name_loaded_def)
  from interned_keeps [OF good k W live [OF Some] this] show ?thesis
    using n Some by (simp add: name_loaded_def)
qed (use n in \<open>simp add: name_loaded_def\<close>)

lemma allocate_function_keeps:
  assumes good: "vm_good vm" and top: "vm_stackTop vm + 1 < STACK_MAX"
    and ok: "fn_ok (length (ss_arena (cu_strings unit))) fc cfn"
  shows "\<exists>r vm'. allocate_function unit cfn vm = Some (r, vm') \<and> keeps {} vm vm' \<and>
    vm_stackTop vm' = vm_stackTop vm + 1 \<and> vm_stack vm' (vm_stackTop vm) = VAL_OBJ r \<and>
    gc_fresh (vm_gc vm) \<le> r \<and> r < gc_fresh (vm_gc vm') \<and> function_loaded unit [] vm' cfn [] r"
proof -
  let ?r = "gc_fresh (vm_gc vm)"
  have hd: "0 \<le> cf_upvalueCount cfn" "length (cf_codeLines cfn) = length (cf_code cfn)"
    "cf_nameLength cfn \<ge> 0 \<Longrightarrow>
      rangeInside (cf_nameOffset cfn) (cf_nameLength cfn) (length (ss_arena (cu_strings unit)))"
    using ok by (simp_all add: fn_ok_def header_ok_def code_ok_def)
  obtain vm1 vm2 vm3 f where new: "newFunction vm = Some (?r, vm1)" "pushOnStack (VAL_OBJ ?r) vm1 = Some vm2"
    "set_function ?r (\<lambda>f. f\<lparr>fn_arity := cf_arity cfn, fn_upvalueCount := nat (cf_upvalueCount cfn),
      fn_isStatic := cf_isStatic cfn, fn_isPublic := cf_isPublic cfn\<rparr>) vm2 = Some vm3"
    "keeps {} vm vm3" "vm_stackTop vm3 = vm_stackTop vm + 1" "vm_stack vm3 (vm_stackTop vm) = VAL_OBJ ?r"
    "vm_store vm3 ?r = Some (OFunction f)"
    "f = \<lparr>fn_arity = cf_arity cfn, fn_upvalueCount = nat (cf_upvalueCount cfn), fn_chunk = initChunk,
      fn_name = None, fn_isStatic = cf_isStatic cfn, fn_isPublic = cf_isPublic cfn\<rparr>"
    using new_function_keeps [OF good, of cfn] top by auto
  have live3: "?r \<in> live_objects vm3" using stack_live [of "vm_stackTop vm" vm3] new(5,6) by simp
  obtain vm4 name where vm4: "(if 0 \<le> cf_nameLength cfn
      then do {
        chars \<leftarrow> arena_slice unit (cf_nameOffset cfn) (cf_nameLength cfn);
        (name, vm) \<leftarrow> copyString chars vm3;
        set_function ?r (\<lambda>f. f\<lparr>fn_name := Some name\<rparr>) vm
      }
      else set_function ?r (\<lambda>f. f\<lparr>fn_name := None\<rparr>) vm3) = Some vm4"
    "keeps {?r} vm3 vm4" "vm_stackTop vm4 = vm_stackTop vm3"
    "vm_store vm4 ?r = Some (OFunction (f\<lparr>fn_name := name\<rparr>))" "name_loaded unit vm4 cfn name"
    using name_keeps [OF keeps_good [OF new(4)] live3 new(7), of cfn unit] new(5,8) top hd(3) by auto
  have good4: "vm_good vm4" using vm4(2) by (rule keeps_good)
  have live4: "?r \<in> live_objects vm4" using keeps_live [OF vm4(2)] live3 by blast
  obtain vm5 f5 where vm5: "write_code_loop cfn ?r [0..<length (cf_code cfn)] vm4 = Some vm5" "keeps {?r} vm4 vm5"
    "vm_stackTop vm5 = vm_stackTop vm4" "vm_store vm5 ?r = Some (OFunction f5)"
    "f5 = f\<lparr>fn_name := name, fn_chunk := fn_chunk f5\<rparr>" "ch_code (fn_chunk f5) = cf_code cfn"
    "ch_lines (fn_chunk f5) = cf_codeLines cfn" "ch_constants (fn_chunk f5) = ch_constants initChunk"
    using write_code_loop_keeps [OF good4 live4 vm4(4) hd(2), of 0] new(8) by (auto simp: initChunk_def)
  have "keeps {?r} vm3 vm5" using keeps_trans [OF vm4(2) vm5(2)] by simp
  from keeps_trans0 [OF new(4) this] have "keeps {?r} vm vm5" .
  moreover have "?r \<notin> live_objects vm" using vm_good_live [OF good] vm_good_fresh [OF good] by blast
  ultimately have k: "keeps {} vm vm5" by (intro keeps_weaken [of "{?r}" vm vm5 "{}"]) auto
  have run: "allocate_function unit cfn vm = Some (?r, vm5)"
    using vm4(1) by (simp add: allocate_function_def new(1-3) vm5(1))
  have "n \<in> live_objects vm4" if "name = Some n" for n
    using live_objects_closed [OF live4 vm4(4), of n] that by simp
  then have "name_loaded unit vm5 cfn name"
    by (intro name_loaded_keeps [OF good4 vm5(2) _ _ vm4(5)]) (use vm4(4) in \<open>auto simp: as_string_def\<close>)
  moreover have "fn_name f5 = name" "header_loaded cfn f5"
    by (subst vm5(5), simp add: new(8) header_loaded_def hd(1))+
  ultimately have "function_loaded unit [] vm5 cfn [] ?r"
    using vm5(4,6-8) by (simp add: function_loaded_def initChunk_def initValueArray_def)
  moreover have "?r < gc_fresh (vm_gc vm5)" using vm_good_fresh [OF keeps_good [OF k]] vm5(4) by blast
  moreover have "vm_stack vm5 (vm_stackTop vm) = VAL_OBJ ?r"
    using keeps_stack [OF keeps_trans [OF vm4(2) vm5(2)]] new(5,6) by simp
  ultimately show ?thesis using run k vm5(3) vm4(3) new(5) by auto
qed

lemma function_loaded_nil: "function_loaded unit byIndex vm cfn [] r = function_loaded unit byIndex' vm cfn [] r"
  by (simp add: function_loaded_def)

lemma allocateFunctions_keeps:
  assumes "vm_good vm" "vm_stackTop vm + length fns < STACK_MAX"
    "\<forall>cfn \<in> set fns. fn_ok (length (ss_arena (cu_strings unit))) fc cfn"
  shows "\<exists>byIndex vm'. allocateFunctions unit fns vm = Some (byIndex, vm') \<and> keeps {} vm vm' \<and>
    vm_stackTop vm' = vm_stackTop vm + length fns \<and> length byIndex = length fns \<and>
    (\<forall>i < length fns. vm_stack vm' (vm_stackTop vm + i) = VAL_OBJ (byIndex ! i)) \<and>
    (\<forall>r \<in> set byIndex. gc_fresh (vm_gc vm) \<le> r) \<and> distinct byIndex \<and>
    list_all2 (\<lambda>cfn r. function_loaded unit [] vm' cfn [] r) fns byIndex"
  using assms
proof (induction fns arbitrary: vm)
  case Nil
  then show ?case using keeps_refl by simp
next
  case (Cons cfn fns)
  obtain r vm1 where vm1: "allocate_function unit cfn vm = Some (r, vm1)" "keeps {} vm vm1"
    "vm_stackTop vm1 = vm_stackTop vm + 1" "vm_stack vm1 (vm_stackTop vm) = VAL_OBJ r"
    "gc_fresh (vm_gc vm) \<le> r" "r < gc_fresh (vm_gc vm1)" "function_loaded unit [] vm1 cfn [] r"
    using allocate_function_keeps [OF Cons.prems(1)] Cons.prems(2,3) by fastforce
  have good1: "vm_good vm1" using vm1(2) by (rule keeps_good)
  have live1: "r \<in> live_objects vm1" using stack_live [of "vm_stackTop vm" vm1] vm1(3,4) by simp
  obtain rs vm2 where vm2: "allocateFunctions unit fns vm1 = Some (rs, vm2)" "keeps {} vm1 vm2"
    "vm_stackTop vm2 = vm_stackTop vm1 + length fns" "length rs = length fns"
    "\<forall>i < length fns. vm_stack vm2 (vm_stackTop vm1 + i) = VAL_OBJ (rs ! i)"
    "\<forall>r \<in> set rs. gc_fresh (vm_gc vm1) \<le> r" "distinct rs"
    "list_all2 (\<lambda>cfn r. function_loaded unit [] vm2 cfn [] r) fns rs"
    using Cons.IH [OF good1] Cons.prems(2,3) vm1(3) by auto
  have "function_loaded unit [] vm2 cfn [] r"
    by (rule function_loaded_keeps [OF good1 vm2(2) _ live1 _ vm1(7)]) simp_all
  moreover have "vm_stack vm2 (vm_stackTop vm) = VAL_OBJ r"
    using keeps_stack [OF vm2(2)] vm1(3,4) by simp
  then have "vm_stack vm2 (vm_stackTop vm + i) = VAL_OBJ ((r # rs) ! i)" if "i < Suc (length fns)" for i
    using vm2(5) vm1(3) that by (cases i) simp_all
  moreover have "r \<notin> set rs" "\<forall>x \<in> set rs. gc_fresh (vm_gc vm) \<le> x"
    using vm2(6) vm1(5,6) keeps_fresh [OF vm1(2)] by fastforce+
  ultimately show ?case
    using vm1(1,3,5) vm2(1,3,4,7,8) keeps_trans0 [OF vm1(2) vm2(2)] by auto
qed

section \<open>Resolving constants\<close>

lemma function_not_string: "vm_store vm r = Some (OFunction f) \<Longrightarrow> as_string (vm_store vm) r = None"
  by (simp add: as_string_def)

lemma resolveConst_keeps:
  assumes good: "vm_good vm" and top: "vm_stackTop vm < STACK_MAX"
    and ok: "const_ok (length (ss_arena (cu_strings unit))) (length byIndex) c"
    and live: "set byIndex \<subseteq> live_objects vm"
  shows "\<exists>v vm'. resolveConstToValue unit c byIndex vm = Some (v, vm') \<and> keeps {} vm vm' \<and>
    vm_stackTop vm' = vm_stackTop vm \<and> const_loaded unit byIndex vm' c v \<and>
    (\<forall>x. v = VAL_OBJ x \<longrightarrow> x \<in> dom (vm_store vm'))"
proof (cases c)
  case (CONST_STRING off len)
  then obtain chars where chars: "arena_slice unit off len = Some chars"
    using ok by (simp add: const_ok_def arena_slice_def)
  obtain r vm1 where vm1: "copyString chars vm = Some (r, vm1)" "keeps {} vm vm1"
    "vm_stackTop vm1 = vm_stackTop vm" "interned vm1 r" "key_chars (vm_store vm1) r = chars"
    using copyString_keeps [OF good top] by blast
  have "r \<in> dom (vm_store vm1)"
    by (rule as_string_dom [OF interned_string [OF keeps_good [OF vm1(2)] vm1(4)]])
  with CONST_STRING chars vm1 show ?thesis by (simp add: const_loaded_def)
next
  case (CONST_FUNCTION i)
  then have i: "0 \<le> i" "nat i < length byIndex" using ok by (auto simp: const_ok_def)
  then have "byIndex ! nat i \<in> dom (vm_store vm)" using live vm_good_live [OF good] nth_mem by blast
  with CONST_FUNCTION i keeps_refl [OF good] show ?thesis by (simp add: const_loaded_def dom_def)
qed (use keeps_refl [OF good] in \<open>simp_all add: const_loaded_def numberValue_def\<close>)

text \<open>One constant: resolved, parked on the stack, written to the pool.\<close>

lemma resolve_const_keeps:
  assumes good: "vm_good vm" and top: "vm_stackTop vm < STACK_MAX"
    and ok: "const_ok (length (ss_arena (cu_strings unit))) (length byIndex) c"
    and live: "set byIndex \<subseteq> live_objects vm" and r: "r \<in> set byIndex"
    and fl: "function_loaded unit byIndex vm cfn cs r"
  shows "\<exists>v vm1 vm2 vm3 w vm4. resolveConstToValue unit c byIndex vm = Some (v, vm1) \<and>
    pushOnStack v vm1 = Some vm2 \<and> writeValueArray r v vm2 = Some vm3 \<and> popFromStack vm3 = Some (w, vm4) \<and>
    keeps {r} vm vm4 \<and> vm_stackTop vm4 = vm_stackTop vm \<and> function_loaded unit byIndex vm4 cfn (cs @ [c]) r"
proof -
  obtain v vm1 where vm1: "resolveConstToValue unit c byIndex vm = Some (v, vm1)" "keeps {} vm vm1"
    "vm_stackTop vm1 = vm_stackTop vm" "const_loaded unit byIndex vm1 c v"
    "\<And>x. v = VAL_OBJ x \<Longrightarrow> x \<in> dom (vm_store vm1)"
    using resolveConst_keeps [OF good top ok live] by blast
  have good1: "vm_good vm1" using vm1(2) by (rule keeps_good)
  obtain vm2 where vm2: "pushOnStack v vm1 = Some vm2" "keeps {} vm1 vm2" "vm_gc vm2 = vm_gc vm1"
    "vm_stackTop vm2 = vm_stackTop vm1 + 1" "vm_stack vm2 (vm_stackTop vm1) = v"
    using push_keeps [OF good1 _ vm1(5)] top vm1(3) by auto
  have good2: "vm_good vm2" using vm2(2) by (rule keeps_good)
  have k2: "keeps {} vm vm2" by (rule keeps_trans0 [OF vm1(2) vm2(2)])
  have live2: "r \<in> live_objects vm2" using keeps_live [OF k2] live r by blast
  have vlive: "x \<in> live_objects vm2" if "v = VAL_OBJ x" for x
    using stack_live [of "vm_stackTop vm1" vm2 x] vm2(4,5) that by simp
  have fl2: "function_loaded unit byIndex vm2 cfn cs r"
    by (rule function_loaded_keeps [OF good k2 _ _ _ fl]) (use live r in auto)
  then obtain f where f: "vm_store vm2 r = Some (OFunction f)" "header_loaded cfn f"
    "name_loaded unit vm2 cfn (fn_name f)" "ch_code (fn_chunk f) = cf_code cfn"
    "ch_lines (fn_chunk f) = cf_codeLines cfn"
    "list_all2 (const_loaded unit byIndex vm2) cs (va_values (ch_constants (fn_chunk f)))"
    unfolding function_loaded_def by blast
  have notstr: "as_string (vm_store vm2) w = None" if "w \<in> {r}" for w
    using that function_not_string [OF f(1)] by simp
  obtain vm3 cap where vm3: "writeValueArray r v vm2 = Some vm3" "keeps {r} vm2 vm3"
    "vm_stackTop vm3 = vm_stackTop vm2" "vm_store vm3 r = Some (OFunction (f\<lparr>fn_chunk := (fn_chunk f)\<lparr>
      ch_constants := (ch_constants (fn_chunk f))\<lparr>
        va_capacity := cap, va_values := va_values (ch_constants (fn_chunk f)) @ [v]\<rparr>\<rparr>\<rparr>))"
    using writeValueArray_keeps [OF good2 live2 f(1) vlive] by blast
  have k3: "keeps {r} vm vm3" by (rule keeps_trans0 [OF k2 vm3(2)])
  obtain w vm4 where vm4: "popFromStack vm3 = Some (w, vm4)" "keeps {r} vm vm4"
    "vm_stackTop vm4 = vm_stackTop vm" "vm_gc vm4 = vm_gc vm3"
    using pop_above [OF k3] vm3(3) vm2(4) vm1(3) by auto
  have refs: "x \<in> live_objects vm2" if "x \<in> set (obj_refs (OFunction f))" for x
    using live_objects_closed [OF live2 f(1) that] .
  have "name_loaded unit vm3 cfn (fn_name f)"
    by (rule name_loaded_keeps [OF good2 vm3(2) notstr _ f(3)]) (use refs in simp_all)
  moreover have "list_all2 (const_loaded unit byIndex vm3) cs (va_values (ch_constants (fn_chunk f)))"
    using f(6)
  proof (rule list.rel_mono_strong)
    fix c v assume v: "v \<in> set (va_values (ch_constants (fn_chunk f)))" and c: "const_loaded unit byIndex vm2 c v"
    have "x \<in> live_objects vm2" if "v = VAL_OBJ x" for x using refs v that by (simp add: set_value_refs)
    from const_loaded_keeps [OF good2 vm3(2) notstr this c] show "const_loaded unit byIndex vm3 c v" .
  qed
  moreover have "const_loaded unit byIndex vm2 c v" using vm1(4) loaded_gc(1) [OF vm2(3)] by simp
  from const_loaded_keeps [OF good2 vm3(2) notstr vlive this]
  have "const_loaded unit byIndex vm3 c v" by simp
  ultimately have "function_loaded unit byIndex vm3 cfn (cs @ [c]) r"
    using vm3(4) f(2,4,5) by (simp add: function_loaded_def header_loaded_def list_all2_appendI)
  then have "function_loaded unit byIndex vm4 cfn (cs @ [c]) r"
    using loaded_gc(3) [OF vm4(4)] by simp
  with vm1(1) vm2(1) vm3(1) vm4(1-3) show ?thesis by blast
qed

lemma resolve_consts_keeps:
  assumes "vm_good vm" "vm_stackTop vm < STACK_MAX"
    "\<forall>c \<in> set todo. const_ok (length (ss_arena (cu_strings unit))) (length byIndex) c"
    "set byIndex \<subseteq> live_objects vm" "r \<in> set byIndex" "function_loaded unit byIndex vm cfn done' r"
  shows "\<exists>vm'. resolve_consts unit byIndex r todo vm = Some vm' \<and> keeps {r} vm vm' \<and>
    vm_stackTop vm' = vm_stackTop vm \<and> function_loaded unit byIndex vm' cfn (done' @ todo) r"
  using assms
proof (induction todo arbitrary: vm done')
  case Nil
  then have "keeps {r} vm vm" using keeps_weaken [OF keeps_refl] by blast
  with Nil show ?case by simp
next
  case (Cons c todo)
  have ok: "const_ok (length (ss_arena (cu_strings unit))) (length byIndex) c" using Cons.prems(3) by simp
  obtain v vm1 vm2 vm3 w vm4 where s: "resolveConstToValue unit c byIndex vm = Some (v, vm1)"
    "pushOnStack v vm1 = Some vm2" "writeValueArray r v vm2 = Some vm3" "popFromStack vm3 = Some (w, vm4)"
    and k: "keeps {r} vm vm4" and t: "vm_stackTop vm4 = vm_stackTop vm"
    and fl: "function_loaded unit byIndex vm4 cfn (done' @ [c]) r"
    using resolve_const_keeps [OF Cons.prems(1,2) ok Cons.prems(4-6)] by blast
  have "set byIndex \<subseteq> live_objects vm4" using keeps_live [OF k] Cons.prems(4) by blast
  then obtain vm' where "resolve_consts unit byIndex r todo vm4 = Some vm'" "keeps {r} vm4 vm'"
    "vm_stackTop vm' = vm_stackTop vm4" "function_loaded unit byIndex vm' cfn ((done' @ [c]) @ todo) r"
    using Cons.IH [OF keeps_good [OF k] _ _ _ Cons.prems(5) fl] Cons.prems(2,3) t by auto
  with keeps_trans [OF k] t s show ?case by fastforce
qed

lemma resolve_all_keeps:
  assumes "vm_good vm" "vm_stackTop vm < STACK_MAX" "set byIndex \<subseteq> live_objects vm"
    "length fns = length rs" "set rs \<subseteq> set byIndex" "distinct rs"
    "\<forall>cfn \<in> set fns. \<forall>c \<in> set (cf_constants cfn).
       const_ok (length (ss_arena (cu_strings unit))) (length byIndex) c"
    "list_all2 (\<lambda>cfn r. function_loaded unit byIndex vm cfn [] r) fns rs"
  shows "\<exists>vm'. resolveConstsInFunctionsToValues unit byIndex (zip fns rs) vm = Some vm' \<and>
    keeps (set rs) vm vm' \<and> vm_stackTop vm' = vm_stackTop vm \<and>
    list_all2 (\<lambda>cfn r. function_loaded unit byIndex vm' cfn (cf_constants cfn) r) fns rs"
  using assms
proof (induction fns arbitrary: rs vm)
  case Nil
  then show ?case using keeps_refl by simp
next
  case (Cons cfn fns)
  then obtain r rs' where rs: "rs = r # rs'" by (cases rs) auto
  have fl: "function_loaded unit byIndex vm cfn [] r" and r: "r \<in> set byIndex"
    using Cons.prems(5,8) rs by auto
  obtain vm1 where vm1: "resolve_consts unit byIndex r (cf_constants cfn) vm = Some vm1" "keeps {r} vm vm1"
    "vm_stackTop vm1 = vm_stackTop vm" "function_loaded unit byIndex vm1 cfn (cf_constants cfn) r"
    using resolve_consts_keeps [OF Cons.prems(1,2) _ Cons.prems(3) r fl, of "cf_constants cfn"] Cons.prems(7) by auto
  have notstr: "as_string (vm_store vm) w = None" if "w \<in> {r}" for w
    using fl that by (auto simp: function_loaded_def as_string_def)
  have live1: "set byIndex \<subseteq> live_objects vm1" using keeps_live [OF vm1(2)] Cons.prems(3) by blast
  have rest: "list_all2 (\<lambda>cfn r. function_loaded unit byIndex vm1 cfn [] r) fns rs'"
  proof (rule list.rel_mono_strong [of "\<lambda>cfn r. function_loaded unit byIndex vm cfn [] r" fns rs'])
    show "list_all2 (\<lambda>cfn r. function_loaded unit byIndex vm cfn [] r) fns rs'" using Cons.prems(8) rs by simp
    fix cfn' x assume x: "x \<in> set rs'" "function_loaded unit byIndex vm cfn' [] x"
    then have "x \<in> live_objects vm" "x \<notin> {r}" using Cons.prems(3,5,6) rs by auto
    from function_loaded_keeps [OF Cons.prems(1) vm1(2) notstr this x(2)]
    show "function_loaded unit byIndex vm1 cfn' [] x" .
  qed
  obtain vm2 where vm2: "resolveConstsInFunctionsToValues unit byIndex (zip fns rs') vm1 = Some vm2"
    "keeps (set rs') vm1 vm2" "vm_stackTop vm2 = vm_stackTop vm1"
    "list_all2 (\<lambda>cfn r. function_loaded unit byIndex vm2 cfn (cf_constants cfn) r) fns rs'"
    using Cons.IH [OF keeps_good [OF vm1(2)] _ live1 _ _ _ _ rest] Cons.prems(2,4-7) rs vm1(3) by auto
  have "as_string (vm_store vm1) w = None" if "w \<in> set rs'" for w
    using list_all2_conv_all_nth [THEN iffD1, OF rest] that
    by (auto simp: function_loaded_def as_string_def in_set_conv_nth)
  then have "function_loaded unit byIndex vm2 cfn (cf_constants cfn) r"
    by (intro function_loaded_keeps [OF keeps_good [OF vm1(2)] vm2(2) _ _ _ vm1(4)])
      (use Cons.prems(5,6) live1 rs in auto)
  with vm1(1,3) vm2 keeps_trans [OF vm1(2) vm2(2)] rs show ?case by simp
qed

lemma cleanup_pops:
  "n \<le> vm_stackTop vm \<Longrightarrow>
    cleanupFromAllocatingFunctions n vm = Some (vm\<lparr>vm_stackTop := vm_stackTop vm - n\<rparr>)"
  by (induction n arbitrary: vm) (auto simp: popFromStack_def)

section \<open>Properties\<close>

text \<open>
  C9. Loading a well-formed unit into a machine with room on its stack returns, whatever the
  collector does in between: one function object per compiled function, with its header, name,
  bytecode and lines; every constant is resolved, strings to the interned string with the same
  characters and functions to the object of that index; the stack and every object the machine
  could reach are as before, and the heap is well-formed.
\<close>

theorem loadUnit_builds_the_unit:
  assumes "heap_ok (vm_gc vm)" and "set (vm_roots vm) \<subseteq> dom (vm_store vm)" and "unit_ok unit"
    and "vm_stackTop vm + length (cu_functions unit) < STACK_MAX"
  shows "\<exists>byIndex vm'. loadUnit unit vm = Some (byIndex ! 0, vm') \<and> distinct byIndex \<and>
    list_all2 (\<lambda>cfn r. function_loaded unit byIndex vm' cfn (cf_constants cfn) r) (cu_functions unit) byIndex \<and>
    stack_list vm' = stack_list vm \<and> (\<forall>r \<in> live_objects vm. vm_store vm' r = vm_store vm r) \<and>
    heap_ok (vm_gc vm') \<and> set (vm_roots vm') \<subseteq> dom (vm_store vm')"
proof -
  let ?fns = "cu_functions unit" and ?n = "length (cu_functions unit)"
  have good: "vm_good vm" using assms(1,2) by (simp add: vm_good_def roots_ok_def)
  have ok: "?fns \<noteq> []" "\<forall>cfn \<in> set ?fns. fn_ok (length (ss_arena (cu_strings unit))) ?n cfn"
    using assms(3) by (simp_all add: unit_ok_def)
  obtain byIndex vm1 where vm1: "allocateFunctions unit ?fns vm = Some (byIndex, vm1)" "keeps {} vm vm1"
    "vm_stackTop vm1 = vm_stackTop vm + ?n" "length byIndex = ?n"
    "\<forall>i < ?n. vm_stack vm1 (vm_stackTop vm + i) = VAL_OBJ (byIndex ! i)"
    "\<forall>r \<in> set byIndex. gc_fresh (vm_gc vm) \<le> r" "distinct byIndex"
    "list_all2 (\<lambda>cfn r. function_loaded unit [] vm1 cfn [] r) ?fns byIndex"
    using allocateFunctions_keeps [OF good assms(4) ok(2)] by blast
  have live1: "set byIndex \<subseteq> live_objects vm1"
  proof
    fix r assume "r \<in> set byIndex"
    then obtain i where "i < ?n" "r = byIndex ! i" using vm1(4) by (auto simp: in_set_conv_nth)
    then show "r \<in> live_objects vm1" using stack_live [of "vm_stackTop vm + i" vm1 r] vm1(3,5) by simp
  qed
  have "list_all2 (\<lambda>cfn r. function_loaded unit byIndex vm1 cfn [] r) ?fns byIndex"
    using vm1(8) function_loaded_nil [of unit "[]" vm1 _ _ byIndex] by simp
  moreover have "\<forall>cfn \<in> set ?fns. \<forall>c \<in> set (cf_constants cfn).
      const_ok (length (ss_arena (cu_strings unit))) (length byIndex) c"
    using ok(2) vm1(4) by (simp add: fn_ok_def)
  moreover have "vm_stackTop vm1 < STACK_MAX" using vm1(3) assms(4) by simp
  ultimately obtain vm2 where vm2: "resolveConstsInFunctionsToValues unit byIndex (zip ?fns byIndex) vm1 = Some vm2"
    "keeps (set byIndex) vm1 vm2" "vm_stackTop vm2 = vm_stackTop vm1"
    "list_all2 (\<lambda>cfn r. function_loaded unit byIndex vm2 cfn (cf_constants cfn) r) ?fns byIndex"
    using resolve_all_keeps [OF keeps_good [OF vm1(2)] _ live1 vm1(4) [symmetric] order_refl vm1(7)] by blast
  let ?vm = "vm2\<lparr>vm_stackTop := vm_stackTop vm\<rparr>"
  have "set byIndex \<inter> live_objects vm = {}"
    using vm1(6) vm_good_live [OF good] vm_good_fresh [OF good] by fastforce
  then have "keeps {} vm vm2"
    using keeps_weaken [OF keeps_trans0 [OF vm1(2) vm2(2)]] by blast
  then have k: "keeps {} vm ?vm" by (rule keeps_pop) (use vm1(3) vm2(3) in simp_all)
  have "byIndex \<noteq> []" using ok(1) vm1(4) by auto
  then have run: "loadUnit unit vm = Some (byIndex ! 0, ?vm)"
    using vm1(1,3) vm2(1,3) by (simp add: loadUnit_def cleanup_pops split: list.split)
  have "list_all2 (\<lambda>cfn r. function_loaded unit byIndex ?vm cfn (cf_constants cfn) r) ?fns byIndex"
    using vm2(4) loaded_gc(3) [of ?vm vm2] by simp
  moreover have "stack_list ?vm = stack_list vm" using keeps_list [OF k] by simp
  moreover have "heap_ok (vm_gc ?vm)" "set (vm_roots ?vm) \<subseteq> dom (vm_store ?vm)"
    using keeps_good [OF k] by (simp_all add: vm_good_def roots_ok_def)
  ultimately show ?thesis using run vm1(7) keeps_store [OF k] by blast
qed

text \<open>A script whose one constant is the string that names the function after it.\<close>

definition load_script :: CompiledFn where
  "load_script = cuInitFn\<lparr>cf_code := [1], cf_codeLines := [7],
     cf_constants := [CONST_STRING 0 2, CONST_FUNCTION 1]\<rparr>"

definition load_callee :: CompiledFn where
  "load_callee = cuInitFn\<lparr>cf_arity := 1, cf_nameLength := 2\<rparr>"

definition load_unit_sample :: CompiledUnit where
  "load_unit_sample =
     \<lparr>cu_strings = stringSetInit\<lparr>ss_arena := [104, 105, 0]\<rparr>, cu_functions = [load_script, load_callee]\<rparr>"

theorem loadUnit_builds_the_unit_witness:
  "\<exists>script callee vm' f g r. loadUnit load_unit_sample sample_vm = Some (script, vm') \<and> script \<noteq> callee \<and>
     vm_store vm' script = Some (OFunction f) \<and> ch_code (fn_chunk f) = [1] \<and> fn_name f = None \<and>
     va_values (ch_constants (fn_chunk f)) = [VAL_OBJ r, VAL_OBJ callee] \<and>
     key_chars (vm_store vm') r = [104, 105] \<and>
     vm_store vm' callee = Some (OFunction g) \<and> fn_name g = Some r \<and> stack_list vm' = [VAL_OBJ 3]"
proof -
  have h: "heap_ok (vm_gc sample_vm)" using sample_heap_ok by (simp add: sample_vm_def)
  have roots: "set (vm_roots sample_vm) \<subseteq> dom (vm_store sample_vm)"
    unfolding sample_roots by (simp add: sample_vm_def sample_gc_def)
  have ok: "unit_ok load_unit_sample"
    by (simp add: unit_ok_def load_unit_sample_def load_script_def load_callee_def cuInitFn_def fn_ok_def
        header_ok_def code_ok_def const_ok_def rangeInside_def in_i32_def stringSetInit_def)
  have room: "vm_stackTop sample_vm + length (cu_functions load_unit_sample) < STACK_MAX"
    by (simp add: sample_vm_def load_unit_sample_def STACK_MAX_def FRAMES_MAX_def)
  obtain byIndex vm' where run: "loadUnit load_unit_sample sample_vm = Some (byIndex ! 0, vm')" "distinct byIndex"
    "list_all2 (\<lambda>cfn r. function_loaded load_unit_sample byIndex vm' cfn (cf_constants cfn) r)
       (cu_functions load_unit_sample) byIndex" "stack_list vm' = stack_list sample_vm" "heap_ok (vm_gc vm')"
    "set (vm_roots vm') \<subseteq> dom (vm_store vm')"
    using loadUnit_builds_the_unit [OF h roots ok room] by blast
  then obtain a b where ab: "byIndex = [a, b]" "a \<noteq> b"
    "function_loaded load_unit_sample [a, b] vm' load_script (cf_constants load_script) a"
    "function_loaded load_unit_sample [a, b] vm' load_callee (cf_constants load_callee) b"
    by (auto simp: load_unit_sample_def list_all2_Cons1)
  have good: "vm_good vm'" using run(5,6) by (simp add: vm_good_def roots_ok_def)
  have slice: "arena_slice load_unit_sample 0 2 = Some [104, 105]"
    by (simp add: arena_slice_def load_unit_sample_def rangeInside_def stringSetInit_def)
  obtain f r where f: "vm_store vm' a = Some (OFunction f)" "ch_code (fn_chunk f) = [1]" "fn_name f = None"
    "va_values (ch_constants (fn_chunk f)) = [VAL_OBJ r, VAL_OBJ b]" "interned vm' r"
    "key_chars (vm_store vm') r = [104, 105]"
    using ab(3) slice by (auto simp: function_loaded_def load_script_def cuInitFn_def list_all2_Cons1
        const_loaded_def name_loaded_def split: option.splits)
  obtain g n where g: "vm_store vm' b = Some (OFunction g)" "fn_name g = Some n" "interned vm' n"
    "key_chars (vm_store vm') n = [104, 105]"
    using ab(4) slice by (auto simp: function_loaded_def load_callee_def cuInitFn_def name_loaded_def
        split: option.splits)
  have "n = r" using interned_unique [OF good g(3) f(5)] g(4) f(6) by simp
  moreover have "stack_list vm' = [VAL_OBJ 3]" using run(4) by (simp add: sample_vm_def stack_list_def)
  ultimately show ?thesis using run(1) ab(1,2) f g by auto
qed

end
