(* ===== verification/Token.thy ===== *)
theory Token
  imports Prelude
begin

text \<open>
  Tokens, \<^verbatim>\<open>src/token.h\<close> and \<^verbatim>\<open>src/token.c\<close>, and the growing array of them in
  \<^verbatim>\<open>src/token_stream.c\<close>.  A token points into the source text, into a message or into a constant
  of the program; what is read through it is the \<open>length\<close> bytes there, kept as \<open>tok_text\<close>.
\<close>

datatype TokenType =
     TOKEN_LEFT_PAREN | TOKEN_RIGHT_PAREN | TOKEN_LEFT_BRACE | TOKEN_RIGHT_BRACE
    | TOKEN_LEFT_BRACKET | TOKEN_RIGHT_BRACKET | TOKEN_COMMA | TOKEN_COLON | TOKEN_DOT
    | TOKEN_MINUS | TOKEN_PLUS | TOKEN_SEMICOLON | TOKEN_SLASH | TOKEN_STAR | TOKEN_MODULO
    | TOKEN_BANG | TOKEN_BANG_EQUAL | TOKEN_EQUAL | TOKEN_EQUAL_EQUAL | TOKEN_FAT_ARROW
    | TOKEN_GREATER | TOKEN_GREATER_EQUAL | TOKEN_LESS | TOKEN_LESS_EQUAL
    | TOKEN_QUESTION_QUESTION | TOKEN_IDENTIFIER | TOKEN_STRING | TOKEN_NUMBER
    | TOKEN_NUMBER_SUFFIXED | TOKEN_INTERP_STRING | TOKEN_INTERP_START | TOKEN_INTERP_MIDDLE
    | TOKEN_INTERP_END | TOKEN_AND | TOKEN_STRUCT | TOKEN_IMPL | TOKEN_TRAIT | TOKEN_ELSE
    | TOKEN_FALSE | TOKEN_FOR | TOKEN_FUN | TOKEN_IF | TOKEN_NIL | TOKEN_OR | TOKEN_PUB
    | TOKEN_RETURN | TOKEN_SELF | TOKEN_TRUE | TOKEN_TYPE | TOKEN_VAR | TOKEN_LET | TOKEN_WHILE
    | TOKEN_BREAK | TOKEN_CONTINUE | TOKEN_AS | TOKEN_ERROR | TOKEN_EOF

record Token =
  tok_type :: TokenType
  tok_text :: bytes
  tok_line :: int

abbreviation tok_length :: "Token \<Rightarrow> nat" where
  "tok_length t \<equiv> length (tok_text t)"

fun tokenTypeToString :: "TokenType \<Rightarrow> string" where
  "tokenTypeToString TOKEN_LEFT_PAREN = ''TOKEN_LEFT_PAREN''"
| "tokenTypeToString TOKEN_RIGHT_PAREN = ''TOKEN_RIGHT_PAREN''"
| "tokenTypeToString TOKEN_LEFT_BRACE = ''TOKEN_LEFT_BRACE''"
| "tokenTypeToString TOKEN_RIGHT_BRACE = ''TOKEN_RIGHT_BRACE''"
| "tokenTypeToString TOKEN_LEFT_BRACKET = ''TOKEN_LEFT_BRACKET''"
| "tokenTypeToString TOKEN_RIGHT_BRACKET = ''TOKEN_RIGHT_BRACKET''"
| "tokenTypeToString TOKEN_COMMA = ''TOKEN_COMMA''"
| "tokenTypeToString TOKEN_COLON = ''TOKEN_COLON''"
| "tokenTypeToString TOKEN_DOT = ''TOKEN_DOT''"
| "tokenTypeToString TOKEN_MINUS = ''TOKEN_MINUS''"
| "tokenTypeToString TOKEN_PLUS = ''TOKEN_PLUS''"
| "tokenTypeToString TOKEN_SEMICOLON = ''TOKEN_SEMICOLON''"
| "tokenTypeToString TOKEN_SLASH = ''TOKEN_SLASH''"
| "tokenTypeToString TOKEN_STAR = ''TOKEN_STAR''"
| "tokenTypeToString TOKEN_MODULO = ''TOKEN_MODULO''"
| "tokenTypeToString TOKEN_BANG = ''TOKEN_BANG''"
| "tokenTypeToString TOKEN_BANG_EQUAL = ''TOKEN_BANG_EQUAL''"
| "tokenTypeToString TOKEN_EQUAL = ''TOKEN_EQUAL''"
| "tokenTypeToString TOKEN_EQUAL_EQUAL = ''TOKEN_EQUAL_EQUAL''"
| "tokenTypeToString TOKEN_FAT_ARROW = ''TOKEN_FAT_ARROW''"
| "tokenTypeToString TOKEN_GREATER = ''TOKEN_GREATER''"
| "tokenTypeToString TOKEN_GREATER_EQUAL = ''TOKEN_GREATER_EQUAL''"
| "tokenTypeToString TOKEN_LESS = ''TOKEN_LESS''"
| "tokenTypeToString TOKEN_LESS_EQUAL = ''TOKEN_LESS_EQUAL''"
| "tokenTypeToString TOKEN_QUESTION_QUESTION = ''TOKEN_QUESTION_QUESTION''"
| "tokenTypeToString TOKEN_IDENTIFIER = ''TOKEN_IDENTIFIER''"
| "tokenTypeToString TOKEN_STRING = ''TOKEN_STRING''"
| "tokenTypeToString TOKEN_NUMBER = ''TOKEN_NUMBER''"
| "tokenTypeToString TOKEN_NUMBER_SUFFIXED = ''TOKEN_NUMBER_SUFFIXED''"
| "tokenTypeToString TOKEN_INTERP_STRING = ''TOKEN_INTERP_STRING''"
| "tokenTypeToString TOKEN_INTERP_START = ''TOKEN_INTERP_START''"
| "tokenTypeToString TOKEN_INTERP_MIDDLE = ''TOKEN_INTERP_MIDDLE''"
| "tokenTypeToString TOKEN_INTERP_END = ''TOKEN_INTERP_END''"
| "tokenTypeToString TOKEN_AND = ''TOKEN_AND''"
| "tokenTypeToString TOKEN_STRUCT = ''TOKEN_STRUCT''"
| "tokenTypeToString TOKEN_IMPL = ''TOKEN_IMPL''"
| "tokenTypeToString TOKEN_TRAIT = ''TOKEN_TRAIT''"
| "tokenTypeToString TOKEN_ELSE = ''TOKEN_ELSE''"
| "tokenTypeToString TOKEN_FALSE = ''TOKEN_FALSE''"
| "tokenTypeToString TOKEN_FOR = ''TOKEN_FOR''"
| "tokenTypeToString TOKEN_FUN = ''TOKEN_FUN''"
| "tokenTypeToString TOKEN_IF = ''TOKEN_IF''"
| "tokenTypeToString TOKEN_NIL = ''TOKEN_NIL''"
| "tokenTypeToString TOKEN_OR = ''TOKEN_OR''"
| "tokenTypeToString TOKEN_PUB = ''TOKEN_PUB''"
| "tokenTypeToString TOKEN_RETURN = ''TOKEN_RETURN''"
| "tokenTypeToString TOKEN_SELF = ''TOKEN_SELF''"
| "tokenTypeToString TOKEN_TRUE = ''TOKEN_TRUE''"
| "tokenTypeToString TOKEN_TYPE = ''TOKEN_TYPE''"
| "tokenTypeToString TOKEN_VAR = ''TOKEN_VAR''"
| "tokenTypeToString TOKEN_LET = ''TOKEN_LET''"
| "tokenTypeToString TOKEN_WHILE = ''TOKEN_WHILE''"
| "tokenTypeToString TOKEN_BREAK = ''TOKEN_BREAK''"
| "tokenTypeToString TOKEN_CONTINUE = ''TOKEN_CONTINUE''"
| "tokenTypeToString TOKEN_AS = ''TOKEN_AS''"
| "tokenTypeToString TOKEN_ERROR = ''TOKEN_ERROR''"
| "tokenTypeToString TOKEN_EOF = ''TOKEN_EOF''"

definition tokensEqual :: "Token \<Rightarrow> Token \<Rightarrow> bool" where
  "tokensEqual a b =
     (if tok_length a \<noteq> tok_length b then False
      else take (tok_length a) (tok_text a) = take (tok_length a) (tok_text b))"

definition tokenTextEquals :: "Token \<Rightarrow> bytes \<Rightarrow> bool" where
  "tokenTextEquals token txt =
     (let len = length txt
      in if tok_length token \<noteq> len then False else take len (tok_text token) = take len txt)"

definition tokenFromCString :: "bytes \<Rightarrow> Token" where
  "tokenFromCString txt = \<lparr>tok_type = TOKEN_IDENTIFIER, tok_text = txt, tok_line = 0\<rparr>"

definition tokenIsPrimitiveTypeName :: "Token \<Rightarrow> bool" where
  "tokenIsPrimitiveTypeName token \<longleftrightarrow>
     tokenTextEquals token (ascii ''unit'') \<or> tokenTextEquals token (ascii ''bool'') \<or>
     tokenTextEquals token (ascii ''string'') \<or> tokenTextEquals token (ascii ''f64'')"

lemma tokensEqual_iff [simp]: "tokensEqual a b \<longleftrightarrow> tok_text a = tok_text b"
  by (auto simp: tokensEqual_def)

lemma tokenTextEquals_iff [simp]: "tokenTextEquals a txt \<longleftrightarrow> tok_text a = txt"
  by (auto simp: tokenTextEquals_def Let_def)

section \<open>The stream of tokens\<close>

text \<open>The capacity of the array is left out; \<open>ts_tokens\<close> are its \<open>count\<close> entries in use.\<close>

record TokenStream =
  ts_tokens :: "Token list"
  ts_current :: nat

definition tsInit :: TokenStream where
  "tsInit = \<lparr>ts_tokens = [], ts_current = 0\<rparr>"

definition tsWrite :: "Token \<Rightarrow> TokenStream \<Rightarrow> TokenStream" where
  "tsWrite token ts = ts\<lparr>ts_tokens := ts_tokens ts @ [token]\<rparr>"

text \<open>Reading at an index past the entries in use is \<open>None\<close>.\<close>

definition tsAt :: "TokenStream \<Rightarrow> nat \<Rightarrow> Token option" where
  "tsAt ts i = (if i < length (ts_tokens ts) then Some (ts_tokens ts ! i) else None)"

definition tsPeek :: "TokenStream \<Rightarrow> Token option" where
  "tsPeek ts = tsAt ts (ts_current ts)"

definition tsPeekNext :: "TokenStream \<Rightarrow> Token option" where
  "tsPeekNext ts =
     (if ts_current ts + 1 \<ge> length (ts_tokens ts) then tsAt ts (length (ts_tokens ts) - 1)
      else tsAt ts (ts_current ts + 1))"

definition tsAdvance :: "TokenStream \<Rightarrow> (Token \<times> TokenStream) option" where
  "tsAdvance ts =
     (if ts_current ts \<ge> length (ts_tokens ts)
      then do { token \<leftarrow> tsAt ts (length (ts_tokens ts) - 1); Some (token, ts) }
      else do {
        token \<leftarrow> tsAt ts (ts_current ts);
        Some (token, ts\<lparr>ts_current := ts_current ts + 1\<rparr>)
      })"

definition tsIsAtEnd :: "TokenStream \<Rightarrow> bool option" where
  "tsIsAtEnd ts = do { token \<leftarrow> tsPeek ts; Some (tok_type token = TOKEN_EOF) }"

end
