(* ===== verification/Scanner.thy ===== *)
theory Scanner
  imports Token Number_Kind
begin

text \<open>
  The scanner, \<^verbatim>\<open>src/scanner.c\<close>, and \<open>lex\<close> of \<^verbatim>\<open>src/lexer.c\<close>.  The source is a C string: its bytes,
  then a NUL.  Reading beyond the NUL is \<open>None\<close>, and so is reading a counter of \<open>interpBraces\<close> that
  was never set.  Lines and lengths are C ints; they stay below the length of the source.
\<close>

definition MAX_INTERP_DEPTH :: nat where
  "MAX_INTERP_DEPTH = 16"

record Scanner =
  sc_source :: bytes
  sc_start :: nat
  sc_current :: nat
  sc_line :: int
  sc_interpDepth :: nat
  sc_interpBraces :: "int option list"

definition initScanner :: "bytes \<Rightarrow> Scanner" where
  "initScanner source =
     \<lparr>sc_source = source, sc_start = 0, sc_current = 0, sc_line = 1, sc_interpDepth = 0,
      sc_interpBraces = replicate MAX_INTERP_DEPTH None\<rparr>"

definition char_at :: "Scanner \<Rightarrow> nat \<Rightarrow> u8 option" where
  "char_at sc i =
     (if i < length (sc_source sc) then Some (sc_source sc ! i)
      else if i = length (sc_source sc) then Some 0 else None)"

text \<open>The comparisons of \<open>char\<close> are the same for a signed and an unsigned one: both bounds are below
  128.\<close>

definition isDigit :: "u8 \<Rightarrow> bool" where
  "isDigit c \<longleftrightarrow> ch CHR ''0'' \<le> c \<and> c \<le> ch CHR ''9''"

definition isAlpha :: "u8 \<Rightarrow> bool" where
  "isAlpha c \<longleftrightarrow>
     (ch CHR ''a'' \<le> c \<and> c \<le> ch CHR ''z'') \<or> (ch CHR ''A'' \<le> c \<and> c \<le> ch CHR ''Z'') \<or> c = ch CHR ''_''"

definition peek :: "Scanner \<Rightarrow> u8 option" where
  "peek sc = char_at sc (sc_current sc)"

definition isAtEnd :: "Scanner \<Rightarrow> bool option" where
  "isAtEnd sc = do { c \<leftarrow> char_at sc (sc_current sc); Some (c = 0) }"

definition step_over :: "Scanner \<Rightarrow> Scanner" where
  "step_over sc = sc\<lparr>sc_current := sc_current sc + 1\<rparr>"

definition advance :: "Scanner \<Rightarrow> (u8 \<times> Scanner) option" where
  "advance sc = do {
     at_end \<leftarrow> isAtEnd sc;
     if at_end then Some (0, sc)
     else do {
       c \<leftarrow> char_at (step_over sc) (sc_current (step_over sc) - 1);
       Some (c, step_over sc)
     }
   }"

definition peekNext :: "Scanner \<Rightarrow> u8 option" where
  "peekNext sc = do {
     at_end \<leftarrow> isAtEnd sc;
     if at_end then Some 0
     else do {
       c \<leftarrow> char_at sc (sc_current sc + 1);
       if c = 0 then Some 0 else char_at sc (sc_current sc + 1)
     }
   }"

definition match_char :: "u8 \<Rightarrow> Scanner \<Rightarrow> (bool \<times> Scanner) option" where
  "match_char expected sc = do {
     at_end \<leftarrow> isAtEnd sc;
     if at_end then Some (False, sc)
     else do {
       c \<leftarrow> char_at sc (sc_current sc);
       if c \<noteq> expected then Some (False, sc) else Some (True, step_over sc)
     }
   }"

text \<open>The bytes between \<open>start\<close> and \<open>current\<close>.\<close>

definition lexeme :: "Scanner \<Rightarrow> bytes" where
  "lexeme sc = take (sc_current sc - sc_start sc) (drop (sc_start sc) (sc_source sc))"

definition makeToken :: "Scanner \<Rightarrow> TokenType \<Rightarrow> Token" where
  "makeToken sc type = \<lparr>tok_type = type, tok_text = lexeme sc, tok_line = sc_line sc\<rparr>"

definition errorToken :: "Scanner \<Rightarrow> string \<Rightarrow> Token" where
  "errorToken sc message =
     \<lparr>tok_type = TOKEN_ERROR, tok_text = ascii message, tok_line = sc_line sc\<rparr>"

section \<open>Keywords\<close>

text \<open>\<open>cs\<close> are the characters from \<open>start\<close> to \<open>current\<close>.\<close>

definition checkKeyword :: "bytes \<Rightarrow> nat \<Rightarrow> nat \<Rightarrow> string \<Rightarrow> TokenType \<Rightarrow> TokenType" where
  "checkKeyword cs start len tail_s type =
     (if length cs = start + len \<and> take len (drop start cs) = take len (ascii tail_s) then type
      else TOKEN_IDENTIFIER)"

definition identifierType :: "bytes \<Rightarrow> TokenType" where
  "identifierType cs =
     (if cs ! 0 = ch CHR ''a'' then
        if length cs > 1 then
          if cs ! 1 = ch CHR ''n'' then checkKeyword cs 2 1 ''d'' TOKEN_AND
          else if cs ! 1 = ch CHR ''s'' then checkKeyword cs 2 0 '''' TOKEN_AS
          else TOKEN_IDENTIFIER
        else TOKEN_IDENTIFIER
      else if cs ! 0 = ch CHR ''b'' then checkKeyword cs 1 4 ''reak'' TOKEN_BREAK
      else if cs ! 0 = ch CHR ''c'' then checkKeyword cs 1 7 ''ontinue'' TOKEN_CONTINUE
      else if cs ! 0 = ch CHR ''e'' then checkKeyword cs 1 3 ''lse'' TOKEN_ELSE
      else if cs ! 0 = ch CHR ''f'' then
        if length cs > 1 then
          if cs ! 1 = ch CHR ''a'' then checkKeyword cs 2 3 ''lse'' TOKEN_FALSE
          else if cs ! 1 = ch CHR ''o'' then checkKeyword cs 2 1 ''r'' TOKEN_FOR
          else if cs ! 1 = ch CHR ''u'' then checkKeyword cs 2 1 ''n'' TOKEN_FUN
          else TOKEN_IDENTIFIER
        else TOKEN_IDENTIFIER
      else if cs ! 0 = ch CHR ''i'' then
        if length cs > 1 then
          if cs ! 1 = ch CHR ''f'' then checkKeyword cs 1 1 ''f'' TOKEN_IF
          else if cs ! 1 = ch CHR ''m'' then checkKeyword cs 1 3 ''mpl'' TOKEN_IMPL
          else TOKEN_IDENTIFIER
        else TOKEN_IDENTIFIER
      else if cs ! 0 = ch CHR ''l'' then checkKeyword cs 1 2 ''et'' TOKEN_LET
      else if cs ! 0 = ch CHR ''n'' then checkKeyword cs 1 2 ''il'' TOKEN_NIL
      else if cs ! 0 = ch CHR ''o'' then checkKeyword cs 1 1 ''r'' TOKEN_OR
      else if cs ! 0 = ch CHR ''p'' then
        if length cs > 1 then
          if cs ! 1 = ch CHR ''u'' then checkKeyword cs 2 1 ''b'' TOKEN_PUB
          else TOKEN_IDENTIFIER
        else TOKEN_IDENTIFIER
      else if cs ! 0 = ch CHR ''r'' then checkKeyword cs 1 5 ''eturn'' TOKEN_RETURN
      else if cs ! 0 = ch CHR ''s'' then
        if length cs > 1 then
          if cs ! 1 = ch CHR ''e'' then checkKeyword cs 2 2 ''lf'' TOKEN_SELF
          else if cs ! 1 = ch CHR ''t'' then checkKeyword cs 2 4 ''ruct'' TOKEN_STRUCT
          else TOKEN_IDENTIFIER
        else TOKEN_IDENTIFIER
      else if cs ! 0 = ch CHR ''t'' then
        if length cs > 1 then
          if cs ! 1 = ch CHR ''r'' then
            if length cs > 2 then
              if cs ! 2 = ch CHR ''u'' then checkKeyword cs 3 1 ''e'' TOKEN_TRUE
              else if cs ! 2 = ch CHR ''a'' then checkKeyword cs 3 2 ''it'' TOKEN_TRAIT
              else TOKEN_IDENTIFIER
            else TOKEN_IDENTIFIER
          else if cs ! 1 = ch CHR ''y'' then checkKeyword cs 2 2 ''pe'' TOKEN_TYPE
          else TOKEN_IDENTIFIER
        else TOKEN_IDENTIFIER
      else if cs ! 0 = ch CHR ''v'' then checkKeyword cs 1 2 ''ar'' TOKEN_VAR
      else if cs ! 0 = ch CHR ''w'' then checkKeyword cs 1 4 ''hile'' TOKEN_WHILE
      else TOKEN_IDENTIFIER)"

section \<open>The tokens with a loop\<close>

partial_function (option) identifier_loop :: "Scanner \<Rightarrow> Scanner option" where
  [code]: "identifier_loop sc = do {
     c \<leftarrow> peek sc;
     if isAlpha c \<or> isDigit c then do { (_, sc) \<leftarrow> advance sc; identifier_loop sc } else Some sc
   }"

definition scanIdentifier :: "Scanner \<Rightarrow> (Token \<times> Scanner) option" where
  "scanIdentifier sc = do {
     sc \<leftarrow> identifier_loop sc;
     Some (makeToken sc (identifierType (lexeme sc)), sc)
   }"

definition lower_first :: "nat \<Rightarrow> u8 \<Rightarrow> u8" where
  "lower_first i actual =
     (if i = 0 \<and> ch CHR ''A'' \<le> actual \<and> actual \<le> ch CHR ''Z''
      then actual - ch CHR ''A'' + ch CHR ''a'' else actual)"

fun suffix_matches :: "Scanner \<Rightarrow> nat \<Rightarrow> bytes \<Rightarrow> bool option" where
  "suffix_matches sc i [] = Some True"
| "suffix_matches sc i (expected # rest) = do {
     actual \<leftarrow> char_at sc (sc_current sc + i);
     if lower_first i actual = expected then suffix_matches sc (i + 1) rest else Some False
   }"

fun suffix_loop :: "Scanner \<Rightarrow> NumberKind list \<Rightarrow> nat option" where
  "suffix_loop sc [] = Some 0"
| "suffix_loop sc (kind # kinds) = do {
     let name = ascii (ki_name (numberKindInfo kind));
     matches \<leftarrow> suffix_matches sc 0 name;
     if matches then Some (length name) else suffix_loop sc kinds
   }"

definition numberSuffixLength :: "Scanner \<Rightarrow> nat option" where
  "numberSuffixLength sc = suffix_loop sc all_kinds"

partial_function (option) digits_loop :: "Scanner \<Rightarrow> Scanner option" where
  [code]: "digits_loop sc = do {
     c \<leftarrow> peek sc;
     if isDigit c then do { (_, sc) \<leftarrow> advance sc; digits_loop sc } else Some sc
   }"

fun advance_times :: "nat \<Rightarrow> Scanner \<Rightarrow> Scanner option" where
  "advance_times 0 sc = Some sc"
| "advance_times (Suc n) sc = do { (_, sc) \<leftarrow> advance sc; advance_times n sc }"

definition scan_fraction :: "Scanner \<Rightarrow> Scanner option" where
  "scan_fraction sc = do {
     c \<leftarrow> peek sc;
     if c = ch CHR ''.'' then do {
       d \<leftarrow> peekNext sc;
       if isDigit d then do { (_, sc) \<leftarrow> advance sc; digits_loop sc } else Some sc
     } else Some sc
   }"

definition scanNumber :: "Scanner \<Rightarrow> (Token \<times> Scanner) option" where
  "scanNumber sc = do {
     sc \<leftarrow> digits_loop sc;
     sc \<leftarrow> scan_fraction sc;
     suffixLength \<leftarrow> numberSuffixLength sc;
     if suffixLength > 0 then do {
       sc \<leftarrow> advance_times suffixLength sc;
       Some (makeToken sc TOKEN_NUMBER_SUFFIXED, sc)
     }
     else Some (makeToken sc TOKEN_NUMBER, sc)
   }"

text \<open>The part that the loops of \<open>string\<close> and \<open>interpSegment\<close> share: count a line, step over a
  backslash, and over the character after it.\<close>

definition string_char :: "Scanner \<Rightarrow> Scanner option" where
  "string_char sc = do {
     c \<leftarrow> peek sc;
     let sc = (if c = 10 then sc\<lparr>sc_line := sc_line sc + 1\<rparr> else sc);
     d \<leftarrow> (if c = ch CHR 0x5C then peekNext sc else Some 0);
     (_, sc) \<leftarrow> (if c = ch CHR 0x5C \<and> d \<noteq> 0 then advance sc else Some (0, sc));
     (_, sc) \<leftarrow> advance sc;
     Some sc
   }"

partial_function (option) string_loop :: "Scanner \<Rightarrow> Scanner option" where
  [code]: "string_loop sc = do {
     c \<leftarrow> peek sc;
     at_end \<leftarrow> isAtEnd sc;
     if c \<noteq> ch CHR 0x22 \<and> \<not> at_end then do { sc \<leftarrow> string_char sc; string_loop sc } else Some sc
   }"

definition scanString :: "Scanner \<Rightarrow> (Token \<times> Scanner) option" where
  "scanString sc = do {
     sc \<leftarrow> string_loop sc;
     at_end \<leftarrow> isAtEnd sc;
     if at_end then Some (errorToken sc ''Unterminated string.'', sc)
     else do { (_, sc) \<leftarrow> advance sc; Some (makeToken sc TOKEN_STRING, sc) }
   }"

partial_function (option) interp_loop :: "Scanner \<Rightarrow> Scanner option" where
  [code]: "interp_loop sc = do {
     c \<leftarrow> peek sc;
     at_end \<leftarrow> isAtEnd sc;
     if c \<noteq> ch CHR 0x22 \<and> \<not> at_end then
       if c = ch CHR ''{'' then do {
         d \<leftarrow> peekNext sc;
         if d \<noteq> ch CHR ''{'' then Some sc
         else do {
           (_, sc) \<leftarrow> advance sc;
           sc \<leftarrow> string_char sc;
           interp_loop sc
         }
       }
       else do { sc \<leftarrow> string_char sc; interp_loop sc }
     else Some sc
   }"

definition interpSegment ::
  "TokenType \<Rightarrow> TokenType \<Rightarrow> Scanner \<Rightarrow> (Token \<times> Scanner) option" where
  "interpSegment placeholderType endType sc = do {
     sc \<leftarrow> interp_loop sc;
     at_end \<leftarrow> isAtEnd sc;
     if at_end then Some (errorToken sc ''Unterminated string.'', sc)
     else do {
       (c, sc) \<leftarrow> advance sc;
       if c = ch CHR ''{'' then
         if sc_interpDepth sc = MAX_INTERP_DEPTH
         then Some (errorToken sc ''Interpolated strings nested too deeply.'', sc)
         else if sc_interpDepth sc \<ge> length (sc_interpBraces sc) then None
         else do {
           let sc = sc\<lparr>sc_interpBraces := (sc_interpBraces sc)[sc_interpDepth sc := Some 0],
                       sc_interpDepth := sc_interpDepth sc + 1\<rparr>;
           Some (makeToken sc placeholderType, sc)
         }
       else Some (makeToken sc endType, sc)
     }
   }"

section \<open>White space and comments\<close>

partial_function (option) line_loop :: "Scanner \<Rightarrow> Scanner option" where
  [code]: "line_loop sc = do {
     c \<leftarrow> peek sc;
     at_end \<leftarrow> isAtEnd sc;
     if c \<noteq> 10 \<and> \<not> at_end then do { (_, sc) \<leftarrow> advance sc; line_loop sc } else Some sc
   }"

partial_function (option) skipWhitespace :: "Scanner \<Rightarrow> Scanner option" where
  [code]: "skipWhitespace sc = do {
     c \<leftarrow> peek sc;
     if c = ch CHR '' '' \<or> c = 13 \<or> c = 9 then do { (_, sc) \<leftarrow> advance sc; skipWhitespace sc }
     else if c = 10 then do {
       (_, sc) \<leftarrow> advance (sc\<lparr>sc_line := sc_line sc + 1\<rparr>);
       skipWhitespace sc
     }
     else if c = ch CHR ''#'' then do {
       d \<leftarrow> peekNext sc;
       if d = ch CHR ''!'' then do { sc \<leftarrow> line_loop sc; skipWhitespace sc } else Some sc
     }
     else if c = ch CHR ''/'' then do {
       d \<leftarrow> peekNext sc;
       if d = ch CHR ''/'' then do { sc \<leftarrow> line_loop sc; skipWhitespace sc } else Some sc
     }
     else Some sc
   }"

section \<open>One token\<close>

text \<open>The counter of the innermost placeholder.\<close>

definition open_braces :: "Scanner \<Rightarrow> int option" where
  "open_braces sc =
     (if sc_interpDepth sc - 1 < length (sc_interpBraces sc)
      then sc_interpBraces sc ! (sc_interpDepth sc - 1) else None)"

definition set_open_braces :: "int \<Rightarrow> Scanner \<Rightarrow> Scanner" where
  "set_open_braces n sc =
     sc\<lparr>sc_interpBraces := (sc_interpBraces sc)[sc_interpDepth sc - 1 := Some n]\<rparr>"

definition left_brace :: "Scanner \<Rightarrow> (Token \<times> Scanner) option" where
  "left_brace sc =
     (if sc_interpDepth sc > 0 then do {
        open_n \<leftarrow> open_braces sc;
        let sc = set_open_braces (open_n + 1) sc;
        Some (makeToken sc TOKEN_LEFT_BRACE, sc)
      } else Some (makeToken sc TOKEN_LEFT_BRACE, sc))"

definition right_brace :: "Scanner \<Rightarrow> (Token \<times> Scanner) option" where
  "right_brace sc =
     (if sc_interpDepth sc > 0 then do {
        open_n \<leftarrow> open_braces sc;
        if open_n = 0
        then interpSegment TOKEN_INTERP_MIDDLE TOKEN_INTERP_END
               (sc\<lparr>sc_interpDepth := sc_interpDepth sc - 1\<rparr>)
        else do {
          let sc = set_open_braces (open_n - 1) sc;
          Some (makeToken sc TOKEN_RIGHT_BRACE, sc)
        }
      } else Some (makeToken sc TOKEN_RIGHT_BRACE, sc))"

definition two_char :: "char \<Rightarrow> TokenType \<Rightarrow> TokenType \<Rightarrow> Scanner \<Rightarrow> (Token \<times> Scanner) option" where
  "two_char second two one sc = do {
     (matched, sc) \<leftarrow> match_char (ch second) sc;
     Some (makeToken sc (if matched then two else one), sc)
   }"

definition scan_equal :: "Scanner \<Rightarrow> (Token \<times> Scanner) option" where
  "scan_equal sc = do {
     (matched, sc) \<leftarrow> match_char (ch CHR ''='') sc;
     if matched then Some (makeToken sc TOKEN_EQUAL_EQUAL, sc)
     else two_char CHR ''>'' TOKEN_FAT_ARROW TOKEN_EQUAL sc
   }"

definition scan_symbol :: "u8 \<Rightarrow> Scanner \<Rightarrow> (Token \<times> Scanner) option" where
  "scan_symbol c sc =
     (if c = ch CHR ''('' then Some (makeToken sc TOKEN_LEFT_PAREN, sc)
      else if c = ch CHR '')'' then Some (makeToken sc TOKEN_RIGHT_PAREN, sc)
      else if c = ch CHR ''{'' then left_brace sc
      else if c = ch CHR ''}'' then right_brace sc
      else if c = ch CHR ''['' then Some (makeToken sc TOKEN_LEFT_BRACKET, sc)
      else if c = ch CHR '']'' then Some (makeToken sc TOKEN_RIGHT_BRACKET, sc)
      else if c = ch CHR '';'' then Some (makeToken sc TOKEN_SEMICOLON, sc)
      else if c = ch CHR '','' then Some (makeToken sc TOKEN_COMMA, sc)
      else if c = ch CHR '':'' then Some (makeToken sc TOKEN_COLON, sc)
      else if c = ch CHR ''.'' then Some (makeToken sc TOKEN_DOT, sc)
      else if c = ch CHR ''-'' then Some (makeToken sc TOKEN_MINUS, sc)
      else if c = ch CHR ''+'' then Some (makeToken sc TOKEN_PLUS, sc)
      else if c = ch CHR ''/'' then Some (makeToken sc TOKEN_SLASH, sc)
      else if c = ch CHR ''*'' then Some (makeToken sc TOKEN_STAR, sc)
      else if c = ch CHR ''?'' then two_char CHR ''?'' TOKEN_QUESTION_QUESTION TOKEN_ERROR sc
      else if c = ch CHR ''&'' then two_char CHR ''&'' TOKEN_AND TOKEN_ERROR sc
      else if c = ch CHR ''|'' then two_char CHR ''|'' TOKEN_OR TOKEN_ERROR sc
      else if c = ch CHR ''!'' then two_char CHR ''='' TOKEN_BANG_EQUAL TOKEN_BANG sc
      else if c = ch CHR ''='' then scan_equal sc
      else if c = ch CHR ''<'' then two_char CHR ''='' TOKEN_LESS_EQUAL TOKEN_LESS sc
      else if c = ch CHR ''>'' then two_char CHR ''='' TOKEN_GREATER_EQUAL TOKEN_GREATER sc
      else if c = ch CHR ''%'' then Some (makeToken sc TOKEN_MODULO, sc)
      else if c = ch CHR 0x22 then scanString sc
      else Some (errorToken sc ''Unexpected character.'', sc))"

definition scanToken :: "Scanner \<Rightarrow> (Token \<times> Scanner) option" where
  "scanToken sc = do {
     sc \<leftarrow> skipWhitespace sc;
     let sc = sc\<lparr>sc_start := sc_current sc\<rparr>;
     at_end \<leftarrow> isAtEnd sc;
     if at_end then Some (makeToken sc TOKEN_EOF, sc)
     else do {
       (c, sc) \<leftarrow> advance sc;
       next_c \<leftarrow> peek sc;
       if isAlpha c then scanIdentifier sc
       else if c = ch CHR ''@'' \<and> isAlpha next_c then scanIdentifier sc
       else if c = ch CHR ''$'' \<and> next_c = ch CHR 0x22 then do {
         (_, sc) \<leftarrow> advance sc;
         interpSegment TOKEN_INTERP_START TOKEN_INTERP_STRING sc
       }
       else if isDigit c then scanNumber sc
       else scan_symbol c sc
     }
   }"

section \<open>All tokens\<close>

partial_function (option) lex_loop :: "Scanner \<Rightarrow> TokenStream \<Rightarrow> TokenStream option" where
  [code]: "lex_loop sc ts = do {
     (token, sc) \<leftarrow> scanToken sc;
     let ts = tsWrite token ts;
     if tok_type token = TOKEN_EOF then Some ts else lex_loop sc ts
   }"

definition lex :: "bytes \<Rightarrow> TokenStream option" where
  "lex source = lex_loop (initScanner source) tsInit"

end
