(* ===== verification/Scan_Loops.thy ===== *)
theory Scan_Loops
  imports Scanner
begin

text \<open>
  The loops of the scanner: reading a character is reading the rest of the source, every loop comes to
  an end, and what it moves over.
\<close>

section \<open>Reading a character\<close>

definition rest :: "Scanner \<Rightarrow> bytes" where
  "rest sc = drop (sc_current sc) (sc_source sc)"

definition hd0 :: "bytes \<Rightarrow> u8" where
  "hd0 cs = (case cs of [] \<Rightarrow> 0 | c # _ \<Rightarrow> c)"

definition in_source :: "Scanner \<Rightarrow> bool" where
  "in_source sc \<longleftrightarrow> sc_current sc \<le> length (sc_source sc)"

definition skip :: "nat \<Rightarrow> Scanner \<Rightarrow> Scanner" where
  "skip n sc = sc\<lparr>sc_current := sc_current sc + n\<rparr>"

lemma hd0_simps [simp]: "hd0 [] = 0" "hd0 (c # cs) = c"
  by (simp_all add: hd0_def)

lemma hd0_nonzero: "hd0 cs \<noteq> 0 \<Longrightarrow> cs \<noteq> []"
  by (cases cs) auto

lemma skip_simps [simp]:
  "sc_source (skip n sc) = sc_source sc" "sc_start (skip n sc) = sc_start sc"
  "sc_line (skip n sc) = sc_line sc" "sc_interpDepth (skip n sc) = sc_interpDepth sc"
  "sc_interpBraces (skip n sc) = sc_interpBraces sc" "sc_current (skip n sc) = sc_current sc + n"
  "skip 0 sc = sc" "skip m (skip n sc) = skip (n + m) sc"
  by (simp_all add: skip_def add.assoc)

lemma rest_skip [simp]: "rest (skip n sc) = drop n (rest sc)"
  by (simp add: rest_def add.commute)

lemma rest_line [simp]: "rest (sc\<lparr>sc_line := l\<rparr>) = rest sc" "rest (sc\<lparr>sc_start := p\<rparr>) = rest sc"
  by (simp_all add: rest_def)

lemma in_source_line [simp]:
  "in_source (sc\<lparr>sc_line := l\<rparr>) = in_source sc" "in_source (sc\<lparr>sc_start := p\<rparr>) = in_source sc"
  by (simp_all add: in_source_def)

lemma in_source_skip: "in_source sc \<Longrightarrow> n \<le> length (rest sc) \<Longrightarrow> in_source (skip n sc)"
  by (auto simp: in_source_def rest_def)

lemma in_source_skip1: "in_source sc \<Longrightarrow> hd0 (rest sc) \<noteq> 0 \<Longrightarrow> in_source (skip (Suc 0) sc)"
  using hd0_nonzero [of "rest sc"] by (intro in_source_skip) (simp_all add: Suc_le_eq)

lemma step_over_skip [simp]: "step_over sc = skip 1 sc"
  by (simp add: step_over_def skip_def)

lemma char_at_hd0: "in_source sc \<Longrightarrow> char_at sc (sc_current sc) = Some (hd0 (rest sc))"
  by (auto simp: char_at_def in_source_def rest_def Cons_nth_drop_Suc [symmetric])

lemma char_at_tl:
  "in_source sc \<Longrightarrow> hd0 (rest sc) \<noteq> 0 \<Longrightarrow> char_at sc (Suc (sc_current sc)) = Some (hd0 (tl (rest sc)))"
  using char_at_hd0 [of "skip 1 sc"] in_source_skip1 [of sc]
  by (simp add: char_at_def drop_Suc split: if_splits)

named_theorems scan

lemma peek_rest [scan]: "in_source sc \<Longrightarrow> peek sc = Some (hd0 (rest sc))"
  by (simp add: peek_def char_at_hd0)

lemma isAtEnd_rest [scan]: "in_source sc \<Longrightarrow> isAtEnd sc = Some (hd0 (rest sc) = 0)"
  by (simp add: isAtEnd_def char_at_hd0)

lemma advance_rest [scan]:
  "in_source sc \<Longrightarrow>
   advance sc = Some (if hd0 (rest sc) = 0 then (0, sc) else (hd0 (rest sc), skip 1 sc))"
  using char_at_hd0 [of sc] by (simp add: advance_def isAtEnd_rest char_at_def split: if_splits)

lemma peekNext_rest [scan]:
  "in_source sc \<Longrightarrow> peekNext sc = Some (if hd0 (rest sc) = 0 then 0 else hd0 (tl (rest sc)))"
  by (simp add: peekNext_def isAtEnd_rest char_at_tl)

lemma match_char_rest [scan]:
  "in_source sc \<Longrightarrow> c \<noteq> 0 \<Longrightarrow>
   match_char c sc = Some (if hd0 (rest sc) = c then (True, skip 1 sc) else (False, sc))"
  by (simp add: match_char_def isAtEnd_rest char_at_hd0)

lemmas in_source_intros = in_source_skip in_source_skip1

section \<open>The loops\<close>

text \<open>A loop over a class of characters that the NUL is not in stops at the first other one.\<close>

lemma takeWhile_step:
  "P (hd0 cs) \<Longrightarrow> \<not> P 0 \<Longrightarrow> length (takeWhile P cs) = Suc (length (takeWhile P (drop (Suc 0) cs)))"
  by (cases cs) (auto simp: drop_Suc)

lemma takeWhile_stop: "\<not> P (hd0 cs) \<Longrightarrow> takeWhile P cs = []"
  by (cases cs) auto

lemma class_not_nul [simp]: "\<not> isDigit 0" "\<not> isAlpha 0"
  by (simp_all add: isDigit_def isAlpha_def ch_def)

lemma identifier_loop_takeWhile:
  "in_source sc \<Longrightarrow>
   identifier_loop sc = Some (skip (length (takeWhile (\<lambda>c. isAlpha c \<or> isDigit c) (rest sc))) sc)"
proof (induction "length (rest sc)" arbitrary: sc rule: less_induct)
  case less
  let ?P = "\<lambda>c. isAlpha c \<or> isDigit c"
  show ?case
  proof (cases "?P (hd0 (rest sc))")
    case True
    then have nz: "hd0 (rest sc) \<noteq> 0" by (metis class_not_nul)
    then have "length (rest (skip 1 sc)) < length (rest sc)" by (auto dest!: hd0_nonzero)
    from less.hyps [OF this] show ?thesis
      using less.prems nz True takeWhile_step [of ?P "rest sc"] in_source_skip1 [OF less.prems nz]
      by (subst identifier_loop.simps) (simp add: scan)
  next
    case False
    then show ?thesis using less.prems takeWhile_stop [of ?P "rest sc"]
      by (subst identifier_loop.simps) (simp add: scan)
  qed
qed

lemma digits_loop_takeWhile:
  "in_source sc \<Longrightarrow> digits_loop sc = Some (skip (length (takeWhile isDigit (rest sc))) sc)"
proof (induction "length (rest sc)" arbitrary: sc rule: less_induct)
  case less
  show ?case
  proof (cases "isDigit (hd0 (rest sc))")
    case True
    then have nz: "hd0 (rest sc) \<noteq> 0" by (metis class_not_nul)
    then have "length (rest (skip 1 sc)) < length (rest sc)" by (auto dest!: hd0_nonzero)
    from less.hyps [OF this] show ?thesis
      using less.prems nz True takeWhile_step [of isDigit "rest sc"] in_source_skip1 [OF less.prems nz]
      by (subst digits_loop.simps) (simp add: scan)
  next
    case False
    then show ?thesis using less.prems takeWhile_stop [of isDigit "rest sc"]
      by (subst digits_loop.simps) (simp add: scan)
  qed
qed

lemma line_loop_takeWhile:
  "in_source sc \<Longrightarrow>
   line_loop sc = Some (skip (length (takeWhile (\<lambda>c. c \<noteq> 10 \<and> c \<noteq> 0) (rest sc))) sc)"
proof (induction "length (rest sc)" arbitrary: sc rule: less_induct)
  case less
  let ?P = "\<lambda>c. c \<noteq> 10 \<and> c \<noteq> 0"
  show ?case
  proof (cases "?P (hd0 (rest sc))")
    case True
    then have "length (rest (skip 1 sc)) < length (rest sc)" by (auto dest!: hd0_nonzero)
    from less.hyps [OF this] show ?thesis
      using less.prems True takeWhile_step [of ?P "rest sc"] in_source_skip1 [OF less.prems]
      by (subst line_loop.simps) (simp add: scan)
  next
    case False
    then show ?thesis using less.prems takeWhile_stop [of ?P "rest sc"]
      by (subst line_loop.simps) (auto simp: scan)
  qed
qed

section \<open>Stretches of the source\<close>

text \<open>
  \<open>moves cs sc sc'\<close>: the scanner has moved over \<open>cs\<close>, none of it a NUL, and counted its lines.
  A newline after a backslash is not counted.  \<open>consumes\<close>: and it has opened and closed no placeholder.
\<close>

definition newlines :: "bytes \<Rightarrow> int" where
  "newlines cs = int (count_list cs 10)"

definition moves :: "bytes \<Rightarrow> Scanner \<Rightarrow> Scanner \<Rightarrow> bool" where
  "moves cs sc sc' \<longleftrightarrow>
     in_source sc' \<and> sc_source sc' = sc_source sc \<and> sc_start sc' = sc_start sc \<and>
     rest sc = cs @ rest sc' \<and> sc_current sc' = sc_current sc + length cs \<and> 0 \<notin> set cs \<and>
     sc_line sc \<le> sc_line sc' \<and> sc_line sc' \<le> sc_line sc + newlines cs \<and>
     (ch CHR 0x5C \<notin> set cs \<longrightarrow> sc_line sc' = sc_line sc + newlines cs)"

definition consumes :: "bytes \<Rightarrow> Scanner \<Rightarrow> Scanner \<Rightarrow> bool" where
  "consumes cs sc sc' \<longleftrightarrow>
     moves cs sc sc' \<and> sc_interpDepth sc' = sc_interpDepth sc \<and> sc_interpBraces sc' = sc_interpBraces sc"

lemma newlines_simps [simp]:
  "newlines [] = 0" "newlines (c # cs) = (if c = 10 then 1 else 0) + newlines cs"
  "newlines (cs @ ds) = newlines cs + newlines ds" "0 \<le> newlines cs"
  by (simp_all add: newlines_def)

lemma newlines_none: "10 \<notin> set cs \<Longrightarrow> newlines cs = 0"
  by (simp add: newlines_def count_list_0_iff)

lemma consumes_refl [simp]: "consumes [] sc sc \<longleftrightarrow> in_source sc"
  by (simp add: consumes_def moves_def)

lemma consumes_in_source: "consumes cs sc sc' \<Longrightarrow> in_source sc'"
  by (simp add: consumes_def moves_def)

lemma consumes_rest: "consumes cs sc sc' \<Longrightarrow> rest sc = cs @ rest sc'"
  by (simp add: consumes_def moves_def)

lemma consumes_trans [trans]:
  "consumes a sc sc' \<Longrightarrow> consumes b sc' sc'' \<Longrightarrow> consumes (a @ b) sc sc''"
  by (auto simp: consumes_def moves_def)

lemma consumes_skip:
  assumes "in_source sc" "rest sc = cs @ tail" "0 \<notin> set cs" "10 \<notin> set cs"
  shows "consumes cs sc (skip (length cs) sc)"
  using assms in_source_skip [of sc "length cs"] by (simp add: consumes_def moves_def newlines_none)

lemma consumes_takeWhile:
  assumes "in_source sc" "\<not> P 0" "\<not> P 10"
  shows "consumes (takeWhile P (rest sc)) sc (skip (length (takeWhile P (rest sc))) sc)"
  using assms takeWhile_dropWhile_id [of P "rest sc"]
  by (intro consumes_skip [where tail = "dropWhile P (rest sc)"]) (auto dest: set_takeWhileD)

lemma hd0_Cons: "hd0 cs \<noteq> 0 \<Longrightarrow> cs = hd0 cs # tl cs"
  by (cases cs) auto

lemma consumes_skip1:
  "in_source sc \<Longrightarrow> hd0 (rest sc) \<noteq> 0 \<Longrightarrow> hd0 (rest sc) \<noteq> 10 \<Longrightarrow>
   consumes [hd0 (rest sc)] sc (skip (Suc 0) sc)"
  using consumes_skip [of sc "[hd0 (rest sc)]" "tl (rest sc)"] hd0_Cons [of "rest sc"] by simp

lemma consumes_newline:
  "in_source sc \<Longrightarrow> hd0 (rest sc) = 10 \<Longrightarrow>
   consumes [10] sc (skip (Suc 0) (sc\<lparr>sc_line := sc_line sc + 1\<rparr>))"
  using hd0_Cons [of "rest sc"] in_source_skip1 [of sc]
  by (cases "rest sc") (auto simp: consumes_def moves_def in_source_def)

lemma consumes_shorter: "consumes cs sc sc' \<Longrightarrow> cs \<noteq> [] \<Longrightarrow> length (rest sc') < length (rest sc)"
  by (simp add: consumes_def moves_def)

lemma ch_consts [simp]:
  "ch CHR 0x5C \<noteq> 0" "ch CHR 0x22 \<noteq> 0" "ch CHR ''{'' \<noteq> 0" "ch CHR 0x5C \<noteq> 10" "ch CHR ''{'' \<noteq> 10"
  "ch CHR 0x22 \<noteq> 10" "ch CHR '' '' \<noteq> 0" "ch CHR '' '' \<noteq> 10" "ch CHR ''/'' \<noteq> 0" "ch CHR ''#'' \<noteq> 0"
  "ch CHR ''/'' \<noteq> 10" "ch CHR ''#'' \<noteq> 10"
  by (simp_all add: ch_def)

lemma string_char_consumes:
  assumes "in_source sc" "hd0 (rest sc) \<noteq> 0"
  obtains sc' cs where "string_char sc = Some sc'" "consumes cs sc sc'" "cs \<noteq> []"
proof -
  let ?c = "hd0 (rest sc)"
  consider (newline) "?c = 10" | (escape) "?c = ch CHR 0x5C" "hd0 (tl (rest sc)) \<noteq> 0"
    | (plain) "?c \<noteq> 10" "?c = ch CHR 0x5C \<Longrightarrow> hd0 (tl (rest sc)) = 0" by blast
  then show ?thesis
  proof cases
    case newline
    with assms have "string_char sc = Some (skip (Suc 0) (sc\<lparr>sc_line := sc_line sc + 1\<rparr>))"
      by (simp add: string_char_def scan)
    then show ?thesis using consumes_newline [OF assms(1) newline] that by simp
  next
    case escape
    let ?sc = "skip (Suc 0) sc"
    have in1: "in_source ?sc" and c1: "consumes [?c] sc ?sc"
      using assms escape consumes_skip1 [OF assms] by (auto intro: in_source_skip1)
    have r1: "hd0 (rest ?sc) \<noteq> 0" using escape by (simp add: drop_Suc)
    have run: "string_char sc = Some (skip (Suc 0) ?sc)"
      using assms escape in1 by (simp add: string_char_def scan drop_Suc)
    have c2: "consumes [?c, hd0 (rest ?sc)] sc (skip (Suc 0) ?sc)"
      using hd0_Cons [OF assms(2)] hd0_Cons [OF r1] in_source_skip1 [OF in1 r1] assms(2) r1 escape
      by (auto simp: consumes_def moves_def drop_Suc)
    show ?thesis by (rule that [OF run c2]) simp
  next
    case plain
    with assms have "string_char sc = Some (skip (Suc 0) sc)"
      by (auto simp: string_char_def scan)
    then show ?thesis using consumes_skip1 [OF assms plain(1)] that by simp
  qed
qed

lemma string_loop_consumes:
  "in_source sc \<Longrightarrow>
   \<exists>sc' cs. string_loop sc = Some sc' \<and> consumes cs sc sc' \<and> hd0 (rest sc') \<in> {0, ch CHR 0x22}"
proof (induction "length (rest sc)" arbitrary: sc rule: less_induct)
  case less
  show ?case
  proof (cases "hd0 (rest sc) \<in> {0, ch CHR 0x22}")
    case True
    then show ?thesis using less.prems
      by (subst string_loop.simps) (auto simp: scan intro: exI [of _ "[]"])
  next
    case False
    then obtain sc1 a where a: "string_char sc = Some sc1" "consumes a sc sc1" "a \<noteq> []"
      using string_char_consumes [OF less.prems] by auto
    from less.hyps [OF consumes_shorter [OF a(2,3)] consumes_in_source [OF a(2)]]
    obtain sc' b where b: "string_loop sc1 = Some sc'" "consumes b sc1 sc'"
      "hd0 (rest sc') \<in> {0, ch CHR 0x22}" by blast
    have "string_loop sc = Some sc'"
      using False less.prems a b by (subst string_loop.simps) (simp add: scan)
    then show ?thesis using consumes_trans [OF a(2) b(2)] b(3) by blast
  qed
qed

lemma interp_loop_consumes:
  "in_source sc \<Longrightarrow>
   \<exists>sc' cs. interp_loop sc = Some sc' \<and> consumes cs sc sc' \<and>
     hd0 (rest sc') \<in> {0, ch CHR 0x22, ch CHR ''{''}"
proof (induction "length (rest sc)" arbitrary: sc rule: less_induct)
  case less
  let ?c = "hd0 (rest sc)"
  consider (stop) "?c \<in> {0, ch CHR 0x22}"
    | (placeholder) "?c = ch CHR ''{''" "hd0 (tl (rest sc)) \<noteq> ch CHR ''{''"
    | (more) "?c \<notin> {0, ch CHR 0x22}" "?c = ch CHR ''{'' \<Longrightarrow> hd0 (tl (rest sc)) = ch CHR ''{''"
    by blast
  then show ?case
  proof cases
    case stop
    then show ?thesis using less.prems
      by (subst interp_loop.simps) (auto simp: scan intro: exI [of _ "[]"])
  next
    case placeholder
    then show ?thesis using less.prems
      by (subst interp_loop.simps) (auto simp: scan intro: exI [of _ "[]"])
  next
    case more
    have "\<exists>sc1 a. consumes a sc sc1 \<and> a \<noteq> [] \<and> interp_loop sc = interp_loop sc1"
    proof (cases "?c = ch CHR ''{''")
      case True
      let ?sc = "skip (Suc 0) sc"
      have in1: "in_source ?sc" and c1: "consumes [?c] sc ?sc"
        using less.prems True consumes_skip1 [OF less.prems] by (auto intro: in_source_skip1)
      have r1: "hd0 (rest ?sc) \<noteq> 0" using more True by (simp add: drop_Suc)
      obtain sc1 a where a: "string_char ?sc = Some sc1" "consumes a ?sc sc1" "a \<noteq> []"
        using string_char_consumes [OF in1 r1] by auto
      have "interp_loop sc = interp_loop sc1"
        using True more less.prems in1 a by (subst interp_loop.simps) (simp add: scan)
      then show ?thesis using consumes_trans [OF c1 a(2)] by blast
    next
      case False
      obtain sc1 a where a: "string_char sc = Some sc1" "consumes a sc sc1" "a \<noteq> []"
        using string_char_consumes [OF less.prems] more by auto
      have "interp_loop sc = interp_loop sc1"
        using False more less.prems a by (subst interp_loop.simps) (simp add: scan)
      then show ?thesis using a by blast
    qed
    then obtain sc1 a where a: "consumes a sc sc1" "a \<noteq> []" "interp_loop sc = interp_loop sc1" by blast
    from less.hyps [OF consumes_shorter [OF a(1,2)] consumes_in_source [OF a(1)]]
    show ?thesis unfolding a(3) using consumes_trans [OF a(1)] by blast
  qed
qed

section \<open>Blanks\<close>

text \<open>White space, and comments, each up to the end of its line.\<close>

inductive blank :: "bytes \<Rightarrow> bool" where
  blank_end: "blank []"
| blank_space: "c \<in> {ch CHR '' '', 13, 9, 10} \<Longrightarrow> blank g \<Longrightarrow> blank (c # g)"
| blank_comment: "p \<in> {ascii ''//'', ascii ''#!''} \<Longrightarrow> 10 \<notin> set body \<Longrightarrow>
    g = [] \<or> hd g = 10 \<Longrightarrow> blank g \<Longrightarrow> blank (p @ body @ g)"

lemma takeWhile_stops: "hd0 (dropWhile P cs) = 0 \<or> \<not> P (hd0 (dropWhile P cs))"
  by (induction cs) auto

lemma comment_consumes:
  assumes "in_source sc" "rest sc = p @ tail" "p \<in> {ascii ''//'', ascii ''#!''}"
  shows "\<exists>sc' body. line_loop sc = Some sc' \<and> consumes (p @ body) sc sc' \<and> 10 \<notin> set body \<and>
    hd0 (rest sc') \<in> {0, 10}"
proof -
  let ?P = "\<lambda>c :: u8. c \<noteq> 10 \<and> c \<noteq> 0"
  let ?n = "length (takeWhile ?P (rest sc))"
  have p: "\<forall>c\<in>set p. ?P c" using assms(3) by (auto simp: ascii_def ch_def)
  then have t: "takeWhile ?P (rest sc) = p @ takeWhile ?P tail"
    unfolding assms(2) by (simp add: takeWhile_append2)
  have "rest (skip ?n sc) = dropWhile ?P (rest sc)"
    by (simp add: dropWhile_eq_drop)
  then have "hd0 (rest (skip ?n sc)) \<in> {0, 10}"
    using takeWhile_stops [of ?P "rest sc"] by auto
  moreover have "consumes (takeWhile ?P (rest sc)) sc (skip ?n sc)"
    by (rule consumes_takeWhile) (use assms(1) in auto)
  moreover have "10 \<notin> set (takeWhile ?P tail)" by (auto dest: set_takeWhileD)
  ultimately show ?thesis using line_loop_takeWhile [OF assms(1)] unfolding t by blast
qed

lemma skipWhitespace_consumes:
  "in_source sc \<Longrightarrow>
   \<exists>sc' g. skipWhitespace sc = Some sc' \<and> consumes g sc sc' \<and> blank g \<and> hd0 (rest sc') \<noteq> 10"
proof (induction "length (rest sc)" arbitrary: sc rule: less_induct)
  case less
  let ?c = "hd0 (rest sc)" and ?d = "hd0 (tl (rest sc))"
  have go: ?case if a: "consumes a sc sc1" "a \<noteq> []" "skipWhitespace sc = skipWhitespace sc1"
    "\<And>g sc'. blank g \<Longrightarrow> rest sc1 = g @ rest sc' \<Longrightarrow> blank (a @ g)" for a sc1
  proof -
    from less.hyps [OF consumes_shorter [OF a(1,2)] consumes_in_source [OF a(1)]]
    obtain sc' g where g: "skipWhitespace sc1 = Some sc'" "consumes g sc1 sc'" "blank g"
      "hd0 (rest sc') \<noteq> 10" by blast
    show ?thesis unfolding a(3)
      using g a(4) [OF g(3) consumes_rest [OF g(2)]] consumes_trans [OF a(1) g(2)] by blast
  qed
  have comment: ?case if c: "rest sc = p @ tail" "p \<in> {ascii ''//'', ascii ''#!''}"
    "skipWhitespace sc = Option.bind (line_loop sc) skipWhitespace" for p tail
  proof -
    obtain sc1 body where b: "line_loop sc = Some sc1" "consumes (p @ body) sc sc1"
      "10 \<notin> set body" "hd0 (rest sc1) \<in> {0, 10}"
      using comment_consumes [OF less.prems c(1,2)] by blast
    have p: "p @ body \<noteq> []" using c(2) by (auto simp: ascii_def)
    show ?thesis
    proof (rule go [OF b(2) p])
      show "skipWhitespace sc = skipWhitespace sc1" by (simp add: c(3) b(1))
      fix g sc' assume g: "blank g" "rest sc1 = g @ rest sc'"
      show "blank ((p @ body) @ g)"
      proof (cases "g = [] \<or> hd g = 10")
        case True
        then show ?thesis using blank_comment [OF c(2) b(3) True g(1)] by simp
      next
        case False
        then have "hd0 (rest sc1) = 0" "g \<noteq> []" using b(4) g(2) by (cases g; auto)+
        with g have False by (cases rule: blank.cases) (auto simp: ascii_def ch_def)
        then show ?thesis ..
      qed
    qed
  qed
  consider (space) "?c = ch CHR '' '' \<or> ?c = 13 \<or> ?c = 9" | (newline) "?c = 10"
    | (shebang) "?c = ch CHR ''#''" "?d = ch CHR ''!''" | (slashes) "?c = ch CHR ''/''" "?d = ch CHR ''/''"
    | (stop) "?c \<noteq> ch CHR '' ''" "?c \<noteq> 13" "?c \<noteq> 9" "?c \<noteq> 10"
        "?c = ch CHR ''#'' \<Longrightarrow> ?d \<noteq> ch CHR ''!''" "?c = ch CHR ''/'' \<Longrightarrow> ?d \<noteq> ch CHR ''/''"
    by blast
  then show ?case
  proof cases
    case space
    then have c: "?c \<noteq> 0" "?c \<noteq> 10" by (auto simp: ch_def)
    show ?thesis
    proof (rule go [OF consumes_skip1 [OF less.prems c]])
      show "skipWhitespace sc = skipWhitespace (skip (Suc 0) sc)"
        using space less.prems c by (subst skipWhitespace.simps) (simp add: scan)
    qed (use space in \<open>auto intro: blank_space\<close>)
  next
    case newline
    show ?thesis
    proof (rule go [OF consumes_newline [OF less.prems newline]])
      show "skipWhitespace sc = skipWhitespace (skip (Suc 0) (sc\<lparr>sc_line := sc_line sc + 1\<rparr>))"
        using newline less.prems by (subst skipWhitespace.simps) (simp add: scan ch_def)
    qed (use newline in \<open>auto intro: blank_space\<close>)
  next
    case shebang
    then have start: "rest sc = ascii ''#!'' @ tl (tl (rest sc))"
      by (cases "rest sc"; cases "tl (rest sc)") (auto simp: ascii_def ch_def)
    have run: "skipWhitespace sc = Option.bind (line_loop sc) skipWhitespace"
      using shebang less.prems by (subst skipWhitespace.simps) (simp add: scan ch_def)
    show ?thesis by (rule comment [OF start _ run]) simp
  next
    case slashes
    then have start: "rest sc = ascii ''//'' @ tl (tl (rest sc))"
      by (cases "rest sc"; cases "tl (rest sc)") (auto simp: ascii_def ch_def)
    have run: "skipWhitespace sc = Option.bind (line_loop sc) skipWhitespace"
      using slashes less.prems by (subst skipWhitespace.simps) (simp add: scan ch_def)
    show ?thesis by (rule comment [OF start _ run]) simp
  next
    case stop
    then have "skipWhitespace sc = Some sc"
      using less.prems by (subst skipWhitespace.simps) (simp add: scan)
    then show ?thesis using less.prems stop(4) blank_end by (auto intro: exI [of _ "[]"])
  qed
qed

end
