(* ===== verification/Lexing.thy ===== *)
theory Lexing
  imports Scan_Loops
begin

text \<open>
  What the scanner does: it never reads outside the source and always comes to the end, the tokens
  and the blanks between them are the whole source, every token spells what its type says, and lines
  are counted, but for the newlines that a backslash hides.
\<close>

section \<open>How tokens are spelled\<close>

definition keyword_table :: "(string \<times> TokenType) list" where
  "keyword_table =
     [(''and'', TOKEN_AND), (''as'', TOKEN_AS), (''break'', TOKEN_BREAK), (''continue'', TOKEN_CONTINUE),
      (''else'', TOKEN_ELSE), (''false'', TOKEN_FALSE), (''for'', TOKEN_FOR), (''fun'', TOKEN_FUN),
      (''if'', TOKEN_IF), (''impl'', TOKEN_IMPL), (''let'', TOKEN_LET), (''nil'', TOKEN_NIL),
      (''or'', TOKEN_OR), (''pub'', TOKEN_PUB), (''return'', TOKEN_RETURN), (''self'', TOKEN_SELF),
      (''struct'', TOKEN_STRUCT), (''trait'', TOKEN_TRAIT), (''true'', TOKEN_TRUE),
      (''type'', TOKEN_TYPE), (''var'', TOKEN_VAR), (''while'', TOKEN_WHILE)]"

definition symbol_table :: "(string \<times> TokenType) list" where
  "symbol_table =
     [(''('', TOKEN_LEFT_PAREN), ('')'', TOKEN_RIGHT_PAREN), (''{'', TOKEN_LEFT_BRACE),
      (''}'', TOKEN_RIGHT_BRACE), (''['', TOKEN_LEFT_BRACKET), ('']'', TOKEN_RIGHT_BRACKET),
      ('';'', TOKEN_SEMICOLON), ('','', TOKEN_COMMA), ('':'', TOKEN_COLON), (''.'', TOKEN_DOT),
      (''-'', TOKEN_MINUS), (''+'', TOKEN_PLUS), (''/'', TOKEN_SLASH), (''*'', TOKEN_STAR),
      (''%'', TOKEN_MODULO), (''??'', TOKEN_QUESTION_QUESTION), (''&&'', TOKEN_AND),
      (''||'', TOKEN_OR), (''!'', TOKEN_BANG), (''!='', TOKEN_BANG_EQUAL), (''='', TOKEN_EQUAL),
      (''=='', TOKEN_EQUAL_EQUAL), (''=>'', TOKEN_FAT_ARROW), (''<'', TOKEN_LESS),
      (''<='', TOKEN_LESS_EQUAL), (''>'', TOKEN_GREATER), (''>='', TOKEN_GREATER_EQUAL)]"

definition word_char :: "u8 \<Rightarrow> bool" where
  "word_char c \<longleftrightarrow> isAlpha c \<or> isDigit c"

text \<open>A name, with an \<open>@\<close> before it if it is a native's.\<close>

definition is_word :: "bytes \<Rightarrow> bool" where
  "is_word cs \<longleftrightarrow>
     (case cs of [] \<Rightarrow> False
      | c # ds \<Rightarrow> (isAlpha c \<or> c = ch CHR ''@'' \<and> isAlpha (hd0 ds)) \<and> (\<forall>d\<in>set ds. word_char d))"

definition is_number :: "bytes \<Rightarrow> bool" where
  "is_number cs \<longleftrightarrow>
     (\<exists>whole part. whole \<noteq> [] \<and> (\<forall>d\<in>set whole. isDigit d) \<and> (\<forall>d\<in>set part. isDigit d) \<and>
        (cs = whole \<or> part \<noteq> [] \<and> cs = whole @ ch CHR ''.'' # part))"

text \<open>The name of a number kind, its letter small or capital.\<close>

definition is_suffix :: "bytes \<Rightarrow> bool" where
  "is_suffix cs \<longleftrightarrow>
     (\<exists>kind. cs \<noteq> [] \<and> lower_first 0 (hd cs) # tl cs = ascii (ki_name (numberKindInfo kind)))"

definition interp_ends :: "(TokenType \<times> bytes \<times> bytes) list" where
  "interp_ends =
     [(TOKEN_INTERP_STRING, [ch CHR ''$'', ch CHR 0x22], [ch CHR 0x22]),
      (TOKEN_INTERP_START, [ch CHR ''$'', ch CHR 0x22], [ch CHR ''{'']),
      (TOKEN_INTERP_MIDDLE, [ch CHR ''}''], [ch CHR ''{'']),
      (TOKEN_INTERP_END, [ch CHR ''}''], [ch CHR 0x22])]"

inductive spells :: "TokenType \<Rightarrow> bytes \<Rightarrow> bool" where
  spells_identifier: "is_word cs \<Longrightarrow> cs \<notin> ascii ` fst ` set keyword_table \<Longrightarrow> spells TOKEN_IDENTIFIER cs"
| spells_keyword: "(s, type) \<in> set keyword_table \<Longrightarrow> spells type (ascii s)"
| spells_symbol: "(s, type) \<in> set symbol_table \<Longrightarrow> spells type (ascii s)"
| spells_number: "is_number cs \<Longrightarrow> spells TOKEN_NUMBER cs"
| spells_suffixed: "is_number cs \<Longrightarrow> is_suffix ds \<Longrightarrow> spells TOKEN_NUMBER_SUFFIXED (cs @ ds)"
| spells_string: "spells TOKEN_STRING (ch CHR 0x22 # body @ [ch CHR 0x22])"
| spells_interp: "(type, before, after) \<in> set interp_ends \<Longrightarrow> spells type (before @ body @ after)"
| spells_eof: "spells TOKEN_EOF []"

subsection \<open>Keywords\<close>

lemma take_length_eq: "length xs = n \<Longrightarrow> take n xs = xs"
  by simp

lemma checkKeyword_ascii:
  "length t = n \<Longrightarrow>
   checkKeyword (ascii s) k n t type =
     (if length s = k + n \<and> drop k s = t then type else TOKEN_IDENTIFIER)"
  by (auto simp: checkKeyword_def ascii_def drop_map inj_map_eq_map [OF ch_inject])

lemma length_ascii [simp]: "length (ascii s) = length s"
  by (simp add: ascii_def)

lemma nth_ascii: "i < length s \<Longrightarrow> ascii s ! i = ch (s ! i)"
  by (simp add: ascii_def)

lemma checkKeyword_hit:
  "checkKeyword (ascii s) k n t type \<noteq> TOKEN_IDENTIFIER \<Longrightarrow> length t = n \<Longrightarrow> drop k s = t"
  by (simp add: checkKeyword_ascii split: if_splits)

lemma identifierType_rows:
  "list_all (\<lambda>(s, type). identifierType (ascii s) = type) keyword_table"
  by code_simp

lemma identifierType_table:
  "(s, type) \<in> set keyword_table \<Longrightarrow> identifierType (ascii s) = type"
  using identifierType_rows by (auto simp: list_all_iff)

lemma identifierType_hit:
  assumes "identifierType (ascii s) \<noteq> TOKEN_IDENTIFIER" "s \<noteq> []"
  shows "s \<in> fst ` set keyword_table"
proof -
  consider (1) a where "s = [a]" | (2) a b where "s = [a, b]" | (3) a b c t where "s = a # b # c # t"
    using assms(2) by (metis list.exhaust)
  then show ?thesis
  proof cases
    case 1
    then show ?thesis using assms(1)
      by (simp add: identifierType_def length_ascii nth_ascii checkKeyword_ascii split: if_splits)
  next
    case 2
    then show ?thesis using assms(1)
      by (auto simp: identifierType_def length_ascii nth_ascii checkKeyword_ascii keyword_table_def
          split: if_split_asm)
  next
    case 3
    then show ?thesis using assms(1)
      by (auto simp: identifierType_def length_ascii nth_ascii checkKeyword_ascii keyword_table_def
          split: if_split_asm)
  qed
qed

text \<open>The nested switches find a keyword exactly when the whole word is one.\<close>

lemma identifierType_keywords:
  assumes "s \<noteq> []"
  shows "identifierType (ascii s) =
    (case map_of keyword_table s of Some type \<Rightarrow> type | None \<Rightarrow> TOKEN_IDENTIFIER)"
proof (cases "map_of keyword_table s")
  case None
  then have "s \<notin> fst ` set keyword_table" by (simp add: map_of_eq_None_iff)
  then show ?thesis using identifierType_hit [OF _ assms] None by auto
next
  case (Some type)
  then show ?thesis using identifierType_table [OF map_of_SomeD [OF Some]] by simp
qed

section \<open>One token\<close>

subsection \<open>Numbers\<close>

definition fraction :: "bytes \<Rightarrow> bytes" where
  "fraction cs =
     (if hd0 cs = ch CHR ''.'' \<and> isDigit (hd0 (tl cs)) then hd0 cs # takeWhile isDigit (tl cs) else [])"

lemma digit_dot [simp]: "\<not> isDigit (ch CHR ''.'')" "ch CHR ''.'' \<noteq> 0" "ch CHR ''.'' \<noteq> 10" "\<not> isDigit 10" "\<not> isAlpha 10"
  by (simp_all add: isDigit_def isAlpha_def ch_def)

lemma scan_fraction_skip:
  "in_source sc \<Longrightarrow> scan_fraction sc = Some (skip (length (fraction (rest sc))) sc)"
  using digits_loop_takeWhile [of "skip 1 sc"] in_source_skip1 [of sc]
  by (auto simp: scan_fraction_def fraction_def scan drop_Suc)

lemma fraction_consumes:
  assumes "in_source sc"
  shows "consumes (fraction (rest sc)) sc (skip (length (fraction (rest sc))) sc)"
proof (cases "hd0 (rest sc) = ch CHR ''.'' \<and> isDigit (hd0 (tl (rest sc)))")
  case True
  let ?ds = "takeWhile isDigit (tl (rest sc))"
  have nz: "hd0 (rest sc) \<noteq> 0" using True by simp
  have "rest sc = (hd0 (rest sc) # ?ds) @ dropWhile isDigit (tl (rest sc))"
    using hd0_Cons [OF nz] by simp
  moreover have "0 \<notin> set ?ds" "10 \<notin> set ?ds" by (auto dest: set_takeWhileD)
  ultimately have "consumes (hd0 (rest sc) # ?ds) sc (skip (length (hd0 (rest sc) # ?ds)) sc)"
    using True by (intro consumes_skip [OF assms, of _ "dropWhile isDigit (tl (rest sc))"]) auto
  then show ?thesis using True by (simp add: fraction_def)
next
  case False
  then show ?thesis using assms by (auto simp: fraction_def)
qed

fun suffix_prefix :: "nat \<Rightarrow> bytes \<Rightarrow> bytes \<Rightarrow> bool" where
  "suffix_prefix i [] cs = True"
| "suffix_prefix i (e # es) cs = (lower_first i (hd0 cs) = e \<and> suffix_prefix (i + 1) es (tl cs))"

fun suffix_find :: "NumberKind list \<Rightarrow> bytes \<Rightarrow> nat" where
  "suffix_find [] cs = 0"
| "suffix_find (kind # kinds) cs =
     (if suffix_prefix 0 (ascii (ki_name (numberKindInfo kind))) cs
      then length (ascii (ki_name (numberKindInfo kind))) else suffix_find kinds cs)"

lemma lower_first_nul [simp]: "lower_first i 0 = 0" "lower_first (Suc i) c = c"
  by (simp_all add: lower_first_def ch_def)

lemma suffix_matches_prefix:
  "in_source (skip i sc) \<Longrightarrow> 0 \<notin> set name \<Longrightarrow>
   suffix_matches sc i name = Some (suffix_prefix i name (drop i (rest sc)))"
proof (induction name arbitrary: i)
  case (Cons e name)
  have at: "char_at sc (sc_current sc + i) = Some (hd0 (drop i (rest sc)))"
    using char_at_hd0 [OF Cons.prems(1)] by (simp add: char_at_def split: if_splits)
  show ?case
  proof (cases "lower_first i (hd0 (drop i (rest sc))) = e")
    case True
    then have "hd0 (rest (skip i sc)) \<noteq> 0" using Cons.prems(2) by auto
    from in_source_skip1 [OF Cons.prems(1) this]
    show ?thesis using Cons.IH [of "Suc i"] Cons.prems True
      by (simp add: at drop_Suc tl_drop)
  qed (simp add: at)
qed simp

lemma kind_names_nul: "0 \<notin> set (ascii (ki_name (numberKindInfo kind)))"
  by (cases kind) (simp_all add: ascii_def ch_def)

lemma suffix_loop_find:
  "in_source sc \<Longrightarrow> suffix_loop sc kinds = Some (suffix_find kinds (rest sc))"
  using suffix_matches_prefix [of 0 sc] by (induction kinds) (simp_all add: kind_names_nul Let_def)

lemma suffix_prefix_take:
  "suffix_prefix (Suc i) name cs \<Longrightarrow> 0 \<notin> set name \<Longrightarrow> take (length name) cs = name"
proof (induction name arbitrary: i cs)
  case (Cons e name)
  then have "hd0 cs \<noteq> 0" by auto
  then show ?case using Cons by (cases cs) auto
qed simp

lemma suffix_prefix_is_suffix:
  assumes "suffix_prefix 0 name cs" "name = ascii (ki_name (numberKindInfo kind))"
  shows "is_suffix (take (length name) cs) \<and> length name \<le> length cs"
proof -
  have nz: "0 \<notin> set name" using kind_names_nul assms(2) by simp
  obtain e es where e: "name = e # es" using assms(2) by (cases kind) (simp_all add: ascii_def)
  have h: "lower_first 0 (hd0 cs) = e" "suffix_prefix 1 es (tl cs)" using assms(1) e by simp_all
  then obtain c ds where c: "cs = c # ds" using nz e by (cases cs) auto
  have "take (length es) ds = es" using suffix_prefix_take [of 0 es ds] h nz e c by simp
  moreover from this have "length es \<le> length ds" by (metis length_take min.cobounded1 min.commute)
  ultimately show ?thesis using h e c assms(2) unfolding is_suffix_def by (auto intro: sym)
qed

lemma suffix_find_is_suffix:
  "0 < suffix_find kinds cs \<Longrightarrow>
   is_suffix (take (suffix_find kinds cs) cs) \<and> suffix_find kinds cs \<le> length cs"
  by (induction kinds) (auto simp: suffix_prefix_is_suffix split: if_splits dest: suffix_prefix_is_suffix [OF _ refl])

lemma suffix_no_nul: "is_suffix cs \<Longrightarrow> 0 \<notin> set cs \<and> 10 \<notin> set cs"
proof -
  assume "is_suffix cs"
  then obtain kind where k: "cs \<noteq> []" "lower_first 0 (hd cs) # tl cs = ascii (ki_name (numberKindInfo kind))"
    unfolding is_suffix_def by blast
  obtain c ds where cs: "cs = c # ds" using k(1) by (cases cs) auto
  have "lower_first 0 0 = 0" "lower_first 0 10 = 10" by (simp_all add: lower_first_def ch_def)
  then show ?thesis using k(2) cs by (cases kind) (auto simp: ascii_def ch_def)
qed

lemma advance_times_skip:
  "in_source sc \<Longrightarrow> n \<le> length (rest sc) \<Longrightarrow> 0 \<notin> set (take n (rest sc)) \<Longrightarrow>
   advance_times n sc = Some (skip n sc)"
proof (induction n arbitrary: sc)
  case (Suc n)
  then obtain c cs where r: "rest sc = c # cs" "c \<noteq> 0" by (cases "rest sc") auto
  then show ?case
    using Suc.IH [of "skip 1 sc"] Suc.prems in_source_skip1 [of sc] by (simp add: scan)
qed simp

lemma lexeme_consumes:
  "consumes cs sc sc' \<Longrightarrow> sc_start sc = sc_current sc \<Longrightarrow> lexeme sc' = cs"
  by (simp add: consumes_def moves_def lexeme_def rest_def)

lemma suffix_consumes:
  assumes "in_source sc" "0 < suffix_find kinds (rest sc)"
  shows "consumes (take (suffix_find kinds (rest sc)) (rest sc)) sc (skip (suffix_find kinds (rest sc)) sc)"
    "advance_times (suffix_find kinds (rest sc)) sc = Some (skip (suffix_find kinds (rest sc)) sc)"
    "is_suffix (take (suffix_find kinds (rest sc)) (rest sc))"
proof -
  let ?n = "suffix_find kinds (rest sc)"
  have s: "is_suffix (take ?n (rest sc))" and n: "?n \<le> length (rest sc)"
    using suffix_find_is_suffix [OF assms(2)] by simp_all
  note z = suffix_no_nul [OF s]
  have "consumes (take ?n (rest sc)) sc (skip (length (take ?n (rest sc))) sc)"
    using z by (intro consumes_skip [OF assms(1), of _ "drop ?n (rest sc)"]) auto
  then show "consumes (take ?n (rest sc)) sc (skip ?n sc)" using n by simp
  show "advance_times ?n sc = Some (skip ?n sc)" using advance_times_skip [OF assms(1) n] z by simp
qed (use suffix_find_is_suffix [OF assms(2)] in simp)

definition number_part :: "bytes \<Rightarrow> bytes" where
  "number_part cs = takeWhile isDigit cs @ fraction (dropWhile isDigit cs)"

lemma number_part_is_number: "isDigit d \<Longrightarrow> is_number (d # number_part cs)"
proof -
  assume d: "isDigit d"
  let ?f = "dropWhile isDigit cs"
  have w: "\<forall>x\<in>set (d # takeWhile isDigit cs). isDigit x" using d by (auto dest: set_takeWhileD)
  show ?thesis
  proof (cases "hd0 ?f = ch CHR ''.'' \<and> isDigit (hd0 (tl ?f))")
    case True
    then have p: "takeWhile isDigit (tl ?f) \<noteq> []" by (cases "tl ?f") auto
    have "\<forall>x\<in>set (takeWhile isDigit (tl ?f)). isDigit x" by (auto dest: set_takeWhileD)
    then show ?thesis using w p True unfolding is_number_def number_part_def fraction_def
      by (intro exI [of _ "d # takeWhile isDigit cs"] exI [of _ "takeWhile isDigit (tl ?f)"]) auto
  next
    case False
    then have "fraction ?f = []" by (auto simp: fraction_def)
    then show ?thesis using w unfolding is_number_def number_part_def
      by (intro exI [of _ "d # takeWhile isDigit cs"] exI [of _ "[]"]) auto
  qed
qed

lemma number_consumes:
  assumes "in_source sc"
  shows "consumes (number_part (rest sc)) sc (skip (length (number_part (rest sc))) sc)"
    "digits_loop sc \<bind> scan_fraction = Some (skip (length (number_part (rest sc))) sc)"
proof -
  let ?n = "length (takeWhile isDigit (rest sc))"
  have a: "consumes (takeWhile isDigit (rest sc)) sc (skip ?n sc)"
    using assms by (intro consumes_takeWhile) auto
  have r: "rest (skip ?n sc) = dropWhile isDigit (rest sc)"
    by (simp add: dropWhile_eq_drop)
  from consumes_trans [OF a fraction_consumes [OF consumes_in_source [OF a]]]
  show "consumes (number_part (rest sc)) sc (skip (length (number_part (rest sc))) sc)"
    by (simp add: number_part_def flip: r)
  show "digits_loop sc \<bind> scan_fraction = Some (skip (length (number_part (rest sc))) sc)"
    using scan_fraction_skip [OF consumes_in_source [OF a]] r
    by (simp add: digits_loop_takeWhile [OF assms] number_part_def)
qed

lemma scanNumber_split:
  "scanNumber sc = do {
     sc \<leftarrow> digits_loop sc \<bind> scan_fraction;
     suffixLength \<leftarrow> numberSuffixLength sc;
     if suffixLength > 0 then do {
       sc \<leftarrow> advance_times suffixLength sc;
       Some (makeToken sc TOKEN_NUMBER_SUFFIXED, sc)
     }
     else Some (makeToken sc TOKEN_NUMBER, sc)
   }"
  by (simp add: scanNumber_def Option.bind_assoc)

subsection \<open>Every branch of the scanner\<close>

text \<open>The counters of the open placeholders have all been set.\<close>

definition braces_ok :: "Scanner \<Rightarrow> bool" where
  "braces_ok sc \<longleftrightarrow>
     length (sc_interpBraces sc) = MAX_INTERP_DEPTH \<and> sc_interpDepth sc \<le> MAX_INTERP_DEPTH \<and>
     (\<forall>i < sc_interpDepth sc. sc_interpBraces sc ! i \<noteq> None)"

text \<open>
  \<open>token_at sc l t sc'\<close>: standing at the first character of a token, the scanner has read the token
  \<open>t\<close> over the characters \<open>l\<close>.
\<close>

definition token_at :: "Scanner \<Rightarrow> bytes \<Rightarrow> Token \<Rightarrow> Scanner \<Rightarrow> bool" where
  "token_at sc l t sc' \<longleftrightarrow>
     moves l sc sc' \<and> braces_ok sc' \<and> tok_line t = sc_line sc' \<and>
     (tok_type t \<noteq> TOKEN_ERROR \<longrightarrow> tok_text t = l \<and> spells (tok_type t) l) \<and>
     (tok_type t = TOKEN_EOF \<longleftrightarrow> l = []) \<and> (l = [] \<longrightarrow> hd0 (rest sc') = 0)"

lemma consumes_moves: "consumes cs sc sc' \<Longrightarrow> moves cs sc sc'"
  by (simp add: consumes_def)

lemma moves_trans: "moves a sc sc' \<Longrightarrow> moves b sc' sc'' \<Longrightarrow> moves (a @ b) sc sc''"
  by (auto simp: moves_def)

lemma moves_in_source: "moves cs sc sc' \<Longrightarrow> in_source sc'"
  by (simp add: moves_def)

lemma moves_depth [simp]:
  "moves cs sc (sc'\<lparr>sc_interpDepth := d\<rparr>) \<longleftrightarrow> moves cs sc sc'"
  "moves cs sc (sc'\<lparr>sc_interpBraces := b\<rparr>) \<longleftrightarrow> moves cs sc sc'"
  "moves cs (sc\<lparr>sc_interpDepth := d\<rparr>) sc' \<longleftrightarrow> moves cs sc sc'"
  by (simp_all add: moves_def in_source_def rest_def)

lemma makeToken_depth [simp]:
  "makeToken (sc\<lparr>sc_interpDepth := d\<rparr>) type = makeToken sc type"
  "makeToken (sc\<lparr>sc_interpBraces := b\<rparr>) type = makeToken sc type"
  by (simp_all add: makeToken_def lexeme_def)

lemma errorToken_simps [simp]:
  "tok_type (errorToken sc m) = TOKEN_ERROR" "tok_line (errorToken sc m) = sc_line sc"
  "tok_type (makeToken sc type) = type" "tok_line (makeToken sc type) = sc_line sc"
  by (simp_all add: errorToken_def makeToken_def)

lemma lexeme_moves: "moves l sc sc' \<Longrightarrow> sc_start sc = sc_current sc \<Longrightarrow> lexeme sc' = l"
  by (simp add: moves_def lexeme_def rest_def)

lemma token_made:
  assumes "moves l sc sc'" "sc_start sc = sc_current sc" "braces_ok sc'" "l \<noteq> []"
    "type \<noteq> TOKEN_EOF" "type = TOKEN_ERROR \<or> spells type l"
  shows "token_at sc l (makeToken sc' type) sc'"
proof -
  show ?thesis using assms lexeme_moves [OF assms(1,2)] by (auto simp: token_at_def makeToken_def)
qed

lemma token_error:
  "moves l sc sc' \<Longrightarrow> braces_ok sc' \<Longrightarrow> l \<noteq> [] \<Longrightarrow> token_at sc l (errorToken sc' m) sc'"
  by (auto simp: token_at_def)

lemma braces_ok_consumes: "consumes cs sc sc' \<Longrightarrow> braces_ok sc' \<longleftrightarrow> braces_ok sc"
  by (simp add: consumes_def braces_ok_def)

text \<open>The context of a branch: one character has been read.\<close>

definition after_first :: "Scanner \<Rightarrow> bytes \<Rightarrow> Scanner \<Rightarrow> bool" where
  "after_first sc l sc1 \<longleftrightarrow>
     moves l sc sc1 \<and> sc_start sc = sc_current sc \<and> braces_ok sc1 \<and> l \<noteq> []"

lemma after_first_consumes:
  "after_first sc l sc1 \<Longrightarrow> consumes cs sc1 sc' \<Longrightarrow> after_first sc (l @ cs) sc'"
  using moves_trans [of l sc sc1 cs sc'] by (auto simp: after_first_def consumes_moves braces_ok_consumes)

lemma after_first_token:
  "after_first sc l sc1 \<Longrightarrow> type \<noteq> TOKEN_EOF \<Longrightarrow> type = TOKEN_ERROR \<or> spells type l \<Longrightarrow>
   token_at sc l (makeToken sc1 type) sc1"
  by (rule token_made) (auto simp: after_first_def)

lemma after_first_error: "after_first sc l sc1 \<Longrightarrow> token_at sc l (errorToken sc1 m) sc1"
  by (rule token_error) (auto simp: after_first_def)

lemma after_first_in_source: "after_first sc l sc1 \<Longrightarrow> in_source sc1"
  by (auto simp: after_first_def moves_in_source)

lemma scanIdentifier_token:
  assumes "after_first sc l sc1" "l = [c]"
    "isAlpha c \<or> c = ch CHR ''@'' \<and> isAlpha (hd0 (rest sc1))"
  shows "\<exists>l t sc'. scanIdentifier sc1 = Some (t, sc') \<and> token_at sc l t sc'"
proof -
  let ?ds = "takeWhile (\<lambda>c. isAlpha c \<or> isDigit c) (rest sc1)"
  let ?sc = "skip (length ?ds) sc1"
  note in1 = after_first_in_source [OF assms(1)]
  have "consumes ?ds sc1 ?sc" using in1 by (intro consumes_takeWhile) auto
  with assms(1) have a: "after_first sc (c # ?ds) ?sc"
    using after_first_consumes assms(2) by fastforce
  have "hd0 ?ds = hd0 (rest sc1)" if "isAlpha (hd0 (rest sc1))"
    using that by (cases "rest sc1") auto
  then have w: "is_word (c # ?ds)"
    using assms(3) by (auto simp: is_word_def word_char_def dest: set_takeWhileD)
  obtain s where s: "c # ?ds = ascii s" using ascii_surj by blast
  then have "s \<noteq> []" by (auto simp: ascii_def)
  have run: "scanIdentifier sc1 = Some (makeToken ?sc (identifierType (lexeme ?sc)), ?sc)"
    by (simp add: scanIdentifier_def identifier_loop_takeWhile [OF in1])
  have l: "lexeme ?sc = ascii s"
    using a unfolding s after_first_def by (blast intro: lexeme_moves)
  have "identifierType (ascii s) \<noteq> TOKEN_EOF \<and> spells (identifierType (ascii s)) (ascii s)"
  proof (cases "map_of keyword_table s")
    case None
    then have "ascii s \<notin> ascii ` fst ` set keyword_table" by (force simp: map_of_eq_None_iff)
    then show ?thesis using w s None
      by (simp add: identifierType_keywords [OF \<open>s \<noteq> []\<close>] spells_identifier)
  next
    case (Some type)
    then have "(s, type) \<in> set keyword_table" by (rule map_of_SomeD)
    then have "type \<noteq> TOKEN_EOF" "spells type (ascii s)" by (auto simp: keyword_table_def intro: spells_keyword)
    then show ?thesis using Some by (simp add: identifierType_keywords [OF \<open>s \<noteq> []\<close>])
  qed
  then show ?thesis using after_first_token [OF a] run l s by fastforce
qed

lemma scanNumber_token:
  assumes "after_first sc l sc1" "l = [d]" "isDigit d"
  shows "\<exists>l t sc'. scanNumber sc1 = Some (t, sc') \<and> token_at sc l t sc'"
proof -
  let ?n = "number_part (rest sc1)" and ?sc = "skip (length (number_part (rest sc1))) sc1"
  note in1 = after_first_in_source [OF assms(1)]
  note n = number_consumes [OF in1]
  have a: "after_first sc (d # ?n) ?sc" using after_first_consumes [OF assms(1) n(1)] assms(2) by simp
  note num = number_part_is_number [OF assms(3), of "rest sc1"]
  let ?k = "suffix_find all_kinds (rest ?sc)"
  note in2 = after_first_in_source [OF a]
  have k: "numberSuffixLength ?sc = Some ?k" by (simp only: numberSuffixLength_def suffix_loop_find [OF in2])
  show ?thesis
  proof (cases "0 < ?k")
    case True
    note s = suffix_consumes [OF in2 True]
    from after_first_token [OF after_first_consumes [OF a s(1)], of TOKEN_NUMBER_SUFFIXED]
    show ?thesis unfolding scanNumber_split n(2) using k True s(2) spells_suffixed [OF num s(3)] by auto
  next
    case False
    from after_first_token [OF a, of TOKEN_NUMBER]
    show ?thesis unfolding scanNumber_split n(2) using k False spells_number [OF num] by auto
  qed
qed

lemma scanString_token:
  assumes "after_first sc l sc1" "l = [ch CHR 0x22]"
  shows "\<exists>l t sc'. scanString sc1 = Some (t, sc') \<and> token_at sc l t sc'"
proof -
  obtain sc2 cs where s: "string_loop sc1 = Some sc2" "consumes cs sc1 sc2" "hd0 (rest sc2) \<in> {0, ch CHR 0x22}"
    using string_loop_consumes [OF after_first_in_source [OF assms(1)]] by blast
  note a = after_first_consumes [OF assms(1) s(2)]
  note in2 = after_first_in_source [OF a]
  show ?thesis
  proof (cases "hd0 (rest sc2) = 0")
    case True
    then show ?thesis using after_first_error [OF a] s(1) in2 by (auto simp: scanString_def scan)
  next
    case False
    then have q: "hd0 (rest sc2) = ch CHR 0x22" using s(3) by simp
    have "consumes [ch CHR 0x22] sc2 (skip (Suc 0) sc2)" using consumes_skip1 [OF in2] q by simp
    note b = after_first_consumes [OF a this]
    have "token_at sc ((l @ cs) @ [ch CHR 0x22]) (makeToken (skip (Suc 0) sc2) TOKEN_STRING) (skip (Suc 0) sc2)"
      using spells_string [of cs] assms(2) by (intro after_first_token [OF b]) simp_all
    then show ?thesis using s(1) in2 q by (auto simp: scanString_def scan)
  qed
qed

lemma interpSegment_token:
  assumes "after_first sc l sc1" "(placeholder, l, [ch CHR ''{'']) \<in> set interp_ends"
    "(end_t, l, [ch CHR 0x22]) \<in> set interp_ends"
  shows "\<exists>l t sc'. interpSegment placeholder end_t sc1 = Some (t, sc') \<and> token_at sc l t sc'"
proof -
  have types: "placeholder \<noteq> TOKEN_EOF" "end_t \<noteq> TOKEN_EOF" using assms(2,3) by (auto simp: interp_ends_def)
  obtain sc2 cs where s: "interp_loop sc1 = Some sc2" "consumes cs sc1 sc2"
    "hd0 (rest sc2) \<in> {0, ch CHR 0x22, ch CHR ''{''}"
    using interp_loop_consumes [OF after_first_in_source [OF assms(1)]] by blast
  note a = after_first_consumes [OF assms(1) s(2)]
  note in2 = after_first_in_source [OF a]
  show ?thesis
  proof (cases "hd0 (rest sc2) = 0")
    case True
    then show ?thesis using after_first_error [OF a] s(1) in2 by (auto simp: interpSegment_def scan)
  next
    case False
    let ?sc = "skip (Suc 0) sc2"
    have "hd0 (rest sc2) \<noteq> 10" using s(3) False by auto
    then have "consumes [hd0 (rest sc2)] sc2 ?sc" using consumes_skip1 [OF in2 False] by simp
    note b = after_first_consumes [OF a this]
    show ?thesis
    proof (cases "hd0 (rest sc2) = ch CHR ''{''")
      case open_brace: True
      show ?thesis
      proof (cases "sc_interpDepth ?sc = MAX_INTERP_DEPTH")
        case True
        then show ?thesis using after_first_error [OF b] s(1) in2 False open_brace
          by (fastforce simp: interpSegment_def scan)
      next
        case deeper: False
        let ?sc' = "?sc\<lparr>sc_interpBraces := (sc_interpBraces ?sc)[sc_interpDepth ?sc := Some 0],
                       sc_interpDepth := sc_interpDepth ?sc + 1\<rparr>"
        have ok: "braces_ok ?sc" using b by (simp add: after_first_def)
        then have "braces_ok ?sc'" using deeper by (auto simp: braces_ok_def nth_list_update less_Suc_eq)
        then have c: "after_first sc ((l @ cs) @ [hd0 (rest sc2)]) ?sc'"
          using b unfolding after_first_def by simp
        have "token_at sc ((l @ cs) @ [hd0 (rest sc2)]) (makeToken ?sc' placeholder) ?sc'"
          using spells_interp [OF assms(2), of cs] types open_brace by (intro after_first_token [OF c]) simp_all
        then show ?thesis using s(1) in2 False open_brace deeper ok
          by (auto simp: interpSegment_def scan braces_ok_def)
      qed
    next
      case no: False
      then have q: "hd0 (rest sc2) = ch CHR 0x22" using s(3) False by simp
      have "token_at sc ((l @ cs) @ [hd0 (rest sc2)]) (makeToken ?sc end_t) ?sc"
        using spells_interp [OF assms(3), of cs] types q by (intro after_first_token [OF b]) simp_all
      then show ?thesis using s(1) in2 no q by (auto simp: interpSegment_def scan)
    qed
  qed
qed

lemma after_first_set_open:
  "after_first sc l sc1 \<Longrightarrow> after_first sc l (set_open_braces n sc1)"
  by (auto simp: after_first_def set_open_braces_def braces_ok_def nth_list_update)

lemma open_braces_set:
  assumes "braces_ok sc" "0 < sc_interpDepth sc"
  obtains n where "open_braces sc = Some n"
proof -
  have i: "sc_interpDepth sc - 1 < sc_interpDepth sc" using assms(2) by simp
  then have "sc_interpBraces sc ! (sc_interpDepth sc - 1) \<noteq> None"
    using assms(1) unfolding braces_ok_def by blast
  then show ?thesis using that i assms(1) by (auto simp: open_braces_def braces_ok_def)
qed

lemma symbol_rows:
  "([CHR ''(''], TOKEN_LEFT_PAREN) \<in> set symbol_table"
  "([CHR '')''], TOKEN_RIGHT_PAREN) \<in> set symbol_table"
  "([CHR ''{''], TOKEN_LEFT_BRACE) \<in> set symbol_table"
  "([CHR ''}''], TOKEN_RIGHT_BRACE) \<in> set symbol_table"
  "([CHR ''[''], TOKEN_LEFT_BRACKET) \<in> set symbol_table"
  "([CHR '']''], TOKEN_RIGHT_BRACKET) \<in> set symbol_table"
  "([CHR '';''], TOKEN_SEMICOLON) \<in> set symbol_table"
  "([CHR '',''], TOKEN_COMMA) \<in> set symbol_table"
  "([CHR '':''], TOKEN_COLON) \<in> set symbol_table"
  "([CHR ''.''], TOKEN_DOT) \<in> set symbol_table"
  "([CHR ''-''], TOKEN_MINUS) \<in> set symbol_table"
  "([CHR ''+''], TOKEN_PLUS) \<in> set symbol_table"
  "([CHR ''/''], TOKEN_SLASH) \<in> set symbol_table"
  "([CHR ''*''], TOKEN_STAR) \<in> set symbol_table"
  "([CHR ''%''], TOKEN_MODULO) \<in> set symbol_table"
  "([CHR ''?'', CHR ''?''], TOKEN_QUESTION_QUESTION) \<in> set symbol_table"
  "([CHR ''&'', CHR ''&''], TOKEN_AND) \<in> set symbol_table"
  "([CHR ''|'', CHR ''|''], TOKEN_OR) \<in> set symbol_table"
  "([CHR ''!''], TOKEN_BANG) \<in> set symbol_table"
  "([CHR ''!'', CHR ''=''], TOKEN_BANG_EQUAL) \<in> set symbol_table"
  "([CHR ''=''], TOKEN_EQUAL) \<in> set symbol_table"
  "([CHR ''='', CHR ''=''], TOKEN_EQUAL_EQUAL) \<in> set symbol_table"
  "([CHR ''='', CHR ''>''], TOKEN_FAT_ARROW) \<in> set symbol_table"
  "([CHR ''<''], TOKEN_LESS) \<in> set symbol_table"
  "([CHR ''<'', CHR ''=''], TOKEN_LESS_EQUAL) \<in> set symbol_table"
  "([CHR ''>''], TOKEN_GREATER) \<in> set symbol_table"
  "([CHR ''>'', CHR ''=''], TOKEN_GREATER_EQUAL) \<in> set symbol_table"
  by (simp_all add: symbol_table_def)

text \<open>The outcome of a branch.\<close>

definition scans_token :: "Scanner \<Rightarrow> (Token \<times> Scanner) option \<Rightarrow> bool" where
  "scans_token sc x \<longleftrightarrow> (\<exists>l t sc'. x = Some (t, sc') \<and> token_at sc l t sc')"

lemma scans_if: "(P \<Longrightarrow> scans_token sc x) \<Longrightarrow> scans_token sc y \<Longrightarrow> scans_token sc (if P then x else y)"
  by simp

lemma symbol_token:
  "after_first sc l sc1 \<Longrightarrow> (s, type) \<in> set symbol_table \<Longrightarrow> map ch s = l \<Longrightarrow>
   token_at sc l (makeToken sc1 type) sc1"
  by (rule after_first_token) (auto simp: symbol_table_def ascii_def intro: spells_symbol [unfolded ascii_def])

lemma two_char_token:
  assumes "after_first sc l sc1" "l = [ch a]" "ch b \<noteq> 0" "ch b \<noteq> 10"
    "([a, b], two) \<in> set symbol_table" "one = TOKEN_ERROR \<or> ([a], one) \<in> set symbol_table"
  shows "scans_token sc (two_char b two one sc1)"
proof -
  note in1 = after_first_in_source [OF assms(1)]
  show ?thesis
  proof (cases "hd0 (rest sc1) = ch b")
    case True
    then have "consumes [ch b] sc1 (skip (Suc 0) sc1)" using consumes_skip1 [OF in1] assms(3,4) by simp
    note c = after_first_consumes [OF assms(1) this]
    have "token_at sc (l @ [ch b]) (makeToken (skip (Suc 0) sc1) two) (skip (Suc 0) sc1)"
      using symbol_token [OF c assms(5)] assms(2) by (simp add: ascii_def)
    then show ?thesis using True in1 assms(3) by (auto simp: two_char_def scan scans_token_def)
  next
    case False
    have "token_at sc l (makeToken sc1 one) sc1"
      using assms(6) symbol_token [OF assms(1), of "[a]" one] assms(2)
        after_first_token [OF assms(1), of TOKEN_ERROR] by auto
    then show ?thesis using False in1 assms(3) by (auto simp: two_char_def scan scans_token_def)
  qed
qed

lemma scan_equal_token:
  assumes "after_first sc l sc1" "l = [ch CHR ''='']"
  shows "scans_token sc (scan_equal sc1)"
proof -
  note in1 = after_first_in_source [OF assms(1)]
  have e: "ch CHR ''='' \<noteq> 0" "ch CHR ''='' \<noteq> 10" by (simp_all add: ch_def)
  show ?thesis
  proof (cases "hd0 (rest sc1) = ch CHR ''=''")
    case True
    then have "consumes [ch CHR ''=''] sc1 (skip (Suc 0) sc1)" using consumes_skip1 [OF in1] e by simp
    note c = after_first_consumes [OF assms(1) this]
    have "token_at sc (l @ [ch CHR ''='']) (makeToken (skip (Suc 0) sc1) TOKEN_EQUAL_EQUAL) (skip (Suc 0) sc1)"
      by (rule symbol_token [OF c, of "''==''"]) (simp_all add: symbol_table_def assms(2) ascii_def)
    then show ?thesis using True in1 e by (auto simp: scan_equal_def scan scans_token_def)
  next
    case False
    then have "scan_equal sc1 = two_char CHR ''>'' TOKEN_FAT_ARROW TOKEN_EQUAL sc1"
      using in1 e by (simp add: scan_equal_def scan)
    then show ?thesis using two_char_token [OF assms, of "CHR ''>''" TOKEN_FAT_ARROW TOKEN_EQUAL]
      by (simp add: symbol_table_def ch_def)
  qed
qed

lemma left_brace_token:
  assumes "after_first sc l sc1" "l = [ch CHR ''{'']"
  shows "scans_token sc (left_brace sc1)"
proof -
  have ok: "braces_ok sc1" using assms(1) by (simp add: after_first_def)
  have brace: "token_at sc l (makeToken sc2 TOKEN_LEFT_BRACE) sc2" if "after_first sc l sc2" for sc2
    by (rule symbol_token [OF that, of "''{''"]) (simp_all add: symbol_table_def assms(2) ascii_def)
  show ?thesis
  proof (cases "0 < sc_interpDepth sc1")
    case True
    then obtain n where "open_braces sc1 = Some n" using open_braces_set [OF ok] by blast
    then show ?thesis using brace [OF after_first_set_open [OF assms(1)]] True
      by (auto simp: left_brace_def Let_def scans_token_def)
  next
    case False
    then show ?thesis using brace [OF assms(1)] by (auto simp: left_brace_def scans_token_def)
  qed
qed

lemma right_brace_token:
  assumes "after_first sc l sc1" "l = [ch CHR ''}'']"
  shows "scans_token sc (right_brace sc1)"
proof -
  have ok: "braces_ok sc1" using assms(1) by (simp add: after_first_def)
  have brace: "token_at sc l (makeToken sc2 TOKEN_RIGHT_BRACE) sc2" if "after_first sc l sc2" for sc2
    by (rule symbol_token [OF that, of "''}''"]) (simp_all add: symbol_table_def assms(2) ascii_def)
  show ?thesis
  proof (cases "0 < sc_interpDepth sc1")
    case True
    then obtain n where n: "open_braces sc1 = Some n" using open_braces_set [OF ok] by blast
    let ?sc = "sc1\<lparr>sc_interpDepth := sc_interpDepth sc1 - 1\<rparr>"
    have "braces_ok ?sc" using ok by (auto simp: braces_ok_def)
    then have a: "after_first sc l ?sc" using assms(1) by (simp add: after_first_def)
    show ?thesis
    proof (cases "n = 0")
      case True
      from interpSegment_token [OF a, of TOKEN_INTERP_MIDDLE TOKEN_INTERP_END]
      show ?thesis using True n \<open>0 < sc_interpDepth sc1\<close>
        by (simp add: right_brace_def interp_ends_def assms(2) scans_token_def)
    next
      case False
      then show ?thesis using brace [OF after_first_set_open [OF assms(1)]] n \<open>0 < sc_interpDepth sc1\<close>
        by (auto simp: right_brace_def Let_def scans_token_def)
    qed
  next
    case False
    then show ?thesis using brace [OF assms(1)] by (auto simp: right_brace_def scans_token_def)
  qed
qed

lemma scan_symbol_token:
  assumes "after_first sc [c] sc1"
  shows "scans_token sc (scan_symbol c sc1)"
proof -
  have one: "scans_token sc (Some (makeToken sc1 type, sc1))"
    if "c = ch a" "([a], type) \<in> set symbol_table" for a type
    using symbol_token [OF assms that(2)] that(1) by (auto simp: scans_token_def)
  have error: "scans_token sc (Some (errorToken sc1 m, sc1))" for m
    using after_first_error [OF assms] by (auto simp: scans_token_def)
  have two: "scans_token sc (two_char b two_t one_t sc1)"
    if "c = ch a" "([a, b], two_t) \<in> set symbol_table" "one_t = TOKEN_ERROR \<or> ([a], one_t) \<in> set symbol_table"
      "ch b \<noteq> 0 \<and> ch b \<noteq> 10" for a b two_t one_t
    using two_char_token [OF assms _ _ _ that(2,3)] that(1,4) by simp
  note tokens = scanString_token [OF assms, folded scans_token_def] left_brace_token [OF assms]
    right_brace_token [OF assms] scan_equal_token [OF assms]
  show ?thesis
    unfolding scan_symbol_def
    by (intro scans_if;
        (erule one, rule symbol_rows | rule tokens, simp
         | erule two, rule symbol_rows, simp add: symbol_rows, simp add: ch_def | rule error))
qed

lemma scanToken_token:
  assumes "in_source sc" "braces_ok sc"
  obtains g sc1 t l sc' where "consumes g sc sc1" "blank g" "scanToken sc = Some (t, sc')"
    "token_at (sc1\<lparr>sc_start := sc_current sc1\<rparr>) l t sc'"
proof -
  obtain sc1 g where g: "skipWhitespace sc = Some sc1" "consumes g sc sc1" "blank g" "hd0 (rest sc1) \<noteq> 10"
    using skipWhitespace_consumes [OF assms(1)] by blast
  let ?sc = "sc1\<lparr>sc_start := sc_current sc1\<rparr>"
  have in1: "in_source ?sc" using consumes_in_source [OF g(2)] by simp
  have ok: "braces_ok ?sc" using braces_ok_consumes [OF g(2)] assms(2) by (simp add: braces_ok_def)
  have "scans_token ?sc (scanToken sc)"
  proof (cases "hd0 (rest sc1) = 0")
    case True
    then have "scanToken sc = Some (makeToken ?sc TOKEN_EOF, ?sc)"
      using in1 by (simp add: scanToken_def g(1) scan Let_def)
    moreover have "token_at ?sc [] (makeToken ?sc TOKEN_EOF) ?sc"
      using True ok in1 by (simp add: token_at_def moves_def makeToken_def lexeme_def spells_eof)
    ultimately show ?thesis unfolding scans_token_def by blast
  next
    case False
    let ?c = "hd0 (rest sc1)" and ?sc2 = "skip (Suc 0) ?sc"
    have c: "consumes [?c] ?sc ?sc2" using consumes_skip1 [OF in1] False g(4) by simp
    then have a: "after_first ?sc [?c] ?sc2"
      using consumes_moves [OF c] braces_ok_consumes [OF c] ok by (simp add: after_first_def)
    note in2 = after_first_in_source [OF a]
    have run: "scanToken sc =
      (if isAlpha ?c then scanIdentifier ?sc2
       else if ?c = ch CHR ''@'' \<and> isAlpha (hd0 (rest ?sc2)) then scanIdentifier ?sc2
       else if ?c = ch CHR ''$'' \<and> hd0 (rest ?sc2) = ch CHR 0x22 then
         interpSegment TOKEN_INTERP_START TOKEN_INTERP_STRING (skip (Suc 0) ?sc2)
       else if isDigit ?c then scanNumber ?sc2
       else scan_symbol ?c ?sc2)"
      using False in1 in2 by (simp add: scanToken_def g(1) scan Let_def)
    show ?thesis unfolding run
    proof (intro scans_if)
      assume d: "?c = ch CHR ''$'' \<and> hd0 (rest ?sc2) = ch CHR 0x22"
      then have "consumes [ch CHR 0x22] ?sc2 (skip (Suc 0) ?sc2)" using consumes_skip1 [OF in2] by simp
      from interpSegment_token [OF after_first_consumes [OF a this], of TOKEN_INTERP_START TOKEN_INTERP_STRING]
      show "scans_token ?sc (interpSegment TOKEN_INTERP_START TOKEN_INTERP_STRING (skip (Suc 0) ?sc2))"
        using d by (simp add: interp_ends_def scans_token_def)
    qed (use scanIdentifier_token [OF a refl] scanNumber_token [OF a refl] scan_symbol_token [OF a]
        in \<open>auto simp: scans_token_def\<close>)
  qed
  then obtain l t sc' where "scanToken sc = Some (t, sc')" "token_at ?sc l t sc'"
    unfolding scans_token_def by blast
  then show ?thesis using that g by blast
qed

section \<open>The whole source\<close>

text \<open>
  A piece of a source: a token, with the blanks before it and the characters it was read from.
\<close>

type_synonym piece = "bytes \<times> bytes \<times> Token"

abbreviation piece_bytes :: "piece \<Rightarrow> bytes" where
  "piece_bytes p \<equiv> fst p @ fst (snd p)"

abbreviation piece_token :: "piece \<Rightarrow> Token" where
  "piece_token p \<equiv> snd (snd p)"

fun lines_ok :: "int \<Rightarrow> piece list \<Rightarrow> bool" where
  "lines_ok line [] = True"
| "lines_ok line (p # ps) =
     (line \<le> tok_line (piece_token p) \<and>
      tok_line (piece_token p) \<le> line + newlines (piece_bytes p) \<and>
      (ch CHR 0x5C \<notin> set (piece_bytes p) \<longrightarrow> tok_line (piece_token p) = line + newlines (piece_bytes p)) \<and>
      lines_ok (tok_line (piece_token p)) ps)"

definition piece_ok :: "piece \<Rightarrow> bool" where
  "piece_ok p \<longleftrightarrow>
     (case p of (g, l, t) \<Rightarrow>
        blank g \<and> (tok_type t \<noteq> TOKEN_ERROR \<longrightarrow> tok_text t = l \<and> spells (tok_type t) l) \<and>
        (tok_type t = TOKEN_EOF \<longleftrightarrow> l = []))"

definition c_text :: "bytes \<Rightarrow> bytes" where
  "c_text cs = takeWhile (\<lambda>c. c \<noteq> 0) cs"

lemma c_text_append: "0 \<notin> set a \<Longrightarrow> c_text (a @ b) = a @ c_text b"
  by (induction a) (auto simp: c_text_def)

lemma c_text_end: "hd0 cs = 0 \<Longrightarrow> c_text cs = []"
  by (cases cs) (simp_all add: c_text_def)

lemma lex_loop_pieces:
  "in_source sc \<Longrightarrow> braces_ok sc \<Longrightarrow>
   \<exists>ps p. lex_loop sc ts = Some (ts\<lparr>ts_tokens := ts_tokens ts @ map piece_token (ps @ [p])\<rparr>) \<and>
     c_text (rest sc) = concat (map piece_bytes (ps @ [p])) \<and>
     (\<forall>q\<in>set (ps @ [p]). piece_ok q) \<and> lines_ok (sc_line sc) (ps @ [p]) \<and>
     tok_type (piece_token p) = TOKEN_EOF \<and> (\<forall>q\<in>set ps. tok_type (piece_token q) \<noteq> TOKEN_EOF)"
proof (induction "length (rest sc)" arbitrary: sc ts rule: less_induct)
  case less
  obtain g sc1 t l sc' where s: "consumes g sc sc1" "blank g" "scanToken sc = Some (t, sc')"
    "token_at (sc1\<lparr>sc_start := sc_current sc1\<rparr>) l t sc'"
    by (rule scanToken_token [OF less.prems])
  have rg: "moves g sc sc1" using s(1) by (rule consumes_moves)
  have rl: "moves l (sc1\<lparr>sc_start := sc_current sc1\<rparr>) sc'" and ok': "braces_ok sc'"
    and line: "tok_line t = sc_line sc'" using s(4) by (simp_all add: token_at_def)
  have in': "in_source sc'" using rl by (rule moves_in_source)
  have "rest sc = g @ rest sc1" "rest (sc1\<lparr>sc_start := sc_current sc1\<rparr>) = l @ rest sc'"
    using rg rl unfolding moves_def by blast+
  then have r: "rest sc = (g @ l) @ rest sc'" by simp
  have "0 \<notin> set g" "0 \<notin> set l" using rg rl unfolding moves_def by blast+
  then have z: "0 \<notin> set (g @ l)" by simp
  have p: "piece_ok (g, l, t)" using s(2,4) by (simp add: piece_ok_def token_at_def)
  have ln: "sc_line sc \<le> tok_line t \<and> tok_line t \<le> sc_line sc + newlines (g @ l) \<and>
      (ch CHR 0x5C \<notin> set (g @ l) \<longrightarrow> tok_line t = sc_line sc + newlines (g @ l))"
    using rg rl line unfolding moves_def by simp
  show ?case
  proof (cases "tok_type t = TOKEN_EOF")
    case True
    then have "l = []" "hd0 (rest sc') = 0" using s(4) by (auto simp: token_at_def)
    then have "c_text (rest sc) = g" unfolding r using z by (simp add: c_text_append c_text_end)
    then show ?thesis using True p ln s(3) \<open>l = []\<close>
      by (subst lex_loop.simps) (intro exI [of _ "[]"] exI [of _ "(g, l, t)"], simp add: tsWrite_def)
  next
    case False
    then have "l \<noteq> []" using s(4) by (auto simp: token_at_def)
    then have "length (rest sc') < length (rest sc)" unfolding r by simp
    from less.hyps [OF this in' ok', of "tsWrite t ts"]
    obtain ps p' where ps: "lex_loop sc' (tsWrite t ts) =
        Some (tsWrite t ts\<lparr>ts_tokens := ts_tokens (tsWrite t ts) @ map piece_token (ps @ [p'])\<rparr>)"
      "c_text (rest sc') = concat (map piece_bytes (ps @ [p']))"
      "\<forall>q\<in>set (ps @ [p']). piece_ok q" "lines_ok (sc_line sc') (ps @ [p'])"
      "tok_type (piece_token p') = TOKEN_EOF" "\<forall>q\<in>set ps. tok_type (piece_token q) \<noteq> TOKEN_EOF" by blast
    have "lex_loop sc ts = Some (ts\<lparr>ts_tokens := ts_tokens ts @ map piece_token (((g, l, t) # ps) @ [p'])\<rparr>)"
      using ps(1) False s(3) by (subst lex_loop.simps) (simp add: tsWrite_def)
    moreover have "c_text (rest sc) = concat (map piece_bytes (((g, l, t) # ps) @ [p']))"
      unfolding r c_text_append [OF z] ps(2) by simp
    moreover have "lines_ok (sc_line sc) (((g, l, t) # ps) @ [p'])"
      using ln ps(4) line by simp
    ultimately show ?thesis using ps(3,5,6) p False
      by (intro exI [of _ "(g, l, t) # ps"] exI [of _ p']) simp
  qed
qed

text \<open>C25. Scanning any source comes to an end without reading outside it.  The tokens, with the blanks
  before them, are the whole source up to its NUL; every token but an error spells what its type
  says, and \<open>TOKEN_EOF\<close> is the last one and no other.\<close>

theorem lex_covers_the_source:
  "\<exists>ps p. lex source = Some \<lparr>ts_tokens = map piece_token (ps @ [p]), ts_current = 0\<rparr> \<and>
     concat (map piece_bytes (ps @ [p])) = c_text source \<and>
     (\<forall>(g, l, t)\<in>set (ps @ [p]).
        blank g \<and> (tok_type t \<noteq> TOKEN_ERROR \<longrightarrow> tok_text t = l \<and> spells (tok_type t) l)) \<and>
     tok_type (piece_token p) = TOKEN_EOF \<and> (\<forall>(g, l, t)\<in>set ps. l \<noteq> [] \<and> tok_type t \<noteq> TOKEN_EOF)"
proof -
  have "in_source (initScanner source)" "braces_ok (initScanner source)" "rest (initScanner source) = source"
    by (simp_all add: initScanner_def in_source_def braces_ok_def rest_def)
  with lex_loop_pieces [of "initScanner source" tsInit] obtain ps p where ps:
    "lex source = Some (tsInit\<lparr>ts_tokens := map piece_token (ps @ [p])\<rparr>)"
    "c_text source = concat (map piece_bytes (ps @ [p]))" "\<forall>q\<in>set (ps @ [p]). piece_ok q"
    "tok_type (piece_token p) = TOKEN_EOF" "\<forall>q\<in>set ps. tok_type (piece_token q) \<noteq> TOKEN_EOF"
    unfolding lex_def by (auto simp: tsInit_def)
  then show ?thesis
    by (intro exI [of _ ps] exI [of _ p]) (auto simp: tsInit_def piece_ok_def split: prod.splits)
qed

lemma lex_covers_the_source_witness:
  "\<exists>ps p. lex [ch CHR ''x'', 10] = Some \<lparr>ts_tokens = map piece_token (ps @ [p]), ts_current = 0\<rparr> \<and>
     concat (map piece_bytes (ps @ [p])) = [ch CHR ''x'', 10] \<and>
     (\<forall>(g, l, t)\<in>set (ps @ [p]).
        blank g \<and> (tok_type t \<noteq> TOKEN_ERROR \<longrightarrow> tok_text t = l \<and> spells (tok_type t) l)) \<and>
     tok_type (piece_token p) = TOKEN_EOF \<and> (\<forall>(g, l, t)\<in>set ps. l \<noteq> [] \<and> tok_type t \<noteq> TOKEN_EOF)"
proof -
  have "c_text [ch CHR ''x'', 10] = [ch CHR ''x'', 10]" by (simp add: c_text_def ch_def)
  then show ?thesis using lex_covers_the_source [of "[ch CHR ''x'', 10]"] by simp
qed

lemma lines_ok_nth:
  "lines_ok line ps \<Longrightarrow> ch CHR 0x5C \<notin> set (concat (map piece_bytes ps)) \<Longrightarrow> i < length ps \<Longrightarrow>
   tok_line (piece_token (ps ! i)) = line + newlines (concat (map piece_bytes (take (Suc i) ps)))"
proof (induction ps arbitrary: line i)
  case (Cons p ps)
  then show ?case by (cases i) (auto simp: Un_iff)
qed simp

lemma lex_initial:
  "in_source (initScanner source)" "braces_ok (initScanner source)" "rest (initScanner source) = source"
  by (simp_all add: initScanner_def in_source_def braces_ok_def rest_def)

text \<open>C26. In a source without backslashes the line of a token is one more than the number of newlines
  up to its end.  The pieces are the blanks before a token, its bytes and the token; the bytes of every
  token but an error are its text.\<close>

theorem lex_counts_lines:
  assumes "ch CHR 0x5C \<notin> set source"
  shows "\<exists>ps. lex source = Some \<lparr>ts_tokens = map piece_token ps, ts_current = 0\<rparr> \<and>
    concat (map piece_bytes ps) = c_text source \<and>
    (\<forall>(g, l, t)\<in>set ps. blank g \<and> (tok_type t = TOKEN_EOF \<longleftrightarrow> l = []) \<and>
       (tok_type t \<noteq> TOKEN_ERROR \<longrightarrow> tok_text t = l \<and> spells (tok_type t) l)) \<and>
    (\<forall>i<length ps. tok_line (piece_token (ps ! i)) =
       1 + newlines (concat (map piece_bytes (take (Suc i) ps))))"
proof -
  obtain ps p where ps: "lex source = Some \<lparr>ts_tokens = map piece_token (ps @ [p]), ts_current = 0\<rparr>"
    "c_text source = concat (map piece_bytes (ps @ [p]))" "lines_ok 1 (ps @ [p])"
    "\<forall>q\<in>set (ps @ [p]). piece_ok q"
    using lex_loop_pieces [OF lex_initial(1,2), of source tsInit]
    by (auto simp: lex_def tsInit_def lex_initial(3)) (auto simp: initScanner_def)
  have "ch CHR 0x5C \<notin> set (c_text source)" using assms by (auto simp: c_text_def dest: set_takeWhileD)
  then have "\<forall>i<length (ps @ [p]). tok_line (piece_token ((ps @ [p]) ! i)) =
      1 + newlines (concat (map piece_bytes (take (Suc i) (ps @ [p]))))"
    using lines_ok_nth [OF ps(3)] unfolding ps(2) by blast
  moreover have "\<forall>(g, l, t)\<in>set (ps @ [p]). blank g \<and> (tok_type t = TOKEN_EOF \<longleftrightarrow> l = []) \<and>
      (tok_type t \<noteq> TOKEN_ERROR \<longrightarrow> tok_text t = l \<and> spells (tok_type t) l)"
    using ps(4) unfolding piece_ok_def split_beta by blast
  ultimately show ?thesis using ps(1) ps(2) [symmetric] by blast
qed

lemma lex_counts_lines_witness:
  "\<exists>ps. lex [10, ch CHR ''a''] = Some \<lparr>ts_tokens = map piece_token ps, ts_current = 0\<rparr> \<and>
    concat (map piece_bytes ps) = [10, ch CHR ''a''] \<and>
    (\<forall>(g, l, t)\<in>set ps. blank g \<and> (tok_type t = TOKEN_EOF \<longleftrightarrow> l = []) \<and>
       (tok_type t \<noteq> TOKEN_ERROR \<longrightarrow> tok_text t = l \<and> spells (tok_type t) l)) \<and>
    (\<forall>i<length ps. tok_line (piece_token (ps ! i)) =
       1 + newlines (concat (map piece_bytes (take (Suc i) ps))))"
  using lex_counts_lines [of "[10, ch CHR ''a'']"] by (simp add: c_text_def ch_def)

text \<open>A newline after a backslash is not counted: the word on the second line is reported on the first.\<close>

lemma escaped_newline_not_counted:
  "map_option (\<lambda>ts. map tok_line (ts_tokens ts)) (lex [0x22, 0x5C, 10, 0x22, 10, 0x61]) = Some [1, 2, 2]"
  by code_simp

end
