(* ===== verification/Lexing_Read.thy ===== *)
theory Lexing_Read
  imports Lexing
begin

text \<open>
  Tokens written one after the other with blanks between them are read back as they were.
\<close>

section \<open>Written tokens are read back\<close>

lemma skipWhitespace_stop:
  assumes "in_source sc" "rest sc = c # cs" "c \<noteq> ch CHR '' ''" "c \<noteq> 13" "c \<noteq> 9" "c \<noteq> 10"
    "c \<noteq> ch CHR ''#''" "c = ch CHR ''/'' \<Longrightarrow> hd0 cs \<noteq> ch CHR ''/''"
  shows "skipWhitespace sc = Some sc"
  using assms by (subst skipWhitespace.simps) (simp add: scan)

lemma skipWhitespace_space:
  assumes "in_source sc" "rest sc = ch CHR '' '' # cs"
  shows "skipWhitespace sc = skipWhitespace (skip (Suc 0) sc)"
  using assms by (subst skipWhitespace.simps) (simp add: scan)

text \<open>The text of a token before a blank.\<close>

definition plain_string :: "bytes \<Rightarrow> bool" where
  "plain_string cs \<longleftrightarrow>
     (\<exists>body. cs = ch CHR 0x22 # body @ [ch CHR 0x22] \<and> 0 \<notin> set body \<and> 10 \<notin> set body \<and>
        ch CHR 0x22 \<notin> set body \<and> ch CHR 0x5C \<notin> set body)"

definition writable :: "TokenType \<Rightarrow> bytes \<Rightarrow> bool" where
  "writable type cs \<longleftrightarrow>
     (is_word cs \<and> cs \<notin> ascii ` fst ` set keyword_table \<and> type = TOKEN_IDENTIFIER) \<or>
     (\<exists>s. cs = ascii s \<and> ((s, type) \<in> set keyword_table \<or> (s, type) \<in> set symbol_table)) \<or>
     (is_number cs \<and> type = TOKEN_NUMBER) \<or>
     (\<exists>a b. cs = a @ b \<and> is_number a \<and> is_suffix b \<and> type = TOKEN_NUMBER_SUFFIXED) \<or>
     (plain_string cs \<and> type = TOKEN_STRING)"

lemma takeWhile_then_space:
  "\<forall>c\<in>set cs. P c \<Longrightarrow> \<not> P (hd0 ds) \<Longrightarrow> takeWhile P (cs @ ds) = cs"
  using takeWhile_stop [of P ds] by (simp add: takeWhile_append2)

lemma dropWhile_stop: "\<not> P (hd0 cs) \<Longrightarrow> dropWhile P cs = cs"
  by (cases cs) auto

lemma dropWhile_then: "\<forall>c\<in>set cs. P c \<Longrightarrow> \<not> P (hd0 ds) \<Longrightarrow> dropWhile P (cs @ ds) = ds"
  by (cases ds) (simp_all add: dropWhile_append2)

lemma number_part_plain:
  assumes "is_number (d # cs)" "isDigit d" "\<not> isDigit (hd0 ds)" "hd0 ds \<noteq> ch CHR ''.''"
  shows "number_part (cs @ ds) = cs"
proof -
  obtain whole part where w: "whole \<noteq> []" "\<forall>d\<in>set whole. isDigit d" "\<forall>d\<in>set part. isDigit d"
    "d # cs = whole \<or> part \<noteq> [] \<and> d # cs = whole @ ch CHR ''.'' # part"
    using assms(1) unfolding is_number_def by blast
  from w(4) show ?thesis
  proof
    assume "d # cs = whole"
    then have "\<forall>d\<in>set cs. isDigit d" using w(2) by auto
    then show ?thesis using assms(3,4)
      by (simp add: number_part_def takeWhile_stop dropWhile_stop fraction_def)
  next
    assume p: "part \<noteq> [] \<and> d # cs = whole @ ch CHR ''.'' # part"
    then obtain ws where ws: "whole = d # ws" "cs = ws @ ch CHR ''.'' # part" using w(1) by (cases whole) auto
    have "takeWhile isDigit (ws @ ch CHR ''.'' # part @ ds) = ws"
      "dropWhile isDigit (ws @ ch CHR ''.'' # part @ ds) = ch CHR ''.'' # part @ ds"
      using ws(1) w(2) by (simp_all add: takeWhile_then_space dropWhile_then)
    moreover have "isDigit (hd0 (part @ ds))" using p w(3) by (cases part) auto
    ultimately show ?thesis using ws(2) w(3) assms(3)
      by (simp add: number_part_def fraction_def takeWhile_stop)
  qed
qed

lemma suffix_find_none: "hd0 cs = ch CHR '' '' \<Longrightarrow> suffix_find kinds cs = 0"
proof (induction kinds)
  case (Cons kind kinds)
  have "lower_first 0 (ch CHR '' '') = ch CHR '' ''" by (simp add: lower_first_def ch_def)
  then have "\<not> suffix_prefix 0 (ascii (ki_name (numberKindInfo kind))) cs"
    using Cons.prems by (cases kind) (simp_all add: ascii_def)
  then show ?case using Cons by simp
qed simp

lemma suffix_find_self:
  assumes "is_suffix b"
  shows "suffix_find all_kinds (b @ ch CHR '' '' # cs) = length b"
proof -
  obtain kind where k: "b \<noteq> []" "lower_first 0 (hd b) # tl b = ascii (ki_name (numberKindInfo kind))"
    using assms unfolding is_suffix_def by blast
  obtain c ds where b: "b = c # ds" using k(1) by (cases b) auto
  show ?thesis using k(2) unfolding b
    by (cases kind) (auto simp: all_kinds_def ascii_def)
qed

lemma string_loop_plain:
  "in_source sc \<Longrightarrow> rest sc = body @ ch CHR 0x22 # cs \<Longrightarrow>
   0 \<notin> set body \<Longrightarrow> 10 \<notin> set body \<Longrightarrow> ch CHR 0x22 \<notin> set body \<Longrightarrow> ch CHR 0x5C \<notin> set body \<Longrightarrow>
   string_loop sc = Some (skip (length body) sc)"
proof (induction body arbitrary: sc)
  case Nil
  then show ?case by (subst string_loop.simps) (simp add: scan)
next
  case (Cons c body)
  let ?sc = "skip (Suc 0) sc"
  have in1: "in_source ?sc" using Cons.prems by (intro in_source_skip1) simp_all
  have "string_char sc = Some ?sc" using Cons.prems by (auto simp: string_char_def scan)
  then have "string_loop sc = string_loop ?sc"
    using Cons.prems by (subst string_loop.simps) (auto simp: scan)
  then show ?case using Cons.IH [OF in1] Cons.prems by simp
qed

abbreviation blank_then :: "bytes \<Rightarrow> bytes" where
  "blank_then cs \<equiv> ch CHR '' '' # cs"

definition read_as :: "Scanner \<Rightarrow> bytes \<Rightarrow> TokenType \<Rightarrow> (Token \<times> Scanner) option \<Rightarrow> bool" where
  "read_as sc l type x \<longleftrightarrow>
     x = Some (\<lparr>tok_type = type, tok_text = l, tok_line = sc_line sc\<rparr>, skip (length l) sc)"

lemma read_as_made:
  assumes "rest sc = l @ cs" "sc_start sc = sc_current sc" "sc' = skip (length l) sc"
  shows "read_as sc l type (Some (makeToken sc' type, sc'))"
  using assms by (simp add: read_as_def makeToken_def lexeme_def rest_def)

lemma class_space [simp]: "\<not> isDigit (ch CHR '' '')" "\<not> isAlpha (ch CHR '' '')"
  by (simp_all add: isDigit_def isAlpha_def ch_def)

lemma isDigit_not_alpha: "isDigit c \<Longrightarrow> \<not> isAlpha c \<and> c \<noteq> ch CHR ''@'' \<and> c \<noteq> ch CHR ''$'' \<and> c \<noteq> 0"
  by (auto simp: isDigit_def isAlpha_def ch_def word_le_nat_alt)

lemma identifier_read:
  assumes "in_source sc" "sc_start sc = sc_current sc" "rest sc = (c # ds) @ blank_then cs"
    "\<forall>d\<in>set ds. word_char d" "c \<noteq> 0"
  shows "read_as sc (c # ds) (identifierType (c # ds)) (scanIdentifier (skip (Suc 0) sc))"
proof -
  let ?sc = "skip (Suc 0) sc"
  have in1: "in_source ?sc" using assms by (intro in_source_skip1) simp_all
  have t: "takeWhile (\<lambda>c. isAlpha c \<or> isDigit c) (rest ?sc) = ds"
    using assms(3,4) by (simp add: takeWhile_then_space word_char_def)
  have "lexeme (skip (Suc (length ds)) sc) = c # ds"
    using assms(2,3) by (simp add: lexeme_def rest_def)
  moreover have "identifier_loop ?sc = Some (skip (length ds) ?sc)"
    using identifier_loop_takeWhile [OF in1] unfolding t .
  ultimately have "scanIdentifier ?sc =
      Some (makeToken (skip (Suc (length ds)) sc) (identifierType (c # ds)), skip (Suc (length ds)) sc)"
    by (simp add: scanIdentifier_def)
  then show ?thesis using assms by (simp add: read_as_made [where l = "c # ds"])
qed

lemma number_read:
  assumes "in_source sc" "sc_start sc = sc_current sc" "rest sc = (d # ds) @ cs" "isDigit d"
    "is_number (d # ds)" "\<not> isDigit (hd0 cs)" "hd0 cs \<noteq> ch CHR ''.''"
  shows "scanNumber (skip (Suc 0) sc) =
    (let sc' = skip (Suc (length ds)) sc; n = suffix_find all_kinds cs in
     if n > 0 then do {
       sc' \<leftarrow> advance_times n sc';
       Some (makeToken sc' TOKEN_NUMBER_SUFFIXED, sc')
     } else Some (makeToken sc' TOKEN_NUMBER, sc'))"
proof -
  let ?sc = "skip (Suc 0) sc" and ?sc' = "skip (Suc (length ds)) sc"
  have in1: "in_source ?sc" using assms isDigit_not_alpha by (intro in_source_skip1) auto
  have n: "number_part (rest ?sc) = ds" using number_part_plain [OF assms(5,4,6,7)] assms(3) by simp
  have in2: "in_source ?sc'" using assms by (intro in_source_skip) simp_all
  have "numberSuffixLength ?sc' = Some (suffix_find all_kinds cs)"
    using suffix_loop_find [OF in2] assms(3) by (simp add: numberSuffixLength_def)
  then show ?thesis unfolding scanNumber_split number_consumes(2) [OF in1] n by (simp add: Let_def)
qed

lemma space_consts [simp]: "ch c = 0 \<longleftrightarrow> c = CHR 0x00"
proof -
  have "ch CHR 0x00 = 0" by (simp add: ch_def)
  then show ?thesis using ch_eq [of c "CHR 0x00"] by metis
qed

lemma two_char_read:
  assumes "in_source sc" "sc_start sc = sc_current sc" "rest sc = ascii [a, b] @ blank_then cs"
    "a \<noteq> CHR 0x00" "b \<noteq> CHR 0x00"
  shows "read_as sc (ascii [a, b]) two (two_char b two one (skip (Suc 0) sc))"
proof -
  have in1: "in_source (skip (Suc 0) sc)" using assms by (intro in_source_skip1) (simp_all add: ascii_def)
  have "two_char b two one (skip (Suc 0) sc) = Some (makeToken (skip 2 sc) two, skip 2 sc)"
    using assms in1 by (simp add: two_char_def scan ascii_def numeral_2_eq_2)
  then show ?thesis using assms by (simp add: read_as_made [where l = "ascii [a, b]"])
qed

lemma one_char_read:
  assumes "in_source sc" "sc_start sc = sc_current sc" "rest sc = ascii [a] @ blank_then cs"
    "a \<noteq> CHR 0x00" "b \<noteq> CHR 0x00" "b \<noteq> CHR '' ''"
  shows "read_as sc (ascii [a]) one (two_char b two one (skip (Suc 0) sc))"
proof -
  have in1: "in_source (skip (Suc 0) sc)" using assms by (intro in_source_skip1) (simp_all add: ascii_def)
  have "two_char b two one (skip (Suc 0) sc) = Some (makeToken (skip 1 sc) one, skip 1 sc)"
    using assms in1 by (simp add: two_char_def scan ascii_def)
  then show ?thesis using assms by (simp add: read_as_made [where l = "ascii [a]"])
qed

lemma made_read:
  assumes "sc_start sc = sc_current sc" "rest sc = ascii s @ blank_then cs" "n = length s"
  shows "read_as sc (ascii s) type (Some (makeToken (skip n sc) type, skip n sc))"
  using assms(3) by (intro read_as_made [OF assms(2,1)]) simp

lemma ascii_read:
  "drop (Suc 0) (ascii (a # s)) = ascii s" "hd0 (ascii (a # s) @ cs) = ch a" "ascii [] = []"
  by (simp_all add: ascii_def)

lemma scan_equal_rest:
  "in_source sc \<Longrightarrow> scan_equal sc =
     (if hd0 (rest sc) = ch CHR ''='' then Some (makeToken (skip (Suc 0) sc) TOKEN_EQUAL_EQUAL, skip (Suc 0) sc)
      else two_char CHR ''>'' TOKEN_FAT_ARROW TOKEN_EQUAL sc)"
  by (simp add: scan_equal_def scan)

lemma symbol_read:
  assumes "(s, type) \<in> set symbol_table" "in_source sc" "sc_start sc = sc_current sc"
    "sc_interpDepth sc = 0" "rest sc = ascii s @ blank_then cs"
  shows "read_as sc (ascii s) type (scan_symbol (ch (hd s)) (skip (Suc 0) sc))"
proof -
  have in1: "in_source (skip (Suc 0) sc)"
    using assms by (intro in_source_skip1) (auto simp: symbol_table_def ascii_def)
  note moves = made_read [OF assms(3)] two_char_read [OF assms(2,3)] one_char_read [OF assms(2,3)]
  from assms(1,5) show ?thesis
    unfolding symbol_table_def
    by (simp only: set_simps insert_iff empty_iff prod.inject simp_thms)
      (elim disjE conjE; simp add: scan_symbol_def left_brace_def right_brace_def
         scan_equal_rest [OF in1] assms(4) ascii_read; rule moves; simp)
qed

lemma word_read:
  assumes "is_word l" "in_source sc" "sc_start sc = sc_current sc" "rest sc = l @ blank_then cs"
  shows "read_as sc l (identifierType l) (scanIdentifier (skip (Suc 0) sc))"
    "isAlpha (hd l) \<or> hd l = ch CHR ''@'' \<and> isAlpha (hd0 (tl l))" "l \<noteq> []"
proof -
  obtain c ds where l: "l = c # ds" "isAlpha c \<or> c = ch CHR ''@'' \<and> isAlpha (hd0 ds)" "\<forall>d\<in>set ds. word_char d"
    using assms(1) unfolding is_word_def by (auto split: list.splits)
  have "c \<noteq> 0" using l(2) by auto
  then show "read_as sc l (identifierType l) (scanIdentifier (skip (Suc 0) sc))"
    using identifier_read [OF assms(2,3), of c ds cs] l assms(4) by simp
qed (use assms(1) in \<open>auto simp: is_word_def split: list.splits\<close>)

lemma is_number_hd: "is_number l \<Longrightarrow> l \<noteq> [] \<and> isDigit (hd l)"
  by (auto simp: is_number_def)

lemma suffix_hd: "is_suffix b \<Longrightarrow> b \<noteq> [] \<and> \<not> isDigit (hd0 b) \<and> hd0 b \<noteq> ch CHR ''.''"
proof -
  assume "is_suffix b"
  then obtain kind where k: "b \<noteq> []" "lower_first 0 (hd b) # tl b = ascii (ki_name (numberKindInfo kind))"
    unfolding is_suffix_def by blast
  have "lower_first 0 (ch CHR ''.'') = ch CHR ''.''" by (simp add: lower_first_def ch_def)
  moreover have "isDigit c \<Longrightarrow> lower_first 0 c = c" for c
    by (auto simp: lower_first_def isDigit_def ch_def word_le_nat_alt)
  moreover have "\<not> isDigit (ch CHR ''i'')" "\<not> isDigit (ch CHR ''u'')" "\<not> isDigit (ch CHR ''f'')"
    by (simp_all add: isDigit_def ch_def)
  ultimately show ?thesis using k by (cases b; cases kind) (auto simp: ascii_def)
qed

lemma number_token_read:
  assumes "is_number l" "in_source sc" "sc_start sc = sc_current sc" "rest sc = l @ blank_then cs"
  shows "read_as sc l TOKEN_NUMBER (scanNumber (skip (Suc 0) sc))"
proof -
  obtain d ds where l: "l = d # ds" "isDigit d" using is_number_hd [OF assms(1)] by (cases l) auto
  have "scanNumber (skip (Suc 0) sc) =
      Some (makeToken (skip (length l) sc) TOKEN_NUMBER, skip (length l) sc)"
    using number_read [OF assms(2,3) _ l(2), of ds "blank_then cs"] assms(1,4) l(1)
    by (simp add: suffix_find_none Let_def)
  then show ?thesis using read_as_made [OF assms(4,3) refl] by simp
qed

lemma suffixed_token_read:
  assumes "is_number a" "is_suffix b" "in_source sc" "sc_start sc = sc_current sc"
    "rest sc = (a @ b) @ blank_then cs"
  shows "read_as sc (a @ b) TOKEN_NUMBER_SUFFIXED (scanNumber (skip (Suc 0) sc))"
proof -
  obtain d ds where a: "a = d # ds" "isDigit d" using is_number_hd [OF assms(1)] by (cases a) auto
  note b = suffix_hd [OF assms(2)]
  have h: "hd0 (b @ blank_then cs) = hd0 b" using b by (cases b) auto
  have in2: "in_source (skip (length a) sc)" using assms by (intro in_source_skip) simp_all
  have "advance_times (length b) (skip (length a) sc) = Some (skip (length b) (skip (length a) sc))"
    using assms(5) suffix_no_nul [OF assms(2)] by (intro advance_times_skip [OF in2]) auto
  moreover have "0 < length b" using b by simp
  ultimately have "scanNumber (skip (Suc 0) sc) =
      Some (makeToken (skip (length (a @ b)) sc) TOKEN_NUMBER_SUFFIXED, skip (length (a @ b)) sc)"
    using number_read [OF assms(3,4) _ a(2), of ds "b @ blank_then cs"] assms(1,5) a(1) b h
    by (simp add: suffix_find_self [OF assms(2)] Let_def)
  then show ?thesis using read_as_made [OF assms(5,4) refl] by simp
qed

lemma string_token_read:
  assumes "plain_string l" "in_source sc" "sc_start sc = sc_current sc" "rest sc = l @ blank_then cs"
  shows "read_as sc l TOKEN_STRING (scanString (skip (Suc 0) sc))"
proof -
  obtain body where l: "l = ch CHR 0x22 # body @ [ch CHR 0x22]" "0 \<notin> set body" "10 \<notin> set body"
    "ch CHR 0x22 \<notin> set body" "ch CHR 0x5C \<notin> set body"
    using assms(1) unfolding plain_string_def by blast
  have in1: "in_source (skip (Suc 0) sc)" using assms l(1) by (intro in_source_skip1) simp_all
  have "string_loop (skip (Suc 0) sc) = Some (skip (length body) (skip (Suc 0) sc))"
    using assms(4) l by (intro string_loop_plain [OF in1, of _ "blank_then cs"]) simp_all
  moreover have "in_source (skip (Suc (length body)) sc)" using assms l(1) by (intro in_source_skip) simp_all
  ultimately have "scanString (skip (Suc 0) sc) =
      Some (makeToken (skip (length l) sc) TOKEN_STRING, skip (length l) sc)"
    using assms(4) l(1) by (simp add: scanString_def scan)
  then show ?thesis using read_as_made [OF assms(4,3) refl] by simp
qed

text \<open>The first character of a token decides the branch.\<close>

definition starts_token :: "bytes \<Rightarrow> bool" where
  "starts_token l \<longleftrightarrow>
     l \<noteq> [] \<and> hd l \<notin> {0, ch CHR '' '', 13, 9, 10, ch CHR ''#''} \<and> (hd l = ch CHR ''/'' \<longrightarrow> tl l = [])"

lemma isAlpha_first: "isAlpha c \<Longrightarrow> c \<notin> {0, ch CHR '' '', 13, 9, 10, ch CHR ''#'', ch CHR ''/''}"
  by (auto simp: isAlpha_def ch_def word_le_nat_alt)

lemma isDigit_first: "isDigit c \<Longrightarrow> c \<notin> {0, ch CHR '' '', 13, 9, 10, ch CHR ''#'', ch CHR ''/''}"
  by (auto simp: isDigit_def ch_def word_le_nat_alt)

lemma at_first: "ch CHR ''@'' \<notin> {0, ch CHR '' '', 13, 9, 10, ch CHR ''#'', ch CHR ''/''}"
  "ch CHR 0x22 \<notin> {0, ch CHR '' '', 13, 9, 10, ch CHR ''#'', ch CHR ''/''}"
  by (simp_all add: ch_def)

lemma keyword_is_word: "(s, type) \<in> set keyword_table \<Longrightarrow> is_word (ascii s)"
proof -
  have "list_all (\<lambda>(s, _). is_word (ascii s)) keyword_table" by code_simp
  then show "(s, type) \<in> set keyword_table \<Longrightarrow> is_word (ascii s)" by (auto simp: list_all_iff)
qed

lemma symbol_first:
  assumes "(s, type) \<in> set symbol_table"
  shows "starts_token (ascii s) \<and> s \<noteq> [] \<and> \<not> isAlpha (ch (hd s)) \<and> \<not> isDigit (ch (hd s)) \<and>
    hd s \<noteq> CHR ''@'' \<and> hd s \<noteq> CHR ''$''"
proof -
  have "list_all (\<lambda>(s, _). starts_token (ascii s) \<and> s \<noteq> [] \<and> \<not> isAlpha (ch (hd s)) \<and>
    \<not> isDigit (ch (hd s)) \<and> hd s \<noteq> CHR ''@'' \<and> hd s \<noteq> CHR ''$'') symbol_table" by code_simp
  then show ?thesis using assms by (auto simp: list_all_iff)
qed

definition branch :: "u8 \<Rightarrow> u8 \<Rightarrow> Scanner \<Rightarrow> (Token \<times> Scanner) option" where
  "branch c next_c sc =
     (if isAlpha c then scanIdentifier sc
      else if c = ch CHR ''@'' \<and> isAlpha next_c then scanIdentifier sc
      else if c = ch CHR ''$'' \<and> next_c = ch CHR 0x22 then
        interpSegment TOKEN_INTERP_START TOKEN_INTERP_STRING (skip (Suc 0) sc)
      else if isDigit c then scanNumber sc
      else scan_symbol c sc)"

text \<open>One token, after at most one blank.\<close>

lemma scanToken_start:
  assumes "in_source sc" "rest sc = sp @ l @ blank_then cs" "sp = [] \<or> sp = [ch CHR '' '']" "starts_token l"
  obtains sc1 where "in_source sc1" "rest sc1 = l @ blank_then cs" "sc_start sc1 = sc_current sc1"
    "sc_line sc1 = sc_line sc" "sc_interpDepth sc1 = sc_interpDepth sc"
    "scanToken sc = branch (hd l) (hd0 (tl l @ blank_then cs)) (skip (Suc 0) sc1)"
proof -
  obtain c ds where l: "l = c # ds" using assms(4) by (cases l) (auto simp: starts_token_def)
  let ?sp = "skip (length sp) sc"
  have inp: "in_source ?sp" using assms(1,2) by (intro in_source_skip) simp_all
  have rp: "rest ?sp = l @ blank_then cs" using assms(2) by simp
  have "skipWhitespace ?sp = Some ?sp"
    using assms(4) l rp
    by (intro skipWhitespace_stop [OF inp, of c "ds @ blank_then cs"]) (auto simp: starts_token_def)
  then have ws: "skipWhitespace sc = Some ?sp"
    using assms(2,3) skipWhitespace_space [OF assms(1)] by auto
  let ?sc = "?sp\<lparr>sc_start := sc_current ?sp\<rparr>"
  have "c \<noteq> 0" using assms(4) l by (auto simp: starts_token_def)
  moreover have "in_source (skip (Suc 0) ?sc)"
    using inp rp l by (intro in_source_skip1) (use \<open>c \<noteq> 0\<close> in auto)
  ultimately have "scanToken sc = branch (hd l) (hd0 (tl l @ blank_then cs)) (skip (Suc 0) ?sc)"
    using inp rp l by (simp add: scanToken_def ws scan Let_def branch_def)
  then show ?thesis using inp rp by (intro that [of ?sc]) simp_all
qed

lemma hd0_append: "cs \<noteq> [] \<Longrightarrow> hd0 (cs @ ds) = hd0 cs"
  by (cases cs) auto

lemma scanToken_writable:
  assumes "in_source sc" "sc_interpDepth sc = 0" "rest sc = sp @ l @ blank_then cs"
    "sp = [] \<or> sp = [ch CHR '' '']" "writable type l"
  shows "\<exists>sc'. scanToken sc = Some (\<lparr>tok_type = type, tok_text = l, tok_line = sc_line sc\<rparr>, sc') \<and>
    in_source sc' \<and> sc_interpDepth sc' = 0 \<and> sc_line sc' = sc_line sc \<and> rest sc' = blank_then cs"
proof -
  have fin: ?thesis
    if "in_source sc1" "rest sc1 = l @ blank_then cs" "sc_line sc1 = sc_line sc" "sc_interpDepth sc1 = 0"
      "read_as sc1 l type (scanToken sc)" for sc1
    using that in_source_skip [OF that(1), of "length l"] by (simp add: read_as_def)
  have word: "\<exists>sc1. in_source sc1 \<and> rest sc1 = l @ blank_then cs \<and> sc_line sc1 = sc_line sc \<and>
      sc_interpDepth sc1 = 0 \<and> read_as sc1 l (identifierType l) (scanToken sc)" if w: "is_word l"
  proof -
    have st: "starts_token l"
      using w isAlpha_first at_first(1) by (auto simp: starts_token_def is_word_def split: list.splits)
    obtain sc1 where s: "in_source sc1" "rest sc1 = l @ blank_then cs" "sc_start sc1 = sc_current sc1"
      "sc_line sc1 = sc_line sc" "sc_interpDepth sc1 = sc_interpDepth sc"
      and run: "scanToken sc = branch (hd l) (hd0 (tl l @ blank_then cs)) (skip (Suc 0) sc1)" by (rule scanToken_start [OF assms(1,3,4) st])
    note r = word_read [OF w s(1,3,2)]
    have "isAlpha (hd0 (tl l)) \<Longrightarrow> hd0 (tl l @ blank_then cs) = hd0 (tl l)"
      by (rule hd0_append) auto
    then have "scanToken sc = scanIdentifier (skip (Suc 0) sc1)" unfolding run using r(2) by (auto simp: branch_def)
    then show ?thesis using s r(1) assms(2) by auto
  qed
  obtain str where str: "l = ascii str" using ascii_surj by blast
  consider (ident) "is_word l" "l \<notin> ascii ` fst ` set keyword_table" "type = TOKEN_IDENTIFIER"
    | (keyword) "(str, type) \<in> set keyword_table" | (symbol) "(str, type) \<in> set symbol_table"
    | (number) "is_number l" "type = TOKEN_NUMBER"
    | (suffixed) a b where "l = a @ b" "is_number a" "is_suffix b" "type = TOKEN_NUMBER_SUFFIXED"
    | (string) "plain_string l" "type = TOKEN_STRING"
    using assms(5) str unfolding writable_def by auto
  then show ?thesis
  proof cases
    case ident
    then have "str \<noteq> []" "map_of keyword_table str = None"
      using str by (auto simp: is_word_def ascii_def map_of_eq_None_iff)
    then have "identifierType l = type" using identifierType_keywords str ident(3) by simp
    then show ?thesis using word [OF ident(1)] fin by auto
  next
    case keyword
    then show ?thesis using word [OF keyword_is_word [OF keyword, folded str]] fin
        identifierType_table [OF keyword, folded str] by auto
  next
    case symbol
    note f = symbol_first [OF symbol]
    obtain sc1 where s: "in_source sc1" "rest sc1 = l @ blank_then cs" "sc_start sc1 = sc_current sc1"
      "sc_line sc1 = sc_line sc" "sc_interpDepth sc1 = sc_interpDepth sc"
      and run: "scanToken sc = branch (hd l) (hd0 (tl l @ blank_then cs)) (skip (Suc 0) sc1)" by (rule scanToken_start [OF assms(1,3,4)]) (use f str in auto)
    have "hd l = ch (hd str)" using f str by (simp add: ascii_def hd_map)
    then have "scanToken sc = scan_symbol (ch (hd str)) (skip (Suc 0) sc1)"
      unfolding run using f by (simp add: branch_def)
    then show ?thesis using symbol_read [OF symbol s(1,3), of cs] s assms(2) str fin by auto
  next
    case number
    note f = is_number_hd [OF number(1)]
    obtain sc1 where s: "in_source sc1" "rest sc1 = l @ blank_then cs" "sc_start sc1 = sc_current sc1"
      "sc_line sc1 = sc_line sc" "sc_interpDepth sc1 = sc_interpDepth sc"
      and run: "scanToken sc = branch (hd l) (hd0 (tl l @ blank_then cs)) (skip (Suc 0) sc1)"
      by (rule scanToken_start [OF assms(1,3,4)]) (use f isDigit_first in \<open>auto simp: starts_token_def\<close>)
    have "scanToken sc = scanNumber (skip (Suc 0) sc1)"
      unfolding run using f isDigit_not_alpha [of "hd l"] by (simp add: branch_def)
    then show ?thesis using number_token_read [OF number(1) s(1,3,2)] s assms(2) number(2) fin by auto
  next
    case suffixed
    note f = is_number_hd [OF suffixed(2)]
    then have h: "hd l = hd a" "l \<noteq> []" using suffixed(1) by auto
    obtain sc1 where s: "in_source sc1" "rest sc1 = l @ blank_then cs" "sc_start sc1 = sc_current sc1"
      "sc_line sc1 = sc_line sc" "sc_interpDepth sc1 = sc_interpDepth sc"
      and run: "scanToken sc = branch (hd l) (hd0 (tl l @ blank_then cs)) (skip (Suc 0) sc1)"
      by (rule scanToken_start [OF assms(1,3,4)]) (use f h isDigit_first in \<open>auto simp: starts_token_def\<close>)
    have "scanToken sc = scanNumber (skip (Suc 0) sc1)"
      unfolding run h(1) using f isDigit_not_alpha [of "hd a"] by (simp add: branch_def)
    then show ?thesis using suffixed_token_read [OF suffixed(2,3) s(1,3)] s assms(2) suffixed(1,4) fin by auto
  next
    case string
    then have h: "hd l = ch CHR 0x22" "l \<noteq> []" by (auto simp: plain_string_def)
    obtain sc1 where s: "in_source sc1" "rest sc1 = l @ blank_then cs" "sc_start sc1 = sc_current sc1"
      "sc_line sc1 = sc_line sc" "sc_interpDepth sc1 = sc_interpDepth sc"
      and run: "scanToken sc = branch (hd l) (hd0 (tl l @ blank_then cs)) (skip (Suc 0) sc1)"
      by (rule scanToken_start [OF assms(1,3,4)]) (use h at_first in \<open>auto simp: starts_token_def\<close>)
    have "\<not> isAlpha (ch CHR 0x22)" "\<not> isDigit (ch CHR 0x22)" by (simp_all add: isAlpha_def isDigit_def ch_def)
    then have "scanToken sc = scanString (skip (Suc 0) sc1)"
      unfolding run h(1) by (simp add: branch_def scan_symbol_def)
    then show ?thesis using string_token_read [OF string(1) s(1,3,2)] s assms(2) string(2) fin by auto
  qed
qed

definition written :: "Token list \<Rightarrow> bytes" where
  "written ts = concat (map (\<lambda>t. tok_text t @ [ch CHR '' '']) ts)"

lemma lex_loop_written:
  assumes "\<forall>t\<in>set ts. writable (tok_type t) (tok_text t) \<and> tok_line t = sc_line sc" "in_source sc"
    "sc_interpDepth sc = 0" "rest sc = sp @ written ts" "sp = [] \<or> sp = [ch CHR '' '']"
  shows "lex_loop sc st = Some (st\<lparr>ts_tokens := ts_tokens st @ ts @
    [\<lparr>tok_type = TOKEN_EOF, tok_text = [], tok_line = sc_line sc\<rparr>]\<rparr>)"
  using assms
proof (induction ts arbitrary: sc st sp)
  case Nil
  let ?sp = "skip (length sp) sc"
  have r: "rest ?sp = []" and inp: "in_source ?sp"
    using Nil.prems by (auto simp: written_def intro: in_source_skip)
  have "skipWhitespace ?sp = Some ?sp" using inp r by (subst skipWhitespace.simps) (simp add: scan)
  then have "skipWhitespace sc = Some ?sp"
    using Nil.prems skipWhitespace_space [of sc "[]"] by (auto simp: written_def)
  then have "scanToken sc = Some (\<lparr>tok_type = TOKEN_EOF, tok_text = [], tok_line = sc_line sc\<rparr>,
      ?sp\<lparr>sc_start := sc_current ?sp\<rparr>)"
    using inp r by (simp add: scanToken_def scan Let_def makeToken_def lexeme_def)
  then show ?case by (subst lex_loop.simps) (simp add: tsWrite_def Let_def)
next
  case (Cons t ts)
  let ?b = "[ch CHR '' '']"
  have w: "writable (tok_type t) (tok_text t)" and line: "tok_line t = sc_line sc" using Cons.prems(1) by auto
  have r: "rest sc = sp @ tok_text t @ blank_then (written ts)" using Cons.prems(4) by (simp add: written_def)
  obtain sc' where sc': "scanToken sc = Some (\<lparr>tok_type = tok_type t, tok_text = tok_text t, tok_line = sc_line sc\<rparr>, sc')"
    "in_source sc'" "sc_interpDepth sc' = 0" "sc_line sc' = sc_line sc" "rest sc' = blank_then (written ts)"
    using scanToken_writable [OF Cons.prems(2,3) r Cons.prems(5) w] by blast
  have t: "\<lparr>tok_type = tok_type t, tok_text = tok_text t, tok_line = sc_line sc\<rparr> = t" using line by simp
  have eof: "tok_type t \<noteq> TOKEN_EOF"
    using w by (auto simp: writable_def keyword_table_def symbol_table_def)
  have "lex_loop sc st = lex_loop sc' (tsWrite t st)"
    using sc'(1) eof unfolding t by (subst lex_loop.simps) (simp add: Let_def)
  also have "\<dots> = Some (tsWrite t st\<lparr>ts_tokens := ts_tokens (tsWrite t st) @ ts @
    [\<lparr>tok_type = TOKEN_EOF, tok_text = [], tok_line = sc_line sc'\<rparr>]\<rparr>)"
    by (rule Cons.IH [OF _ sc'(2,3), of ?b]) (use Cons.prems(1) sc'(4,5) in auto)
  finally show ?case using sc'(4) by (simp add: tsWrite_def)
qed

text \<open>C27. Words, numbers, symbols and strings written one after the other, each followed by a blank, are
  read back as the same tokens.\<close>

theorem lex_reads_back:
  assumes "\<forall>t\<in>set ts. writable (tok_type t) (tok_text t) \<and> tok_line t = 1"
  shows "lex (written ts) =
    Some \<lparr>ts_tokens = ts @ [\<lparr>tok_type = TOKEN_EOF, tok_text = [], tok_line = 1\<rparr>], ts_current = 0\<rparr>"
proof -
  have line: "sc_line (initScanner source) = 1" and depth: "sc_interpDepth (initScanner source) = 0" for source
    by (simp_all add: initScanner_def)
  show ?thesis
    unfolding lex_def
    using lex_loop_written [of ts "initScanner (written ts)" "[]" tsInit] assms
    by (simp add: line depth lex_initial) (simp add: tsInit_def)
qed

lemma lex_reads_back_witness:
  "lex (written [\<lparr>tok_type = TOKEN_LET, tok_text = ascii ''let'', tok_line = 1\<rparr>,
      \<lparr>tok_type = TOKEN_QUESTION_QUESTION, tok_text = ascii ''??'', tok_line = 1\<rparr>]) =
   Some \<lparr>ts_tokens = [\<lparr>tok_type = TOKEN_LET, tok_text = ascii ''let'', tok_line = 1\<rparr>,
      \<lparr>tok_type = TOKEN_QUESTION_QUESTION, tok_text = ascii ''??'', tok_line = 1\<rparr>,
      \<lparr>tok_type = TOKEN_EOF, tok_text = [], tok_line = 1\<rparr>], ts_current = 0\<rparr>"
proof -
  have "writable TOKEN_LET (ascii ''let'')" "writable TOKEN_QUESTION_QUESTION (ascii ''??'')"
    unfolding writable_def by (auto simp: keyword_table_def symbol_table_def)
  then show ?thesis using lex_reads_back [of "[\<lparr>tok_type = TOKEN_LET, tok_text = ascii ''let'', tok_line = 1\<rparr>,
      \<lparr>tok_type = TOKEN_QUESTION_QUESTION, tok_text = ascii ''??'', tok_line = 1\<rparr>]"] by simp
qed

end
