(* ===== verification/Ast.thy ===== *)
theory Ast
  imports Token Number_Kind
begin

text \<open>
  The syntax tree, \<^verbatim>\<open>src/ast.h\<close>.  Every node has its line first, then the fields of its C struct; a
  pointer that may be NULL is an option, and a counted array is a list.  The fields that the type
  checker fills in (\<open>isStringConcat\<close>, a cast's target, the conversions of an interpolated string, whether
  an array literal has a fixed size) are part of the node.  An \<open>impl\<close> node also has its address, by which
  the type checker's table of resolved targets is keyed.
\<close>

datatype LiteralNode =
    LITERAL_NIL | LITERAL_UNIT | LITERAL_BOOL bool
  | LITERAL_NUMBER NumberKind NumberPayload bool u64 bool
  | LITERAL_STRING bytes

datatype StringConversion =
    STRING_CONVERSION_UNDEFINED | STRING_CONVERSION_STRING | STRING_CONVERSION_NUMBER
  | STRING_CONVERSION_BOOL | STRING_CONVERSION_DISPLAY

datatype TypeNode =
    NODE_TYPE int Token "TypeNode list"
  | NODE_TYPE_FUNCTION int "TypeNode list" TypeNode
  | NODE_TYPE_LIST int TypeNode
  | NODE_TYPE_ARRAY int TypeNode int

datatype AstNode =
    NODE_LITERAL int LiteralNode
  | NODE_UNARY int Token AstNode
  | NODE_BINARY int Token AstNode AstNode bool
  | NODE_GROUPING int AstNode
  | NODE_VARIABLE int Token
  | NODE_ASSIGN int Token AstNode
  | NODE_AND int AstNode AstNode
  | NODE_OR int AstNode AstNode
  | NODE_NULLISH int AstNode AstNode
  | NODE_CALL int AstNode Token "AstNode list" bool
  | NODE_GET int AstNode Token
  | NODE_SET int AstNode Token AstNode
  | NODE_SELF int Token
  | NODE_INDEX_GET int AstNode AstNode Token
  | NODE_INDEX_SET int AstNode AstNode AstNode Token
  | NODE_EXPR_STMT int AstNode
  | NODE_VAR_DECL int VarDeclNode
  | NODE_BLOCK int BlockNode
  | NODE_IF int AstNode AstNode "AstNode option"
  | NODE_WHILE int AstNode AstNode
  | NODE_FOR int "AstNode option" "AstNode option" AstNode "AstNode option"
  | NODE_RETURN int "AstNode option"
  | NODE_FUNCTION int FunctionNode
  | NODE_STRUCT int Token "Token list" "VarDeclNode list" int
  | NODE_STRUCT_INIT int Token "(Token \<times> AstNode) list" int
  | NODE_IMPL int nat Token "Token list" "Token option" "FunctionNode list" int
  | NODE_TRAIT int Token "Token option" "FunctionNode list" int bool
  | NODE_ARRAY int "AstNode list" bool
  | NODE_BREAK int Token
  | NODE_CONTINUE int Token
  | NODE_TYPE_EXPR TypeNode
  | NODE_TYPE_ALIAS int Token "Token list" TypeNode
  | NODE_INTERP_STRING int "(AstNode \<times> StringConversion) list"
  | NODE_CAST int AstNode TypeNode Token NumberKind
and BlockNode =
  BlockNode (bl_stmts: "AstNode list") (bl_value: "AstNode option") (bl_endLine: int)
and VarDeclNode =
  VarDeclNode (vd_name: Token) (vd_initializer: "AstNode option") (vd_declaredType: "TypeNode option")
    (vd_declEndLine: int) (vd_isMutable: bool) (vd_isPublic: bool)
and FunctionNode =
  FunctionNode (fn_name: Token) (fn_params: "Token list") (fn_paramTypes: "TypeNode option list")
    (fn_body: BlockNode) (fn_exprBody: "AstNode option") (fn_returnType: "TypeNode option")
    (fn_bodyEndLine: int) (fn_isMethod: bool) (fn_hasSelf: bool) (fn_isLambda: bool)
    (fn_isPublic: bool) (fn_isTraitSignature: bool) (fn_genericParams: "Token list")

fun type_line :: "TypeNode \<Rightarrow> int" where
  "type_line (NODE_TYPE line _ _) = line"
| "type_line (NODE_TYPE_FUNCTION line _ _) = line"
| "type_line (NODE_TYPE_LIST line _) = line"
| "type_line (NODE_TYPE_ARRAY line _ _) = line"

section \<open>The nodes of a tree\<close>

definition opt_list :: "'a option \<Rightarrow> 'a list" where
  "opt_list x = (case x of None \<Rightarrow> [] | Some a \<Rightarrow> [a])"

lemma opt_list_simps [simp]: "opt_list None = []" "opt_list (Some x) = [x]"
  by (simp_all add: opt_list_def)

lemma opt_list_set [simp]: "set (opt_list x) = set_option x"
  by (cases x) (simp_all add: opt_list_def)

definition block_nodes :: "BlockNode \<Rightarrow> AstNode list" where
  "block_nodes blk = bl_stmts blk @ opt_list (bl_value blk)"

definition function_nodes :: "FunctionNode \<Rightarrow> AstNode list" where
  "function_nodes fn = block_nodes (fn_body fn) @ opt_list (fn_exprBody fn)"

definition field_nodes :: "VarDeclNode list \<Rightarrow> AstNode list" where
  "field_nodes ds = concat (map (\<lambda>d. opt_list (vd_initializer d)) ds)"

fun node_children :: "AstNode \<Rightarrow> AstNode list" where
  "node_children (NODE_UNARY _ _ x) = [x]"
| "node_children (NODE_BINARY _ _ x y _) = [x, y]"
| "node_children (NODE_GROUPING _ x) = [x]"
| "node_children (NODE_ASSIGN _ _ x) = [x]"
| "node_children (NODE_AND _ x y) = [x, y]"
| "node_children (NODE_OR _ x y) = [x, y]"
| "node_children (NODE_NULLISH _ x y) = [x, y]"
| "node_children (NODE_CALL _ x _ xs _) = x # xs"
| "node_children (NODE_GET _ x _) = [x]"
| "node_children (NODE_SET _ x _ y) = [x, y]"
| "node_children (NODE_INDEX_GET _ x y _) = [x, y]"
| "node_children (NODE_INDEX_SET _ x y z _) = [x, y, z]"
| "node_children (NODE_EXPR_STMT _ x) = [x]"
| "node_children (NODE_VAR_DECL _ vd) = opt_list (vd_initializer vd)"
| "node_children (NODE_BLOCK _ blk) = block_nodes blk"
| "node_children (NODE_IF _ x y z) = x # y # opt_list z"
| "node_children (NODE_WHILE _ x y) = [x, y]"
| "node_children (NODE_FOR _ x y z i) = opt_list x @ opt_list y @ z # opt_list i"
| "node_children (NODE_RETURN _ x) = opt_list x"
| "node_children (NODE_FUNCTION _ fn) = function_nodes fn"
| "node_children (NODE_STRUCT _ _ _ ds _) = field_nodes ds"
| "node_children (NODE_STRUCT_INIT _ _ inits _) = map snd inits"
| "node_children (NODE_IMPL _ _ _ _ _ fns _) = concat (map function_nodes fns)"
| "node_children (NODE_TRAIT _ _ _ fns _ _) = concat (map function_nodes fns)"
| "node_children (NODE_ARRAY _ xs _) = xs"
| "node_children (NODE_INTERP_STRING _ parts) = map fst parts"
| "node_children (NODE_CAST _ x _ _ _) = [x]"
| "node_children _ = []"

lemma size_block: "size b = Suc (size_list size (bl_stmts b) + size_option size (bl_value b))"
  by (cases b) simp

lemma size_var_decl: "vd_initializer d = Some e \<Longrightarrow> size e < size d"
  by (cases d) simp

lemma size_function: "size (fn_body f) < size f" "fn_exprBody f = Some e \<Longrightarrow> size e < size f"
  by (cases f; simp)+

lemma size_list_sum: "size_list f xs = sum_list (map f xs) + length xs"
  by (induction xs) simp_all

lemma opt_list_size: "m \<in> set (opt_list x) \<Longrightarrow> size m < size_option size x"
  by (cases x) (auto simp: opt_list_def)

lemma list_member_size: "m \<in> set xs \<Longrightarrow> size m < size_list size xs"
  by (induction xs) auto

lemma snd_member_size: "m \<in> snd ` set ps \<Longrightarrow> size m < size_list (size_prod (\<lambda>_. 0) size) ps"
  by (induction ps) force+

lemma fst_member_size: "m \<in> fst ` set qs \<Longrightarrow> size m < size_list (size_prod size (\<lambda>_. 0)) qs"
  by (induction qs) force+

lemma block_member_size: "m \<in> set (block_nodes b) \<Longrightarrow> size m < size b"
  unfolding size_block block_nodes_def
  by (auto dest: list_member_size opt_list_size [of m, unfolded opt_list_set])

lemma function_member_size: "m \<in> set (function_nodes f) \<Longrightarrow> size m < size f"
  using size_function [of f] by (force simp: function_nodes_def dest: block_member_size)

lemma field_member_size: "m \<in> set (field_nodes ds) \<Longrightarrow> size m < size_list size ds"
  by (force simp: field_nodes_def dest: size_var_decl list_member_size)

lemma method_member_size: "m \<in> set (concat (map function_nodes fs)) \<Longrightarrow> size m < size_list size fs"
  by (force dest: function_member_size list_member_size)

lemma option_size: "x = Some m \<Longrightarrow> size m < size_option size x"
  by simp

lemma node_children_size: "m \<in> set (node_children n) \<Longrightarrow> size m < size n"
proof (cases n)
qed (auto simp del: set_concat set_map dest: option_size list_member_size block_member_size function_member_size
    field_member_size method_member_size size_var_decl
    snd_member_size [unfolded set_map [symmetric]] fst_member_size [unfolded set_map [symmetric]])

function nodes_in :: "AstNode \<Rightarrow> AstNode list" where
  "nodes_in n = n # concat (map nodes_in (node_children n))"
  by auto
termination
  by (relation "measure size") (auto simp: node_children_size)

declare nodes_in.simps [simp del]

lemma nodes_in_self: "n \<in> set (nodes_in n)"
  by (subst nodes_in.simps) simp

lemma nodes_in_child: "m \<in> set (node_children n) \<Longrightarrow> set (nodes_in m) \<subseteq> set (nodes_in n)"
  by (subst (2) nodes_in.simps) auto

text \<open>A condition on the number literals of a tree.\<close>

definition literals_ok :: "(NumberKind \<Rightarrow> NumberPayload \<Rightarrow> bool) \<Rightarrow> AstNode \<Rightarrow> bool" where
  "literals_ok P n \<longleftrightarrow>
     list_all (\<lambda>m. case m of NODE_LITERAL _ (LITERAL_NUMBER k p _ _ _) \<Rightarrow> P k p | _ \<Rightarrow> True) (nodes_in n)"

lemma literals_ok_literal: "literals_ok P (NODE_LITERAL l (LITERAL_NUMBER k p a b s)) \<Longrightarrow> P k p"
  using nodes_in_self [of "NODE_LITERAL l (LITERAL_NUMBER k p a b s)"]
  by (force simp: literals_ok_def list_all_iff)

lemma literals_ok_child: "literals_ok P n \<Longrightarrow> m \<in> set (node_children n) \<Longrightarrow> literals_ok P m"
  using nodes_in_child [of m n] by (auto simp: literals_ok_def list_all_iff)

end
