(* ===== verification/Definite_Assignment.thy ===== *)
theory Definite_Assignment
  imports Ast
begin

text \<open>
  The check that a variable is assigned before it is read, \<^verbatim>\<open>src/definite_assignment.c\<close>.  A \<open>DaaSet\<close>
  holds the declared names that may still be unassigned; its capacity is left out.  The reported
  errors, which the C code writes and records in the type checker, are kept beside the set.
\<close>

record Daa =
  daa_names :: "Token list"
  daa_errors :: "Token list"

definition daaSetInit :: "Token list" where
  "daaSetInit = []"

definition daaSetAdd :: "Token list \<Rightarrow> Token \<Rightarrow> Token list" where
  "daaSetAdd names name = names @ [name]"

definition daaSetContains :: "Token list \<Rightarrow> Token \<Rightarrow> bool" where
  "daaSetContains names name \<longleftrightarrow> (\<exists>n\<in>set names. tokensEqual n name)"

text \<open>The first entry with the name is replaced by the last entry.\<close>

fun daa_index :: "Token list \<Rightarrow> Token \<Rightarrow> nat \<Rightarrow> nat option" where
  "daa_index [] name i = None"
| "daa_index (n # ns) name i = (if tokensEqual n name then Some i else daa_index ns name (i + 1))"

definition daaSetRemove :: "Token list \<Rightarrow> Token \<Rightarrow> Token list" where
  "daaSetRemove names name =
     (case daa_index names name 0 of
        None \<Rightarrow> names
      | Some i \<Rightarrow> butlast (names[i := last names]))"

fun daaSetUnionInto :: "Token list \<Rightarrow> Token list \<Rightarrow> Token list" where
  "daaSetUnionInto into [] = into"
| "daaSetUnionInto into (n # ns) =
     daaSetUnionInto (if daaSetContains into n then into else daaSetAdd into n) ns"

definition daa_read :: "Token \<Rightarrow> Daa \<Rightarrow> Daa" where
  "daa_read name daa =
     (if daaSetContains (daa_names daa) name then daa\<lparr>daa_errors := daa_errors daa @ [name]\<rparr> else daa)"

text \<open>The kinds that \<open>daaCheckAssignmentStmt\<close> handles itself.\<close>

fun daa_is_statement :: "AstNode \<Rightarrow> bool" where
  "daa_is_statement (NODE_EXPR_STMT _ _) = True"
| "daa_is_statement (NODE_VAR_DECL _ _) = True"
| "daa_is_statement (NODE_WHILE _ _ _) = True"
| "daa_is_statement (NODE_FOR _ _ _ _ _) = True"
| "daa_is_statement (NODE_RETURN _ _) = True"
| "daa_is_statement (NODE_BREAK _ _) = True"
| "daa_is_statement (NODE_CONTINUE _ _) = True"
| "daa_is_statement (NODE_IF _ _ _ _) = True"
| "daa_is_statement (NODE_BLOCK _ _) = True"
| "daa_is_statement (NODE_FUNCTION _ _) = True"
| "daa_is_statement _ = False"

lemma pairs_size:
  "sum_list (map (size \<circ> snd) xs) \<le> sum_list (map (size_prod (\<lambda>_. 0) size) xs)"
  "sum_list (map (size \<circ> fst) ys) \<le> sum_list (map (size_prod size (\<lambda>_. 0)) ys)"
  by (induction xs) (auto, induction ys, auto)

function daaCheckAssignmentExpr :: "AstNode \<Rightarrow> Daa \<Rightarrow> Daa"
  and daaCheckExprs :: "AstNode list \<Rightarrow> Daa \<Rightarrow> Daa"
  and daaCheckAssignmentBlock :: "AstNode list \<Rightarrow> AstNode option \<Rightarrow> Daa \<Rightarrow> bool \<times> Daa"
  and daaCheckAssignmentStmt :: "AstNode \<Rightarrow> Daa \<Rightarrow> bool \<times> Daa"
where
  "daaCheckAssignmentExpr node daa =
     (case node of
        NODE_VARIABLE _ name \<Rightarrow> daa_read name daa
      | NODE_ASSIGN _ name val \<Rightarrow>
          let daa = daaCheckAssignmentExpr val daa
          in daa\<lparr>daa_names := daaSetRemove (daa_names daa) name\<rparr>
      | NODE_UNARY _ _ operand \<Rightarrow> daaCheckAssignmentExpr operand daa
      | NODE_BINARY _ _ left right _ \<Rightarrow> daaCheckAssignmentExpr right (daaCheckAssignmentExpr left daa)
      | NODE_GROUPING _ inner \<Rightarrow> daaCheckAssignmentExpr inner daa
      | NODE_AND _ left right \<Rightarrow> daaCheckAssignmentExpr right (daaCheckAssignmentExpr left daa)
      | NODE_OR _ left right \<Rightarrow> daaCheckAssignmentExpr right (daaCheckAssignmentExpr left daa)
      | NODE_NULLISH _ left right \<Rightarrow> daaCheckAssignmentExpr right (daaCheckAssignmentExpr left daa)
      | NODE_CALL _ callee _ args _ \<Rightarrow> daaCheckExprs args (daaCheckAssignmentExpr callee daa)
      | NODE_GET _ object _ \<Rightarrow> daaCheckAssignmentExpr object daa
      | NODE_SET _ object _ val \<Rightarrow> daaCheckAssignmentExpr val (daaCheckAssignmentExpr object daa)
      | NODE_INDEX_GET _ object index _ \<Rightarrow>
          daaCheckAssignmentExpr index (daaCheckAssignmentExpr object daa)
      | NODE_INDEX_SET _ object index val _ \<Rightarrow>
          daaCheckAssignmentExpr val (daaCheckAssignmentExpr index (daaCheckAssignmentExpr object daa))
      | NODE_STRUCT_INIT _ _ inits _ \<Rightarrow> daaCheckExprs (map snd inits) daa
      | NODE_ARRAY _ items _ \<Rightarrow> daaCheckExprs items daa
      | NODE_INTERP_STRING _ parts \<Rightarrow> daaCheckExprs (map fst parts) daa
      | NODE_IF _ _ _ _ \<Rightarrow> snd (daaCheckAssignmentStmt node daa)
      | NODE_BLOCK _ _ \<Rightarrow> snd (daaCheckAssignmentStmt node daa)
      | _ \<Rightarrow> daa)"
| "daaCheckExprs nodes daa =
     (case nodes of
        [] \<Rightarrow> daa
      | n # ns \<Rightarrow> daaCheckExprs ns (daaCheckAssignmentExpr n daa))"
| "daaCheckAssignmentBlock stmts val daa =
     (case stmts of
        [] \<Rightarrow> (False, case val of Some v \<Rightarrow> daaCheckAssignmentExpr v daa | None \<Rightarrow> daa)
      | s # ss \<Rightarrow>
          let (escapes, daa) = daaCheckAssignmentStmt s daa
          in if escapes then (True, daa) else daaCheckAssignmentBlock ss val daa)"
| "daaCheckAssignmentStmt node daa =
     (if \<not> daa_is_statement node then (False, daaCheckAssignmentExpr node daa)
      else case node of
        NODE_EXPR_STMT _ expr \<Rightarrow> (False, daaCheckAssignmentExpr expr daa)
      | NODE_VAR_DECL _ vd \<Rightarrow>
          (False,
           case vd_initializer vd of
             Some e \<Rightarrow> daaCheckAssignmentExpr e daa
           | None \<Rightarrow> daa\<lparr>daa_names := daaSetAdd (daa_names daa) (vd_name vd)\<rparr>)
      | NODE_WHILE _ condition body \<Rightarrow>
          let daa = daaCheckAssignmentExpr condition daa;
              (_, bodyDaa) = daaCheckAssignmentStmt body daa
          in (False, daa\<lparr>daa_errors := daa_errors bodyDaa\<rparr>)
      | NODE_FOR _ init condition body increment \<Rightarrow>
          let daa = (case init of Some i \<Rightarrow> snd (daaCheckAssignmentStmt i daa) | None \<Rightarrow> daa);
              daa = (case condition of Some e \<Rightarrow> daaCheckAssignmentExpr e daa | None \<Rightarrow> daa);
              (_, bodyDaa) = daaCheckAssignmentStmt body daa;
              bodyDaa = (case increment of Some e \<Rightarrow> daaCheckAssignmentExpr e bodyDaa | None \<Rightarrow> bodyDaa)
          in (False, daa\<lparr>daa_errors := daa_errors bodyDaa\<rparr>)
      | NODE_RETURN _ val \<Rightarrow>
          (True, case val of Some v \<Rightarrow> daaCheckAssignmentExpr v daa | None \<Rightarrow> daa)
      | NODE_BREAK _ _ \<Rightarrow> (True, daa)
      | NODE_CONTINUE _ _ \<Rightarrow> (True, daa)
      | NODE_IF _ condition thenBranch elseBranch \<Rightarrow>
          let daa = daaCheckAssignmentExpr condition daa;
              (thenEscapes, thenDaa) = daaCheckAssignmentStmt thenBranch daa;
              (elseEscapes, elseDaa) =
                (case elseBranch of
                   Some e \<Rightarrow> daaCheckAssignmentStmt e (daa\<lparr>daa_errors := daa_errors thenDaa\<rparr>)
                 | None \<Rightarrow> (False, daa\<lparr>daa_errors := daa_errors thenDaa\<rparr>))
          in if thenEscapes \<and> elseEscapes then (True, daa\<lparr>daa_errors := daa_errors elseDaa\<rparr>)
             else if thenEscapes then (False, elseDaa)
             else if elseEscapes then (False, elseDaa\<lparr>daa_names := daa_names thenDaa\<rparr>)
             else (False, elseDaa\<lparr>daa_names :=
                     daaSetUnionInto (daaSetUnionInto daaSetInit (daa_names thenDaa)) (daa_names elseDaa)\<rparr>)
      | NODE_BLOCK _ blk \<Rightarrow> daaCheckAssignmentBlock (bl_stmts blk) (bl_value blk) daa
      | NODE_FUNCTION _ _ \<Rightarrow> (False, daa)
      | _ \<Rightarrow> (False, daa))"
  by pat_completeness auto
termination
  by (relation "measure (\<lambda>x. case x of
      Inl (Inl (n, _)) \<Rightarrow> 3 * size n + (if daa_is_statement n then 2 else 0)
    | Inl (Inr (ns, _)) \<Rightarrow> 3 * sum_list (map size ns) + 3 * length ns + 1
    | Inr (Inl (ss, v, _)) \<Rightarrow> 3 * size_list size ss + 3 * size_option size v
    | Inr (Inr (n, _)) \<Rightarrow> 3 * size n + 1)")
   (auto simp: size_list_sum size_block less_Suc_eq_le dest!: size_var_decl
      intro!: le_SucI mult_le_mono2 pairs_size)

text \<open>The names read before they are assigned in a function; a body given as an expression is not checked.\<close>

definition daaCheckFn :: "FunctionNode \<Rightarrow> Token list" where
  "daaCheckFn fn =
     (if fn_exprBody fn \<noteq> None then []
      else daa_errors (snd (daaCheckAssignmentBlock (bl_stmts (fn_body fn)) (bl_value (fn_body fn))
             \<lparr>daa_names = daaSetInit, daa_errors = []\<rparr>)))"

end
