(* ===== verification/Assignment_Safety.thy ===== *)
theory Assignment_Safety
  imports Definite_Assignment
begin

text \<open>
  What the definite assignment check promises: a function body that it accepts never reads a variable
  that has not been assigned.  Here the runs of a body are a relation on the set of names declared and not
  yet assigned; conditions are not looked at, so a run may take any branch and leave a loop after any
  number of rounds.  A set does not tell two variables of one name apart: \<open>Assignment_Scopes\<close> has the runs
  with scopes and relates them to these.
\<close>

section \<open>Runs\<close>

text \<open>\<open>Faults\<close> is the read of a variable that is not assigned.\<close>

datatype 'a outcome =
    Completes 'a | Breaks 'a | Continues 'a | Returns_value | Faults

text \<open>Names declared in a scope end with it.\<close>

fun leave_scope :: "bytes set \<Rightarrow> bytes set outcome \<Rightarrow> bytes set outcome" where
  "leave_scope U (Completes V) = Completes (V \<inter> U)"
| "leave_scope U (Breaks V) = Breaks (V \<inter> U)"
| "leave_scope U (Continues V) = Continues (V \<inter> U)"
| "leave_scope U Returns_value = Returns_value"
| "leave_scope U Faults = Faults"

fun completes :: "'a outcome \<Rightarrow> bool" where
  "completes (Completes _) = True"
| "completes _ = False"

text \<open>The operands that a node always evaluates, left to right.\<close>

fun strict_operands :: "AstNode \<Rightarrow> AstNode list option" where
  "strict_operands (NODE_UNARY _ _ operand) = Some [operand]"
| "strict_operands (NODE_BINARY _ _ left right _) = Some [left, right]"
| "strict_operands (NODE_GROUPING _ inner) = Some [inner]"
| "strict_operands (NODE_CAST _ expr _ _ _) = Some [expr]"
| "strict_operands (NODE_CALL _ callee _ args _) = Some (callee # args)"
| "strict_operands (NODE_GET _ object _) = Some [object]"
| "strict_operands (NODE_SET _ object _ val) = Some [object, val]"
| "strict_operands (NODE_INDEX_GET _ object index _) = Some [object, index]"
| "strict_operands (NODE_INDEX_SET _ object index val _) = Some [object, index, val]"
| "strict_operands (NODE_STRUCT_INIT _ _ inits _) = Some (map snd inits)"
| "strict_operands (NODE_ARRAY _ items _) = Some items"
| "strict_operands (NODE_INTERP_STRING _ parts) = Some (map fst parts)"
| "strict_operands (NODE_EXPR_STMT _ expr) = Some [expr]"
| "strict_operands _ = None"

fun logical_operands :: "AstNode \<Rightarrow> (AstNode \<times> AstNode) option" where
  "logical_operands (NODE_AND _ left right) = Some (left, right)"
| "logical_operands (NODE_OR _ left right) = Some (left, right)"
| "logical_operands (NODE_NULLISH _ left right) = Some (left, right)"
| "logical_operands _ = None"

text \<open>Nodes that read and assign nothing when they are reached.\<close>

fun inert :: "AstNode \<Rightarrow> bool" where
  "inert (NODE_LITERAL _ _) = True"
| "inert (NODE_SELF _ _) = True"
| "inert (NODE_FUNCTION _ _) = True"
| "inert (NODE_STRUCT _ _ _ _ _) = True"
| "inert (NODE_IMPL _ _ _ _ _ _ _) = True"
| "inert (NODE_TRAIT _ _ _ _ _ _) = True"
| "inert (NODE_TYPE_EXPR _) = True"
| "inert (NODE_TYPE_ALIAS _ _ _ _) = True"
| "inert _ = False"

definition declares :: "AstNode \<Rightarrow> bytes set \<Rightarrow> bytes set" where
  "declares n U =
     (case n of
        NODE_VAR_DECL _ vd \<Rightarrow> if vd_initializer vd = None then insert (tok_text (vd_name vd)) U else U
      | _ \<Rightarrow> U)"

text \<open>
  \<open>ev n U r\<close>: a run of \<open>n\<close> from the unassigned names \<open>U\<close>; \<open>evx\<close>: operands one after the other;
  \<open>evs\<close>: the statements of a scope, whose declarations add names; \<open>loop\<close>: the rounds of a loop, from its
  condition on, with what follows the body.
\<close>

inductive ev :: "AstNode \<Rightarrow> bytes set \<Rightarrow> bytes set outcome \<Rightarrow> bool"
  and evx :: "AstNode list \<Rightarrow> bytes set \<Rightarrow> bytes set outcome \<Rightarrow> bool"
  and evs :: "AstNode list \<Rightarrow> bytes set \<Rightarrow> bytes set outcome \<Rightarrow> bool"
  and evl :: "AstNode list \<Rightarrow> AstNode \<Rightarrow> AstNode list \<Rightarrow> bytes set \<Rightarrow> bytes set outcome \<Rightarrow> bool"
where
  ev_read: "ev (NODE_VARIABLE line name) U (if tok_text name \<in> U then Faults else Completes U)"
| ev_inert: "inert n \<Longrightarrow> ev n U (Completes U)"
| ev_strict: "strict_operands n = Some ns \<Longrightarrow> evx ns U r \<Longrightarrow> ev n U r"
| ev_skip_right: "logical_operands n = Some (a, b) \<Longrightarrow> evx [a] U r \<Longrightarrow> ev n U r"
| ev_both: "logical_operands n = Some (a, b) \<Longrightarrow> evx [a, b] U r \<Longrightarrow> ev n U r"
| ev_assign: "ev val U (Completes V) \<Longrightarrow> ev (NODE_ASSIGN line name val) U (Completes (V - {tok_text name}))"
| ev_assign_stop: "ev val U r \<Longrightarrow> \<not> completes r \<Longrightarrow> ev (NODE_ASSIGN line name val) U r"
| ev_var: "evx (opt_list (vd_initializer vd)) U r \<Longrightarrow> ev (NODE_VAR_DECL line vd) U r"
| ev_block: "evs (bl_stmts blk @ opt_list (bl_value blk)) U r \<Longrightarrow> ev (NODE_BLOCK line blk) U (leave_scope U r)"
| ev_if_stop: "ev c U r \<Longrightarrow> \<not> completes r \<Longrightarrow> ev (NODE_IF line c t e) U r"
| ev_then: "ev c U (Completes V) \<Longrightarrow> ev t V r \<Longrightarrow> ev (NODE_IF line c t e) U r"
| ev_else: "ev c U (Completes V) \<Longrightarrow> ev e V r \<Longrightarrow> ev (NODE_IF line c t (Some e)) U r"
| ev_no_else: "ev c U (Completes V) \<Longrightarrow> ev (NODE_IF line c t None) U (Completes V)"
| ev_while: "evl [c] body [] U r \<Longrightarrow> ev (NODE_WHILE line c body) U r"
| ev_for: "evs (opt_list init) U (Completes V) \<Longrightarrow> evl (opt_list c) body (opt_list incr) V r \<Longrightarrow>
    ev (NODE_FOR line init c body incr) U (leave_scope U r)"
| ev_for_stop: "evs (opt_list init) U r \<Longrightarrow> \<not> completes r \<Longrightarrow>
    ev (NODE_FOR line init c body incr) U (leave_scope U r)"
| ev_return: "evx (opt_list val) U (Completes V) \<Longrightarrow> ev (NODE_RETURN line val) U Returns_value"
| ev_return_stop: "evx (opt_list val) U r \<Longrightarrow> \<not> completes r \<Longrightarrow> ev (NODE_RETURN line val) U r"
| ev_break: "ev (NODE_BREAK line token) U (Breaks U)"
| ev_continue: "ev (NODE_CONTINUE line token) U (Continues U)"
| evx_nil: "evx [] U (Completes U)"
| evx_stop: "ev n U r \<Longrightarrow> \<not> completes r \<Longrightarrow> evx (n # ns) U r"
| evx_cons: "ev n U (Completes V) \<Longrightarrow> evx ns V r \<Longrightarrow> evx (n # ns) U r"
| evs_nil: "evs [] U (Completes U)"
| evs_stop: "ev n U r \<Longrightarrow> \<not> completes r \<Longrightarrow> evs (n # ns) U r"
| evs_cons: "ev n U (Completes V) \<Longrightarrow> evs ns (declares n V) r \<Longrightarrow> evs (n # ns) U r"
| evl_stop: "evx cs U r \<Longrightarrow> \<not> completes r \<Longrightarrow> evl cs body incr U r"
| evl_exit: "evx cs U (Completes V) \<Longrightarrow> evl cs body incr U (Completes V)"
| evl_leave: "evx cs U (Completes V) \<Longrightarrow> ev body V r \<Longrightarrow> r = Returns_value \<or> r = Faults \<Longrightarrow>
    evl cs body incr U r"
| evl_break: "evx cs U (Completes V) \<Longrightarrow> ev body V (Breaks W) \<Longrightarrow> evl cs body incr U (Completes W)"
| evl_incr_stop: "evx cs U (Completes V) \<Longrightarrow> ev body V b \<Longrightarrow> b = Completes W \<or> b = Continues W \<Longrightarrow>
    evx incr W r \<Longrightarrow> \<not> completes r \<Longrightarrow> evl cs body incr U r"
| evl_again: "evx cs U (Completes V) \<Longrightarrow> ev body V b \<Longrightarrow> b = Completes W \<or> b = Continues W \<Longrightarrow>
    evx incr W (Completes X) \<Longrightarrow> evl cs body incr X r \<Longrightarrow> evl cs body incr U r"

text \<open>Only the declarations of a scope add names, and they end with it.\<close>

fun names_of :: "bytes set outcome \<Rightarrow> bytes set" where
  "names_of (Completes V) = V"
| "names_of (Breaks V) = V"
| "names_of (Continues V) = V"
| "names_of _ = {}"

lemma names_leave: "names_of (leave_scope U r) \<subseteq> U"
  by (cases r) auto

lemma ev_shrinks:
  "ev n U r \<Longrightarrow> names_of r \<subseteq> U"
  "evx ns U r \<Longrightarrow> names_of r \<subseteq> U"
  "evs ns U r \<Longrightarrow> True"
  "evl cs body incr U r \<Longrightarrow> names_of r \<subseteq> U"
proof (induction rule: ev_evx_evs_evl.inducts)
qed (auto split: if_splits dest: names_leave [THEN subsetD], blast+)

section \<open>The programs that the check covers\<close>

text \<open>Children in the place of an expression, and in the place of a statement.\<close>

fun expr_children :: "AstNode \<Rightarrow> AstNode list" where
  "expr_children (NODE_ASSIGN _ _ val) = [val]"
| "expr_children (NODE_VAR_DECL _ vd) = opt_list (vd_initializer vd)"
| "expr_children (NODE_BLOCK _ blk) = opt_list (bl_value blk)"
| "expr_children (NODE_IF _ c _ _) = [c]"
| "expr_children (NODE_WHILE _ c _) = [c]"
| "expr_children (NODE_FOR _ _ c _ incr) = opt_list c @ opt_list incr"
| "expr_children (NODE_RETURN _ val) = opt_list val"
| "expr_children (NODE_AND _ a b) = [a, b]"
| "expr_children (NODE_OR _ a b) = [a, b]"
| "expr_children (NODE_NULLISH _ a b) = [a, b]"
| "expr_children n = (case strict_operands n of Some ns \<Rightarrow> ns | None \<Rightarrow> [])"

fun stmt_children :: "AstNode \<Rightarrow> AstNode list" where
  "stmt_children (NODE_BLOCK _ blk) = bl_stmts blk"
| "stmt_children (NODE_IF _ _ t e) = t # opt_list e"
| "stmt_children (NODE_WHILE _ _ body) = [body]"
| "stmt_children (NODE_FOR _ init _ body _) = opt_list init @ [body]"
| "stmt_children n = []"

lemma var_decl_child: "m \<in> set (opt_list (vd_initializer vd)) \<Longrightarrow> size m < Suc (size vd)"
  by (cases "vd_initializer vd") (auto simp: opt_list_def less_SucI dest: size_var_decl)

lemma expr_children_size: "m \<in> set (expr_children n) \<Longrightarrow> size m < size n"
proof (cases n)
qed (auto simp: size_block opt_list_size list_member_size snd_member_size fst_member_size var_decl_child
    trans_less_add1 trans_less_add2 less_SucI
    dest: opt_list_size list_member_size snd_member_size fst_member_size)

lemma stmt_children_size: "m \<in> set (stmt_children n) \<Longrightarrow> size m < size n"
  by (cases n) (auto simp: size_block dest: opt_list_size list_member_size)

function subnodes :: "AstNode \<Rightarrow> AstNode list" where
  "subnodes n = n # concat (map subnodes (expr_children n @ stmt_children n))"
  by auto
termination
  by (relation "measure size") (auto simp: expr_children_size stmt_children_size)

declare subnodes.simps [simp del]

definition expr_position :: "AstNode \<Rightarrow> bool" where
  "expr_position n \<longleftrightarrow>
     \<not> daa_is_statement n \<or> (case n of NODE_IF _ _ _ _ \<Rightarrow> True | NODE_BLOCK _ _ \<Rightarrow> True | _ \<Rightarrow> False)"

fun is_assign :: "AstNode \<Rightarrow> bool" where
  "is_assign (NODE_ASSIGN _ _ _) = True"
| "is_assign _ = False"

fun is_continue :: "AstNode \<Rightarrow> bool" where
  "is_continue (NODE_CONTINUE _ _) = True"
| "is_continue _ = False"

fun is_cast :: "AstNode \<Rightarrow> bool" where
  "is_cast (NODE_CAST _ _ _ _ _) = True"
| "is_cast _ = False"

text \<open>
  What the check does not look at: a cast, an assignment that \<open>and\<close>, \<open>or\<close> or \<open>??\<close> may skip, and a
  \<open>continue\<close> past an assignment that the increment of its loop relies on.
\<close>

definition node_covered :: "AstNode \<Rightarrow> bool" where
  "node_covered n \<longleftrightarrow>
     list_all expr_position (expr_children n) \<and> \<not> is_cast n \<and>
     (case logical_operands n of
        Some (a, b) \<Rightarrow> \<not> list_ex is_assign (subnodes b) | None \<Rightarrow> True) \<and>
     (case n of
        NODE_FOR _ _ _ body (Some _) \<Rightarrow> \<not> list_ex is_continue (subnodes body) | _ \<Rightarrow> True)"

definition covered :: "AstNode \<Rightarrow> bool" where
  "covered n \<longleftrightarrow> list_all node_covered (subnodes n)"

lemma subnodes_self: "n \<in> set (subnodes n)"
  by (subst subnodes.simps) simp

lemma subnodes_child:
  "m \<in> set (expr_children n) \<or> m \<in> set (stmt_children n) \<Longrightarrow> set (subnodes m) \<subseteq> set (subnodes n)"
  by (subst (2) subnodes.simps) auto

lemma covered_self: "covered n \<Longrightarrow> node_covered n"
  using subnodes_self by (auto simp: covered_def list_all_iff)

lemma covered_expr: "covered n \<Longrightarrow> m \<in> set (expr_children n) \<Longrightarrow> covered m \<and> expr_position m"
  using subnodes_child [of m n] covered_self [of n] by (auto simp: covered_def list_all_iff node_covered_def)

lemma covered_stmt: "covered n \<Longrightarrow> m \<in> set (stmt_children n) \<Longrightarrow> covered m"
  using subnodes_child [of m n] by (auto simp: covered_def list_all_iff)

section \<open>The set of the check\<close>

definition texts :: "Daa \<Rightarrow> bytes set" where
  "texts daa = tok_text ` set (daa_names daa)"

lemma daa_index_Some: "daa_index ns name i = Some j \<Longrightarrow> i \<le> j \<and> j - i < length ns \<and> tok_text (ns ! (j - i)) = tok_text name"
  by (induction ns arbitrary: i) (fastforce simp: nth_Cons' split: if_splits)+

lemma set_remove_at:
  assumes "i < length ns"
  shows "set ns - {ns ! i} \<subseteq> set (butlast (ns[i := last ns]))"
proof
  fix x assume x: "x \<in> set ns - {ns ! i}"
  then obtain j where j: "j < length ns" "ns ! j = x" "j \<noteq> i" by (auto simp: in_set_conv_nth)
  have len: "length (butlast (ns[i := last ns])) = length ns - 1" by simp
  show "x \<in> set (butlast (ns[i := last ns]))"
  proof (cases "j = length ns - 1")
    case True
    then have "last ns = x" "i < length ns - 1" using j assms last_conv_nth [of ns] by force+
    then show ?thesis using assms len by (metis length_list_update nth_butlast nth_list_update_eq nth_mem)
  next
    case False
    then have "butlast (ns[i := last ns]) ! j = x" "j < length (butlast (ns[i := last ns]))"
      using j len by (simp_all add: nth_butlast)
    then show ?thesis by (metis nth_mem)
  qed
qed

lemma texts_remove:
  "tok_text ` set ns - {tok_text name} \<subseteq> tok_text ` set (daaSetRemove ns name)"
proof (cases "daa_index ns name 0")
  case (Some i)
  then have "i < length ns" "tok_text (ns ! i) = tok_text name"
    using daa_index_Some [OF Some] by simp_all
  then show ?thesis using set_remove_at [of i ns] Some by (auto simp: daaSetRemove_def)
qed (simp add: daaSetRemove_def)

lemma texts_union:
  "tok_text ` set (daaSetUnionInto into ns) = tok_text ` set into \<union> tok_text ` set ns"
proof (induction ns arbitrary: into)
  case (Cons n ns)
  have "tok_text n \<in> tok_text ` set into" if "daaSetContains into n"
    using that unfolding daaSetContains_def tokensEqual_iff by (metis imageI)
  then show ?case using Cons.IH by (auto simp: daaSetAdd_def)
qed simp

lemma texts_read [simp]: "texts (daa_read name daa) = texts daa"
  by (simp add: daa_read_def texts_def)

section \<open>The check, one step at a time\<close>

declare daaCheckAssignmentExpr.simps [simp del] daaCheckExprs.simps [simp del]
  daaCheckAssignmentBlock.simps [simp del] daaCheckAssignmentStmt.simps [simp del]

lemmas check_expr = daaCheckAssignmentExpr.simps
lemmas check_stmt = daaCheckAssignmentStmt.simps

lemma check_exprs [simp]:
  "daaCheckExprs [] daa = daa"
  "daaCheckExprs (n # ns) daa = daaCheckExprs ns (daaCheckAssignmentExpr n daa)"
  by (subst daaCheckExprs.simps, simp)+

lemma check_exprs_append: "daaCheckExprs (ns @ ms) daa = daaCheckExprs ms (daaCheckExprs ns daa)"
  by (induction ns arbitrary: daa) simp_all

lemma check_opt: "(case x of None \<Rightarrow> daa | Some e \<Rightarrow> daaCheckAssignmentExpr e daa) = daaCheckExprs (opt_list x) daa"
  by (cases x) (simp_all add: opt_list_def)

lemma check_block [simp]:
  "daaCheckAssignmentBlock [] v daa = (False, daaCheckExprs (opt_list v) daa)"
  "daaCheckAssignmentBlock (n # ns) v daa =
     (let (escapes, daa) = daaCheckAssignmentStmt n daa
      in if escapes then (True, daa) else daaCheckAssignmentBlock ns v daa)"
  by (subst daaCheckAssignmentBlock.simps, simp add: check_opt)+

lemma check_expr_simps [simp]:
  "daaCheckAssignmentExpr (NODE_VARIABLE l nm) daa = daa_read nm daa"
  "daaCheckAssignmentExpr (NODE_ASSIGN l nm x) daa =
     (let daa = daaCheckAssignmentExpr x daa in daa\<lparr>daa_names := daaSetRemove (daa_names daa) nm\<rparr>)"
  "daaCheckAssignmentExpr (NODE_IF l x y e) daa = snd (daaCheckAssignmentStmt (NODE_IF l x y e) daa)"
  "daaCheckAssignmentExpr (NODE_BLOCK l blk) daa = snd (daaCheckAssignmentStmt (NODE_BLOCK l blk) daa)"
  by (subst check_expr, simp)+

lemma check_expr_operands:
  "strict_operands n = Some ns \<Longrightarrow> \<not> is_cast n \<Longrightarrow> \<not> daa_is_statement n \<Longrightarrow>
     daaCheckAssignmentExpr n daa = daaCheckExprs ns daa"
  by (subst check_expr) (cases n; auto)

lemma check_expr_logical:
  "logical_operands n = Some (x, y) \<Longrightarrow> daaCheckAssignmentExpr n daa = daaCheckExprs [x, y] daa"
  by (subst check_expr) (cases n; auto)

lemma check_stmt_expr:
  "\<not> daa_is_statement n \<Longrightarrow> daaCheckAssignmentStmt n daa = (False, daaCheckAssignmentExpr n daa)"
  by (subst check_stmt) simp

lemma check_expr_inert: "inert n \<Longrightarrow> daaCheckAssignmentExpr n daa = daa"
  by (subst check_expr) (cases n; auto)

lemma strict_check:
  assumes "strict_operands n = Some ns" "\<not> is_cast n"
  shows "daaCheckAssignmentStmt n daa = (False, daaCheckExprs ns daa)"
proof (cases "daa_is_statement n")
  case True
  then show ?thesis using assms by (subst check_stmt) (cases n; auto)
qed (use assms in \<open>simp add: check_stmt_expr check_expr_operands\<close>)

lemma logical_check:
  assumes "logical_operands n = Some (x, y)"
  shows "daaCheckAssignmentStmt n daa = (False, daaCheckExprs [x, y] daa)"
proof -
  have "\<not> daa_is_statement n" using assms by (cases n) auto
  then show ?thesis using assms by (simp add: check_stmt_expr check_expr_logical del: check_exprs)
qed

lemma inert_check:
  assumes "inert n"
  shows "daaCheckAssignmentStmt n daa = (False, daa)"
proof (cases "daa_is_statement n")
  case True
  then show ?thesis using assms by (subst check_stmt) (cases n; auto)
qed (use assms in \<open>simp add: check_stmt_expr check_expr_inert\<close>)

lemma position_check:
  assumes "expr_position n"
  shows "daaCheckAssignmentExpr n daa = snd (daaCheckAssignmentStmt n daa)"
proof (cases "daa_is_statement n")
  case True
  then show ?thesis using assms by (cases n) (auto simp: expr_position_def)
qed (simp add: check_stmt_expr)

lemma check_stmt_simps [simp]:
  "daaCheckAssignmentStmt (NODE_VARIABLE l nm) daa = (False, daa_read nm daa)"
  "daaCheckAssignmentStmt (NODE_ASSIGN l nm x) daa =
     (False, daaCheckAssignmentExpr (NODE_ASSIGN l nm x) daa)"
  "daaCheckAssignmentStmt (NODE_VAR_DECL l vd) daa =
     (False, if vd_initializer vd = None then daa\<lparr>daa_names := daaSetAdd (daa_names daa) (vd_name vd)\<rparr>
             else daaCheckExprs (opt_list (vd_initializer vd)) daa)"
  "daaCheckAssignmentStmt (NODE_WHILE l x s) daa =
     (let daa = daaCheckExprs [x] daa
      in (False, daa\<lparr>daa_errors := daa_errors (snd (daaCheckAssignmentStmt s daa))\<rparr>))"
  "daaCheckAssignmentStmt (NODE_FOR l i c s inc) daa =
     (let daa = (case i of Some i \<Rightarrow> snd (daaCheckAssignmentStmt i daa) | None \<Rightarrow> daa);
          daa = daaCheckExprs (opt_list c) daa
      in (False, daa\<lparr>daa_errors :=
            daa_errors (daaCheckExprs (opt_list inc) (snd (daaCheckAssignmentStmt s daa)))\<rparr>))"
  "daaCheckAssignmentStmt (NODE_RETURN l v) daa = (True, daaCheckExprs (opt_list v) daa)"
  "daaCheckAssignmentStmt (NODE_BREAK l t) daa = (True, daa)"
  "daaCheckAssignmentStmt (NODE_CONTINUE l t) daa = (True, daa)"
  "daaCheckAssignmentStmt (NODE_BLOCK l blk) daa = daaCheckAssignmentBlock (bl_stmts blk) (bl_value blk) daa"
  by (subst check_stmt, simp add: check_opt opt_list_def split_beta Let_def split: option.split)+

lemma check_if:
  "daaCheckAssignmentStmt (NODE_IF l c t e) daa =
     (let daa = daaCheckAssignmentExpr c daa;
          (thenEscapes, thenDaa) = daaCheckAssignmentStmt t daa;
          (elseEscapes, elseDaa) =
            (case e of
               Some e \<Rightarrow> daaCheckAssignmentStmt e (daa\<lparr>daa_errors := daa_errors thenDaa\<rparr>)
             | None \<Rightarrow> (False, daa\<lparr>daa_errors := daa_errors thenDaa\<rparr>))
      in if thenEscapes \<and> elseEscapes then (True, daa\<lparr>daa_errors := daa_errors elseDaa\<rparr>)
         else if thenEscapes then (False, elseDaa)
         else if elseEscapes then (False, elseDaa\<lparr>daa_names := daa_names thenDaa\<rparr>)
         else (False, elseDaa\<lparr>daa_names :=
                 daaSetUnionInto (daaSetUnionInto daaSetInit (daa_names thenDaa)) (daa_names elseDaa)\<rparr>))"
  by (subst check_stmt) simp

section \<open>Errors and names only grow\<close>

definition nerrs :: "Daa \<Rightarrow> nat" where
  "nerrs daa = length (daa_errors daa)"

lemma nerrs_simps [simp]:
  "nerrs (daa\<lparr>daa_names := xs\<rparr>) = nerrs daa"
  "nerrs (daa\<lparr>daa_errors := daa_errors daa'\<rparr>) = nerrs daa'"
  by (simp_all add: nerrs_def)

lemma texts_simps [simp]:
  "texts (daa\<lparr>daa_errors := es\<rparr>) = texts daa"
  "texts (daa\<lparr>daa_names := daaSetAdd xs nm\<rparr>) = insert (tok_text nm) (tok_text ` set xs)"
  "texts (daa\<lparr>daa_names := daaSetUnionInto xs ys\<rparr>) = tok_text ` set xs \<union> tok_text ` set ys"
  "texts (daa\<lparr>daa_names := daa_names daa'\<rparr>) = texts daa'"
  by (auto simp: texts_def daaSetAdd_def texts_union)

lemma nerrs_read: "nerrs daa \<le> nerrs (daa_read nm daa)"
  by (simp add: nerrs_def daa_read_def)

text \<open>A node in the place of an expression that is none is not looked at.\<close>

lemma other_check: "\<not> expr_position n \<Longrightarrow> daaCheckAssignmentExpr n daa = daa"
  by (subst check_expr) (cases n; simp add: expr_position_def)

definition grows :: "bool \<Rightarrow> Daa \<Rightarrow> Daa \<Rightarrow> bool" where
  "grows b daa daa' \<longleftrightarrow> nerrs daa \<le> nerrs daa' \<and> (b \<longrightarrow> texts daa \<subseteq> texts daa')"

lemma grows_refl [simp]: "grows b daa daa"
  by (simp add: grows_def)

lemma grows_trans: "grows b x y \<Longrightarrow> grows b y z \<Longrightarrow> grows b x z"
  by (auto simp: grows_def)

lemma nodes_grow:
  assumes "\<And>n daa. n \<in> set ns \<Longrightarrow> grows b daa (daaCheckAssignmentExpr n daa)"
  shows "grows b daa (daaCheckExprs ns daa)"
  using assms by (induction ns arbitrary: daa) (auto intro: grows_trans)

lemma block_grows:
  assumes "\<And>n daa. n \<in> set ns \<Longrightarrow> grows b daa (snd (daaCheckAssignmentStmt n daa))"
    and "\<And>n daa. n \<in> set (opt_list v) \<Longrightarrow> grows b daa (daaCheckAssignmentExpr n daa)"
  shows "grows b daa (snd (daaCheckAssignmentBlock ns v daa))"
  using assms(1)
proof (induction ns arbitrary: daa)
  case (Cons n ns)
  show ?case using Cons.IH [of "snd (daaCheckAssignmentStmt n daa)"] Cons.prems [of n daa] Cons.prems
    by (auto simp: split_beta intro: grows_trans)
qed (use nodes_grow [of "opt_list v" b] assms(2) in simp)

lemma node_kinds:
  obtains (strict) ns where "strict_operands n = Some ns" "\<not> is_cast n"
  | (logical) x y where "logical_operands n = Some (x, y)"
  | (inert) "inert n"
  | (cast) l x ty t k where "n = NODE_CAST l x ty t k"
  | (read) l nm where "n = NODE_VARIABLE l nm"
  | (assign) l nm x where "n = NODE_ASSIGN l nm x"
  | (var) l vd where "n = NODE_VAR_DECL l vd"
  | (block) l blk where "n = NODE_BLOCK l blk"
  | (branch) l c t e where "n = NODE_IF l c t e"
  | (wloop) l c s where "n = NODE_WHILE l c s"
  | (floop) l i c s inc where "n = NODE_FOR l i c s inc"
  | (return) l v where "n = NODE_RETURN l v"
  | (break) l t where "n = NODE_BREAK l t"
  | (continue) l t where "n = NODE_CONTINUE l t"
  by (cases n) auto

lemma strict_children: "strict_operands n = Some ns \<Longrightarrow> expr_children n = ns"
  by (cases n) auto

lemma logical_children: "logical_operands n = Some (x, y) \<Longrightarrow> expr_children n = [x, y]"
  by (cases n) auto

lemma cast_check: "daaCheckAssignmentStmt (NODE_CAST l x ty t k) daa = (False, daa)"
  by (subst check_stmt, simp, subst check_expr, simp)

lemma no_assign_child:
  "\<not> list_ex is_assign (subnodes n) \<Longrightarrow> m \<in> set (expr_children n) \<or> m \<in> set (stmt_children n) \<Longrightarrow>
     \<not> list_ex is_assign (subnodes m)"
  using subnodes_child [of m n] by (auto simp: list_ex_iff)

lemma grows_read: "grows b daa (daa_read nm daa)"
  using nerrs_read by (simp add: grows_def)

lemma check_grows:
  "(b \<Longrightarrow> \<not> list_ex is_assign (subnodes n)) \<Longrightarrow> grows b daa (snd (daaCheckAssignmentStmt n daa))"
proof (induction n arbitrary: daa rule: measure_induct_rule [of size])
  case (less n)
  have stmt: "grows b daa (snd (daaCheckAssignmentStmt m daa))"
    if "m \<in> set (expr_children n) \<or> m \<in> set (stmt_children n)" for m daa
    using less that no_assign_child [of n m] stmt_children_size expr_children_size by blast
  have expr: "grows b daa (daaCheckAssignmentExpr m daa)" if "m \<in> set (expr_children n)" for m daa
    using stmt that by (cases "expr_position m") (simp_all add: position_check other_check)
  have exprs: "grows b daa (daaCheckExprs ms daa)" if "set ms \<subseteq> set (expr_children n)" for ms daa
    using nodes_grow expr that by blast
  show ?case
  proof (cases n rule: node_kinds)
    case (strict ns)
    then show ?thesis by (simp add: strict_check exprs strict_children)
  next
    case (logical x y)
    then show ?thesis using exprs [of "[x, y]"] by (simp add: logical_check logical_children)
  next
    case (assign l nm x)
    then have "is_assign n" by simp
    then have "\<not> b" using less.prems subnodes_self [of n] by (auto simp: list_ex_iff)
    then show ?thesis using assign expr [of x daa] by (auto simp: grows_def Let_def)
  next
    case (var l vd)
    then show ?thesis using exprs [of "opt_list (vd_initializer vd)" daa]
      by (auto simp: grows_def texts_def [symmetric])
  next
    case (block l blk)
    then show ?thesis using block_grows [of "bl_stmts blk" b "bl_value blk" daa] stmt expr by simp
  next
    case (wloop l c s)
    then show ?thesis using grows_trans [OF expr [of c daa] stmt [of s]] expr [of c daa] wloop
      by (auto simp: grows_def Let_def)
  next
    case (floop l i c s inc)
    let ?d1 = "case i of Some i \<Rightarrow> snd (daaCheckAssignmentStmt i daa) | None \<Rightarrow> daa"
    have 1: "grows b daa ?d1" using stmt floop by (auto simp: opt_list_def split: option.split)
    have 2: "grows b ?d1 (daaCheckExprs (opt_list c) ?d1)" using exprs floop by simp
    note 3 = stmt [of s "daaCheckExprs (opt_list c) ?d1"]
    note 4 = exprs [of "opt_list inc" "snd (daaCheckAssignmentStmt s (daaCheckExprs (opt_list c) ?d1))"]
    show ?thesis using 1 2 3 4 floop by (auto simp: grows_def Let_def)
  next
    case (branch l c t e)
    let ?d = "daaCheckAssignmentExpr c daa"
    let ?t = "snd (daaCheckAssignmentStmt t ?d)"
    let ?d' = "?d\<lparr>daa_errors := daa_errors ?t\<rparr>"
    have 1: "grows b daa ?d" "grows b ?d ?t" using branch expr stmt by auto
    have 2: "grows b ?d' (snd (daaCheckAssignmentStmt m ?d'))" if "e = Some m" for m
      using that branch stmt [of m] by (simp add: opt_list_def)
    show ?thesis using 1 2 branch
      by (auto simp: check_if Let_def split_beta grows_def daaSetInit_def texts_def [symmetric]
          split: option.split)
  qed (use less.prems grows_read exprs in \<open>simp_all add: inert_check cast_check\<close>)
qed

lemma errors_grow: "nerrs daa \<le> nerrs (snd (daaCheckAssignmentStmt n daa))"
  using check_grows [of False n daa] by (simp add: grows_def)

lemma expr_errors_grow: "nerrs daa \<le> nerrs (daaCheckAssignmentExpr n daa)"
  using errors_grow by (cases "expr_position n") (simp_all add: position_check other_check)

lemma exprs_errors_grow: "nerrs daa \<le> nerrs (daaCheckExprs ns daa)"
  using nodes_grow [of ns False daa] expr_errors_grow by (simp add: grows_def)

lemma block_errors_grow: "nerrs daa \<le> nerrs (snd (daaCheckAssignmentBlock ns v daa))"
  using block_grows [of ns False v daa] errors_grow expr_errors_grow by (simp add: grows_def)

lemma expr_keeps_names:
  assumes "\<not> list_ex is_assign (subnodes n)"
  shows "texts daa \<subseteq> texts (daaCheckAssignmentExpr n daa)"
  using check_grows [of True n daa] assms
  by (cases "expr_position n") (auto simp: position_check other_check grows_def)

definition continues :: "AstNode \<Rightarrow> bool" where
  "continues n \<longleftrightarrow> list_ex is_continue (subnodes n)"

lemma continues_child:
  "\<not> continues n \<Longrightarrow> m \<in> set (expr_children n) \<or> m \<in> set (stmt_children n) \<Longrightarrow> \<not> continues m"
  using subnodes_child [of m n] by (auto simp: continues_def list_ex_iff)

lemma continues_iff:
  "continues n \<longleftrightarrow>
     is_continue n \<or> list_ex continues (expr_children n) \<or> list_ex continues (stmt_children n)"
  unfolding continues_def by (subst subnodes.simps) (auto simp: continues_def list_ex_iff)

lemmas continues_nodes =
  continues_iff [of "NODE_ASSIGN l nm x" for l nm x]
  continues_iff [of "NODE_VAR_DECL l vd" for l vd]
  continues_iff [of "NODE_BLOCK l blk" for l blk]
  continues_iff [of "NODE_IF l c t e" for l c t e]
  continues_iff [of "NODE_WHILE l c s" for l c s]
  continues_iff [of "NODE_FOR l i c s inc" for l i c s inc]
  continues_iff [of "NODE_RETURN l v" for l v]
  continues_iff [of "NODE_CONTINUE l t" for l t]

lemma leaves_continuing [simp]: "leave_scope U r = Continues V \<longleftrightarrow> (\<exists>W. r = Continues W \<and> V = W \<inter> U)"
  by (cases r) auto

lemma no_continue:
  "ev n U r \<Longrightarrow> \<not> continues n \<longrightarrow> (\<forall>V. r \<noteq> Continues V)"
  "evx ns U r \<Longrightarrow> (\<forall>n\<in>set ns. \<not> continues n) \<longrightarrow> (\<forall>V. r \<noteq> Continues V)"
  "evs ns U r \<Longrightarrow> (\<forall>n\<in>set ns. \<not> continues n) \<longrightarrow> (\<forall>V. r \<noteq> Continues V)"
  "evl cs body incr U r \<Longrightarrow>
     (\<forall>n\<in>set (cs @ body # incr). \<not> continues n) \<longrightarrow> (\<forall>V. r \<noteq> Continues V)"
proof (induction rule: ev_evx_evs_evl.inducts)
  case (ev_strict n ns U r)
  then show ?case using continues_child [of n] by (simp add: strict_children)
next
  case (ev_skip_right n a b U r)
  then show ?case using continues_child [of n] by (simp add: logical_children)
next
  case (ev_both n a b U r)
  then show ?case using continues_child [of n] by (simp add: logical_children)
qed (auto simp: continues_nodes list_ex_iff ball_Un)

section \<open>No accepted body faults\<close>

text \<open>What a check that reported nothing says of a run: no fault, and the names still unassigned when it completes are in the set.\<close>

definition sound :: "bool \<Rightarrow> bytes set \<Rightarrow> bytes set outcome \<Rightarrow> bool" where
  "sound escapes T r \<longleftrightarrow> r \<noteq> Faults \<and> (\<forall>V. r = Completes V \<longrightarrow> \<not> escapes \<and> V \<subseteq> T)"

definition declared :: "AstNode \<Rightarrow> bytes set outcome \<Rightarrow> bytes set outcome" where
  "declared n r = (case r of Completes V \<Rightarrow> Completes (declares n V) | _ \<Rightarrow> r)"

lemma declares_grows: "V \<subseteq> declares n V"
  by (cases n) (auto simp: declares_def)

lemma sound_declared: "sound e T (declared n r) \<Longrightarrow> sound e T r"
  using declares_grows by (cases r) (fastforce simp: sound_def declared_def)+

definition ready :: "AstNode list \<Rightarrow> bool" where
  "ready ns \<longleftrightarrow> (\<forall>n\<in>set ns. covered n \<and> expr_position n)"

lemma ready_simps [simp]:
  "ready []"
  "ready (n # ns) \<longleftrightarrow> covered n \<and> expr_position n \<and> ready ns"
  by (auto simp: ready_def)

lemma ready_children: "covered n \<Longrightarrow> ready (expr_children n)"
  using covered_expr by (auto simp: ready_def)

inductive_cases evx_NilE [elim!]: "evx [] U r"

definition stmt_sound :: "AstNode \<Rightarrow> bytes set \<Rightarrow> bytes set outcome \<Rightarrow> bool" where
  "stmt_sound n U r \<longleftrightarrow> (\<forall>daa e d. covered n \<longrightarrow> U \<subseteq> texts daa \<longrightarrow>
     daaCheckAssignmentStmt n daa = (e, d) \<longrightarrow> nerrs d \<le> nerrs daa \<longrightarrow> sound e (texts d) (declared n r))"

definition exprs_sound :: "AstNode list \<Rightarrow> bytes set \<Rightarrow> bytes set outcome \<Rightarrow> bool" where
  "exprs_sound ns U r \<longleftrightarrow> (\<forall>daa. ready ns \<longrightarrow> U \<subseteq> texts daa \<longrightarrow>
     nerrs (daaCheckExprs ns daa) \<le> nerrs daa \<longrightarrow> sound False (texts (daaCheckExprs ns daa)) r)"

definition block_sound :: "AstNode list \<Rightarrow> bytes set \<Rightarrow> bytes set outcome \<Rightarrow> bool" where
  "block_sound ns U r \<longleftrightarrow> (\<forall>ss v daa e d. ns = ss @ opt_list v \<longrightarrow> list_all covered ss \<longrightarrow>
     ready (opt_list v) \<longrightarrow> U \<subseteq> texts daa \<longrightarrow> daaCheckAssignmentBlock ss v daa = (e, d) \<longrightarrow>
     nerrs d \<le> nerrs daa \<longrightarrow> sound e (texts d) r)"

definition loop_sound where
  "loop_sound cs body incr U r \<longleftrightarrow> (\<forall>daa. ready cs \<longrightarrow> covered body \<longrightarrow> ready incr \<longrightarrow>
     (incr = [] \<or> \<not> continues body) \<longrightarrow> U \<subseteq> texts daa \<longrightarrow>
     nerrs (daaCheckExprs incr (snd (daaCheckAssignmentStmt body (daaCheckExprs cs daa)))) \<le> nerrs daa \<longrightarrow>
     sound False (texts (daaCheckExprs cs daa)) r)"

lemma stmt_soundD:
  assumes "stmt_sound n U r" "covered n" "U \<subseteq> texts daa"
    "nerrs (snd (daaCheckAssignmentStmt n daa)) \<le> nerrs daa"
  shows "sound (fst (daaCheckAssignmentStmt n daa)) (texts (snd (daaCheckAssignmentStmt n daa))) (declared n r)"
  using assms by (auto simp: stmt_sound_def)

lemma expr_soundD:
  assumes "stmt_sound n U r" "covered n" "expr_position n" "U \<subseteq> texts daa"
    "nerrs (daaCheckAssignmentExpr n daa) \<le> nerrs daa"
  shows "sound False (texts (daaCheckAssignmentExpr n daa)) r"
  using sound_declared [OF stmt_soundD [OF assms(1,2,4)]] assms(3,5)
  by (auto simp: position_check sound_def)

lemma soundD: "sound e T (Completes V) \<Longrightarrow> \<not> e \<and> V \<subseteq> T"
  by (simp add: sound_def)

lemma soundI: "r \<noteq> Faults \<Longrightarrow> \<not> completes r \<Longrightarrow> sound e T r"
  by (auto simp: sound_def)

lemma sound_faults: "sound e T r \<Longrightarrow> r \<noteq> Faults"
  by (simp add: sound_def)

lemma declared_plain: "(\<And>l vd. n \<noteq> NODE_VAR_DECL l vd) \<Longrightarrow> declared n r = r"
  by (cases n; cases r) (auto simp: declared_def declares_def)

lemma strict_plain: "strict_operands n = Some ns \<Longrightarrow> declared n r = r"
  by (rule declared_plain) auto

lemma logical_plain: "logical_operands n = Some xy \<Longrightarrow> declared n r = r"
  by (rule declared_plain) auto

lemma covered_not_cast: "covered n \<Longrightarrow> \<not> is_cast n"
  using covered_self by (simp add: node_covered_def)

lemma exprs_sound_Cons:
  assumes "stmt_sound n U (Completes V)" "exprs_sound ns V r"
  shows "exprs_sound (n # ns) U r"
  unfolding exprs_sound_def
proof (intro allI impI)
  fix daa assume *: "ready (n # ns)" "U \<subseteq> texts daa" "nerrs (daaCheckExprs (n # ns) daa) \<le> nerrs daa"
  let ?d = "daaCheckAssignmentExpr n daa"
  have 1: "nerrs ?d \<le> nerrs daa" using * exprs_errors_grow [of ?d ns] by simp
  then have "V \<subseteq> texts ?d" using expr_soundD [OF assms(1)] * soundD by fastforce
  moreover have "nerrs (daaCheckExprs ns ?d) \<le> nerrs ?d" using * expr_errors_grow [of daa n] by simp
  ultimately show "sound False (texts (daaCheckExprs (n # ns) daa)) r"
    using assms(2) * by (simp add: exprs_sound_def)
qed

lemma exprs_sound_stop:
  assumes "stmt_sound n U r" "\<not> completes r"
  shows "exprs_sound (n # ns) U r"
  unfolding exprs_sound_def
proof (intro allI impI)
  fix daa assume *: "ready (n # ns)" "U \<subseteq> texts daa" "nerrs (daaCheckExprs (n # ns) daa) \<le> nerrs daa"
  then have "nerrs (daaCheckAssignmentExpr n daa) \<le> nerrs daa"
    using exprs_errors_grow [of "daaCheckAssignmentExpr n daa" ns] by simp
  then show "sound False (texts (daaCheckExprs (n # ns) daa)) r"
    using expr_soundD [OF assms(1)] * assms(2) sound_faults soundI by fastforce
qed

lemma block_sound_Cons:
  assumes "stmt_sound n U (Completes V)" "block_sound ns (declares n V) r"
  shows "block_sound (n # ns) U r"
  unfolding block_sound_def
proof (intro allI impI)
  fix ss v daa e d
  assume *: "n # ns = ss @ opt_list v" "list_all covered ss" "ready (opt_list v)" "U \<subseteq> texts daa"
    "daaCheckAssignmentBlock ss v daa = (e, d)" "nerrs d \<le> nerrs daa"
  let ?s = "daaCheckAssignmentStmt n daa"
  have cov: "covered n" using * by (cases ss; cases v) (auto simp: opt_list_def)
  have pos: "daaCheckAssignmentExpr n daa = snd ?s" if "ss = []"
    using * that by (cases v) (auto simp: opt_list_def position_check)
  have "nerrs (snd ?s) \<le> nerrs d" if "\<not> fst ?s"
    using * that pos block_errors_grow [of "snd ?s" "tl ss" v]
    by (cases ss; cases v) (auto simp: opt_list_def split_beta)
  moreover have "nerrs (snd ?s) \<le> nerrs d" if "fst ?s"
    using * that pos by (cases ss; cases v) (auto simp: opt_list_def split_beta)
  ultimately have 1: "nerrs (snd ?s) \<le> nerrs daa" using * by linarith
  then have 2: "\<not> fst ?s" "declares n V \<subseteq> texts (snd ?s)"
    using stmt_soundD [OF assms(1) cov *(4)] by (auto simp: declared_def sound_def)
  have 3: "nerrs daa \<le> nerrs (snd ?s)" by (rule errors_grow)
  show "sound e (texts d) r"
  proof (cases ss)
    case Nil
    then have "ns = [] @ opt_list None" "d = snd ?s" "\<not> e"
      using * pos by (cases v; auto simp: opt_list_def)+
    then show ?thesis
      using assms(2) [unfolded block_sound_def, rule_format, of "[]" None "snd ?s" False "snd ?s"] 2
      by (simp add: opt_list_def)
  next
    case (Cons m ss')
    then have "ns = ss' @ opt_list v" "daaCheckAssignmentBlock ss' v (snd ?s) = (e, d)"
      using * 2 by (auto simp: split_beta)
    moreover have "nerrs d \<le> nerrs (snd ?s)" using * 3 by linarith
    ultimately show ?thesis using assms(2) 2 * Cons by (auto simp: block_sound_def)
  qed
qed

lemma block_sound_stop:
  assumes "stmt_sound n U r" "\<not> completes r"
  shows "block_sound (n # ns) U r"
  unfolding block_sound_def
proof (intro allI impI)
  fix ss v daa e d
  assume *: "n # ns = ss @ opt_list v" "list_all covered ss" "ready (opt_list v)" "U \<subseteq> texts daa"
    "daaCheckAssignmentBlock ss v daa = (e, d)" "nerrs d \<le> nerrs daa"
  let ?s = "daaCheckAssignmentStmt n daa"
  have cov: "covered n" using * by (cases ss; cases v) (auto simp: opt_list_def)
  have pos: "daaCheckAssignmentExpr n daa = snd ?s" if "ss = []"
    using * that by (cases v) (auto simp: opt_list_def position_check)
  have "nerrs (snd ?s) \<le> nerrs d"
    using * pos block_errors_grow [of "snd ?s" "tl ss" v]
    by (cases ss; cases v) (auto simp: opt_list_def split_beta split: if_splits)
  then have "nerrs (snd ?s) \<le> nerrs daa" using * by linarith
  then have "r \<noteq> Faults"
    using stmt_soundD [OF assms(1) cov *(4)] sound_declared sound_faults by blast
  then show "sound e (texts d) r" using assms(2) soundI by blast
qed

lemma exprs_soundD:
  assumes "exprs_sound ns U r" "ready ns" "U \<subseteq> texts daa" "nerrs (daaCheckExprs ns daa) \<le> nerrs daa"
  shows "sound False (texts (daaCheckExprs ns daa)) r"
  using assms by (simp add: exprs_sound_def)

lemma stmt_soundI:
  assumes "\<And>daa. covered n \<Longrightarrow> U \<subseteq> texts daa \<Longrightarrow> nerrs (snd (daaCheckAssignmentStmt n daa)) \<le> nerrs daa \<Longrightarrow>
     sound (fst (daaCheckAssignmentStmt n daa)) (texts (snd (daaCheckAssignmentStmt n daa))) (declared n r)"
  shows "stmt_sound n U r"
  unfolding stmt_sound_def
proof (intro allI impI)
  fix daa e d
  assume "covered n" "U \<subseteq> texts daa" "daaCheckAssignmentStmt n daa = (e, d)" "nerrs d \<le> nerrs daa"
  then show "sound e (texts d) (declared n r)" using assms [of daa] by simp
qed

lemma read_sound: "stmt_sound (NODE_VARIABLE l nm) U (if tok_text nm \<in> U then Faults else Completes U)"
  by (rule stmt_soundI)
    (auto simp: daa_read_def nerrs_def sound_def declared_def declares_def daaSetContains_def texts_def
      split: if_splits dest!: subsetD)

lemma inert_sound: "inert n \<Longrightarrow> stmt_sound n U (Completes U)"
  by (rule stmt_soundI, cases n) (auto simp: inert_check sound_def declared_def declares_def)

lemma strict_sound:
  assumes "strict_operands n = Some ns" "exprs_sound ns U r"
  shows "stmt_sound n U r"
  by (rule stmt_soundI)
    (use assms exprs_soundD ready_children [of n] in
      \<open>simp add: strict_check covered_not_cast strict_plain strict_children\<close>)

lemma both_sound:
  assumes "logical_operands n = Some (x, y)" "exprs_sound [x, y] U r"
  shows "stmt_sound n U r"
proof (rule stmt_soundI)
  fix daa assume "covered n" "U \<subseteq> texts daa" "nerrs (snd (daaCheckAssignmentStmt n daa)) \<le> nerrs daa"
  then show "sound (fst (daaCheckAssignmentStmt n daa)) (texts (snd (daaCheckAssignmentStmt n daa))) (declared n r)"
    using assms exprs_soundD [OF assms(2), of daa] ready_children [of n]
    by (simp add: logical_check logical_children logical_plain del: check_exprs)
qed

lemma skip_right_sound:
  assumes "logical_operands n = Some (x, y)" "exprs_sound [x] U r"
  shows "stmt_sound n U r"
proof (rule stmt_soundI)
  fix daa assume *: "covered n" "U \<subseteq> texts daa" "nerrs (snd (daaCheckAssignmentStmt n daa)) \<le> nerrs daa"
  let ?d = "daaCheckAssignmentExpr x daa"
  have "texts ?d \<subseteq> texts (daaCheckAssignmentExpr y ?d)"
    using covered_self [OF *(1)] assms(1) by (intro expr_keeps_names) (simp add: node_covered_def)
  moreover have "nerrs ?d \<le> nerrs daa"
    using * assms(1) expr_errors_grow [of ?d y] by (simp add: logical_check)
  ultimately show
    "sound (fst (daaCheckAssignmentStmt n daa)) (texts (snd (daaCheckAssignmentStmt n daa))) (declared n r)"
    using assms * exprs_soundD [OF assms(2), of daa] ready_children [of n]
    by (auto simp: logical_check logical_children logical_plain sound_def)
qed

lemma assign_sound:
  assumes "stmt_sound val U r"
  shows "stmt_sound (NODE_ASSIGN l nm val) U
    (case r of Completes V \<Rightarrow> Completes (V - {tok_text nm}) | _ \<Rightarrow> r)"
proof (rule stmt_soundI)
  let ?n = "NODE_ASSIGN l nm val"
  fix daa assume *: "covered ?n" "U \<subseteq> texts daa" "nerrs (snd (daaCheckAssignmentStmt ?n daa)) \<le> nerrs daa"
  then have "sound False (texts (daaCheckAssignmentExpr val daa)) r"
    using expr_soundD [OF assms] ready_children [OF *(1)] by (simp add: Let_def)
  then show "sound (fst (daaCheckAssignmentStmt ?n daa)) (texts (snd (daaCheckAssignmentStmt ?n daa)))
      (declared ?n (case r of Completes V \<Rightarrow> Completes (V - {tok_text nm}) | _ \<Rightarrow> r))"
    using texts_remove [of "daa_names (daaCheckAssignmentExpr val daa)" nm]
    by (cases r) (auto simp: declared_plain sound_def Let_def texts_def)
qed

lemma var_sound:
  assumes "exprs_sound (opt_list (vd_initializer vd)) U r"
    and "vd_initializer vd = None \<Longrightarrow> r = Completes U"
  shows "stmt_sound (NODE_VAR_DECL l vd) U r"
proof (rule stmt_soundI)
  let ?n = "NODE_VAR_DECL l vd"
  fix daa assume *: "covered ?n" "U \<subseteq> texts daa" "nerrs (snd (daaCheckAssignmentStmt ?n daa)) \<le> nerrs daa"
  show "sound (fst (daaCheckAssignmentStmt ?n daa)) (texts (snd (daaCheckAssignmentStmt ?n daa))) (declared ?n r)"
  proof (cases "vd_initializer vd")
    case None
    then show ?thesis using * assms(2) by (auto simp: declared_def declares_def sound_def texts_def daaSetAdd_def)
  next
    case (Some e)
    then have "declared ?n r = r" by (cases r) (simp_all add: declared_def declares_def)
    then show ?thesis using exprs_soundD [OF assms(1), of daa] ready_children [OF *(1)] * Some by simp
  qed
qed

lemma sound_leave: "sound e T r \<Longrightarrow> sound e T (leave_scope U r)"
  by (cases r) (auto simp: sound_def)

lemma block_stmt_sound:
  assumes "block_sound (bl_stmts blk @ opt_list (bl_value blk)) U r"
  shows "stmt_sound (NODE_BLOCK l blk) U (leave_scope U r)"
proof (rule stmt_soundI)
  let ?n = "NODE_BLOCK l blk"
  fix daa assume *: "covered ?n" "U \<subseteq> texts daa" "nerrs (snd (daaCheckAssignmentStmt ?n daa)) \<le> nerrs daa"
  have "list_all covered (bl_stmts blk)" "ready (opt_list (bl_value blk))"
    using covered_stmt [OF *(1)] ready_children [OF *(1)] by (auto simp: list_all_iff)
  then show "sound (fst (daaCheckAssignmentStmt ?n daa)) (texts (snd (daaCheckAssignmentStmt ?n daa)))
      (declared ?n (leave_scope U r))"
    using assms [unfolded block_sound_def] * by (auto simp: declared_plain intro!: sound_leave)
qed

lemma return_sound:
  assumes "exprs_sound (opt_list v) U r"
  shows "stmt_sound (NODE_RETURN l v) U (if completes r then Returns_value else r)"
proof (rule stmt_soundI)
  let ?n = "NODE_RETURN l v"
  fix daa assume *: "covered ?n" "U \<subseteq> texts daa" "nerrs (snd (daaCheckAssignmentStmt ?n daa)) \<le> nerrs daa"
  then have "sound False (texts (daaCheckExprs (opt_list v) daa)) r"
    using exprs_soundD [OF assms] ready_children [OF *(1)] by simp
  then have "r \<noteq> Faults" by (rule sound_faults)
  then show "sound (fst (daaCheckAssignmentStmt ?n daa)) (texts (snd (daaCheckAssignmentStmt ?n daa)))
      (declared ?n (if completes r then Returns_value else r))"
    by (cases r) (auto simp: declared_plain sound_def)
qed

lemma if_parts:
  fixes daa :: Daa and c t :: AstNode
  defines "d \<equiv> daaCheckAssignmentExpr c daa"
  defines "dt \<equiv> snd (daaCheckAssignmentStmt t d)"
  defines "d' \<equiv> d\<lparr>daa_errors := daa_errors dt\<rparr>"
  assumes "nerrs (snd (daaCheckAssignmentStmt (NODE_IF l c t e) daa)) \<le> nerrs daa"
  shows "nerrs d \<le> nerrs daa" "nerrs dt \<le> nerrs d"
    "e = Some x \<Longrightarrow> nerrs (snd (daaCheckAssignmentStmt x d')) \<le> nerrs d'"
proof -
  have 1: "nerrs daa \<le> nerrs d" "nerrs d \<le> nerrs dt" "nerrs d' = nerrs dt"
    unfolding dt_def d'_def d_def using expr_errors_grow errors_grow by simp_all
  have 2: "nerrs (case e of Some x \<Rightarrow> snd (daaCheckAssignmentStmt x d') | None \<Rightarrow> d') \<le> nerrs daa"
    using assms(4) unfolding dt_def d'_def d_def
    by (cases e) (auto simp: check_if Let_def split_beta split: if_splits)
  show "nerrs d \<le> nerrs daa" "nerrs dt \<le> nerrs d"
    "e = Some x \<Longrightarrow> nerrs (snd (daaCheckAssignmentStmt x d')) \<le> nerrs d'"
    using 1 2 errors_grow [of d'] by (cases e; fastforce intro: order_trans)+
qed

lemma if_result:
  fixes daa :: Daa and c t :: AstNode and e :: "AstNode option"
  defines "d \<equiv> daaCheckAssignmentExpr c daa"
  defines "dt \<equiv> daaCheckAssignmentStmt t d"
  defines "d' \<equiv> d\<lparr>daa_errors := daa_errors (snd dt)\<rparr>"
  defines "de \<equiv> (case e of Some x \<Rightarrow> daaCheckAssignmentStmt x d' | None \<Rightarrow> (False, d'))"
  shows "fst (daaCheckAssignmentStmt (NODE_IF l c t e) daa) \<longleftrightarrow> fst dt \<and> fst de"
    "\<not> fst dt \<Longrightarrow> texts (snd dt) \<subseteq> texts (snd (daaCheckAssignmentStmt (NODE_IF l c t e) daa))"
    "\<not> fst de \<Longrightarrow> texts (snd de) \<subseteq> texts (snd (daaCheckAssignmentStmt (NODE_IF l c t e) daa))"
proof -
  have *: "daaCheckAssignmentStmt (NODE_IF l c t e) daa =
      (if fst dt \<and> fst de then (True, d\<lparr>daa_errors := daa_errors (snd de)\<rparr>)
       else if fst dt then (False, snd de)
       else if fst de then (False, (snd de)\<lparr>daa_names := daa_names (snd dt)\<rparr>)
       else (False, (snd de)\<lparr>daa_names :=
               daaSetUnionInto (daaSetUnionInto daaSetInit (daa_names (snd dt))) (daa_names (snd de))\<rparr>))"
    unfolding check_if Let_def split_beta de_def d'_def dt_def d_def by simp
  show "fst (daaCheckAssignmentStmt (NODE_IF l c t e) daa) \<longleftrightarrow> fst dt \<and> fst de"
    "\<not> fst dt \<Longrightarrow> texts (snd dt) \<subseteq> texts (snd (daaCheckAssignmentStmt (NODE_IF l c t e) daa))"
    "\<not> fst de \<Longrightarrow> texts (snd de) \<subseteq> texts (snd (daaCheckAssignmentStmt (NODE_IF l c t e) daa))"
    unfolding * by (auto simp: texts_union daaSetInit_def texts_def)
qed

lemma if_stop_sound:
  assumes "stmt_sound c U r" "\<not> completes r"
  shows "stmt_sound (NODE_IF l c t e) U r"
proof (rule stmt_soundI)
  let ?n = "NODE_IF l c t e"
  fix daa assume *: "covered ?n" "U \<subseteq> texts daa" "nerrs (snd (daaCheckAssignmentStmt ?n daa)) \<le> nerrs daa"
  have "r \<noteq> Faults"
    using expr_soundD [OF assms(1), of daa] ready_children [OF *(1)] *(2) if_parts(1) [OF *(3)] sound_faults by simp
  then show "sound (fst (daaCheckAssignmentStmt ?n daa)) (texts (snd (daaCheckAssignmentStmt ?n daa))) (declared ?n r)"
    using assms(2) by (cases r) (auto simp: declared_plain sound_def)
qed

lemma then_sound:
  assumes "stmt_sound c U (Completes V)" "stmt_sound t V r"
  shows "stmt_sound (NODE_IF l c t e) U r"
proof (rule stmt_soundI)
  let ?n = "NODE_IF l c t e"
  fix daa assume *: "covered ?n" "U \<subseteq> texts daa" "nerrs (snd (daaCheckAssignmentStmt ?n daa)) \<le> nerrs daa"
  let ?d = "daaCheckAssignmentExpr c daa"
  have "V \<subseteq> texts ?d"
    using expr_soundD [OF assms(1), of daa] ready_children [OF *(1)] *(2) if_parts(1) [OF *(3)] soundD by fastforce
  then have "sound (fst (daaCheckAssignmentStmt t ?d)) (texts (snd (daaCheckAssignmentStmt t ?d))) (declared t r)"
    using stmt_soundD [OF assms(2)] covered_stmt [OF *(1)] if_parts(2) [OF *(3)] by simp
  from sound_declared [OF this] show
    "sound (fst (daaCheckAssignmentStmt ?n daa)) (texts (snd (daaCheckAssignmentStmt ?n daa))) (declared ?n r)"
    using if_result(1,2) [where l = l and c = c and t = t and e = e and daa = daa] by (auto simp: declared_plain sound_def)
qed

lemma else_sound:
  assumes "stmt_sound c U (Completes V)" "e = None \<Longrightarrow> r = Completes V"
    and "\<And>x. e = Some x \<Longrightarrow> stmt_sound x V r"
  shows "stmt_sound (NODE_IF l c t e) U r"
proof (rule stmt_soundI)
  let ?n = "NODE_IF l c t e"
  fix daa assume *: "covered ?n" "U \<subseteq> texts daa" "nerrs (snd (daaCheckAssignmentStmt ?n daa)) \<le> nerrs daa"
  let ?d = "daaCheckAssignmentExpr c daa"
  let ?d' = "?d\<lparr>daa_errors := daa_errors (snd (daaCheckAssignmentStmt t ?d))\<rparr>"
  have V: "V \<subseteq> texts ?d'"
    using expr_soundD [OF assms(1), of daa] ready_children [OF *(1)] *(2) if_parts(1) [OF *(3)] soundD by fastforce
  show "sound (fst (daaCheckAssignmentStmt ?n daa)) (texts (snd (daaCheckAssignmentStmt ?n daa))) (declared ?n r)"
  proof (cases e)
    case None
    then show ?thesis using assms(2) V if_result(1,3) [where l = l and c = c and t = t and e = e and daa = daa]
      by (auto simp: declared_plain sound_def)
  next
    case (Some x)
    have "sound (fst (daaCheckAssignmentStmt x ?d')) (texts (snd (daaCheckAssignmentStmt x ?d'))) (declared x r)"
      using stmt_soundD [OF assms(3) _ V] Some covered_stmt [OF *(1)] if_parts(3) [OF *(3)] by simp
    from sound_declared [OF this] show ?thesis using Some if_result(1,3) [where l = l and c = c and t = t and e = e and daa = daa]
      by (auto simp: declared_plain sound_def)
  qed
qed

text \<open>The rounds of a loop.\<close>

lemma loop_soundI:
  assumes "\<And>daa d1 d2 e. ready cs \<Longrightarrow> covered body \<Longrightarrow> ready incr \<Longrightarrow> incr = [] \<or> \<not> continues body \<Longrightarrow>
     U \<subseteq> texts daa \<Longrightarrow> d1 = daaCheckExprs cs daa \<Longrightarrow> daaCheckAssignmentStmt body d1 = (e, d2) \<Longrightarrow>
     nerrs d1 \<le> nerrs daa \<Longrightarrow> nerrs d2 \<le> nerrs d1 \<Longrightarrow> nerrs (daaCheckExprs incr d2) \<le> nerrs d2 \<Longrightarrow>
     sound False (texts d1) r"
  shows "loop_sound cs body incr U r"
  unfolding loop_sound_def
proof (intro allI impI)
  fix daa
  let ?d1 = "daaCheckExprs cs daa" and ?d2 = "snd (daaCheckAssignmentStmt body (daaCheckExprs cs daa))"
  assume *: "ready cs" "covered body" "ready incr" "incr = [] \<or> \<not> continues body" "U \<subseteq> texts daa"
    "nerrs (daaCheckExprs incr ?d2) \<le> nerrs daa"
  have "nerrs daa \<le> nerrs ?d1" "nerrs ?d1 \<le> nerrs ?d2" "nerrs ?d2 \<le> nerrs (daaCheckExprs incr ?d2)"
    using exprs_errors_grow errors_grow by simp_all
  then show "sound False (texts ?d1) r"
    using assms [OF *(1-5) refl, of "fst (daaCheckAssignmentStmt body ?d1)" ?d2] *(6) by simp
qed

lemma loop_stop_sound:
  assumes "exprs_sound cs U r"
  shows "loop_sound cs body incr U r"
  by (rule loop_soundI) (use exprs_soundD [OF assms] in simp)

lemma loop_body_sound:
  assumes "exprs_sound cs U (Completes V)" "stmt_sound body V b" "ready cs" "covered body"
    "U \<subseteq> texts daa" "daaCheckAssignmentStmt body (daaCheckExprs cs daa) = (e, d2)"
    "nerrs (daaCheckExprs cs daa) \<le> nerrs daa" "nerrs d2 \<le> nerrs (daaCheckExprs cs daa)"
  shows "V \<subseteq> texts (daaCheckExprs cs daa)" "sound e (texts d2) b"
proof -
  show V: "V \<subseteq> texts (daaCheckExprs cs daa)"
    using exprs_soundD [OF assms(1,3,5,7)] soundD by blast
  show "sound e (texts d2) b"
    using stmt_soundD [OF assms(2,4) V] assms(6,8) sound_declared by fastforce
qed

lemma loop_leave_sound:
  assumes "exprs_sound cs U (Completes V)" "stmt_sound body V r" "r = Returns_value \<or> r = Faults"
  shows "loop_sound cs body incr U r"
  by (rule loop_soundI) (use loop_body_sound(2) [OF assms(1,2)] assms(3) in \<open>force simp: sound_def\<close>)

lemma loop_break_sound:
  assumes "exprs_sound cs U (Completes V)" "stmt_sound body V (Breaks W)" "W \<subseteq> V"
  shows "loop_sound cs body incr U (Completes W)"
  by (rule loop_soundI) (use loop_body_sound(1) [OF assms(1,2)] assms(3) in \<open>force simp: sound_def\<close>)

lemma loop_incr_stop_sound:
  assumes "exprs_sound cs U (Completes V)" "stmt_sound body V b" "b = Completes W \<or> b = Continues W"
    "exprs_sound incr W r" "\<not> completes r" "b = Continues W \<Longrightarrow> continues body" "incr \<noteq> []"
  shows "loop_sound cs body incr U r"
proof (rule loop_soundI)
  fix daa d1 d2 e
  assume *: "ready cs" "covered body" "ready incr" "incr = [] \<or> \<not> continues body" "U \<subseteq> texts daa"
    "d1 = daaCheckExprs cs daa" "daaCheckAssignmentStmt body d1 = (e, d2)" "nerrs d1 \<le> nerrs daa"
    "nerrs d2 \<le> nerrs d1" "nerrs (daaCheckExprs incr d2) \<le> nerrs d2"
  have "sound e (texts d2) b" using loop_body_sound(2) [OF assms(1,2)] * by blast
  then have "W \<subseteq> texts d2" using assms(3,6,7) * soundD by blast
  then have "r \<noteq> Faults" using exprs_soundD [OF assms(4) *(3)] * sound_faults by blast
  then show "sound False (texts d1) r" using assms(5) soundI by blast
qed

lemma loop_again_sound:
  assumes "loop_sound cs body incr X r" "X \<subseteq> U"
  shows "loop_sound cs body incr U r"
  using assms by (auto simp: loop_sound_def)

lemma while_sound:
  assumes "loop_sound [c] body [] U r"
  shows "stmt_sound (NODE_WHILE l c body) U r"
proof (rule stmt_soundI)
  let ?n = "NODE_WHILE l c body"
  fix daa assume *: "covered ?n" "U \<subseteq> texts daa" "nerrs (snd (daaCheckAssignmentStmt ?n daa)) \<le> nerrs daa"
  then show "sound (fst (daaCheckAssignmentStmt ?n daa)) (texts (snd (daaCheckAssignmentStmt ?n daa))) (declared ?n r)"
    using assms ready_children [OF *(1)] covered_stmt [OF *(1)]
    by (simp add: loop_sound_def declared_plain Let_def)
qed

lemma for_increment_covered:
  "covered (NODE_FOR l i c body incr) \<Longrightarrow> opt_list incr = [] \<or> \<not> continues body"
  using covered_self [of "NODE_FOR l i c body incr"]
  by (cases incr) (auto simp: node_covered_def continues_def opt_list_def)

text \<open>What a \<open>for\<close> loop checks: its initializer as the only statement of a scope, then the rounds.\<close>

lemma for_init_check:
  "snd (daaCheckAssignmentBlock (opt_list i) None daa) =
     (case i of Some i \<Rightarrow> snd (daaCheckAssignmentStmt i daa) | None \<Rightarrow> daa)"
  by (cases i) (simp_all add: opt_list_def split_beta)

lemma for_parts:
  fixes daa :: Daa and i :: "AstNode option"
  defines "di \<equiv> snd (daaCheckAssignmentBlock (opt_list i) None daa)"
  assumes "nerrs (snd (daaCheckAssignmentStmt (NODE_FOR l i c body incr) daa)) \<le> nerrs daa"
  shows "nerrs di \<le> nerrs daa"
    "nerrs (daaCheckExprs (opt_list incr) (snd (daaCheckAssignmentStmt body (daaCheckExprs (opt_list c) di)))) \<le> nerrs di"
    "texts (snd (daaCheckAssignmentStmt (NODE_FOR l i c body incr) daa)) = texts (daaCheckExprs (opt_list c) di)"
    "\<not> fst (daaCheckAssignmentStmt (NODE_FOR l i c body incr) daa)"
proof -
  let ?dc = "daaCheckExprs (opt_list c) di"
  let ?db = "snd (daaCheckAssignmentStmt body ?dc)"
  have 1: "nerrs daa \<le> nerrs di" "nerrs di \<le> nerrs ?dc" "nerrs ?dc \<le> nerrs ?db"
      "nerrs ?db \<le> nerrs (daaCheckExprs (opt_list incr) ?db)"
    unfolding di_def using block_errors_grow exprs_errors_grow errors_grow by simp_all
  have 2: "nerrs (daaCheckExprs (opt_list incr) ?db) \<le> nerrs daa"
    using assms(2) by (simp add: di_def for_init_check Let_def)
  show "nerrs di \<le> nerrs daa" "nerrs (daaCheckExprs (opt_list incr) ?db) \<le> nerrs di"
    using 1 2 by linarith+
qed (simp_all add: di_def for_init_check Let_def)

lemma for_init_sound:
  assumes "block_sound (opt_list i) U r" "covered (NODE_FOR l i c body incr)" "U \<subseteq> texts daa"
    "nerrs (snd (daaCheckAssignmentBlock (opt_list i) None daa)) \<le> nerrs daa"
  shows "sound (fst (daaCheckAssignmentBlock (opt_list i) None daa))
    (texts (snd (daaCheckAssignmentBlock (opt_list i) None daa))) r"
  using assms(1) [unfolded block_sound_def, rule_format, of "opt_list i" None daa] assms(2-4)
    covered_stmt [OF assms(2)]
  by (simp add: opt_list_def list_all_iff split: option.splits)

lemma for_stop_sound:
  assumes "block_sound (opt_list i) U r" "\<not> completes r"
  shows "stmt_sound (NODE_FOR l i c body incr) U (leave_scope U r)"
proof (rule stmt_soundI)
  let ?n = "NODE_FOR l i c body incr"
  fix daa assume *: "covered ?n" "U \<subseteq> texts daa" "nerrs (snd (daaCheckAssignmentStmt ?n daa)) \<le> nerrs daa"
  have "r \<noteq> Faults" using for_init_sound [OF assms(1) *(1,2)] for_parts(1) [OF *(3)] sound_faults by blast
  then show "sound (fst (daaCheckAssignmentStmt ?n daa)) (texts (snd (daaCheckAssignmentStmt ?n daa)))
      (declared ?n (leave_scope U r))"
    using assms(2) by (cases r) (auto simp: declared_plain sound_def)
qed

lemma for_sound:
  assumes "block_sound (opt_list i) U (Completes V)" "loop_sound (opt_list c) body (opt_list incr) V r"
  shows "stmt_sound (NODE_FOR l i c body incr) U (leave_scope U r)"
proof (rule stmt_soundI)
  let ?n = "NODE_FOR l i c body incr"
  fix daa assume *: "covered ?n" "U \<subseteq> texts daa" "nerrs (snd (daaCheckAssignmentStmt ?n daa)) \<le> nerrs daa"
  let ?di = "snd (daaCheckAssignmentBlock (opt_list i) None daa)"
  have V: "V \<subseteq> texts ?di"
    using for_init_sound [OF assms(1) *(1,2)] for_parts(1) [OF *(3)] soundD by blast
  have "ready (opt_list c)" "ready (opt_list incr)" "covered body"
    using ready_children [OF *(1)] covered_stmt [OF *(1)] by (simp_all add: ready_def)
  then have "sound False (texts (daaCheckExprs (opt_list c) ?di)) r"
    using assms(2) V for_parts(2) [OF *(3)] for_increment_covered [OF *(1)] by (simp add: loop_sound_def)
  then show "sound (fst (daaCheckAssignmentStmt ?n daa)) (texts (snd (daaCheckAssignmentStmt ?n daa)))
      (declared ?n (leave_scope U r))"
    using for_parts(3,4) [OF *(3)] by (simp add: declared_plain sound_leave)
qed

text \<open>The rules of the run relation, one by one.\<close>

lemma nil_sound: "exprs_sound [] U (Completes U)" "block_sound [] U (Completes U)"
  by (auto simp: exprs_sound_def block_sound_def sound_def opt_list_def split: option.splits)

lemma jump_sound:
  "stmt_sound (NODE_BREAK l t) U (Breaks U)" "stmt_sound (NODE_CONTINUE l t) U (Continues U)"
  by (rule stmt_soundI, simp add: declared_plain sound_def)+

lemma runs_sound:
  "ev n U r \<Longrightarrow> stmt_sound n U r"
  "evx ns U r \<Longrightarrow> exprs_sound ns U r"
  "evs ns U r \<Longrightarrow> block_sound ns U r"
  "evl cs body incr U r \<Longrightarrow> loop_sound cs body incr U r"
proof (induction rule: ev_evx_evs_evl.inducts)
  case (ev_read line name U) show ?case by (rule read_sound)
next
  case (ev_assign val U V line name) then show ?case using assign_sound by fastforce
next
  case (ev_assign_stop val U r line name) then show ?case using assign_sound [of val U r line name] by (cases r) simp_all
next
  case (ev_var vd U r line) then show ?case by (auto simp: opt_list_def intro!: var_sound)
next
  case (ev_else c U V e r line t) then show ?case using else_sound [of c U V "Some e" r] by simp
next
  case (ev_no_else c U V line t) then show ?case using else_sound [of c U V None] by simp
next
  case (ev_return val U V line) then show ?case using return_sound by fastforce
next
  case (ev_return_stop val U r line) then show ?case using return_sound [of val U r line] by simp
next
  case (evl_break cs U V body W incr)
  then show ?case using loop_break_sound ev_shrinks(1) [OF evl_break(2)] by simp
next
  case (evl_incr_stop cs U V body b W incr r)
  have "incr \<noteq> []" using evl_incr_stop by auto
  moreover have "continues body" if "b = Continues W" using no_continue(1) [OF evl_incr_stop(2)] that by blast
  ultimately show ?case using evl_incr_stop loop_incr_stop_sound by blast
next
  case (evl_again cs U V body b W incr X r)
  have "V \<subseteq> U" "W \<subseteq> V" "X \<subseteq> W"
    using ev_shrinks(1,2) evl_again.hyps names_of.simps by metis+
  then show ?case using evl_again loop_again_sound by blast
qed (simp_all add: inert_sound strict_sound both_sound skip_right_sound block_stmt_sound if_stop_sound then_sound
    while_sound for_sound for_stop_sound nil_sound exprs_sound_stop exprs_sound_Cons block_sound_stop block_sound_Cons
    loop_stop_sound loop_leave_sound jump_sound)

section \<open>The promise of the check\<close>

definition set_body_runs :: "FunctionNode \<Rightarrow> bytes set outcome \<Rightarrow> bool" where
  "set_body_runs fn r \<longleftrightarrow> evs (bl_stmts (fn_body fn) @ opt_list (bl_value (fn_body fn))) {} r"

definition fn_covered :: "FunctionNode \<Rightarrow> bool" where
  "fn_covered fn \<longleftrightarrow> fn_exprBody fn = None \<and> covered (NODE_BLOCK 0 (fn_body fn))"

lemma accepted_set_runs:
  assumes "daaCheckFn fn = []" "fn_covered fn" "set_body_runs fn r"
  shows "r \<noteq> Faults"
proof -
  let ?b = "fn_body fn" and ?d = "\<lparr>daa_names = daaSetInit, daa_errors = []\<rparr>"
  have cov: "covered (NODE_BLOCK 0 ?b)" using assms(2) by (simp add: fn_covered_def)
  have "list_all covered (bl_stmts ?b)" "ready (opt_list (bl_value ?b))"
    using covered_stmt [OF cov] ready_children [OF cov] by (simp_all add: list_all_iff)
  moreover have "block_sound (bl_stmts ?b @ opt_list (bl_value ?b)) {} r"
    using assms(3) runs_sound(3) by (simp add: set_body_runs_def)
  moreover have "nerrs (snd (daaCheckAssignmentBlock (bl_stmts ?b) (bl_value ?b) ?d)) \<le> nerrs ?d"
    using assms(1,2) by (simp add: daaCheckFn_def fn_covered_def nerrs_def)
  ultimately have "sound (fst (daaCheckAssignmentBlock (bl_stmts ?b) (bl_value ?b) ?d))
      (texts (snd (daaCheckAssignmentBlock (bl_stmts ?b) (bl_value ?b) ?d))) r"
    unfolding block_sound_def by (metis empty_subsetI prod.collapse)
  then show ?thesis by (rule sound_faults)
qed

end
