(* ===== verification/Assignment_Scopes.thy ===== *)
theory Assignment_Scopes
  imports Assignment_Safety
begin

text \<open>
  Runs of a function body in which every declaration makes a variable of its own, as in the language, and
  the promise of the definite assignment check for them.  The check works on names, so it holds as long as
  no declaration hides a variable that was declared without a value; where one does, the check can be wrong
  (\<open>shadowing_deceives_the_check\<close>).
\<close>

section \<open>Runs with scopes\<close>

text \<open>The variables in scope, innermost first, and whether each is assigned.\<close>

type_synonym env = "(bytes \<times> bool) list"

fun assign_var :: "bytes \<Rightarrow> env \<Rightarrow> env" where
  "assign_var x [] = []"
| "assign_var x ((y, b) # E) = (if x = y then (y, True) # E else (y, b) # assign_var x E)"

text \<open>The variable a statement declares for the rest of its scope.\<close>

fun declared_var :: "AstNode \<Rightarrow> (bytes \<times> bool) option" where
  "declared_var (NODE_VAR_DECL _ vd) = Some (tok_text (vd_name vd), vd_initializer vd \<noteq> None)"
| "declared_var (NODE_FUNCTION _ fn) = (if fn_isLambda fn then None else Some (tok_text (fn_name fn), True))"
| "declared_var (NODE_STRUCT _ name _ _ _) = Some (tok_text name, True)"
| "declared_var _ = None"

definition declare_var :: "AstNode \<Rightarrow> env \<Rightarrow> env" where
  "declare_var n E = opt_list (declared_var n) @ E"

definition leave_env :: "env \<Rightarrow> env outcome \<Rightarrow> env outcome" where
  "leave_env E r = map_outcome (\<lambda>E'. drop (length E' - length E) E') r"

text \<open>The rules are those of \<open>ev\<close>, with the variables in the place of the set of names.\<close>

inductive sv :: "AstNode \<Rightarrow> env \<Rightarrow> env outcome \<Rightarrow> bool"
  and svx :: "AstNode list \<Rightarrow> env \<Rightarrow> env outcome \<Rightarrow> bool"
  and svs :: "AstNode list \<Rightarrow> env \<Rightarrow> env outcome \<Rightarrow> bool"
  and svl :: "AstNode list \<Rightarrow> AstNode \<Rightarrow> AstNode list \<Rightarrow> env \<Rightarrow> env outcome \<Rightarrow> bool"
where
  sv_read: "sv (NODE_VARIABLE line name) E
     (if map_of E (tok_text name) = Some False then Faults else Completes E)"
| sv_inert: "inert n \<Longrightarrow> sv n E (Completes E)"
| sv_strict: "strict_operands n = Some ns \<Longrightarrow> svx ns E r \<Longrightarrow> sv n E r"
| sv_skip_right: "logical_operands n = Some (a, b) \<Longrightarrow> svx [a] E r \<Longrightarrow> sv n E r"
| sv_both: "logical_operands n = Some (a, b) \<Longrightarrow> svx [a, b] E r \<Longrightarrow> sv n E r"
| sv_assign: "sv val E (Completes F) \<Longrightarrow> sv (NODE_ASSIGN line name val) E (Completes (assign_var (tok_text name) F))"
| sv_assign_stop: "sv val E r \<Longrightarrow> \<not> completes r \<Longrightarrow> sv (NODE_ASSIGN line name val) E r"
| sv_var: "svx (opt_list (vd_initializer vd)) E r \<Longrightarrow> sv (NODE_VAR_DECL line vd) E r"
| sv_block: "svs (bl_stmts blk @ opt_list (bl_value blk)) E r \<Longrightarrow> sv (NODE_BLOCK line blk) E (leave_env E r)"
| sv_if_stop: "sv c E r \<Longrightarrow> \<not> completes r \<Longrightarrow> sv (NODE_IF line c t e) E r"
| sv_then: "sv c E (Completes F) \<Longrightarrow> sv t F r \<Longrightarrow> sv (NODE_IF line c t e) E r"
| sv_else: "sv c E (Completes F) \<Longrightarrow> sv e F r \<Longrightarrow> sv (NODE_IF line c t (Some e)) E r"
| sv_no_else: "sv c E (Completes F) \<Longrightarrow> sv (NODE_IF line c t None) E (Completes F)"
| sv_while: "svl [c] body [] E r \<Longrightarrow> sv (NODE_WHILE line c body) E r"
| sv_for: "svs (opt_list init) E (Completes F) \<Longrightarrow> svl (opt_list c) body (opt_list incr) F r \<Longrightarrow>
    sv (NODE_FOR line init c body incr) E (leave_env E r)"
| sv_for_stop: "svs (opt_list init) E r \<Longrightarrow> \<not> completes r \<Longrightarrow>
    sv (NODE_FOR line init c body incr) E (leave_env E r)"
| sv_return: "svx (opt_list val) E (Completes F) \<Longrightarrow> sv (NODE_RETURN line val) E Returns_value"
| sv_return_stop: "svx (opt_list val) E r \<Longrightarrow> \<not> completes r \<Longrightarrow> sv (NODE_RETURN line val) E r"
| sv_break: "sv (NODE_BREAK line token) E (Breaks E)"
| sv_continue: "sv (NODE_CONTINUE line token) E (Continues E)"
| svx_nil: "svx [] E (Completes E)"
| svx_stop: "sv n E r \<Longrightarrow> \<not> completes r \<Longrightarrow> svx (n # ns) E r"
| svx_cons: "sv n E (Completes F) \<Longrightarrow> svx ns F r \<Longrightarrow> svx (n # ns) E r"
| svs_nil: "svs [] E (Completes E)"
| svs_stop: "sv n E r \<Longrightarrow> \<not> completes r \<Longrightarrow> svs (n # ns) E r"
| svs_cons: "sv n E (Completes F) \<Longrightarrow> svs ns (declare_var n F) r \<Longrightarrow> svs (n # ns) E r"
| svl_stop: "svx cs E r \<Longrightarrow> \<not> completes r \<Longrightarrow> svl cs body incr E r"
| svl_exit: "svx cs E (Completes F) \<Longrightarrow> svl cs body incr E (Completes F)"
| svl_leave: "svx cs E (Completes F) \<Longrightarrow> sv body F r \<Longrightarrow> r = Returns_value \<or> r = Faults \<Longrightarrow>
    svl cs body incr E r"
| svl_break: "svx cs E (Completes F) \<Longrightarrow> sv body F (Breaks G) \<Longrightarrow> svl cs body incr E (Completes G)"
| svl_incr_stop: "svx cs E (Completes F) \<Longrightarrow> sv body F b \<Longrightarrow> b = Completes G \<or> b = Continues G \<Longrightarrow>
    svx incr G r \<Longrightarrow> \<not> completes r \<Longrightarrow> svl cs body incr E r"
| svl_again: "svx cs E (Completes F) \<Longrightarrow> sv body F b \<Longrightarrow> b = Completes G \<or> b = Continues G \<Longrightarrow>
    svx incr G (Completes H) \<Longrightarrow> svl cs body incr H r \<Longrightarrow> svl cs body incr E r"

section \<open>Declarations that hide no unassigned variable\<close>

text \<open>
  \<open>V\<close> has the names in scope that were declared without a value; no declaration in their scope may take one
  of them again.
\<close>

definition scope_items :: "AstNode \<Rightarrow> AstNode list option" where
  "scope_items n =
     (case n of
        NODE_BLOCK _ blk \<Rightarrow> Some (bl_stmts blk @ opt_list (bl_value blk))
      | NODE_FOR _ init c body incr \<Rightarrow> Some (opt_list init @ opt_list c @ [body] @ opt_list incr)
      | _ \<Rightarrow> None)"

definition unset_names :: "AstNode \<Rightarrow> bytes list \<Rightarrow> bytes list" where
  "unset_names n V = (case declared_var n of Some (x, b) \<Rightarrow> if b then V else x # V | None \<Rightarrow> V)"

lemma scope_items_size: "scope_items n = Some ns \<Longrightarrow> 2 * sum_list (map size ns) + length ns < 2 * size n"
  by (auto simp: scope_items_def size_block size_list_sum opt_list_def split: AstNode.split_asm option.split)

function unshadowed :: "bytes list \<Rightarrow> AstNode \<Rightarrow> bool"
  and unshadowed_seq :: "bytes list \<Rightarrow> AstNode list \<Rightarrow> bool"
where
  "unshadowed V n =
     (case scope_items n of
        Some ns \<Rightarrow> unshadowed_seq V ns
      | None \<Rightarrow> list_all (unshadowed V) (expr_children n @ stmt_children n))"
| "unshadowed_seq V [] = True"
| "unshadowed_seq V (n # ns) =
     (unshadowed V n \<and> (case declared_var n of Some (x, _) \<Rightarrow> x \<notin> set V | None \<Rightarrow> True) \<and>
      unshadowed_seq (unset_names n V) ns)"
  by pat_completeness auto
termination
  by (relation "measure (\<lambda>x. case x of
      Inl (_, n) \<Rightarrow> 2 * size n | Inr (_, ns) \<Rightarrow> 2 * sum_list (map size ns) + length ns)")
    (auto simp: scope_items_size expr_children_size stmt_children_size)

declare unshadowed.simps [simp del]


lemma unshadowed_scope: "unshadowed V n \<Longrightarrow> scope_items n = Some ns \<Longrightarrow> unshadowed_seq V ns"
  by (simp add: unshadowed.simps)

lemma unshadowed_child:
  "unshadowed V n \<Longrightarrow> scope_items n = None \<Longrightarrow> m \<in> set (expr_children n) \<or> m \<in> set (stmt_children n) \<Longrightarrow> unshadowed V m"
  by (subst (asm) unshadowed.simps) (auto simp: list_all_iff)

section \<open>Scoped runs as runs on names\<close>

text \<open>The names of the unassigned variables, which must not be hidden.\<close>

definition unset :: "env \<Rightarrow> bytes set" where
  "unset E = {x. (x, False) \<in> set E}"

fun clear_env :: "bytes set \<Rightarrow> env \<Rightarrow> bool" where
  "clear_env V [] = True"
| "clear_env V ((x, b) # E) \<longleftrightarrow> x \<notin> unset E \<and> (\<not> b \<longrightarrow> x \<in> V) \<and> clear_env V E"

text \<open>\<open>F\<close> has the variables of \<open>E\<close>, some assigned since, and perhaps new ones, none of them in \<open>V\<close>.\<close>

definition assigned_since :: "env \<Rightarrow> env \<Rightarrow> bool" where
  "assigned_since = list_all2 (\<lambda>(x, a) (y, b). x = y \<and> (a \<longrightarrow> b))"

definition grown :: "bytes set \<Rightarrow> env \<Rightarrow> env \<Rightarrow> bool" where
  "grown V E F \<longleftrightarrow> (\<exists>new old. F = new @ old \<and> V \<inter> fst ` set new = {} \<and>
     assigned_since E old)"

fun outcome_all :: "('a \<Rightarrow> bool) \<Rightarrow> 'a outcome \<Rightarrow> bool" where
  "outcome_all P (Completes F) = P F"
| "outcome_all P (Breaks F) = P F"
| "outcome_all P (Continues F) = P F"
| "outcome_all P _ = True"

lemma unset_simps [simp]:
  "unset [] = {}" "unset ((x, b) # E) = (if b then unset E else insert x (unset E))"
  by (auto simp: unset_def)





lemma since_refl: "assigned_since E E"
  unfolding assigned_since_def by (rule list_all2_refl) auto

lemma since_simps [simp]:
  "assigned_since [] F \<longleftrightarrow> F = []" "assigned_since E [] \<longleftrightarrow> E = []"
  "assigned_since ((x, a) # E) ((y, b) # F) \<longleftrightarrow> x = y \<and> (a \<longrightarrow> b) \<and> assigned_since E F"
  by (simp_all add: assigned_since_def)


lemma grown_since: "assigned_since E F \<Longrightarrow> grown V E F"
  unfolding grown_def by (rule exI [of _ "[]"]) simp

lemma grown_refl [simp]: "grown V E E"
  by (rule grown_since [OF since_refl])














lemma unshadowed_nodes [simp]:
  "unshadowed V (NODE_ASSIGN l name val) = unshadowed V val"
  "unshadowed V (NODE_VAR_DECL l vd) = list_all (unshadowed V) (opt_list (vd_initializer vd))"
  "unshadowed V (NODE_BLOCK l blk) = unshadowed_seq V (bl_stmts blk @ opt_list (bl_value blk))"
  "unshadowed V (NODE_IF l c t e) = (unshadowed V c \<and> unshadowed V t \<and> list_all (unshadowed V) (opt_list e))"
  "unshadowed V (NODE_WHILE l c body) = (unshadowed V c \<and> unshadowed V body)"
  "unshadowed V (NODE_RETURN l v) = list_all (unshadowed V) (opt_list v)"
  "unshadowed V (NODE_FOR l init oc body incr) =
     unshadowed_seq V (opt_list init @ opt_list oc @ [body] @ opt_list incr)"
  by (simp_all add: unshadowed.simps [of V "NODE_ASSIGN l name val"] unshadowed.simps [of V "NODE_VAR_DECL l vd"]
      unshadowed.simps [of V "NODE_BLOCK l blk"] unshadowed.simps [of V "NODE_IF l c t e"]
      unshadowed.simps [of V "NODE_WHILE l c body"] unshadowed.simps [of V "NODE_RETURN l v"]
      unshadowed.simps [of V "NODE_FOR l init oc body incr"] scope_items_def)

text \<open>A run on names beside a run with scopes.\<close>

definition mirrors :: "(bytes set \<Rightarrow> bytes set outcome \<Rightarrow> bool) \<Rightarrow> bytes list \<Rightarrow> env \<Rightarrow> env outcome \<Rightarrow> bool" where
  "mirrors run V E r \<longleftrightarrow> run (unset E) (map_outcome unset r) \<and> outcome_all (grown (set V) E) r \<and>
     outcome_all (clear_env (set V)) r"

lemma completes_map [simp]: "completes (map_outcome f r) = completes r"
  by (cases r) simp_all

lemma mirrors_Completes [simp]:
  "mirrors run V E (Completes F) \<longleftrightarrow> run (unset E) (Completes (unset F)) \<and> grown (set V) E F \<and> clear_env (set V) F"
  by (simp add: mirrors_def)













section \<open>The promise of the check\<close>

text \<open>A run of a function body; parameters and the variables of other functions count as assigned.\<close>

definition body_runs :: "FunctionNode \<Rightarrow> env outcome \<Rightarrow> bool" where
  "body_runs fn r \<longleftrightarrow> svs (bl_stmts (fn_body fn) @ opt_list (bl_value (fn_body fn))) [] r"


text \<open>A variable assigned on one branch, where the other returns, and a second one of the same name beside it.\<close>

definition wx :: Token where
  "wx = tokenFromCString (ascii ''x'')"

abbreviation (input) "wx_line l \<equiv> NODE_VAR_DECL l (VarDeclNode wx None None 1 False False)"
abbreviation (input) "wx_set l \<equiv> NODE_EXPR_STMT l (NODE_ASSIGN l wx (NODE_LITERAL l LITERAL_NIL))"
abbreviation (input) "fn_of stmts val \<equiv> FunctionNode (tokenFromCString (ascii ''f'')) [] []
  (BlockNode stmts val 5) None None 5 False False False False False []"


lemma wx_set_run: "sv (wx_set l) ((tok_text wx, b) # E) (Completes ((tok_text wx, True) # E))"
proof -
  have "sv (NODE_ASSIGN l wx (NODE_LITERAL l LITERAL_NIL)) ((tok_text wx, b) # E) (Completes ((tok_text wx, True) # E))"
    using sv_assign [OF sv_inert, where name = wx and E = "(tok_text wx, b) # E" and val = "NODE_LITERAL l LITERAL_NIL"]
    by simp
  then have "svx [NODE_ASSIGN l wx (NODE_LITERAL l LITERAL_NIL)] ((tok_text wx, b) # E)
      (Completes ((tok_text wx, True) # E))"
    by (rule svx_cons [OF _ svx_nil])
  then show ?thesis by (rule sv_strict [rotated]) simp
qed

lemma wx_line_run: "sv (wx_line l) E (Completes E)" "declare_var (wx_line l) E = (tok_text wx, False) # E"
proof -
  have "svx (opt_list (vd_initializer (VarDeclNode wx None None 1 False False))) E (Completes E)" by (simp add: svx_nil)
  then show "sv (wx_line l) E (Completes E)" by (rule sv_var)
qed (simp add: declare_var_def)




text \<open>
  The inner \<open>x\<close> is assigned on every path, and the check takes the assignment for one of the outer \<open>x\<close>, which
  is then read without a value.
\<close>

definition shadow_fn :: FunctionNode where
  "shadow_fn = fn_of
     [wx_line 1,
      NODE_BLOCK 2 (BlockNode [wx_line 2,
        NODE_IF 2 (NODE_LITERAL 2 (LITERAL_BOOL True)) (NODE_BLOCK 2 (BlockNode [] None 2)) None, wx_set 3] None 3)]
     (Some (NODE_VARIABLE 4 wx))"

lemma shadowing_deceives_the_check: "daaCheckFn shadow_fn = [] \<and> fn_covered shadow_fn \<and> body_runs shadow_fn Faults"
proof -
  let ?b = "BlockNode [wx_line 2,
    NODE_IF 2 (NODE_LITERAL 2 (LITERAL_BOOL True)) (NODE_BLOCK 2 (BlockNode [] None 2)) None, wx_set 3] None 3"
  let ?E = "[(tok_text wx, False)]"
  have 1: "svs (bl_stmts ?b @ opt_list (bl_value ?b)) ?E (Completes ((tok_text wx, True) # ?E))"
    by (auto simp: wx_line_run(2) declare_var_def
        intro!: svs_cons [OF wx_line_run(1)] svs_cons [OF sv_no_else [OF sv_inert]] svs_cons [OF wx_set_run] svs_nil)
  have 2: "sv (NODE_BLOCK 2 ?b) ?E (Completes ?E)"
    using sv_block [OF 1, of 2] by (simp add: leave_env_def)
  have 3: "sv (NODE_VARIABLE 4 wx) ?E Faults" using sv_read [of 4 wx ?E] by simp
  have "body_runs shadow_fn Faults"
    unfolding body_runs_def shadow_fn_def
    by (auto simp: wx_line_run(2) declare_var_def
        intro!: svs_cons [OF wx_line_run(1)] svs_cons [OF 2] svs_stop [OF 3])
  moreover have "daaCheckFn shadow_fn = []" "fn_covered shadow_fn" by code_simp+
  ultimately show ?thesis by simp
qed

end
