(* ===== verification/Compiler_State.thy ===== *)
theory Compiler_State
  imports Ast Compiled_Unit Opcode
begin

text \<open>
  The compiler's state and the part of \<^verbatim>\<open>src/compiler.c\<close> that does not follow the syntax tree: locals
  and captured variables, constants, the emitted bytes, jumps, and the height of the stack that the
  compiler keeps from the bytes it has emitted.

  \<open>current\<close>, a chain of compilers from the innermost function outwards, is a list, and so is the chain
  of loops at \<open>currentLoop\<close>.  A compiler's \<open>fn\<close> is the function of the unit at its \<open>fnIndex\<close>: the C code
  refreshes its cached pointers whenever the array of functions may move.  \<open>None\<close> is a pointer outside
  its array or NULL.  Messages are kept as the line, the place and the sentence.
\<close>

section \<open>Opcodes as bytes\<close>

fun op_ordinal :: "OpCode \<Rightarrow> nat" where
  "op_ordinal OP_CONSTANT = 0"
| "op_ordinal OP_NIL = 1"
| "op_ordinal OP_TRUE = 2"
| "op_ordinal OP_FALSE = 3"
| "op_ordinal OP_ADD = 4"
| "op_ordinal OP_SUBTRACT = 5"
| "op_ordinal OP_MULTIPLY = 6"
| "op_ordinal OP_DIVIDE = 7"
| "op_ordinal OP_MODULO = 8"
| "op_ordinal OP_NEGATE = 9"
| "op_ordinal OP_PRINT = 10"
| "op_ordinal OP_RETURN = 11"
| "op_ordinal OP_EQUAL = 12"
| "op_ordinal OP_NOT = 13"
| "op_ordinal OP_POP = 14"
| "op_ordinal OP_CLOSE_UPVALUE = 15"
| "op_ordinal OP_DEFINE_GLOBAL = 16"
| "op_ordinal OP_GET_GLOBAL = 17"
| "op_ordinal OP_SET_GLOBAL = 18"
| "op_ordinal OP_GET_UPVALUE = 19"
| "op_ordinal OP_SET_UPVALUE = 20"
| "op_ordinal OP_GET_LOCAL = 21"
| "op_ordinal OP_SET_LOCAL = 22"
| "op_ordinal OP_JUMP_IF_FALSE = 23"
| "op_ordinal OP_JUMP_IF_NOT_NIL = 24"
| "op_ordinal OP_JUMP = 25"
| "op_ordinal OP_LOOP = 26"
| "op_ordinal OP_GREATER = 27"
| "op_ordinal OP_LESS = 28"
| "op_ordinal OP_CALL = 29"
| "op_ordinal OP_CLOSURE = 30"
| "op_ordinal OP_STRUCT = 31"
| "op_ordinal OP_STRUCT_INIT = 32"
| "op_ordinal OP_FIELD = 33"
| "op_ordinal OP_GET_PROPERTY = 34"
| "op_ordinal OP_SET_PROPERTY = 35"
| "op_ordinal OP_METHOD = 36"
| "op_ordinal OP_INVOKE = 37"
| "op_ordinal OP_LIST = 38"
| "op_ordinal OP_GET_INDEX = 39"
| "op_ordinal OP_SET_INDEX = 40"
| "op_ordinal OP_CLOSE_BLOCK_EXPR = 41"
| "op_ordinal OP_CAST = 42"
| "op_ordinal OP_ARRAY = 43"

definition op_byte :: "OpCode \<Rightarrow> u8" where
  "op_byte op = word_of_nat (op_ordinal op)"

lemma op_of_byte_op_byte [simp]: "op_of_byte (op_byte op) = Some op"
  by (cases op) (simp_all add: op_of_byte_def op_byte_def OP_COUNT_def all_opcodes_def)

section \<open>State\<close>

definition LOCAL_UNINITIALIZED :: int where
  "LOCAL_UNINITIALIZED = -1"

definition UINT8_COUNT :: nat where
  "UINT8_COUNT = 256"

record Local =
  lc_name :: bytes
  lc_depth :: int
  lc_slot :: int
  lc_isCaptured :: bool
  lc_isMutable :: bool

datatype FunctionType = TYPE_FUNCTION | TYPE_METHOD | TYPE_STATIC_METHOD | TYPE_SCRIPT

record Upvalue =
  uv_index :: u8
  uv_isLocal :: bool
  uv_isMutable :: bool

record LoopCompiler =
  lp_scopeDepth :: int
  lp_breakJumps :: "nat list"
  lp_continueTarget :: nat
  lp_continueDepth :: int

record FnCompiler =
  fc_fnIndex :: nat
  fc_type :: FunctionType
  fc_locals :: "Local list"
  fc_upvalues :: "Upvalue list"
  fc_scopeDepth :: int
  fc_stackHeight :: int
  fc_bytesCounted :: nat
  fc_isReachable :: bool
  fc_lastOpIsReturn :: bool
  fc_enclosingLoop :: "LoopCompiler list"

datatype ErrorPlace = NO_PLACE | AT_END | AT_LEXEME bytes

record CompileMessage =
  cm_line :: int
  cm_place :: ErrorPlace
  cm_message :: string

record Compiler =
  c_current :: "FnCompiler list"
  c_currentLoop :: "LoopCompiler list"
  c_unit :: CompiledUnit
  c_hadError :: bool
  c_messages :: "CompileMessage list"
  c_lambdaCount :: nat
  c_currentLine :: int
  c_implTarget :: "Token option"
  c_immutable :: StringSet
  c_targets :: "(nat \<times> bytes) list"

section \<open>Errors\<close>

definition report :: "int \<Rightarrow> ErrorPlace \<Rightarrow> string \<Rightarrow> Compiler \<Rightarrow> Compiler" where
  "report line place message c =
     c\<lparr>c_hadError := True,
       c_messages := c_messages c @ [\<lparr>cm_line = line, cm_place = place, cm_message = message\<rparr>]\<rparr>"

definition compilerErrorAt :: "int \<Rightarrow> bytes option \<Rightarrow> string \<Rightarrow> Compiler \<Rightarrow> Compiler" where
  "compilerErrorAt line lexeme message c =
     report line (case lexeme of None \<Rightarrow> NO_PLACE | Some l \<Rightarrow> AT_LEXEME l) message c"

definition compilerErrorAtToken :: "Token \<Rightarrow> string \<Rightarrow> Compiler \<Rightarrow> Compiler" where
  "compilerErrorAtToken token message c =
     report (tok_line token)
       (if tok_type token = TOKEN_EOF then AT_END
        else if tok_type token \<noteq> TOKEN_ERROR then AT_LEXEME (tok_text token) else NO_PLACE) message c"

definition compilerErrorAtNode :: "int \<Rightarrow> string \<Rightarrow> Compiler \<Rightarrow> Compiler" where
  "compilerErrorAtNode line message c = compilerErrorAt line None message c"

definition checkStackHeight :: "bool \<Rightarrow> int \<Rightarrow> Compiler \<Rightarrow> Compiler" where
  "checkStackHeight ok line c =
     (if \<not> ok \<and> \<not> c_hadError c
      then compilerErrorAt line None ''Internal compiler error: stack height mismatch.'' c else c)"

definition compilerError :: "string \<Rightarrow> Compiler \<Rightarrow> Compiler" where
  "compilerError message c = compilerErrorAt (c_currentLine c) None message c"

section \<open>The compiler of a function\<close>

definition current :: "Compiler \<Rightarrow> FnCompiler option" where
  "current c = (case c_current c of [] \<Rightarrow> None | fc # _ \<Rightarrow> Some fc)"

definition set_current :: "FnCompiler \<Rightarrow> Compiler \<Rightarrow> Compiler" where
  "set_current fc c = c\<lparr>c_current := fc # tl (c_current c)\<rparr>"

definition set_line :: "int \<Rightarrow> Compiler \<Rightarrow> Compiler" where
  "set_line line c = c\<lparr>c_currentLine := line\<rparr>"

definition currentFn :: "Compiler \<Rightarrow> CompiledFn option" where
  "currentFn c = do { fc \<leftarrow> current c; cuGetFnByIndex (c_unit c) (fc_fnIndex fc) }"

definition set_fn :: "nat \<Rightarrow> CompiledFn \<Rightarrow> Compiler \<Rightarrow> Compiler" where
  "set_fn i fn c = c\<lparr>c_unit := (c_unit c)\<lparr>cu_functions := (cu_functions (c_unit c))[i := fn]\<rparr>\<rparr>"

definition set_currentFn :: "CompiledFn \<Rightarrow> Compiler \<Rightarrow> Compiler option" where
  "set_currentFn fn c = do { fc \<leftarrow> current c; Some (set_fn (fc_fnIndex fc) fn c) }"

text \<open>\<open>snprintf\<close> with \<open>%x\<close>.\<close>

fun hex_text :: "nat \<Rightarrow> string" where
  "hex_text n =
     (if n < 16 then [''0123456789abcdef'' ! n]
      else hex_text (n div 16) @ [''0123456789abcdef'' ! (n mod 16)])"

declare hex_text.simps [simp del]

definition lambda_name :: "nat \<Rightarrow> bytes" where
  "lambda_name n = ascii (take 31 (''lambda0x'' @ hex_text n))"

definition name_function :: "bytes \<Rightarrow> Compiler \<Rightarrow> Compiler option" where
  "name_function name c = do {
     fc \<leftarrow> current c;
     (offset, unit) \<leftarrow> cuInternString (c_unit c) name;
     let c = c\<lparr>c_unit := unit\<rparr>;
     fn \<leftarrow> currentFn c;
     set_currentFn (fn\<lparr>cf_nameOffset := int offset, cf_nameLength := int (length name)\<rparr>) c
   }"

definition new_compiler :: "nat \<Rightarrow> FunctionType \<Rightarrow> LoopCompiler list \<Rightarrow> FnCompiler" where
  "new_compiler fnIndex functionType enclosingLoop =
     \<lparr>fc_fnIndex = fnIndex, fc_type = functionType,
      fc_locals = [\<lparr>lc_name = (if functionType = TYPE_METHOD then ascii ''self'' else []),
                    lc_depth = 0, lc_slot = 0, lc_isCaptured = False, lc_isMutable = False\<rparr>],
      fc_upvalues = [], fc_scopeDepth = 0, fc_stackHeight = 1, fc_bytesCounted = 0,
      fc_isReachable = True, fc_lastOpIsReturn = False, fc_enclosingLoop = enclosingLoop\<rparr>"

definition initCompiler :: "FunctionType \<Rightarrow> bytes option \<Rightarrow> Compiler \<Rightarrow> Compiler option" where
  "initCompiler functionType nameToken c = do {
     let (fnIndex, unit) = cuAddFunction (c_unit c);
     let c = c\<lparr>c_unit := unit,
               c_current := new_compiler fnIndex functionType (c_currentLoop c) # c_current c,
               c_currentLoop := []\<rparr>;
     fn \<leftarrow> currentFn c;
     c \<leftarrow> set_currentFn (fn\<lparr>cf_isStatic := (functionType = TYPE_STATIC_METHOD)\<rparr>) c;
     case nameToken of
       Some name \<Rightarrow> name_function name c
     | None \<Rightarrow>
         if functionType = TYPE_FUNCTION then
           let c = c\<lparr>c_lambdaCount := c_lambdaCount c + 1\<rparr>
           in name_function (lambda_name (c_lambdaCount c)) c
         else Some c
   }"

section \<open>Emitted bytes and the stack height\<close>

definition emitByte :: "u8 \<Rightarrow> Compiler \<Rightarrow> Compiler option" where
  "emitByte byte c = do {
     fn \<leftarrow> currentFn c;
     set_currentFn (cuWriteByte fn byte (c_currentLine c)) c
   }"

definition emitBytes :: "u8 \<Rightarrow> u8 \<Rightarrow> Compiler \<Rightarrow> Compiler option" where
  "emitBytes byte1 byte2 c = do { c \<leftarrow> emitByte byte1 c; emitByte byte2 c }"

definition code_at :: "CompiledFn \<Rightarrow> nat \<Rightarrow> u8 option" where
  "code_at fn i = (if i < length (cf_code fn) then Some (cf_code fn ! i) else None)"

definition constant_at :: "CompiledFn \<Rightarrow> nat \<Rightarrow> CompiledConst option" where
  "constant_at fn i = (if i < length (cf_constants fn) then Some (cf_constants fn ! i) else None)"

definition applyStackEffect :: "OpCode \<Rightarrow> int \<Rightarrow> FnCompiler \<Rightarrow> FnCompiler" where
  "applyStackEffect op count fc =
     (let info = opInfos op;
          fc = fc\<lparr>fc_stackHeight := fc_stackHeight fc + oi_stackEffect info + oi_perCount info * count\<rparr>
      in if op = OP_JUMP \<or> op = OP_LOOP \<or> op = OP_RETURN then fc\<lparr>fc_isReachable := False\<rparr> else fc)"

text \<open>\<open>as.functionIndex\<close> of any constant: it shares its bytes with the kind of a number and the offset of a
  string.\<close>

fun as_functionIndex :: "CompiledConst \<Rightarrow> int option" where
  "as_functionIndex (CONST_FUNCTION fnIndex) = Some fnIndex"
| "as_functionIndex (CONST_STRING offset _) = Some offset"
| "as_functionIndex (CONST_NUMBER kind _) = Some (int (kind_ordinal kind))"
| "as_functionIndex _ = None"

text \<open>The length of the instruction at \<open>i\<close>; a closure's has two bytes per captured variable.\<close>

definition instruction_length :: "CompiledUnit \<Rightarrow> CompiledFn \<Rightarrow> nat \<Rightarrow> OpCode \<Rightarrow> nat option" where
  "instruction_length unit fn i op =
     (let len = 1 + oi_operandBytes (opInfos op) in
      if op = OP_CLOSURE then do {
        k \<leftarrow> code_at fn (i + 1);
        const \<leftarrow> constant_at fn (unat k);
        fnIndex \<leftarrow> as_functionIndex const;
        if fnIndex < 0 then None
        else do {
          callee \<leftarrow> cuGetFnByIndex unit (nat fnIndex);
          Some (len + 2 * nat (cf_upvalueCount callee))
        }
      } else Some len)"

definition count_operand :: "CompiledFn \<Rightarrow> nat \<Rightarrow> OpCode \<Rightarrow> int option" where
  "count_operand fn i op =
     (let info = opInfos op in
      if oi_countOperand info \<ge> 0
      then map_option uint (code_at fn (i + 1 + nat (oi_countOperand info))) else Some 0)"

partial_function (option) countEmittedCode :: "Compiler \<Rightarrow> Compiler option" where
  [code]: "countEmittedCode c = do {
     fc \<leftarrow> current c;
     fn \<leftarrow> currentFn c;
     if fc_bytesCounted fc < length (cf_code fn) then do {
       byte \<leftarrow> code_at fn (fc_bytesCounted fc);
       case op_of_byte byte of
         None \<Rightarrow>
           let c = (if c_hadError c then c
                    else compilerErrorAt (c_currentLine c) None
                           ''Internal compiler error: opcode has no OpInfo entry.'' c)
           in Some (set_current (fc\<lparr>fc_bytesCounted := length (cf_code fn)\<rparr>) c)
       | Some op \<Rightarrow> do {
           len \<leftarrow> instruction_length (c_unit c) fn (fc_bytesCounted fc) op;
           count \<leftarrow> count_operand fn (fc_bytesCounted fc) op;
           let fc = applyStackEffect op count fc;
           countEmittedCode
             (set_current (fc\<lparr>fc_lastOpIsReturn := (op = OP_RETURN),
                              fc_bytesCounted := fc_bytesCounted fc + len\<rparr>) c)
         }
     } else Some c
   }"

definition currentStackHeight :: "Compiler \<Rightarrow> (int \<times> Compiler) option" where
  "currentStackHeight c = do {
     c \<leftarrow> countEmittedCode c;
     fc \<leftarrow> current c;
     Some (fc_stackHeight fc, c)
   }"

definition resetStackHeight :: "int \<Rightarrow> Compiler \<Rightarrow> Compiler option" where
  "resetStackHeight height c = do {
     c \<leftarrow> countEmittedCode c;
     fc \<leftarrow> current c;
     Some (set_current (fc\<lparr>fc_stackHeight := height\<rparr>) c)
   }"

section \<open>Constants\<close>

definition makeConstant :: "CompiledConst \<Rightarrow> Token option \<Rightarrow> Compiler \<Rightarrow> (u8 \<times> Compiler) option" where
  "makeConstant val tok c = do {
     fn \<leftarrow> currentFn c;
     let (constant, fn) = cuAddConstant fn val;
     c \<leftarrow> set_currentFn fn c;
     if constant > 255 then
       Some (0, case tok of
                  Some t \<Rightarrow> compilerErrorAtToken t ''Too many constants in one chunk.'' c
                | None \<Rightarrow> compilerError ''Too many constants in one chunk.'' c)
     else Some (word_of_nat constant, c)
   }"

definition stringConstant :: "bytes \<Rightarrow> Token option \<Rightarrow> Compiler \<Rightarrow> (u8 \<times> Compiler) option" where
  "stringConstant chars tok c = do {
     (offset, unit) \<leftarrow> cuInternString (c_unit c) chars;
     makeConstant (CONST_STRING (int offset) (int (length chars))) tok (c\<lparr>c_unit := unit\<rparr>)
   }"

definition identifierConstant :: "Token \<Rightarrow> Compiler \<Rightarrow> (u8 \<times> Compiler) option" where
  "identifierConstant name c = stringConstant (tok_text name) (Some name) c"

definition emitNumberConstant :: "NumberKind \<Rightarrow> NumberPayload \<Rightarrow> Compiler \<Rightarrow> Compiler option" where
  "emitNumberConstant kind payload c = do {
     (k, c) \<leftarrow> makeConstant (CONST_NUMBER kind payload) None c;
     emitBytes (op_byte OP_CONSTANT) k c
   }"

definition emitStringConstant :: "bytes \<Rightarrow> Compiler \<Rightarrow> Compiler option" where
  "emitStringConstant chars c = do {
     (k, c) \<leftarrow> stringConstant chars None c;
     emitBytes (op_byte OP_CONSTANT) k c
   }"

section \<open>Jumps\<close>

definition emitShort :: "int \<Rightarrow> Compiler \<Rightarrow> Compiler option" where
  "emitShort n c = emitBytes (word_of_int (drop_bit 8 n)) (word_of_int n) c"

definition emitLoop :: "nat \<Rightarrow> Compiler \<Rightarrow> Compiler option" where
  "emitLoop loopStart c = do {
     c \<leftarrow> emitByte (op_byte OP_LOOP) c;
     fn \<leftarrow> currentFn c;
     let offset = int (length (cf_code fn)) - int loopStart + 2;
     let c = (if offset > 65535 then compilerError ''Loop body too large.'' c else c);
     emitShort offset c
   }"

definition emitJump :: "OpCode \<Rightarrow> Compiler \<Rightarrow> (nat \<times> Compiler) option" where
  "emitJump instruction c = do {
     (height, c) \<leftarrow> currentStackHeight c;
     c \<leftarrow> emitByte (op_byte instruction) c;
     c \<leftarrow> emitShort height c;
     fn \<leftarrow> currentFn c;
     Some (length (cf_code fn) - 2, c)
   }"

definition patchJump :: "nat \<Rightarrow> Compiler \<Rightarrow> Compiler option" where
  "patchJump offset c = do {
     fn \<leftarrow> currentFn c;
     hi \<leftarrow> code_at fn offset;
     lo \<leftarrow> code_at fn (offset + 1);
     let heightAtJump = uint hi * 256 + uint lo;
     (height, c) \<leftarrow> currentStackHeight c;
     fc \<leftarrow> current c;
     c \<leftarrow> (if fc_isReachable fc then Some (checkStackHeight (height = heightAtJump) (c_currentLine c) c)
           else do {
             c \<leftarrow> resetStackHeight heightAtJump c;
             fc \<leftarrow> current c;
             Some (set_current (fc\<lparr>fc_isReachable := True\<rparr>) c)
           });
     fn \<leftarrow> currentFn c;
     let jump = int (length (cf_code fn)) - int offset - 2;
     let c = (if jump > 65535 then compilerError ''Too much code to jump over'' c else c);
     set_currentFn (fn\<lparr>cf_code := (cf_code fn)[offset := word_of_int (drop_bit 8 jump),
                                              offset + 1 := word_of_int jump]\<rparr>) c
   }"

section \<open>Variables\<close>

definition isInitialized :: "Local \<Rightarrow> bool" where
  "isInitialized local_var \<longleftrightarrow> lc_depth local_var \<noteq> LOCAL_UNINITIALIZED"

text \<open>The loop from the last local to the first: \<open>i\<close> is one more than the index.\<close>

fun resolve_local_loop :: "Local list \<Rightarrow> bytes \<Rightarrow> nat \<Rightarrow> nat option" where
  "resolve_local_loop locals name 0 = None"
| "resolve_local_loop locals name (Suc i) =
     (if lc_name (locals ! i) = name then Some i else resolve_local_loop locals name i)"

definition resolveLocal :: "FnCompiler \<Rightarrow> Token \<Rightarrow> Compiler \<Rightarrow> nat option \<times> Compiler" where
  "resolveLocal compiler ident c =
     (case resolve_local_loop (fc_locals compiler) (tok_text ident) (length (fc_locals compiler)) of
        None \<Rightarrow> (None, c)
      | Some i \<Rightarrow>
          (Some i,
           if \<not> isInitialized (fc_locals compiler ! i)
           then compilerErrorAtToken ident ''Can't read local variable in its own initializer'' c else c))"

fun find_upvalue :: "Upvalue list \<Rightarrow> u8 \<Rightarrow> bool \<Rightarrow> nat \<Rightarrow> nat option" where
  "find_upvalue [] index isLocal i = None"
| "find_upvalue (u # us) index isLocal i =
     (if uv_index u = index \<and> uv_isLocal u = isLocal then Some i else find_upvalue us index isLocal (i + 1))"

definition addUpvalue ::
  "FnCompiler \<Rightarrow> u8 \<Rightarrow> bool \<Rightarrow> bool \<Rightarrow> Compiler \<Rightarrow> nat \<times> FnCompiler \<times> Compiler" where
  "addUpvalue compiler index isLocal isMutable c =
     (case find_upvalue (fc_upvalues compiler) index isLocal 0 of
        Some i \<Rightarrow> (i, compiler, c)
      | None \<Rightarrow>
          if length (fc_upvalues compiler) = UINT8_COUNT
          then (0, compiler, compilerError ''Too many closure variables in function.'' c)
          else (length (fc_upvalues compiler),
                compiler\<lparr>fc_upvalues := fc_upvalues compiler @
                  [\<lparr>uv_index = index, uv_isLocal = isLocal, uv_isMutable = isMutable\<rparr>]\<rparr>, c))"

definition capture_local :: "nat \<Rightarrow> FnCompiler \<Rightarrow> FnCompiler" where
  "capture_local i compiler =
     compiler\<lparr>fc_locals := (fc_locals compiler)[i := (fc_locals compiler ! i)\<lparr>lc_isCaptured := True\<rparr>]\<rparr>"

text \<open>The chain is the compiler and its enclosing ones.\<close>

fun resolveUpvalue ::
  "FnCompiler list \<Rightarrow> Token \<Rightarrow> Compiler \<Rightarrow> (nat option \<times> FnCompiler list \<times> Compiler) option" where
  "resolveUpvalue [] name c = None"
| "resolveUpvalue [compiler] name c = Some (None, [compiler], c)"
| "resolveUpvalue (compiler # enclosing # outer) name c =
     (case resolveLocal enclosing name c of
        (Some i, c) \<Rightarrow>
          let enclosing = capture_local i enclosing;
              l = fc_locals enclosing ! i;
              (u, compiler, c) = addUpvalue compiler (word_of_int (lc_slot l)) True (lc_isMutable l) c
          in Some (Some u, compiler # enclosing # outer, c)
      | (None, c) \<Rightarrow> do {
          (found, chain, c) \<leftarrow> resolveUpvalue (enclosing # outer) name c;
          case found of
            None \<Rightarrow> Some (None, compiler # chain, c)
          | Some i \<Rightarrow> do {
              captured \<leftarrow> (case chain of e # _ \<Rightarrow>
                  if i < length (fc_upvalues e) then Some (fc_upvalues e ! i) else None | [] \<Rightarrow> None);
              let (u, compiler, c) = addUpvalue compiler (word_of_nat i) False (uv_isMutable captured) c;
              Some (Some u, compiler # chain, c)
            }
        })"

definition addLocal :: "Token \<Rightarrow> bool \<Rightarrow> Compiler \<Rightarrow> Compiler option" where
  "addLocal name isMutable c = do {
     fc \<leftarrow> current c;
     if length (fc_locals fc) = UINT8_COUNT
     then Some (compilerErrorAtToken name ''Too many local variables in function.'' c)
     else if \<exists>l\<in>set (fc_locals fc). lc_name l = tok_text name \<and> \<not> lc_isMutable l
     then Some (compilerErrorAtToken name ''Already declared in this scope.'' c)
     else do {
       (height, c) \<leftarrow> currentStackHeight c;
       fc \<leftarrow> current c;
       Some (set_current (fc\<lparr>fc_locals := fc_locals fc @
         [\<lparr>lc_name = tok_text name, lc_depth = LOCAL_UNINITIALIZED, lc_slot = height,
           lc_isCaptured = False, lc_isMutable = isMutable\<rparr>]\<rparr>) c)
     }
   }"

definition declareVariable :: "Token \<Rightarrow> bool \<Rightarrow> Compiler \<Rightarrow> Compiler option" where
  "declareVariable name isMutable c = do {
     fc \<leftarrow> current c;
     if fc_scopeDepth fc = 0 then Some c else addLocal name isMutable c
   }"

definition compilerSessionEnd :: "Compiler \<Rightarrow> Compiler" where
  "compilerSessionEnd c = c\<lparr>c_immutable := stringSetInit\<rparr>"

definition addImmutableBinding :: "Token \<Rightarrow> Compiler \<Rightarrow> Compiler option" where
  "addImmutableBinding name c = do {
     bindings \<leftarrow> stringSetAdd (c_immutable c) (tok_text name);
     Some (c\<lparr>c_immutable := bindings\<rparr>)
   }"

definition isMutuableBinding :: "Token \<Rightarrow> Compiler \<Rightarrow> bool option" where
  "isMutuableBinding name c = stringSetContains (c_immutable c) (tok_text name)"

definition checkImmutableRedeclaration :: "Token \<Rightarrow> Compiler \<Rightarrow> Compiler option" where
  "checkImmutableRedeclaration name c = do {
     declared \<leftarrow> isMutuableBinding name c;
     Some (if declared then compilerErrorAtToken name ''Already declared in this scope.'' c else c)
   }"

record VarRef =
  vr_getOp :: OpCode
  vr_setOp :: OpCode
  vr_arg :: u8
  vr_isMutable :: bool

definition resolveVariable :: "Token \<Rightarrow> Compiler \<Rightarrow> (VarRef \<times> Compiler) option" where
  "resolveVariable name c = do {
     fc \<leftarrow> current c;
     let (found_local, c) = resolveLocal fc name c;
     case found_local of
       Some i \<Rightarrow>
         Some (\<lparr>vr_getOp = OP_GET_LOCAL, vr_setOp = OP_SET_LOCAL,
                vr_arg = word_of_int (lc_slot (fc_locals fc ! i)),
                vr_isMutable = lc_isMutable (fc_locals fc ! i)\<rparr>, c)
     | None \<Rightarrow> do {
         (found, chain, c) \<leftarrow> resolveUpvalue (c_current c) name c;
         let c = c\<lparr>c_current := chain\<rparr>;
         case found of
           Some u \<Rightarrow> do {
             fc \<leftarrow> current c;
             captured \<leftarrow> (if u < length (fc_upvalues fc) then Some (fc_upvalues fc ! u) else None);
             Some (\<lparr>vr_getOp = OP_GET_UPVALUE, vr_setOp = OP_SET_UPVALUE, vr_arg = word_of_nat u,
                    vr_isMutable = uv_isMutable captured\<rparr>, c)
           }
         | None \<Rightarrow> do {
             let name = (case c_implTarget c of
                           Some target \<Rightarrow> if tokenTextEquals name (ascii ''Self'') then target else name
                         | None \<Rightarrow> name);
             (arg, c) \<leftarrow> identifierConstant name c;
             immutable \<leftarrow> isMutuableBinding name c;
             Some (\<lparr>vr_getOp = OP_GET_GLOBAL, vr_setOp = OP_SET_GLOBAL, vr_arg = arg,
                    vr_isMutable = (\<not> immutable)\<rparr>, c)
           }
       }
   }"

definition parseVariableFromToken :: "Token \<Rightarrow> bool \<Rightarrow> Compiler \<Rightarrow> (u8 \<times> Compiler) option" where
  "parseVariableFromToken name isMutable c = do {
     c \<leftarrow> declareVariable name isMutable c;
     fc \<leftarrow> current c;
     if fc_scopeDepth fc > 0 then Some (0, c)
     else do {
       let c = set_line (tok_line name) c;
       c \<leftarrow> checkImmutableRedeclaration name c;
       (constant, c) \<leftarrow> identifierConstant name c;
       c \<leftarrow> (if \<not> isMutable then addImmutableBinding name c else Some c);
       Some (constant, c)
     }
   }"

text \<open>There is always the local of slot 0.\<close>

definition markInitialized :: "Compiler \<Rightarrow> Compiler option" where
  "markInitialized c = do {
     fc \<leftarrow> current c;
     if fc_scopeDepth fc = 0 then Some c
     else if fc_locals fc = [] then None
     else do {
       let i = length (fc_locals fc) - 1;
       Some (set_current (fc\<lparr>fc_locals :=
         (fc_locals fc)[i := (fc_locals fc ! i)\<lparr>lc_depth := fc_scopeDepth fc\<rparr>]\<rparr>) c)
     }
   }"

definition defineVariable :: "u8 \<Rightarrow> Compiler \<Rightarrow> Compiler option" where
  "defineVariable global c = do {
     fc \<leftarrow> current c;
     if fc_scopeDepth fc > 0 then markInitialized c
     else emitBytes (op_byte OP_DEFINE_GLOBAL) global c
   }"

section \<open>Scopes\<close>

definition beginScope :: "Compiler \<Rightarrow> Compiler option" where
  "beginScope c = do {
     fc \<leftarrow> current c;
     Some (set_current (fc\<lparr>fc_scopeDepth := fc_scopeDepth fc + 1\<rparr>) c)
   }"

text \<open>The loop goes from the last local down while they are deeper than the scope.\<close>

partial_function (option) captureOrCleanLocalsGoingOutOfScope :: "Compiler \<Rightarrow> Compiler option" where
  [code]: "captureOrCleanLocalsGoingOutOfScope c = do {
     fc \<leftarrow> current c;
     if fc_locals fc \<noteq> [] \<and> lc_depth (last (fc_locals fc)) > fc_scopeDepth fc then do {
       c \<leftarrow> emitByte (op_byte (if lc_isCaptured (last (fc_locals fc)) then OP_CLOSE_UPVALUE else OP_POP)) c;
       fc \<leftarrow> current c;
       captureOrCleanLocalsGoingOutOfScope (set_current (fc\<lparr>fc_locals := butlast (fc_locals fc)\<rparr>) c)
     } else Some c
   }"

definition endScope :: "Compiler \<Rightarrow> Compiler option" where
  "endScope c = do {
     fc \<leftarrow> current c;
     captureOrCleanLocalsGoingOutOfScope (set_current (fc\<lparr>fc_scopeDepth := fc_scopeDepth fc - 1\<rparr>) c)
   }"

fun pops_loop :: "Local list \<Rightarrow> int \<Rightarrow> nat \<Rightarrow> Compiler \<Rightarrow> Compiler option" where
  "pops_loop locals targetDepth 0 c = Some c"
| "pops_loop locals targetDepth (Suc i) c =
     (if lc_depth (locals ! i) > targetDepth then do {
        c \<leftarrow> emitByte (op_byte (if lc_isCaptured (locals ! i) then OP_CLOSE_UPVALUE else OP_POP)) c;
        pops_loop locals targetDepth i c
      } else Some c)"

definition emitPopsToDepth :: "int \<Rightarrow> Compiler \<Rightarrow> Compiler option" where
  "emitPopsToDepth targetDepth c = do {
     fc \<leftarrow> current c;
     pops_loop (fc_locals fc) targetDepth (length (fc_locals fc)) c
   }"

definition compileBlockExprClose :: "Compiler \<Rightarrow> Compiler option" where
  "compileBlockExprClose c = do {
     fc \<leftarrow> current c;
     let depth = fc_scopeDepth fc - 1;
     let leaving = takeWhile (\<lambda>l. lc_depth l > depth) (rev (fc_locals fc));
     let c = set_current (fc\<lparr>fc_scopeDepth := depth,
                             fc_locals := take (length (fc_locals fc) - length leaving) (fc_locals fc)\<rparr>) c;
     emitBytes (op_byte OP_CLOSE_BLOCK_EXPR) (word_of_nat (length leaving)) c
   }"

section \<open>Ends\<close>

definition emitImplicitReturn :: "Compiler \<Rightarrow> Compiler option" where
  "emitImplicitReturn c = do { c \<leftarrow> emitByte (op_byte OP_NIL) c; emitByte (op_byte OP_RETURN) c }"

definition emitValueReturn :: "Compiler \<Rightarrow> Compiler option" where
  "emitValueReturn c = emitByte (op_byte OP_RETURN) c"

text \<open>The finished compiler is returned too: the caller still reads its captured variables.\<close>

definition endCompiler :: "Compiler \<Rightarrow> (FnCompiler \<times> Compiler) option" where
  "endCompiler c = do {
     fc \<leftarrow> current c;
     let c = c\<lparr>c_currentLoop := fc_enclosingLoop fc\<rparr>;
     c \<leftarrow> countEmittedCode c;
     fc \<leftarrow> current c;
     c \<leftarrow> (if fc_lastOpIsReturn fc then Some c else emitImplicitReturn c);
     fc \<leftarrow> current c;
     fn \<leftarrow> currentFn c;
     c \<leftarrow> set_currentFn (fn\<lparr>cf_upvalueCount := int (length (fc_upvalues fc))\<rparr>) c;
     Some (fc, c\<lparr>c_current := tl (c_current c)\<rparr>)
   }"

definition beginLoop :: "int \<Rightarrow> nat \<Rightarrow> int \<Rightarrow> Compiler \<Rightarrow> Compiler" where
  "beginLoop scopeDepth continueTarget continueDepth c =
     c\<lparr>c_currentLoop := \<lparr>lp_scopeDepth = scopeDepth, lp_breakJumps = [],
        lp_continueTarget = continueTarget, lp_continueDepth = continueDepth\<rparr> # c_currentLoop c\<rparr>"

fun patch_all :: "nat list \<Rightarrow> Compiler \<Rightarrow> Compiler option" where
  "patch_all [] c = Some c"
| "patch_all (j # js) c = do { c \<leftarrow> patchJump j c; patch_all js c }"

definition endLoop :: "Compiler \<Rightarrow> Compiler option" where
  "endLoop c =
     (case c_currentLoop c of
        [] \<Rightarrow> None
      | loop # _ \<Rightarrow> do {
          c \<leftarrow> patch_all (lp_breakJumps loop) c;
          Some (c\<lparr>c_currentLoop := tl (c_currentLoop c)\<rparr>)
        })"

text \<open>The table of resolved targets, \<^verbatim>\<open>src/resolved_impl_targets.c\<close>.\<close>

definition resolvedImplTargetsReset :: "Compiler \<Rightarrow> Compiler" where
  "resolvedImplTargetsReset c = c\<lparr>c_targets := []\<rparr>"

definition resolvedImplTargetsRecord :: "nat \<Rightarrow> bytes \<Rightarrow> Compiler \<Rightarrow> Compiler" where
  "resolvedImplTargetsRecord node structName c = c\<lparr>c_targets := c_targets c @ [(node, structName)]\<rparr>"

definition resolvedImplTargetsLookup :: "nat \<Rightarrow> Compiler \<Rightarrow> Token option" where
  "resolvedImplTargetsLookup node c = map_option tokenFromCString (map_of (c_targets c) node)"

end
