(* ===== verification/Compiler.thy ===== *)
theory Compiler
  imports Compiler_State
begin

text \<open>
  The part of \<^verbatim>\<open>src/compiler.c\<close> that follows the syntax tree.  The functions are mutually recursive as
  in the source; a loop over the children of a node is a function on the list.
\<close>

section \<open>What does not recurse\<close>

definition emitOp :: "OpCode \<Rightarrow> Compiler \<Rightarrow> Compiler option" where
  "emitOp op c = emitByte (op_byte op) c"

definition emitGetNative :: "string \<Rightarrow> Compiler \<Rightarrow> Compiler option" where
  "emitGetNative name c = do {
     (k, c) \<leftarrow> stringConstant (ascii name) None c;
     emitBytes (op_byte OP_GET_GLOBAL) k c
   }"

definition emitNativeStrConcatStart :: "Compiler \<Rightarrow> Compiler option" where
  "emitNativeStrConcatStart c = emitGetNative ''@strConcat'' c"

text \<open>\<open>assert(count <= UINT8_MAX)\<close>.\<close>

definition emitNativeStrConcatEnd :: "nat \<Rightarrow> int \<Rightarrow> Compiler \<Rightarrow> Compiler option" where
  "emitNativeStrConcatEnd count line c =
     (if count > 255 then None
      else do {
        c \<leftarrow> emitBytes (op_byte OP_LIST) (word_of_nat count) (set_line line c);
        emitBytes (op_byte OP_CALL) 1 c
      })"

definition emitDisplayToString :: "Compiler \<Rightarrow> Compiler option" where
  "emitDisplayToString c = do {
     (k, c) \<leftarrow> identifierConstant (tokenFromCString (ascii ''toString'')) c;
     c \<leftarrow> emitBytes (op_byte OP_INVOKE) k c;
     emitByte 0 c
   }"

definition selfInScope :: "Compiler \<Rightarrow> bool" where
  "selfInScope c \<longleftrightarrow> (\<exists>fc\<in>set (c_current c). fc_type fc = TYPE_METHOD)"

definition emitVarRef :: "Token \<Rightarrow> Compiler \<Rightarrow> Compiler option" where
  "emitVarRef name c = do {
     (ref, c) \<leftarrow> resolveVariable name c;
     emitBytes (op_byte (vr_getOp ref)) (vr_arg ref) c
   }"

fun node_line :: "AstNode \<Rightarrow> int" where
  "node_line (NODE_LITERAL line _) = line"
| "node_line (NODE_UNARY line _ _) = line"
| "node_line (NODE_BINARY line _ _ _ _) = line"
| "node_line (NODE_GROUPING line _) = line"
| "node_line (NODE_VARIABLE line _) = line"
| "node_line (NODE_ASSIGN line _ _) = line"
| "node_line (NODE_AND line _ _) = line"
| "node_line (NODE_OR line _ _) = line"
| "node_line (NODE_NULLISH line _ _) = line"
| "node_line (NODE_CALL line _ _ _ _) = line"
| "node_line (NODE_GET line _ _) = line"
| "node_line (NODE_SET line _ _ _) = line"
| "node_line (NODE_SELF line _) = line"
| "node_line (NODE_INDEX_GET line _ _ _) = line"
| "node_line (NODE_INDEX_SET line _ _ _ _) = line"
| "node_line (NODE_EXPR_STMT line _) = line"
| "node_line (NODE_VAR_DECL line _) = line"
| "node_line (NODE_BLOCK line _) = line"
| "node_line (NODE_IF line _ _ _) = line"
| "node_line (NODE_WHILE line _ _) = line"
| "node_line (NODE_FOR line _ _ _ _) = line"
| "node_line (NODE_RETURN line _) = line"
| "node_line (NODE_FUNCTION line _) = line"
| "node_line (NODE_STRUCT line _ _ _ _) = line"
| "node_line (NODE_STRUCT_INIT line _ _ _) = line"
| "node_line (NODE_IMPL line _ _ _ _ _ _) = line"
| "node_line (NODE_TRAIT line _ _ _ _ _) = line"
| "node_line (NODE_ARRAY line _ _) = line"
| "node_line (NODE_BREAK line _) = line"
| "node_line (NODE_CONTINUE line _) = line"
| "node_line (NODE_TYPE_EXPR t) = type_line t"
| "node_line (NODE_TYPE_ALIAS line _ _ _) = line"
| "node_line (NODE_INTERP_STRING line _) = line"
| "node_line (NODE_CAST line _ _ _ _) = line"

fun skipGroupings :: "AstNode \<Rightarrow> AstNode" where
  "skipGroupings (NODE_GROUPING _ inner) = skipGroupings inner"
| "skipGroupings node = node"

text \<open>The two sides of \<open>+\<close> on strings, possibly in parentheses.\<close>

definition string_concat_sides :: "AstNode \<Rightarrow> (AstNode \<times> AstNode) option" where
  "string_concat_sides node =
     (case skipGroupings node of
        NODE_BINARY _ _ left right isStringConcat \<Rightarrow> if isStringConcat then Some (left, right) else None
      | _ \<Rightarrow> None)"

definition isStringConcatOperation :: "AstNode \<Rightarrow> bool" where
  "isStringConcatOperation node \<longleftrightarrow> string_concat_sides node \<noteq> None"

lemma size_skipGroupings: "size (skipGroupings node) \<le> size node"
  by (induction node rule: skipGroupings.induct) auto

lemma size_string_concat_sides:
  assumes "string_concat_sides node = Some (l, r)"
  shows "size l + size r < size node"
proof -
  obtain line op where "skipGroupings node = NODE_BINARY line op l r True"
    using assms by (auto simp: string_concat_sides_def split: AstNode.split_asm if_splits)
  then show ?thesis using size_skipGroupings [of node] by simp
qed

function countStringConcatOperands :: "AstNode \<Rightarrow> nat" where
  "countStringConcatOperands node =
     (case string_concat_sides node of
        None \<Rightarrow> 1
      | Some (left, right) \<Rightarrow> countStringConcatOperands left + countStringConcatOperands right)"
  by auto
termination by (relation "measure size") (auto dest: size_string_concat_sides)

function collectStringConcatOperands :: "AstNode \<Rightarrow> AstNode list" where
  "collectStringConcatOperands node =
     (case string_concat_sides node of
        None \<Rightarrow> [node]
      | Some (left, right) \<Rightarrow> collectStringConcatOperands left @ collectStringConcatOperands right)"
  by auto
termination by (relation "measure size") (auto dest: size_string_concat_sides)

declare countStringConcatOperands.simps [simp del] collectStringConcatOperands.simps [simp del]

lemma length_collect: "length (collectStringConcatOperands node) = countStringConcatOperands node"
proof (induction node rule: collectStringConcatOperands.induct)
  case (1 node)
  then show ?case
    by (subst collectStringConcatOperands.simps, subst countStringConcatOperands.simps)
      (auto split: option.split)
qed

lemma size_collect:
  "sum_list (map size (collectStringConcatOperands node)) + length (collectStringConcatOperands node)
     \<le> size node + 1"
proof (induction node rule: collectStringConcatOperands.induct)
  case (1 node)
  show ?case
  proof (cases "string_concat_sides node")
    case (Some p)
    then obtain l r where p: "string_concat_sides node = Some (l, r)" by (cases p) auto
    show ?thesis using 1 [OF p refl] size_string_concat_sides [OF p]
      by (subst (1 2) collectStringConcatOperands.simps) (simp add: p)
  qed (subst (1 2) collectStringConcatOperands.simps, simp)
qed

definition compileBreak :: "int \<Rightarrow> Compiler \<Rightarrow> Compiler option" where
  "compileBreak line c =
     (case c_currentLoop c of
        [] \<Rightarrow> Some (compilerErrorAtNode line (''Can'' @ [CHR 0x27] @ ''t use '' @ [CHR 0x27] @ ''break'' @ [CHR 0x27] @ '' outside of a loop.'') c)
      | loop # loops \<Rightarrow>
          if length (lp_breakJumps loop) = UINT8_COUNT
          then Some (compilerErrorAtNode line ''Too many breaks in one loop.'' c)
          else do {
            c \<leftarrow> emitPopsToDepth (lp_scopeDepth loop) c;
            (jump, c) \<leftarrow> emitJump OP_JUMP c;
            Some (c\<lparr>c_currentLoop := loop\<lparr>lp_breakJumps := lp_breakJumps loop @ [jump]\<rparr> # loops\<rparr>)
          })"

definition compileContinue :: "int \<Rightarrow> Compiler \<Rightarrow> Compiler option" where
  "compileContinue line c =
     (case c_currentLoop c of
        [] \<Rightarrow> Some (compilerErrorAtNode line (''Can'' @ [CHR 0x27] @ ''t use '' @ [CHR 0x27] @ ''continue'' @ [CHR 0x27] @ '' outside of a loop.'') c)
      | loop # _ \<Rightarrow> do {
          c \<leftarrow> emitPopsToDepth (lp_continueDepth loop) c;
          emitLoop (lp_continueTarget loop) c
        })"

text \<open>The instructions of an operator; other tokens do not occur.\<close>

definition emitUnary :: "TokenType \<Rightarrow> Compiler \<Rightarrow> Compiler option" where
  "emitUnary op c =
     (if op = TOKEN_BANG then emitOp OP_NOT c
      else if op = TOKEN_MINUS then emitOp OP_NEGATE c else Some c)"

definition emitBinary :: "TokenType \<Rightarrow> Compiler \<Rightarrow> Compiler option" where
  "emitBinary op c =
     (if op = TOKEN_BANG_EQUAL then emitBytes (op_byte OP_EQUAL) (op_byte OP_NOT) c
      else if op = TOKEN_GREATER then emitOp OP_GREATER c
      else if op = TOKEN_GREATER_EQUAL then emitBytes (op_byte OP_LESS) (op_byte OP_NOT) c
      else if op = TOKEN_LESS then emitOp OP_LESS c
      else if op = TOKEN_LESS_EQUAL then emitBytes (op_byte OP_GREATER) (op_byte OP_NOT) c
      else if op = TOKEN_EQUAL_EQUAL then emitOp OP_EQUAL c
      else if op = TOKEN_PLUS then emitOp OP_ADD c
      else if op = TOKEN_MINUS then emitOp OP_SUBTRACT c
      else if op = TOKEN_STAR then emitOp OP_MULTIPLY c
      else if op = TOKEN_SLASH then emitOp OP_DIVIDE c
      else if op = TOKEN_MODULO then emitOp OP_MODULO c
      else Some c)"

definition compileLiteral :: "LiteralNode \<Rightarrow> Compiler \<Rightarrow> Compiler option" where
  "compileLiteral literal c =
     (case literal of
        LITERAL_NIL \<Rightarrow> emitOp OP_NIL c
      | LITERAL_UNIT \<Rightarrow> emitOp OP_NIL c
      | LITERAL_BOOL b \<Rightarrow> emitOp (if b then OP_TRUE else OP_FALSE) c
      | LITERAL_NUMBER kind payload _ _ _ \<Rightarrow> emitNumberConstant kind payload c
      | LITERAL_STRING chars \<Rightarrow> emitStringConstant chars c)"

definition compileSelf :: "Token \<Rightarrow> Compiler \<Rightarrow> Compiler option" where
  "compileSelf keyword c =
     (if \<not> selfInScope c then do {
        fc \<leftarrow> current c;
        emitOp OP_NIL (compilerErrorAtToken keyword
          (if fc_type fc = TYPE_STATIC_METHOD
           then ''Can'' @ [CHR 0x27] @ ''t use '' @ [CHR 0x27] @ ''self'' @ [CHR 0x27] @ '' in a static method. Add '' @ [CHR 0x27] @ ''self'' @ [CHR 0x27] @ '' as the first parameter to make it an instance method.''
           else ''Can'' @ [CHR 0x27] @ ''t use '' @ [CHR 0x27] @ ''self'' @ [CHR 0x27] @ '' outside of an instance method.'') c)
      } else emitVarRef keyword c)"

definition code_count :: "Compiler \<Rightarrow> nat option" where
  "code_count c = do { fn \<leftarrow> currentFn c; Some (length (cf_code fn)) }"

text \<open>The parameters are already on the stack when the call starts.\<close>

fun declareParams :: "Token list \<Rightarrow> Compiler \<Rightarrow> Compiler option" where
  "declareParams [] c = Some c"
| "declareParams (param # params) c = do {
     c \<leftarrow> declareVariable param True c;
     c \<leftarrow> markInitialized c;
     (height, c) \<leftarrow> currentStackHeight c;
     c \<leftarrow> resetStackHeight (height + 1) c;
     declareParams params c
   }"

definition beginFunction :: "FunctionNode \<Rightarrow> FunctionType \<Rightarrow> Compiler \<Rightarrow> Compiler option" where
  "beginFunction fn type c = do {
     c \<leftarrow> initCompiler type (if fn_isLambda fn then None else Some (tok_text (fn_name fn))) c;
     cfn \<leftarrow> currentFn c;
     c \<leftarrow> set_currentFn (cfn\<lparr>cf_isPublic := fn_isPublic fn\<rparr>) c;
     c \<leftarrow> beginScope c;
     cfn \<leftarrow> currentFn c;
     c \<leftarrow> set_currentFn (cfn\<lparr>cf_arity := int (length (fn_params fn))\<rparr>) c;
     let c = (if length (fn_params fn) > 255
              then compilerErrorAtToken (fn_name fn) (''Can'' @ [CHR 0x27] @ ''t have more than 255 parameters.'') c else c);
     declareParams (fn_params fn) c
   }"

fun emitCaptures :: "Upvalue list \<Rightarrow> Compiler \<Rightarrow> Compiler option" where
  "emitCaptures [] c = Some c"
| "emitCaptures (u # us) c = do {
     c \<leftarrow> emitByte (if uv_isLocal u then 1 else 0) c;
     c \<leftarrow> emitByte (uv_index u) c;
     emitCaptures us c
   }"

definition endFunction :: "FunctionNode \<Rightarrow> Compiler \<Rightarrow> Compiler option" where
  "endFunction fn c = do {
     (compiler, c) \<leftarrow> endCompiler (set_line (fn_bodyEndLine fn) c);
     compiled \<leftarrow> cuGetFnByIndex (c_unit c) (fc_fnIndex compiler);
     (k, c) \<leftarrow> makeConstant (CONST_FUNCTION (int (fc_fnIndex compiler))) None c;
     c \<leftarrow> emitBytes (op_byte OP_CLOSURE) k c;
     emitCaptures (take (nat (cf_upvalueCount compiled)) (fc_upvalues compiler)) c
   }"

definition declareStruct :: "Token \<Rightarrow> Compiler \<Rightarrow> Compiler option" where
  "declareStruct name c = do {
     (nameConstant, c) \<leftarrow> identifierConstant name c;
     fc \<leftarrow> current c;
     c \<leftarrow> (if fc_scopeDepth fc = 0 then do {
             c \<leftarrow> checkImmutableRedeclaration name c;
             addImmutableBinding name c
           } else Some c);
     c \<leftarrow> declareVariable name False c;
     c \<leftarrow> emitBytes (op_byte OP_STRUCT) nameConstant c;
     c \<leftarrow> defineVariable nameConstant c;
     emitVarRef name c
   }"

definition bool_byte :: "bool \<Rightarrow> u8" where
  "bool_byte b = (if b then 1 else 0)"

definition kind_byte :: "NumberKind \<Rightarrow> u8" where
  "kind_byte kind = word_of_nat (kind_ordinal kind)"

definition conversion_native :: "StringConversion \<Rightarrow> string" where
  "conversion_native conversion =
     (if conversion = STRING_CONVERSION_NUMBER then ''@numberToString'' else ''@boolToString'')"

text \<open>A call whose callee is a \<open>NODE_GET\<close> is a method call.\<close>

definition method_call :: "AstNode \<Rightarrow> (AstNode \<times> Token) option" where
  "method_call callee = (case callee of NODE_GET _ object name \<Rightarrow> Some (object, name) | _ \<Rightarrow> None)"

text \<open>The branches of an \<open>if\<close> expression that have no value of their own.\<close>

fun branch_is_statement :: "AstNode \<Rightarrow> bool" where
  "branch_is_statement (NODE_RETURN _ _) = True"
| "branch_is_statement (NODE_BREAK _ _) = True"
| "branch_is_statement (NODE_CONTINUE _ _) = True"
| "branch_is_statement (NODE_WHILE _ _ _) = True"
| "branch_is_statement (NODE_FOR _ _ _ _ _) = True"
| "branch_is_statement _ = False"

text \<open>The kinds that \<open>compileStmt\<close> has a case for; any other is an expression whose value is dropped.\<close>

fun is_statement :: "AstNode \<Rightarrow> bool" where
  "is_statement (NODE_EXPR_STMT _ _) = True"
| "is_statement (NODE_VAR_DECL _ _) = True"
| "is_statement (NODE_BLOCK _ _) = True"
| "is_statement (NODE_IF _ _ _ _) = True"
| "is_statement (NODE_WHILE _ _ _) = True"
| "is_statement (NODE_FOR _ _ _ _ _) = True"
| "is_statement (NODE_RETURN _ _) = True"
| "is_statement (NODE_BREAK _ _) = True"
| "is_statement (NODE_CONTINUE _ _) = True"
| "is_statement (NODE_FUNCTION _ _) = True"
| "is_statement (NODE_STRUCT _ _ _ _ _) = True"
| "is_statement (NODE_IMPL _ _ _ _ _ _ _) = True"
| "is_statement (NODE_TYPE_ALIAS _ _ _ _) = True"
| "is_statement (NODE_TRAIT _ _ _ _ _ _) = True"
| "is_statement _ = False"

lemma size_method_call: "method_call callee = Some (object, name) \<Longrightarrow> size object < size callee"
  by (cases callee) (auto simp: method_call_def)

lemma size_body:
  "5 + (5 * sum_list (map size (bl_stmts (fn_body f))) + 5 * length (bl_stmts (fn_body f)) +
     5 * size_option size (bl_value (fn_body f))) < 5 * size f"
  using size_function(1) [of f] unfolding size_block size_list_sum by simp

lemma size_chain:
  assumes "isStringConcat" "3 \<le> countStringConcatOperands (NODE_BINARY line op l r isStringConcat)"
  shows "5 * sum_list (map size (collectStringConcatOperands (NODE_BINARY line op l r isStringConcat))) +
      length (collectStringConcatOperands (NODE_BINARY line op l r isStringConcat)) <
    5 * size (NODE_BINARY line op l r isStringConcat)"
  using size_collect [of "NODE_BINARY line op l r isStringConcat"] assms(2)
  by (simp add: length_collect)

section \<open>The syntax tree\<close>

function compileExpr :: "AstNode \<Rightarrow> Compiler \<Rightarrow> Compiler option"
  and compileOpt :: "AstNode option \<Rightarrow> Compiler \<Rightarrow> Compiler option"
  and compileExprs :: "AstNode list \<Rightarrow> Compiler \<Rightarrow> Compiler option"
  and compileArgs :: "bool \<Rightarrow> AstNode list \<Rightarrow> Compiler \<Rightarrow> Compiler option"
  and compileInitFields :: "(Token \<times> AstNode) list \<Rightarrow> Compiler \<Rightarrow> Compiler option"
  and compileToString :: "AstNode \<times> StringConversion \<Rightarrow> Compiler \<Rightarrow> Compiler option"
  and compileParts :: "(AstNode \<times> StringConversion) list \<Rightarrow> Compiler \<Rightarrow> Compiler option"
  and compileBranchValue :: "AstNode \<Rightarrow> Compiler \<Rightarrow> Compiler option"
  and compileVarDecl :: "VarDeclNode \<Rightarrow> Compiler \<Rightarrow> Compiler option"
  and compileFunction :: "FunctionNode \<Rightarrow> FunctionType \<Rightarrow> Compiler \<Rightarrow> Compiler option"
  and compileFieldDecls :: "VarDeclNode list \<Rightarrow> Compiler \<Rightarrow> Compiler option"
  and compileMethods :: "FunctionNode list \<Rightarrow> Compiler \<Rightarrow> Compiler option"
  and compileStmts :: "AstNode list \<Rightarrow> Compiler \<Rightarrow> Compiler option"
  and compileBlockContents :: "BlockNode \<Rightarrow> bool \<Rightarrow> Compiler \<Rightarrow> Compiler option"
  and compileStmtKind :: "AstNode \<Rightarrow> Compiler \<Rightarrow> Compiler option"
  and compileStmt :: "AstNode \<Rightarrow> Compiler \<Rightarrow> Compiler option"
where
  "compileExpr node c0 =
     (let c = set_line (node_line node) c0 in
      case node of
        NODE_LITERAL _ literal \<Rightarrow> compileLiteral literal c
      | NODE_UNARY _ op operand \<Rightarrow> do { c \<leftarrow> compileExpr operand c; emitUnary (tok_type op) c }
      | NODE_BINARY line op left right isStringConcat \<Rightarrow>
          let operands = collectStringConcatOperands node;
              count = countStringConcatOperands node
          in if isStringConcat \<and> 3 \<le> count \<and> count \<le> 255 then do {
               c \<leftarrow> emitNativeStrConcatStart (set_line (node_line (operands ! 0)) c);
               c \<leftarrow> compileExprs operands c;
               emitNativeStrConcatEnd count line c
             } else do {
               c \<leftarrow> compileExpr left c;
               c \<leftarrow> compileExpr right c;
               emitBinary (tok_type op) c
             }
      | NODE_GROUPING _ inner \<Rightarrow> compileExpr inner c
      | NODE_CAST _ expr _ _ target \<Rightarrow> do {
          c \<leftarrow> compileExpr expr c;
          c \<leftarrow> emitOp OP_CAST c;
          emitByte (kind_byte target) c
        }
      | NODE_VARIABLE _ name \<Rightarrow> emitVarRef name c
      | NODE_ASSIGN _ name val \<Rightarrow> do {
          let c = (if tok_text name \<noteq> [] \<and> hd (tok_text name) = ch CHR ''@''
                   then compilerErrorAtToken name ([CHR 0x27] @ ''@'' @ [CHR 0x27] @ '' is a reserved character'') c else c);
          (ref, c) \<leftarrow> resolveVariable name c;
          let c = (if \<not> vr_isMutable ref
                   then compilerErrorAtToken name ''Cannot assign to immutable binding'' c else c);
          c \<leftarrow> compileExpr val c;
          emitBytes (op_byte (vr_setOp ref)) (vr_arg ref) c
        }
      | NODE_AND _ left right \<Rightarrow> do {
          c \<leftarrow> compileExpr left c;
          (endJump, c) \<leftarrow> emitJump OP_JUMP_IF_FALSE c;
          c \<leftarrow> emitOp OP_POP c;
          c \<leftarrow> compileExpr right c;
          patchJump endJump c
        }
      | NODE_OR _ left right \<Rightarrow> do {
          c \<leftarrow> compileExpr left c;
          (elseJump, c) \<leftarrow> emitJump OP_JUMP_IF_FALSE c;
          (endJump, c) \<leftarrow> emitJump OP_JUMP c;
          c \<leftarrow> patchJump elseJump c;
          c \<leftarrow> emitOp OP_POP c;
          c \<leftarrow> compileExpr right c;
          patchJump endJump c
        }
      | NODE_NULLISH _ left right \<Rightarrow> do {
          c \<leftarrow> compileExpr left c;
          (endJump, c) \<leftarrow> emitJump OP_JUMP_IF_NOT_NIL c;
          c \<leftarrow> emitOp OP_POP c;
          c \<leftarrow> compileExpr right c;
          patchJump endJump c
        }
      | NODE_CALL _ callee _ args argUsesDisplay \<Rightarrow>
          (case method_call callee of
             Some (object, name) \<Rightarrow> do {
               c \<leftarrow> compileExpr object c;
               (k, c) \<leftarrow> identifierConstant name c;
               c \<leftarrow> compileExprs args c;
               c \<leftarrow> emitBytes (op_byte OP_INVOKE) k c;
               emitByte (word_of_nat (length args)) c
             }
           | None \<Rightarrow> do {
               c \<leftarrow> compileExpr callee c;
               c \<leftarrow> compileArgs argUsesDisplay args c;
               emitBytes (op_byte OP_CALL) (word_of_nat (length args)) c
             })
      | NODE_STRUCT_INIT _ name inits endLine \<Rightarrow> do {
          c \<leftarrow> emitVarRef name c;
          c \<leftarrow> compileInitFields inits c;
          emitBytes (op_byte OP_STRUCT_INIT) (word_of_nat (length inits)) (set_line endLine c)
        }
      | NODE_GET _ object name \<Rightarrow> do {
          c \<leftarrow> compileExpr object c;
          (k, c) \<leftarrow> identifierConstant name c;
          emitBytes (op_byte OP_GET_PROPERTY) k c
        }
      | NODE_SET _ object name val \<Rightarrow> do {
          c \<leftarrow> compileExpr object c;
          (k, c) \<leftarrow> identifierConstant name c;
          c \<leftarrow> compileExpr val c;
          emitBytes (op_byte OP_SET_PROPERTY) k c
        }
      | NODE_SELF _ keyword \<Rightarrow> compileSelf keyword c
      | NODE_INDEX_GET _ object index _ \<Rightarrow> do {
          c \<leftarrow> compileExpr object c;
          c \<leftarrow> compileExpr index c;
          emitOp OP_GET_INDEX c
        }
      | NODE_INDEX_SET _ object index val _ \<Rightarrow> do {
          c \<leftarrow> compileExpr object c;
          c \<leftarrow> compileExpr index c;
          c \<leftarrow> compileExpr val c;
          emitOp OP_SET_INDEX c
        }
      | NODE_ARRAY line items isFixedSize \<Rightarrow> do {
          let c = (if length items > 255
                   then compilerErrorAtNode line ''Too many elements in array literal.'' c else c);
          c \<leftarrow> compileExprs items c;
          emitBytes (op_byte (if isFixedSize then OP_ARRAY else OP_LIST)) (word_of_nat (length items)) c
        }
      | NODE_INTERP_STRING line parts \<Rightarrow>
          if length parts > 255
          then Some (compilerErrorAtNode line ''Too many parts in interpolated string.'' c)
          else (case parts of
                  [part] \<Rightarrow> compileToString part c
                | _ \<Rightarrow> do {
                    c \<leftarrow> emitNativeStrConcatStart c;
                    c \<leftarrow> compileParts parts c;
                    emitNativeStrConcatEnd (length parts) line c
                  })
      | NODE_FUNCTION _ fn \<Rightarrow> compileFunction fn TYPE_FUNCTION c
      | NODE_IF _ condition thenBranch elseBranch \<Rightarrow> do {
          c \<leftarrow> compileExpr condition c;
          (thenJump, c) \<leftarrow> emitJump OP_JUMP_IF_FALSE c;
          c \<leftarrow> emitOp OP_POP c;
          c \<leftarrow> compileBranchValue thenBranch c;
          (elseJump, c) \<leftarrow> emitJump OP_JUMP c;
          c \<leftarrow> patchJump thenJump c;
          c \<leftarrow> emitOp OP_POP c;
          c \<leftarrow> (case elseBranch of Some e \<Rightarrow> compileBranchValue e c | None \<Rightarrow> emitOp OP_NIL c);
          patchJump elseJump c
        }
      | NODE_BLOCK _ blk \<Rightarrow> do {
          c \<leftarrow> beginScope c;
          c \<leftarrow> compileStmts (bl_stmts blk) c;
          c \<leftarrow> (case bl_value blk of
                 Some val \<Rightarrow> compileExpr val c
               | None \<Rightarrow> emitOp OP_NIL (set_line (bl_endLine blk) c));
          compileBlockExprClose (set_line (bl_endLine blk) c)
        }
      | _ \<Rightarrow> Some (compilerErrorAtNode (node_line node) ''Internal error: not a valid expression node.'' c))"
| "compileOpt node c = (case node of None \<Rightarrow> Some c | Some n \<Rightarrow> compileExpr n c)"
| "compileExprs nodes c =
     (case nodes of
        [] \<Rightarrow> Some c
      | n # ns \<Rightarrow> do { c \<leftarrow> compileExpr n c; compileExprs ns c })"
| "compileArgs argUsesDisplay args c =
     (case args of
        [] \<Rightarrow> Some c
      | n # ns \<Rightarrow> do {
          c \<leftarrow> compileExpr n c;
          c \<leftarrow> (if argUsesDisplay then emitDisplayToString c else Some c);
          compileArgs False ns c
        })"
| "compileInitFields inits c =
     (case inits of
        [] \<Rightarrow> Some c
      | (name, val) # more_fields \<Rightarrow> do {
          (k, c) \<leftarrow> identifierConstant name (set_line (tok_line name) c);
          c \<leftarrow> emitBytes (op_byte OP_CONSTANT) k c;
          c \<leftarrow> compileExpr val c;
          compileInitFields more_fields c
        })"
| "compileToString part c =
     (case part of
        (expr, conversion) \<Rightarrow>
          (case conversion of
             STRING_CONVERSION_UNDEFINED \<Rightarrow>
               Some (compilerErrorAtNode (node_line expr)
                 ''Internal error: no string conversion was chosen for this placeholder.'' c)
           | STRING_CONVERSION_STRING \<Rightarrow> compileExpr expr c
           | STRING_CONVERSION_DISPLAY \<Rightarrow> do { c \<leftarrow> compileExpr expr c; emitDisplayToString c }
           | _ \<Rightarrow> do {
               c \<leftarrow> emitGetNative (conversion_native conversion) c;
               c \<leftarrow> compileExpr expr c;
               emitBytes (op_byte OP_CALL) 1 c
             }))"
| "compileParts parts c =
     (case parts of
        [] \<Rightarrow> Some c
      | part # more_parts \<Rightarrow> do { c \<leftarrow> compileToString part c; compileParts more_parts c })"
| "compileBranchValue branch c =
     (if branch_is_statement branch then do { c \<leftarrow> compileStmt branch c; emitOp OP_NIL c }
      else compileExpr branch c)"
| "compileVarDecl vd c = do {
     (global, c) \<leftarrow> parseVariableFromToken (vd_name vd) (vd_isMutable vd) c;
     c \<leftarrow> (case vd_initializer vd of
            Some initializer \<Rightarrow> compileExpr initializer c
          | None \<Rightarrow> emitOp OP_NIL (set_line (tok_line (vd_name vd)) c));
     defineVariable global (set_line (vd_declEndLine vd) c)
   }"
| "compileFunction fn type c = do {
     c \<leftarrow> beginFunction fn type c;
     c \<leftarrow> (case fn_exprBody fn of
            Some body \<Rightarrow> do { c \<leftarrow> compileExpr body c; emitValueReturn c }
          | None \<Rightarrow> compileBlockContents (fn_body fn) True c);
     endFunction fn c
   }"
| "compileFieldDecls decls c =
     (case decls of
        [] \<Rightarrow> Some c
      | field # more_fields \<Rightarrow> do {
          (k, c) \<leftarrow> identifierConstant (vd_name field) (set_line (tok_line (vd_name field)) c);
          c \<leftarrow> (case vd_initializer field of
                 Some initializer \<Rightarrow> compileExpr initializer c
               | None \<Rightarrow> emitOp OP_NIL c);
          c \<leftarrow> emitBytes (op_byte OP_FIELD) k (set_line (vd_declEndLine field) c);
          c \<leftarrow> emitByte (bool_byte (vd_isPublic field)) c;
          c \<leftarrow> emitByte (bool_byte (vd_isMutable field)) c;
          compileFieldDecls more_fields c
        })"
| "compileMethods methods c =
     (case methods of
        [] \<Rightarrow> Some c
      | fn # more_methods \<Rightarrow> do {
          (k, c) \<leftarrow> identifierConstant (fn_name fn) c;
          c \<leftarrow> compileFunction fn (if fn_hasSelf fn then TYPE_METHOD else TYPE_STATIC_METHOD) c;
          c \<leftarrow> emitBytes (op_byte OP_METHOD) k c;
          compileMethods more_methods c
        })"
| "compileStmts stmts c =
     (case stmts of
        [] \<Rightarrow> Some c
      | s # more_stmts \<Rightarrow> do { c \<leftarrow> compileStmt s c; compileStmts more_stmts c })"
| "compileBlockContents blk returnsValue c = do {
     c \<leftarrow> compileStmts (bl_stmts blk) c;
     case bl_value blk of
       Some val \<Rightarrow> do {
         c \<leftarrow> compileExpr val c;
         if returnsValue then emitValueReturn c else emitOp OP_POP c
       }
     | None \<Rightarrow> Some c
   }"
| "compileStmtKind node c =
     (if \<not> is_statement node then do { c \<leftarrow> compileExpr node c; emitOp OP_POP c }
      else case node of
        NODE_EXPR_STMT _ expr \<Rightarrow> do { c \<leftarrow> compileExpr expr c; emitOp OP_POP c }
      | NODE_VAR_DECL _ vd \<Rightarrow> compileVarDecl vd c
      | NODE_BLOCK _ blk \<Rightarrow> do {
          c \<leftarrow> beginScope c;
          c \<leftarrow> compileBlockContents blk False c;
          endScope (set_line (bl_endLine blk) c)
        }
      | NODE_IF _ condition thenBranch elseBranch \<Rightarrow> do {
          c \<leftarrow> compileExpr condition c;
          (thenJump, c) \<leftarrow> emitJump OP_JUMP_IF_FALSE c;
          c \<leftarrow> emitOp OP_POP c;
          c \<leftarrow> compileStmt thenBranch c;
          (elseJump, c) \<leftarrow> emitJump OP_JUMP c;
          c \<leftarrow> patchJump thenJump c;
          c \<leftarrow> emitOp OP_POP c;
          c \<leftarrow> (case elseBranch of Some e \<Rightarrow> compileStmt e c | None \<Rightarrow> Some c);
          patchJump elseJump c
        }
      | NODE_WHILE _ condition body \<Rightarrow> do {
          loopStart \<leftarrow> code_count c;
          c \<leftarrow> compileExpr condition c;
          (exitJump, c) \<leftarrow> emitJump OP_JUMP_IF_FALSE c;
          c \<leftarrow> emitOp OP_POP c;
          fc \<leftarrow> current c;
          c \<leftarrow> compileStmt body (beginLoop (fc_scopeDepth fc) loopStart (fc_scopeDepth fc) c);
          c \<leftarrow> emitLoop loopStart c;
          c \<leftarrow> patchJump exitJump c;
          c \<leftarrow> emitOp OP_POP c;
          endLoop c
        }
      | NODE_FOR _ init condition body increment \<Rightarrow> do {
          fc \<leftarrow> current c;
          let outerDepth = fc_scopeDepth fc;
          c \<leftarrow> (case init of
                 Some i \<Rightarrow> do { c \<leftarrow> beginScope c; compileStmt i c }
               | None \<Rightarrow> Some c);
          loopStart \<leftarrow> code_count c;
          c \<leftarrow> compileOpt condition c;
          (exitJump, c) \<leftarrow> emitJump OP_JUMP_IF_FALSE c;
          c \<leftarrow> emitOp OP_POP c;
          (loopStart, c) \<leftarrow> (case increment of
              Some i \<Rightarrow> do {
                (bodyJump, c) \<leftarrow> emitJump OP_JUMP c;
                incrementStart \<leftarrow> code_count c;
                c \<leftarrow> compileExpr i c;
                c \<leftarrow> emitOp OP_POP c;
                c \<leftarrow> emitLoop loopStart c;
                c \<leftarrow> patchJump bodyJump c;
                Some (incrementStart, c)
              }
            | None \<Rightarrow> Some (loopStart, c));
          fc \<leftarrow> current c;
          c \<leftarrow> compileStmt body (beginLoop outerDepth loopStart (fc_scopeDepth fc) c);
          c \<leftarrow> emitLoop loopStart c;
          c \<leftarrow> patchJump exitJump c;
          c \<leftarrow> emitOp OP_POP c;
          c \<leftarrow> (if init \<noteq> None then endScope c else Some c);
          endLoop c
        }
      | NODE_RETURN line val \<Rightarrow> do {
          (height, c) \<leftarrow> currentStackHeight c;
          fc \<leftarrow> current c;
          let c = (if fc_type fc = TYPE_SCRIPT
                   then compilerErrorAtNode line (''Can'' @ [CHR 0x27] @ ''t return from top-level code.'') c else c);
          c \<leftarrow> (case val of None \<Rightarrow> emitOp OP_NIL c | Some v \<Rightarrow> compileExpr v c);
          c \<leftarrow> emitValueReturn c;
          resetStackHeight height c
        }
      | NODE_BREAK line _ \<Rightarrow> do {
          (height, c) \<leftarrow> currentStackHeight c;
          c \<leftarrow> compileBreak line c;
          resetStackHeight height c
        }
      | NODE_CONTINUE line _ \<Rightarrow> do {
          (height, c) \<leftarrow> currentStackHeight c;
          c \<leftarrow> compileContinue line c;
          resetStackHeight height c
        }
      | NODE_FUNCTION _ fn \<Rightarrow> do {
          (global, c) \<leftarrow> parseVariableFromToken (fn_name fn) False c;
          c \<leftarrow> markInitialized c;
          c \<leftarrow> compileFunction fn TYPE_FUNCTION c;
          defineVariable global c
        }
      | NODE_STRUCT _ name _ decls endLine \<Rightarrow> do {
          c \<leftarrow> declareStruct name c;
          c \<leftarrow> compileFieldDecls decls c;
          emitOp OP_POP (set_line endLine c)
        }
      | NODE_IMPL _ address targetName _ _ methods endLine \<Rightarrow> do {
          let c = set_line (tok_line targetName) c;
          let structName = (case resolvedImplTargetsLookup address c of
                              Some resolved \<Rightarrow> resolved | None \<Rightarrow> targetName);
          c \<leftarrow> emitVarRef structName c;
          let previous = c_implTarget c;
          c \<leftarrow> compileMethods methods (c\<lparr>c_implTarget := Some structName\<rparr>);
          emitOp OP_POP (set_line endLine (c\<lparr>c_implTarget := previous\<rparr>))
        }
      | NODE_TYPE_ALIAS _ _ _ _ \<Rightarrow> Some c
      | NODE_TRAIT _ _ _ _ _ _ \<Rightarrow> Some c
      | _ \<Rightarrow> None)"
| "compileStmt node c = do {
     (heightBefore, c) \<leftarrow> currentStackHeight c;
     fc \<leftarrow> current c;
     let localsBefore = int (length (fc_locals fc));
     c \<leftarrow> compileStmtKind node (set_line (node_line node) c);
     c \<leftarrow> countEmittedCode c;
     fc \<leftarrow> current c;
     Some (checkStackHeight
       (\<not> fc_isReachable fc \<or>
        fc_stackHeight fc - heightBefore = int (length (fc_locals fc)) - localsBefore)
       (node_line node) c)
   }"
  by pat_completeness auto
termination
  apply (relation "measure (\<lambda>x. case x of
      Inl (Inl (Inl (Inl (n, _)))) \<Rightarrow> 5 * size n
    | Inl (Inl (Inl (Inr (n, _)))) \<Rightarrow> 5 * size_option size n
    | Inl (Inl (Inr (Inl (ns, _)))) \<Rightarrow> 5 * sum_list (map size ns) + length ns
    | Inl (Inl (Inr (Inr (_, ns, _)))) \<Rightarrow> 5 * size_list size ns
    | Inl (Inr (Inl (Inl (inits, _)))) \<Rightarrow> 5 * size_list (size_prod (\<lambda>_. 0) size) inits
    | Inl (Inr (Inl (Inr ((n, _), _)))) \<Rightarrow> 5 * size n + 1
    | Inl (Inr (Inr (Inl (parts, _)))) \<Rightarrow> 5 * size_list (size_prod size (\<lambda>_. 0)) parts
    | Inl (Inr (Inr (Inr (n, _)))) \<Rightarrow> 5 * size n + 3
    | Inr (Inl (Inl (Inl (d, _)))) \<Rightarrow> 5 * size d
    | Inr (Inl (Inl (Inr (f, _, _)))) \<Rightarrow> 5 * size f
    | Inr (Inl (Inr (Inl (ds, _)))) \<Rightarrow> 5 * size_list size ds
    | Inr (Inl (Inr (Inr (fs, _)))) \<Rightarrow> 5 * size_list size fs
    | Inr (Inr (Inl (Inl (ss, _)))) \<Rightarrow> 5 * size_list size ss
    | Inr (Inr (Inl (Inr (b, _, _)))) \<Rightarrow> 5 * size b
    | Inr (Inr (Inr (Inl (n, _)))) \<Rightarrow> 5 * size n + 1
    | Inr (Inr (Inr (Inr (n, _)))) \<Rightarrow> 5 * size n + 2)")
  using size_chain [of True]
  by (auto simp: size_block size_list_sum size_body split: prod.splits
      dest: size_method_call size_var_decl size_function(2))

declare compileExpr.simps [simp del] compileOpt.simps [simp del] compileExprs.simps [simp del]
  compileArgs.simps [simp del] compileInitFields.simps [simp del] compileToString.simps [simp del]
  compileParts.simps [simp del] compileBranchValue.simps [simp del] compileVarDecl.simps [simp del]
  compileFunction.simps [simp del] compileFieldDecls.simps [simp del] compileMethods.simps [simp del]
  compileStmts.simps [simp del] compileBlockContents.simps [simp del] compileStmtKind.simps [simp del]
  compileStmt.simps [simp del]

section \<open>A program\<close>

fun compile_where :: "(AstNode \<Rightarrow> bool) \<Rightarrow> AstNode list \<Rightarrow> Compiler \<Rightarrow> Compiler option" where
  "compile_where P [] c = Some c"
| "compile_where P (node # ast) c = do {
     c \<leftarrow> (if P node then compileStmt node c else Some c);
     compile_where P ast c
   }"

definition is_function :: "AstNode \<Rightarrow> bool" where
  "is_function node = (case node of NODE_FUNCTION _ _ \<Rightarrow> True | _ \<Rightarrow> False)"

definition is_struct :: "AstNode \<Rightarrow> bool" where
  "is_struct node = (case node of NODE_STRUCT _ _ _ _ _ \<Rightarrow> True | _ \<Rightarrow> False)"

definition is_trait_impl :: "AstNode \<Rightarrow> bool" where
  "is_trait_impl node = (case node of NODE_IMPL _ _ _ _ traitName _ _ \<Rightarrow> traitName \<noteq> None | _ \<Rightarrow> False)"

text \<open>
  What lives outside \<open>compile\<close>: the names that the session has declared as immutable, the number of
  lambdas so far, the line last entered, and the resolved targets.  \<open>startCompiler\<close> is the state at
  the start of a program.
\<close>

definition startCompiler :: "StringSet \<Rightarrow> nat \<Rightarrow> int \<Rightarrow> (nat \<times> bytes) list \<Rightarrow> Compiler" where
  "startCompiler immutable lambdas line targets =
     \<lparr>c_current = [], c_currentLoop = [], c_unit = cuInit, c_hadError = False, c_messages = [],
      c_lambdaCount = lambdas, c_currentLine = line, c_implTarget = None, c_immutable = immutable,
      c_targets = targets\<rparr>"

text \<open>The unit, or \<open>None\<close> in the place of NULL when there were errors, and the final state.\<close>

definition compile :: "AstNode list \<Rightarrow> int \<Rightarrow> Compiler \<Rightarrow> (CompiledUnit option \<times> Compiler) option" where
  "compile ast endLine c = do {
     let c = c\<lparr>c_unit := cuInit, c_hadError := False\<rparr>;
     c \<leftarrow> initCompiler TYPE_SCRIPT None c;
     c \<leftarrow> compile_where is_function ast c;
     c \<leftarrow> compile_where is_struct ast c;
     c \<leftarrow> compile_where is_trait_impl ast c;
     c \<leftarrow> compile_where (\<lambda>node. \<not> (is_function node \<or> is_struct node \<or> is_trait_impl node)) ast c;
     (_, c) \<leftarrow> endCompiler (set_line endLine c);
     Some (if c_hadError c then None else Some (c_unit c), c)
   }"

end
