(* ===== verification/Compiler_Relations.thy ===== *)
theory Compiler_Relations
  imports Compiler
begin

text \<open>
  Facts that hold of the whole compiler because they hold of each of its primitive steps.  The locale
  \<open>compiler_relation\<close> has a relation on the unit and the messages that every change of the unit and
  every report respects; inside it, all functions of \<open>Compiler\<close> are shown to respect it.
\<close>

type_synonym view = "CompiledUnit \<times> bool \<times> CompileMessage list"

definition view :: "Compiler \<Rightarrow> view" where
  "view c = (c_unit c, c_hadError c, c_messages c)"

definition unit_set :: "nat \<Rightarrow> CompiledFn \<Rightarrow> CompiledUnit \<Rightarrow> CompiledUnit" where
  "unit_set i fn u = u\<lparr>cu_functions := (cu_functions u)[i := fn]\<rparr>"

lemma view_simps [simp]:
  "view (set_line l c) = view c"
  "view (set_current fc c) = view c"
  "view (c\<lparr>c_current := chain\<rparr>) = view c"
  "view (c\<lparr>c_currentLoop := loops\<rparr>) = view c"
  "view (c\<lparr>c_lambdaCount := n\<rparr>) = view c"
  "view (c\<lparr>c_implTarget := target\<rparr>) = view c"
  "view (c\<lparr>c_immutable := s\<rparr>) = view c"
  "view (beginLoop depth start d c) = view c"
  "view (set_fn i fn c) = (unit_set i fn (c_unit c), c_hadError c, c_messages c)"
  by (simp_all add: view_def set_line_def set_current_def set_fn_def unit_set_def beginLoop_def)

definition okay :: "(view \<Rightarrow> view \<Rightarrow> bool) \<Rightarrow> view \<Rightarrow> Compiler option \<Rightarrow> bool" where
  "okay R v m \<longleftrightarrow> (\<forall>c. m = Some c \<longrightarrow> R v (view c))"

definition okay_val :: "(view \<Rightarrow> view \<Rightarrow> bool) \<Rightarrow> view \<Rightarrow> ('a \<times> Compiler) option \<Rightarrow> bool" where
  "okay_val R v m \<longleftrightarrow> (\<forall>x c. m = Some (x, c) \<longrightarrow> R v (view c))"

text \<open>The function that is being compiled is the one at the index of the current compiler.\<close>

lemma currentFn_at:
  assumes "currentFn c = Some fn"
  obtains i where "cuGetFnByIndex (c_unit c) i = Some fn"
    "\<And>fn'. set_currentFn fn' c = Some (set_fn i fn' c)"
  using assms by (auto simp: currentFn_def set_currentFn_def elim!: bind_SomeE)

lemma set_current_unit [simp]:
  "c_unit (set_current fc c) = c_unit c" "c_unit (set_line l c) = c_unit c"
  by (simp_all add: set_current_def set_line_def)

lemma currentFn_report [simp]: "currentFn (compilerError m c) = currentFn c"
  by (simp add: currentFn_def current_def compilerError_def compilerErrorAt_def report_def)

locale compiler_relation =
  fixes R :: "view \<Rightarrow> view \<Rightarrow> bool" and num_ok :: "NumberKind \<Rightarrow> NumberPayload \<Rightarrow> bool"
  assumes R_refl: "R v v"
    and R_trans: "R v w \<Longrightarrow> R w x \<Longrightarrow> R v x"
    and R_report: "R (u, e, ms) (u, True, ms @ [m])"
    and R_function: "R (u, e, ms) (snd (cuAddFunction u), e, ms)"
    and R_write: "cuGetFnByIndex u i = Some fn \<Longrightarrow>
      R (u, e, ms) (unit_set i (cuWriteByte fn b line) u, e, ms)"
    and R_patch: "cuGetFnByIndex u i = Some fn \<Longrightarrow>
      R (u, e, ms) (unit_set i (fn\<lparr>cf_code := (cf_code fn)[pos := b, pos' := b']\<rparr>) u, e, ms)"
    and R_flags: "cuGetFnByIndex u i = Some fn \<Longrightarrow>
      R (u, e, ms) (unit_set i (fn\<lparr>cf_isStatic := flag\<rparr>) u, e, ms) \<and>
      R (u, e, ms) (unit_set i (fn\<lparr>cf_isPublic := flag\<rparr>) u, e, ms)"
    and R_counts: "cuGetFnByIndex u i = Some fn \<Longrightarrow>
      R (u, e, ms) (unit_set i (fn\<lparr>cf_arity := int n\<rparr>) u, e, ms) \<and>
      R (u, e, ms) (unit_set i (fn\<lparr>cf_upvalueCount := int n\<rparr>) u, e, ms)"
    and R_name: "cuInternString u name = Some (off, u') \<Longrightarrow> cuGetFnByIndex u' i = Some fn \<Longrightarrow>
      R (u, e, ms) (unit_set i (fn\<lparr>cf_nameOffset := int off, cf_nameLength := int (length name)\<rparr>) u', e, ms)"
    and R_string: "cuInternString u s = Some (off, u') \<Longrightarrow> cuGetFnByIndex u' i = Some fn \<Longrightarrow>
      R (u, e, ms)
        (unit_set i (snd (cuAddConstant fn (CONST_STRING (int off) (int (length s))))) u', e, ms)"
    and R_number: "cuGetFnByIndex u i = Some fn \<Longrightarrow> num_ok k p \<Longrightarrow>
      R (u, e, ms) (unit_set i (snd (cuAddConstant fn (CONST_NUMBER k p))) u, e, ms)"
    and R_closure: "cuGetFnByIndex u i = Some fn \<Longrightarrow> j < length (cu_functions u) \<Longrightarrow>
      R (u, e, ms) (unit_set i (snd (cuAddConstant fn (CONST_FUNCTION (int j)))) u, e, ms)"
begin

declare R_refl [simp]

lemma okD: "okay R v m \<Longrightarrow> m = Some c \<Longrightarrow> R v (view c)"
  by (simp add: okay_def)

lemma ok_Some [intro!]: "R v (view c) \<Longrightarrow> okay R v (Some c)"
  by (simp add: okay_def)

lemma ok_None [intro, simp]: "okay R v None"
  by (simp add: okay_def)

lemma ok_bind_when:
  "okay R v m \<Longrightarrow> (\<And>c. m = Some c \<Longrightarrow> okay R (view c) (k c)) \<Longrightarrow> okay R v (Option.bind m k)"
  by (auto simp: okay_def elim!: bind_SomeE intro: R_trans)

lemma ok_bind_val_when:
  "okay_val R v m \<Longrightarrow> (\<And>x c. m = Some (x, c) \<Longrightarrow> okay R (view c) (k x c)) \<Longrightarrow>
     okay R v (Option.bind m (\<lambda>(x, c). k x c))"
  by (fastforce simp: okay_def okay_val_def elim!: bind_SomeE intro: R_trans)

lemma ok_bind [intro!]:
  "okay R v m \<Longrightarrow> (\<And>c. okay R (view c) (k c)) \<Longrightarrow> okay R v (Option.bind m k)"
  by (rule ok_bind_when)

lemma ok_bind_val [intro!]:
  "okay_val R v m \<Longrightarrow> (\<And>x c. okay R (view c) (k x c)) \<Longrightarrow> okay R v (Option.bind m (\<lambda>(x, c). k x c))"
  by (rule ok_bind_val_when)

lemma val_bind_when:
  "okay R v m \<Longrightarrow> (\<And>c. m = Some c \<Longrightarrow> okay_val R (view c) (k c)) \<Longrightarrow> okay_val R v (Option.bind m k)"
  by (auto simp: okay_def okay_val_def elim!: bind_SomeE intro: R_trans)

lemma val_bind_val_when:
  "okay_val R v m \<Longrightarrow> (\<And>x c. m = Some (x, c) \<Longrightarrow> okay_val R (view c) (k x c)) \<Longrightarrow>
     okay_val R v (Option.bind m (\<lambda>(x, c). k x c))"
  by (fastforce simp: okay_val_def elim!: bind_SomeE intro: R_trans)

lemma val_bind [intro!]:
  "okay R v m \<Longrightarrow> (\<And>c. okay_val R (view c) (k c)) \<Longrightarrow> okay_val R v (Option.bind m k)"
  by (auto simp: okay_def okay_val_def elim!: bind_SomeE intro: R_trans)

lemma val_bind_val [intro!]:
  "okay_val R v m \<Longrightarrow> (\<And>x c. okay_val R (view c) (k x c)) \<Longrightarrow>
     okay_val R v (Option.bind m (\<lambda>(x, c). k x c))"
  by (fastforce simp: okay_val_def elim!: bind_SomeE intro: R_trans)

lemma ok_bind_any: "(\<And>x. m = Some x \<Longrightarrow> okay R v (k x)) \<Longrightarrow> okay R v (Option.bind m k)"
  by (auto simp: okay_def elim!: bind_SomeE)

lemma val_bind_any:
  "(\<And>x. m = Some x \<Longrightarrow> okay_val R v (k x)) \<Longrightarrow> okay_val R v (Option.bind m k)"
  by (auto simp: okay_val_def elim!: bind_SomeE)

text \<open>A value that is read, at the types that the compiler reads.\<close>

lemmas ok_reads [intro!] =
  ok_bind_any [where ?'a = CompiledFn] ok_bind_any [where ?'a = FnCompiler]
  ok_bind_any [where ?'a = nat] ok_bind_any [where ?'a = u8] ok_bind_any [where ?'a = Upvalue]
  ok_bind_any [where ?'a = bool]
  val_bind_any [where ?'a = CompiledFn] val_bind_any [where ?'a = FnCompiler]
  val_bind_any [where ?'a = nat] val_bind_any [where ?'a = u8] val_bind_any [where ?'a = Upvalue]
  val_bind_any [where ?'a = bool]

lemma val_Some [intro!]: "R v (view c) \<Longrightarrow> okay_val R v (Some (x, c))"
  by (simp add: okay_val_def)

lemma ok_shift: "okay R (view c) m \<Longrightarrow> R v (view c) \<Longrightarrow> okay R v m"
  by (auto simp: okay_def intro: R_trans)

lemma val_shift: "okay_val R (view c) m \<Longrightarrow> R v (view c) \<Longrightarrow> okay_val R v m"
  by (auto simp: okay_val_def intro: R_trans)

lemma ok_if [intro!]: "(b \<Longrightarrow> okay R v x) \<Longrightarrow> (\<not> b \<Longrightarrow> okay R v y) \<Longrightarrow> okay R v (if b then x else y)"
  by simp

lemma val_if [intro!]:
  "(b \<Longrightarrow> okay_val R v x) \<Longrightarrow> (\<not> b \<Longrightarrow> okay_val R v y) \<Longrightarrow> okay_val R v (if b then x else y)"
  by simp

lemma R_if [intro!]: "R v (view x) \<Longrightarrow> R v (view y) \<Longrightarrow> R v (view (if b then x else y))"
  by simp

subsection \<open>Primitives\<close>

lemma R_reports [intro!]:
  "R (view c) (view (report line place message c))"
  "R (view c) (view (compilerErrorAt line lexeme message c))"
  "R (view c) (view (compilerErrorAtToken token message c))"
  "R (view c) (view (compilerErrorAtNode line message c))"
  "R (view c) (view (compilerError message c))"
  "R (view c) (view (checkStackHeight b line c))"
  by (auto simp: view_def report_def compilerErrorAt_def compilerErrorAtToken_def compilerErrorAtNode_def
      compilerError_def checkStackHeight_def R_refl intro: R_report)

lemma R_report_line [intro!]:
  "R (view c) (view (compilerErrorAtNode l m (set_line k c)))"
  "R (view c) (view (compilerErrorAtToken t m (set_line k c)))"
  using R_reports(3,4) [of "set_line k c"] by simp_all

lemma ok_set_fn:
  assumes "currentFn c = Some fn" "view c = v"
    "\<And>i u e ms. cuGetFnByIndex u i = Some fn \<Longrightarrow> R (u, e, ms) (unit_set i fn' u, e, ms)"
  shows "okay R v (set_currentFn fn' c)"
  using assms view_simps(9) by (auto simp: okay_def view_def elim!: currentFn_at)

lemma emitByte_ok: "okay R (view c) (emitByte b c)"
  unfolding emitByte_def by (auto intro: ok_set_fn R_write)

lemmas ok_emitByte [intro!] = ok_shift [OF emitByte_ok]

lemma emitBytes_ok: "okay R (view c) (emitBytes b b' c)"
  unfolding emitBytes_def by auto

lemmas ok_emitBytes [intro!] = ok_shift [OF emitBytes_ok]

lemma R_countEmittedCode: "countEmittedCode c = Some c' \<Longrightarrow> R (view c) (view c')"
proof (erule countEmittedCode.raw_induct [rotated])
  fix f :: "Compiler \<Rightarrow> Compiler option" and c c'
  assume IH: "\<And>c c'. f c = Some c' \<Longrightarrow> R (view c) (view c')"
  have f: "okay R v (f c)" if "view c = v" for v c using IH that by (auto simp: okay_def)
  show "R (view c) (view c')" if "(do {
     fc \<leftarrow> current c;
     fn \<leftarrow> currentFn c;
     if fc_bytesCounted fc < length (cf_code fn) then do {
       byte \<leftarrow> code_at fn (fc_bytesCounted fc);
       case op_of_byte byte of
         None \<Rightarrow>
           let c = (if c_hadError c then c
                    else compilerErrorAt (c_currentLine c) None
                           ''Internal compiler error: opcode has no OpInfo entry.'' c)
           in Some (set_current (fc\<lparr>fc_bytesCounted := length (cf_code fn)\<rparr>) c)
       | Some op \<Rightarrow> do {
           len \<leftarrow> instruction_length (c_unit c) fn (fc_bytesCounted fc) op;
           count \<leftarrow> count_operand fn (fc_bytesCounted fc) op;
           let fc = applyStackEffect op count fc;
           f (set_current (fc\<lparr>fc_lastOpIsReturn := (op = OP_RETURN),
                              fc_bytesCounted := fc_bytesCounted fc + len\<rparr>) c)
         }
     } else Some c
   }) = Some c'"
    using that
    by (auto simp: Let_def R_refl elim!: bind_SomeE split: if_splits option.splits dest!: IH intro: R_reports)
qed

lemma countEmittedCode_ok: "okay R (view c) (countEmittedCode c)"
  by (auto simp: okay_def R_countEmittedCode)

lemmas ok_countEmittedCode [intro!] = ok_shift [OF countEmittedCode_ok]

lemma currentStackHeight_ok: "okay_val R (view c) (currentStackHeight c)"
  unfolding currentStackHeight_def by auto

lemmas ok_currentStackHeight [intro!] = val_shift [OF currentStackHeight_ok]

lemma resetStackHeight_ok: "okay R (view c) (resetStackHeight h c)"
  unfolding resetStackHeight_def by auto

lemmas ok_resetStackHeight [intro!] = ok_shift [OF resetStackHeight_ok]

lemma makeConstant_ok:
  assumes "\<And>i fn. cuGetFnByIndex (c_unit c) i = Some fn \<Longrightarrow>
      R v (unit_set i (snd (cuAddConstant fn val)) (c_unit c), c_hadError c, c_messages c)"
  shows "okay_val R v (makeConstant val tok c)"
  unfolding makeConstant_def
proof (intro ok_reads)
  fix fn assume "currentFn c = Some fn"
  then obtain i where i: "cuGetFnByIndex (c_unit c) i = Some fn"
    "\<And>fn'. set_currentFn fn' c = Some (set_fn i fn' c)" using currentFn_at by blast
  obtain k fn' where k: "cuAddConstant fn val = (k, fn')" by (cases "cuAddConstant fn val")
  have 1: "R v (view (set_fn i fn' c))" using assms [OF i(1)] k by simp
  have 2: "R v (view (case tok of Some t \<Rightarrow> compilerErrorAtToken t m (set_fn i fn' c)
      | None \<Rightarrow> compilerError m (set_fn i fn' c)))" for m
    using R_trans [OF 1] R_reports by (auto split: option.split simp del: view_simps)
  show "okay_val R v (let (constant, fn) = cuAddConstant fn val
      in set_currentFn fn c \<bind> (\<lambda>c. if 255 < constant
        then Some (0, case tok of
            Some t \<Rightarrow> compilerErrorAtToken t ''Too many constants in one chunk.'' c
          | None \<Rightarrow> compilerError ''Too many constants in one chunk.'' c)
        else Some (word_of_nat constant, c)))"
    unfolding k i(2) prod.case Let_def bind.bind_lunit using 1 2 by (intro val_if val_Some)
qed

lemma stringConstant_ok: "okay_val R (view c) (stringConstant chars tok c)"
  unfolding stringConstant_def
  by (rule val_bind_any, clarsimp, rule makeConstant_ok) (auto simp: view_def intro: R_string)

lemmas ok_stringConstant [intro!] = val_shift [OF stringConstant_ok]

lemma identifierConstant_ok: "okay_val R (view c) (identifierConstant name c)"
  unfolding identifierConstant_def by auto

lemmas ok_identifierConstant [intro!] = val_shift [OF identifierConstant_ok]

lemma emitStringConstant_ok: "okay R (view c) (emitStringConstant chars c)"
  unfolding emitStringConstant_def by auto

lemmas ok_emitStringConstant [intro!] = ok_shift [OF emitStringConstant_ok]

lemma emitNumberConstant_ok: "num_ok k p \<Longrightarrow> okay R (view c) (emitNumberConstant k p c)"
  unfolding emitNumberConstant_def
  by (rule ok_bind_val, rule makeConstant_ok) (auto simp: view_def intro: R_number)

lemma emitShort_ok: "okay R (view c) (emitShort n c)"
  unfolding emitShort_def by auto

lemmas ok_emitShort [intro!] = ok_shift [OF emitShort_ok]

lemma emitLoop_ok: "okay R (view c) (emitLoop start c)"
  unfolding emitLoop_def Let_def by (intro ok_emitByte ok_bind ok_reads ok_emitShort R_if R_refl R_reports)

lemmas ok_emitLoop [intro!] = ok_shift [OF emitLoop_ok]

lemma emitJump_ok: "okay_val R (view c) (emitJump op c)"
  unfolding emitJump_def by auto

lemmas ok_emitJump [intro!] = val_shift [OF emitJump_ok]

lemma patch_code_ok:
  assumes "currentFn c = Some fn"
  shows "okay R (view c) (set_currentFn (fn\<lparr>cf_code := (cf_code fn)[p := b, q := b']\<rparr>)
    (if big then compilerError m c else c))"
proof -
  let ?c = "if big then compilerError m c else c"
  have "currentFn ?c = Some fn" using assms by simp
  then have "okay R (view ?c) (set_currentFn (fn\<lparr>cf_code := (cf_code fn)[p := b, q := b']\<rparr>) ?c)"
    using ok_set_fn R_patch by blast
  moreover have "R (view c) (view ?c)" by auto
  ultimately show ?thesis by (rule ok_shift)
qed

lemma patchJump_ok: "okay R (view c) (patchJump off c)"
  unfolding patchJump_def Let_def
  by (intro ok_bind ok_reads ok_bind_val ok_currentStackHeight ok_if ok_Some R_refl R_reports
      ok_resetStackHeight patch_code_ok) simp_all

lemmas ok_patchJump [intro!] = ok_shift [OF patchJump_ok]

subsection \<open>Variables, scopes and loops\<close>

lemma R_resolveLocal: "resolveLocal fc name c = (i, c') \<Longrightarrow> R (view c) (view c')"
  by (auto simp: resolveLocal_def split: option.splits)

lemma R_addUpvalue: "addUpvalue fc i l m c = (k, fc', c') \<Longrightarrow> R (view c) (view c')"
  by (auto simp: addUpvalue_def split: option.splits if_splits)

lemma R_resolveUpvalue: "resolveUpvalue chain name c = Some (i, chain', c') \<Longrightarrow> R (view c) (view c')"
proof (induction chain name c arbitrary: i chain' c' rule: resolveUpvalue.induct)
  case (3 compiler enclosing outer name c)
  obtain f c1 where 1: "resolveLocal enclosing name c = (f, c1)" by fastforce
  show ?case
  proof (cases f)
    case None
    obtain g ch c2 where 2: "resolveUpvalue (enclosing # outer) name c1 = Some (g, ch, c2)"
      using "3.prems" 1 None by (auto elim!: bind_SomeE)
    have "R (view c) (view c2)"
      using R_trans [OF R_resolveLocal [OF 1] "3.IH" [OF 1 [symmetric] None 2]] by simp
    then show ?thesis using "3.prems" 1 2 None
      by (auto elim!: bind_SomeE split: option.splits prod.splits list.splits if_splits dest!: R_addUpvalue
          intro: R_trans)
  next
    case (Some j)
    then show ?thesis using "3.prems" 1 R_resolveLocal [OF 1]
      by (auto simp: Let_def split: prod.splits dest!: R_addUpvalue intro: R_trans)
  qed
qed auto

lemma addLocal_ok: "okay R (view c) (addLocal name m c)"
  unfolding addLocal_def by auto

lemmas ok_addLocal [intro!] = ok_shift [OF addLocal_ok]

lemma declareVariable_ok: "okay R (view c) (declareVariable name m c)"
  unfolding declareVariable_def by auto

lemmas ok_declareVariable [intro!] = ok_shift [OF declareVariable_ok]

lemma val_bind_chain:
  assumes "\<And>x chain c'. m = Some (x, chain, c') \<Longrightarrow> R v (view c') \<and> okay_val R (view c') (k x chain c')"
  shows "okay_val R v (Option.bind m (\<lambda>(x, chain, c). k x chain c))"
  using assms by (fastforce simp: okay_val_def elim!: bind_SomeE intro: R_trans)

lemma resolveVariable_ok: "okay_val R (view c) (resolveVariable name c)"
  unfolding resolveVariable_def Let_def
proof (rule val_bind_any, clarsimp split: prod.splits option.splits, intro conjI allI impI)
  fix fc c1 assume "resolveLocal fc name c = (None, c1)"
  then have 1: "R (view c) (view c1)" by (rule R_resolveLocal)
  show "okay_val R (view c) (do {
      (found, chain, c) \<leftarrow> resolveUpvalue (c_current c1) name c1;
      case found of
        None \<Rightarrow> do {
          (arg, ca) \<leftarrow> identifierConstant
            (case c_implTarget (c\<lparr>c_current := chain\<rparr>) of None \<Rightarrow> name
             | Some target \<Rightarrow> if tokenTextEquals name (ascii ''Self'') then target else name)
            (c\<lparr>c_current := chain\<rparr>);
          immutable \<leftarrow> isMutuableBinding
            (case c_implTarget (c\<lparr>c_current := chain\<rparr>) of None \<Rightarrow> name
             | Some target \<Rightarrow> if tokenTextEquals name (ascii ''Self'') then target else name) ca;
          Some (\<lparr>vr_getOp = OP_GET_GLOBAL, vr_setOp = OP_SET_GLOBAL, vr_arg = arg,
                 vr_isMutable = (\<not> immutable)\<rparr>, ca) }
      | Some u \<Rightarrow> do {
          fc \<leftarrow> current (c\<lparr>c_current := chain\<rparr>);
          captured \<leftarrow> (if u < length (fc_upvalues fc) then Some (fc_upvalues fc ! u) else None);
          Some (\<lparr>vr_getOp = OP_GET_UPVALUE, vr_setOp = OP_SET_UPVALUE, vr_arg = word_of_nat u,
                 vr_isMutable = uv_isMutable captured\<rparr>, c\<lparr>c_current := chain\<rparr>) } })"
    by (rule val_bind_chain) (auto split: option.split intro: R_trans [OF 1] R_resolveUpvalue)
qed (auto dest: R_resolveLocal)

lemmas ok_resolveVariable [intro!] = val_shift [OF resolveVariable_ok]

lemma emitVarRef_ok: "okay R (view c) (emitVarRef name c)"
  unfolding emitVarRef_def by auto

lemmas ok_emitVarRef [intro!] = ok_shift [OF emitVarRef_ok]

lemma ok_addImmutableBinding [intro!]: "R v (view c) \<Longrightarrow> okay R v (addImmutableBinding name c)"
  unfolding addImmutableBinding_def by (rule ok_bind_any) auto

lemma ok_checkImmutableRedeclaration [intro!]:
  "R v (view c) \<Longrightarrow> okay R v (checkImmutableRedeclaration name c)"
  unfolding checkImmutableRedeclaration_def by (auto intro: R_trans)

lemma parseVariableFromToken_ok: "okay_val R (view c) (parseVariableFromToken name m c)"
  unfolding parseVariableFromToken_def Let_def by auto

lemmas ok_parseVariableFromToken [intro!] = val_shift [OF parseVariableFromToken_ok]

lemma ok_markInitialized [intro!]: "R v (view c) \<Longrightarrow> okay R v (markInitialized c)"
  unfolding markInitialized_def Let_def by auto

lemma defineVariable_ok: "okay R (view c) (defineVariable g c)"
  unfolding defineVariable_def by auto

lemmas ok_defineVariable [intro!] = ok_shift [OF defineVariable_ok]

lemma ok_beginScope [intro!]: "R v (view c) \<Longrightarrow> okay R v (beginScope c)"
  unfolding beginScope_def by auto

lemma R_captureOrClean:
  "captureOrCleanLocalsGoingOutOfScope c = Some c' \<Longrightarrow> R (view c) (view c')"
proof (erule captureOrCleanLocalsGoingOutOfScope.raw_induct [rotated])
  fix f :: "Compiler \<Rightarrow> Compiler option" and c c'
  assume IH: "\<And>c c'. f c = Some c' \<Longrightarrow> R (view c) (view c')"
  have f: "okay R v (f c)" if "R v (view c)" for v c
    using IH that by (auto simp: okay_def intro: R_trans)
  have "okay R (view c) (do {
     fc \<leftarrow> current c;
     if fc_locals fc \<noteq> [] \<and> lc_depth (last (fc_locals fc)) > fc_scopeDepth fc then do {
       c \<leftarrow> emitByte (op_byte (if lc_isCaptured (last (fc_locals fc)) then OP_CLOSE_UPVALUE else OP_POP)) c;
       fc \<leftarrow> current c;
       f (set_current (fc\<lparr>fc_locals := butlast (fc_locals fc)\<rparr>) c)
     } else Some c
   })" by (auto intro: f)
  then show "R (view c) (view c')" if "(do {
     fc \<leftarrow> current c;
     if fc_locals fc \<noteq> [] \<and> lc_depth (last (fc_locals fc)) > fc_scopeDepth fc then do {
       c \<leftarrow> emitByte (op_byte (if lc_isCaptured (last (fc_locals fc)) then OP_CLOSE_UPVALUE else OP_POP)) c;
       fc \<leftarrow> current c;
       f (set_current (fc\<lparr>fc_locals := butlast (fc_locals fc)\<rparr>) c)
     } else Some c
   }) = Some c'" using that by (rule okD)
qed

lemma captureOrClean_ok: "okay R (view c) (captureOrCleanLocalsGoingOutOfScope c)"
  by (auto simp: okay_def R_captureOrClean)

lemmas ok_captureOrClean [intro!] = ok_shift [OF captureOrClean_ok]

lemma endScope_ok: "okay R (view c) (endScope c)"
  unfolding endScope_def by auto

lemmas ok_endScope [intro!] = ok_shift [OF endScope_ok]

lemma pops_loop_ok: "okay R (view c) (pops_loop locals target i c)"
proof (induction i arbitrary: c)
  case (Suc i)
  then show ?case by auto
qed auto

lemma emitPopsToDepth_ok: "okay R (view c) (emitPopsToDepth target c)"
  unfolding emitPopsToDepth_def using pops_loop_ok by auto

lemmas ok_emitPopsToDepth [intro!] = ok_shift [OF emitPopsToDepth_ok]

lemma compileBlockExprClose_ok: "okay R (view c) (compileBlockExprClose c)"
  unfolding compileBlockExprClose_def Let_def by auto

lemmas ok_compileBlockExprClose [intro!] = ok_shift [OF compileBlockExprClose_ok]

lemma patch_all_ok: "okay R (view c) (patch_all js c)"
proof (induction js arbitrary: c)
  case (Cons j js)
  then show ?case by auto
qed auto

lemma endLoop_ok: "okay R (view c) (endLoop c)"
  unfolding endLoop_def using patch_all_ok by (auto split: list.split)

lemmas ok_endLoop [intro!] = ok_shift [OF endLoop_ok]

subsection \<open>Functions\<close>

lemma name_function_ok: "okay R (view c) (name_function name c)"
  unfolding name_function_def Let_def
proof (rule ok_bind_any, rule ok_bind_any, clarsimp)
  fix off unit fn
  let ?c = "c\<lparr>c_unit := unit\<rparr>"
  assume 1: "cuInternString (c_unit c) name = Some (off, unit)" and "currentFn ?c = Some fn"
  then obtain i where i: "cuGetFnByIndex unit i = Some fn"
    "\<And>fn'. set_currentFn fn' ?c = Some (set_fn i fn' ?c)" by (auto elim: currentFn_at)
  have "R (view c) (view (set_fn i (fn\<lparr>cf_nameOffset := int off, cf_nameLength := int (length name)\<rparr>) ?c))"
    using R_name [OF 1 i(1)] by (simp add: view_def [of c] set_fn_def unit_set_def view_def)
  then show "okay R (view c) (set_currentFn (fn\<lparr>cf_nameOffset := int off, cf_nameLength := int (length name)\<rparr>) ?c)"
    unfolding i(2) by (rule ok_Some)
qed

lemmas ok_name_function [intro!] = ok_shift [OF name_function_ok]

lemma set_flag_ok:
  "currentFn c = Some fn \<Longrightarrow> okay R (view c) (set_currentFn (fn\<lparr>cf_isStatic := flag\<rparr>) c)"
  "currentFn c = Some fn \<Longrightarrow> okay R (view c) (set_currentFn (fn\<lparr>cf_isPublic := flag\<rparr>) c)"
  "currentFn c = Some fn \<Longrightarrow> okay R (view c) (set_currentFn (fn\<lparr>cf_arity := int n\<rparr>) c)"
  "currentFn c = Some fn \<Longrightarrow> okay R (view c) (set_currentFn (fn\<lparr>cf_upvalueCount := int n\<rparr>) c)"
  using R_flags R_counts by (blast intro: ok_set_fn)+

lemma initCompiler_ok: "okay R (view c) (initCompiler type name c)"
proof -
  obtain i u where u: "cuAddFunction (c_unit c) = (i, u)" by fastforce
  let ?c = "c\<lparr>c_unit := u, c_current := new_compiler i type (c_currentLoop c) # c_current c, c_currentLoop := []\<rparr>"
  have "R (view c) (view ?c)"
    using R_function [of "c_unit c" "c_hadError c" "c_messages c"] u by (simp add: view_def)
  moreover have "okay R (view c) (do {
     fn \<leftarrow> currentFn c;
     c \<leftarrow> set_currentFn (fn\<lparr>cf_isStatic := (type = TYPE_STATIC_METHOD)\<rparr>) c;
     case name of
       Some name \<Rightarrow> name_function name c
     | None \<Rightarrow>
         if type = TYPE_FUNCTION then
           let c = c\<lparr>c_lambdaCount := c_lambdaCount c + 1\<rparr>
           in name_function (lambda_name (c_lambdaCount c)) c
         else Some c })" for c
    unfolding Let_def by (auto intro: set_flag_ok split: option.split)
  ultimately show ?thesis
    unfolding initCompiler_def u prod.case Let_def by (rule ok_shift [rotated])
qed

lemmas ok_initCompiler [intro!] = ok_shift [OF initCompiler_ok]

lemma emitImplicitReturn_ok: "okay R (view c) (emitImplicitReturn c)"
  unfolding emitImplicitReturn_def by auto

lemmas ok_emitImplicitReturn [intro!] = ok_shift [OF emitImplicitReturn_ok]

lemma ok_emitValueReturn [intro!]: "R v (view c) \<Longrightarrow> okay R v (emitValueReturn c)"
  unfolding emitValueReturn_def by auto

lemma endCompiler_ok: "okay_val R (view c) (endCompiler c)"
  unfolding endCompiler_def Let_def by (auto intro!: set_flag_ok)

lemmas ok_endCompiler [intro!] = val_shift [OF endCompiler_ok]

lemma ok_emitOp [intro!]: "R v (view c) \<Longrightarrow> okay R v (emitOp op c)"
  unfolding emitOp_def by auto

lemma ok_emitCaptures: "okay R (view c) (emitCaptures us c)"
proof (induction us arbitrary: c)
  case (Cons u us)
  then show ?case by auto
qed auto

lemma endFunction_ok: "okay R (view c) (endFunction fn c)"
  unfolding endFunction_def
proof (rule ok_bind_val, rule ok_endCompiler, simp, rule ok_bind_any)
  fix compiler :: FnCompiler and c1 :: Compiler and compiled
  assume "cuGetFnByIndex (c_unit c1) (fc_fnIndex compiler) = Some compiled"
  then have "fc_fnIndex compiler < length (cu_functions (c_unit c1))"
    by (simp add: cuGetFnByIndex_def split: if_splits)
  then show "okay R (view c1) (do {
      (k, c) \<leftarrow> makeConstant (CONST_FUNCTION (int (fc_fnIndex compiler))) None c1;
      c \<leftarrow> emitBytes (op_byte OP_CLOSURE) k c;
      emitCaptures (take (nat (cf_upvalueCount compiled)) (fc_upvalues compiler)) c })"
    by (intro ok_bind_val makeConstant_ok ok_bind ok_emitCaptures) (auto simp: view_def intro: R_closure)
qed

lemmas ok_endFunction [intro!] = ok_shift [OF endFunction_ok]

lemma declareParams_ok: "okay R (view c) (declareParams params c)"
proof (induction params arbitrary: c)
  case (Cons p ps)
  then show ?case by auto
qed auto

lemma beginFunction_ok: "okay R (view c) (beginFunction fn type c)"
  unfolding beginFunction_def Let_def
  by (intro ok_bind ok_reads ok_initCompiler set_flag_ok ok_beginScope ok_shift [OF declareParams_ok]) auto

lemmas ok_beginFunction [intro!] = ok_shift [OF beginFunction_ok]

subsection \<open>Expressions\<close>

lemma emitGetNative_ok: "okay R (view c) (emitGetNative name c)"
  unfolding emitGetNative_def by auto

lemmas ok_emitGetNative [intro!] = ok_shift [OF emitGetNative_ok]

lemma ok_emitNativeStrConcatStart [intro!]: "R v (view c) \<Longrightarrow> okay R v (emitNativeStrConcatStart c)"
  unfolding emitNativeStrConcatStart_def by auto

lemma ok_emitNativeStrConcatEnd [intro!]: "R v (view c) \<Longrightarrow> okay R v (emitNativeStrConcatEnd n line c)"
  unfolding emitNativeStrConcatEnd_def by auto

lemma emitDisplayToString_ok: "okay R (view c) (emitDisplayToString c)"
  unfolding emitDisplayToString_def by auto

lemmas ok_emitDisplayToString [intro!] = ok_shift [OF emitDisplayToString_ok]

lemma compileBreak_ok: "okay R (view c) (compileBreak line c)"
  unfolding compileBreak_def by (auto split: list.split)

lemmas ok_compileBreak [intro!] = ok_shift [OF compileBreak_ok]

lemma compileContinue_ok: "okay R (view c) (compileContinue line c)"
  unfolding compileContinue_def by (auto split: list.split)

lemmas ok_compileContinue [intro!] = ok_shift [OF compileContinue_ok]

lemma ok_emitUnary [intro!]: "R v (view c) \<Longrightarrow> okay R v (emitUnary op c)"
  unfolding emitUnary_def by auto

lemma ok_emitBinary [intro!]: "R v (view c) \<Longrightarrow> okay R v (emitBinary op c)"
  unfolding emitBinary_def by auto

lemma compileLiteral_ok:
  assumes "literals_ok num_ok (NODE_LITERAL line literal)" "R v (view c)"
  shows "okay R v (compileLiteral literal c)"
proof (cases literal)
  case (LITERAL_NUMBER k p a b d)
  then have "num_ok k p" using assms(1) literals_ok_literal by blast
  then show ?thesis using LITERAL_NUMBER ok_shift [OF emitNumberConstant_ok assms(2)] by (simp add: compileLiteral_def)
qed (use assms(2) in \<open>auto simp: compileLiteral_def\<close>)

lemma compileSelf_ok: "okay R (view c) (compileSelf keyword c)"
  unfolding compileSelf_def
  by (intro ok_if ok_reads ok_emitOp ok_emitVarRef R_reports R_refl)

lemmas ok_compileSelf [intro!] = ok_shift [OF compileSelf_ok]

lemma declareStruct_ok: "okay R (view c) (declareStruct name c)"
  unfolding declareStruct_def by auto

lemmas ok_declareStruct [intro!] = ok_shift [OF declareStruct_ok]

end

end
