(* ===== verification/Compiler_Respects.thy ===== *)
theory Compiler_Respects
  imports Compiler_Relations
begin

text \<open>
  The functions that follow the syntax tree respect every relation that the primitive steps respect:
  one induction over all of them, used for every interpretation of the locale.
\<close>


lemma literals_children: "literals_ok P n \<Longrightarrow> list_all (literals_ok P) (node_children n)"
  using literals_ok_child by (auto simp: list_all_iff)
lemma literals_skipGroupings: "literals_ok P n \<Longrightarrow> literals_ok P (skipGroupings n)"
  by (induction n rule: skipGroupings.induct) (auto dest: literals_ok_child)

lemma literals_method_call:
  "literals_ok P x \<Longrightarrow> \<forall>y nm. method_call x = Some (y, nm) \<longrightarrow> literals_ok P y"
  by (cases x) (auto simp: method_call_def dest: literals_ok_child)

lemma literals_collected:
  "literals_ok P n \<Longrightarrow> list_all (literals_ok P) (collectStringConcatOperands n)"
proof (induction n rule: collectStringConcatOperands.induct)
  case (1 n)
  show ?case
  proof (cases "string_concat_sides n")
    case (Some p)
    then obtain l r where p: "string_concat_sides n = Some (l, r)" by (cases p) auto
    then obtain line op where "skipGroupings n = NODE_BINARY line op l r True"
      by (auto simp: string_concat_sides_def split: AstNode.split_asm if_splits)
    then have "literals_ok P l" "literals_ok P r"
      using literals_children [OF literals_skipGroupings [OF "1.prems"]] by auto
    then show ?thesis using "1.IH" [OF p refl] p
      by (subst collectStringConcatOperands.simps) simp
  qed (use "1.prems" in \<open>subst collectStringConcatOperands.simps, simp\<close>)
qed

context compiler_relation begin
lemma ok_reported:
  "okay R (view (if b then compilerErrorAtToken t m c else c))
     (compileExpr n (if b then compilerErrorAtToken t m c else c)) \<Longrightarrow>
   okay R (view c) (compileExpr n (if b then compilerErrorAtToken t m c else c))"
  "okay R (view (if b then compilerErrorAtNode l m c else c))
     (compileExpr n (if b then compilerErrorAtNode l m c else c)) \<Longrightarrow>
   okay R (view c) (compileExpr n (if b then compilerErrorAtNode l m c else c))"
  "okay R (view (if b then compilerErrorAtNode l m (set_line l c) else set_line l c))
     (compileExprs ns (if b then compilerErrorAtNode l m (set_line l c) else set_line l c)) \<Longrightarrow>
   okay R (view c) (compileExprs ns (if b then compilerErrorAtNode l m (set_line l c) else set_line l c))"
  by (cases b; auto intro: ok_shift)+

lemma compile_respects:
  "literals_ok num_ok node \<Longrightarrow> okay R (view c) (compileExpr node c)"
  "list_all (literals_ok num_ok) (opt_list x) \<Longrightarrow> okay R (view c) (compileOpt x c)"
  "list_all (literals_ok num_ok) nodes \<Longrightarrow> okay R (view c) (compileExprs nodes c)"
  "list_all (literals_ok num_ok) args \<Longrightarrow> okay R (view c) (compileArgs b args c)"
  "list_all (literals_ok num_ok) (map snd inits) \<Longrightarrow> okay R (view c) (compileInitFields inits c)"
  "literals_ok num_ok (fst part) \<Longrightarrow> okay R (view c) (compileToString part c)"
  "list_all (literals_ok num_ok) (map fst parts) \<Longrightarrow> okay R (view c) (compileParts parts c)"
  "literals_ok num_ok node \<Longrightarrow> okay R (view c) (compileBranchValue node c)"
  "list_all (literals_ok num_ok) (opt_list (vd_initializer vd)) \<Longrightarrow> okay R (view c) (compileVarDecl vd c)"
  "list_all (literals_ok num_ok) (function_nodes fn) \<Longrightarrow> okay R (view c) (compileFunction fn type c)"
  "list_all (literals_ok num_ok) (field_nodes decls) \<Longrightarrow> okay R (view c) (compileFieldDecls decls c)"
  "list_all (literals_ok num_ok) (concat (map function_nodes methods)) \<Longrightarrow> okay R (view c) (compileMethods methods c)"
  "list_all (literals_ok num_ok) stmts \<Longrightarrow> okay R (view c) (compileStmts stmts c)"
  "list_all (literals_ok num_ok) (block_nodes blk) \<Longrightarrow> okay R (view c) (compileBlockContents blk b c)"
  "literals_ok num_ok node \<Longrightarrow> okay R (view c) (compileStmtKind node c)"
  "literals_ok num_ok node \<Longrightarrow> okay R (view c) (compileStmt node c)"
proof (induction node c and x c and nodes c and b args c and inits c and part c and parts c and node c and vd c and fn type c
  and decls c and methods c and stmts c and blk b c and node c and node c rule: compileExpr_compileOpt_compileExprs_compileArgs_compileInitFields_compileToString_compileParts_compileBranchValue_compileVarDecl_compileFunction_compileFieldDecls_compileMethods_compileStmts_compileBlockContents_compileStmtKind_compileStmt.induct)
  case (1 node c)
  note ch = literals_children [OF "1.prems"]
  note rules = ok_bind_when ok_bind_val_when
  show ?case
  proof (cases node)
    case (NODE_ASSIGN l name val)
    show ?thesis unfolding NODE_ASSIGN
    apply (subst compileExpr.simps)
    apply (simp only: AstNode.case Let_def)
    apply (rule ok_bind_val_when)
    apply (rule ok_resolveVariable)
    apply (rule R_if)
    apply (rule R_trans [where w = "view (set_line l c)"], simp)
    apply (simp only: node_line.simps, rule R_reports)
    apply simp
    apply (rule ok_bind_when)
    apply (rule ok_reported)
    apply (insert ch "1.IH", simp_all only: NODE_ASSIGN node_children.simps list.pred_inject)
    apply (auto)?
    done
  next
    case (NODE_ARRAY l items fixed)
    show ?thesis unfolding NODE_ARRAY
    apply (subst compileExpr.simps)
    apply (simp only: AstNode.case Let_def node_line.simps)
    apply (rule ok_bind_when)
    apply (rule ok_reported)
    apply (insert ch "1.IH", simp_all only: NODE_ARRAY node_children.simps list.pred_inject)
    apply (auto)?
    done
  next
    case (NODE_LITERAL l lit)
    show ?thesis using "1.prems" unfolding NODE_LITERAL
    by (subst compileExpr.simps) (simp, rule compileLiteral_ok, auto)
  next
    case (NODE_BINARY l op x y b)
    note col = literals_collected [OF "1.prems"]
    show ?thesis unfolding NODE_BINARY
    apply (subst compileExpr.simps)
    apply (simp only: AstNode.case Let_def)
    apply (intro rules ok_if)
    apply (insert ch col "1.IH", simp_all add: NODE_BINARY)
    apply (auto)?
    done
  next
    case (NODE_GROUPING l x)
    show ?thesis unfolding NODE_GROUPING
    apply (subst compileExpr.simps)
    apply (simp only: AstNode.case Let_def)
    apply (intro rules)?
    apply (insert ch "1.IH", simp_all add: NODE_GROUPING)
    apply (auto)?
    done
  next
    case (NODE_CAST l x ty t k)
    show ?thesis unfolding NODE_CAST
    apply (subst compileExpr.simps)
    apply (simp only: AstNode.case Let_def)
    apply (intro rules)?
    apply (insert ch "1.IH", simp_all add: NODE_CAST)
    apply (auto)?
    done
  next
    case (NODE_VARIABLE l nm)
    show ?thesis unfolding NODE_VARIABLE
    apply (subst compileExpr.simps)
    apply (simp only: AstNode.case Let_def)
    apply (intro rules)?
    apply (insert ch "1.IH", simp_all add: NODE_VARIABLE)
    apply (auto)?
    done
  next
    case (NODE_AND l x y)
    show ?thesis unfolding NODE_AND
    apply (subst compileExpr.simps)
    apply (simp only: AstNode.case Let_def)
    apply (intro rules)?
    apply (insert ch "1.IH", simp_all add: NODE_AND)
    apply (auto)?
    done
  next
    case (NODE_OR l x y)
    show ?thesis unfolding NODE_OR
    apply (subst compileExpr.simps)
    apply (simp only: AstNode.case Let_def)
    apply (intro rules)?
    apply (insert ch "1.IH", simp_all add: NODE_OR)
    apply (auto)?
    done
  next
    case (NODE_NULLISH l x y)
    show ?thesis unfolding NODE_NULLISH
    apply (subst compileExpr.simps)
    apply (simp only: AstNode.case Let_def)
    apply (intro rules)?
    apply (insert ch "1.IH", simp_all add: NODE_NULLISH)
    apply (auto)?
    done
  next
    case (NODE_STRUCT_INIT l nm inits e)
    show ?thesis unfolding NODE_STRUCT_INIT
    apply (subst compileExpr.simps)
    apply (simp only: AstNode.case Let_def)
    apply (intro rules)?
    apply (insert ch "1.IH", simp_all add: NODE_STRUCT_INIT)
    apply (auto)?
    done
  next
    case (NODE_GET l x nm)
    show ?thesis unfolding NODE_GET
    apply (subst compileExpr.simps)
    apply (simp only: AstNode.case Let_def)
    apply (intro rules)?
    apply (insert ch "1.IH", simp_all add: NODE_GET)
    apply (auto)?
    done
  next
    case (NODE_SET l x nm y)
    show ?thesis unfolding NODE_SET
    apply (subst compileExpr.simps)
    apply (simp only: AstNode.case Let_def)
    apply (intro rules)?
    apply (insert ch "1.IH", simp_all add: NODE_SET)
    apply (auto)?
    done
  next
    case (NODE_SELF l t)
    show ?thesis unfolding NODE_SELF
    apply (subst compileExpr.simps)
    apply (simp only: AstNode.case Let_def)
    apply (intro rules)?
    apply (insert ch "1.IH", simp_all add: NODE_SELF)
    apply (auto)?
    done
  next
    case (NODE_INDEX_GET l x y t)
    show ?thesis unfolding NODE_INDEX_GET
    apply (subst compileExpr.simps)
    apply (simp only: AstNode.case Let_def)
    apply (intro rules)?
    apply (insert ch "1.IH", simp_all add: NODE_INDEX_GET)
    apply (auto)?
    done
  next
    case (NODE_INDEX_SET l x y z t)
    show ?thesis unfolding NODE_INDEX_SET
    apply (subst compileExpr.simps)
    apply (simp only: AstNode.case Let_def)
    apply (intro rules)?
    apply (insert ch "1.IH", simp_all add: NODE_INDEX_SET)
    apply (auto)?
    done
  next
    case (NODE_FUNCTION l fn)
    show ?thesis unfolding NODE_FUNCTION
    apply (subst compileExpr.simps)
    apply (simp only: AstNode.case Let_def)
    apply (intro rules)?
    apply (insert ch "1.IH", simp_all add: NODE_FUNCTION)
    apply (auto)?
    done
  next
    case (NODE_UNARY l op x)
    show ?thesis unfolding NODE_UNARY
    apply (subst compileExpr.simps)
    apply (simp only: AstNode.case Let_def)
    apply (intro rules)?
    apply (insert ch "1.IH", simp_all add: NODE_UNARY)
    apply (auto)?
    done
  next
    case (NODE_CALL l x t xs d)
    have obj: "\<forall>y nm. method_call x = Some (y, nm) \<longrightarrow> literals_ok num_ok y"
      using ch NODE_CALL literals_method_call [of num_ok x] by simp
    show ?thesis unfolding NODE_CALL
    apply (subst compileExpr.simps)
    apply (simp only: AstNode.case Let_def)
    apply (insert ch obj "1.IH")
    apply (simp add: NODE_CALL split: option.split list.split)
    apply (intro conjI impI allI rules)
    apply (simp_all split: option.splits)
    apply (auto)?
    done
  next
    case (NODE_INTERP_STRING l parts)
    show ?thesis unfolding NODE_INTERP_STRING
    apply (subst compileExpr.simps)
    apply (simp only: AstNode.case Let_def)
    apply (insert ch "1.IH")
    apply (simp add: NODE_INTERP_STRING split: option.split list.split)
    apply (intro conjI impI allI rules)
    apply (simp_all split: option.splits)
    apply (auto)?
    done
  next
    case (NODE_IF l x y z)
    show ?thesis unfolding NODE_IF
    apply (subst compileExpr.simps)
    apply (simp only: AstNode.case Let_def)
    apply (insert ch "1.IH")
    apply (simp add: NODE_IF split: option.split list.split)
    apply (intro conjI impI allI rules)
    apply (simp_all split: option.splits)
    apply (auto)?
    done
  next
    case (NODE_BLOCK l blk)
    show ?thesis unfolding NODE_BLOCK
    apply (subst compileExpr.simps)
    apply (simp only: AstNode.case Let_def)
    apply (insert ch "1.IH")
    apply (simp add: NODE_BLOCK block_nodes_def split: option.split list.split)
    apply (intro conjI impI allI rules)
    apply (simp_all split: option.splits)
    apply (auto)?
    done
  qed (simp only:, subst compileExpr.simps, simp only: AstNode.case Let_def, rule ok_Some,
     rule R_trans [OF _ R_reports(4)], simp)+
next
  case (2 x c) show ?case using "2.IH" "2.prems" by (subst compileOpt.simps) (auto simp: opt_list_def split: option.splits)
next
  case (3 nodes c) show ?case
    apply (subst compileExprs.simps)
    apply (cases nodes)
    apply (insert "3.IH" "3.prems")
    apply auto[1]
    apply simp
    apply (intro ok_bind_when)
    apply simp_all
    done
next
  case (4 b args c) show ?case
    apply (subst compileArgs.simps)
    apply (cases args)
    apply (insert "4.IH" "4.prems")
    apply auto[1]
    apply simp
    apply (intro ok_bind_when)
    apply simp_all
    apply (auto)?
    done
next
  case (5 inits c) show ?case
    apply (subst compileInitFields.simps)
    apply (cases inits)
    apply (insert "5.IH" "5.prems")
    apply auto[1]
    apply (simp split: prod.split)
    apply (intro impI allI ok_bind_when ok_bind_val_when)
    apply simp_all
    apply (auto)?
    done
next
  case (6 part c) show ?case
    apply (subst compileToString.simps)
    apply (cases part)
    apply (insert "6.IH" "6.prems")
    apply (simp split: StringConversion.split)
    apply (intro conjI impI allI ok_bind_when ok_bind_val_when)
    apply simp_all
    apply (auto)?
    done
next
  case (7 parts c) show ?case
    apply (subst compileParts.simps)
    apply (cases parts)
    apply (insert "7.IH" "7.prems")
    apply auto[1]
    apply (simp )
    apply (intro conjI impI allI ok_bind_when ok_bind_val_when)
    apply simp_all
    done
next
  case (8 parts c) show ?case
    apply (subst compileBranchValue.simps)
    apply (insert "8.IH" "8.prems")
    apply (simp )
    apply (intro conjI impI allI ok_bind_when ok_bind_val_when)
    apply simp_all
    apply (auto)?
    done
next
  case (9 vd c) show ?case
    apply (subst compileVarDecl.simps)
    apply (insert "9.IH" "9.prems")
    apply (intro conjI impI allI ok_bind_when ok_bind_val_when)
    apply (simp_all split: option.splits)
    apply (auto)?
    done
next
  case (10 fn type c) show ?case
    apply (subst compileFunction.simps)
    apply (insert "10.IH" "10.prems")
    apply (simp split: option.split add: function_nodes_def)
    apply (intro conjI impI allI ok_bind_when ok_bind_val_when)
    apply (simp_all split: option.splits)
    apply (auto)?
    done
next
  case (11 decls c) show ?case
    apply (subst compileFieldDecls.simps)
    apply (cases decls)
    apply (insert "11.IH" "11.prems")
    apply auto[1]
    apply (simp split: option.split add: field_nodes_def)
    apply (intro conjI impI allI ok_bind_when ok_bind_val_when)
    apply (simp_all split: option.splits)
    apply (auto)?
    done
next
  case (12 decls c) show ?case
    apply (subst compileMethods.simps)
    apply (cases decls)
    apply (insert "12.IH" "12.prems")
    apply auto[1]
    apply (simp split del: if_split)
    apply (intro conjI impI allI ok_bind_when ok_bind_val_when)
    apply (simp_all split del: if_split)
    apply (auto split del: if_split)
    done
next
  case (13 decls c) show ?case
    apply (subst compileStmts.simps)
    apply (cases decls)
    apply (insert "13.IH" "13.prems")
    apply auto[1]
    apply (simp split: option.split)
    apply (intro conjI impI allI ok_bind_when ok_bind_val_when)
    apply (simp_all split: option.splits)
    done
next
  case (14 blk b c) show ?case
    apply (subst compileBlockContents.simps)
    apply (insert "14.IH" "14.prems")
    apply (simp split: option.split add: block_nodes_def)
    apply (intro conjI impI allI ok_bind_when ok_bind_val_when)
    apply (simp_all split: option.splits)
    apply (auto)?
    done
next
  case (15 node c)
  note ch = literals_children [OF "15.prems"]
  note rules = ok_bind_when ok_bind_val_when val_bind_when val_bind_val_when ok_reads
  show ?case
  proof (cases "is_statement node")
    case False
    then show ?thesis using "15.IH" "15.prems"
      by (subst compileStmtKind.simps) (simp, intro rules; auto)
  next
    case True
    show ?thesis
    proof (cases node)
      case (NODE_EXPR_STMT l x)
      show ?thesis unfolding NODE_EXPR_STMT
      apply (subst compileStmtKind.simps)
      apply (insert ch "15.IH")
      apply (simp add: NODE_EXPR_STMT Let_def split: option.split)
      apply (intro conjI impI allI rules)?
      apply (simp_all split: option.splits)?
      apply (auto)?
      done
    next
      case (NODE_VAR_DECL l vd)
      show ?thesis unfolding NODE_VAR_DECL
      apply (subst compileStmtKind.simps)
      apply (insert ch "15.IH")
      apply (simp add: NODE_VAR_DECL Let_def split: option.split)
      apply (intro conjI impI allI rules)?
      apply (simp_all split: option.splits)?
      apply (auto)?
      done
    next
      case (NODE_BLOCK l blk)
      show ?thesis unfolding NODE_BLOCK
      apply (subst compileStmtKind.simps)
      apply (insert ch "15.IH")
      apply (simp add: NODE_BLOCK Let_def split: option.split)
      apply (intro conjI impI allI rules)?
      apply (simp_all split: option.splits)?
      apply (auto)?
      done
    next
      case (NODE_IF l x y z)
      show ?thesis unfolding NODE_IF
      apply (subst compileStmtKind.simps)
      apply (insert ch "15.IH")
      apply (simp add: NODE_IF Let_def split: option.split)
      apply (intro conjI impI allI rules)?
      apply (simp_all split: option.splits)?
      apply (auto)?
      done
    next
      case (NODE_WHILE l x y)
      show ?thesis unfolding NODE_WHILE
      apply (subst compileStmtKind.simps)
      apply (insert ch "15.IH")
      apply (simp add: NODE_WHILE Let_def split: option.split)
      apply (intro conjI impI allI rules)?
      apply (simp_all split: option.splits)?
      apply (auto)?
      done
    next
      case (NODE_FOR l x y z i)
      show ?thesis
      proof (cases i)
        case None
        show ?thesis unfolding NODE_FOR None
          apply (subst compileStmtKind.simps)
          apply (insert ch "15.IH")
          apply (simp add: NODE_FOR None Let_def split: option.split)
          apply (intro conjI impI allI rules)
          apply (simp_all split: option.splits)
          apply (auto)?
          done
      next
        case (Some e)
        show ?thesis unfolding NODE_FOR Some
          apply (subst compileStmtKind.simps)
          apply (insert ch "15.IH")
          apply (simp add: NODE_FOR Some Let_def del: Option.bind_assoc split: option.split)
          apply (intro conjI impI allI rules)
          apply (simp_all split: option.splits)
          apply (auto)?
          done
      qed
    next
      case (NODE_RETURN l v)
      show ?thesis
      proof (cases v)
        case None
        show ?thesis unfolding NODE_RETURN None
          by (subst compileStmtKind.simps, simp add: Let_def, intro rules) auto
      next
        case (Some e)
        show ?thesis unfolding NODE_RETURN Some
          apply (subst compileStmtKind.simps)
          apply (simp only: is_statement.simps AstNode.case Let_def option.case not_True_eq_False if_False)
          apply (rule ok_bind_val_when, rule ok_currentStackHeight, simp)
          apply (rule ok_reads, rule ok_bind_when, rule ok_reported(2))
          apply (insert ch "15.IH")
          apply (simp_all only: NODE_RETURN Some)
          apply (auto)
          done
      qed
    next
      case (NODE_BREAK l t)
      show ?thesis unfolding NODE_BREAK
      apply (subst compileStmtKind.simps)
      apply (insert ch "15.IH")
      apply (simp add: NODE_BREAK Let_def split: option.split)
      apply (intro conjI impI allI rules)?
      apply (simp_all split: option.splits)?
      apply (auto)?
      done
    next
      case (NODE_CONTINUE l t)
      show ?thesis unfolding NODE_CONTINUE
      apply (subst compileStmtKind.simps)
      apply (insert ch "15.IH")
      apply (simp add: NODE_CONTINUE Let_def split: option.split)
      apply (intro conjI impI allI rules)?
      apply (simp_all split: option.splits)?
      apply (auto)?
      done
    next
      case (NODE_FUNCTION l fn)
      show ?thesis unfolding NODE_FUNCTION
      apply (subst compileStmtKind.simps)
      apply (insert ch "15.IH")
      apply (simp add: NODE_FUNCTION Let_def split: option.split)
      apply (intro conjI impI allI rules)?
      apply (simp_all split: option.splits)?
      apply (auto)?
      done
    next
      case (NODE_STRUCT l nm gs ds e)
      show ?thesis unfolding NODE_STRUCT
      apply (subst compileStmtKind.simps)
      apply (insert ch "15.IH")
      apply (simp add: NODE_STRUCT Let_def split: option.split)
      apply (intro conjI impI allI rules)?
      apply (simp_all split: option.splits)?
      apply (auto)?
      done
    next
      case (NODE_IMPL l adr nm gs tr fns e)
      show ?thesis unfolding NODE_IMPL
      apply (subst compileStmtKind.simps)
      apply (insert ch "15.IH")
      apply (simp add: NODE_IMPL Let_def split: option.split)
      apply (intro conjI impI allI rules)?
      apply (simp_all split: option.splits)?
      apply (auto)?
      done
    qed (use True in \<open>simp_all add: compileStmtKind.simps\<close>, auto?)
  qed
next
  case (16 node c) show ?case
    apply (subst compileStmt.simps)
    apply (insert "16.IH" "16.prems")
    apply (simp split: option.split add: Let_def)
    apply (intro conjI impI allI ok_bind_when ok_bind_val_when ok_reads)
    apply (simp_all split: option.splits)
    apply (auto)?
    done
qed

lemma compile_where_respects:
  "list_all (literals_ok num_ok) ast \<Longrightarrow> okay R (view c) (compile_where P ast c)"
proof (induction ast arbitrary: c)
  case (Cons n ast)
  have 1: "okay R (view c) (if P n then compileStmt n c else Some c)"
    using Cons.prems compile_respects(16) [of n c] by auto
  show ?case
    unfolding compile_where.simps by (rule ok_bind [OF 1]) (use Cons in simp)
qed auto

theorem compile_unit_respects:
  assumes "list_all (literals_ok num_ok) ast" "compile ast endLine c = Some (res, c')"
  shows "R (cuInit, False, c_messages c) (view c')"
    "res = (if c_hadError c' then None else Some (c_unit c'))"
proof -
  have 0: "(cuInit, False, c_messages c) = view (c\<lparr>c_unit := cuInit, c_hadError := False\<rparr>)"
    by (simp add: view_def)
  have "okay_val R (view (c\<lparr>c_unit := cuInit, c_hadError := False\<rparr>)) (compile ast endLine c)"
    unfolding compile_def Let_def
    by (intro val_bind val_bind_val ok_initCompiler compile_where_respects assms(1) ok_endCompiler val_Some) auto
  then show "R (cuInit, False, c_messages c) (view c')" using assms(2) unfolding 0 okay_val_def by blast
  show "res = (if c_hadError c' then None else Some (c_unit c'))"
    using assms(2) unfolding compile_def Let_def by (auto elim!: bind_SomeE)
qed

end

end
