(* ===== verification/Compiler_Output.thy ===== *)
theory Compiler_Output
  imports Compiler_Respects Unit_Bytes
begin

text \<open>
  What the compiler hands on: a unit that is well-formed in the sense of the byte format, so that the
  runtime reads back the unit that was compiled, and a refusal exactly when it has reported an error.
\<close>

section \<open>The unit that is being built\<close>

text \<open>Strings are named by their place in the arena of the interned strings.\<close>

definition refers :: "StringSet \<Rightarrow> int \<Rightarrow> int \<Rightarrow> bool" where
  "refers s off len \<longleftrightarrow> (\<exists>bs o'. off = int o' \<and> len = int (length bs) \<and> stored_at (ss_arena s) (ss_entries s) bs o')"

fun const_built :: "StringSet \<Rightarrow> nat \<Rightarrow> CompiledConst \<Rightarrow> bool" where
  "const_built s n (CONST_NUMBER k p) = payload_ok k p"
| "const_built s n (CONST_STRING off len) = refers s off len"
| "const_built s n (CONST_FUNCTION i) = (0 \<le> i \<and> i < int n)"
| "const_built s n _ = True"

definition fn_built :: "StringSet \<Rightarrow> nat \<Rightarrow> CompiledFn \<Rightarrow> bool" where
  "fn_built s n fn \<longleftrightarrow>
     0 \<le> cf_arity fn \<and> 0 \<le> cf_upvalueCount fn \<and>
     (cf_nameLength fn = -1 \<and> cf_nameOffset fn = 0 \<or> refers s (cf_nameOffset fn) (cf_nameLength fn)) \<and>
     length (cf_code fn) = length (cf_codeLines fn) \<and> list_all (const_built s n) (cf_constants fn) \<and>
     cf_upvalues fn = []"

definition built :: "CompiledUnit \<Rightarrow> bool" where
  "built u \<longleftrightarrow> string_set_ok (cu_strings u) \<and>
     list_all (fn_built (cu_strings u) (length (cu_functions u))) (cu_functions u)"

lemma built_fn: "built u \<Longrightarrow> cuGetFnByIndex u i = Some fn \<Longrightarrow> fn_built (cu_strings u) (length (cu_functions u)) fn"
  by (auto simp: built_def list_all_length cuGetFnByIndex_def split: if_splits)

lemma built_set:
  "built u \<Longrightarrow> fn_built (cu_strings u) (length (cu_functions u)) fn \<Longrightarrow> built (unit_set i fn u)"
  by (auto simp: built_def unit_set_def list_all_iff dest!: set_update_subset_insert [THEN subsetD])

lemma const_built_mono:
  "const_built s n c \<Longrightarrow> n \<le> m \<Longrightarrow> (\<And>off len. refers s off len \<Longrightarrow> refers t off len) \<Longrightarrow> const_built t m c"
  by (cases c) auto

lemma fn_built_mono:
  "fn_built s n fn \<Longrightarrow> n \<le> m \<Longrightarrow> (\<And>off len. refers s off len \<Longrightarrow> refers t off len) \<Longrightarrow> fn_built t m fn"
  by (auto simp: fn_built_def list_all_iff intro: const_built_mono)

lemma built_add: "built u \<Longrightarrow> built (snd (cuAddFunction u))"
  by (auto simp: built_def cuAddFunction_def list_all_iff intro: fn_built_mono)
    (simp add: fn_built_def cuInitFn_def)

lemma built_intern:
  assumes "built u" "cuInternString u cs = Some (off, u')"
  shows "built u'" "refers (cu_strings u') (int off) (int (length cs))" "cu_functions u' = cu_functions u"
proof -
  obtain s' where s': "stringSetIntern (cu_strings u) cs = Some (off, s')" "u' = u\<lparr>cu_strings := s'\<rparr>"
    using assms(2) by (auto simp: cuInternString_def elim!: bind_SomeE)
  have ok: "string_set_ok (cu_strings u)" using assms(1) by (simp add: built_def)
  obtain off' s'' where l: "stringSetIntern (cu_strings u) cs = Some (off', s'')" "string_set_ok s''"
    "\<And>x o'. stored_at (ss_arena s'') (ss_entries s'') x o' \<longleftrightarrow>
       stored_at (ss_arena (cu_strings u)) (ss_entries (cu_strings u)) x o' \<or> (x = cs \<and> o' = off')"
    using string_set.intern_law [OF ok, of cs] by blast
  have r: "refers (cu_strings u) a b \<Longrightarrow> refers s' a b" for a b using l s' by (auto simp: refers_def)
  show "cu_functions u' = cu_functions u" using s' by simp
  show "refers (cu_strings u') (int off) (int (length cs))" using l s' by (auto simp: refers_def)
  show "built u'" using assms(1) l s' r by (auto simp: built_def list_all_iff intro: fn_built_mono)
qed

lemma built_constant:
  assumes "built u" "cuGetFnByIndex u i = Some fn" "const_built (cu_strings u) (length (cu_functions u)) c"
  shows "built (unit_set i (snd (cuAddConstant fn c)) u)"
  using assms built_fn [OF assms(1,2)]
  by (intro built_set) (auto simp: cuAddConstant_def fn_built_def split: option.split)

interpretation unit_built: compiler_relation "\<lambda>v w. built (fst v) \<longrightarrow> built (fst w)" payload_ok
proof (unfold_locales, goal_cases)
  case (9 u name off u' i fn e ms)
  then show ?case using built_intern [of u name off u'] built_fn [of u' i fn]
    by (auto simp: fn_built_def intro!: built_set)
next
  case (10 u str off u' i fn e ms)
  then show ?case using built_intern [of u str off u'] by (auto intro!: built_constant)
next
  case (11 u i fn k p e ms)
  then show ?case by (auto intro!: built_constant)
next
  case (12 u i fn j e ms)
  then show ?case by (auto intro!: built_constant)
qed (use built_fn in \<open>auto simp: fn_built_def cuWriteByte_def built_add intro!: built_set\<close>)

text \<open>C's \<open>int\<close>: the counts, sizes and lines of the unit, which the program keeps in one.\<close>

definition fits_int :: "CompiledUnit \<Rightarrow> bool" where
  "fits_int u \<longleftrightarrow>
     length (cu_functions u) \<le> 2147483647 \<and> length (ss_arena (cu_strings u)) \<le> 2147483647 \<and>
     list_all (\<lambda>fn. cf_arity fn \<le> 2147483647 \<and> cf_upvalueCount fn \<le> 2147483647 \<and>
       length (cf_code fn) \<le> 2147483647 \<and> length (cf_constants fn) \<le> 2147483647 \<and>
       list_all in_i32 (cf_codeLines fn)) (cu_functions u)"

lemma refers_inside:
  assumes "refers s off len" "string_set_ok s"
  shows "rangeInside off len (length (ss_arena s))"
  using assms string_set.at_bytes [of s] by (force simp: refers_def rangeInside_def)

lemma built_unit_ok:
  assumes "built u" "fits_int u" "cu_functions u \<noteq> []"
  shows "unit_ok u"
proof -
  have ok: "string_set_ok (cu_strings u)" using assms(1) by (simp add: built_def)
  have "fn_ok (length (ss_arena (cu_strings u))) (length (cu_functions u)) fn" if "fn \<in> set (cu_functions u)" for fn
  proof -
    have b: "fn_built (cu_strings u) (length (cu_functions u)) fn" using assms(1) that by (simp add: built_def list_all_iff)
    have f: "cf_arity fn \<le> 2147483647" "cf_upvalueCount fn \<le> 2147483647" "length (cf_code fn) \<le> 2147483647"
      "length (cf_constants fn) \<le> 2147483647" "list_all in_i32 (cf_codeLines fn)"
      using assms(2) that by (auto simp: fits_int_def list_all_iff)
    have str: "rangeInside off len (length (ss_arena (cu_strings u))) \<and> in_i32 off \<and> in_i32 len"
      if "refers (cu_strings u) off len" for off len
      using refers_inside [OF that ok] assms(2) by (auto simp: rangeInside_def fits_int_def in_i32_def)
    have "const_ok (length (ss_arena (cu_strings u))) (length (cu_functions u)) c" if "c \<in> set (cf_constants fn)" for c
    proof -
      have "const_built (cu_strings u) (length (cu_functions u)) c" using b that by (auto simp: fn_built_def list_all_iff)
      then show ?thesis using str assms(2) by (cases c) (auto simp: const_ok_def fits_int_def in_i32_def)
    qed
    moreover have "header_ok (length (ss_arena (cu_strings u))) fn"
    proof (cases "cf_nameLength fn = -1 \<and> cf_nameOffset fn = 0")
      case True
      then show ?thesis using b f by (auto simp: header_ok_def fn_built_def in_i32_def)
    next
      case False
      then have "refers (cu_strings u) (cf_nameOffset fn) (cf_nameLength fn)" using b by (auto simp: fn_built_def)
      then show ?thesis using str b f by (auto simp: header_ok_def fn_built_def in_i32_def)
    qed
    ultimately show ?thesis using b f by (auto simp: fn_ok_def code_ok_def fn_built_def list_all_iff)
  qed
  then show ?thesis using assms(2,3) by (auto simp: unit_ok_def fits_int_def)
qed

lemma built_cuInit: "built cuInit"
  by (simp add: built_def cuInit_def)

lemma endCompiler_functions:
  assumes "endCompiler c = Some (fc, c')"
  shows "cu_functions (c_unit c') \<noteq> []"
proof -
  have "cu_functions (c_unit d') \<noteq> []" if "currentFn d = Some fn" "set_currentFn fn' d = Some d'" for d d' fn fn'
    using that by (auto simp: currentFn_def set_currentFn_def set_fn_def cuGetFnByIndex_def elim!: bind_SomeE split: if_splits)
  then show ?thesis using assms unfolding endCompiler_def Let_def by (auto elim!: bind_SomeE)
qed

lemma compile_functions:
  assumes "compile ast endLine c = Some (res, c')"
  shows "cu_functions (c_unit c') \<noteq> []"
  using assms unfolding compile_def Let_def by (auto elim!: bind_SomeE dest: endCompiler_functions)

lemma compiled_unit_ok:
  assumes "list_all (literals_ok payload_ok) ast" "compile ast endLine c = Some (Some u, c')" "fits_int u"
  shows "unit_ok u"
proof -
  have "built (c_unit c')" "u = c_unit c'"
    using unit_built.compile_unit_respects [OF assms(1,2)] built_cuInit by (auto simp: view_def split: if_splits)
  then show ?thesis using built_unit_ok assms(3) compile_functions [OF assms(2)] by simp
qed

section \<open>Errors\<close>

lemma reports_relation:
  "compiler_relation
     (\<lambda>(u, e, ms) (u', e', ms'). \<exists>new. ms' = ms @ new \<and> (e' \<longleftrightarrow> e \<or> new \<noteq> [])) (\<lambda>_ _. True)"
  by unfold_locales auto

interpretation reports: compiler_relation
  "\<lambda>(u, e, ms) (u', e', ms'). \<exists>new. ms' = ms @ new \<and> (e' \<longleftrightarrow> e \<or> new \<noteq> [])" "\<lambda>_ _. True"
  by (rule reports_relation)

lemma literals_ok_any: "literals_ok (\<lambda>_ _. True) n"
  by (auto simp: literals_ok_def list_all_iff split: AstNode.splits LiteralNode.splits)

text \<open>The program \<open>2 + -3;\<close>, and \<open>break;\<close> outside of a loop.\<close>

definition sample_number :: "int \<Rightarrow> AstNode" where
  "sample_number n = NODE_LITERAL 1 (LITERAL_NUMBER NUMBER_KIND_I8 (word_of_int n) False 0 False)"

definition sample_program :: "AstNode list" where
  "sample_program =
     [NODE_EXPR_STMT 1 (NODE_BINARY 1 \<lparr>tok_type = TOKEN_PLUS, tok_text = [43], tok_line = 1\<rparr>
        (sample_number 2) (sample_number (-3)) False)]"

definition sample_start :: Compiler where
  "sample_start = startCompiler stringSetInit 0 0 []"

lemma sample_program_run:
  "case compile sample_program 1 sample_start of
     Some (Some u, c) \<Rightarrow> ss_arena (cu_strings u) = [] \<and>
       cu_functions u = [cuInitFn\<lparr>cf_code := [0, 0, 0, 1, 4, 14, 1, 11], cf_codeLines := [1, 1, 1, 1, 1, 1, 1, 1],
         cf_constants := [CONST_NUMBER NUMBER_KIND_I8 2, CONST_NUMBER NUMBER_KIND_I8 (- 3)]\<rparr>]
   | _ \<Rightarrow> False"
  by code_simp

lemma sample_compiled:
  obtains u c where "compile sample_program 1 sample_start = Some (Some u, c)" "fits_int u"
    "list_all (literals_ok payload_ok) sample_program" "length (cf_code (hd (cu_functions u))) = 8"
proof -
  obtain u c where 1: "compile sample_program 1 sample_start = Some (Some u, c)"
    and 2: "ss_arena (cu_strings u) = []"
    and 3: "cu_functions u = [cuInitFn\<lparr>cf_code := [0, 0, 0, 1, 4, 14, 1, 11], cf_codeLines := [1, 1, 1, 1, 1, 1, 1, 1],
         cf_constants := [CONST_NUMBER NUMBER_KIND_I8 2, CONST_NUMBER NUMBER_KIND_I8 (- 3)]\<rparr>]"
    using sample_program_run by (auto split: option.split_asm prod.split_asm)
  have "fits_int u" using 2 by (simp add: fits_int_def 3 cuInitFn_def in_i32_def)
  moreover have "list_all (literals_ok payload_ok) sample_program" by code_simp
  ultimately show thesis using 1 3 that by simp
qed

text \<open>C4. A unit that the compiler hands on is well-formed: every constant is a number of its kind, a string
  that lies inside the interned strings or a function of the unit, every function has one line per byte and a
  name that lies inside the strings.  The number literals of the tree must be in the range of their kind.\<close>

theorem compiled_units_are_well_formed:
  assumes "list_all (literals_ok payload_ok) ast" "compile ast endLine c = Some (Some u, c')" "fits_int u"
  shows "unit_ok u"
  using assms by (rule compiled_unit_ok)

theorem compiled_units_are_well_formed_witness:
  "\<exists>u c. compile sample_program 1 sample_start = Some (Some u, c) \<and> unit_ok u \<and>
     length (cf_code (hd (cu_functions u))) = 8"
proof -
  obtain u c where s: "compile sample_program 1 sample_start = Some (Some u, c)" "fits_int u"
    "list_all (literals_ok payload_ok) sample_program" "length (cf_code (hd (cu_functions u))) = 8"
    by (rule sample_compiled)
  then show ?thesis using compiled_units_are_well_formed [OF s(3,1,2)] by blast
qed

text \<open>C28. A unit that the compiler hands on is read back by the runtime from its bytes, function by
  function, constant by constant.\<close>

theorem compiled_units_are_read_back:
  assumes "list_all (literals_ok payload_ok) ast" "compile ast endLine c = Some (Some u, c')" "fits_int u"
    "length version < 256"
  shows "unitDecode version (unitEncode version u) = (Some (unit_wire u), UNIT_DECODE_OK)"
  using unitDecode_roundtrip [OF compiled_unit_ok [OF assms(1-3)] assms(4)] .

theorem compiled_units_are_read_back_witness:
  "\<exists>u c. compile sample_program 1 sample_start = Some (Some u, c) \<and>
     unitDecode [48] (unitEncode [48] u) = (Some (unit_wire u), UNIT_DECODE_OK)"
proof -
  obtain u c where s: "compile sample_program 1 sample_start = Some (Some u, c)" "fits_int u"
    "list_all (literals_ok payload_ok) sample_program" "length (cf_code (hd (cu_functions u))) = 8"
    by (rule sample_compiled)
  then show ?thesis using compiled_units_are_read_back [OF s(3,1,2), of "[48]"] by auto
qed

text \<open>C29. The compiler refuses a program exactly when it has reported at least one error in it.\<close>

theorem compile_refuses_what_it_reports:
  assumes "compile ast endLine c = Some (res, c')"
  shows "\<exists>new. c_messages c' = c_messages c @ new \<and> (res = None \<longleftrightarrow> new \<noteq> [])"
proof -
  have lits: "list_all (literals_ok (\<lambda>_ _. True)) ast" by (simp add: literals_ok_any list_all_iff)
  show ?thesis using reports.compile_unit_respects [OF lits assms] by (auto simp: view_def)
qed

definition stray_break :: "AstNode list" where
  "stray_break = [NODE_BREAK 7 \<lparr>tok_type = TOKEN_BREAK, tok_text = [], tok_line = 7\<rparr>]"

lemma stray_break_run:
  "case compile stray_break 7 sample_start of
     Some (None, c) \<Rightarrow> map cm_line (c_messages c) = [7] | _ \<Rightarrow> False"
  by code_simp

theorem compile_refuses_what_it_reports_witness:
  "\<exists>c. compile stray_break 7 sample_start = Some (None, c) \<and> map cm_line (c_messages c) = [7] \<and>
     (\<exists>new. c_messages c = c_messages sample_start @ new \<and> new \<noteq> [])"
proof -
  obtain c where c: "compile stray_break 7 sample_start = Some (None, c)" "map cm_line (c_messages c) = [7]"
    using stray_break_run by (auto split: option.split_asm prod.split_asm)
  then show ?thesis using compile_refuses_what_it_reports [OF c(1)] by auto
qed

end
