(* ===== verification/Spec2Isabelle.thy ===== *)
theory Spec2Isabelle
  imports Number_Ops Hash_Table String_Set Packaged_Program VM_Upvalues VM_Fields VM_Slots Loader
    Native Lexing_Read Assignment_Scopes Compiler_Output
begin

text \<open>
  \<^bold>\<open>What this is.\<close>  A verification development for Kirby, a statically typed language compiled
  to bytecode for a stack machine, written in C under \<^verbatim>\<open>src/src\<close> (paths below are relative to
  \<^verbatim>\<open>src/\<close>).  A source file is scanned and parsed to a syntax tree, type checked, compiled to a
  unit of functions, and either run at once or written to a file next to a copy of the runtime.  To
  run, a unit is loaded into objects of a garbage collected heap and interpreted.

  \<^bold>\<open>Conventions.\<close>  Integers that the C code keeps at a width are words or carry explicit range
  checks, with one exception: the lengths and capacities of arrays and strings are unbounded numbers where
  the code grows them without a check (the hash table, the string set, the scanner's tokens, the arrays of
  code and constants), so that an \<open>int\<close> that overflows beyond 2 GiB of one array is outside the model.  \<open>None\<close> is undefined behaviour in C, or a loop that does not end; failures that the
  program reports are values.  A pointer to a heap object is an address, never reused, and reading
  through one whose object has been freed is \<open>None\<close>.  Memory that the system refuses, for which the
  source exits, is not modelled.

  \<^bold>\<open>The theories.\<close>
  \<^item> \<open>Prelude\<close>: C's signed arithmetic, byte strings and the shared facts on words.
  \<^item> \<open>Number_Kind\<close>, \<open>Float64\<close>, \<open>Number_Ops\<close>: \<^verbatim>\<open>src/number_kind.c\<close> and \<^verbatim>\<open>src/number_ops.c\<close>; doubles are
    bit patterns with an IEEE 754 model.  Integer arithmetic and casts are shown exact or refused.
  \<^item> \<open>Value\<close>, \<open>Linear_Probe\<close>, \<open>Hash_Table\<close>: \<^verbatim>\<open>src/value.h\<close> and \<^verbatim>\<open>src/hashtable.c\<close>.  The table
    implements the locale \<open>finite_map\<close>; probing ends because a free slot always exists.
  \<^item> \<open>String_Set\<close>, \<open>Compiled_Unit\<close>: \<^verbatim>\<open>src/stringset.c\<close> and \<^verbatim>\<open>src/compiled_unit.c\<close>, with the locale
    \<open>byte_interner\<close> for what the compiler relies on.
  \<^item> \<open>Byte_Codec\<close>, \<open>Unit_Bytes\<close>: the encoder and decoder of \<^verbatim>\<open>src/unit_bytes.c\<close>, built from codecs of
    the locale \<open>codec\<close>; the decoder inverts the encoder and accepts nothing else.
  \<^item> \<open>Packaged_Program\<close>: \<^verbatim>\<open>src/packaged_program.c\<close> and the loading part of \<^verbatim>\<open>src/runtime.c\<close>, over a map
    of files, with the refusals of the operating system as parameters.
  \<^item> \<open>Runtime_State\<close>: the objects of \<^verbatim>\<open>src/object.h\<close>, the heap of \<^verbatim>\<open>src/gc.h\<close> and the machine of
    \<^verbatim>\<open>src/vm.h\<close>, as records.
  \<^item> \<open>GC\<close>: \<^verbatim>\<open>src/gc.c\<close>.  Marking from the machine's roots, tracing with the tricolour invariant, the
    sweep, and the accounting that triggers a collection.  \<open>heap_ok\<close> is the invariant of the heap: no
    object points at a freed one, instances are younger than their structs, the interned strings are
    live and different.  The measure for tracing is the gray objects plus the white ones.
  \<^item> \<open>Object_Heap\<close>: \<^verbatim>\<open>src/object.c\<close>, with the growing arrays of \<^verbatim>\<open>src/value.c\<close> and \<^verbatim>\<open>src/chunk.c\<close>;
    every allocation may collect.
  \<^item> \<open>Opcode\<close>, \<open>VM_Calls\<close>, \<open>VM_Run\<close>: \<^verbatim>\<open>src/opcode.c\<close> and \<^verbatim>\<open>src/vm.c\<close>, one definition per
    instruction; \<open>step\<close> is one turn of the loop of \<open>run\<close>.
  \<^item> \<open>VM_Store\<close>: no allocation changes an object that survives it.  \<open>VM_Effects\<close>: the stack effect of every
    instruction and the operand bytes it reads.
  \<^item> \<open>Native_Relations\<close>: the locale \<open>native_relation\<close>, which carries a relation on machines from the primitive
    steps to every native of the table.  \<open>VM_Frames\<close> interprets it to show that a native leaves the call frames
    alone, or clears them after an error, and has the bound on the frames.  \<open>VM_Slots\<close> interprets it for what is
    below a frame on the stack, and has what a call and its return leave of the caller.
    \<open>VM_Fields\<close> interprets it to show that no native writes a field, and has who may write the fields of an
    instance.
  \<^item> \<open>VM_Upvalues\<close>: sharing and closing of captured variables.
  \<^item> \<open>Heap_Alloc\<close>, \<open>Loader\<close>: \<^verbatim>\<open>src/loader.c\<close>, and what every allocation guarantees to its caller.
    \<open>keeps W vm vm'\<close> says that an operation left everything reachable alone, except for the
    objects in \<open>W\<close>, which may only have gained references; it composes.
  \<^item> \<open>Float64_Math\<close>, \<open>Number_Format\<close>, \<open>Asserts\<close>: the functions of the C library that the natives call,
    \<open>formatNumber\<close> of \<^verbatim>\<open>src/value.c\<close>, and the argument checks of \<^verbatim>\<open>src/asserts.c\<close>.
  \<^item> \<open>Native_Data\<close>, \<open>Native_Text\<close>, \<open>Native_Numbers\<close>, \<open>Native_System\<close>, \<open>Native\<close>: every function of
    \<^verbatim>\<open>src/native.c\<close>, the table of their names, and \<open>initVM\<close> of \<^verbatim>\<open>src/vm.c\<close>, which defines them as globals.

  \<^item> \<open>Token\<close>, \<open>Scanner\<close>: \<^verbatim>\<open>src/token.c\<close>, \<^verbatim>\<open>src/token_stream.c\<close>, \<^verbatim>\<open>src/scanner.c\<close> and \<^verbatim>\<open>src/lexer.c\<close>.
    \<open>Scan_Loops\<close>, \<open>Lexing\<close>, \<open>Lexing_Read\<close>: scanning ends and covers the source, tokens spell what
    their types say, and written tokens are read back.
  \<^item> \<open>Ast\<close>: the nodes of \<^verbatim>\<open>src/ast.h\<close>.  \<open>Definite_Assignment\<close>: \<^verbatim>\<open>src/definite_assignment.c\<close>.
    \<open>Assignment_Safety\<close> shows the check sound against runs on sets of names, and \<open>Assignment_Scopes\<close> against runs in
    which every declaration is a variable of its own, as long as none hides an unassigned one.
  \<^item> \<open>Compiler_State\<close>, \<open>Compiler\<close>: \<^verbatim>\<open>src/compiler.c\<close> and \<^verbatim>\<open>src/resolved_impl_targets.c\<close>.
    \<open>Compiler_Relations\<close> has the locale \<open>compiler_relation\<close>, which \<open>Compiler_Respects\<close> carries from the
    primitive steps to the whole compiler; \<open>Compiler_Output\<close> interprets it to show that units are
    well-formed and that a program is refused exactly when an error was reported.

  \<^bold>\<open>Parameters.\<close>  The machine takes the native functions as an argument \<open>native\<close>, because \<^verbatim>\<open>src/vm.c\<close> calls them
  through the table of \<^verbatim>\<open>src/native.c\<close>; the theorems about the running machine are stated of \<open>run_native\<close>, the
  natives of the program, or hold of any.  The files, the
  environment, the standard streams, the random numbers, the clocks and \<open>pow\<close> of the C library are a
  record \<open>System\<close> in the machine.  The version string of the build, and which calls the operating
  system refuses, are arguments.

  \<^bold>\<open>Not modelled.\<close>  The parser and the type checker, the disassembler, the command line
  and the build of the standard library; the text of runtime error messages (their arguments are
  kept).  The sizes that the collector accounts are those of the LP64 layout of the C structs.
\<close>

end
